(* ===== verification/Prelude.thy ===== *)
theory Prelude
  imports Main "HOL-Library.Word" "HOL-Library.Monad_Syntax" "HOL-Library.Code_Target_Numeral"
begin

text \<open>
  What the components share: the types the C sources use (fixed-width unsigned integers,
  byte strings, memory words in either byte order), the way undefined behaviour is written,
  the big-endian value of a byte string, and the collections of simplification rules the
  component proofs use.

  Every function of the model that can run into behaviour C leaves undefined (a shift by the
  width of the type or more, an index outside of an array, a null pointer) has a result of
  type \<open>'a option\<close>; \<open>None\<close> is that behaviour and nothing else.  Error returns
  of the code are ordinary values.
\<close>

unbundle bit_operations_syntax

section \<open>Types and collections\<close>

type_synonym u8 = "8 word"
type_synonym u16 = "16 word"
type_synonym u32 = "32 word"
type_synonym bytes = "u8 list"

text \<open>The byte order of the machine the program was compiled for.\<close>

datatype endian = Little | Big

text \<open>What the model takes from the compiler: the byte order and \<open>ULONG_MAX\<close>.\<close>

record target =
  tgt_endian :: endian
  tgt_ulong_max :: nat

text \<open>Rules about the value of byte strings, and about C's integer operations.\<close>

named_theorems be_simps "values of byte strings"
named_theorems c_int "the code's integer operations over natural numbers"

section \<open>Lists\<close>

lemma take_Suc_nth: "n < length xs \<Longrightarrow> take (Suc n) xs = take n xs @ [xs ! n]"
  by (rule take_Suc_conv_app_nth)

lemma length_4_conv: "length xs = 4 \<longleftrightarrow> (\<exists>a b c d. xs = [a, b, c, d])"
  by (auto simp: numeral_eq_Suc length_Suc_conv)

lemma length_2_conv: "length xs = 2 \<longleftrightarrow> (\<exists>a b. xs = [a, b])"
  by (auto simp: numeral_eq_Suc length_Suc_conv)

lemma dropWhile_length_le: "length (dropWhile P xs) \<le> length xs"
  by (induction xs) auto

section \<open>The big-endian value of a byte string\<close>

fun be_val :: "bytes \<Rightarrow> nat" where
  "be_val [] = 0"
| "be_val (b # bs) = unat b * 256 ^ length bs + be_val bs"

lemma unat_byte_less [simp]: "unat (b :: u8) < 256"
  using unsigned_less [of b, where 'a = nat] by simp

lemma unat_byte_le [simp]: "unat (b :: u8) \<le> 255"
  using unat_byte_less [of b] by linarith

lemma be_val_less [simp]: "be_val bs < 256 ^ length bs"
proof (induction bs)
  case (Cons b bs)
  have "unat b * 256 ^ length bs + be_val bs < (unat b + 1) * 256 ^ length bs"
    using Cons.IH by (simp add: algebra_simps)
  also have "\<dots> \<le> 256 * 256 ^ length bs"
    using unat_byte_less [of b] by (intro mult_right_mono) auto
  finally show ?case by simp
qed simp

lemma be_val_append [be_simps]: "be_val (xs @ ys) = be_val xs * 256 ^ length ys + be_val ys"
  by (induction xs) (simp_all add: power_add algebra_simps)

lemma be_val_snoc [be_simps]: "be_val (xs @ [b]) = 256 * be_val xs + unat b"
  by (simp add: be_val_append)

lemma be_val_replicate_0 [be_simps]: "be_val (replicate n 0) = 0"
  by (induction n) auto

lemma be_val_replicate_FF [be_simps]: "be_val (replicate n 255) = 256 ^ n - 1"
proof (induction n)
  case (Suc n)
  have "(1::nat) \<le> 256 ^ n" and "unat (255 :: u8) = 255" by simp_all
  with Suc show ?case by (simp add: algebra_simps del: unsigned_numeral)
qed simp

lemma be_val_split: "be_val xs = be_val (take n xs) * 256 ^ (length xs - n) + be_val (drop n xs)"
  using be_val_append [of "take n xs" "drop n xs"] by simp

lemma be_val_inj:
  assumes "length xs = length ys" and "be_val xs = be_val ys"
  shows "xs = ys"
  using assms
proof (induction xs ys rule: list_induct2)
  case (Cons x xs y ys)
  let ?B = "256 ^ length xs :: nat"
  have eq: "unat x * ?B + be_val xs = unat y * ?B + be_val ys"
    using Cons.prems Cons.hyps by simp
  have lt: "be_val xs < ?B" "be_val ys < ?B"
    using be_val_less [of xs] be_val_less [of ys] Cons.hyps by auto
  have "(unat x * ?B + be_val xs) div ?B = (unat y * ?B + be_val ys) div ?B"
    using eq by simp
  then have "unat x = unat y" using lt by simp
  moreover from this eq have "be_val xs = be_val ys" by simp
  ultimately show ?case using Cons.IH by (simp add: word_unat_eq_iff)
qed simp

lemma be_val_eq_iff: "length xs = length ys \<Longrightarrow> be_val xs = be_val ys \<longleftrightarrow> xs = ys"
  using be_val_inj by blast

section \<open>Words in memory\<close>

text \<open>A 32-bit word as its four bytes, most significant first, and back.\<close>

definition bytes32 :: "u32 \<Rightarrow> bytes" where
  "bytes32 w = [ucast (drop_bit 24 w), ucast (drop_bit 16 w), ucast (drop_bit 8 w), ucast w]"

definition word32 :: "bytes \<Rightarrow> u32" where
  "word32 bs = word_of_nat (be_val bs)"

lemma length_bytes32 [simp]: "length (bytes32 w) = 4"
  by (simp add: bytes32_def)

lemma split_bytes_4:
  fixes n :: nat
  shows "n div 16777216 * 16777216
    + (n div 65536 mod 256 * 65536 + (n div 256 mod 256 * 256 + n mod 256)) = n"
proof -
  have "n div 256 * 256 + n mod 256 = n"
    and "n div 65536 * 256 + n div 256 mod 256 = n div 256"
    and "n div 16777216 * 256 + n div 65536 mod 256 = n div 65536"
    using div_mult_mod_eq [of n 256] div_mult_mod_eq [of "n div 256" 256]
      div_mult_mod_eq [of "n div 65536" 256]
    by (simp_all flip: div_mult2_eq)
  then show ?thesis by linarith
qed

lemma be_val_bytes32 [be_simps]: "be_val (bytes32 w) = unat w"
proof -
  have "unat w < 4294967296" using unsigned_less [of w, where 'a = nat] by simp
  then have "unat w div 16777216 mod 256 = unat w div 16777216"
    by (simp add: less_mult_imp_div_less)
  with split_bytes_4 [of "unat w"] show ?thesis
    by (simp add: bytes32_def unsigned_ucast_eq unat_drop_bit_eq
        drop_bit_eq_div [where 'a = nat] take_bit_eq_mod [where 'a = nat])
qed

lemma unat_word32 [be_simps]: "length bs = 4 \<Longrightarrow> unat (word32 bs) = be_val bs"
  using be_val_less [of bs] by (simp add: word32_def unat_of_nat)

lemma word32_bytes32 [simp]: "word32 (bytes32 w) = w"
  by (simp add: word32_def be_val_bytes32)

lemma bytes32_word32 [simp]: "length bs = 4 \<Longrightarrow> bytes32 (word32 bs) = bs"
  by (rule be_val_inj) (simp_all add: be_simps)

lemma bytes32_inj: "bytes32 v = bytes32 w \<longleftrightarrow> v = w"
  by (metis word32_bytes32)

text \<open>
  \<open>load32\<close> is the value of a \<open>uint32_t\<close> whose bytes in memory are \<open>bs\<close>,
  \<open>store32\<close> the bytes that storing it leaves; \<open>htonl\<close> (which is also \<open>ntohl\<close>)
  swaps the bytes on a little-endian machine only.
\<close>

definition bswap32 :: "u32 \<Rightarrow> u32" where
  "bswap32 w = word32 (rev (bytes32 w))"

fun load32 :: "endian \<Rightarrow> bytes \<Rightarrow> u32" where
  "load32 Big bs = word32 bs"
| "load32 Little bs = word32 (rev bs)"

fun store32 :: "endian \<Rightarrow> u32 \<Rightarrow> bytes" where
  "store32 Big w = bytes32 w"
| "store32 Little w = rev (bytes32 w)"

fun htonl :: "endian \<Rightarrow> u32 \<Rightarrow> u32" where
  "htonl Big w = w"
| "htonl Little w = bswap32 w"

lemma length_store32 [simp]: "length (store32 e w) = 4"
  by (cases e) auto

lemma bytes32_bswap32 [simp]: "bytes32 (bswap32 w) = rev (bytes32 w)"
  by (simp add: bswap32_def)

lemma bswap32_bswap32 [simp]: "bswap32 (bswap32 w) = w"
  unfolding bswap32_def by simp

lemma htonl_htonl [simp]: "htonl e (htonl e w) = w"
  by (cases e) auto

lemma load32_store32 [simp]: "load32 e (store32 e w) = w"
  by (cases e) auto

lemma store32_load32 [simp]: "length bs = 4 \<Longrightarrow> store32 e (load32 e bs) = bs"
  by (cases e) auto

lemma htonl_load32 [simp]: "length bs = 4 \<Longrightarrow> htonl e (load32 e bs) = word32 bs"
  by (cases e) (auto simp: bswap32_def)

lemma store32_htonl [simp]: "store32 e (htonl e w) = bytes32 w"
  by (cases e) auto

text \<open>Bitwise operations commute with the byte order.\<close>

lemma bytes32_and: "bytes32 (v AND w) = map2 (AND) (bytes32 v) (bytes32 w)"
  by (simp add: bytes32_def bit_eq_iff bit_simps)

lemma bytes32_or: "bytes32 (v OR w) = map2 (OR) (bytes32 v) (bytes32 w)"
  by (simp add: bytes32_def bit_eq_iff bit_simps)

lemma bswap32_and: "bswap32 (v AND w) = bswap32 v AND bswap32 w"
proof -
  have "bytes32 (bswap32 (v AND w)) = bytes32 (bswap32 v AND bswap32 w)"
    by (simp add: bytes32_and rev_map zip_rev)
  then show ?thesis by (simp only: bytes32_inj)
qed

lemma bswap32_or: "bswap32 (v OR w) = bswap32 v OR bswap32 w"
proof -
  have "bytes32 (bswap32 (v OR w)) = bytes32 (bswap32 v OR bswap32 w)"
    by (simp add: bytes32_or rev_map zip_rev)
  then show ?thesis by (simp only: bytes32_inj)
qed

lemma store32_and_htonl:
  "length bs = 4 \<Longrightarrow> store32 e (load32 e bs AND htonl e m) = bytes32 (word32 bs AND m)"
proof (cases e)
  case Little
  assume "length bs = 4"
  then have "word32 (rev bs) = bswap32 (word32 bs)" by (simp add: bswap32_def)
  then have "word32 (rev bs) AND bswap32 m = bswap32 (word32 bs AND m)"
    by (simp add: bswap32_and)
  with Little show ?thesis by simp
qed simp

lemma store32_or_htonl:
  "length bs = 4 \<Longrightarrow> store32 e (load32 e bs OR htonl e m) = bytes32 (word32 bs OR m)"
proof (cases e)
  case Little
  assume "length bs = 4"
  then have "word32 (rev bs) = bswap32 (word32 bs)" by (simp add: bswap32_def)
  then have "word32 (rev bs) OR bswap32 m = bswap32 (word32 bs OR m)"
    by (simp add: bswap32_or)
  with Little show ?thesis by simp
qed simp

section \<open>C's integer operations\<close>

text \<open>The conversions to \<open>int16_t\<close> and \<open>int32_t\<close>.\<close>

definition to_s16 :: "int \<Rightarrow> int" where
  "to_s16 n = (n + 0x8000) mod 0x10000 - 0x8000"

definition to_s32 :: "int \<Rightarrow> int" where
  "to_s32 n = (n + 0x80000000) mod 0x100000000 - 0x80000000"

text \<open>
  \<open>1 << k\<close> on 32-bit integers.  A count of 32 or more is undefined; \<open>1 << 31\<close> and
  the \<open>- 1\<close> that often follows it are taken modulo \<open>2 ^ 32\<close>, as the compilers
  the code is built with do.
\<close>

definition shl1 :: "u32 \<Rightarrow> u32 option" where
  "shl1 k = (if k < 32 then Some (push_bit (unat k) 1) else None)"

lemma shl1_Some: "k < 32 \<Longrightarrow> shl1 k = Some (push_bit (unat k) 1)"
  by (simp add: shl1_def)

lemma shl1_None: "\<not> k < 32 \<Longrightarrow> shl1 k = None"
  by (simp add: shl1_def)

lemma shl1_minus_1: "k < 32 \<Longrightarrow> shl1 k = Some (mask (unat k) + 1)"
  by (simp add: shl1_def mask_eq_exp_minus_1 push_bit_of_1)

text \<open>Clearing and setting the low \<open>k\<close> bits, as natural numbers.\<close>

lemma unat_and_not_mask [c_int]:
  fixes w :: "'a::len word"
  shows "unat (w AND NOT (mask k)) = unat w div 2 ^ k * 2 ^ k"
proof -
  have "w AND NOT (mask k) = push_bit k (drop_bit k w)"
    by (auto simp: bit_eq_iff bit_simps)
  moreover have "unat w div 2 ^ k * 2 ^ k < 2 ^ LENGTH('a)"
    using unsigned_less [of w, where 'a = nat] div_times_less_eq_dividend [of "unat w" "2 ^ k"]
    by (rule le_less_trans [rotated])
  ultimately show ?thesis
    by (simp add: unsigned_push_bit_eq unat_drop_bit_eq drop_bit_eq_div [where 'a = nat] push_bit_eq_mult [where 'a = nat]
        take_bit_eq_mod [where 'a = nat])
qed

lemma unat_mask_nat: "k \<le> LENGTH('a) \<Longrightarrow> unat (mask k :: 'a::len word) = mask k"
  by (simp only: unat_eq_nat_uint uint_mask_eq) (simp add: nat_mask_eq min_absorb2)

lemma unat_mask [c_int]: "k \<le> LENGTH('a) \<Longrightarrow> unat (mask k :: 'a::len word) = 2 ^ k - 1"
  by (simp only: unat_mask_nat) (simp add: mask_eq_exp_minus_1)

lemma unat_or_mask [c_int]:
  fixes w :: "'a::len word"
  assumes "k \<le> LENGTH('a)"
  shows "unat (w OR mask k) = unat w div 2 ^ k * 2 ^ k + (2 ^ k - 1)"
proof -
  have "unat w OR mask k = push_bit k (drop_bit k (unat w)) OR mask k"
    by (auto simp: bit_eq_iff bit_simps)
  also have "\<dots> = push_bit k (drop_bit k (unat w)) + mask k"
    by (rule disjunctive_add [symmetric]) (auto simp: bit_simps)
  finally have "unat w OR mask k = unat w div 2 ^ k * 2 ^ k + (2 ^ k - 1)"
    by (simp only: drop_bit_eq_div [where 'a = nat] push_bit_eq_mult [where 'a = nat]
        mask_eq_exp_minus_1)
  then show ?thesis using assms by (simp only: unsigned_or_eq unat_mask_nat)
qed

lemma and_not_mask_le: "w AND NOT (mask k) \<le> (w :: 'a::len word)"
  by (simp add: word_le_nat_alt unat_and_not_mask)

text \<open>The masks the code builds from \<open>shl1\<close>.\<close>

lemma shl1_pred: "k < 32 \<Longrightarrow> map_option (\<lambda>v. v - 1) (shl1 k) = Some (mask (unat k))"
  by (simp add: shl1_minus_1)

lemma unat_sub_word32:
  fixes p :: u32
  assumes "p \<le> n"
  shows "unat (n - p) = unat n - unat p"
  using assms by (simp add: unat_sub)

end
