(* ===== verification/Clib.thy ===== *)
theory Clib
  imports Prelude
begin

text \<open>
  The functions of the C library the sources call, as ISO C and POSIX describe them (and as
  musl, the C library the firmware ships, implements them where those leave a choice):
  character classes, \<open>strtoul\<close>, the decimal and hexadecimal conversions of
  \<open>printf\<close>, and the text forms of internet addresses, \<open>inet_pton\<close> and
  \<open>inet_ntop\<close>.  A C string is the list of its characters before the terminating
  zero; a pointer into one is the suffix it points to.
\<close>

section \<open>Character classes\<close>

definition isspace :: "char \<Rightarrow> bool" where
  "isspace c \<longleftrightarrow> (let n = of_char c :: nat in n = 32 \<or> 9 \<le> n \<and> n \<le> 13)"

definition isdigit :: "char \<Rightarrow> bool" where
  "isdigit c \<longleftrightarrow> (let n = of_char c :: nat in 48 \<le> n \<and> n \<le> 57)"

text \<open>The value of a hexadecimal digit.\<close>

definition hexval :: "char \<Rightarrow> nat option" where
  "hexval c = (let n = of_char c :: nat in
     if 48 \<le> n \<and> n \<le> 57 then Some (n - 48)
     else if 97 \<le> n \<and> n \<le> 102 then Some (n - 87)
     else if 65 \<le> n \<and> n \<le> 70 then Some (n - 55)
     else None)"

definition isxdigit :: "char \<Rightarrow> bool" where
  "isxdigit c \<longleftrightarrow> hexval c \<noteq> None"

text \<open>Whether a character is a digit in base \<open>b\<close> (at most 16).\<close>

definition digit_in :: "nat \<Rightarrow> char \<Rightarrow> bool" where
  "digit_in b c \<longleftrightarrow> (case hexval c of Some d \<Rightarrow> d < b | None \<Rightarrow> False)"

definition digits_val :: "nat \<Rightarrow> string \<Rightarrow> nat" where
  "digits_val b cs = foldl (\<lambda>a c. a * b + the (hexval c)) 0 cs"

section \<open>strtoul\<close>

text \<open>
  \<open>strtoul umax base s\<close> for bases 0, 10 and 16, where \<open>umax\<close> is \<open>ULONG_MAX\<close>:
  the value, the suffix the end pointer is set to, and whether \<open>errno\<close> becomes
  \<open>ERANGE\<close>.  With no digits the end pointer is the start of the string.
\<close>

definition strip_sign :: "string \<Rightarrow> bool \<times> string" where
  "strip_sign s = (case s of
     c # cs \<Rightarrow> if c = CHR ''-'' then (True, cs) else if c = CHR ''+'' then (False, cs) else (False, s)
   | [] \<Rightarrow> (False, s))"

definition hex_prefixed :: "string \<Rightarrow> bool" where
  "hex_prefixed s = (case s of
     z # x # d # _ \<Rightarrow> z = CHR ''0'' \<and> (x = CHR ''x'' \<or> x = CHR ''X'') \<and> isxdigit d
   | _ \<Rightarrow> False)"

definition strip_base :: "nat \<Rightarrow> string \<Rightarrow> nat \<times> string" where
  "strip_base base s =
     (if (base = 0 \<or> base = 16) \<and> hex_prefixed s then (16, drop 2 s)
      else if base = 0 then (if take 1 s = ''0'' then (8, s) else (10, s))
      else (base, s))"

definition strtoul :: "nat \<Rightarrow> nat \<Rightarrow> string \<Rightarrow> nat \<times> string \<times> bool" where
  "strtoul umax base s =
     (let (neg, s1) = strip_sign (dropWhile isspace s);
          (b, s2) = strip_base base s1;
          ds = takeWhile (digit_in b) s2;
          v = digits_val b ds
      in if ds = [] then (0, s, False)
         else if v > umax then (umax, drop (length ds) s2, True)
         else ((if neg \<and> v \<noteq> 0 then umax + 1 - v else v), drop (length ds) s2, False))"

lemma strtoul_le: "fst (strtoul umax base s) \<le> umax"
  by (auto simp: strtoul_def Let_def split: prod.splits)

text \<open>\<open>atoi\<close>, which is undefined when the number is not an \<open>int\<close>.\<close>

definition atoi_s32 :: "string \<Rightarrow> int option" where
  "atoi_s32 s = (let (neg, s1) = strip_sign (dropWhile isspace s);
      v = int (digits_val 10 (takeWhile isdigit s1)); n = (if neg then - v else v)
    in if - 0x80000000 \<le> n \<and> n < 0x80000000 then Some n else None)"

section \<open>Numbers as text\<close>

definition digit_char :: "nat \<Rightarrow> char" where
  "digit_char d = ''0123456789abcdef'' ! d"

definition upper_digit_char :: "nat \<Rightarrow> char" where
  "upper_digit_char d = ''0123456789ABCDEF'' ! d"

text \<open>\<open>printf\<close>'s \<open>%u\<close> (base 10) and \<open>%x\<close> (base 16).\<close>

function show_base :: "nat \<Rightarrow> nat \<Rightarrow> string" where
  "show_base b n = (if n < b \<or> b < 2 then [digit_char n] else show_base b (n div b) @ [digit_char (n mod b)])"
  by pat_completeness auto
termination by (relation "measure snd") auto

declare show_base.simps [simp del]

definition show_nat :: "nat \<Rightarrow> string" where
  "show_nat n = show_base 10 n"

definition show_hex :: "nat \<Rightarrow> string" where
  "show_hex n = show_base 16 n"

text \<open>\<open>%d\<close>.\<close>

definition show_int :: "int \<Rightarrow> string" where
  "show_int i = (if i < 0 then CHR ''-'' # show_nat (nat (- i)) else show_nat (nat i))"

lemma all_less_16: "(\<forall>d<16. P d) \<longleftrightarrow> (\<forall>d\<in>set [0..<16::nat]. P d)"
  by auto

lemma hexval_digit_char [simp]: "d < 16 \<Longrightarrow> hexval (digit_char d) = Some d"
proof -
  have "\<forall>d<16. hexval (digit_char d) = Some d"
    unfolding all_less_16 by code_simp
  then show "d < 16 \<Longrightarrow> ?thesis" by simp
qed

lemma isdigit_digit_char [simp]: "d < 10 \<Longrightarrow> isdigit (digit_char d)"
proof -
  have "\<forall>d<16. d < 10 \<longrightarrow> isdigit (digit_char d)"
    unfolding all_less_16 by code_simp
  then show "d < 10 \<Longrightarrow> ?thesis" by simp
qed

lemma digit_char_0_iff: "d < 16 \<Longrightarrow> digit_char d = CHR ''0'' \<longleftrightarrow> d = 0"
proof -
  have "\<forall>d<16. digit_char d = CHR ''0'' \<longleftrightarrow> d = 0"
    unfolding all_less_16 by code_simp
  then show "d < 16 \<Longrightarrow> ?thesis" by simp
qed

lemma digits_val_snoc [simp]: "digits_val b (cs @ [c]) = digits_val b cs * b + the (hexval c)"
  by (simp add: digits_val_def)

lemma digits_val_Nil [simp]: "digits_val b [] = 0"
  by (simp add: digits_val_def)

lemma show_base_correct:
  assumes "2 \<le> b" and "b \<le> 16"
  shows "digits_val b (show_base b n) = n \<and> (\<forall>c\<in>set (show_base b n). digit_in b c)
    \<and> show_base b n \<noteq> []"
  using assms
proof (induction b n rule: show_base.induct)
  case (1 b n)
  show ?case
  proof (cases "n < b")
    case True
    with "1.prems" show ?thesis
      by (simp add: show_base.simps [of b n] digits_val_def digit_in_def)
  next
    case False
    have "n mod b < b" using "1.prems" by simp
    with "1.prems" have "n mod b < 16" by linarith
    then have h: "hexval (digit_char (n mod b)) = Some (n mod b)" by (rule hexval_digit_char)
    have d: "digit_in b (digit_char (n mod b))"
      using \<open>n mod b < b\<close> by (simp add: digit_in_def h)
    show ?thesis using False "1.IH" "1.prems" d
      by (auto simp: show_base.simps [of b n] h)
  qed
qed

lemma digits_val_show_nat [simp]: "digits_val 10 (show_nat n) = n"
  using show_base_correct [of 10 n] by (simp add: show_nat_def)

lemma show_nat_digits: "c \<in> set (show_nat n) \<Longrightarrow> digit_in 10 c"
  using show_base_correct [of 10 n] by (simp add: show_nat_def)

lemma show_nat_nonempty [simp]: "show_nat n \<noteq> []"
  using show_base_correct [of 10 n] by (simp add: show_nat_def)

lemma digit_in_10: "digit_in 10 c \<longleftrightarrow> isdigit c"
  by (auto simp: digit_in_def isdigit_def hexval_def Let_def)

lemma length_show_base:
  assumes "2 \<le> b"
  shows "n < b ^ Suc k \<Longrightarrow> length (show_base b n) \<le> Suc k"
proof (induction k arbitrary: n)
  case 0
  then show ?case by (simp add: show_base.simps [of b n])
next
  case (Suc k)
  show ?case
  proof (cases "n < b")
    case False
    with Suc.prems have "n div b < b ^ Suc k" by (simp add: less_mult_imp_div_less mult.commute)
    from Suc.IH [OF this] False show ?thesis by (simp add: show_base.simps [of b n])
  qed (simp add: show_base.simps [of b n])
qed

text \<open>The first digit of a number of two digits or more is not 0.\<close>

lemma show_base_hd:
  assumes "2 \<le> b" and "b \<le> 16"
  shows "0 < n \<Longrightarrow> hd (show_base b n) \<noteq> CHR ''0''"
proof (induction n rule: less_induct)
  case (less n)
  show ?case
  proof (cases "n < b")
    case True
    with less.prems assms show ?thesis
      by (simp add: show_base.simps [of b n] digit_char_0_iff)
  next
    case False
    with assms have "0 < n div b" "n div b < n" by (simp_all add: div_greater_zero_iff)
    with less.IH have "hd (show_base b (n div b)) \<noteq> CHR ''0''" by blast
    moreover have "show_base b (n div b) \<noteq> []" using show_base_correct assms by blast
    ultimately show ?thesis using False assms by (simp add: show_base.simps [of b n])
  qed
qed

text \<open>Reading a number back with \<open>strtoul\<close>.\<close>

lemma takeWhile_append_all:
  "\<forall>x\<in>set xs. P x \<Longrightarrow> ys = [] \<or> \<not> P (hd ys) \<Longrightarrow> takeWhile P (xs @ ys) = xs"
  by (induction xs) (auto simp: takeWhile_eq_Nil_iff neq_Nil_conv)

lemma strtoul_show_nat:
  assumes "n \<le> umax" and "rest = [] \<or> \<not> isdigit (hd rest)"
  shows "strtoul umax 10 (show_nat n @ rest) = (n, rest, False)"
proof -
  let ?s = "show_nat n @ rest"
  obtain c cs where c: "show_nat n = c # cs" "isdigit c"
    using show_nat_digits [of _ n] show_nat_nonempty [of n]
    by (cases "show_nat n") (auto simp: digit_in_10)
  then have "\<not> isspace c" "c \<noteq> CHR ''-''" "c \<noteq> CHR ''+''"
    by (auto simp: isdigit_def isspace_def Let_def)
  then have "strip_sign (dropWhile isspace ?s) = (False, ?s)"
    by (simp add: c strip_sign_def)
  moreover have "takeWhile (digit_in 10) ?s = show_nat n"
    using assms(2) show_nat_digits by (intro takeWhile_append_all) (auto simp: digit_in_10)
  ultimately show ?thesis using assms(1)
    by (simp add: strtoul_def strip_base_def)
qed

section \<open>Internet addresses as text\<close>

datatype af = AF_UNSPEC | AF_INET | AF_INET6 | AF_PACKET

text \<open>The families ordered by their numbers in \<open>linux/socket.h\<close>.\<close>

fun af_num :: "af \<Rightarrow> nat" where
  "af_num AF_UNSPEC = 0"
| "af_num AF_INET = 2"
| "af_num AF_INET6 = 10"
| "af_num AF_PACKET = 17"

instantiation af :: linorder
begin

definition less_eq_af :: "af \<Rightarrow> af \<Rightarrow> bool" where
  "less_eq_af f g \<longleftrightarrow> af_num f \<le> af_num g"

definition less_af :: "af \<Rightarrow> af \<Rightarrow> bool" where
  "less_af f g \<longleftrightarrow> af_num f < af_num g"

instance
proof
  fix f g h :: af
  show "f < g \<longleftrightarrow> f \<le> g \<and> \<not> g \<le> f" by (auto simp: less_eq_af_def less_af_def)
  show "f \<le> f" by (simp add: less_eq_af_def)
  show "f \<le> g \<Longrightarrow> g \<le> h \<Longrightarrow> f \<le> h" by (simp add: less_eq_af_def)
  show "f \<le> g \<Longrightarrow> g \<le> f \<Longrightarrow> f = g" by (cases f; cases g) (simp_all add: less_eq_af_def)
  show "f \<le> g \<or> g \<le> f" by (auto simp: less_eq_af_def)
qed

end

text \<open>
  \<open>inet_pton(AF_INET, \<dots>)\<close>: four decimal octets of at most three digits, none above
  255 and none with a leading zero, separated by dots.
\<close>

definition scan_octet :: "string \<Rightarrow> (nat \<times> string) option" where
  "scan_octet s =
     (let ds = takeWhile isdigit (take 3 s); v = digits_val 10 ds
      in if ds = [] \<or> (1 < length ds \<and> hd ds = CHR ''0'') \<or> 255 < v then None
         else Some (v, drop (length ds) s))"

fun inet_pton4_octets :: "nat \<Rightarrow> string \<Rightarrow> bytes option" where
  "inet_pton4_octets 0 s =
     (case scan_octet s of
        Some (v, r) \<Rightarrow> if r = [] then Some [word_of_nat v] else None
      | None \<Rightarrow> None)"
| "inet_pton4_octets (Suc n) s =
     (case scan_octet s of
        Some (v, r) \<Rightarrow>
          if take 1 r = ''.'' then map_option ((#) (word_of_nat v)) (inet_pton4_octets n (drop 1 r))
          else None
      | None \<Rightarrow> None)"

definition inet_pton4 :: "string \<Rightarrow> bytes option" where
  "inet_pton4 s = inet_pton4_octets 3 s"

definition inet_ntop4 :: "bytes \<Rightarrow> string" where
  "inet_ntop4 bs = show_nat (unat (bs ! 0)) @ ''.'' @ show_nat (unat (bs ! 1)) @ ''.''
     @ show_nat (unat (bs ! 2)) @ ''.'' @ show_nat (unat (bs ! 3))"

text \<open>
  \<open>inet_pton(AF_INET6, \<dots>)\<close>: groups of at most four hexadecimal digits separated by
  colons; one \<open>::\<close> stands for as many zero groups as are missing; the last two
  groups may be written as an IPv4 address.  \<open>pton6_groups\<close> returns the groups, the
  position of the \<open>::\<close> and the start of the IPv4 tail, if there are any.
\<close>

function pton6_groups ::
  "nat list \<Rightarrow> nat option \<Rightarrow> string \<Rightarrow> (nat list \<times> nat option \<times> string option) option" where
  "pton6_groups ip brk s =
     (let i = length ip in
      if take 1 s = '':'' \<and> brk = None then
        (if drop 1 s = [] then Some (ip @ [0], Some i, None)
         else if i = 7 then None
         else pton6_groups (ip @ [0]) (Some i) (drop 1 s))
      else
        (let ds = takeWhile isxdigit (take 4 s); v = digits_val 16 ds; r = drop (length ds) s in
         if ds = [] then None
         else if r = [] \<and> (brk \<noteq> None \<or> i = 7) then Some (ip @ [v], brk, None)
         else if i = 7 then None
         else if take 1 r \<noteq> '':'' then
           (if take 1 r \<noteq> ''.'' \<or> (i < 6 \<and> brk = None) then None
            else Some (ip @ [v, 0], brk, Some s))
         else pton6_groups (ip @ [v]) brk (drop 1 r)))"
  by pat_completeness auto
termination
proof (relation "measure (\<lambda>(ip, brk, s). length s)", goal_cases)
  case 1
  show ?case by simp
next
  case (2 ip brk s x)
  then show ?case by (cases s) auto
next
  case (3 ip brk s x xa xb xc)
  then show ?case by (cases s) (auto simp: Let_def)
qed

declare pton6_groups.simps [simp del]

definition bytes16 :: "nat \<Rightarrow> bytes" where
  "bytes16 v = [word_of_nat (v div 256), word_of_nat (v mod 256)]"

definition fill_zeros :: "nat list \<Rightarrow> nat option \<Rightarrow> nat list" where
  "fill_zeros ip brk = (case brk of
     None \<Rightarrow> ip
   | Some k \<Rightarrow> take k ip @ replicate (8 - length ip) 0 @ drop k ip)"

definition inet_pton6 :: "string \<Rightarrow> bytes option" where
  "inet_pton6 s0 =
     (let s = (if take 1 s0 = '':'' then drop 1 s0 else s0) in
      if take 1 s0 = '':'' \<and> take 1 s \<noteq> '':'' then None
      else (case pton6_groups [] None s of
        None \<Rightarrow> None
      | Some (ip, brk, v4) \<Rightarrow>
          (let bs = concat (map bytes16 (fill_zeros ip brk))
           in case v4 of
                None \<Rightarrow> Some bs
              | Some t \<Rightarrow> (case inet_pton4 t of
                             None \<Rightarrow> None
                           | Some q \<Rightarrow> Some (take 12 bs @ q)))))"

text \<open>
  \<open>inet_ntop(AF_INET6, \<dots>)\<close>: eight hexadecimal groups (the last two in IPv4 form for
  a mapped address), in which the longest run of zero groups becomes \<open>::\<close>.
\<close>

fun join_colon :: "string list \<Rightarrow> string" where
  "join_colon [] = []"
| "join_colon [x] = x"
| "join_colon (x # xs) = x @ '':'' @ join_colon xs"

fun groups16 :: "bytes \<Rightarrow> nat list" where
  "groups16 (a # b # bs) = (256 * unat a + unat b) # groups16 bs"
| "groups16 _ = []"

definition span_colon0 :: "string \<Rightarrow> nat" where
  "span_colon0 s = length (takeWhile (\<lambda>c. c = CHR '':'' \<or> c = CHR ''0'') s)"

fun best_run :: "nat \<Rightarrow> string \<Rightarrow> nat \<Rightarrow> nat \<Rightarrow> nat \<times> nat" where
  "best_run i [] best mx = (best, mx)"
| "best_run i (c # cs) best mx =
     (if i \<noteq> 0 \<and> c \<noteq> CHR '':'' then best_run (Suc i) cs best mx
      else (let j = span_colon0 (c # cs) in
            if j > mx then best_run (Suc i) cs i j else best_run (Suc i) cs best mx))"

definition inet_ntop6 :: "bytes \<Rightarrow> string" where
  "inet_ntop6 bs =
     (let buf = (if take 12 bs \<noteq> replicate 10 0 @ [255, 255]
                 then join_colon (map show_hex (groups16 bs))
                 else join_colon (map show_hex (groups16 (take 12 bs)) @ [inet_ntop4 (drop 12 bs)]));
          (best, mx) = best_run 0 buf 0 2
      in if mx > 3 then take best buf @ ''::'' @ drop (best + mx) buf else buf)"

text \<open>Reading back what \<open>inet_ntop\<close> printed.\<close>

lemma scan_octet_show_nat:
  assumes "n \<le> 255" and "rest = [] \<or> \<not> isdigit (hd rest)"
  shows "scan_octet (show_nat n @ rest) = Some (n, rest)"
proof -
  have "length (show_nat n) \<le> 3"
    using length_show_base [of 10 n 2] assms(1) by (simp add: show_nat_def)
  then have "take 3 (show_nat n @ rest) = show_nat n @ take (3 - length (show_nat n)) rest"
    by simp
  moreover let ?r = "take (3 - length (show_nat n)) rest"
  have "?r = [] \<or> \<not> isdigit (hd ?r)" using assms(2) by (cases rest) (auto simp: take_Cons')
  then have "takeWhile isdigit (show_nat n @ ?r) = show_nat n"
    by (intro takeWhile_append_all) (auto simp: show_nat_digits digit_in_10 [symmetric])
  ultimately have ds: "takeWhile isdigit (take 3 (show_nat n @ rest)) = show_nat n" by simp
  have "hd (show_nat n) \<noteq> CHR ''0''" if "1 < length (show_nat n)"
  proof (cases "n = 0")
    case True
    with that show ?thesis by (simp add: show_nat_def show_base.simps)
  next
    case False
    then show ?thesis using show_base_hd [of 10 n] by (simp add: show_nat_def)
  qed
  with assms(1) show ?thesis by (auto simp: scan_octet_def ds Let_def simp del: take_append)
qed

lemma inet_pton4_ntop4: "length bs = 4 \<Longrightarrow> inet_pton4 (inet_ntop4 bs) = Some bs"
proof -
  assume "length bs = 4"
  then obtain a b c d where bs: "bs = [a, b, c, d]" by (auto simp: length_4_conv)
  show ?thesis
    by (simp add: bs inet_pton4_def inet_ntop4_def numeral_3_eq_3 scan_octet_show_nat isdigit_def
        scan_octet_show_nat [of _ "[]", simplified])
qed

lemma length_inet_pton4_octets: "inet_pton4_octets n s = Some bs \<Longrightarrow> length bs = Suc n"
  by (induction n s arbitrary: bs rule: inet_pton4_octets.induct)
     (auto split: option.splits if_splits)

lemma length_inet_pton4: "inet_pton4 s = Some bs \<Longrightarrow> length bs = 4"
  using length_inet_pton4_octets by (fastforce simp: inet_pton4_def)

text \<open>The ways one round of \<open>pton6_groups\<close> can end or go on.\<close>

lemma pton6_groups_cases:
  assumes "pton6_groups ip brk s = Some res"
  obtains (colon_end) "brk = None" "res = (ip @ [0], Some (length ip), None)"
  | (colon) "brk = None" "length ip \<noteq> 7" "s \<noteq> []" "pton6_groups (ip @ [0]) (Some (length ip)) (drop 1 s) = Some res"
  | (last) v where "brk \<noteq> None \<or> length ip = 7" "res = (ip @ [v], brk, None)"
  | (v4) v where "length ip \<noteq> 7" "brk \<noteq> None \<or> 6 \<le> length ip" "res = (ip @ [v, 0], brk, Some s)"
  | (group) v r where "length ip \<noteq> 7" "pton6_groups (ip @ [v]) brk r = Some res" "length r < length s"
proof -
  define ds where "ds = takeWhile isxdigit (take 4 s)"
  define r where "r = drop (length ds) s"
  define v where "v = digits_val 16 ds"
  define c1 where "c1 \<longleftrightarrow> take 1 s = '':''"
  define c2 where "c2 \<longleftrightarrow> take 1 r = '':''"
  define c3 where "c3 \<longleftrightarrow> take 1 r = ''.''"
  have "(if c1 \<and> brk = None then (if drop 1 s = [] then Some (ip @ [0], Some (length ip), None)
         else if length ip = 7 then None
         else pton6_groups (ip @ [0]) (Some (length ip)) (drop 1 s))
     else if ds = [] then None
         else if r = [] \<and> (brk \<noteq> None \<or> length ip = 7) then Some (ip @ [v], brk, None)
         else if length ip = 7 then None
         else if \<not> c2 then
           (if \<not> c3 \<or> (length ip < 6 \<and> brk = None) then None
            else Some (ip @ [v, 0], brk, Some s))
         else pton6_groups (ip @ [v]) brk (drop 1 r)) = Some res"
    using assms unfolding pton6_groups.simps [of ip brk s] Let_def ds_def r_def v_def c1_def c2_def c3_def .
  moreover have "length (drop 1 r) < length s" if "ds \<noteq> []"
    using that by (cases s) (auto simp: r_def ds_def)
  moreover have "s \<noteq> []" if c1 using that by (auto simp: c1_def)
  ultimately show thesis
    using that by (auto split: if_split_asm)
qed
text \<open>A parsed IPv6 address has sixteen bytes.\<close>

lemma pton6_groups_length:
  assumes "pton6_groups ip brk s = Some (ip', brk', v4)"
    and "length ip \<le> 7" and "\<And>k. brk = Some k \<Longrightarrow> k \<le> length ip"
  shows "length ip' \<le> 8 \<and> (brk' = None \<longrightarrow> length ip' = 8) \<and> (\<forall>k. brk' = Some k \<longrightarrow> k \<le> length ip')"
  using assms
proof (induction s arbitrary: ip brk rule: length_induct)
  case (1 s)
  from "1.prems"(1) show ?case
  proof (cases rule: pton6_groups_cases)
    case colon_end
    with "1.prems" show ?thesis by auto
  next
    case colon
    with "1.prems" show ?thesis by (intro "1.IH" [rule_format, of "drop 1 s" "ip @ [0]" "Some (length ip)"]) auto
  next
    case (last v)
    with "1.prems" show ?thesis by (auto simp: le_Suc_eq)
  next
    case (v4 v)
    with "1.prems" show ?thesis by (auto simp: le_Suc_eq)
  next
    case (group v r)
    with "1.prems" show ?thesis by (intro "1.IH" [rule_format, of r "ip @ [v]" brk]) (auto simp: le_Suc_eq)
  qed
qed

lemma length_concat_bytes16: "length (concat (map bytes16 gs)) = 2 * length gs"
  by (induction gs) (auto simp: bytes16_def)

lemma length_inet_pton6:
  assumes "inet_pton6 s = Some bs"
  shows "length bs = 16"
proof -
  from assms obtain s' ip brk v4 where g: "pton6_groups [] None s' = Some (ip, brk, v4)"
    and bs: "bs = concat (map bytes16 (fill_zeros ip brk))
      \<or> (\<exists>t q. inet_pton4 t = Some q \<and> bs = take 12 (concat (map bytes16 (fill_zeros ip brk))) @ q)"
    by (auto simp: inet_pton6_def Let_def split: if_splits option.splits) blast+
  have "length (fill_zeros ip brk) = 8"
    using pton6_groups_length [OF g] by (auto simp: fill_zeros_def split: option.splits)
  then show ?thesis using bs by (auto simp: length_concat_bytes16 length_inet_pton4)
qed

lemma not_in_show_nat: "\<not> isdigit c \<Longrightarrow> c \<notin> set (show_nat n)"
  using show_nat_digits [of c n] by (auto simp: digit_in_10)

lemma slash_not_in_ntop4: "CHR ''/'' \<notin> set (inet_ntop4 bs)"
  by (simp add: inet_ntop4_def not_in_show_nat isdigit_def)

lemma length_show_octet: "length (show_nat (unat (b :: u8))) \<le> 3"
  using length_show_base [of 10 "unat b" 2] unat_byte_less [of b] by (simp add: show_nat_def)

lemma length_ntop4: "length (inet_ntop4 bs) \<le> 15"
  using length_show_octet [of "bs ! 0"] length_show_octet [of "bs ! 1"]
    length_show_octet [of "bs ! 2"] length_show_octet [of "bs ! 3"]
  by (simp add: inet_ntop4_def)

end
