(* ===== verification/Addr_Spec.thy ===== *)
theory Addr_Spec
  imports Clib
begin

text \<open>
  What the firmware's address calculators promise, independently of how an address is stored:
  an address is a number below \<open>2 ^ width\<close>, a prefix of \<open>p\<close> bits names the block of
  addresses that agree with it in those bits.  The two locales are the contracts of address
  arithmetic and of prefix operations; \<open>owipcalc\<close> and LuCI's \<open>ip\<close> library are
  shown to meet them, each for every address family it knows.
\<close>

section \<open>Blocks of addresses\<close>

definition block_of :: "nat \<Rightarrow> nat \<Rightarrow> nat \<Rightarrow> nat set" where
  "block_of w p v = {x. x div 2 ^ (w - p) = v div 2 ^ (w - p)}"

lemma in_block_of [simp]: "v \<in> block_of w p v"
  by (simp add: block_of_def)

lemma block_of_interval:
  "block_of w p v = {v div 2 ^ (w - p) * 2 ^ (w - p) ..< v div 2 ^ (w - p) * 2 ^ (w - p) + 2 ^ (w - p)}"
    (is "_ = {?lo ..< ?lo + ?n}")
proof (intro set_eqI iffI)
  fix x assume "x \<in> block_of w p v"
  then have "x div ?n = v div ?n" by (simp add: block_of_def)
  moreover have "x div ?n * ?n \<le> x" "x < x div ?n * ?n + ?n"
    using div_times_less_eq_dividend [of x ?n] dividend_less_div_times [of ?n x]
    by (simp_all add: add.commute)
  ultimately show "x \<in> {?lo ..< ?lo + ?n}" by auto
next
  fix x assume "x \<in> {?lo ..< ?lo + ?n}"
  then have "x - ?lo < ?n" and x: "x = x - ?lo + ?lo"
    by (simp_all add: less_diff_conv2 add.commute)
  have "(d + q * ?n) div ?n = q" if "d < ?n" for d q using that by simp
  then have "x div ?n = v div ?n" using \<open>x - ?lo < ?n\<close> by (subst x) blast
  then show "x \<in> block_of w p v" by (simp only: block_of_def mem_Collect_eq)
qed

lemma card_block_of: "card (block_of w p v) = 2 ^ (w - p)"
  by (simp add: block_of_interval)

lemma div_pow_mono:
  assumes "u div 2 ^ j = v div 2 ^ j" and "j \<le> k"
  shows "u div 2 ^ k = v div (2 ^ k :: nat)"
proof -
  have "(2::nat) ^ k = 2 ^ j * 2 ^ (k - j)" using assms(2) by (simp flip: power_add)
  then show ?thesis using assms(1) by (simp add: div_mult2_eq)
qed

text \<open>A block lies in another exactly if its prefix is as long and starts with the other's.\<close>

lemma block_of_subset_iff:
  assumes "p \<le> w" and "q \<le> w"
  shows "block_of w q v \<subseteq> block_of w p u \<longleftrightarrow> p \<le> q \<and> u div 2 ^ (w - p) = v div 2 ^ (w - p)"
proof
  assume sub: "block_of w q v \<subseteq> block_of w p u"
  have "p \<le> q"
  proof (rule ccontr)
    assume "\<not> p \<le> q"
    with assms have lt: "(2::nat) ^ (w - p) < 2 ^ (w - q)" by simp
    have "finite (block_of w p u)" by (simp add: block_of_interval)
    from card_mono [OF this sub] show False using lt by (simp add: card_block_of)
  qed
  moreover have "v \<in> block_of w p u" using sub in_block_of by blast
  ultimately show "p \<le> q \<and> u div 2 ^ (w - p) = v div 2 ^ (w - p)" by (simp add: block_of_def)
next
  assume "p \<le> q \<and> u div 2 ^ (w - p) = v div 2 ^ (w - p)"
  moreover from this have "w - q \<le> w - p" by (simp add: diff_le_mono2)
  ultimately show "block_of w q v \<subseteq> block_of w p u"
    unfolding block_of_def by (auto dest: div_pow_mono)
qed

section \<open>Private addresses\<close>

definition rfc1918 :: "nat set" where
  "rfc1918 = block_of 32 8 0x0A000000 \<union> block_of 32 12 0xAC100000 \<union> block_of 32 16 0xC0A80000"

lemma in_rfc1918_iff: "v \<in> rfc1918 \<longleftrightarrow> (0x0A000000 \<le> v \<and> v \<le> 0x0AFFFFFF)
    \<or> (0xAC100000 \<le> v \<and> v \<le> 0xAC1FFFFF) \<or> (0xC0A80000 \<le> v \<and> v \<le> 0xC0A8FFFF)"
  by (auto simp: rfc1918_def block_of_interval)

section \<open>The contract of address arithmetic\<close>

text \<open>
  \<open>add\<close> and \<open>sub\<close> give the sum or difference of two addresses, or nothing where
  that is not an address.
\<close>

locale addr_arith =
  fixes wf :: "'a \<Rightarrow> bool"
    and val :: "'a \<Rightarrow> nat"
    and bound :: nat
    and add :: "'a \<Rightarrow> 'a \<Rightarrow> 'a option"
    and sub :: "'a \<Rightarrow> 'a \<Rightarrow> 'a option"
  assumes val_bound: "wf a \<Longrightarrow> val a < bound"
    and add_Some: "wf a \<Longrightarrow> wf b \<Longrightarrow> val a + val b < bound \<Longrightarrow>
      \<exists>c. add a b = Some c \<and> wf c \<and> val c = val a + val b"
    and add_None: "wf a \<Longrightarrow> wf b \<Longrightarrow> bound \<le> val a + val b \<Longrightarrow> add a b = None"
    and sub_Some: "wf a \<Longrightarrow> wf b \<Longrightarrow> val b \<le> val a \<Longrightarrow>
      \<exists>c. sub a b = Some c \<and> wf c \<and> val c + val b = val a"
    and sub_None: "wf a \<Longrightarrow> wf b \<Longrightarrow> val a < val b \<Longrightarrow> sub a b = None"
begin

lemma add_SomeD:
  assumes "add a b = Some c" and "wf a" and "wf b"
  shows "wf c \<and> val c = val a + val b \<and> val a + val b < bound"
  using assms add_Some [of a b] add_None [of a b] by (cases "val a + val b < bound") auto

lemma sub_SomeD:
  assumes "sub a b = Some c" and "wf a" and "wf b"
  shows "wf c \<and> val c + val b = val a"
  using assms sub_Some [of a b] sub_None [of a b] by (cases "val b \<le> val a") auto

lemma add_commute_val:
  assumes "wf a" and "wf b"
  shows "map_option val (add a b) = map_option val (add b a)"
  using assms add_Some [of a b] add_Some [of b a] add_None [of a b] add_None [of b a]
  by (cases "val a + val b < bound") (auto simp: add.commute)

lemma sub_after_add:
  assumes "add a b = Some c" and "wf a" and "wf b"
  shows "\<exists>d. sub c b = Some d \<and> wf d \<and> val d = val a"
proof -
  from assms have "wf c" "val c = val a + val b" by (auto dest: add_SomeD)
  with assms(3) sub_Some [of c b] show ?thesis by auto
qed

lemma add_after_sub:
  assumes "sub a b = Some c" and "wf a" and "wf b"
  shows "\<exists>d. add c b = Some d \<and> wf d \<and> val d = val a"
proof -
  from assms have "wf c" "val c + val b = val a" by (auto dest: sub_SomeD)
  with assms(2,3) add_Some [of c b] val_bound [of a] show ?thesis by auto
qed

end

section \<open>The contract of prefix operations\<close>

text \<open>
  \<open>lo\<close> is the least prefix length the operations can be used with.
\<close>

locale addr_block =
  fixes wf :: "'a \<Rightarrow> bool"
    and val :: "'a \<Rightarrow> nat"
    and plen :: "'a \<Rightarrow> nat"
    and width :: nat
    and lo :: nat
    and network :: "'a \<Rightarrow> 'a option"
    and contains :: "'a \<Rightarrow> 'a \<Rightarrow> bool option"
  assumes plen_le: "wf a \<Longrightarrow> plen a \<le> width"
    and network_val: "wf a \<Longrightarrow> lo \<le> plen a \<Longrightarrow>
      \<exists>n. network a = Some n \<and> wf n
        \<and> val n = val a div 2 ^ (width - plen a) * 2 ^ (width - plen a)"
    and contains_val: "wf a \<Longrightarrow> wf b \<Longrightarrow> lo \<le> plen a \<Longrightarrow>
      contains a b = Some (plen a \<le> plen b
        \<and> val a div 2 ^ (width - plen a) = val b div 2 ^ (width - plen a))"
begin

lemma network_least:
  assumes "wf a" and "lo \<le> plen a"
  shows "\<exists>n. network a = Some n \<and> val n \<in> block_of width (plen a) (val a)
    \<and> (\<forall>x\<in>block_of width (plen a) (val a). val n \<le> x)"
proof -
  obtain n where "network a = Some n"
    and "val n = val a div 2 ^ (width - plen a) * 2 ^ (width - plen a)"
    using network_val assms by blast
  then show ?thesis by (auto simp: block_of_interval)
qed

lemma contains_iff_subset:
  assumes "wf a" and "wf b" and "lo \<le> plen a"
  shows "contains a b = Some (block_of width (plen b) (val b) \<subseteq> block_of width (plen a) (val a))"
  using contains_val [OF assms] assms plen_le by (simp add: block_of_subset_iff)

lemma contains_trans:
  assumes "wf a" "wf b" "wf c" "lo \<le> plen a" "lo \<le> plen b"
    and "contains a b = Some True" and "contains b c = Some True"
  shows "contains a c = Some True"
  using assms by (auto simp: contains_iff_subset)

end

section \<open>Carrying additions and subtractions of bytes\<close>

text \<open>One step of a byte-wise addition or subtraction with a carry of 0 or 1.\<close>

lemma byte_add:
  fixes a b c :: u8
  assumes "unat c \<le> 1"
  shows "unat (a + (b + c)) + 256 * (if unat a + unat b + unat c \<ge> 256 then 1 else 0)
    = unat a + unat b + unat c"
proof -
  have "unat (a + (b + c)) = (unat a + unat b + unat c) mod 256"
    by (simp add: unat_word_ariths mod_add_right_eq add.assoc)
  moreover have "unat a + unat b + unat c < 512"
    using unat_byte_less [of a] unat_byte_less [of b] assms by linarith
  ultimately show ?thesis by (auto simp: mod_if)
qed

lemma borrow_arith:
  fixes a b c r :: nat
  assumes "a + 256 * (if r + b + c \<ge> 256 then 1 else 0) = r + b + c" and "r < 256" and "a < 256"
  shows "r + b + c = a + 256 * (if int a - int b - int c < 0 then 1 else 0)"
  using assms by (auto split: if_splits)

lemma byte_sub:
  fixes a b c :: u8
  assumes "unat c \<le> 1"
  shows "unat (a - (b + c)) + unat b + unat c
    = unat a + 256 * (if int (unat a) - int (unat b) - int (unat c) < 0 then 1 else 0)"
  by (rule borrow_arith) (use byte_add [OF assms, of "a - (b + c)" b] in simp_all)

section \<open>The leading bits of a byte string\<close>

lemma two_pow_8: "(256::nat) ^ k = 2 ^ (8 * k)"
  by (simp add: power_mult)

lemma be_val_div_bytes:
  assumes "k \<le> length x"
  shows "be_val x div 256 ^ k = be_val (take (length x - k) x)"
proof -
  have "be_val x = be_val (take (length x - k) x) * 256 ^ length (drop (length x - k) x)
      + be_val (drop (length x - k) x)"
    by (metis append_take_drop_id be_val_append)
  moreover have "be_val (drop (length x - k) x) < 256 ^ length (drop (length x - k) x)"
    by (rule be_val_less)
  ultimately show ?thesis using assms by simp
qed

text \<open>
  All but the last \<open>8 * k + r\<close> bits: the bytes in front, then the high bits of one more.
\<close>

lemma be_val_div_bits:
  assumes "k < length x" and "r < 8"
  defines "i \<equiv> length x - 1 - k"
  shows "be_val x div 2 ^ (8 * k + r) = be_val (take i x) * 2 ^ (8 - r) + unat (x ! i) div 2 ^ r"
proof -
  have i: "length x - k = Suc i" "i < length x" using assms by auto
  have "be_val x div 2 ^ (8 * k + r) = be_val x div 256 ^ k div 2 ^ r"
    by (simp add: power_add two_pow_8 div_mult2_eq)
  also have "\<dots> = (256 * be_val (take i x) + unat (x ! i)) div 2 ^ r"
    using assms(1) by (simp add: be_val_div_bytes i take_Suc_conv_app_nth be_val_snoc)
  also have "(256::nat) = 2 ^ (8 - r) * 2 ^ r" using assms(2) by (simp flip: power_add)
  also have "(2 ^ (8 - r) * 2 ^ r * be_val (take i x) + unat (x ! i)) div 2 ^ r
      = be_val (take i x) * 2 ^ (8 - r) + unat (x ! i) div 2 ^ r"
    by (simp add: mult.assoc mult.left_commute [of _ "2 ^ r"] mult.commute [of _ "2 ^ r"])
  finally show ?thesis .
qed

lemma byte_div_less: "r < 8 \<Longrightarrow> unat (b :: u8) div 2 ^ r < 2 ^ (8 - r)"
proof -
  assume "r < 8"
  then have "(256::nat) = 2 ^ (8 - r) * 2 ^ r" by (simp flip: power_add)
  then show ?thesis using unat_byte_less [of b] by (simp add: less_mult_imp_div_less)
qed

lemma be_val_div_eq_iff:
  assumes "k < length x" and "r < 8" and "length y = length x"
  defines "i \<equiv> length x - 1 - k"
  shows "be_val x div 2 ^ (8 * k + r) = be_val y div 2 ^ (8 * k + r)
    \<longleftrightarrow> take i x = take i y \<and> unat (x ! i) div 2 ^ r = unat (y ! i) div 2 ^ r"
proof -
  let ?M = "2 ^ (8 - r) :: nat"
  have lt: "unat (x ! i) div 2 ^ r < ?M" "unat (y ! i) div 2 ^ r < ?M"
    using assms(2) byte_div_less by blast+
  have uniq: "u * ?M + c = v * ?M + d \<longleftrightarrow> u = v \<and> c = d" if "c < ?M" "d < ?M" for u v c d
  proof
    assume eq: "u * ?M + c = v * ?M + d"
    then have "(u * ?M + c) div ?M = (v * ?M + d) div ?M" by simp
    then have "u = v" using that by (simp only: div_mult_self3 div_less)
    with eq show "u = v \<and> c = d" by simp
  qed simp
  have "be_val (take i x) = be_val (take i y) \<longleftrightarrow> take i x = take i y"
    using assms(3) by (intro be_val_eq_iff) simp
  then show ?thesis
    using be_val_div_bits [OF assms(1,2)] be_val_div_bits [of k y r] assms uniq [OF lt] by simp
qed

lemma unat_and_eq_iff:
  fixes a b :: "'a::len word"
  shows "a AND NOT (mask r) = b AND NOT (mask r) \<longleftrightarrow> unat a div 2 ^ r = unat b div 2 ^ r"
  by (simp add: word_unat_eq_iff unat_and_not_mask)

text \<open>Clearing the last \<open>8 * k + r\<close> bits.\<close>

lemma be_val_clear_bits:
  assumes "k < length x" and "r < 8"
  defines "i \<equiv> length x - 1 - k"
  shows "be_val (take i x @ [x ! i AND NOT (mask r)] @ replicate k 0)
    = be_val x div 2 ^ (8 * k + r) * 2 ^ (8 * k + r)"
proof -
  let ?H = "be_val (take i x)" and ?b = "unat (x ! i)"
  have p: "(2::nat) ^ (8 - r) * 2 ^ r = 256" using assms(2) by (simp flip: power_add)
  have "be_val (take i x @ [x ! i AND NOT (mask r)] @ replicate k 0)
      = (256 * ?H + ?b div 2 ^ r * 2 ^ r) * 256 ^ k"
    by (simp add: be_val_append be_val_replicate_0 unat_and_not_mask algebra_simps)
  also have "\<dots> = (?H * 2 ^ (8 - r) + ?b div 2 ^ r) * 2 ^ r * 2 ^ (8 * k)"
    unfolding two_pow_8 by (subst p [symmetric]) (simp add: algebra_simps)
  also have "\<dots> = (?H * 2 ^ (8 - r) + ?b div 2 ^ r) * 2 ^ (8 * k + r)"
    by (simp add: power_add)
  finally show ?thesis using be_val_div_bits [OF assms(1,2)] by (simp add: i_def)
qed

end
