(* ===== verification/Owipcalc.thy ===== *)
theory Owipcalc
  imports Addr_Spec
begin

text \<open>
  \<open>openwrt/package/network/utils/owipcalc/src/owipcalc.c\<close>, the firmware's address
  calculator: the whole program, from the command line to the exit code.  A run keeps a stack
  of addresses; each command works on the top of it and most push their result.
  The file has the data and the state first, then the parsers, the operations in the order of
  the source, the table \<open>ops\<close>, the interpreter and \<open>main\<close>.
\<close>

section \<open>Data and state\<close>

text \<open>
  \<open>struct cidr\<close>.  The address is the union of \<open>struct in_addr\<close> and
  \<open>struct in6_addr\<close>: sixteen bytes, of which an IPv4 address uses the first four.  The
  scratch buffer of the struct only lives inside of one parse or print, so it is not a field.
\<close>

record cidr =
  c_family :: af
  c_prefix :: u32
  c_addr :: bytes

definition v4_get :: "target \<Rightarrow> cidr \<Rightarrow> u32" where
  "v4_get t a = load32 (tgt_endian t) (take 4 (c_addr a))"

definition v4_set :: "target \<Rightarrow> u32 \<Rightarrow> cidr \<Rightarrow> cidr" where
  "v4_set t w a = a\<lparr>c_addr := store32 (tgt_endian t) w @ drop 4 (c_addr a)\<rparr>"

text \<open>The messages the program writes to its standard error.\<close>

datatype ow_msg =
    Overflow string
  | Underflow string
  | Family_mismatch string af
  | Requires_argument string
  | Invalid_argument string
  | Not_supported string af
  | Unknown_operation string
  | Usage

record ow_state =
  ow_stack :: "cidr list"
  ow_quiet :: bool
  ow_printed :: bool
  ow_out :: string
  ow_err :: "ow_msg list"

definition qprintf :: "string \<Rightarrow> ow_state \<Rightarrow> ow_state" where
  "qprintf s st = st\<lparr>ow_out := (if ow_quiet st then ow_out st else ow_out st @ s), ow_printed := True\<rparr>"

definition eprintf :: "ow_msg \<Rightarrow> ow_state \<Rightarrow> ow_state" where
  "eprintf m st = st\<lparr>ow_err := ow_err st @ [m]\<rparr>"

definition cidr_push :: "cidr \<Rightarrow> ow_state \<Rightarrow> ow_state" where
  "cidr_push a st = st\<lparr>ow_stack := a # ow_stack st\<rparr>"

definition cidr_pop :: "cidr \<Rightarrow> ow_state \<Rightarrow> bool \<times> ow_state" where
  "cidr_pop a st = (case ow_stack st of
     [] \<Rightarrow> (False, st)
   | _ # rest \<Rightarrow> (True, st\<lparr>ow_stack := rest\<rparr>))"

text \<open>
  \<open>cidr_clone\<close> pushes a copy and returns a pointer to it; what the operations write
  through that pointer is \<open>set_top\<close>.
\<close>

definition cidr_clone :: "cidr \<Rightarrow> ow_state \<Rightarrow> ow_state" where
  "cidr_clone a st = cidr_push a st"

definition set_top :: "cidr \<Rightarrow> ow_state \<Rightarrow> ow_state" where
  "set_top n st = st\<lparr>ow_stack := n # tl (ow_stack st)\<rparr>"

text \<open>The \<open>if (printed) qprintf(" ")\<close> in front of every output, and a printed truth value.\<close>

definition qsep :: "ow_state \<Rightarrow> ow_state" where
  "qsep st = (if ow_printed st then qprintf '' '' st else st)"

definition answer :: "bool \<Rightarrow> ow_state \<Rightarrow> bool \<times> ow_state" where
  "answer b st = (b, qprintf (if b then ''1'' else ''0'') (qsep st))"

section \<open>IPv4\<close>

text \<open>
  The dotted mask of \<open>cidr_parse4\<close> gives its number of one bits, whichever they are.
\<close>

definition bit_count :: "u32 \<Rightarrow> nat" where
  "bit_count w = length (filter (bit w) [0..<32])"

definition prefix_of :: "target \<Rightarrow> nat \<Rightarrow> string \<Rightarrow> u32 option" where
  "prefix_of t mx p =
     (let (v, r, _) = strtoul (tgt_ulong_max t) 10 p; n = word_of_nat v :: u32
      in if p = r \<or> r \<noteq> [] \<or> unat n > mx then None else Some n)"

definition cidr_parse4 :: "target \<Rightarrow> string \<Rightarrow> cidr option" where
  "cidr_parse4 t s =
     (if length s \<ge> 33 then None
      else
        (let host = takeWhile (\<lambda>c. c \<noteq> CHR ''/'') s;
             slash = (CHR ''/'' \<in> set s);
             p = drop (length host + 1) s
         in do {
           n \<leftarrow> (if slash then
                   (if CHR ''.'' \<in> set p
                    then map_option (\<lambda>m. word_of_nat (bit_count (load32 (tgt_endian t) m))) (inet_pton4 p)
                    else prefix_of t 32 p)
                 else Some 32);
           q \<leftarrow> (if slash \<and> host = [] then Some [0, 0, 0, 0] else inet_pton4 host);
           Some \<lparr>c_family = AF_INET, c_prefix = n, c_addr = q @ replicate 12 0\<rparr>
         }))"

definition cidr_add4 :: "target \<Rightarrow> cidr \<Rightarrow> cidr \<Rightarrow> ow_state \<Rightarrow> (bool \<times> ow_state) option" where
  "cidr_add4 t a b st =
     (let x = htonl (tgt_endian t) (v4_get t a);
          y = htonl (tgt_endian t) (v4_get t b);
          st1 = cidr_clone a st
      in if c_family a \<noteq> AF_INET \<or> c_family b \<noteq> AF_INET then Some (False, st1)
         else if x + y < x then Some (False, eprintf (Overflow ''add'') st1)
         else Some (True, set_top (v4_set t (htonl (tgt_endian t) (x + y)) a) st1))"

definition cidr_sub4 :: "target \<Rightarrow> cidr \<Rightarrow> cidr \<Rightarrow> ow_state \<Rightarrow> (bool \<times> ow_state) option" where
  "cidr_sub4 t a b st =
     (let x = htonl (tgt_endian t) (v4_get t a);
          y = htonl (tgt_endian t) (v4_get t b);
          st1 = cidr_clone a st
      in if c_family a \<noteq> AF_INET \<or> c_family b \<noteq> AF_INET then Some (False, st1)
         else if x - y > x then Some (False, eprintf (Underflow ''sub'') st1)
         else Some (True, set_top (v4_set t (htonl (tgt_endian t) (x - y)) a) st1))"

definition cidr_network4 :: "target \<Rightarrow> cidr \<Rightarrow> ow_state \<Rightarrow> (bool \<times> ow_state) option" where
  "cidr_network4 t a st = do {
     k \<leftarrow> shl1 (32 - c_prefix a);
     let n = v4_set t (v4_get t a AND htonl (tgt_endian t) (NOT (k - 1))) a;
     Some (True, set_top (n\<lparr>c_prefix := 32\<rparr>) (cidr_clone a st))
   }"

definition cidr_broadcast4 :: "target \<Rightarrow> cidr \<Rightarrow> ow_state \<Rightarrow> (bool \<times> ow_state) option" where
  "cidr_broadcast4 t a st = do {
     k \<leftarrow> shl1 (32 - c_prefix a);
     let n = v4_set t (v4_get t a OR htonl (tgt_endian t) (k - 1)) a;
     Some (True, set_top (n\<lparr>c_prefix := 32\<rparr>) (cidr_clone a st))
   }"

definition cidr_contains4 :: "target \<Rightarrow> cidr \<Rightarrow> cidr \<Rightarrow> ow_state \<Rightarrow> (bool \<times> ow_state) option" where
  "cidr_contains4 t a b st = do {
     k \<leftarrow> shl1 (32 - c_prefix a);
     let net1 = v4_get t a AND htonl (tgt_endian t) (NOT (k - 1));
     let net2 = v4_get t b AND htonl (tgt_endian t) (NOT (k - 1));
     Some (answer (c_prefix b \<ge> c_prefix a \<and> net1 = net2) st)
   }"

definition cidr_netmask4 :: "target \<Rightarrow> cidr \<Rightarrow> ow_state \<Rightarrow> (bool \<times> ow_state) option" where
  "cidr_netmask4 t a st = do {
     k \<leftarrow> shl1 (32 - c_prefix a);
     let n = v4_set t (htonl (tgt_endian t) (NOT (k - 1))) a;
     Some (True, set_top (n\<lparr>c_prefix := 32\<rparr>) (cidr_clone a st))
   }"

definition cidr_private4 :: "target \<Rightarrow> cidr \<Rightarrow> ow_state \<Rightarrow> (bool \<times> ow_state) option" where
  "cidr_private4 t a st =
     (let x = htonl (tgt_endian t) (v4_get t a)
      in Some (answer ((0x0A000000 \<le> x \<and> x \<le> 0x0AFFFFFF)
           \<or> (0xAC100000 \<le> x \<and> x \<le> 0xAC1FFFFF)
           \<or> (0xC0A80000 \<le> x \<and> x \<le> 0xC0A8FFFF)) st))"

definition cidr_linklocal4 :: "target \<Rightarrow> cidr \<Rightarrow> ow_state \<Rightarrow> (bool \<times> ow_state) option" where
  "cidr_linklocal4 t a st =
     (let x = htonl (tgt_endian t) (v4_get t a)
      in Some (answer (0xA9FE0000 \<le> x \<and> x \<le> 0xA9FEFFFF) st))"

text \<open>
  \<open>prev\<close> and \<open>next\<close> add to the address as it lies in memory, not to its value.
\<close>

definition cidr_prev4 :: "target \<Rightarrow> cidr \<Rightarrow> cidr \<Rightarrow> ow_state \<Rightarrow> (bool \<times> ow_state) option" where
  "cidr_prev4 t a b st = do {
     k \<leftarrow> shl1 (32 - c_prefix b);
     let n = v4_set t (v4_get t a - htonl (tgt_endian t) k) (a\<lparr>c_prefix := c_prefix b\<rparr>);
     Some (True, set_top n (cidr_clone a st))
   }"

definition cidr_next4 :: "target \<Rightarrow> cidr \<Rightarrow> cidr \<Rightarrow> ow_state \<Rightarrow> (bool \<times> ow_state) option" where
  "cidr_next4 t a b st = do {
     k \<leftarrow> shl1 (32 - c_prefix b);
     let n = v4_set t (v4_get t a + htonl (tgt_endian t) k) (a\<lparr>c_prefix := c_prefix b\<rparr>);
     Some (True, set_top n (cidr_clone a st))
   }"

definition cidr_6to4 :: "target \<Rightarrow> cidr \<Rightarrow> ow_state \<Rightarrow> (bool \<times> ow_state) option" where
  "cidr_6to4 t a st =
     (let x = v4_get t a;
          n = \<lparr>c_family = AF_INET6, c_prefix = 48,
               c_addr = [0x20, 0x02, ucast (drop_bit 24 x), ucast (drop_bit 16 x),
                         ucast (drop_bit 8 x), ucast x] @ replicate 10 0\<rparr>
      in Some (True, set_top n (cidr_clone a st)))"

definition cidr_print4 :: "cidr \<Rightarrow> ow_state \<Rightarrow> (bool \<times> ow_state) option" where
  "cidr_print4 a st =
     (if c_family a \<noteq> AF_INET then Some (False, st)
      else
        (let st1 = qprintf (inet_ntop4 (take 4 (c_addr a))) (qsep st);
             st2 = (if c_prefix a < 32 then qprintf (''/'' @ show_nat (unat (c_prefix a))) st1 else st1)
         in Some (True, snd (cidr_pop a st2))))"

section \<open>IPv6\<close>

definition cidr_parse6 :: "target \<Rightarrow> string \<Rightarrow> cidr option" where
  "cidr_parse6 t s =
     (if length s \<ge> 51 then None
      else
        (let host = takeWhile (\<lambda>c. c \<noteq> CHR ''/'') s;
             slash = (CHR ''/'' \<in> set s);
             p = drop (length host + 1) s
         in do {
           n \<leftarrow> (if slash then prefix_of t 128 p else Some 128);
           q \<leftarrow> (if slash \<and> host = [] then Some (replicate 16 0) else inet_pton6 host);
           Some \<lparr>c_family = AF_INET6, c_prefix = n, c_addr = q\<rparr>
         }))"

text \<open>
  The byte loops of the IPv6 operations run from the index given down to 0 and carry a bit
  from each byte to the one before; the result is the new address and the last carry.
\<close>

fun add6_loop :: "nat \<Rightarrow> u8 \<Rightarrow> bytes \<Rightarrow> bytes \<Rightarrow> bytes \<times> u8" where
  "add6_loop idx carry x y =
     (let overflow = (if unat (x ! idx) + unat (y ! idx) + unat carry \<ge> 256 then 1 else 0);
          x' = x[idx := x ! idx + (y ! idx + carry)]
      in case idx of 0 \<Rightarrow> (x', overflow) | Suc i \<Rightarrow> add6_loop i overflow x' y)"

fun sub6_loop :: "nat \<Rightarrow> u8 \<Rightarrow> bytes \<Rightarrow> bytes \<Rightarrow> bytes \<times> u8" where
  "sub6_loop idx carry x y =
     (let underflow = (if int (unat (x ! idx)) - int (unat (y ! idx)) - int (unat carry) < 0 then 1 else 0);
          x' = x[idx := x ! idx - (y ! idx + carry)]
      in case idx of 0 \<Rightarrow> (x', underflow) | Suc i \<Rightarrow> sub6_loop i underflow x' y)"

fun prev6_loop :: "nat \<Rightarrow> u8 \<Rightarrow> bytes \<Rightarrow> bytes \<times> u8" where
  "prev6_loop idx carry x =
     (let underflow = (if int (unat (x ! idx)) - int (unat carry) < 0 then 1 else 0);
          x' = x[idx := x ! idx - carry]
      in case idx of 0 \<Rightarrow> (x', underflow) | Suc i \<Rightarrow> prev6_loop i underflow x')"

fun next6_loop :: "nat \<Rightarrow> u8 \<Rightarrow> bytes \<Rightarrow> bytes \<times> u8" where
  "next6_loop idx carry x =
     (let overflow = (if unat (x ! idx) + unat carry \<ge> 256 then 1 else 0);
          x' = x[idx := x ! idx + carry]
      in case idx of 0 \<Rightarrow> (x', overflow) | Suc i \<Rightarrow> next6_loop i overflow x')"

declare add6_loop.simps [simp del] sub6_loop.simps [simp del]
declare prev6_loop.simps [simp del] next6_loop.simps [simp del]

definition cidr_add6 :: "cidr \<Rightarrow> cidr \<Rightarrow> ow_state \<Rightarrow> (bool \<times> ow_state) option" where
  "cidr_add6 a b st =
     (let st1 = cidr_clone a st
      in if c_family a \<noteq> AF_INET6 \<or> c_family b \<noteq> AF_INET6 then Some (False, st1)
         else
           (let (x, carry) = add6_loop 15 0 (c_addr a) (c_addr b);
                st2 = set_top (a\<lparr>c_addr := x\<rparr>) st1
            in if carry \<noteq> 0 then Some (False, eprintf (Overflow ''add'') st2) else Some (True, st2)))"

definition cidr_sub6 :: "cidr \<Rightarrow> cidr \<Rightarrow> ow_state \<Rightarrow> (bool \<times> ow_state) option" where
  "cidr_sub6 a b st =
     (let st1 = cidr_clone a st
      in if c_family a \<noteq> AF_INET6 \<or> c_family b \<noteq> AF_INET6 then Some (False, st1)
         else
           (let (x, carry) = sub6_loop 15 0 (c_addr a) (c_addr b);
                st2 = set_top (a\<lparr>c_addr := x\<rparr>) st1
            in if carry \<noteq> 0 then Some (False, eprintf (Underflow ''sub'') st2) else Some (True, st2)))"

text \<open>
  \<open>prev\<close> and \<open>next\<close> start at the byte of the last prefix bit.  A prefix above 128
  (\<open>prefix 200\<close> can set one) makes the index run past the sixteen bytes.
\<close>

definition step_idx :: "cidr \<Rightarrow> nat" where
  "step_idx b = unat (c_prefix b - 1) div 8 mod 256"

definition cidr_prev6 :: "cidr \<Rightarrow> cidr \<Rightarrow> ow_state \<Rightarrow> (bool \<times> ow_state) option" where
  "cidr_prev6 a b st =
     (let st1 = cidr_clone a st
      in if c_prefix b = 0 then Some (False, eprintf (Underflow ''prev'') st1)
         else if step_idx b > 15 then None
         else
           (let (x, carry) = prev6_loop (step_idx b) 1 (c_addr a); n = a\<lparr>c_addr := x\<rparr>
            in if carry \<noteq> 0 then Some (False, eprintf (Underflow ''prev'') (set_top n st1))
               else Some (True, set_top (n\<lparr>c_prefix := c_prefix b\<rparr>) st1)))"

definition cidr_next6 :: "cidr \<Rightarrow> cidr \<Rightarrow> ow_state \<Rightarrow> (bool \<times> ow_state) option" where
  "cidr_next6 a b st =
     (let st1 = cidr_clone a st
      in if c_prefix b = 0 then Some (False, eprintf (Overflow ''next'') st1)
         else if step_idx b > 15 then None
         else
           (let (x, carry) = next6_loop (step_idx b) 1 (c_addr a); n = a\<lparr>c_addr := x\<rparr>
            in if carry \<noteq> 0 then Some (False, eprintf (Overflow ''next'') (set_top n st1))
               else Some (True, set_top (n\<lparr>c_prefix := c_prefix b\<rparr>) st1)))"

text \<open>
  \<open>network\<close> clears whole bytes from the end, then the low bits of one more.  With
  \<open>host\<close> host bits beyond 128 (again a prefix above 128) the loop leaves the array.
\<close>

definition low_mask :: "nat \<Rightarrow> u8" where
  "low_mask r = NOT (push_bit r 1 - 1)"

definition cidr_network6 :: "cidr \<Rightarrow> ow_state \<Rightarrow> (bool \<times> ow_state) option" where
  "cidr_network6 a st =
     (let host = unat (128 - c_prefix a); k = host div 8; r = host mod 8;
          x = foldl (\<lambda>x i. x[15 - i := 0]) (c_addr a) [0..<k];
          x' = (if r \<noteq> 0 then x[15 - k := x ! (15 - k) AND low_mask r] else x)
      in if k > 16 \<or> (k = 16 \<and> r \<noteq> 0) then None
         else Some (True, set_top (a\<lparr>c_addr := x'\<rparr>) (cidr_clone a st)))"

definition cidr_contains6 :: "cidr \<Rightarrow> cidr \<Rightarrow> ow_state \<Rightarrow> (bool \<times> ow_state) option" where
  "cidr_contains6 a b st =
     (let st1 = cidr_clone a st;
          host = unat (128 - c_prefix a); i = host div 8 mod 256; m = low_mask (host mod 8);
          x = c_addr a; y = c_addr b
      in if i > 15 then None
         else Some (answer (c_prefix b \<ge> c_prefix a
             \<and> x ! (15 - i) AND m = y ! (15 - i) AND m
             \<and> (i = 15 \<or> take (15 - i) x = take (15 - i) y)) st1))"

definition cidr_linklocal6 :: "cidr \<Rightarrow> ow_state \<Rightarrow> (bool \<times> ow_state) option" where
  "cidr_linklocal6 a st = Some (answer (c_addr a ! 0 = 0xFE
     \<and> c_addr a ! 1 \<ge> 0x80 \<and> c_addr a ! 1 \<le> 0xBF) st)"

definition cidr_ula6 :: "cidr \<Rightarrow> ow_state \<Rightarrow> (bool \<times> ow_state) option" where
  "cidr_ula6 a st = Some (answer (c_addr a ! 0 \<ge> 0xFC \<and> c_addr a ! 0 \<le> 0xFD) st)"

definition cidr_print6 :: "cidr \<Rightarrow> ow_state \<Rightarrow> (bool \<times> ow_state) option" where
  "cidr_print6 a st =
     (if c_family a \<noteq> AF_INET6 then Some (False, st)
      else
        (let st1 = qprintf (inet_ntop6 (c_addr a)) (qsep st);
             st2 = (if c_prefix a < 128 then qprintf (''/'' @ show_nat (unat (c_prefix a))) st1 else st1)
         in Some (True, snd (cidr_pop a st2))))"

section \<open>Arguments, and the operations of both families\<close>

text \<open>
  \<open>cidr_parse\<close> reads the argument of an operation: a plain number is both an address and
  a prefix length; an address of the other family ends the program with code 4.
\<close>

datatype parsed = Parse_error | Parsed cidr | Parse_exit

definition bytes_of_sum :: "u32 \<Rightarrow> bytes" where
  "bytes_of_sum n = fst (foldl (\<lambda>(bs, n). \<lambda>i. (bs[15 - i := ucast n], drop_bit 8 n))
     (replicate 16 0, n) [0..<16])"

definition cidr_parse :: "target \<Rightarrow> string \<Rightarrow> af \<Rightarrow> parsed" where
  "cidr_parse t s af_hint =
     (let (v, r, _) = strtoul (tgt_ulong_max t) 0 s; n = word_of_nat v :: u32
      in if r \<noteq> s \<and> r = [] then
           (if af_hint = AF_INET
            then Parsed \<lparr>c_family = AF_INET, c_prefix = n,
                   c_addr = store32 (tgt_endian t) (htonl (tgt_endian t) n) @ replicate 12 0\<rparr>
            else Parsed \<lparr>c_family = AF_INET6, c_prefix = n, c_addr = bytes_of_sum n\<rparr>)
         else
           (case (if CHR '':'' \<in> set s then cidr_parse6 t s else cidr_parse4 t s) of
              None \<Rightarrow> Parse_error
            | Some a \<Rightarrow> if c_family a \<noteq> af_hint then Parse_exit else Parsed a))"

definition cidr_howmany :: "cidr \<Rightarrow> cidr \<Rightarrow> ow_state \<Rightarrow> (bool \<times> ow_state) option" where
  "cidr_howmany a b st =
     (if c_prefix b < c_prefix a then Some (True, qprintf ''0'' (qsep st))
      else do {
        k \<leftarrow> shl1 (c_prefix b - c_prefix a);
        Some (True, qprintf (show_nat (unat k)) (qsep st))
      })"

text \<open>\<open>prefix\<close> writes through the pointer to the top of the stack.\<close>

definition cidr_prefix46 :: "cidr \<Rightarrow> cidr \<Rightarrow> ow_state \<Rightarrow> (bool \<times> ow_state) option" where
  "cidr_prefix46 a b st = Some (True, set_top (a\<lparr>c_prefix := c_prefix b\<rparr>) st)"

definition cidr_quiet :: "cidr \<Rightarrow> ow_state \<Rightarrow> (bool \<times> ow_state) option" where
  "cidr_quiet a st = Some (True, st\<lparr>ow_quiet := True\<rparr>)"

text \<open>\<open>struct op\<close> and the table \<open>ops\<close>: a command is unary or binary, per family.\<close>

type_synonym fun1 = "cidr \<Rightarrow> ow_state \<Rightarrow> (bool \<times> ow_state) option"
type_synonym fun2 = "cidr \<Rightarrow> cidr \<Rightarrow> ow_state \<Rightarrow> (bool \<times> ow_state) option"

record op =
  op_name :: string
  op_f4a1 :: "fun1 option"
  op_f4a2 :: "fun2 option"
  op_f6a1 :: "fun1 option"
  op_f6a2 :: "fun2 option"

definition op1 :: "string \<Rightarrow> fun1 option \<Rightarrow> fun1 option \<Rightarrow> op" where
  "op1 n f4 f6 = \<lparr>op_name = n, op_f4a1 = f4, op_f4a2 = None, op_f6a1 = f6, op_f6a2 = None\<rparr>"

definition op2 :: "string \<Rightarrow> fun2 option \<Rightarrow> fun2 option \<Rightarrow> op" where
  "op2 n f4 f6 = \<lparr>op_name = n, op_f4a1 = None, op_f4a2 = f4, op_f6a1 = None, op_f6a2 = f6\<rparr>"

definition ops :: "target \<Rightarrow> op list" where
  "ops t =
     [op2 ''add'' (Some (cidr_add4 t)) (Some cidr_add6),
      op2 ''sub'' (Some (cidr_sub4 t)) (Some cidr_sub6),
      op2 ''next'' (Some (cidr_next4 t)) (Some cidr_next6),
      op2 ''prev'' (Some (cidr_prev4 t)) (Some cidr_prev6),
      op1 ''network'' (Some (cidr_network4 t)) (Some cidr_network6),
      op1 ''broadcast'' (Some (cidr_broadcast4 t)) None,
      op2 ''prefix'' (Some cidr_prefix46) (Some cidr_prefix46),
      op1 ''netmask'' (Some (cidr_netmask4 t)) None,
      op1 ''6to4'' (Some (cidr_6to4 t)) None,
      op2 ''howmany'' (Some cidr_howmany) (Some cidr_howmany),
      op2 ''contains'' (Some (cidr_contains4 t)) (Some cidr_contains6),
      op1 ''private'' (Some (cidr_private4 t)) None,
      op1 ''linklocal'' (Some (cidr_linklocal4 t)) (Some cidr_linklocal6),
      op1 ''ula'' None (Some cidr_ula6),
      op1 ''quiet'' (Some cidr_quiet) (Some cidr_quiet),
      op1 ''pop'' (Some (\<lambda>a st. Some (cidr_pop a st))) (Some (\<lambda>a st. Some (cidr_pop a st))),
      op1 ''print'' (Some cidr_print4) (Some cidr_print6)]"

section \<open>The interpreter\<close>

text \<open>
  One call of \<open>runop\<close>: it went on, it stopped the loop (with the arguments it left, and
  the status), or it ended the program.  The top of the stack is read before anything else is
  checked about it, so a command on an empty stack is a null pointer.
\<close>

datatype run =
    Continue "string list" nat ow_state
  | Stop "string list" nat ow_state
  | Exit nat ow_state

definition run_binary :: "target \<Rightarrow> op \<Rightarrow> string list \<Rightarrow> nat \<Rightarrow> ow_state \<Rightarrow> run option" where
  "run_binary t o1 args status st =
     (case drop 1 args of
        [] \<Rightarrow> Some (Stop args 2 (eprintf (Requires_argument (op_name o1)) st))
      | arg2 # rest \<Rightarrow>
          (case ow_stack st of
             [] \<Rightarrow> None
           | a # _ \<Rightarrow>
               (case cidr_parse t arg2 (c_family a) of
                  Parse_exit \<Rightarrow> Some (Exit 4 (eprintf (Family_mismatch (op_name o1) (c_family a)) st))
                | Parse_error \<Rightarrow> Some (Stop args 3 (eprintf (Invalid_argument (op_name o1)) st))
                | Parsed b \<Rightarrow>
                    (case (if c_family a = AF_INET then op_f4a2 o1 else op_f6a2 o1) of
                       None \<Rightarrow> Some (Stop rest 5 (eprintf (Not_supported (op_name o1) (c_family a)) st))
                     | Some f \<Rightarrow> do {
                         (ok, st') \<leftarrow> f a b st;
                         Some (Continue rest (if ok then 0 else 1) st')
                       }))))"

definition run_unary :: "op \<Rightarrow> string list \<Rightarrow> nat \<Rightarrow> ow_state \<Rightarrow> run option" where
  "run_unary o1 args status st =
     (case ow_stack st of
        [] \<Rightarrow> None
      | a # _ \<Rightarrow>
          (case (if c_family a = AF_INET then op_f4a1 o1 else op_f6a1 o1) of
             None \<Rightarrow> Some (Stop (drop 1 args) 5 (eprintf (Not_supported (op_name o1) (c_family a)) st))
           | Some f \<Rightarrow> do {
               (ok, st') \<leftarrow> f a st;
               Some (Continue (drop 1 args) (if ok then 0 else 1) st')
             }))"

definition runop :: "target \<Rightarrow> string list \<Rightarrow> nat \<Rightarrow> ow_state \<Rightarrow> run option" where
  "runop t args status st =
     (case args of
        [] \<Rightarrow> Some (Stop args status st)
      | arg1 # _ \<Rightarrow>
          (case find (\<lambda>o1. op_name o1 = arg1) (ops t) of
             None \<Rightarrow> Some (Stop args status st)
           | Some o1 \<Rightarrow>
               (if op_f4a2 o1 \<noteq> None \<or> op_f6a2 o1 \<noteq> None then run_binary t o1 args status st
                else run_unary o1 args status st)))"

lemma runop_shorter:
  assumes "runop t args status st = Some (Continue args' status' st')"
  shows "length args' < length args"
  using assms
  by (cases args)
     (auto simp: runop_def run_binary_def run_unary_def Let_def bind_eq_Some_conv
       split: option.splits list.splits parsed.splits if_splits)

function run_loop :: "target \<Rightarrow> string list \<Rightarrow> nat \<Rightarrow> ow_state \<Rightarrow> run option" where
  "run_loop t args status st =
     (case runop t args status st of
        Some (Continue args' status' st') \<Rightarrow> run_loop t args' status' st'
      | r \<Rightarrow> r)"
  by pat_completeness auto
termination
  by (relation "measure (\<lambda>(t, args, status, st). length args)") (auto dest: runop_shorter)

declare run_loop.simps [simp del]

text \<open>\<open>main\<close>: the exit code and the state when the program ends.\<close>

definition ow_init :: ow_state where
  "ow_init = \<lparr>ow_stack = [], ow_quiet = False, ow_printed = False, ow_out = [], ow_err = []\<rparr>"

definition usage :: "ow_state \<Rightarrow> nat \<times> ow_state" where
  "usage st = (1, eprintf Usage st)"

definition ow_finish :: "nat \<Rightarrow> ow_state \<Rightarrow> (nat \<times> ow_state) option" where
  "ow_finish status st = do {
     st1 \<leftarrow> (if \<not> ow_printed st \<and> status < 2 then
               (case ow_stack st of
                  [] \<Rightarrow> None
                | a # _ \<Rightarrow> map_option snd (if c_family a = AF_INET then cidr_print4 a st else cidr_print6 a st))
             else Some st);
     Some (status, qprintf [CHR 0x0A] st1)
   }"

definition ow_main :: "target \<Rightarrow> string list \<Rightarrow> (nat \<times> ow_state) option" where
  "ow_main t argv =
     (if length argv < 3 then Some (usage ow_init)
      else
        (let s = argv ! 1 in
         case (if CHR '':'' \<in> set s then cidr_parse6 t s else cidr_parse4 t s) of
           None \<Rightarrow> Some (usage ow_init)
         | Some a \<Rightarrow>
             (case run_loop t (drop 2 argv) 0 (cidr_push a ow_init) of
                None \<Rightarrow> None
              | Some (Exit n st) \<Rightarrow> Some (n, st)
              | Some (Stop [] status st) \<Rightarrow> ow_finish status st
              | Some (Stop (arg # _) status st) \<Rightarrow> Some (6, eprintf (Unknown_operation arg) st)
              | Some (Continue _ status st) \<Rightarrow> None)))"

end
