(* ===== verification/Owipcalc_Facts.thy ===== *)
theory Owipcalc_Facts
  imports Owipcalc
begin

text \<open>
  What the operations of \<open>owipcalc\<close> compute: the meaning of each operation as arithmetic
  on addresses, the interpretations of the two contracts of \<open>Addr_Spec\<close> for IPv4 and
  IPv6, and the properties of the program.
\<close>

section \<open>Well-formed addresses\<close>

definition wf_cidr :: "cidr \<Rightarrow> bool" where
  "wf_cidr a \<longleftrightarrow> length (c_addr a) = 16 \<and> c_family a \<in> {AF_INET, AF_INET6}"

definition wf4 :: "cidr \<Rightarrow> bool" where
  "wf4 a \<longleftrightarrow> length (c_addr a) = 16 \<and> c_family a = AF_INET \<and> c_prefix a \<le> 32"

definition wf6 :: "cidr \<Rightarrow> bool" where
  "wf6 a \<longleftrightarrow> length (c_addr a) = 16 \<and> c_family a = AF_INET6 \<and> c_prefix a \<le> 128"

definition val4 :: "cidr \<Rightarrow> nat" where
  "val4 a = be_val (take 4 (c_addr a))"

definition val6 :: "cidr \<Rightarrow> nat" where
  "val6 a = be_val (c_addr a)"

text \<open>The address an operation pushed, if it reported success, and the answer it gave.\<close>

definition pushed :: "(bool \<times> ow_state) option \<Rightarrow> cidr option" where
  "pushed r = (case r of Some (ok, st) \<Rightarrow> if ok then Some (hd (ow_stack st)) else None | None \<Rightarrow> None)"

definition answered :: "(bool \<times> ow_state) option \<Rightarrow> bool option" where
  "answered r = map_option fst r"

lemma stack_simps [simp]:
  "ow_stack (eprintf m st) = ow_stack st"
  "ow_stack (qprintf s st) = ow_stack st"
  "ow_stack (qsep st) = ow_stack st"
  "ow_stack (cidr_clone a st) = a # ow_stack st"
  "ow_stack (cidr_push a st) = a # ow_stack st"
  "ow_stack (set_top n st) = n # tl (ow_stack st)"
  by (simp_all add: eprintf_def qprintf_def qsep_def cidr_clone_def cidr_push_def set_top_def)

lemma wf4_D: "wf4 a \<Longrightarrow> length (c_addr a) = 16" "wf4 a \<Longrightarrow> c_family a = AF_INET"
  "wf4 a \<Longrightarrow> unat (c_prefix a) \<le> 32"
  by (auto simp: wf4_def word_le_nat_alt)

lemma wf6_D: "wf6 a \<Longrightarrow> length (c_addr a) = 16" "wf6 a \<Longrightarrow> c_family a = AF_INET6"
  "wf6 a \<Longrightarrow> unat (c_prefix a) \<le> 128"
  by (auto simp: wf6_def word_le_nat_alt)

lemma val4_less: "wf4 a \<Longrightarrow> val4 a < 2 ^ 32"
  using be_val_less [of "take 4 (c_addr a)"] by (simp add: val4_def wf4_D)

lemma val6_less: "wf6 a \<Longrightarrow> val6 a < 2 ^ 128"
  using be_val_less [of "c_addr a"] by (simp add: val6_def wf6_D)

section \<open>IPv4\<close>

lemma htonl_v4_get: "wf4 a \<Longrightarrow> htonl (tgt_endian t) (v4_get t a) = word32 (take 4 (c_addr a))"
  by (simp add: v4_get_def wf4_D)

lemma unat_v4: "wf4 a \<Longrightarrow> unat (word32 (take 4 (c_addr a))) = val4 a"
  by (simp add: val4_def unat_word32 wf4_D)

lemma v4_set_htonl: "v4_set t (htonl (tgt_endian t) w) a = a\<lparr>c_addr := bytes32 w @ drop 4 (c_addr a)\<rparr>"
  by (simp add: v4_set_def)

lemma wf4_update:
  "wf4 a \<Longrightarrow> wf4 (a\<lparr>c_addr := bytes32 w @ drop 4 (c_addr a)\<rparr>)"
  "wf4 a \<Longrightarrow> wf4 (a\<lparr>c_addr := bytes32 w @ drop 4 (c_addr a), c_prefix := 32\<rparr>)"
  by (simp_all add: wf4_def)

lemma val4_update [simp]:
  "val4 (a\<lparr>c_addr := bytes32 w @ bs\<rparr>) = unat w"
  "val4 (a\<lparr>c_addr := bytes32 w @ bs, c_prefix := p\<rparr>) = unat w"
  by (simp_all add: val4_def be_val_bytes32)

lemma word_add_overflow: "x + y < x \<longleftrightarrow> 2 ^ LENGTH('a) \<le> unat x + unat (y :: 'a::len word)"
  using no_olen_add_nat [of x y] by (simp add: not_le [symmetric])

lemma word_sub_underflow: "x - y > x \<longleftrightarrow> unat x < unat (y :: 'a::len word)"
  by (simp add: word_less_nat_alt unat_sub_if_size word_size) (use unsigned_less [of y, where 'a = nat] in linarith)

lemma cidr_add4_pushed:
  assumes "wf4 a" and "wf4 b"
  shows "pushed (cidr_add4 t a b st) =
    (if val4 a + val4 b < 2 ^ 32
     then Some (a\<lparr>c_addr := bytes32 (word32 (take 4 (c_addr a)) + word32 (take 4 (c_addr b))) @ drop 4 (c_addr a)\<rparr>)
     else None)"
  using assms unat_v4 [OF assms(1)] unat_v4 [OF assms(2)]
  by (simp add: cidr_add4_def pushed_def htonl_v4_get v4_set_htonl wf4_D word_add_overflow)

lemma cidr_sub4_pushed:
  assumes "wf4 a" and "wf4 b"
  shows "pushed (cidr_sub4 t a b st) =
    (if val4 b \<le> val4 a
     then Some (a\<lparr>c_addr := bytes32 (word32 (take 4 (c_addr a)) - word32 (take 4 (c_addr b))) @ drop 4 (c_addr a)\<rparr>)
     else None)"
  using assms unat_v4 [OF assms(1)] unat_v4 [OF assms(2)]
  by (simp add: cidr_sub4_def pushed_def htonl_v4_get v4_set_htonl wf4_D word_sub_underflow)

interpretation ow4: addr_arith wf4 val4 "2 ^ 32"
  "\<lambda>a b. pushed (cidr_add4 t a b st)" "\<lambda>a b. pushed (cidr_sub4 t a b st)" for t st
proof (unfold_locales, goal_cases)
  case (1 a)
  then show ?case by (rule val4_less)
next
  case (2 a b)
  then show ?case
    by (simp add: cidr_add4_pushed wf4_update unat_v4 unat_word_ariths)
next
  case (3 a b)
  then show ?case by (simp add: cidr_add4_pushed)
next
  case (4 a b)
  then show ?case
    by (simp add: cidr_sub4_pushed wf4_update unat_v4 unat_sub word_le_nat_alt)
next
  case (5 a b)
  then show ?case by (simp add: cidr_sub4_pushed)
qed

text \<open>The host mask of a prefix of 1 to 32 bits.\<close>

lemma host_mask4:
  assumes "c_prefix a \<le> 32" and "1 \<le> c_prefix a"
  shows "shl1 (32 - c_prefix a) = Some (mask (32 - unat (c_prefix a)) + 1)"
proof -
  have "unat (32 - c_prefix a) = 32 - unat (c_prefix a)"
    using assms(1) by (simp add: unat_sub)
  moreover have "32 - c_prefix a < 32"
    using assms by (simp add: word_less_nat_alt word_le_nat_alt unat_sub)
  ultimately show ?thesis by (simp add: shl1_minus_1)
qed

lemma shl1_0: "shl1 32 = None"
  by (simp add: shl1_def)

lemma cidr_network4_pushed:
  assumes "wf4 a" and "1 \<le> c_prefix a"
  shows "pushed (cidr_network4 t a st) =
    Some (a\<lparr>c_addr := bytes32 (word32 (take 4 (c_addr a)) AND NOT (mask (32 - unat (c_prefix a))))
       @ drop 4 (c_addr a), c_prefix := 32\<rparr>)"
  using assms
  by (simp add: cidr_network4_def pushed_def host_mask4 wf4_def v4_set_def v4_get_def store32_and_htonl)

lemma v4_masked_eq:
  assumes "wf4 a" and "wf4 b"
  shows "v4_get t a AND htonl (tgt_endian t) (NOT (mask k)) = v4_get t b AND htonl (tgt_endian t) (NOT (mask k))
    \<longleftrightarrow> val4 a div 2 ^ k = val4 b div 2 ^ k" (is "?l = ?r \<longleftrightarrow> _")
proof -
  let ?s = "store32 (tgt_endian t)"
  have "?l = ?r \<longleftrightarrow> ?s ?l = ?s ?r" by (metis load32_store32)
  also have "\<dots> \<longleftrightarrow> word32 (take 4 (c_addr a)) AND NOT (mask k) = word32 (take 4 (c_addr b)) AND NOT (mask k)"
    using assms by (simp add: v4_get_def store32_and_htonl wf4_D bytes32_inj)
  also have "\<dots> \<longleftrightarrow> val4 a div 2 ^ k = val4 b div 2 ^ k"
    using assms by (simp add: word_unat_eq_iff unat_and_not_mask unat_v4)
  finally show ?thesis .
qed

lemma cidr_contains4_answered:
  assumes "wf4 a" and "wf4 b" and "1 \<le> c_prefix a"
  shows "answered (cidr_contains4 t a b st) =
    Some (c_prefix a \<le> c_prefix b \<and> val4 a div 2 ^ (32 - unat (c_prefix a)) = val4 b div 2 ^ (32 - unat (c_prefix a)))"
  using assms v4_masked_eq [OF assms(1,2)]
  by (simp add: cidr_contains4_def answered_def host_mask4 wf4_def answer_def)

interpretation ow4: addr_block wf4 val4 "\<lambda>a. unat (c_prefix a)" 32 1
  "\<lambda>a. pushed (cidr_network4 t a st)" "\<lambda>a b. answered (cidr_contains4 t a b st)" for t st
proof (unfold_locales, goal_cases)
  case (1 a)
  then show ?case by (rule wf4_D)
next
  case (2 a)
  then have "1 \<le> c_prefix a" by (simp add: word_le_nat_alt)
  with 2 show ?case by (simp add: cidr_network4_pushed wf4_update unat_and_not_mask unat_v4)
next
  case (3 a b)
  then have "1 \<le> c_prefix a" by (simp add: word_le_nat_alt)
  with 3 show ?case by (simp add: cidr_contains4_answered word_le_nat_alt)
qed

section \<open>The byte loops of IPv6\<close>

lemma take_update_last:
  assumes "i < length x"
  shows "take i (x[i := b]) = take i x"
  by simp

text \<open>
  What a loop leaves: the bytes behind the index are untouched, those up to it hold the sum,
  whose overflow is the last carry.
\<close>

lemma add6_loop_correct:
  assumes "add6_loop idx c x y = (x', c')" and "idx < length x" and "length y = length x" and "unat c \<le> 1"
  shows "length x' = length x \<and> drop (Suc idx) x' = drop (Suc idx) x \<and> unat c' \<le> 1
    \<and> be_val (take (Suc idx) x') + unat c' * 256 ^ Suc idx
      = be_val (take (Suc idx) x) + be_val (take (Suc idx) y) + unat c"
  using assms
proof (induction idx arbitrary: c x)
  case 0
  from 0 have x: "x' = x[0 := x ! 0 + (y ! 0 + c)]"
    and c: "c' = (if unat (x ! 0) + unat (y ! 0) + unat c \<ge> 256 then 1 else 0)"
    by (simp_all add: add6_loop.simps [of 0] Let_def)
  obtain a xs b ys where "x = a # xs" "y = b # ys"
    using "0.prems" by (cases x; cases y) auto
  with byte_add [OF "0.prems"(4), of a b] show ?case by (auto simp: x c)
next
  case (Suc i)
  define s where "s = x ! Suc i + (y ! Suc i + c)"
  define ov where "ov = (if unat (x ! Suc i) + unat (y ! Suc i) + unat c \<ge> 256 then 1 else 0 :: u8)"
  let ?x = "x[Suc i := s]"
  have step: "add6_loop i ov ?x y = (x', c')"
    using Suc.prems(1) by (simp add: add6_loop.simps [of "Suc i"] Let_def s_def ov_def)
  have ov1: "unat ov \<le> 1" by (simp add: ov_def)
  have IH: "length x' = length x" "drop (Suc i) x' = drop (Suc i) ?x" "unat c' \<le> 1"
    "be_val (take (Suc i) x') + unat c' * 256 ^ Suc i
      = be_val (take (Suc i) x) + be_val (take (Suc i) y) + unat ov"
    using Suc.IH [OF step _ _ ov1] Suc.prems(2,3) by simp_all
  have last: "x' ! Suc i = s"
    using IH(1,2) Suc.prems(2) by (metis Cons_nth_drop_Suc length_list_update list.inject nth_list_update_eq)
  have "drop (Suc (Suc i)) x' = drop (Suc (Suc i)) x"
    using IH(1,2) Suc.prems(2) by (metis Cons_nth_drop_Suc drop_update_cancel length_list_update lessI list.inject)
  moreover have "unat s + 256 * unat ov = unat (x ! Suc i) + unat (y ! Suc i) + unat c"
    using byte_add [OF Suc.prems(4), of "x ! Suc i" "y ! Suc i"] by (auto simp: s_def ov_def)
  ultimately show ?case
    using IH Suc.prems(2,3) last
    by (simp add: take_Suc_conv_app_nth [of "Suc i"] be_val_snoc algebra_simps)
qed

lemma sub6_loop_correct:
  assumes "sub6_loop idx c x y = (x', c')" and "idx < length x" and "length y = length x" and "unat c \<le> 1"
  shows "length x' = length x \<and> drop (Suc idx) x' = drop (Suc idx) x \<and> unat c' \<le> 1
    \<and> be_val (take (Suc idx) x') + be_val (take (Suc idx) y) + unat c
      = be_val (take (Suc idx) x) + unat c' * 256 ^ Suc idx"
  using assms
proof (induction idx arbitrary: c x)
  case 0
  from 0 have x: "x' = x[0 := x ! 0 - (y ! 0 + c)]"
    and c: "c' = (if int (unat (x ! 0)) - int (unat (y ! 0)) - int (unat c) < 0 then 1 else 0)"
    by (simp_all add: sub6_loop.simps [of 0] Let_def)
  obtain a xs b ys where "x = a # xs" "y = b # ys"
    using "0.prems" by (cases x; cases y) auto
  with byte_sub [OF "0.prems"(4), of a b] show ?case by (auto simp: x c)
next
  case (Suc i)
  define s where "s = x ! Suc i - (y ! Suc i + c)"
  define uf where "uf = (if int (unat (x ! Suc i)) - int (unat (y ! Suc i)) - int (unat c) < 0 then 1 else 0 :: u8)"
  let ?x = "x[Suc i := s]"
  have step: "sub6_loop i uf ?x y = (x', c')"
    using Suc.prems(1) by (simp add: sub6_loop.simps [of "Suc i"] Let_def s_def uf_def)
  have uf1: "unat uf \<le> 1" by (simp add: uf_def)
  have IH: "length x' = length x" "drop (Suc i) x' = drop (Suc i) ?x" "unat c' \<le> 1"
    "be_val (take (Suc i) x') + be_val (take (Suc i) y) + unat uf
      = be_val (take (Suc i) x) + unat c' * 256 ^ Suc i"
    using Suc.IH [OF step _ _ uf1] Suc.prems(2,3) by simp_all
  have last: "x' ! Suc i = s"
    using IH(1,2) Suc.prems(2) by (metis Cons_nth_drop_Suc length_list_update list.inject nth_list_update_eq)
  have "drop (Suc (Suc i)) x' = drop (Suc (Suc i)) x"
    using IH(1,2) Suc.prems(2) by (metis Cons_nth_drop_Suc drop_update_cancel length_list_update lessI list.inject)
  moreover have "unat s + unat (y ! Suc i) + unat c = unat (x ! Suc i) + 256 * unat uf"
    using byte_sub [OF Suc.prems(4), of "x ! Suc i" "y ! Suc i"] by (auto simp: s_def uf_def)
  ultimately show ?case
    using IH Suc.prems(2,3) last
    by (simp add: take_Suc_conv_app_nth [of "Suc i"] be_val_snoc algebra_simps)
qed

text \<open>Stepping is adding or subtracting the carry alone.\<close>

lemma next6_loop_eq_add6:
  "idx < length x \<Longrightarrow> next6_loop idx c x = add6_loop idx c x (replicate (length x) 0)"
proof (induction idx arbitrary: c x)
  case 0
  then show ?case by (simp add: next6_loop.simps [of 0] add6_loop.simps [of 0])
next
  case (Suc i)
  then show ?case
    by (simp add: next6_loop.simps [of "Suc i"] add6_loop.simps [of "Suc i"] Let_def)
qed

lemma prev6_loop_eq_sub6:
  "idx < length x \<Longrightarrow> prev6_loop idx c x = sub6_loop idx c x (replicate (length x) 0)"
proof (induction idx arbitrary: c x)
  case 0
  then show ?case by (simp add: prev6_loop.simps [of 0] sub6_loop.simps [of 0])
next
  case (Suc i)
  then show ?case
    by (simp add: prev6_loop.simps [of "Suc i"] sub6_loop.simps [of "Suc i"] Let_def)
qed

section \<open>IPv6\<close>

lemma add6_loop_16:
  assumes "add6_loop 15 c x y = (x', c')" and "length x = 16" and "length y = 16" and "unat c \<le> 1"
  shows "length x' = 16 \<and> unat c' \<le> 1 \<and> be_val x' < 2 ^ 128
    \<and> be_val x' + unat c' * 2 ^ 128 = be_val x + be_val y + unat c"
  using add6_loop_correct [of 15 c x y x' c'] assms be_val_less [of x'] by auto

lemma sub6_loop_16:
  assumes "sub6_loop 15 c x y = (x', c')" and "length x = 16" and "length y = 16" and "unat c \<le> 1"
  shows "length x' = 16 \<and> unat c' \<le> 1 \<and> be_val x' < 2 ^ 128
    \<and> be_val x' + be_val y + unat c = be_val x + unat c' * 2 ^ 128"
  using sub6_loop_correct [of 15 c x y x' c'] assms be_val_less [of x'] by auto

lemma carry_cases: "unat (c :: u8) \<le> 1 \<Longrightarrow> c = 0 \<or> c = 1"
  by (metis le_antisym less_one linorder_not_le unat_0_iff unsigned_1 word_unat_eq_iff)

lemma cidr_add6_pushed:
  assumes "wf6 a" and "wf6 b"
  shows "\<exists>x. length x = 16 \<and> be_val x = (val6 a + val6 b) mod 2 ^ 128
    \<and> pushed (cidr_add6 a b st) = (if val6 a + val6 b < 2 ^ 128 then Some (a\<lparr>c_addr := x\<rparr>) else None)"
proof -
  obtain x c where loop: "add6_loop 15 0 (c_addr a) (c_addr b) = (x, c)" by fastforce
  from add6_loop_16 [OF this] assms
  have x: "length x = 16" "unat c \<le> 1" "be_val x < 2 ^ 128"
    and eq: "be_val x + unat c * 2 ^ 128 = val6 a + val6 b"
    by (auto simp: val6_def wf6_D)
  have "be_val x = (val6 a + val6 b) mod 2 ^ 128" using x(3) unfolding eq [symmetric] by simp
  moreover have "c \<noteq> 0 \<longleftrightarrow> 2 ^ 128 \<le> val6 a + val6 b"
    using carry_cases [OF x(2)] x(3) eq by auto
  ultimately show ?thesis using x(1) assms loop
    by (auto simp: cidr_add6_def pushed_def wf6_D)
qed

lemma cidr_sub6_pushed:
  assumes "wf6 a" and "wf6 b"
  shows "\<exists>x. length x = 16 \<and> (val6 b \<le> val6 a \<longrightarrow> be_val x = val6 a - val6 b)
    \<and> pushed (cidr_sub6 a b st) = (if val6 b \<le> val6 a then Some (a\<lparr>c_addr := x\<rparr>) else None)"
proof -
  obtain x c where loop: "sub6_loop 15 0 (c_addr a) (c_addr b) = (x, c)" by fastforce
  from sub6_loop_16 [OF this] assms
  have x: "length x = 16" "unat c \<le> 1" "be_val x < 2 ^ 128"
    and eq: "be_val x + val6 b = val6 a + unat c * 2 ^ 128"
    by (auto simp: val6_def wf6_D)
  have "c \<noteq> 0 \<longleftrightarrow> val6 a < val6 b"
    using carry_cases [OF x(2)] x(3) eq by auto
  moreover from this have "val6 b \<le> val6 a \<longrightarrow> be_val x = val6 a - val6 b"
    using carry_cases [OF x(2)] eq by auto
  ultimately show ?thesis using x(1) assms loop
    by (auto simp: cidr_sub6_def pushed_def wf6_D not_less)
qed

lemma wf6_update: "wf6 a \<Longrightarrow> length x = 16 \<Longrightarrow> wf6 (a\<lparr>c_addr := x\<rparr>)"
  by (simp add: wf6_def)

lemma val6_update [simp]: "val6 (a\<lparr>c_addr := x\<rparr>) = be_val x"
  by (simp add: val6_def)

interpretation ow6: addr_arith wf6 val6 "2 ^ 128"
  "\<lambda>a b. pushed (cidr_add6 a b st)" "\<lambda>a b. pushed (cidr_sub6 a b st)" for st
proof (unfold_locales, goal_cases)
  case (1 a)
  then show ?case by (rule val6_less)
next
  case (2 a b)
  then show ?case using cidr_add6_pushed [of a b st] wf6_update [of a] by auto
next
  case (3 a b)
  then show ?case using cidr_add6_pushed [of a b st] by auto
next
  case (4 a b)
  then show ?case using cidr_sub6_pushed [of a b st] wf6_update [of a] by auto
next
  case (5 a b)
  then show ?case using cidr_sub6_pushed [of a b st] by auto
qed

text \<open>Clearing whole bytes from the end.\<close>

lemma clear_tail:
  "k \<le> 16 \<Longrightarrow> length x = 16 \<Longrightarrow>
    foldl (\<lambda>x i. x[15 - i := 0]) x [0..<k] = take (16 - k) x @ replicate k (0 :: u8)"
proof (induction k)
  case (Suc k)
  have "take (16 - k) x = take (15 - k) x @ [x ! (15 - k)]"
    using Suc.prems take_Suc_conv_app_nth [of "15 - k" x]
    by (simp add: Suc_diff_le [of k 15, simplified, symmetric])
  then show ?case using Suc by (simp add: list_update_append replicate_append_same)
qed simp

lemma low_mask_eq: "low_mask r = NOT (mask r)"
  by (simp add: low_mask_def mask_eq_exp_minus_1)

lemma host_bits6:
  assumes "c_prefix a \<le> 128"
  shows "unat (128 - c_prefix a) = 128 - unat (c_prefix a)"
  using assms by (simp add: unat_sub)

lemma cidr_network6_pushed:
  assumes "wf6 a" and "1 \<le> c_prefix a"
  shows "\<exists>x. length x = 16 \<and> pushed (cidr_network6 a st) = Some (a\<lparr>c_addr := x\<rparr>)
    \<and> be_val x = val6 a div 2 ^ (128 - unat (c_prefix a)) * 2 ^ (128 - unat (c_prefix a))"
proof -
  let ?h = "128 - unat (c_prefix a)"
  let ?k = "?h div 8" and ?r = "?h mod 8" and ?c = "c_addr a"
  have len: "length ?c = 16" and p: "1 \<le> unat (c_prefix a)" "unat (c_prefix a) \<le> 128"
    using assms by (auto simp: wf6_D word_le_nat_alt)
  then have k: "?k \<le> 15" "?k < length ?c" by auto
  define x where "x = take (15 - ?k) ?c @ [?c ! (15 - ?k) AND NOT (mask ?r)] @ replicate ?k 0"
  have tail: "foldl (\<lambda>x i. x[15 - i := 0]) ?c [0..<?k]
      = take (15 - ?k) ?c @ [?c ! (15 - ?k)] @ replicate ?k 0"
    using clear_tail [of ?k ?c] k len take_Suc_conv_app_nth [of "15 - ?k" ?c]
    by (simp add: Suc_diff_le [of ?k 15, simplified, symmetric])
  have "(let y = foldl (\<lambda>x i. x[15 - i := 0]) ?c [0..<?k]
         in if ?r \<noteq> 0 then y[15 - ?k := y ! (15 - ?k) AND low_mask ?r] else y) = x"
    using len k by (auto simp: tail x_def list_update_append nth_append low_mask_eq Let_def)
  moreover have "be_val x = val6 a div 2 ^ ?h * 2 ^ ?h"
    using be_val_clear_bits [OF k(2), of ?r] len
    by (simp add: x_def val6_def)
  moreover have "length x = 16" using len k by (simp add: x_def)
  ultimately show ?thesis using assms k
    by (auto simp: cidr_network6_def pushed_def Let_def host_bits6 wf6_def intro!: exI [of _ x])
qed

lemma cidr_contains6_answered:
  assumes "wf6 a" and "wf6 b" and "1 \<le> c_prefix a"
  shows "answered (cidr_contains6 a b st) = Some (c_prefix a \<le> c_prefix b
    \<and> val6 a div 2 ^ (128 - unat (c_prefix a)) = val6 b div 2 ^ (128 - unat (c_prefix a)))"
proof -
  let ?h = "128 - unat (c_prefix a)"
  let ?k = "?h div 8" and ?r = "?h mod 8"
  have p: "1 \<le> unat (c_prefix a)" "unat (c_prefix a) \<le> 128"
    using assms by (auto simp: wf6_D word_le_nat_alt)
  then have k: "?k \<le> 15" "?k mod 256 = ?k" "?k < length (c_addr a)" using assms by (auto simp: wf6_D)
  from be_val_div_eq_iff [OF this(3), of ?r "c_addr b"] assms k
  have "val6 a div 2 ^ ?h = val6 b div 2 ^ ?h \<longleftrightarrow>
      take (15 - ?k) (c_addr a) = take (15 - ?k) (c_addr b)
      \<and> c_addr a ! (15 - ?k) AND low_mask ?r = c_addr b ! (15 - ?k) AND low_mask ?r"
    by (simp add: val6_def wf6_D low_mask_eq unat_and_eq_iff)
  then show ?thesis using assms k
    by (auto simp: cidr_contains6_def answered_def answer_def Let_def host_bits6 wf6_def)
qed

interpretation ow6: addr_block wf6 val6 "\<lambda>a. unat (c_prefix a)" 128 1
  "\<lambda>a. pushed (cidr_network6 a st)" "\<lambda>a b. answered (cidr_contains6 a b st)" for st
proof (unfold_locales, goal_cases)
  case (1 a)
  then show ?case by (rule wf6_D)
next
  case (2 a)
  then have "1 \<le> c_prefix a" by (simp add: word_le_nat_alt)
  with 2 cidr_network6_pushed [of a st] wf6_update [of a] show ?case by auto
next
  case (3 a b)
  then have "1 \<le> c_prefix a" by (simp add: word_le_nat_alt)
  with 3 show ?case by (simp add: cidr_contains6_answered word_le_nat_alt)
qed

section \<open>Stepping\<close>

text \<open>\<open>next\<close> and \<open>prev\<close> step by the unit of the byte that holds the last prefix bit.\<close>

definition step6 :: "cidr \<Rightarrow> nat" where
  "step6 b = 2 ^ (128 - 8 * ((unat (c_prefix b) + 7) div 8))"

lemma step_idx_eq:
  assumes "1 \<le> c_prefix b" and "c_prefix b \<le> 128"
  shows "Suc (step_idx b) = (unat (c_prefix b) + 7) div 8" "step_idx b \<le> 15"
proof -
  have p: "1 \<le> unat (c_prefix b)" "unat (c_prefix b) \<le> 128" using assms by (auto simp: word_le_nat_alt)
  then have "unat (c_prefix b - 1) = unat (c_prefix b) - 1"
    using assms(1) by (simp add: unat_sub)
  then show "Suc (step_idx b) = (unat (c_prefix b) + 7) div 8" "step_idx b \<le> 15"
    using p by (auto simp: step_idx_def)
qed

lemma step6_eq:
  assumes "1 \<le> c_prefix b" and "c_prefix b \<le> 128"
  shows "256 ^ (15 - step_idx b) = step6 b"
  unfolding step6_def step_idx_eq(1) [OF assms, symmetric] two_pow_8
  using step_idx_eq(2) [OF assms] by (simp add: diff_mult_distrib2)

lemma be_val_prefix_update:
  assumes "length x = 16" "length x' = 16" "i \<le> 15" "drop (Suc i) x' = drop (Suc i) x"
  shows "be_val x' + be_val (take (Suc i) x) * 256 ^ (15 - i)
    = be_val x + be_val (take (Suc i) x') * 256 ^ (15 - i)"
  using be_val_split [of x "Suc i"] be_val_split [of x' "Suc i"] assms by (simp add: Suc_diff_le)

lemma cidr_next6_pushed:
  assumes "wf6 a" and "wf6 b" and "1 \<le> c_prefix b"
  shows "\<exists>x. length x = 16 \<and> (val6 a + step6 b < 2 ^ 128 \<longrightarrow> be_val x = val6 a + step6 b)
    \<and> pushed (cidr_next6 a b st) =
      (if val6 a + step6 b < 2 ^ 128 then Some (a\<lparr>c_addr := x, c_prefix := c_prefix b\<rparr>) else None)"
proof -
  let ?i = "step_idx b"
  have pb: "c_prefix b \<le> 128" and la: "length (c_addr a) = 16" using assms by (auto simp: wf6_def)
  note i = step_idx_eq [OF assms(3) pb] and u = step6_eq [OF assms(3) pb]
  obtain x c where loop: "next6_loop ?i 1 (c_addr a) = (x, c)" by fastforce
  have "add6_loop ?i 1 (c_addr a) (replicate 16 0) = (x, c)"
    using loop next6_loop_eq_add6 [of ?i "c_addr a" 1] la i(2) by simp
  from add6_loop_correct [OF this] la i(2)
  have x: "length x = 16" "drop (Suc ?i) x = drop (Suc ?i) (c_addr a)" "unat c \<le> 1"
    and eq: "be_val (take (Suc ?i) x) + unat c * 256 ^ Suc ?i = be_val (take (Suc ?i) (c_addr a)) + 1"
    by (auto simp: be_val_replicate_0)
  have P: "256 ^ Suc ?i * step6 b = 2 ^ 128"
    using i(2) unfolding u [symmetric] by (simp flip: power_add power_mult power_Suc)
  have "be_val (take (Suc ?i) x) * step6 b + unat c * (256 ^ Suc ?i * step6 b)
      = be_val (take (Suc ?i) (c_addr a)) * step6 b + step6 b"
    using arg_cong [OF eq, of "\<lambda>n. n * step6 b"] by (simp only: add_mult_distrib mult_1 mult.assoc)
  then have "be_val x + unat c * 2 ^ 128 = val6 a + step6 b"
    using be_val_prefix_update [OF la x(1) i(2) x(2)] unfolding P u val6_def by linarith
  moreover have "be_val x < 2 ^ 128" using be_val_less [of x] x(1) by simp
  moreover have "pushed (cidr_next6 a b st) =
      (if c \<noteq> 0 then None else Some (a\<lparr>c_addr := x, c_prefix := c_prefix b\<rparr>))"
    using assms(3) i(2) by (auto simp: cidr_next6_def pushed_def Let_def loop)
  ultimately show ?thesis using carry_cases [OF x(3)] x(1) by (intro exI [of _ x]) auto
qed

lemma cidr_prev6_pushed:
  assumes "wf6 a" and "wf6 b" and "1 \<le> c_prefix b"
  shows "\<exists>x. length x = 16 \<and> (step6 b \<le> val6 a \<longrightarrow> be_val x + step6 b = val6 a)
    \<and> pushed (cidr_prev6 a b st) =
      (if step6 b \<le> val6 a then Some (a\<lparr>c_addr := x, c_prefix := c_prefix b\<rparr>) else None)"
proof -
  let ?i = "step_idx b"
  have pb: "c_prefix b \<le> 128" and la: "length (c_addr a) = 16" using assms by (auto simp: wf6_def)
  note i = step_idx_eq [OF assms(3) pb] and u = step6_eq [OF assms(3) pb]
  obtain x c where loop: "prev6_loop ?i 1 (c_addr a) = (x, c)" by fastforce
  have "sub6_loop ?i 1 (c_addr a) (replicate 16 0) = (x, c)"
    using loop prev6_loop_eq_sub6 [of ?i "c_addr a" 1] la i(2) by simp
  from sub6_loop_correct [OF this] la i(2)
  have x: "length x = 16" "drop (Suc ?i) x = drop (Suc ?i) (c_addr a)" "unat c \<le> 1"
    and eq: "be_val (take (Suc ?i) x) + 1 = be_val (take (Suc ?i) (c_addr a)) + unat c * 256 ^ Suc ?i"
    by (auto simp: be_val_replicate_0)
  have P: "256 ^ Suc ?i * step6 b = 2 ^ 128"
    using i(2) unfolding u [symmetric] by (simp flip: power_add power_mult power_Suc)
  have "be_val (take (Suc ?i) x) * step6 b + step6 b
      = be_val (take (Suc ?i) (c_addr a)) * step6 b + unat c * (256 ^ Suc ?i * step6 b)"
    using arg_cong [OF eq, of "\<lambda>n. n * step6 b"] by (simp only: add_mult_distrib mult_1 mult.assoc)
  then have "be_val x + step6 b = val6 a + unat c * 2 ^ 128"
    using be_val_prefix_update [OF la x(1) i(2) x(2)] unfolding P u val6_def by linarith
  moreover have "be_val x < 2 ^ 128" using be_val_less [of x] x(1) by simp
  moreover have "pushed (cidr_prev6 a b st) =
      (if c \<noteq> 0 then None else Some (a\<lparr>c_addr := x, c_prefix := c_prefix b\<rparr>))"
    using assms(3) i(2) by (auto simp: cidr_prev6_def pushed_def Let_def loop)
  ultimately show ?thesis using carry_cases [OF x(3)] x(1) by (intro exI [of _ x]) auto
qed

section \<open>IPv4 steps on a big-endian machine\<close>

lemma cidr_next4_pushed:
  assumes "wf4 a" and "wf4 b" and "1 \<le> c_prefix b" and "tgt_endian t = Big"
  shows "pushed (cidr_next4 t a b st) = Some (a\<lparr>c_addr := bytes32 (word32 (take 4 (c_addr a))
    + push_bit (32 - unat (c_prefix b)) 1) @ drop 4 (c_addr a), c_prefix := c_prefix b\<rparr>)"
proof -
  have "shl1 (32 - c_prefix b) = Some (push_bit (32 - unat (c_prefix b)) 1)"
    using host_mask4 [of b] assms by (simp add: wf4_def mask_eq_exp_minus_1 push_bit_of_1)
  then show ?thesis using assms
    by (simp add: cidr_next4_def pushed_def v4_set_def v4_get_def)
qed

section \<open>Control flow\<close>

text \<open>How the loop over the commands can end.\<close>

lemma runop_end:
  assumes "runop t args status st = Some r" and "status \<le> 1"
  shows "(\<exists>args' s' st'. r = Continue args' s' st' \<and> s' \<le> 1)
    \<or> (\<exists>args' s' st'. r = Stop args' s' st' \<and> (s' \<le> 1 \<or> s' = 5 \<or> args' \<noteq> []))
    \<or> (\<exists>st'. r = Exit 4 st')"
  using assms
  by (cases args)
     (auto simp: runop_def run_binary_def run_unary_def Let_def bind_eq_Some_conv
       split: option.splits list.splits parsed.splits if_splits)

lemma run_loop_end:
  assumes "run_loop t args status st = Some r" and "status \<le> 1"
  shows "(\<exists>args' s' st'. r = Stop args' s' st' \<and> (s' \<le> 1 \<or> s' = 5 \<or> args' \<noteq> []))
    \<or> (\<exists>st'. r = Exit 4 st')"
  using assms
proof (induction t args status st rule: run_loop.induct)
  case (1 t args status st)
  from "1.prems" obtain r' where r': "runop t args status st = Some r'"
    by (auto simp: run_loop.simps [of t args] split: option.splits)
  from runop_end [OF r' "1.prems"(2)] "1.prems"(1) show ?case
    using "1.IH" [OF r'] by (auto simp: run_loop.simps [of t args] r' split: run.splits)
qed

section \<open>The stack\<close>

definition wf_stack :: "ow_state \<Rightarrow> bool" where
  "wf_stack st \<longleftrightarrow> (\<forall>a\<in>set (ow_stack st). wf_cidr a)"

lemma length_byte_loops [simp]:
  "length (fst (add6_loop i c x y)) = length x"
  "length (fst (sub6_loop i c x y)) = length x"
  "length (fst (next6_loop i c x)) = length x"
  "length (fst (prev6_loop i c x)) = length x"
  by (induction i arbitrary: c x)
     (simp_all add: add6_loop.simps [of _ c x y for c x] sub6_loop.simps [of _ c x y for c x]
       next6_loop.simps [of _ c x for c x] prev6_loop.simps [of _ c x for c x] Let_def)

lemma length_foldl_update [simp]: "length (foldl (\<lambda>x i. x[f i := b]) x is) = length x"
  by (induction "is" arbitrary: x) auto

lemma length_bytes_of_sum [simp]: "length (bytes_of_sum n) = 16"
proof -
  have "length (fst (foldl (\<lambda>(bs, n). \<lambda>i. (bs[15 - i := ucast n], drop_bit 8 n)) (x :: bytes, n :: u32) is)) = length x" for x "is"
    by (induction "is" arbitrary: x n) auto
  then show ?thesis by (simp add: bytes_of_sum_def)
qed

lemma wf_cidr_parse:
  "cidr_parse4 t s = Some a \<Longrightarrow> wf_cidr a"
  "cidr_parse6 t s = Some a \<Longrightarrow> wf_cidr a"
  by (auto simp: cidr_parse4_def cidr_parse6_def wf_cidr_def Let_def bind_eq_Some_conv
      length_inet_pton4 length_inet_pton6 split: if_splits)

lemma wf_cidr_parsed: "cidr_parse t s f = Parsed b \<Longrightarrow> wf_cidr b"
  by (auto simp: cidr_parse_def Let_def dest: wf_cidr_parse split: prod.splits if_splits option.splits)
     (simp_all add: wf_cidr_def)

lemma wf_stack_answer [simp]: "wf_stack (snd (answer b st)) = wf_stack st"
  by (simp add: wf_stack_def answer_def)

lemma wf_stack_clone: "wf_stack (cidr_clone a st) \<longleftrightarrow> wf_cidr a \<and> wf_stack st"
  by (auto simp: wf_stack_def)

lemma wf_stack_set_top: "wf_stack st \<Longrightarrow> wf_cidr n \<Longrightarrow> wf_stack (set_top n st)"
  by (cases "ow_stack st") (auto simp: wf_stack_def)

lemma wf_stack_messages [simp]:
  "wf_stack (eprintf m st) = wf_stack st" "wf_stack (qprintf s st) = wf_stack st"
  "wf_stack (qsep st) = wf_stack st" "wf_stack (st\<lparr>ow_quiet := q\<rparr>) = wf_stack st"
  by (simp_all add: wf_stack_def)

lemma wf_stack_pop: "wf_stack st \<Longrightarrow> wf_stack (snd (cidr_pop a st))"
  by (auto simp: wf_stack_def cidr_pop_def split: list.splits)

lemma wf_cidr_v4_set [simp]: "wf_cidr (v4_set t w a) = wf_cidr a"
  by (auto simp: wf_cidr_def v4_set_def)

lemma wf_cidr_update [simp]:
  "wf_cidr (a\<lparr>c_prefix := p\<rparr>) = wf_cidr a"
  "length x = 16 \<Longrightarrow> wf_cidr a \<Longrightarrow> wf_cidr (a\<lparr>c_addr := x\<rparr>)"
  by (simp_all add: wf_cidr_def)

lemma length_loop_result:
  "add6_loop i c x y = (x', c') \<Longrightarrow> length x' = length x"
  "sub6_loop i c x y = (x', c') \<Longrightarrow> length x' = length x"
  "next6_loop i c x = (x', c') \<Longrightarrow> length x' = length x"
  "prev6_loop i c x = (x', c') \<Longrightarrow> length x' = length x"
  by (metis fst_conv length_byte_loops)+

lemmas op_defs = cidr_add4_def cidr_sub4_def cidr_next4_def cidr_prev4_def cidr_network4_def
  cidr_broadcast4_def cidr_netmask4_def cidr_6to4_def cidr_contains4_def cidr_private4_def
  cidr_linklocal4_def cidr_print4_def cidr_add6_def cidr_sub6_def cidr_next6_def cidr_prev6_def
  cidr_network6_def cidr_contains6_def cidr_linklocal6_def cidr_ula6_def cidr_print6_def
  cidr_howmany_def cidr_prefix46_def cidr_quiet_def

text \<open>Every operation of the table keeps the stack well-formed.\<close>

lemma wf_cidr_length: "wf_cidr a \<Longrightarrow> length (c_addr a) = 16"
  by (simp add: wf_cidr_def)

lemma wf_stack_popD: "cidr_pop a st = (ok, st') \<Longrightarrow> wf_stack st \<Longrightarrow> wf_stack st'"
  using wf_stack_pop [of st a] by simp

lemma wf_cidr_6to4: "wf_cidr \<lparr>c_family = AF_INET6, c_prefix = 48, c_addr = b1 # b2 # b3 # b4 # b5 # b6 # replicate 10 0\<rparr>"
  by (simp add: wf_cidr_def)

lemma ops_unary_wf:
  assumes "o1 \<in> set (ops t)" and "op_f4a1 o1 = Some f \<or> op_f6a1 o1 = Some f"
    and "f a st = Some (ok, st')" and "wf_cidr a" and "wf_stack st"
  shows "wf_stack st'"
  using assms
  by (auto simp: ops_def op1_def op2_def op_defs Let_def bind_eq_Some_conv wf_stack_set_top
      wf_stack_clone wf_stack_pop wf_cidr_length wf_cidr_6to4 answer_def dest: wf_stack_popD split: if_splits)

lemma ops_binary_wf:
  assumes "o1 \<in> set (ops t)" and "op_f4a2 o1 = Some f \<or> op_f6a2 o1 = Some f"
    and "f a b st = Some (ok, st')" and "wf_cidr a" and "wf_stack st"
  shows "wf_stack st'"
  using assms
  by (auto simp: ops_def op1_def op2_def op_defs Let_def bind_eq_Some_conv wf_stack_set_top
      wf_stack_clone wf_cidr_length answer_def length_loop_result split: if_splits prod.splits)

text \<open>The state in which a run of \<open>runop\<close> ends.\<close>

fun run_state :: "run \<Rightarrow> ow_state" where
  "run_state (Continue args s st) = st"
| "run_state (Stop args s st) = st"
| "run_state (Exit n st) = st"

lemma runop_wf:
  assumes "runop t args status st = Some r" and "wf_stack st"
  shows "wf_stack (run_state r)"
proof (cases args)
  case Nil
  with assms show ?thesis by (auto simp: runop_def)
next
  case (Cons arg1 rest)
  show ?thesis
  proof (cases "find (\<lambda>o1. op_name o1 = arg1) (ops t)")
    case None
    with assms Cons show ?thesis by (auto simp: runop_def)
  next
    case (Some o1)
    then have o1: "o1 \<in> set (ops t)" by (auto simp: find_Some_iff)
    have top: "wf_cidr a" if "ow_stack st = a # as" for a as
      using assms(2) that by (simp add: wf_stack_def)
    show ?thesis using assms Some Cons top
      by (auto simp: runop_def run_binary_def run_unary_def bind_eq_Some_conv
          split: if_splits list.splits parsed.splits option.splits
          dest: ops_unary_wf [OF o1 disjI1] ops_unary_wf [OF o1 disjI2]
            ops_binary_wf [OF o1 disjI1] ops_binary_wf [OF o1 disjI2])
  qed
qed

lemma run_loop_wf:
  assumes "run_loop t args status st = Some r" and "wf_stack st"
  shows "wf_stack (run_state r)"
  using assms
proof (induction t args status st rule: run_loop.induct)
  case (1 t args status st)
  from "1.prems" obtain r' where r': "runop t args status st = Some r'"
    by (auto simp: run_loop.simps [of t args] split: option.splits)
  from runop_wf [OF r' "1.prems"(2)] "1.prems"(1) show ?case
    using "1.IH" [OF r'] by (auto simp: run_loop.simps [of t args] r' split: run.splits)
qed
section \<open>What \<open>print\<close> writes, the parser reads\<close>

definition text4 :: "cidr \<Rightarrow> string" where
  "text4 a = inet_ntop4 (take 4 (c_addr a))
     @ (if c_prefix a < 32 then ''/'' @ show_nat (unat (c_prefix a)) else [])"

lemma cidr_print4_text:
  "c_family a = AF_INET \<Longrightarrow> \<not> ow_quiet st \<Longrightarrow>
    \<exists>st'. cidr_print4 a st = Some (True, st') \<and> ow_out st' = ow_out (qsep st) @ text4 a"
  by (auto simp: cidr_print4_def text4_def qprintf_def qsep_def cidr_pop_def Let_def split: list.splits)

lemma prefix_of_show_nat:
  assumes "unat p \<le> mx" and "unat p \<le> tgt_ulong_max t"
  shows "prefix_of t mx (show_nat (unat p)) = Some p"
  using strtoul_show_nat [of "unat p" "tgt_ulong_max t" "[]"] assms
  by (simp add: prefix_of_def)

lemma cidr_parse4_text4:
  assumes "wf4 a" and "drop 4 (c_addr a) = replicate 12 0" and "32 \<le> tgt_ulong_max t"
  shows "cidr_parse4 t (text4 a) = Some a"
proof -
  let ?h = "inet_ntop4 (take 4 (c_addr a))" and ?n = "show_nat (unat (c_prefix a))"
  have host: "takeWhile (\<lambda>c. c \<noteq> CHR ''/'') (?h @ CHR ''/'' # r) = ?h" for r
  proof (rule takeWhile_append_all)
    show "\<forall>c\<in>set ?h. c \<noteq> CHR ''/''" using slash_not_in_ntop4 by metis
  qed simp
  have host': "takeWhile (\<lambda>c. c \<noteq> CHR ''/'') ?h = ?h"
    using slash_not_in_ntop4 [of "take 4 (c_addr a)"] by (auto simp: takeWhile_eq_all_conv)
  have addr: "inet_pton4 ?h = Some (take 4 (c_addr a))"
    using inet_pton4_ntop4 [of "take 4 (c_addr a)"] assms(1) by (simp add: wf4_D)
  have ne: "?h \<noteq> []" by (simp add: inet_ntop4_def)
  have join: "take 4 (c_addr a) @ replicate 12 0 = c_addr a"
    using assms(2) append_take_drop_id [of 4 "c_addr a"] by simp
  show ?thesis
  proof (cases "c_prefix a < 32")
    case True
    then have "length ?n \<le> 2"
      using length_show_base [of 10 "unat (c_prefix a)" 1] by (simp add: show_nat_def word_less_nat_alt)
    moreover have "prefix_of t 32 ?n = Some (c_prefix a)"
      using wf4_D(3) [OF assms(1)] assms(3) by (intro prefix_of_show_nat) linarith+
    moreover have "CHR ''.'' \<notin> set ?n" by (simp add: not_in_show_nat isdigit_def)
    ultimately show ?thesis using True host addr ne join assms(1) length_ntop4 [of "take 4 (c_addr a)"]
      by (simp add: cidr_parse4_def text4_def Let_def wf4_D)
  next
    case False
    then have "c_prefix a = 32" using assms(1) by (simp add: wf4_def)
    then show ?thesis using False join assms(1) slash_not_in_ntop4 length_ntop4 [of "take 4 (c_addr a)"]
      by (simp add: cidr_parse4_def text4_def Let_def wf4_D host' addr)
  qed
qed

section \<open>Properties\<close>

text \<open>C16: IPv6 addition is addition of 128-bit numbers: \<open>add\<close> on two IPv6 addresses pushes
  an address with their sum, and reports failure exactly when the sum does not fit.\<close>

theorem owip_add6_is_addition:
  assumes "wf6 a" and "wf6 b"
  shows "(val6 a + val6 b < 2 ^ 128 \<longrightarrow>
      (\<exists>c. pushed (cidr_add6 a b st) = Some c \<and> wf6 c \<and> val6 c = val6 a + val6 b))
    \<and> (2 ^ 128 \<le> val6 a + val6 b \<longrightarrow> pushed (cidr_add6 a b st) = None)"
  using ow6.add_Some [OF assms] ow6.add_None [OF assms] by blast

theorem owip_add6_is_addition_witness:
  "\<exists>c. pushed (cidr_add6 \<lparr>c_family = AF_INET6, c_prefix = 128, c_addr = replicate 15 255 @ [1]\<rparr>
      \<lparr>c_family = AF_INET6, c_prefix = 128, c_addr = replicate 15 0 @ [254]\<rparr> ow_init) = Some c
    \<and> val6 c = 2 ^ 128 - 1"
proof -
  let ?a = "\<lparr>c_family = AF_INET6, c_prefix = 128, c_addr = replicate 15 255 @ [1]\<rparr> :: cidr"
  let ?b = "\<lparr>c_family = AF_INET6, c_prefix = 128, c_addr = replicate 15 0 @ [254]\<rparr> :: cidr"
  have "wf6 ?a" "wf6 ?b" by (simp_all add: wf6_def)
  moreover have "val6 ?a + val6 ?b = 2 ^ 128 - 1"
    by (simp add: val6_def be_simps)
  ultimately show ?thesis using owip_add6_is_addition [of ?a ?b ow_init] by auto
qed

text \<open>Subtraction undoes addition: what \<open>add\<close> pushed, less the argument, is the
  original address.\<close>

theorem owip_sub6_undoes_add6:
  assumes "wf6 a" and "wf6 b" and "pushed (cidr_add6 a b st) = Some c"
  shows "\<exists>d. pushed (cidr_sub6 c b st) = Some d \<and> wf6 d \<and> val6 d = val6 a"
  using ow6.sub_after_add assms by blast

definition ex_prefix6 :: "u32 \<Rightarrow> cidr" where
  "ex_prefix6 n = \<lparr>c_family = AF_INET6, c_prefix = n,
     c_addr = [0x20, 0x01, 0x0D, 0xB8] @ replicate 11 0 @ [1]\<rparr>"

definition ex_prefix4 :: "u32 \<Rightarrow> cidr" where
  "ex_prefix4 n = \<lparr>c_family = AF_INET, c_prefix = n, c_addr = [192, 168, 255, 1] @ replicate 12 0\<rparr>"

lemma wf_ex [simp]: "n \<le> 128 \<Longrightarrow> wf6 (ex_prefix6 n)" "n \<le> 32 \<Longrightarrow> wf4 (ex_prefix4 n)"
  by (simp_all add: wf6_def wf4_def ex_prefix6_def ex_prefix4_def)

lemma val_ex [simp]: "val6 (ex_prefix6 n) = 0x20010DB8000000000000000000000001"
  "val4 (ex_prefix4 n) = 0xC0A8FF01" "c_prefix (ex_prefix6 n) = n" "c_prefix (ex_prefix4 n) = n"
  by (simp_all add: val6_def val4_def ex_prefix6_def ex_prefix4_def be_simps)

theorem owip_sub6_undoes_add6_witness:
  "\<exists>c d. pushed (cidr_add6 (ex_prefix6 64) (ex_prefix6 64) ow_init) = Some c
    \<and> pushed (cidr_sub6 c (ex_prefix6 64) ow_init) = Some d \<and> val6 d = val6 (ex_prefix6 64)"
proof -
  let ?a = "ex_prefix6 64"
  obtain c where c: "pushed (cidr_add6 ?a ?a ow_init) = Some c"
    using ow6.add_Some [of ?a ?a ow_init] by auto
  from owip_sub6_undoes_add6 [OF _ _ c] c show ?thesis by auto
qed

text \<open>\<open>contains\<close> answers yes exactly if every address of the argument's block is in the
  block of the base address, for IPv6 prefixes of at least one bit.\<close>

theorem owip_contains6_is_inclusion:
  assumes "wf6 a" and "wf6 b" and "1 \<le> unat (c_prefix a)"
  shows "answered (cidr_contains6 a b st) = Some
    (block_of 128 (unat (c_prefix b)) (val6 b) \<subseteq> block_of 128 (unat (c_prefix a)) (val6 a))"
  using assms by (rule ow6.contains_iff_subset)

theorem owip_contains6_is_inclusion_witness:
  "answered (cidr_contains6 (ex_prefix6 33) (ex_prefix6 48) ow_init) = Some
    (block_of 128 48 (val6 (ex_prefix6 48)) \<subseteq> block_of 128 33 (val6 (ex_prefix6 33)))
    \<and> answered (cidr_contains6 (ex_prefix6 33) (ex_prefix6 48) ow_init) = Some True"
  using owip_contains6_is_inclusion [of "ex_prefix6 33" "ex_prefix6 48" ow_init]
  by (simp add: cidr_contains6_answered)

text \<open>The same for IPv4, on machines of either byte order.\<close>

theorem owip_contains4_is_inclusion:
  assumes "wf4 a" and "wf4 b" and "1 \<le> unat (c_prefix a)"
  shows "answered (cidr_contains4 t a b st) = Some
    (block_of 32 (unat (c_prefix b)) (val4 b) \<subseteq> block_of 32 (unat (c_prefix a)) (val4 a))"
  using assms by (rule ow4.contains_iff_subset)

definition le_target :: target where
  "le_target = \<lparr>tgt_endian = Little, tgt_ulong_max = 18446744073709551615\<rparr>"

definition be_target :: target where
  "be_target = \<lparr>tgt_endian = Big, tgt_ulong_max = 4294967295\<rparr>"

theorem owip_contains4_is_inclusion_witness:
  "answered (cidr_contains4 le_target (ex_prefix4 17) (ex_prefix4 24) ow_init) = Some
    (block_of 32 24 (val4 (ex_prefix4 24)) \<subseteq> block_of 32 17 (val4 (ex_prefix4 17)))
    \<and> answered (cidr_contains4 le_target (ex_prefix4 17) (ex_prefix4 24) ow_init) = Some True"
  using owip_contains4_is_inclusion [of "ex_prefix4 17" "ex_prefix4 24" le_target ow_init]
  by (simp add: cidr_contains4_answered)

text \<open>\<open>network\<close> on an IPv6 address pushes the least address of its block, with the
  prefix kept.\<close>

theorem owip_network6_least:
  assumes "wf6 a" and "1 \<le> c_prefix a"
  shows "\<exists>n. pushed (cidr_network6 a st) = Some n \<and> c_prefix n = c_prefix a
    \<and> val6 n \<in> block_of 128 (unat (c_prefix a)) (val6 a)
    \<and> (\<forall>x\<in>block_of 128 (unat (c_prefix a)) (val6 a). val6 n \<le> x)"
proof -
  have "1 \<le> unat (c_prefix a)" using assms(2) by (simp add: word_le_nat_alt)
  from ow6.network_least [OF assms(1) this, of st] cidr_network6_pushed [OF assms, of st]
  show ?thesis by auto
qed

theorem owip_network6_least_witness:
  "\<exists>n. pushed (cidr_network6 (ex_prefix6 35) ow_init) = Some n
    \<and> (\<forall>x\<in>block_of 128 35 (val6 (ex_prefix6 35)). val6 n \<le> x)"
  using owip_network6_least [of "ex_prefix6 35" ow_init] by auto

text \<open>\<open>next\<close> on an IPv6 address adds the unit of the byte its new prefix ends in (the
  prefix's own block size only where the prefix is a multiple of 8), fails exactly when that
  leaves the address space, and \<open>prev\<close> undoes it.\<close>

theorem owip_next6_unit:
  assumes "wf6 a" and "wf6 b" and "1 \<le> c_prefix b"
  shows "if val6 a + step6 b < 2 ^ 128
    then \<exists>n d. pushed (cidr_next6 a b st) = Some n \<and> c_prefix n = c_prefix b
      \<and> val6 n = val6 a + step6 b
      \<and> pushed (cidr_prev6 n b st) = Some d \<and> val6 d = val6 a
    else pushed (cidr_next6 a b st) = None"
proof (cases "val6 a + step6 b < 2 ^ 128")
  case True
  with cidr_next6_pushed [OF assms, of st] obtain x where x: "length x = 16"
    "be_val x = val6 a + step6 b"
    "pushed (cidr_next6 a b st) = Some (a\<lparr>c_addr := x, c_prefix := c_prefix b\<rparr>)" by auto
  let ?n = "a\<lparr>c_addr := x, c_prefix := c_prefix b\<rparr>"
  have "wf6 ?n" "val6 ?n = val6 a + step6 b" using assms x by (simp_all add: wf6_def val6_def)
  moreover from this cidr_prev6_pushed [OF _ assms(2,3), of ?n st] obtain y where
    "be_val y = val6 a" "pushed (cidr_prev6 ?n b st) = Some (?n\<lparr>c_addr := y, c_prefix := c_prefix b\<rparr>)"
    by auto
  ultimately show ?thesis using True x by (auto simp: val6_def)
next
  case False
  with cidr_next6_pushed [OF assms, of st] show ?thesis by auto
qed

theorem owip_next6_unit_witness:
  "\<exists>n. pushed (cidr_next6 (ex_prefix6 32) (ex_prefix6 36) ow_init) = Some n
    \<and> val6 n = val6 (ex_prefix6 32) + 2 ^ 88"
  using owip_next6_unit [of "ex_prefix6 32" "ex_prefix6 36" ow_init] by (auto simp: step6_def)

text \<open>On a big-endian machine \<open>next\<close> on an IPv4 address adds the size of the new
  prefix's blocks, modulo the address space.\<close>

theorem owip_next4_big_endian:
  assumes "wf4 a" and "wf4 b" and "1 \<le> c_prefix b" and "tgt_endian t = Big"
  shows "\<exists>n. pushed (cidr_next4 t a b st) = Some n \<and> c_prefix n = c_prefix b
    \<and> val4 n = (val4 a + 2 ^ (32 - unat (c_prefix b))) mod 2 ^ 32"
proof -
  have "32 - unat (c_prefix b) < 32" using assms(3) by (simp add: word_le_nat_alt)
  then have "unat (push_bit (32 - unat (c_prefix b)) 1 :: u32) = 2 ^ (32 - unat (c_prefix b))"
    using power_strict_increasing [of "32 - unat (c_prefix b)" 32 "2 :: nat"]
    by (simp only: unsigned_push_bit_eq unsigned_1) (simp add: take_bit_eq_mod)
  then show ?thesis using cidr_next4_pushed [OF assms, of st] assms(1)
    by (simp add: unat_word_ariths unat_v4 push_bit_of_1)
qed

theorem owip_next4_big_endian_witness:
  "\<exists>n. pushed (cidr_next4 be_target (ex_prefix4 24) (ex_prefix4 24) ow_init) = Some n
    \<and> val4 n = 0xC0A90001"
  using owip_next4_big_endian [of "ex_prefix4 24" "ex_prefix4 24" be_target ow_init]
  by (auto simp: be_target_def)

text \<open>On a little-endian machine the carry goes the wrong way: the block after
  192.168.255.0/24 comes out as 192.168.0.2/24, not 192.169.0.1/24.\<close>

theorem owip_next4_little_endian:
  "map_option (\<lambda>(code, st). (code, ow_out st))
     (ow_main le_target [''owipcalc'', ''192.168.255.1/24'', ''next'', ''24''])
   = Some (0, ''192.168.0.2/24'' @ [CHR 0x0A])"
  by code_simp

text \<open>The exit code of the program is 0 or 1 (the result of the last operation), 4, 5 or 6;
  the codes 2 and 3 its interpreter sets for a missing and for an invalid argument are never
  seen, since the argument is left over and reported as an unknown operation.\<close>

theorem owip_exit_codes:
  assumes "ow_main t argv = Some (code, st)"
  shows "code \<in> {0, 1, 4, 5, 6}"
proof -
  have fin: "ow_finish s st0 = Some (code, st) \<Longrightarrow> code = s" for s st0
    by (auto simp: ow_finish_def bind_eq_Some_conv split: if_splits list.splits)
  from assms consider "code = 1"
    | a where "run_loop t (drop 2 argv) 0 (cidr_push a ow_init) = Some (Exit code st)"
    | a s st0 where "run_loop t (drop 2 argv) 0 (cidr_push a ow_init) = Some (Stop [] s st0)" "code = s"
    | "code = 6"
    by (auto simp: ow_main_def usage_def Let_def dest: fin
        split: if_splits option.splits run.splits list.splits)
  then show ?thesis
    by cases (auto dest!: run_loop_end)
qed

theorem owip_exit_codes_witness:
  "\<exists>st. ow_main be_target [''owipcalc'', ''10.0.0.0'', ''add''] = Some (6, st) \<and> (6::nat) \<in> {0, 1, 4, 5, 6}"
proof -
  have "map_option fst (ow_main be_target [''owipcalc'', ''10.0.0.0'', ''add'']) = Some 6" by code_simp
  then obtain st where "ow_main be_target [''owipcalc'', ''10.0.0.0'', ''add''] = Some (6, st)" by auto
  with owip_exit_codes [OF this] show ?thesis by blast
qed



text \<open>\<open>print\<close> and the parser of IPv4 addresses are inverse: what \<open>print\<close>
  appends to the output parses back to the address printed.\<close>

theorem owip_print_parse4:
  assumes "wf4 a" and "drop 4 (c_addr a) = replicate 12 0" and "32 \<le> tgt_ulong_max t"
    and "\<not> ow_quiet st"
  shows "\<exists>st' s. cidr_print4 a st = Some (True, st') \<and> ow_out st' = ow_out (qsep st) @ s
    \<and> cidr_parse4 t s = Some a"
  using cidr_print4_text [of a st] cidr_parse4_text4 [OF assms(1-3)] assms by (auto simp: wf4_D)

theorem owip_print_parse4_witness:
  "\<exists>st' s. cidr_print4 (ex_prefix4 24) ow_init = Some (True, st') \<and> ow_out st' = s
    \<and> cidr_parse4 be_target s = Some (ex_prefix4 24)"
  using owip_print_parse4 [of "ex_prefix4 24" be_target ow_init]
  by (simp add: ex_prefix4_def be_target_def ow_init_def qsep_def wf4_def)

text \<open>Popping the last address and ending there is a null pointer: the program has no
  meaning for any address it accepts.\<close>

theorem owip_pop_last:
  assumes "(if CHR '':'' \<in> set s then cidr_parse6 t s else cidr_parse4 t s) = Some a"
  shows "ow_main t [prog, s, ''pop''] = None"
proof -
  have "find (\<lambda>o1. op_name o1 = ''pop'') (ops t)
      = Some (op1 ''pop'' (Some (\<lambda>a st. Some (cidr_pop a st))) (Some (\<lambda>a st. Some (cidr_pop a st))))"
    by (simp add: ops_def op1_def op2_def)
  then have "runop t [''pop''] 0 (cidr_push a ow_init) = Some (Continue [] 0 ow_init)"
    by (simp add: runop_def run_unary_def op1_def cidr_pop_def cidr_push_def ow_init_def)
  moreover have "runop t [] 0 ow_init = Some (Stop [] 0 ow_init)" by (simp add: runop_def)
  ultimately have "run_loop t [''pop''] 0 (cidr_push a ow_init) = Some (Stop [] 0 ow_init)"
    by (simp add: run_loop.simps)
  then show ?thesis using assms by (simp add: ow_main_def ow_finish_def ow_init_def)
qed

theorem owip_pop_last_witness:
  "ow_main be_target [''owipcalc'', ''::1'', ''pop''] = None"
proof -
  have "cidr_parse6 be_target ''::1'' \<noteq> None" by code_simp
  then obtain a where "cidr_parse6 be_target ''::1'' = Some a" by blast
  then show ?thesis by (intro owip_pop_last [where a = a]) simp
qed

text \<open>The example of the program's own usage text: it promises 192.168.1.100 and
  192.168.1.250 on two lines; the program prints 192.168.1.100 and 192.168.1.150 on one, since
  \<open>print\<close> drops the sum from the stack.\<close>

theorem owip_usage_example:
  "map_option (\<lambda>(code, st). (code, ow_out st))
     (ow_main be_target [''owipcalc'', ''192.168.1.1/255.255.255.0'', ''network'', ''add'', ''100'',
        ''print'', ''add'', ''150'', ''print''])
   = Some (0, ''192.168.1.100 192.168.1.150'' @ [CHR 0x0A])"
  by code_simp

end
