(* ===== verification/Lua_Interface.thy ===== *)
theory Lua_Interface
  imports Clib
begin

text \<open>
  The data that passes between a C extension and the Lua interpreter: the values on the stack
  of the call, the userdata objects the extension owns, and the two ways a call can end.  The
  interpreter itself is not modelled; a call of an extension function starts with its arguments
  on the stack and ends with its results on top, as the Lua 5.1 manual describes.
\<close>

section \<open>Values and states\<close>

text \<open>
  \<open>LObj h\<close> is a userdata object of the extension's own metatable, by its number among the
  objects; \<open>LOther\<close> stands for the values the extensions treat alike (tables, functions,
  foreign userdata).  A number is given by its integer value.
\<close>

datatype lval = LNil | LBool bool | LNum int | LStr string | LObj nat | LOther

text \<open>
  \<open>l_junk\<close> is what the memory of the next userdata object holds before the extension
  writes it.
\<close>

record 'o lua =
  l_stack :: "lval list"
  l_objs :: "'o list"
  l_junk :: "nat \<Rightarrow> 'o"

text \<open>Errors: those of the \<open>luaL_check\<close> functions, by argument, and those the code raises.\<close>

datatype lua_error = Arg_error nat | Lua_error string

type_synonym ('o, 'a) lm = "'o lua \<Rightarrow> (lua_error + 'a \<times> 'o lua) option"

definition lret :: "'a \<Rightarrow> ('o, 'a) lm" where
  "lret a st = Some (Inr (a, st))"

definition lthrow :: "lua_error \<Rightarrow> ('o, 'a) lm" where
  "lthrow e st = Some (Inl e)"

definition lundef :: "('o, 'a) lm" where
  "lundef st = None"

definition lbind :: "('o, 'a) lm \<Rightarrow> ('a \<Rightarrow> ('o, 'b) lm) \<Rightarrow> ('o, 'b) lm" where
  "lbind m f st = (case m st of
     None \<Rightarrow> None
   | Some (Inl e) \<Rightarrow> Some (Inl e)
   | Some (Inr (a, st')) \<Rightarrow> f a st')"

section \<open>The operations on the stack the extensions use\<close>

definition larg :: "nat \<Rightarrow> 'o lua \<Rightarrow> lval option" where
  "larg i st = (if 0 < i \<and> i \<le> length (l_stack st) then Some (l_stack st ! (i - 1)) else None)"

definition lpush :: "lval \<Rightarrow> ('o, unit) lm" where
  "lpush v st = Some (Inr ((), st\<lparr>l_stack := l_stack st @ [v]\<rparr>))"

text \<open>A C string is read up to its first NUL.\<close>

definition cstr :: "string \<Rightarrow> string" where
  "cstr s = takeWhile (\<lambda>c. c \<noteq> CHR 0x00) s"

definition lnew :: "('o \<Rightarrow> 'o) \<Rightarrow> ('o, nat) lm" where
  "lnew f st = (let h = length (l_objs st) in
     Some (Inr (h, st\<lparr>l_objs := l_objs st @ [f (l_junk st h)], l_stack := l_stack st @ [LObj h]\<rparr>)))"

definition lget :: "nat \<Rightarrow> ('o, 'o) lm" where
  "lget h st = (if h < length (l_objs st) then Some (Inr (l_objs st ! h, st)) else None)"

definition lset :: "nat \<Rightarrow> 'o \<Rightarrow> ('o, unit) lm" where
  "lset h c st = (if h < length (l_objs st) then Some (Inr ((), st\<lparr>l_objs := (l_objs st)[h := c]\<rparr>)) else None)"

section \<open>Calls\<close>

text \<open>
  A C function returns how many values on top of the stack are its results.  \<open>lcall\<close> runs
  one with arguments \<open>args\<close> when the extension's objects are \<open>objs\<close>.
\<close>

definition lstart :: "(nat \<Rightarrow> 'o) \<Rightarrow> 'o list \<Rightarrow> lval list \<Rightarrow> 'o lua" where
  "lstart j objs args = \<lparr>l_stack = args, l_objs = objs, l_junk = j\<rparr>"

definition results :: "nat \<Rightarrow> 'o lua \<Rightarrow> lval list" where
  "results n st = drop (length (l_stack st) - n) (l_stack st)"

definition lcall ::
  "('o, nat) lm \<Rightarrow> (nat \<Rightarrow> 'o) \<Rightarrow> 'o list \<Rightarrow> lval list \<Rightarrow> (lua_error + lval list \<times> 'o list) option" where
  "lcall f j objs args = (case f (lstart j objs args) of
     None \<Rightarrow> None
   | Some (Inl e) \<Rightarrow> Some (Inl e)
   | Some (Inr (n, st)) \<Rightarrow> Some (Inr (results n st, l_objs st)))"

section \<open>Rules\<close>

named_theorems lua_ops "running the operations on a state"

lemma lret_bind [simp]: "lbind (lret a) f = f a"
  by (rule ext) (simp add: lbind_def lret_def)

lemma lthrow_bind [simp]: "lbind (lthrow e) f = lthrow e"
  by (rule ext) (simp add: lbind_def lthrow_def)

lemma lbind_ret [simp]: "lbind m lret = m"
  by (rule ext) (auto simp: lbind_def lret_def split: option.splits sum.splits)

lemma lbind_assoc: "lbind (lbind m f) g = lbind m (\<lambda>a. lbind (f a) g)"
  by (rule ext) (auto simp: lbind_def split: option.splits sum.splits)

lemma lbind_run [lua_ops]:
  "m st = Some (Inr (a, st')) \<Longrightarrow> lbind m f st = f a st'"
  "m st = Some (Inl e) \<Longrightarrow> lbind m f st = Some (Inl e)"
  "m st = None \<Longrightarrow> lbind m f st = None"
  by (simp_all add: lbind_def)

lemma larg_start [lua_ops]:
  "larg (Suc 0) (lstart j objs (v # args)) = Some v"
  "larg 2 (lstart j objs (u # v # args)) = Some v"
  "larg 2 (lstart j objs [u]) = None"
  "larg 3 (lstart j objs (t # u # v # args)) = Some v"
  "larg 3 (lstart j objs [t, u]) = None"
  by (simp_all add: larg_def lstart_def)

end
