(* ===== verification/Luci_Ip.thy ===== *)
theory Luci_Ip
  imports Addr_Spec Lua_Interface
begin

text \<open>
  The address objects of LuCI's \<open>luci.ip\<close> library
  (\<open>src/luci/libs/luci-lib-ip/src/ip.c\<close>): the parsers of addresses, masks and MAC
  addresses, the conversion to text, and every method of a \<open>luci.ip.cidr\<close> object.

  A \<open>cidr_t\<close> is its 16 bytes, its family and its prefix length.  The length is an
  \<open>int16_t\<close>: \<open>to_s16\<close> is the conversion to it.  An object lives in the Lua state and
  is passed by reference, so that \<open>prefix\<close> and the in-place \<open>add\<close> and \<open>sub\<close> change it.
  Allocation does not fail: the interpreter raises its own error when memory is short.
\<close>

section \<open>Address objects\<close>

record cidr_t =
  ip_u8 :: bytes
  ip_family :: af
  ip_bits :: int

fun AF_BITS :: "af \<Rightarrow> nat" where
  "AF_BITS AF_INET = 32"
| "AF_BITS AF_INET6 = 128"
| "AF_BITS AF_PACKET = 48"
| "AF_BITS AF_UNSPEC = 0"

fun AF_BYTES :: "af \<Rightarrow> nat" where
  "AF_BYTES AF_INET = 4"
| "AF_BYTES AF_INET6 = 16"
| "AF_BYTES AF_PACKET = 6"
| "AF_BYTES AF_UNSPEC = 0"

definition zero_cidr :: cidr_t where
  "zero_cidr = \<lparr>ip_u8 = replicate 16 0, ip_family = AF_UNSPEC, ip_bits = 0\<rparr>"

text \<open>The union read and written as a 32-bit word, and its first \<open>n\<close> bytes written.\<close>

definition ip_v4 :: "target \<Rightarrow> cidr_t \<Rightarrow> u32" where
  "ip_v4 t p = load32 (tgt_endian t) (take 4 (ip_u8 p))"

definition put_bytes :: "bytes \<Rightarrow> cidr_t \<Rightarrow> cidr_t" where
  "put_bytes bs p = p\<lparr>ip_u8 := bs @ drop (length bs) (ip_u8 p)\<rparr>"

definition set_v4 :: "target \<Rightarrow> u32 \<Rightarrow> cidr_t \<Rightarrow> cidr_t" where
  "set_v4 t w p = put_bytes (store32 (tgt_endian t) w) p"

section \<open>Parsing\<close>

definition chr0 :: "string \<Rightarrow> char" where
  "chr0 s = (case s of [] \<Rightarrow> CHR 0x00 | c # _ \<Rightarrow> c)"

definition mac_octet :: "target \<Rightarrow> string \<Rightarrow> (u8 \<times> string) option" where
  "mac_octet t s = (case strtoul (tgt_ulong_max t) 16 s of
     (n, e, _) \<Rightarrow> if n > 0xFF then None else Some (word_of_nat n, e))"

text \<open>The octets after the first, each behind the separator the first of them chose.\<close>

fun parse_mac_rest :: "target \<Rightarrow> nat \<Rightarrow> char \<Rightarrow> string \<Rightarrow> bytes option" where
  "parse_mac_rest t 0 sep s = (if chr0 s \<noteq> CHR 0x00 then None else Some [])"
| "parse_mac_rest t (Suc k) sep s =
     (let sep = (if sep = CHR 0x00 \<and> (chr0 s = CHR '':'' \<or> chr0 s = CHR ''-'') then chr0 s else sep)
      in if sep = CHR 0x00 \<or> chr0 s \<noteq> sep then None
         else (case mac_octet t (tl s) of
             None \<Rightarrow> None
           | Some (b, e) \<Rightarrow> map_option ((#) b) (parse_mac_rest t k sep e)))"

definition parse_mac :: "target \<Rightarrow> string \<Rightarrow> bytes option" where
  "parse_mac t s = (case mac_octet t s of
     None \<Rightarrow> None
   | Some (b, e) \<Rightarrow> map_option ((#) b) (parse_mac_rest t 5 (CHR 0x00) e))"

text \<open>The loops that count the leading one bits of a mask of \<open>w\<close> bits.\<close>

function count_ones :: "nat \<Rightarrow> (nat \<Rightarrow> bool) \<Rightarrow> nat \<Rightarrow> nat" where
  "count_ones w p i = (if i < w \<and> p i then count_ones w p (Suc i) else i)"
  by auto
termination by (relation "measure (\<lambda>(w, p, i). w - i)") auto

declare count_ones.simps [simp del]

definition word_bit :: "u32 \<Rightarrow> nat \<Rightarrow> bool" where
  "word_bit w i \<longleftrightarrow> push_bit i w AND 0x80000000 \<noteq> 0"

definition byte_bit :: "bytes \<Rightarrow> nat \<Rightarrow> bool" where
  "byte_bit bs i \<longleftrightarrow> push_bit (i mod 8) (ucast (bs ! (i div 8)) :: u32) AND 128 \<noteq> 0"

definition parse_mask :: "target \<Rightarrow> af \<Rightarrow> string \<Rightarrow> int option" where
  "parse_mask t family msk =
     (let v4 = inet_pton4 msk; v6 = inet_pton6 msk; mac = parse_mac t msk in
      if family = AF_INET \<and> v4 \<noteq> None
      then Some (int (count_ones 32 (word_bit (htonl (tgt_endian t) (load32 (tgt_endian t) (the v4)))) 0))
      else if family = AF_INET6 \<and> v6 \<noteq> None
      then Some (int (count_ones (AF_BITS family) (byte_bit (the v6)) 0))
      else if family = AF_PACKET \<and> mac \<noteq> None
      then Some (int (count_ones (AF_BITS family) (byte_bit (the mac)) 0))
      else (case strtoul (tgt_ulong_max t) 10 msk of (n, e, _) \<Rightarrow>
        let bits = to_s16 (int n)
        in if e = msk \<or> e \<noteq> [] \<or> bits > int (AF_BITS family) then None else Some bits))"

text \<open>
  The text is copied to a buffer of 94 bytes of which \<open>strncpy\<close> fills 93: a longer text
  leaves the buffer without its NUL, and the reads that follow go on into memory that was never
  written.
\<close>

definition parse_cidr :: "target \<Rightarrow> string \<Rightarrow> cidr_t \<Rightarrow> cidr_t option option" where
  "parse_cidr t dest pp =
     (if length dest \<ge> 93 then None
      else Some (
        let buf = takeWhile (\<lambda>c. c \<noteq> CHR ''/'') dest;
            p = drop (length buf) dest;
            found = (case inet_pton4 buf of
                Some bs \<Rightarrow> Some (put_bytes bs pp\<lparr>ip_family := AF_INET\<rparr>)
              | None \<Rightarrow> (case inet_pton6 buf of
                  Some bs \<Rightarrow> Some (put_bytes bs pp\<lparr>ip_family := AF_INET6\<rparr>)
                | None \<Rightarrow> (case parse_mac t buf of
                    Some bs \<Rightarrow> Some (put_bytes bs pp\<lparr>ip_family := AF_PACKET\<rparr>)
                  | None \<Rightarrow> None)))
        in (case found of
            None \<Rightarrow> None
          | Some a \<Rightarrow>
              if p \<noteq> []
              then map_option (\<lambda>n. a\<lparr>ip_bits := n\<rparr>) (parse_mask t (ip_family a) (tl p))
              else Some (a\<lparr>ip_bits := int (AF_BITS (ip_family a))\<rparr>))))"

section \<open>Text\<close>

definition hex2 :: "u8 \<Rightarrow> string" where
  "hex2 b = [upper_digit_char (unat b div 16), upper_digit_char (unat b mod 16)]"

definition show_mac :: "bytes \<Rightarrow> string" where
  "show_mac bs = join_colon (map hex2 (take 6 bs))"

definition show_prefix :: "cidr_t \<Rightarrow> string" where
  "show_prefix p = (if ip_bits p < int (AF_BITS (ip_family p)) then ''/'' @ show_int (ip_bits p) else [])"

text \<open>The family 0 has no text: \<open>inet_ntop\<close> gives NULL there.\<close>

definition cidr_text :: "cidr_t \<Rightarrow> lval" where
  "cidr_text p = (case ip_family p of
     AF_PACKET \<Rightarrow> LStr (show_mac (ip_u8 p) @ show_prefix p)
   | AF_INET \<Rightarrow> LStr (inet_ntop4 (take 4 (ip_u8 p)) @ show_prefix p)
   | AF_INET6 \<Rightarrow> LStr (inet_ntop6 (ip_u8 p) @ show_prefix p)
   | AF_UNSPEC \<Rightarrow> if ip_bits p < 0 then LStr (''(null)'' @ show_prefix p) else LNil)"

definition format_cidr :: "cidr_t \<Rightarrow> (cidr_t, nat) lm" where
  "format_cidr p = lbind (lpush (cidr_text p)) (\<lambda>_. lret 1)"

section \<open>Arguments\<close>

definition L_checkbits :: "target \<Rightarrow> nat \<Rightarrow> cidr_t \<Rightarrow> (cidr_t, int) lm" where
  "L_checkbits t index p st =
     (case larg index st of
        None \<Rightarrow> lret (ip_bits p) st
      | Some LNil \<Rightarrow> lret (ip_bits p) st
      | Some (LNum n) \<Rightarrow>
          (let bits = to_s32 n
           in if bits < 0 \<or> bits > int (AF_BITS (ip_family p))
              then lthrow (Lua_error ''Invalid prefix size'') st else lret bits st)
      | Some (LStr s) \<Rightarrow>
          (case parse_mask t (ip_family p) (cstr s) of
             None \<Rightarrow> lthrow (Lua_error ''Invalid netmask format'') st
           | Some bits \<Rightarrow> lret bits st)
      | Some _ \<Rightarrow> lthrow (Lua_error ''Invalid data type'') st)"

text \<open>
  A number becomes an address of the family asked for, and a MAC address when none is.  The
  bytes are taken from the word in network order, whatever the machine's order is.
\<close>

definition cidr_from_number :: "target \<Rightarrow> int \<Rightarrow> af \<Rightarrow> cidr_t" where
  "cidr_from_number t v family =
     (let n = htonl (tgt_endian t) (word_of_int v);
          low4 = [ucast n, ucast (drop_bit 8 n), ucast (drop_bit 16 n), ucast (drop_bit 24 n)] :: bytes;
          p = (if family = AF_INET6
               then \<lparr>ip_u8 = replicate 12 0 @ low4, ip_family = AF_INET6, ip_bits = 0\<rparr>
               else if family = AF_INET
               then set_v4 t n (zero_cidr\<lparr>ip_family := AF_INET\<rparr>)
               else \<lparr>ip_u8 = [0, 0] @ low4 @ replicate 10 0, ip_family = AF_PACKET, ip_bits = 0\<rparr>)
      in p\<lparr>ip_bits := int (AF_BITS (ip_family p))\<rparr>)"

text \<open>\<open>_cidr_new\<close>: the new object's number, or nothing where the code returns 0.\<close>

definition uc_cidr_new :: "target \<Rightarrow> nat \<Rightarrow> af \<Rightarrow> bool \<Rightarrow> (cidr_t, nat option) lm" where
  "uc_cidr_new t index family msk st =
     (case larg index st of
        Some (LNum v) \<Rightarrow> lbind (lnew (\<lambda>_. cidr_from_number t v family)) (\<lambda>h. lret (Some h)) st
      | Some (LStr s) \<Rightarrow>
          (case parse_cidr t (cstr s) zero_cidr of
             None \<Rightarrow> lundef st
           | Some None \<Rightarrow> lret None st
           | Some (Some c) \<Rightarrow>
               if family \<noteq> AF_UNSPEC \<and> ip_family c \<noteq> family then lret None st
               else lbind (if msk then lbind (L_checkbits t (index + 1) c) (\<lambda>b. lret (c\<lparr>ip_bits := to_s16 b\<rparr>))
                           else lret c)
                 (\<lambda>c. lbind (lnew (\<lambda>_. c)) (\<lambda>h. lret (Some h))) st)
      | _ \<Rightarrow> lthrow (Arg_error index) st)"

definition L_checkcidr :: "target \<Rightarrow> nat \<Rightarrow> cidr_t option \<Rightarrow> (cidr_t, nat) lm" where
  "L_checkcidr t index p st =
     (case larg index st of
        Some (LObj h) \<Rightarrow> lret h st
      | _ \<Rightarrow> lbind (uc_cidr_new t index (case p of None \<Rightarrow> AF_UNSPEC | Some c \<Rightarrow> ip_family c) False)
          (\<lambda>r. case r of Some h \<Rightarrow> lret h | None \<Rightarrow> lthrow (Lua_error ''Invalid operand'')) st)"

definition new_method :: "target \<Rightarrow> af \<Rightarrow> (cidr_t, nat) lm" where
  "new_method t family = lbind (uc_cidr_new t 1 family True)
     (\<lambda>r. lret (case r of Some _ \<Rightarrow> 1 | None \<Rightarrow> 0))"

definition cidr_new :: "target \<Rightarrow> (cidr_t, nat) lm" where
  "cidr_new t = new_method t AF_UNSPEC"

definition cidr_ipv4 :: "target \<Rightarrow> (cidr_t, nat) lm" where
  "cidr_ipv4 t = new_method t AF_INET"

definition cidr_ipv6 :: "target \<Rightarrow> (cidr_t, nat) lm" where
  "cidr_ipv6 t = new_method t AF_INET6"

definition cidr_mac :: "target \<Rightarrow> (cidr_t, nat) lm" where
  "cidr_mac t = new_method t AF_PACKET"

definition cidr_check :: "target \<Rightarrow> af \<Rightarrow> (cidr_t, nat) lm" where
  "cidr_check t family st =
     (case larg 1 st of
        Some (LStr s) \<Rightarrow>
          (case parse_cidr t (cstr s) zero_cidr of
             None \<Rightarrow> lundef st
           | Some (Some c) \<Rightarrow> if ip_family c = family then format_cidr c st else lret 0 st
           | Some None \<Rightarrow> lret 0 st)
      | Some (LObj h) \<Rightarrow>
          lbind (lget h) (\<lambda>c. if ip_family c = family then format_cidr c else lret 0) st
      | _ \<Rightarrow> lret 0 st)"

section \<open>Predicates\<close>

text \<open>The methods take their object from the first argument and push what they answer.\<close>

definition with_cidr :: "target \<Rightarrow> (nat \<Rightarrow> cidr_t \<Rightarrow> (cidr_t, 'a) lm) \<Rightarrow> (cidr_t, 'a) lm" where
  "with_cidr t f = lbind (L_checkcidr t 1 None) (\<lambda>h. lbind (lget h) (f h))"

definition push_bool :: "bool \<Rightarrow> (cidr_t, nat) lm" where
  "push_bool b = lbind (lpush (LBool b)) (\<lambda>_. lret 1)"

definition cidr_is4 :: "target \<Rightarrow> (cidr_t, nat) lm" where
  "cidr_is4 t = with_cidr t (\<lambda>_ p. push_bool (ip_family p = AF_INET))"

definition cidr_is4rfc1918 :: "target \<Rightarrow> (cidr_t, nat) lm" where
  "cidr_is4rfc1918 t = with_cidr t (\<lambda>_ p.
     let a = htonl (tgt_endian t) (ip_v4 t p)
     in push_bool (ip_family p = AF_INET \<and>
       ((a \<ge> 0x0A000000 \<and> a \<le> 0x0AFFFFFF) \<or>
        (a \<ge> 0xAC100000 \<and> a \<le> 0xAC1FFFFF) \<or>
        (a \<ge> 0xC0A80000 \<and> a \<le> 0xC0A8FFFF))))"

definition cidr_is4linklocal :: "target \<Rightarrow> (cidr_t, nat) lm" where
  "cidr_is4linklocal t = with_cidr t (\<lambda>_ p.
     let a = htonl (tgt_endian t) (ip_v4 t p)
     in push_bool (ip_family p = AF_INET \<and> a \<ge> 0xA9FE0000 \<and> a \<le> 0xA9FEFFFF))"

definition uc_is_mapped4 :: "cidr_t \<Rightarrow> bool" where
  "uc_is_mapped4 p \<longleftrightarrow> ip_family p = AF_INET6 \<and>
     take 10 (ip_u8 p) = replicate 10 0 \<and> ip_u8 p ! 10 = 0xFF \<and> ip_u8 p ! 11 = 0xFF"

definition cidr_is6mapped4 :: "target \<Rightarrow> (cidr_t, nat) lm" where
  "cidr_is6mapped4 t = with_cidr t (\<lambda>_ p. push_bool (uc_is_mapped4 p))"

definition cidr_is6 :: "target \<Rightarrow> (cidr_t, nat) lm" where
  "cidr_is6 t = with_cidr t (\<lambda>_ p. push_bool (ip_family p = AF_INET6))"

definition cidr_is6linklocal :: "target \<Rightarrow> (cidr_t, nat) lm" where
  "cidr_is6linklocal t = with_cidr t (\<lambda>_ p.
     push_bool (ip_family p = AF_INET6 \<and> ip_u8 p ! 0 = 0xFE \<and> ip_u8 p ! 1 \<ge> 0x80 \<and> ip_u8 p ! 1 \<le> 0xBF))"

definition cidr_ismac :: "target \<Rightarrow> (cidr_t, nat) lm" where
  "cidr_ismac t = with_cidr t (\<lambda>_ p. push_bool (ip_family p = AF_PACKET))"

definition cidr_ismacmcast :: "target \<Rightarrow> (cidr_t, nat) lm" where
  "cidr_ismacmcast t = with_cidr t (\<lambda>_ p.
     push_bool (ip_family p = AF_PACKET \<and> ip_u8 p ! 0 AND 1 \<noteq> 0))"

definition cidr_ismaclocal :: "target \<Rightarrow> (cidr_t, nat) lm" where
  "cidr_ismaclocal t = with_cidr t (\<lambda>_ p.
     push_bool (ip_family p = AF_PACKET \<and> ip_u8 p ! 0 AND 2 \<noteq> 0))"

section \<open>Comparisons\<close>

text \<open>\<open>memcmp\<close>, by the sign of its result.\<close>

fun memcmp :: "bytes \<Rightarrow> bytes \<Rightarrow> int" where
  "memcmp (x # xs) (y # ys) = (if x < y then -1 else if y < x then 1 else memcmp xs ys)"
| "memcmp _ _ = 0"

text \<open>The second operand is looked up when the first, if it was text, is on the stack already.\<close>

definition with_cidr2 :: "target \<Rightarrow> (cidr_t \<Rightarrow> cidr_t \<Rightarrow> (cidr_t, 'a) lm) \<Rightarrow> (cidr_t, 'a) lm" where
  "with_cidr2 t f = lbind (L_checkcidr t 1 None) (\<lambda>h1. lbind (L_checkcidr t 2 None) (\<lambda>h2.
     lbind (lget h1) (\<lambda>a. lbind (lget h2) (\<lambda>b. f a b))))"

definition cidr_cmp :: "cidr_t \<Rightarrow> cidr_t \<Rightarrow> int" where
  "cidr_cmp a b =
     (if ip_family a \<noteq> ip_family b then int (af_num (ip_family a)) - int (af_num (ip_family b))
      else memcmp (take (AF_BYTES (ip_family a)) (ip_u8 a)) (take (AF_BYTES (ip_family a)) (ip_u8 b)))"

definition cidr_lower :: "target \<Rightarrow> (cidr_t, nat) lm" where
  "cidr_lower t = with_cidr2 t (\<lambda>a b. push_bool (cidr_cmp a b < 0))"

definition cidr_higher :: "target \<Rightarrow> (cidr_t, nat) lm" where
  "cidr_higher t = with_cidr2 t (\<lambda>a b. push_bool (cidr_cmp a b > 0))"

definition cidr_equal :: "target \<Rightarrow> (cidr_t, nat) lm" where
  "cidr_equal t = with_cidr2 t (\<lambda>a b. push_bool (cidr_cmp a b = 0))"

definition cidr_lower_equal :: "target \<Rightarrow> (cidr_t, nat) lm" where
  "cidr_lower_equal t = with_cidr2 t (\<lambda>a b. push_bool (cidr_cmp a b \<le> 0))"

section \<open>Prefixes\<close>

definition cidr_prefix :: "target \<Rightarrow> (cidr_t, nat) lm" where
  "cidr_prefix t = with_cidr t (\<lambda>h p. lbind (L_checkbits t 2 p) (\<lambda>bits.
     lbind (lset h (p\<lparr>ip_bits := to_s16 bits\<rparr>)) (\<lambda>_.
     lbind (lpush (LNum (to_s16 bits))) (\<lambda>_. lret 1))))"

text \<open>The masks of one byte each; \<open>bits\<close> is what is left of the prefix.\<close>

fun mask_bytes :: "bool \<Rightarrow> nat \<Rightarrow> bytes \<Rightarrow> bytes" where
  "mask_bytes iv bits [] = []"
| "mask_bytes iv bits (x # xs) =
     (let b = (if bits > 8 then 8 else bits); m = push_bit (8 - b) 0xFF
      in (if iv then x OR NOT m else x AND m) # mask_bytes iv (bits - b) xs)"

definition uc_apply_mask :: "target \<Rightarrow> cidr_t \<Rightarrow> int \<Rightarrow> bool \<Rightarrow> cidr_t option" where
  "uc_apply_mask t p bits iv =
     (if bits \<le> 0
      then Some (put_bytes (replicate (AF_BYTES (ip_family p)) (if iv then 0xFF else 0)) p)
      else if ip_family p = AF_INET \<and> bits \<le> int (AF_BITS AF_INET)
      then do {
        v \<leftarrow> shl1 (32 - word_of_int bits);
        Some (if iv then set_v4 t (ip_v4 t p OR htonl (tgt_endian t) (v - 1)) p
              else set_v4 t (ip_v4 t p AND htonl (tgt_endian t) (NOT (v - 1))) p)
      }
      else if bits \<le> int (AF_BITS (ip_family p))
      then Some (put_bytes (mask_bytes iv (nat bits) (take (AF_BYTES (ip_family p)) (ip_u8 p))) p)
      else Some p)"

definition lift_undef :: "'a option \<Rightarrow> (cidr_t, 'a) lm" where
  "lift_undef r = (case r of None \<Rightarrow> lundef | Some a \<Rightarrow> lret a)"

definition push_cidr :: "cidr_t \<Rightarrow> (cidr_t, nat) lm" where
  "push_cidr c = lbind (lnew (\<lambda>_. c)) (\<lambda>_. lret 1)"

definition cidr_network :: "target \<Rightarrow> (cidr_t, nat) lm" where
  "cidr_network t = with_cidr t (\<lambda>_ p. lbind (L_checkbits t 2 p) (\<lambda>bits.
     lbind (lift_undef (uc_apply_mask t (p\<lparr>ip_bits := int (AF_BITS (ip_family p))\<rparr>) bits False)) push_cidr))"

definition cidr_host :: "target \<Rightarrow> (cidr_t, nat) lm" where
  "cidr_host t = with_cidr t (\<lambda>_ p. push_cidr (p\<lparr>ip_bits := int (AF_BITS (ip_family p))\<rparr>))"

definition cidr_mask :: "target \<Rightarrow> (cidr_t, nat) lm" where
  "cidr_mask t = with_cidr t (\<lambda>_ p. lbind (L_checkbits t 2 p) (\<lambda>bits.
     lbind (lift_undef (uc_apply_mask t
       \<lparr>ip_u8 = replicate 16 0xFF, ip_family = ip_family p, ip_bits = int (AF_BITS (ip_family p))\<rparr>
       bits False)) push_cidr))"

definition cidr_broadcast :: "target \<Rightarrow> (cidr_t, nat) lm" where
  "cidr_broadcast t = with_cidr t (\<lambda>_ p. lbind (L_checkbits t 2 p) (\<lambda>bits.
     if ip_family p \<noteq> AF_INET then lret 0
     else lbind (lift_undef (uc_apply_mask t (p\<lparr>ip_bits := int (AF_BITS AF_INET)\<rparr>) bits True)) push_cidr))"

text \<open>The two conversions below write some bytes of the new object only.\<close>

definition cidr_mapped4 :: "target \<Rightarrow> (cidr_t, nat) lm" where
  "cidr_mapped4 t = with_cidr t (\<lambda>_ p.
     if \<not> uc_is_mapped4 p then lret 0
     else lbind (lnew (\<lambda>j. (put_bytes (take 4 (drop 12 (ip_u8 p))) j)
         \<lparr>ip_family := AF_INET, ip_bits := (if ip_bits p > 32 then 32 else ip_bits p)\<rparr>))
       (\<lambda>_. lret 1))"

definition cidr_tolinklocal :: "target \<Rightarrow> (cidr_t, nat) lm" where
  "cidr_tolinklocal t = with_cidr t (\<lambda>_ p.
     if ip_family p \<noteq> AF_PACKET then lret 0
     else lbind (lnew (\<lambda>j. let u = ip_u8 p; b = ip_u8 j in
         \<lparr>ip_u8 = [0xFE, 0x80, b ! 2, b ! 3, b ! 4, b ! 5, b ! 6, b ! 7,
            u ! 0 XOR 2, u ! 1, u ! 2, 0xFF, 0xFE, u ! 3, u ! 4, u ! 5],
          ip_family = AF_INET6, ip_bits = 128\<rparr>))
       (\<lambda>_. lret 1))"

definition is_eui64_linklocal :: "cidr_t \<Rightarrow> bool" where
  "is_eui64_linklocal p \<longleftrightarrow> ip_family p = AF_INET6 \<and>
     take 8 (ip_u8 p) = [0xFE, 0x80, 0, 0, 0, 0, 0, 0] \<and> ip_u8 p ! 11 = 0xFF \<and> ip_u8 p ! 12 = 0xFE"

definition cidr_tomac :: "target \<Rightarrow> (cidr_t, nat) lm" where
  "cidr_tomac t = with_cidr t (\<lambda>_ p.
     if \<not> is_eui64_linklocal p then lret 0
     else lbind (lnew (\<lambda>j. let u = ip_u8 p in
         (put_bytes [u ! 8 XOR 2, u ! 9, u ! 10, u ! 13, u ! 14, u ! 15] j)
           \<lparr>ip_family := AF_PACKET, ip_bits := 48\<rparr>))
       (\<lambda>_. lret 1))"

definition contains_at :: "target \<Rightarrow> cidr_t \<Rightarrow> cidr_t \<Rightarrow> bool option" where
  "contains_at t a b =
     (if ip_family a = ip_family b \<and> ip_bits a \<le> ip_bits b
      then do {
        x \<leftarrow> uc_apply_mask t a (ip_bits a) False;
        y \<leftarrow> uc_apply_mask t b (ip_bits a) False;
        Some (memcmp (take (AF_BYTES (ip_family a)) (ip_u8 x)) (take (AF_BYTES (ip_family a)) (ip_u8 y)) = 0)
      }
      else Some False)"

definition cidr_contains :: "target \<Rightarrow> (cidr_t, nat) lm" where
  "cidr_contains t = with_cidr2 t (\<lambda>a b. lbind (lift_undef (contains_at t a b)) push_bool)"

section \<open>Arithmetic\<close>

text \<open>
  The loop over the bytes from the last to the first: \<open>k\<close> of them are left, \<open>p\<close> and
  \<open>q\<close> are the operands and \<open>r\<close> the result, which starts as a copy of the first operand.
\<close>

fun add_sub_loop :: "bool \<Rightarrow> nat \<Rightarrow> u8 \<Rightarrow> bytes \<Rightarrow> bytes \<Rightarrow> bytes \<Rightarrow> bytes \<times> u8" where
  "add_sub_loop add 0 carry p q r = (r, carry)"
| "add_sub_loop add (Suc k) carry p q r =
     (let a = unat (p ! k); b = unat (q ! k); c = unat carry
      in if add
         then add_sub_loop add k (word_of_nat ((a + b + c) div 256)) p q (r[k := p ! k + q ! k + carry])
         else add_sub_loop add k (if a < b + c then 1 else 0) p q (r[k := p ! k - q ! k - carry]))"

text \<open>The result object and whether the operation was possible.\<close>

definition add_sub_at :: "target \<Rightarrow> bool \<Rightarrow> cidr_t \<Rightarrow> cidr_t \<Rightarrow> cidr_t \<times> bool" where
  "add_sub_at t add p1 p2 =
     (if ip_family p1 = ip_family p2
      then if ip_family p1 = AF_INET
        then (let a = htonl (tgt_endian t) (ip_v4 t p1); b = htonl (tgt_endian t) (ip_v4 t p2)
              in if (add \<and> 0xFFFFFFFF - a < b) \<or> (\<not> add \<and> a < b)
                 then (set_v4 t (if add then 0xFFFFFFFF else 0) p1, False)
                 else (set_v4 t (htonl (tgt_endian t) (if add then a + b else a - b)) p1, True))
        else (let n = AF_BYTES (ip_family p1);
                  (r, carry) = add_sub_loop add n 0 (ip_u8 p1) (ip_u8 p2) (ip_u8 p1)
              in if carry \<noteq> 0
                 then (put_bytes (replicate n (if add then 0xFF else 0)) (p1\<lparr>ip_u8 := r\<rparr>), False)
                 else (p1\<lparr>ip_u8 := r\<rparr>, True))
      else (p1, False))"

definition uc_cidr_add_sub :: "target \<Rightarrow> bool \<Rightarrow> (cidr_t, nat) lm" where
  "uc_cidr_add_sub t add = lbind (L_checkcidr t 1 None) (\<lambda>h1. lbind (lget h1) (\<lambda>p1.
     lbind (L_checkcidr t 2 (Some p1)) (\<lambda>h2. lbind (lget h2) (\<lambda>p2. \<lambda>st.
       let (r, ok) = add_sub_at t add p1 p2
       in if larg 3 st = Some (LBool True)
          then lbind (lset h1 r) (\<lambda>_. push_bool ok) st
          else push_cidr r st))))"

definition cidr_add :: "target \<Rightarrow> (cidr_t, nat) lm" where
  "cidr_add t = uc_cidr_add_sub t True"

definition cidr_sub :: "target \<Rightarrow> (cidr_t, nat) lm" where
  "cidr_sub t = uc_cidr_add_sub t False"

section \<open>First and last host\<close>

fun incr_loop :: "nat \<Rightarrow> u8 \<Rightarrow> bytes \<Rightarrow> bytes" where
  "incr_loop 0 carry r = r"
| "incr_loop (Suc k) carry r =
     (let rest = (if unat (r ! k) + unat carry > 255 then 1 else 0)
      in incr_loop k rest (r[k := r ! k + carry]))"

definition minhost_of :: "target \<Rightarrow> cidr_t \<Rightarrow> cidr_t option" where
  "minhost_of t p = do {
     r \<leftarrow> uc_apply_mask t p (ip_bits p) False;
     let n = AF_BITS (ip_family r);
     Some (if ip_family r = AF_INET \<and> ip_bits r < int n
       then (set_v4 t (htonl (tgt_endian t) (htonl (tgt_endian t) (ip_v4 t r) + 1)) r)\<lparr>ip_bits := int n\<rparr>
       else if ip_bits r < int n
       then r\<lparr>ip_u8 := incr_loop (AF_BYTES (ip_family r)) 1 (ip_u8 r), ip_bits := int n\<rparr>
       else r)
   }"

definition cidr_minhost :: "target \<Rightarrow> (cidr_t, nat) lm" where
  "cidr_minhost t = with_cidr t (\<lambda>_ p. lbind (lift_undef (minhost_of t p)) push_cidr)"

definition maxhost_of :: "target \<Rightarrow> cidr_t \<Rightarrow> cidr_t option" where
  "maxhost_of t p = do {
     r \<leftarrow> uc_apply_mask t p (ip_bits p) True;
     let n = AF_BITS (ip_family r);
     Some (if ip_family r = AF_INET \<and> ip_bits r < int n
       then (set_v4 t (htonl (tgt_endian t) (htonl (tgt_endian t) (ip_v4 t r) - 1)) r)\<lparr>ip_bits := int n\<rparr>
       else r\<lparr>ip_bits := int n\<rparr>)
   }"

definition cidr_maxhost :: "target \<Rightarrow> (cidr_t, nat) lm" where
  "cidr_maxhost t = with_cidr t (\<lambda>_ p. lbind (lift_undef (maxhost_of t p)) push_cidr)"

definition cidr_gc :: "(cidr_t, nat) lm" where
  "cidr_gc = lret 0"

definition cidr_tostring :: "target \<Rightarrow> (cidr_t, nat) lm" where
  "cidr_tostring t = with_cidr t (\<lambda>_ p. format_cidr p)"

section \<open>The method table\<close>

definition ip_cidr_methods :: "target \<Rightarrow> (string \<times> (cidr_t, nat) lm) list" where
  "ip_cidr_methods t = [
     (''is4'', cidr_is4 t), (''is4rfc1918'', cidr_is4rfc1918 t), (''is4linklocal'', cidr_is4linklocal t),
     (''is6'', cidr_is6 t), (''is6linklocal'', cidr_is6linklocal t), (''is6mapped4'', cidr_is6mapped4 t),
     (''ismac'', cidr_ismac t), (''ismaclocal'', cidr_ismaclocal t), (''ismacmcast'', cidr_ismacmcast t),
     (''lower'', cidr_lower t), (''higher'', cidr_higher t), (''equal'', cidr_equal t),
     (''prefix'', cidr_prefix t), (''network'', cidr_network t), (''host'', cidr_host t),
     (''mask'', cidr_mask t), (''broadcast'', cidr_broadcast t), (''mapped4'', cidr_mapped4 t),
     (''tomac'', cidr_tomac t), (''tolinklocal'', cidr_tolinklocal t), (''contains'', cidr_contains t),
     (''add'', cidr_add t), (''sub'', cidr_sub t), (''minhost'', cidr_minhost t),
     (''maxhost'', cidr_maxhost t), (''string'', cidr_tostring t),
     (''__lt'', cidr_lower t), (''__le'', cidr_lower_equal t), (''__eq'', cidr_equal t),
     (''__add'', cidr_add t), (''__sub'', cidr_sub t), (''__gc'', cidr_gc),
     (''__tostring'', cidr_tostring t)]"

definition ip_methods :: "target \<Rightarrow> (string \<times> (cidr_t, nat) lm) list" where
  "ip_methods t = [
     (''new'', cidr_new t), (''IPv4'', cidr_ipv4 t), (''IPv6'', cidr_ipv6 t), (''MAC'', cidr_mac t),
     (''checkip4'', cidr_check t AF_INET), (''checkip6'', cidr_check t AF_INET6),
     (''checkmac'', cidr_check t AF_PACKET)]"

end
