(* ===== verification/Luci_Ip_Facts.thy ===== *)
theory Luci_Ip_Facts
  imports Luci_Ip
begin

text \<open>
  What the \<open>luci.ip\<close> methods compute: masks, comparisons and sums as arithmetic on the
  value of the address, for the three families alike, and the interpretations of the
  contracts of \<open>Addr_Spec\<close>.
\<close>

section \<open>Well-formed objects\<close>

definition wf_ip :: "af \<Rightarrow> cidr_t \<Rightarrow> bool" where
  "wf_ip f c \<longleftrightarrow> f \<noteq> AF_UNSPEC \<and> length (ip_u8 c) = 16 \<and> ip_family c = f \<and> 0 \<le> ip_bits c \<and> ip_bits c \<le> int (AF_BITS f)"

definition ip_val :: "cidr_t \<Rightarrow> nat" where
  "ip_val c = be_val (take (AF_BYTES (ip_family c)) (ip_u8 c))"

text \<open>The object or the truth value a call returned.\<close>

definition new_obj :: "(lua_error + lval list \<times> 'o list) option \<Rightarrow> 'o option" where
  "new_obj r = (case r of
     Some (Inr ([LObj h], objs)) \<Rightarrow> if h < length objs then Some (objs ! h) else None
   | _ \<Rightarrow> None)"

definition bool_result :: "(lua_error + lval list \<times> 'o list) option \<Rightarrow> bool option" where
  "bool_result r = (case r of Some (Inr ([LBool b], _)) \<Rightarrow> Some b | _ \<Rightarrow> None)"

text \<open>The object an in-place operation left, where it answered true.\<close>

definition changed :: "(lua_error + lval list \<times> 'o list) option \<Rightarrow> 'o option" where
  "changed r = (case r of Some (Inr ([LBool True], c # _)) \<Rightarrow> Some c | _ \<Rightarrow> None)"

lemma AF_BITS_BYTES: "AF_BITS f = 8 * AF_BYTES f"
  by (cases f) auto

lemma AF_BYTES_le [simp]: "AF_BYTES f \<le> 16"
  by (cases f) auto

lemma wf_ip_D:
  "wf_ip f c \<Longrightarrow> length (ip_u8 c) = 16" "wf_ip f c \<Longrightarrow> ip_family c = f"
  "wf_ip f c \<Longrightarrow> nat (ip_bits c) \<le> AF_BITS f"
  by (auto simp: wf_ip_def)

lemma ip_val_less: "wf_ip f c \<Longrightarrow> ip_val c < 2 ^ AF_BITS f"
  using be_val_less [of "take (AF_BYTES f) (ip_u8 c)"]
  by (simp add: ip_val_def wf_ip_def AF_BITS_BYTES two_pow_8 min_absorb2)

lemma length_put_bytes [simp]:
  "length bs \<le> length (ip_u8 p) \<Longrightarrow> length (ip_u8 (put_bytes bs p)) = length (ip_u8 p)"
  "ip_family (put_bytes bs p) = ip_family p"
  "ip_bits (put_bytes bs p) = ip_bits p"
  by (simp_all add: put_bytes_def)

lemma ip_val_put_bytes: "length bs = AF_BYTES (ip_family p) \<Longrightarrow> ip_val (put_bytes bs p) = be_val bs"
  by (simp add: ip_val_def put_bytes_def)

section \<open>Masks\<close>

lemma byte_mask: "b \<le> 8 \<Longrightarrow> push_bit (8 - b) 0xFF = (NOT (mask (8 - b)) :: u8)"
proof -
  assume "b \<le> 8"
  have "(0xFF :: u8) = mask 8" by (simp add: mask_eq_exp_minus_1)
  then show ?thesis using \<open>b \<le> 8\<close> by (auto simp: bit_eq_iff bit_simps)
qed

lemma div_byte_high:
  fixes V u :: nat
  assumes "V < 256 ^ L" and "r \<le> 8"
  shows "(u * 256 ^ L + V) div 2 ^ (8 * L + r) = u div 2 ^ r"
proof -
  have "(u * 256 ^ L + V) div 256 ^ L = u" using assms(1) by simp
  then show ?thesis by (simp only: power_add two_pow_8 [symmetric] div_mult2_eq)
qed

lemma div_byte_low:
  fixes V u :: nat
  assumes "K \<le> 8 * L"
  shows "(u * 256 ^ L + V) div 2 ^ K * 2 ^ K = u * 256 ^ L + V div 2 ^ K * 2 ^ K"
proof -
  have "(256::nat) ^ L = 2 ^ (8 * L - K) * 2 ^ K"
    using assms by (simp add: two_pow_8 flip: power_add)
  then show ?thesis by (simp add: distrib_right flip: mult.assoc)
qed

lemma length_mask_bytes [simp]: "length (mask_bytes iv bits xs) = length xs"
  by (induction iv bits xs rule: mask_bytes.induct) (simp_all add: Let_def)

lemma be_val_mask_bytes:
  assumes "bits \<le> 8 * length xs"
  defines "K \<equiv> 8 * length xs - bits"
  shows "be_val (mask_bytes iv bits xs) = be_val xs div 2 ^ K * 2 ^ K + (if iv then 2 ^ K - 1 else 0)"
  using assms(1) unfolding K_def
proof (induction xs arbitrary: bits)
  case (Cons x xs)
  let ?L = "length xs" and ?V = "be_val xs"
  show ?case
  proof (cases "8 \<le> bits")
    case True
    have "(0xFF :: u8) = - 1" by simp
    then have "x OR NOT (push_bit 0 0xFF) = x" "x AND push_bit 0 0xFF = x" by (simp_all only: push_bit_0_id id_apply) simp_all
    moreover have "(if bits > 8 then 8 else bits) = 8" using True by simp
    ultimately have "be_val (mask_bytes iv bits (x # xs))
        = unat x * 256 ^ ?L + be_val (mask_bytes iv (bits - 8) xs)"
      by (simp add: Let_def)
    moreover have "8 * ?L - (bits - 8) = 8 * length (x # xs) - bits" using True by simp
    ultimately show ?thesis using Cons.IH [of "bits - 8"] Cons.prems True div_byte_low [of "8 * length (x # xs) - bits" ?L "unat x" ?V]
      by simp
  next
    case False
    then have b: "(if bits > 8 then 8 else bits) = bits" by simp
    let ?r = "8 - bits"
    have m: "push_bit ?r 0xFF = (NOT (mask ?r) :: u8)" using False by (intro byte_mask) simp
    have r8: "?r \<le> 8" by simp
    have K: "8 * length (x # xs) - bits = 8 * ?L + ?r" using False by simp
    have "be_val (mask_bytes iv 0 xs) = (if iv then 256 ^ ?L - 1 else 0)"
      using Cons.IH [of 0] by (simp flip: two_pow_8)
    then have m1: "be_val (mask_bytes iv bits (x # xs))
        = (if iv then unat (x OR mask ?r) * 256 ^ ?L + (256 ^ ?L - 1) else unat (x AND NOT (mask ?r)) * 256 ^ ?L)"
      unfolding mask_bytes.simps Let_def b m by simp
    have m2: "unat (x OR mask ?r) = unat x div 2 ^ ?r * 2 ^ ?r + (2 ^ ?r - 1)"
      using r8 by (intro unat_or_mask) simp
    have m3: "(a * P + (P - 1)) * Q + (Q - 1) = a * (P * Q) + (P * Q - 1)"
      if "1 \<le> P" "1 \<le> Q" for a P Q :: nat
    proof -
      have "(P - 1) * Q + (Q - 1) = P * Q - 1" using that by (simp add: diff_mult_distrib)
      then show ?thesis by (simp add: distrib_right)
    qed
    have "be_val (mask_bytes iv bits (x # xs))
        = unat x div 2 ^ ?r * (2 ^ ?r * 256 ^ ?L) + (if iv then 2 ^ ?r * 256 ^ ?L - 1 else 0)"
      unfolding m1 m2 unat_and_not_mask using m3 [of "2 ^ ?r" "256 ^ ?L"] by (simp only: one_le_power) simp
    moreover have "(2::nat) ^ (8 * ?L + ?r) = 2 ^ ?r * 256 ^ ?L"
      by (simp add: power_add two_pow_8)
    ultimately show ?thesis
      using div_byte_high [OF be_val_less [of xs] r8, of "unat x"] by (simp only: K be_val.simps)
  qed
qed simp


lemma word32_wf: "wf_ip AF_INET c \<Longrightarrow> unat (word32 (take 4 (ip_u8 c))) = ip_val c"
  by (simp add: ip_val_def wf_ip_D unat_word32)

lemma shl1_prefix:
  assumes "0 < n" and "n \<le> 32"
  shows "shl1 (32 - word_of_int n) = Some (mask (32 - nat n) + 1)"
proof -
  have n: "word_of_int n = (word_of_nat (nat n) :: u32)" using assms(1) by simp
  have "unat (word_of_nat (nat n) :: u32) = nat n" using assms(2) by (simp add: unat_of_nat)
  then have "unat (32 - word_of_int n :: u32) = 32 - nat n"
    unfolding n using assms(2) by (subst unat_sub) (simp_all add: word_le_nat_alt)
  moreover from this have "32 - word_of_int n < (32 :: u32)"
    using assms by (simp add: word_less_nat_alt)
  ultimately show ?thesis by (simp add: shl1_minus_1)
qed

text \<open>Masking with a prefix of \<open>n\<close> bits clears, or sets, all the others.\<close>

lemma uc_apply_mask_val:
  assumes "length (ip_u8 c) = 16" and "0 \<le> n" and "n \<le> int (AF_BITS (ip_family c))"
  defines "K \<equiv> AF_BITS (ip_family c) - nat n"
  shows "\<exists>bs. length bs = AF_BYTES (ip_family c)
    \<and> uc_apply_mask t c n iv = Some (put_bytes bs c)
    \<and> be_val bs = ip_val c div 2 ^ K * 2 ^ K + (if iv then 2 ^ K - 1 else 0)"
proof -
  have len: "length (take (AF_BYTES (ip_family c)) (ip_u8 c)) = AF_BYTES (ip_family c)"
    using assms(1) by (simp add: min_absorb2)
  consider (zero) "n = 0" | (v4) "0 < n" "ip_family c = AF_INET" | (other) "0 < n" "ip_family c \<noteq> AF_INET"
    using assms(2) by linarith
  then show ?thesis
  proof cases
    case zero
    have "ip_val c < 2 ^ AF_BITS (ip_family c)"
      using be_val_less [of "take (AF_BYTES (ip_family c)) (ip_u8 c)"] len
      by (simp add: ip_val_def AF_BITS_BYTES two_pow_8)
    with zero show ?thesis
      by (simp add: uc_apply_mask_def K_def AF_BITS_BYTES be_val_replicate_0 be_val_replicate_FF
          two_pow_8 exI [of _ "replicate (AF_BYTES (ip_family c)) (if iv then 0xFF else 0)"])
  next
    case v4
    then have n: "n \<le> 32" using assms(3) by simp
    let ?w = "word32 (take 4 (ip_u8 c))" and ?k = "32 - nat n"
    have u: "unat ?w = ip_val c" using assms(1) v4 by (simp add: ip_val_def unat_word32)
    have "uc_apply_mask t c n iv = Some (put_bytes (bytes32 (if iv then ?w OR mask ?k else ?w AND NOT (mask ?k))) c)"
      using v4 n assms(1)
      by (simp add: uc_apply_mask_def shl1_prefix set_v4_def ip_v4_def store32_and_htonl store32_or_htonl)
    moreover have "?k \<le> LENGTH(32)" by simp
    ultimately show ?thesis using v4 u
      by (simp add: K_def be_val_bytes32 unat_and_not_mask unat_or_mask
        exI [of _ "bytes32 (if iv then ?w OR mask ?k else ?w AND NOT (mask ?k))"])
  next
    case other
    let ?bs = "mask_bytes iv (nat n) (take (AF_BYTES (ip_family c)) (ip_u8 c))"
    have "uc_apply_mask t c n iv = Some (put_bytes ?bs c)"
      using other assms(3) by (simp add: uc_apply_mask_def)
    moreover have "be_val ?bs = ip_val c div 2 ^ K * 2 ^ K + (if iv then 2 ^ K - 1 else 0)"
      using assms(2,3) be_val_mask_bytes [of "nat n" "take (AF_BYTES (ip_family c)) (ip_u8 c)" iv] len
      by (simp add: K_def ip_val_def AF_BITS_BYTES nat_le_iff)
    ultimately show ?thesis using len by (metis length_mask_bytes)
  qed
qed


section \<open>Calling a method\<close>

lemma L_checkcidr_obj: "larg i st = Some (LObj h) \<Longrightarrow> L_checkcidr t i p st = Some (Inr (h, st))"
  by (simp add: L_checkcidr_def lret_def)

lemma lget_start [simp]:
  "lget 0 (lstart j (c # objs) args) = Some (Inr (c, lstart j (c # objs) args))"
  "lget (Suc 0) (lstart j (c # d # objs) args) = Some (Inr (d, lstart j (c # d # objs) args))"
  by (simp_all add: lget_def lstart_def)

lemma with_cidr_obj:
  "with_cidr t f (lstart j (c # objs) (LObj 0 # args)) = f 0 c (lstart j (c # objs) (LObj 0 # args))"
  by (simp add: with_cidr_def lbind_def L_checkcidr_obj larg_start)

lemma with_cidr2_obj:
  "with_cidr2 t f (lstart j [a, b] [LObj 0, LObj (Suc 0)]) = f a b (lstart j [a, b] [LObj 0, LObj (Suc 0)])"
  by (simp add: with_cidr2_def lbind_def L_checkcidr_obj larg_start)

lemma L_checkbits_none:
  "L_checkbits t 2 p (lstart j objs [u]) = lret (ip_bits p) (lstart j objs [u])"
  by (simp add: L_checkbits_def larg_start)

lemma L_checkbits_num:
  assumes "0 \<le> n" and "n \<le> int (AF_BITS (ip_family p))"
  shows "L_checkbits t 2 p (lstart j objs [u, LNum n]) = lret n (lstart j objs [u, LNum n])"
proof -
  have "AF_BITS (ip_family p) \<le> 128" by (cases "ip_family p") auto
  then have "to_s32 n = n" using assms by (simp add: to_s32_def)
  then show ?thesis using assms by (simp add: L_checkbits_def larg_start)
qed

lemma push_cidr_start:
  "push_cidr c (lstart j objs args) = Some (Inr (1, lstart j (objs @ [c]) (args @ [LObj (length objs)])))"
  by (simp add: push_cidr_def lbind_def lnew_def lret_def lstart_def Let_def)

lemma push_bool_start:
  "push_bool b (lstart j objs args) = Some (Inr (1, lstart j objs (args @ [LBool b])))"
  by (simp add: push_bool_def lbind_def lpush_def lret_def lstart_def)

lemma results_start [simp]:
  "args \<noteq> [] \<Longrightarrow> results (Suc 0) (lstart j objs args) = [last args]"
  "l_objs (lstart j objs args) = objs"
  by (cases args rule: rev_cases) (simp_all add: results_def lstart_def)

lemma lift_undef_simps [simp]: "lift_undef (Some a) = lret a" "lift_undef None = lundef"
  by (simp_all add: lift_undef_def)

lemmas lua_run = lcall_def with_cidr_obj with_cidr2_obj push_cidr_start push_bool_start
  lbind_def lret_def lundef_def

lemma cidr_network_new:
  assumes "uc_apply_mask t (c\<lparr>ip_bits := int (AF_BITS (ip_family c))\<rparr>) (ip_bits c) False = Some d"
  shows "new_obj (lcall (cidr_network t) j [c] [LObj 0]) = Some d"
  using assms by (simp add: cidr_network_def lua_run L_checkbits_none new_obj_def)

lemma ip_mask_new:
  assumes "uc_apply_mask t
       \<lparr>ip_u8 = replicate 16 0xFF, ip_family = ip_family c, ip_bits = int (AF_BITS (ip_family c))\<rparr>
       (ip_bits c) False = Some d"
  shows "new_obj (lcall (cidr_mask t) j [c] [LObj 0]) = Some d"
  using assms by (simp add: cidr_mask_def lua_run L_checkbits_none new_obj_def)

lemma cidr_broadcast_new:
  assumes "ip_family c = AF_INET"
    and "uc_apply_mask t (c\<lparr>ip_bits := 32\<rparr>) (ip_bits c) True = Some d"
  shows "new_obj (lcall (cidr_broadcast t) j [c] [LObj 0]) = Some d"
  using assms by (simp add: cidr_broadcast_def lua_run L_checkbits_none new_obj_def)

lemma cidr_contains_bool:
  "contains_at t a b = Some r \<Longrightarrow> bool_result (lcall (cidr_contains t) j [a, b] [LObj 0, LObj 1]) = Some r"
  by (simp add: cidr_contains_def lua_run bool_result_def)

lemma cidr_add_sub_new:
  "new_obj (lcall (uc_cidr_add_sub t add) j [a, b] [LObj 0, LObj 1]) = Some (fst (add_sub_at t add a b))"
  by (cases "add_sub_at t add a b")
    (simp add: uc_cidr_add_sub_def lua_run L_checkcidr_obj larg_start new_obj_def)

lemma cidr_add_sub_in_place:
  "lcall (uc_cidr_add_sub t add) j [a, b] [LObj 0, LObj 1, LBool True]
    = Some (Inr ([LBool (snd (add_sub_at t add a b))], [fst (add_sub_at t add a b), b]))"
  by (cases "add_sub_at t add a b")
    (simp add: uc_cidr_add_sub_def lua_run L_checkcidr_obj larg_start lset_def,
     simp add: push_bool_def lpush_def lbind_def lret_def lstart_def results_def)


section \<open>Arithmetic\<close>

text \<open>
  What the byte loop leaves in \<open>r\<close>: the last \<open>k\<close> bytes of the sum or difference, the
  bytes behind them as they were, and the overflow as the carry.
\<close>

lemma carry_div: "(n::nat) < 512 \<Longrightarrow> n div 256 = (if 256 \<le> n then 1 else 0)"
  by (auto simp: div_if)

lemma byte_borrow:
  fixes a b c :: u8
  assumes "unat c \<le> 1"
  shows "unat (a - b - c) + unat b + unat c = unat a + 256 * (if unat a < unat b + unat c then 1 else 0)"
proof -
  have "int (unat a) - int (unat b) - int (unat c) < 0 \<longleftrightarrow> unat a < unat b + unat c" by linarith
  with byte_sub [OF assms, of a b] show ?thesis by (simp only: diff_diff_eq)
qed

lemma add_loop_correct:
  assumes "add_sub_loop True k c p q r = (r', c')"
    and "k \<le> length p" and "k \<le> length q" and "k \<le> length r" and "unat c \<le> 1"
  shows "length r' = length r \<and> drop k r' = drop k r \<and> unat c' \<le> 1
    \<and> be_val (take k r') + unat c' * 256 ^ k = be_val (take k p) + be_val (take k q) + unat c"
  using assms
proof (induction k arbitrary: c r)
  case (Suc k)
  define s where "s = p ! k + q ! k + c"
  define ov :: u8 where "ov = word_of_nat ((unat (p ! k) + unat (q ! k) + unat c) div 256)"
  have step: "add_sub_loop True k ov p q (r[k := s]) = (r', c')"
    using Suc.prems(1) by (simp add: Let_def s_def ov_def)
  have "unat (p ! k) + unat (q ! k) + unat c < 512"
    using unat_byte_less [of "p ! k"] unat_byte_less [of "q ! k"] Suc.prems(5) by linarith
  then have ov: "unat ov = (if unat (p ! k) + unat (q ! k) + unat c \<ge> 256 then 1 else 0)"
    using carry_div [of "unat (p ! k) + unat (q ! k) + unat c"] by (simp add: ov_def)
  then have ov1: "unat ov \<le> 1" by simp
  have IH: "length r' = length r" "drop k r' = drop k (r[k := s])" "unat c' \<le> 1"
    "be_val (take k r') + unat c' * 256 ^ k = be_val (take k p) + be_val (take k q) + unat ov"
    using Suc.IH [OF step _ _ _ ov1] Suc.prems by simp_all
  have k: "k < length r" "k < length r'" using Suc.prems(4) IH(1) by simp_all
  have last: "r' ! k = s"
    using IH(2) k by (metis Cons_nth_drop_Suc length_list_update list.inject nth_list_update_eq)
  have "drop (Suc k) r' = drop (Suc k) r"
    using IH(2) k by (metis Cons_nth_drop_Suc drop_update_cancel length_list_update lessI list.inject)
  moreover have "unat s + 256 * unat ov = unat (p ! k) + unat (q ! k) + unat c"
    using byte_add [OF Suc.prems(5), of "p ! k" "q ! k"] by (simp add: s_def ov add.assoc)
  ultimately show ?case
    using IH Suc.prems(2,3) k last
    by (simp add: take_Suc_conv_app_nth be_val_snoc algebra_simps)
qed simp

lemma sub_loop_correct:
  assumes "add_sub_loop False k c p q r = (r', c')"
    and "k \<le> length p" and "k \<le> length q" and "k \<le> length r" and "unat c \<le> 1"
  shows "length r' = length r \<and> drop k r' = drop k r \<and> unat c' \<le> 1
    \<and> be_val (take k r') + be_val (take k q) + unat c = be_val (take k p) + unat c' * 256 ^ k"
  using assms
proof (induction k arbitrary: c r)
  case (Suc k)
  define s where "s = p ! k - q ! k - c"
  define bw :: u8 where "bw = (if unat (p ! k) < unat (q ! k) + unat c then 1 else 0)"
  have step: "add_sub_loop False k bw p q (r[k := s]) = (r', c')"
    using Suc.prems(1) by (simp add: Let_def s_def bw_def)
  have bw1: "unat bw \<le> 1" by (simp add: bw_def)
  have IH: "length r' = length r" "drop k r' = drop k (r[k := s])" "unat c' \<le> 1"
    "be_val (take k r') + be_val (take k q) + unat bw = be_val (take k p) + unat c' * 256 ^ k"
    using Suc.IH [OF step _ _ _ bw1] Suc.prems by simp_all
  have k: "k < length r" "k < length r'" using Suc.prems(4) IH(1) by simp_all
  have last: "r' ! k = s"
    using IH(2) k by (metis Cons_nth_drop_Suc length_list_update list.inject nth_list_update_eq)
  have "drop (Suc k) r' = drop (Suc k) r"
    using IH(2) k by (metis Cons_nth_drop_Suc drop_update_cancel length_list_update lessI list.inject)
  moreover have "unat s + unat (q ! k) + unat c = unat (p ! k) + 256 * unat bw"
    using byte_borrow [OF Suc.prems(5), of "p ! k" "q ! k"] by (simp add: s_def bw_def)
  ultimately show ?case
    using IH Suc.prems(2,3) k last
    by (simp add: take_Suc_conv_app_nth be_val_snoc algebra_simps)
qed simp

lemma byte_carry_cases: "unat (c :: u8) \<le> 1 \<Longrightarrow> c = 0 \<and> unat c = 0 \<or> c = 1 \<and> unat c = 1"
  by (metis le_antisym less_one linorder_not_le unat_0_iff unsigned_1 word_unat_eq_iff)

lemma wf_ip_put_bytes: "wf_ip f c \<Longrightarrow> length bs \<le> 16 \<Longrightarrow> wf_ip f (put_bytes bs c)"
  by (simp add: wf_ip_def)

lemma set_v4_htonl: "set_v4 t (htonl (tgt_endian t) w) p = put_bytes (bytes32 w) p"
  by (simp add: set_v4_def)

lemma htonl_ip_v4: "wf_ip f p \<Longrightarrow> htonl (tgt_endian t) (ip_v4 t p) = word32 (take 4 (ip_u8 p))"
  by (simp add: ip_v4_def wf_ip_D)

lemma set_v4_ones: "set_v4 t 0xFFFFFFFF p = put_bytes (replicate 4 0xFF) p"
proof -
  have "store32 Little 0xFFFFFFFF = replicate 4 0xFF" "store32 Big 0xFFFFFFFF = replicate 4 0xFF"
    by code_simp+
  then have "store32 e 0xFFFFFFFF = replicate 4 0xFF" for e by (cases e) simp_all
  then show ?thesis by (simp only: set_v4_def)
qed

lemma set_v4_zero: "set_v4 t 0 p = put_bytes (replicate 4 0) p"
proof -
  have "store32 Little 0 = replicate 4 0" "store32 Big 0 = replicate 4 0"
    by code_simp+
  then have "store32 e 0 = replicate 4 0" for e by (cases e) simp_all
  then show ?thesis by (simp only: set_v4_def)
qed

lemma take_AF_BYTES: "wf_ip f a \<Longrightarrow> length (take (AF_BYTES f) (ip_u8 a)) = AF_BYTES f"
  by (simp add: wf_ip_D min_absorb2)

text \<open>\<open>add\<close> and \<open>sub\<close> stop at the ends of the address space.\<close>

lemma add_at_val:
  assumes "wf_ip f a" and "wf_ip f b"
  shows "\<exists>r. add_sub_at t True a b = (r, ip_val a + ip_val b < 2 ^ AF_BITS f) \<and> wf_ip f r
    \<and> ip_bits r = ip_bits a \<and> ip_val r = min (ip_val a + ip_val b) (2 ^ AF_BITS f - 1)"
proof (cases "f = AF_INET")
  case True
  note wf = assms(1,2) [unfolded True]
  let ?a = "word32 (take 4 (ip_u8 a))" and ?b = "word32 (take 4 (ip_u8 b))"
  have u: "unat ?a = ip_val a" "unat ?b = ip_val b" using wf by (simp_all add: word32_wf)
  have "unat (0xFFFFFFFF - ?a) = 0xFFFFFFFF - ip_val a"
    using u(1) ip_val_less [OF wf(1)] by (subst unat_sub) (simp_all add: word_le_nat_alt)
  then have ov: "0xFFFFFFFF - ?a < ?b \<longleftrightarrow> \<not> ip_val a + ip_val b < 2 ^ 32"
    using ip_val_less [OF wf(1)] by (auto simp: word_less_nat_alt u)
  show ?thesis
  proof (cases "ip_val a + ip_val b < 2 ^ 32")
    case fits: True
    then have "unat (?a + ?b) = ip_val a + ip_val b" using u by (simp add: unat_word_ariths)
    with fits True wf ov show ?thesis
      by (simp add: add_sub_at_def wf_ip_D htonl_ip_v4 set_v4_htonl wf_ip_put_bytes ip_val_put_bytes be_val_bytes32)
  next
    case False
    with True wf ov show ?thesis
      by (simp add: add_sub_at_def wf_ip_D htonl_ip_v4 set_v4_ones wf_ip_put_bytes ip_val_put_bytes be_val_replicate_FF)
  qed
next
  case False
  let ?n = "AF_BYTES f"
  obtain r c where loop: "add_sub_loop True ?n 0 (ip_u8 a) (ip_u8 b) (ip_u8 a) = (r, c)" by fastforce
  from add_loop_correct [OF this] assms(1,2)
  have r: "length r = 16" "drop ?n r = drop ?n (ip_u8 a)" "unat c \<le> 1"
    and eq: "be_val (take ?n r) + unat c * 2 ^ AF_BITS f = ip_val a + ip_val b"
    by (auto simp: wf_ip_D ip_val_def AF_BITS_BYTES two_pow_8)
  have lt: "be_val (take ?n r) < 2 ^ AF_BITS f"
    using be_val_less [of "take ?n r"] r(1) by (simp add: AF_BITS_BYTES two_pow_8 min_absorb2)
  have wfr: "wf_ip f (a\<lparr>ip_u8 := r\<rparr>)" and vr: "ip_val (a\<lparr>ip_u8 := r\<rparr>) = be_val (take ?n r)"
    using assms(1) r(1) by (simp_all add: wf_ip_def ip_val_def)
  have ff: "be_val (replicate ?n 0xFF) = 2 ^ AF_BITS f - 1"
    by (simp add: be_val_replicate_FF AF_BITS_BYTES two_pow_8)
  from byte_carry_cases [OF r(3)] show ?thesis
  proof
    assume "c = 0 \<and> unat c = 0"
    with loop eq lt wfr vr assms False show ?thesis
      by (simp add: add_sub_at_def wf_ip_D Let_def)
  next
    assume "c = 1 \<and> unat c = 1"
    with loop eq lt wfr assms False ff show ?thesis
      by (simp add: add_sub_at_def wf_ip_D Let_def wf_ip_put_bytes ip_val_put_bytes)
  qed
qed

lemma sub_at_val:
  assumes "wf_ip f a" and "wf_ip f b"
  shows "\<exists>r. add_sub_at t False a b = (r, ip_val b \<le> ip_val a) \<and> wf_ip f r
    \<and> ip_bits r = ip_bits a \<and> ip_val r = ip_val a - ip_val b"
proof (cases "f = AF_INET")
  case True
  note wf = assms(1,2) [unfolded True]
  let ?a = "word32 (take 4 (ip_u8 a))" and ?b = "word32 (take 4 (ip_u8 b))"
  have u: "unat ?a = ip_val a" "unat ?b = ip_val b" using wf by (simp_all add: word32_wf)
  have lt: "?a < ?b \<longleftrightarrow> ip_val a < ip_val b" by (simp add: word_less_nat_alt u)
  show ?thesis
  proof (cases "ip_val b \<le> ip_val a")
    case ok: True
    then have "unat (?a - ?b) = ip_val a - ip_val b" using u by (simp add: unat_sub word_le_nat_alt)
    with ok True wf lt show ?thesis
      by (simp add: add_sub_at_def wf_ip_D htonl_ip_v4 set_v4_htonl wf_ip_put_bytes ip_val_put_bytes be_val_bytes32)
  next
    case False
    with True wf lt show ?thesis
      by (simp add: add_sub_at_def wf_ip_D htonl_ip_v4 set_v4_zero wf_ip_put_bytes ip_val_put_bytes be_val_replicate_0)
  qed
next
  case False
  let ?n = "AF_BYTES f"
  obtain r c where loop: "add_sub_loop False ?n 0 (ip_u8 a) (ip_u8 b) (ip_u8 a) = (r, c)" by fastforce
  from sub_loop_correct [OF this] assms(1,2)
  have r: "length r = 16" "unat c \<le> 1"
    and eq: "be_val (take ?n r) + ip_val b = ip_val a + unat c * 2 ^ AF_BITS f"
    by (auto simp: wf_ip_D ip_val_def AF_BITS_BYTES two_pow_8)
  have lt: "be_val (take ?n r) < 2 ^ AF_BITS f"
    using be_val_less [of "take ?n r"] r(1) by (simp add: AF_BITS_BYTES two_pow_8 min_absorb2)
  have wfr: "wf_ip f (a\<lparr>ip_u8 := r\<rparr>)" and vr: "ip_val (a\<lparr>ip_u8 := r\<rparr>) = be_val (take ?n r)"
    using assms(1) r(1) by (simp_all add: wf_ip_def ip_val_def)
  from byte_carry_cases [OF r(2)] show ?thesis
  proof
    assume "c = 0 \<and> unat c = 0"
    with loop eq lt wfr vr assms False show ?thesis
      by (simp add: add_sub_at_def wf_ip_D Let_def)
  next
    assume "c = 1 \<and> unat c = 1"
    with loop eq lt wfr assms False ip_val_less [OF assms(2)] show ?thesis
      by (simp add: add_sub_at_def wf_ip_D Let_def wf_ip_put_bytes ip_val_put_bytes be_val_replicate_0)
  qed
qed

text \<open>The two contracts, for every family at once.\<close>

lemma changed_add_sub:
  "changed (lcall (uc_cidr_add_sub t add) j [a, b] [LObj 0, LObj (Suc 0), LBool True])
    = (if snd (add_sub_at t add a b) then Some (fst (add_sub_at t add a b)) else None)"
  using cidr_add_sub_in_place [of t add j a b] by (simp add: changed_def)

interpretation lip: addr_arith "wf_ip f" ip_val "2 ^ AF_BITS f"
  "\<lambda>a b. changed (lcall (cidr_add t) j [a, b] [LObj 0, LObj 1, LBool True])"
  "\<lambda>a b. changed (lcall (cidr_sub t) j [a, b] [LObj 0, LObj 1, LBool True])" for f t j
proof (unfold_locales, goal_cases)
  case (1 a)
  then show ?case by (rule ip_val_less)
next
  case (2 a b)
  with add_at_val [OF 2(1,2), of t] show ?case by (auto simp: cidr_add_def changed_add_sub)
next
  case (3 a b)
  with add_at_val [OF 3(1,2), of t] show ?case by (auto simp: cidr_add_def changed_add_sub)
next
  case (4 a b)
  with sub_at_val [OF 4(1,2), of t] show ?case by (auto simp: cidr_sub_def changed_add_sub)
next
  case (5 a b)
  with sub_at_val [OF 5(1,2), of t] show ?case by (auto simp: cidr_sub_def changed_add_sub)
qed

section \<open>Comparisons\<close>

lemma memcmp_val:
  assumes "length xs = length ys"
  shows "memcmp xs ys < 0 \<longleftrightarrow> be_val xs < be_val ys" "memcmp xs ys = 0 \<longleftrightarrow> be_val xs = be_val ys"
  using assms
proof (induction xs ys rule: list_induct2)
  case (Cons x xs y ys)
  let ?B = "256 ^ length ys :: nat"
  have lt: "be_val xs < ?B" "be_val ys < ?B"
    using be_val_less [of xs] be_val_less [of ys] Cons.hyps by auto
  have less: "m * ?B + u < n * ?B + v" if "m < n" "u < ?B" for m n u v :: nat
  proof -
    have "m * ?B + u < (m + 1) * ?B" using that(2) by simp
    also have "\<dots> \<le> n * ?B" using that(1) by (intro mult_right_mono) auto
    finally show ?thesis by simp
  qed
  consider "unat x < unat y" | "unat y < unat x" | "x = y"
    by (metis linorder_neqE_nat word_unat_eq_iff)
  then show "memcmp (x # xs) (y # ys) < 0 \<longleftrightarrow> be_val (x # xs) < be_val (y # ys)"
    and "memcmp (x # xs) (y # ys) = 0 \<longleftrightarrow> be_val (x # xs) = be_val (y # ys)"
    using less [OF _ lt(1), of "unat x" "unat y" "be_val ys"]
      less [OF _ lt(2), of "unat y" "unat x" "be_val xs"] Cons.IH Cons.hyps
    by (cases; force simp: word_less_nat_alt)+
qed simp_all

text \<open>Objects are ordered by family, then by address; the prefix length does not count.\<close>

definition ip_less :: "cidr_t \<Rightarrow> cidr_t \<Rightarrow> bool" where
  "ip_less a b \<longleftrightarrow> ip_family a < ip_family b \<or> ip_family a = ip_family b \<and> ip_val a < ip_val b"

definition ip_same :: "cidr_t \<Rightarrow> cidr_t \<Rightarrow> bool" where
  "ip_same a b \<longleftrightarrow> ip_family a = ip_family b \<and> ip_val a = ip_val b"

lemma cidr_cmp_val:
  assumes "length (ip_u8 a) = 16" and "length (ip_u8 b) = 16"
  shows "cidr_cmp a b < 0 \<longleftrightarrow> ip_less a b" "cidr_cmp a b = 0 \<longleftrightarrow> ip_same a b"
proof -
  have "af_num f = af_num g \<longleftrightarrow> f = g" for f g by (cases f; cases g) auto
  then show "cidr_cmp a b < 0 \<longleftrightarrow> ip_less a b" "cidr_cmp a b = 0 \<longleftrightarrow> ip_same a b"
    using assms memcmp_val [of "take (AF_BYTES (ip_family a)) (ip_u8 a)" "take (AF_BYTES (ip_family a)) (ip_u8 b)"]
    by (auto simp: cidr_cmp_def ip_less_def ip_same_def less_af_def ip_val_def)
qed

lemma ip_order_total: "ip_less a b \<or> ip_same a b \<or> ip_less b a"
  by (auto simp: ip_less_def ip_same_def)

lemma ip_order_disjoint: "ip_less a b \<Longrightarrow> \<not> ip_same a b \<and> \<not> ip_less b a"
  by (auto simp: ip_less_def ip_same_def)

section \<open>Blocks\<close>

lemma network_at:
  assumes "wf_ip f c"
  shows "\<exists>d. new_obj (lcall (cidr_network t) j [c] [LObj 0]) = Some d \<and> wf_ip f d
    \<and> ip_bits d = int (AF_BITS f)
    \<and> ip_val d = ip_val c div 2 ^ (AF_BITS f - nat (ip_bits c)) * 2 ^ (AF_BITS f - nat (ip_bits c))"
proof -
  let ?c = "c\<lparr>ip_bits := int (AF_BITS (ip_family c))\<rparr>"
  have v: "ip_val ?c = ip_val c" by (simp add: ip_val_def)
  obtain bs where bs: "length bs = AF_BYTES f" "uc_apply_mask t ?c (ip_bits c) False = Some (put_bytes bs ?c)"
    "be_val bs = ip_val c div 2 ^ (AF_BITS f - nat (ip_bits c)) * 2 ^ (AF_BITS f - nat (ip_bits c))"
    using uc_apply_mask_val [of ?c "ip_bits c" t False] assms v by (auto simp: wf_ip_def)
  then show ?thesis
    using cidr_network_new [OF bs(2)] assms
    by (auto simp: ip_val_put_bytes wf_ip_def)
qed

lemma contains_val_at:
  assumes "wf_ip f a" and "wf_ip f b"
  shows "contains_at t a b = Some (ip_bits a \<le> ip_bits b
    \<and> ip_val a div 2 ^ (AF_BITS f - nat (ip_bits a)) = ip_val b div 2 ^ (AF_BITS f - nat (ip_bits a)))"
proof (cases "ip_bits a \<le> ip_bits b")
  case True
  let ?K = "AF_BITS f - nat (ip_bits a)"
  obtain x where x: "length x = AF_BYTES f" "uc_apply_mask t a (ip_bits a) False = Some (put_bytes x a)"
    "be_val x = ip_val a div 2 ^ ?K * 2 ^ ?K"
    using uc_apply_mask_val [of a "ip_bits a" t False] assms by (auto simp: wf_ip_def)
  obtain y where y: "length y = AF_BYTES f" "uc_apply_mask t b (ip_bits a) False = Some (put_bytes y b)"
    "be_val y = ip_val b div 2 ^ ?K * 2 ^ ?K"
    using uc_apply_mask_val [of b "ip_bits a" t False] assms by (auto simp: wf_ip_def)
  from x y True assms memcmp_val(2) [of x y] show ?thesis
    by (simp add: contains_at_def wf_ip_D put_bytes_def)
qed (simp add: contains_at_def)

interpretation lip: addr_block "wf_ip f" ip_val "\<lambda>a. nat (ip_bits a)" "AF_BITS f" 0
  "\<lambda>a. new_obj (lcall (cidr_network t) j [a] [LObj 0])"
  "\<lambda>a b. bool_result (lcall (cidr_contains t) j [a, b] [LObj 0, LObj 1])" for f t j
proof (unfold_locales, goal_cases)
  case (1 a)
  then show ?case by (rule wf_ip_D)
next
  case (2 a)
  then show ?case using network_at [OF 2(1), of t j] by auto
next
  case (3 a b)
  then show ?case
    using cidr_contains_bool [OF contains_val_at [OF 3(1,2), of t], of j] by (auto simp: wf_ip_def nat_le_iff)
qed

section \<open>First and last host\<close>

lemma drop_updateD:
  assumes "drop k xs = drop k (ys[k := s])" and "length xs = length ys" and "k < length ys"
  shows "xs ! k = s" "drop (Suc k) xs = drop (Suc k) ys"
  using assms by (metis Cons_nth_drop_Suc length_list_update list.inject nth_list_update_eq,
    metis Cons_nth_drop_Suc drop_update_cancel length_list_update lessI list.inject)

lemma drop_incr_loop: "k \<le> length r \<Longrightarrow> drop k (incr_loop k c r) = drop k r"
proof (induction k arbitrary: c r)
  case (Suc k)
  have "drop (Suc k) (incr_loop k x (r[k := y])) = drop (Suc k) r" for x y
  proof -
    have "drop (Suc k) (incr_loop k x (r[k := y])) = drop 1 (drop k (incr_loop k x (r[k := y])))" by simp
    also have "\<dots> = drop 1 (drop k (r[k := y]))" using Suc by simp
    finally show ?thesis by simp
  qed
  then show ?case by (simp add: Let_def)
qed simp

lemma incr_loop_val:
  assumes "k \<le> length r" and "unat c \<le> 1" and "be_val (take k r) + unat c < 256 ^ k"
  shows "length (incr_loop k c r) = length r \<and> be_val (take k (incr_loop k c r)) = be_val (take k r) + unat c"
  using assms
proof (induction k arbitrary: c r)
  case (Suc k)
  define s where "s = r ! k + c"
  define ov :: u8 where "ov = (if unat (r ! k) + unat c > 255 then 1 else 0)"
  have ov: "unat s + 256 * unat ov = unat (r ! k) + unat c"
    using byte_add [OF Suc.prems(2), of "r ! k" 0] by (simp add: s_def ov_def split: if_splits)
  have rk: "take (Suc k) r = take k r @ [r ! k]" using Suc.prems(1) by (simp add: take_Suc_conv_app_nth)
  have lt: "be_val (take k r) + unat ov < 256 ^ k"
    using Suc.prems(3) ov unat_byte_less [of s] unfolding rk be_val_snoc by simp
  have step: "incr_loop (Suc k) c r = incr_loop k ov (r[k := s])" by (simp add: s_def ov_def)
  have len: "length (incr_loop k ov (r[k := s])) = length r"
    and IH: "be_val (take k (incr_loop k ov (r[k := s]))) = be_val (take k r) + unat ov"
    using Suc.IH [of "r[k := s]" ov] Suc.prems(1) lt by (auto simp: ov_def)
  have "incr_loop k ov (r[k := s]) ! k = s"
    using drop_updateD(1) [OF drop_incr_loop] Suc.prems(1) len by simp
  then have "take (Suc k) (incr_loop k ov (r[k := s])) = take k (incr_loop k ov (r[k := s])) @ [s]"
    using Suc.prems(1) len by (simp add: take_Suc_conv_app_nth)
  then show ?case unfolding step rk be_val_snoc using IH ov len by (simp add: be_val_snoc)
qed simp

text \<open>The first address of a block is even, the last odd, unless the block is a single address.\<close>

lemma block_room:
  assumes "v < 2 ^ w" and "k < w"
  shows "v div 2 ^ (w - k) * 2 ^ (w - k) + (2 ^ (w - k) - 1) < (2::nat) ^ w"
    "1 \<le> (2::nat) ^ (w - k) - 1"
proof -
  have "(2::nat) ^ w = 2 ^ k * 2 ^ (w - k)" using assms(2) by (simp flip: power_add)
  then have "v div 2 ^ (w - k) < 2 ^ k" using assms(1) by (simp add: less_mult_imp_div_less)
  then have "(v div 2 ^ (w - k) + 1) * 2 ^ (w - k) \<le> 2 ^ k * 2 ^ (w - k)" by (intro mult_right_mono) auto
  then have "v div 2 ^ (w - k) * 2 ^ (w - k) + 2 ^ (w - k) \<le> 2 ^ w"
    using \<open>(2::nat) ^ w = _\<close> by (simp add: distrib_right)
  moreover have "0 < (2::nat) ^ (w - k)" by simp
  ultimately show "v div 2 ^ (w - k) * 2 ^ (w - k) + (2 ^ (w - k) - 1) < (2::nat) ^ w" by linarith
  have "(2::nat) ^ 1 \<le> 2 ^ (w - k)" using assms(2) by (intro power_increasing) auto
  then show "1 \<le> (2::nat) ^ (w - k) - 1" by simp
qed

lemma minhost_val:
  assumes "wf_ip f c"
  defines "K \<equiv> AF_BITS f - nat (ip_bits c)"
  shows "\<exists>d. minhost_of t c = Some d \<and> wf_ip f d \<and> ip_bits d = int (AF_BITS f)
    \<and> ip_val d = ip_val c div 2 ^ K * 2 ^ K + (if ip_bits c < int (AF_BITS f) then 1 else 0)"
proof -
  obtain bs where bs: "length bs = AF_BYTES f" "uc_apply_mask t c (ip_bits c) False = Some (put_bytes bs c)"
    "be_val bs = ip_val c div 2 ^ K * 2 ^ K"
    using uc_apply_mask_val [of c "ip_bits c" t False] assms by (auto simp: wf_ip_def)
  let ?d = "put_bytes bs c"
  have wfd: "wf_ip f ?d" and vd: "ip_val ?d = be_val bs"
    using bs(1) assms by (simp_all add: wf_ip_def ip_val_put_bytes)
  show ?thesis
  proof (cases "ip_bits c < int (AF_BITS f)")
    case False
    with assms bs wfd vd show ?thesis by (auto simp: minhost_of_def wf_ip_def)
  next
    case True
    then have "nat (ip_bits c) < AF_BITS f" using assms by (simp add: wf_ip_def nat_less_iff)
    from block_room [OF ip_val_less [OF assms(1)] this]
    have room: "be_val bs + 1 < 2 ^ AF_BITS f" unfolding bs(3) K_def by linarith
    show ?thesis
    proof (cases "f = AF_INET")
      case v4: True
      let ?w = "word32 (take 4 (ip_u8 ?d))"
      have "unat ?w = be_val bs" using word32_wf [of ?d] wfd vd v4 by simp
      then have "unat (?w + 1) = be_val bs + 1" using room v4 by (simp add: unat_word_ariths)
      moreover have "htonl (tgt_endian t) (ip_v4 t ?d) = ?w" using htonl_ip_v4 [of f ?d t] wfd v4 by simp
      ultimately show ?thesis using True v4 bs wfd assms
        by (simp add: minhost_of_def set_v4_htonl wf_ip_def ip_val_def put_bytes_def be_val_bytes32)
    next
      case False
      have "take (AF_BYTES f) (ip_u8 ?d) = bs" using bs(1) by (simp add: put_bytes_def)
      moreover have "length (ip_u8 ?d) = 16" using wfd by (rule wf_ip_D)
      ultimately have "length (incr_loop (AF_BYTES f) 1 (ip_u8 ?d)) = 16"
        "be_val (take (AF_BYTES f) (incr_loop (AF_BYTES f) 1 (ip_u8 ?d))) = be_val bs + 1"
        using incr_loop_val [of "AF_BYTES f" "ip_u8 ?d" 1] room
        by (simp_all add: AF_BITS_BYTES two_pow_8)
      with True False bs assms show ?thesis
        by (simp add: minhost_of_def wf_ip_def ip_val_def)
    qed
  qed
qed

lemma maxhost_val:
  assumes "wf_ip f c"
  defines "K \<equiv> AF_BITS f - nat (ip_bits c)"
  shows "\<exists>d. maxhost_of t c = Some d \<and> wf_ip f d \<and> ip_bits d = int (AF_BITS f)
    \<and> ip_val d = ip_val c div 2 ^ K * 2 ^ K + (2 ^ K - 1)
        - (if f = AF_INET \<and> ip_bits c < int (AF_BITS f) then 1 else 0)"
proof -
  obtain bs where bs: "length bs = AF_BYTES f" "uc_apply_mask t c (ip_bits c) True = Some (put_bytes bs c)"
    "be_val bs = ip_val c div 2 ^ K * 2 ^ K + (2 ^ K - 1)"
    using uc_apply_mask_val [of c "ip_bits c" t True] assms by (auto simp: wf_ip_def)
  let ?d = "put_bytes bs c"
  have wfd: "wf_ip f ?d" and vd: "ip_val ?d = be_val bs"
    using bs(1) assms by (simp_all add: wf_ip_def ip_val_put_bytes)
  show ?thesis
  proof (cases "f = AF_INET \<and> ip_bits c < int (AF_BITS f)")
    case False
    have fam: "ip_family c = f" using assms(1) by (rule wf_ip_D)
    then have "maxhost_of t c = Some (?d\<lparr>ip_bits := int (AF_BITS f)\<rparr>)"
      using False by (auto simp: maxhost_of_def bs(2) Let_def)
    moreover have "wf_ip f (?d\<lparr>ip_bits := int (AF_BITS f)\<rparr>)" using wfd by (simp add: wf_ip_def)
    moreover have "ip_val (?d\<lparr>ip_bits := int (AF_BITS f)\<rparr>) = be_val bs" using vd by (simp add: ip_val_def)
    ultimately show ?thesis using False bs(3) by auto
  next
    case True
    then have "ip_bits c < int (AF_BITS f)" by (rule conjunct2)
    then have "nat (ip_bits c) < AF_BITS f" using assms(1) by (simp add: wf_ip_def nat_less_iff)
    from block_room(2) [OF ip_val_less [OF assms(1)] this]
    have room: "1 \<le> be_val bs" unfolding bs(3) K_def by linarith
    let ?w = "word32 (take 4 (ip_u8 ?d))"
    have w: "unat ?w = be_val bs" using word32_wf [of ?d] wfd vd True by simp
    then have "unat (?w - 1) = be_val bs - 1" using room by (subst unat_sub) (simp_all add: word_le_nat_alt)
    moreover have "htonl (tgt_endian t) (ip_v4 t ?d) = ?w" using htonl_ip_v4 [of f ?d t] wfd True by simp
    moreover have "ip_bits c < 32" using True by auto
    ultimately show ?thesis using True bs wfd assms
      by (simp add: maxhost_of_def set_v4_htonl wf_ip_def ip_val_def put_bytes_def be_val_bytes32)
  qed
qed

section \<open>Text\<close>

lemma scan_octet_rest: "scan_octet s = Some (v, r) \<Longrightarrow> set r \<subseteq> set s"
  by (auto simp: scan_octet_def Let_def split: if_splits dest: in_set_dropD)

lemma pton4_needs_dot:
  assumes "inet_pton4_octets (Suc k) s = Some bs"
  shows "CHR ''.'' \<in> set s"
proof -
  from assms obtain v r where r: "scan_octet s = Some (v, r)" by (cases "scan_octet s") auto
  with assms have "take 1 r = ''.''" by (simp split: if_splits)
  then have "CHR ''.'' \<in> set r" by (cases r) simp_all
  with scan_octet_rest [OF r] show ?thesis by blast
qed

lemma pton4_no_dot: "CHR ''.'' \<notin> set s \<Longrightarrow> inet_pton4 s = None"
  using pton4_needs_dot [of 2 s] by (cases "inet_pton4 s") (auto simp: inet_pton4_def numeral_eq_Suc)

lemma take_1_colon: "CHR '':'' \<notin> set s \<Longrightarrow> take 1 s \<noteq> '':''"
  by (cases s) auto

lemma pton6_no_colon: "CHR '':'' \<notin> set s \<Longrightarrow> inet_pton6 s = None"
proof -
  assume no: "CHR '':'' \<notin> set s"
  have "CHR '':'' \<notin> set (drop n s)" for n using no set_drop_subset [of n s] by blast
  then have "take 1 (drop n s) \<noteq> '':''" for n by (rule take_1_colon)
  then have "pton6_groups [] None s = None"
    using take_1_colon [OF no] by (simp add: pton6_groups.simps [of "[]"] Let_def)
  then show ?thesis using take_1_colon [OF no] by (simp add: inet_pton6_def)
qed

lemma strtoul_rest:
  assumes "strtoul umax b s = (v, e, er)"
  shows "set e \<subseteq> set s"
proof -
  have sign: "set (snd (strip_sign x)) \<subseteq> set x" for x
    by (auto simp: strip_sign_def split: list.splits)
  have base: "set (snd (strip_base b x)) \<subseteq> set x" for x
    by (auto simp: strip_base_def dest: in_set_dropD)
  obtain neg s1 where 1: "strip_sign (dropWhile isspace s) = (neg, s1)" by fastforce
  obtain b' s2 where 2: "strip_base b s1 = (b', s2)" by fastforce
  have "set s2 \<subseteq> set s"
    using sign [of "dropWhile isspace s"] base [of s1] set_dropWhileD [of _ isspace s] 1 2 by auto
  moreover have "e = s \<or> (\<exists>k. e = drop k s2)"
    using assms 1 2 by (auto simp: strtoul_def Let_def split: if_splits)
  ultimately show ?thesis by (auto dest: in_set_dropD)
qed

lemma parse_mac_decimal: "parse_mac t (show_nat n) = None"
proof -
  obtain v e er where e: "strtoul (tgt_ulong_max t) 16 (show_nat n) = (v, e, er)"
    by (cases "strtoul (tgt_ulong_max t) 16 (show_nat n)")
  have "CHR '':'' \<notin> set (show_nat n)" "CHR ''-'' \<notin> set (show_nat n)"
    by (simp_all add: not_in_show_nat isdigit_def)
  with strtoul_rest [OF e] have "chr0 e \<noteq> CHR '':'' \<and> chr0 e \<noteq> CHR ''-''"
    by (cases e) (auto simp: chr0_def)
  then show ?thesis using e by (simp add: parse_mac_def mac_octet_def numeral_eq_Suc)
qed

lemma parse_mask_decimal:
  assumes "n \<le> tgt_ulong_max t"
  shows "parse_mask t f (show_nat n) =
    (let b = to_s16 (int n) in if b > int (AF_BITS f) then None else Some b)"
proof -
  have "inet_pton4 (show_nat n) = None" "inet_pton6 (show_nat n) = None"
    by (rule pton4_no_dot pton6_no_colon, rule not_in_show_nat, simp add: isdigit_def)+
  moreover have "strtoul (tgt_ulong_max t) 10 (show_nat n) = (n, [], False)"
    using strtoul_show_nat [of n "tgt_ulong_max t" "[]"] assms by simp
  ultimately show ?thesis
    using show_nat_nonempty [of n, THEN not_sym] by (auto simp: parse_mask_def parse_mac_decimal Let_def)
qed

section \<open>MAC addresses as text\<close>

lemma upper_digit:
  assumes "d < 16"
  shows "hexval (upper_digit_char d) = Some d" "\<not> isspace (upper_digit_char d)"
    "upper_digit_char d \<notin> set ''-+xX/:.''" "upper_digit_char d \<noteq> CHR 0x00"
proof -
  have "\<forall>d<16. hexval (upper_digit_char d) = Some d \<and> \<not> isspace (upper_digit_char d)
      \<and> upper_digit_char d \<notin> set ''-+xX/:.'' \<and> upper_digit_char d \<noteq> CHR 0x00"
    unfolding all_less_16 by code_simp
  with assms show "hexval (upper_digit_char d) = Some d" "\<not> isspace (upper_digit_char d)"
    "upper_digit_char d \<notin> set ''-+xX/:.''" "upper_digit_char d \<noteq> CHR 0x00" by simp_all
qed

lemma nibbles:
  "unat (b :: u8) div 16 < 16" "unat b mod 16 < 16" "unat b div 16 * 16 + unat b mod 16 = unat b"
  using unat_byte_less [of b] by (auto simp: less_mult_imp_div_less)

lemma hex2_chars: "c \<in> set (hex2 b) \<Longrightarrow> c \<notin> set ''-+xX/:.'' \<and> c \<noteq> CHR 0x00"
  using upper_digit(3,4) [OF nibbles(1)] upper_digit(3,4) [OF nibbles(2)] by (auto simp: hex2_def)

lemma isxdigit_upper: "d < 16 \<Longrightarrow> isxdigit (upper_digit_char d)" "d < 16 \<Longrightarrow> digit_in 16 (upper_digit_char d)"
  by (simp_all add: isxdigit_def digit_in_def upper_digit)

lemma strtoul_hex2:
  assumes "255 \<le> umax" and "rest = [] \<or> hd rest = CHR '':''"
  shows "strtoul umax 16 (hex2 b @ rest) = (unat b, rest, False)"
proof -
  let ?h = "upper_digit_char (unat b div 16)" and ?l = "upper_digit_char (unat b mod 16)"
  note h = upper_digit [OF nibbles(1) [of b]] and l = upper_digit [OF nibbles(2) [of b]]
  have s: "hex2 b @ rest = ?h # ?l # rest" by (simp add: hex2_def)
  have "strip_base 16 (?h # ?l # rest) = (16, ?h # ?l # rest)"
    using l(3) by (auto simp: strip_base_def hex_prefixed_def split: list.splits)
  moreover have "strip_sign (?h # ?l # rest) = (False, ?h # ?l # rest)"
    using h(3) by (simp add: strip_sign_def)
  moreover have "digit_in 16 ?h" "digit_in 16 ?l" using isxdigit_upper(2) nibbles by blast+
  moreover have "takeWhile (digit_in 16) rest = []"
    using assms(2) by (cases rest) (auto simp: digit_in_def hexval_def)
  moreover have "digits_val 16 [?h, ?l] = unat b"
    using h(1) l(1) nibbles(3) [of b] by (simp add: digits_val_def)
  moreover have "unat b \<le> umax" using assms(1) unat_byte_le [of b] by linarith
  ultimately show ?thesis using h(2) by (simp add: strtoul_def s)
qed

lemma mac_octet_hex2:
  "255 \<le> tgt_ulong_max t \<Longrightarrow> rest = [] \<or> hd rest = CHR '':'' \<Longrightarrow> mac_octet t (hex2 b @ rest) = Some (b, rest)"
  by (simp add: mac_octet_def strtoul_hex2 not_less)

lemma length_6_conv: "length xs = 6 \<longleftrightarrow> (\<exists>a b c d e f. xs = [a, b, c, d, e, f])"
  by (auto simp: numeral_eq_Suc length_Suc_conv)

lemma parse_mac_show:
  assumes "255 \<le> tgt_ulong_max t" and "length bs = 6"
  shows "parse_mac t (show_mac bs) = Some bs"
proof -
  obtain a b c d e f where bs: "bs = [a, b, c, d, e, f]" using assms(2) by (auto simp: length_6_conv)
  note m = mac_octet_hex2 [OF assms(1)]
  have rest: "parse_mac_rest t (Suc k) sep (CHR '':'' # hex2 x @ r)
      = map_option ((#) x) (parse_mac_rest t k (CHR '':'') r)"
    if "sep = CHR 0x00 \<or> sep = CHR '':''" "r = [] \<or> hd r = CHR '':''" for k sep x r
    using that m [of r x] by (auto simp: chr0_def)
  have last: "mac_octet t (hex2 f) = Some (f, [])" using m [of "[]" f] by simp
  show ?thesis
    using rest [of _ "[]" _ f]
    by (simp add: parse_mac_def show_mac_def bs m numeral_eq_Suc rest chr0_def del: parse_mac_rest.simps(2))
qed

lemma pton6_step:
  assumes "length ip < 6"
  shows "pton6_groups ip None (hex2 x @ CHR '':'' # r) = pton6_groups (ip @ [unat x]) None r"
    "pton6_groups ip None (hex2 x) = None"
proof -
  let ?h = "upper_digit_char (unat x div 16)" and ?l = "upper_digit_char (unat x mod 16)"
  note h = upper_digit [OF nibbles(1) [of x]] and l = upper_digit [OF nibbles(2) [of x]]
  have xd: "isxdigit ?h" "isxdigit ?l" "\<not> isxdigit (CHR '':'')"
    using isxdigit_upper(1) nibbles by (simp_all add: isxdigit_def [of "CHR '':''"] hexval_def)
  have v: "digits_val 16 [?h, ?l] = unat x"
    using h(1) l(1) nibbles(3) [of x] by (simp add: digits_val_def)
  have colon: "?h \<noteq> CHR '':''" using h(3) by simp
  show "pton6_groups ip None (hex2 x @ CHR '':'' # r) = pton6_groups (ip @ [unat x]) None r"
    using colon v assms unfolding hex2_def append.simps
    by (subst pton6_groups.simps) (simp add: Let_def xd)
  show "pton6_groups ip None (hex2 x) = None"
    using colon v assms unfolding hex2_def
    by (subst pton6_groups.simps) (simp add: Let_def xd)
qed

lemma pton6_mac: "length bs = 6 \<Longrightarrow> inet_pton6 (show_mac bs) = None"
proof -
  assume "length bs = 6"
  then obtain a b c d e f where bs: "bs = [a, b, c, d, e, f]" by (auto simp: length_6_conv)
  have "hd (hex2 a) \<noteq> CHR '':''" using hex2_chars [of "hd (hex2 a)" a] by (auto simp: hex2_def)
  then have "take 1 (show_mac bs) \<noteq> '':''" by (simp add: show_mac_def bs hex2_def)
  then show ?thesis by (simp add: inet_pton6_def show_mac_def bs pton6_step)
qed

section \<open>Printing and reading an address\<close>

lemma takeWhile_no_slash: "CHR ''/'' \<notin> set h \<Longrightarrow> takeWhile (\<lambda>c. c \<noteq> CHR ''/'') (h @ r)
    = h @ takeWhile (\<lambda>c. c \<noteq> CHR ''/'') r"
  by (induction h) auto

lemma show_mac_chars: "c \<in> set (show_mac bs) \<Longrightarrow> c \<notin> set ''/.'' \<and> c \<noteq> CHR 0x00"
proof -
  have "c \<in> set (join_colon (map hex2 xs)) \<Longrightarrow> c = CHR '':'' \<or> (\<exists>b. c \<in> set (hex2 b))" for xs
  proof (induction xs rule: induct_list012)
    case (3 x y zs)
    then show ?case by auto
  qed auto
  then show "c \<in> set (show_mac bs) \<Longrightarrow> ?thesis"
    using hex2_chars [of c] unfolding show_mac_def by fastforce
qed

lemma length_show_mac: "length bs = 6 \<Longrightarrow> length (show_mac bs) = 17"
  by (auto simp: length_6_conv show_mac_def hex2_def)

definition host_text :: "cidr_t \<Rightarrow> string" where
  "host_text c = (if ip_family c = AF_PACKET then show_mac (take 6 (ip_u8 c)) else inet_ntop4 (take 4 (ip_u8 c)))"

lemma host_text_chars:
  "ip_family c \<in> {AF_INET, AF_PACKET} \<Longrightarrow> x \<in> set (host_text c) \<Longrightarrow> x \<noteq> CHR ''/'' \<and> x \<noteq> CHR 0x00"
  using show_mac_chars [of x] show_nat_digits [of x]
  by (auto simp: host_text_def inet_ntop4_def digit_in_10 isdigit_def split: if_splits)

lemma length_host_text:
  "wf_ip f c \<Longrightarrow> length (host_text c) \<le> 17"
  using length_ntop4 [of "take 4 (ip_u8 c)"] length_show_mac [of "take 6 (ip_u8 c)"]
  by (auto simp: host_text_def wf_ip_D)

lemma parse_cidr_text:
  assumes "wf_ip f c" and f: "f \<in> {AF_INET, AF_PACKET}" and "drop (AF_BYTES f) (ip_u8 c) = replicate (16 - AF_BYTES f) 0"
    and "255 \<le> tgt_ulong_max t"
  shows "cidr_text c = LStr (host_text c @ show_prefix c)"
    "parse_cidr t (host_text c @ show_prefix c) zero_cidr = Some (Some c)"
proof -
  have fam: "ip_family c = f" and len: "length (ip_u8 c) = 16" using assms(1) by (simp_all add: wf_ip_D)
  show "cidr_text c = LStr (host_text c @ show_prefix c)"
    using f fam by (auto simp: cidr_text_def host_text_def show_mac_def)
  let ?h = "host_text c" and ?n = "show_nat (nat (ip_bits c))"
  have noslash: "CHR ''/'' \<notin> set ?h" using host_text_chars [of c] f fam by auto
  have sp: "show_prefix c = (if ip_bits c < int (AF_BITS f) then ''/'' @ ?n else [])"
    using assms(1) by (simp add: show_prefix_def show_int_def wf_ip_def)
  have tw: "takeWhile (\<lambda>c. c \<noteq> CHR ''/'') (?h @ show_prefix c) = ?h"
    by (simp add: takeWhile_no_slash noslash sp)
  have b128: "AF_BITS f \<le> 128" by (cases f) auto
  then have "nat (ip_bits c) < 10 ^ Suc 2" using wf_ip_D(3) [OF assms(1)] by simp
  then have "length ?n \<le> 3" using length_show_base [of 10 "nat (ip_bits c)" 2] by (simp add: show_nat_def)
  then have short: "length (?h @ show_prefix c) < 93"
    using length_host_text [OF assms(1)] by (simp add: sp)
  have z: "put_bytes (take (AF_BYTES f) (ip_u8 c)) zero_cidr = \<lparr>ip_u8 = ip_u8 c, ip_family = AF_UNSPEC, ip_bits = 0\<rparr>"
  proof -
    have "drop (AF_BYTES f) (replicate 16 0) = drop (AF_BYTES f) (ip_u8 c)" using assms(3) by simp
    then show ?thesis using len by (simp add: put_bytes_def zero_cidr_def min_absorb2)
  qed
  have mask: "parse_mask t f ?n = Some (ip_bits c)"
  proof -
    have "nat (ip_bits c) \<le> tgt_ulong_max t" using wf_ip_D(3) [OF assms(1)] b128 assms(4) by linarith
    from parse_mask_decimal [OF this, of f] show ?thesis
      using assms(1) b128 by (simp add: wf_ip_def to_s16_def Let_def)
  qed
  have found: "(case inet_pton4 ?h of
                Some bs \<Rightarrow> Some (put_bytes bs zero_cidr\<lparr>ip_family := AF_INET\<rparr>)
              | None \<Rightarrow> (case inet_pton6 ?h of
                  Some bs \<Rightarrow> Some (put_bytes bs zero_cidr\<lparr>ip_family := AF_INET6\<rparr>)
                | None \<Rightarrow> (case parse_mac t ?h of
                    Some bs \<Rightarrow> Some (put_bytes bs zero_cidr\<lparr>ip_family := AF_PACKET\<rparr>)
                  | None \<Rightarrow> None))) = Some (\<lparr>ip_u8 = ip_u8 c, ip_family = f, ip_bits = 0\<rparr>)"
  proof (cases "f = AF_INET")
    case True
    then have "?h = inet_ntop4 (take 4 (ip_u8 c))" using fam by (simp add: host_text_def)
    with True z inet_pton4_ntop4 [of "take 4 (ip_u8 c)"] len show ?thesis by simp
  next
    case False
    then have f: "f = AF_PACKET" using f by simp
    then have h: "?h = show_mac (take 6 (ip_u8 c))" using fam by (simp add: host_text_def)
    have "inet_pton4 ?h = None"
      using show_mac_chars [of "CHR ''.''" "take 6 (ip_u8 c)"] unfolding h by (intro pton4_no_dot) auto
    moreover have "inet_pton6 ?h = None" unfolding h using len by (intro pton6_mac) simp
    moreover have "parse_mac t ?h = Some (take 6 (ip_u8 c))"
      unfolding h using len by (intro parse_mac_show assms(4)) simp
    ultimately show ?thesis using f z by simp
  qed
  have c: "c = \<lparr>ip_u8 = ip_u8 c, ip_family = f, ip_bits = ip_bits c\<rparr>" using fam by simp
  show "parse_cidr t (?h @ show_prefix c) zero_cidr = Some (Some c)"
    unfolding parse_cidr_def Let_def tw found using short mask c assms(1)
    by (auto simp: sp wf_ip_def)
qed

lemma cstr_id: "(\<And>x. x \<in> set s \<Longrightarrow> x \<noteq> CHR 0x00) \<Longrightarrow> cstr s = s"
  by (simp add: cstr_def takeWhile_eq_all_conv)

lemma cidr_tostring_run:
  "lcall (cidr_tostring t) j [c] [LObj 0] = Some (Inr ([cidr_text c], [c]))"
  by (simp add: cidr_tostring_def lua_run format_cidr_def lpush_def)
     (simp add: lstart_def results_def)

lemma cidr_new_run:
  "parse_cidr t (cstr s) zero_cidr = Some (Some c) \<Longrightarrow> to_s16 (ip_bits c) = ip_bits c \<Longrightarrow>
    new_obj (lcall (cidr_new t) j [] [LStr s]) = Some c"
  by (simp add: cidr_new_def new_method_def uc_cidr_new_def lcall_def lbind_def larg_def L_checkbits_def
      lret_def lnew_def Let_def lstart_def results_def new_obj_def)

section \<open>Link-local addresses of MAC addresses\<close>

lemma lnew_start:
  "lnew f (lstart j objs args) = Some (Inr (length objs,
     lstart j (objs @ [f (j (length objs))]) (args @ [LObj (length objs)])))"
  by (simp add: lnew_def lstart_def Let_def)

lemma byte_xor_2: "(x XOR 2) XOR 2 = (x :: u8)"
  by (simp add: xor.assoc)

text \<open>The six bytes between the prefix and the interface identifier.\<close>

definition gap :: "cidr_t \<Rightarrow> bytes" where
  "gap c = take 6 (drop 2 (ip_u8 c))"

definition linklocal_of :: "cidr_t \<Rightarrow> cidr_t \<Rightarrow> cidr_t" where
  "linklocal_of p j = (let u = ip_u8 p; b = ip_u8 j in
         \<lparr>ip_u8 = [0xFE, 0x80, b ! 2, b ! 3, b ! 4, b ! 5, b ! 6, b ! 7,
            u ! 0 XOR 2, u ! 1, u ! 2, 0xFF, 0xFE, u ! 3, u ! 4, u ! 5],
          ip_family = AF_INET6, ip_bits = 128\<rparr>)"

lemma tolinklocal_new:
  "ip_family c = AF_PACKET \<Longrightarrow>
    new_obj (lcall (cidr_tolinklocal t) j [c] [LObj 0]) = Some (linklocal_of c (j 1))"
  by (simp add: cidr_tolinklocal_def linklocal_of_def lua_run lnew_start new_obj_def)

lemma tomac_new:
  "map_option (\<lambda>m. take 6 (ip_u8 m)) (new_obj (lcall (cidr_tomac t) j [c] [LObj 0])) =
    (if is_eui64_linklocal c
     then Some [ip_u8 c ! 8 XOR 2, ip_u8 c ! 9, ip_u8 c ! 10, ip_u8 c ! 13, ip_u8 c ! 14, ip_u8 c ! 15]
     else None)"
  by (simp add: cidr_tomac_def lua_run lnew_start new_obj_def put_bytes_def)
     (simp add: results_def lstart_def Let_def numeral_eq_Suc)

lemma length_ge_8_take: "length xs = 16 \<Longrightarrow> take 6 (drop 2 xs) = [xs ! 2, xs ! 3, xs ! 4, xs ! 5, xs ! 6, xs ! 7]"
  by (auto simp: numeral_eq_Suc length_Suc_conv)

lemma is_eui64_linklocal_of:
  assumes "length (ip_u8 j) = 16"
  shows "is_eui64_linklocal (linklocal_of c j) \<longleftrightarrow> gap j = replicate 6 0"
  using length_ge_8_take [OF assms]
  by (simp add: is_eui64_linklocal_def linklocal_of_def gap_def Let_def numeral_eq_Suc)

section \<open>Properties\<close>

definition ex_v4 :: "int \<Rightarrow> cidr_t" where
  "ex_v4 n = \<lparr>ip_u8 = [192, 168, 1, 77] @ replicate 12 0, ip_family = AF_INET, ip_bits = n\<rparr>"

definition ex_v6 :: "int \<Rightarrow> cidr_t" where
  "ex_v6 n = \<lparr>ip_u8 = [0xFD, 0x9B, 0x62, 0xB3, 0x9C, 0xC5] @ replicate 9 0 @ [0x77], ip_family = AF_INET6, ip_bits = n\<rparr>"

definition ex_one6 :: cidr_t where
  "ex_one6 = \<lparr>ip_u8 = replicate 15 0 @ [1], ip_family = AF_INET6, ip_bits = 128\<rparr>"

definition ex_mac :: "int \<Rightarrow> cidr_t" where
  "ex_mac n = \<lparr>ip_u8 = [0xC0, 0xB6, 0xF9, 1, 2, 3] @ replicate 10 0, ip_family = AF_PACKET, ip_bits = n\<rparr>"

definition ex_target :: "endian \<Rightarrow> target" where
  "ex_target e = \<lparr>tgt_endian = e, tgt_ulong_max = 0xFFFFFFFF\<rparr>"

definition junk0 :: "nat \<Rightarrow> cidr_t" where
  "junk0 h = zero_cidr"

lemma ex_wf:
  "0 \<le> n \<Longrightarrow> n \<le> 32 \<Longrightarrow> wf_ip AF_INET (ex_v4 n)"
  "0 \<le> n \<Longrightarrow> n \<le> 128 \<Longrightarrow> wf_ip AF_INET6 (ex_v6 n)"
  "0 \<le> n \<Longrightarrow> n \<le> 48 \<Longrightarrow> wf_ip AF_PACKET (ex_mac n)"
  by (simp_all add: wf_ip_def ex_v4_def ex_v6_def ex_mac_def)

lemma ex_vals:
  "ip_val (ex_v4 n) = 0xC0A8014D" "ip_val (ex_mac n) = 0xC0B6F9010203"
  "ip_bits (ex_v4 n) = n" "ip_bits (ex_v6 n) = n" "ip_bits (ex_mac n) = n"
  by (simp_all add: ip_val_def ex_v4_def ex_v6_def ex_mac_def)

text \<open>C24: \<open>add\<close> returns a new object that holds the sum of the two addresses and
  the prefix length of the first, and the last address of the family where the sum does not fit.\<close>

theorem luci_add_saturates:
  assumes "wf_ip f a" and "wf_ip f b"
  shows "\<exists>r. new_obj (lcall (cidr_add t) j [a, b] [LObj 0, LObj 1]) = Some r \<and> wf_ip f r
    \<and> ip_bits r = ip_bits a \<and> ip_val r = min (ip_val a + ip_val b) (2 ^ AF_BITS f - 1)"
  using add_at_val [OF assms, of t] by (auto simp: cidr_add_def cidr_add_sub_new [simplified])

theorem luci_add_saturates_witness:
  "\<exists>r. new_obj (lcall (cidr_add (ex_target Big)) junk0 [ex_mac 24, ex_mac 48] [LObj 0, LObj 1]) = Some r
    \<and> ip_val r = 0xFFFFFFFFFFFF"
  using luci_add_saturates [OF ex_wf(3) ex_wf(3), of 24 48 "ex_target Big" junk0] by (auto simp: ex_vals)

text \<open>An in-place \<open>add\<close> that answers true is undone by \<open>sub\<close>, for all three
  families of addresses.\<close>

theorem luci_sub_undoes_add:
  assumes "wf_ip f a" and "wf_ip f b"
    and "changed (lcall (cidr_add t) j [a, b] [LObj 0, LObj 1, LBool True]) = Some c"
  shows "\<exists>d. changed (lcall (cidr_sub t) j [c, b] [LObj 0, LObj 1, LBool True]) = Some d
    \<and> wf_ip f d \<and> ip_val d = ip_val a"
  using lip.sub_after_add [OF assms(3,1,2)] .

theorem luci_sub_undoes_add_witness:
  "\<exists>c d. changed (lcall (cidr_add (ex_target Little)) junk0 [ex_v6 64, ex_one6] [LObj 0, LObj 1, LBool True]) = Some c
    \<and> changed (lcall (cidr_sub (ex_target Little)) junk0 [c, ex_one6] [LObj 0, LObj 1, LBool True]) = Some d
    \<and> ip_val d = ip_val (ex_v6 64)"
proof -
  have "wf_ip AF_INET6 (ex_v6 64)" "wf_ip AF_INET6 ex_one6" by (simp_all add: ex_v6_def wf_ip_def ex_one6_def)
  moreover have "changed (lcall (cidr_add (ex_target Little)) junk0 [ex_v6 64, ex_one6] [LObj 0, LObj 1, LBool True])
    = Some \<lparr>ip_u8 = [0xFD, 0x9B, 0x62, 0xB3, 0x9C, 0xC5] @ replicate 9 0 @ [0x78], ip_family = AF_INET6, ip_bits = 64\<rparr>"
    by code_simp
  ultimately show ?thesis using luci_sub_undoes_add by blast
qed

text \<open>C14: \<open>contains\<close> answers whether the second block is part of the first, for every
  prefix length from 0 on.\<close>

theorem luci_contains_is_inclusion:
  assumes "wf_ip f a" and "wf_ip f b"
  shows "bool_result (lcall (cidr_contains t) j [a, b] [LObj 0, LObj 1]) =
    Some (block_of (AF_BITS f) (nat (ip_bits b)) (ip_val b) \<subseteq> block_of (AF_BITS f) (nat (ip_bits a)) (ip_val a))"
  using lip.contains_iff_subset [OF assms] by blast

theorem luci_contains_is_inclusion_witness:
  "bool_result (lcall (cidr_contains (ex_target Big)) junk0 [ex_v6 0, ex_v6 64] [LObj 0, LObj 1]) = Some True"
  using luci_contains_is_inclusion [OF ex_wf(2) ex_wf(2), of 0 64 "ex_target Big" junk0]
  by (simp add: ex_vals block_of_subset_iff) (use ip_val_less [OF ex_wf(2), of 0] ip_val_less [OF ex_wf(2), of 64] in simp)

text \<open>\<open>network\<close> returns the first address of the block; \<open>minhost\<close> is the address
  after it and \<open>maxhost\<close> the last of the block, for IPv4 the one before the last (the
  broadcast address); a block of one address is its own first and last host.\<close>

theorem luci_network_and_hosts:
  assumes "wf_ip f c"
  defines "n \<equiv> (2::nat) ^ (AF_BITS f - nat (ip_bits c))"
  shows "\<exists>net lo hi. new_obj (lcall (cidr_network t) j [c] [LObj 0]) = Some net
    \<and> new_obj (lcall (cidr_minhost t) j [c] [LObj 0]) = Some lo
    \<and> new_obj (lcall (cidr_maxhost t) j [c] [LObj 0]) = Some hi
    \<and> block_of (AF_BITS f) (nat (ip_bits c)) (ip_val c) = {ip_val net ..< ip_val net + n}
    \<and> ip_val lo = ip_val net + (if n = 1 then 0 else 1)
    \<and> ip_val hi = ip_val net + (n - 1) - (if f = AF_INET \<and> n \<noteq> 1 then 1 else 0)"
proof -
  have one: "n = 1 \<longleftrightarrow> \<not> ip_bits c < int (AF_BITS f)"
    using assms by (auto simp: wf_ip_def n_def)
  obtain lo where lo: "minhost_of t c = Some lo" "ip_val lo = ip_val c div n * n + (if n = 1 then 0 else 1)"
    using minhost_val [OF assms(1), of t] unfolding n_def [symmetric] one by auto
  obtain hi where hi: "maxhost_of t c = Some hi"
    "ip_val hi = ip_val c div n * n + (n - 1) - (if f = AF_INET \<and> n \<noteq> 1 then 1 else 0)"
    using maxhost_val [OF assms(1), of t] unfolding n_def [symmetric] one by auto
  have "new_obj (lcall (cidr_minhost t) j [c] [LObj 0]) = Some lo"
    "new_obj (lcall (cidr_maxhost t) j [c] [LObj 0]) = Some hi"
    using lo hi by (simp_all add: cidr_minhost_def cidr_maxhost_def lua_run new_obj_def)
  with network_at [OF assms(1), of t j] lo(2) hi(2) show ?thesis
    unfolding block_of_interval n_def [symmetric] by auto
qed

theorem luci_network_and_hosts_witness:
  "\<exists>lo hi. new_obj (lcall (cidr_minhost (ex_target Big)) junk0 [ex_v4 24] [LObj 0]) = Some lo
    \<and> new_obj (lcall (cidr_maxhost (ex_target Big)) junk0 [ex_v4 24] [LObj 0]) = Some hi
    \<and> ip_val hi = ip_val lo + 253"
  using luci_network_and_hosts [OF ex_wf(1), of 24 "ex_target Big" junk0] by (auto simp: ex_vals)

text \<open>The IPv4 network of 31 bits has two addresses, but the first host the library gives
  for it is greater than the last.\<close>

theorem luci_hosts_of_31:
  "\<exists>lo hi. new_obj (lcall (cidr_minhost (ex_target Big)) junk0 [ex_v4 31] [LObj 0]) = Some lo
    \<and> new_obj (lcall (cidr_maxhost (ex_target Big)) junk0 [ex_v4 31] [LObj 0]) = Some hi
    \<and> ip_val hi + 1 = ip_val lo"
proof -
  have "new_obj (lcall (cidr_minhost (ex_target Big)) junk0 [ex_v4 31] [LObj 0])
      = Some \<lparr>ip_u8 = [192, 168, 1, 77] @ replicate 12 0, ip_family = AF_INET, ip_bits = 32\<rparr>"
    by code_simp
  moreover have "new_obj (lcall (cidr_maxhost (ex_target Big)) junk0 [ex_v4 31] [LObj 0])
      = Some \<lparr>ip_u8 = [192, 168, 1, 76] @ replicate 12 0, ip_family = AF_INET, ip_bits = 32\<rparr>"
    by code_simp
  ultimately show ?thesis by (simp add: ip_val_def)
qed

text \<open>The comparison methods order objects by family, then by address.\<close>

theorem luci_comparisons:
  assumes "wf_ip f a" and "wf_ip g b"
  shows "bool_result (lcall (cidr_lower t) j [a, b] [LObj 0, LObj 1]) = Some (ip_less a b)
    \<and> bool_result (lcall (cidr_lower_equal t) j [a, b] [LObj 0, LObj 1]) = Some (ip_less a b \<or> ip_same a b)
    \<and> bool_result (lcall (cidr_equal t) j [a, b] [LObj 0, LObj 1]) = Some (ip_same a b)
    \<and> bool_result (lcall (cidr_higher t) j [a, b] [LObj 0, LObj 1]) = Some (ip_less b a)"
proof -
  note ab = cidr_cmp_val [OF wf_ip_D(1) [OF assms(1)] wf_ip_D(1) [OF assms(2)]]
  have higher: "cidr_cmp a b > 0 \<longleftrightarrow> ip_less b a" and le: "cidr_cmp a b \<le> 0 \<longleftrightarrow> ip_less a b \<or> ip_same a b"
    using ab ip_order_total [of a b] ip_order_disjoint [of a b] ip_order_disjoint [of b a]
    by (auto simp: ip_same_def)
  show ?thesis
    by (simp add: cidr_lower_def cidr_lower_equal_def cidr_equal_def cidr_higher_def lua_run
        bool_result_def ab higher le)
qed

theorem luci_comparisons_witness:
  "bool_result (lcall (cidr_lower (ex_target Big)) junk0 [ex_v4 24, ex_v6 64] [LObj 0, LObj 1]) = Some True"
proof -
  have "ip_less (ex_v4 24) (ex_v6 64)" by (simp add: ip_less_def ex_v4_def ex_v6_def less_af_def)
  then show ?thesis
    using luci_comparisons [OF ex_wf(1) ex_wf(2), of 24 64 "ex_target Big" junk0] by simp
qed

text \<open>C29: The text of an IPv4 or MAC object is read back as the same object.\<close>

theorem luci_text_roundtrip:
  assumes "wf_ip f c" and "f \<in> {AF_INET, AF_PACKET}"
    and "drop (AF_BYTES f) (ip_u8 c) = replicate (16 - AF_BYTES f) 0" and "255 \<le> tgt_ulong_max t"
  shows "\<exists>s. lcall (cidr_tostring t) j [c] [LObj 0] = Some (Inr ([LStr s], [c]))
    \<and> new_obj (lcall (cidr_new t) j [] [LStr s]) = Some c"
proof -
  let ?s = "host_text c @ show_prefix c"
  note parse = parse_cidr_text [OF assms]
  have fam: "ip_family c = f" using assms(1) by (rule wf_ip_D)
  have "show_prefix c = (if ip_bits c < int (AF_BITS f) then ''/'' @ show_nat (nat (ip_bits c)) else [])"
    using assms(1) by (simp add: show_prefix_def show_int_def wf_ip_def)
  then have "x \<noteq> CHR 0x00" if "x \<in> set ?s" for x
    using that host_text_chars [of c x] show_nat_digits [of x "nat (ip_bits c)"] assms(2) fam
    by (auto simp: digit_in_10 isdigit_def split: if_splits)
  then have "cstr ?s = ?s" by (rule cstr_id)
  moreover have "to_s16 (ip_bits c) = ip_bits c"
  proof -
    have "AF_BITS f \<le> 128" by (cases f) auto
    then show ?thesis using assms(1) by (simp add: wf_ip_def to_s16_def)
  qed
  ultimately show ?thesis
    using cidr_new_run [of t ?s c j] cidr_tostring_run [of t j c] parse by auto
qed

theorem luci_text_roundtrip_witness:
  "\<exists>s. lcall (cidr_tostring (ex_target Big)) junk0 [ex_mac 24] [LObj 0] = Some (Inr ([LStr s], [ex_mac 24]))
    \<and> new_obj (lcall (cidr_new (ex_target Big)) junk0 [] [LStr s]) = Some (ex_mac 24)"
  by (rule luci_text_roundtrip [of AF_PACKET]) (simp_all add: wf_ip_def ex_target_def ex_mac_def)

text \<open>A mask given as a decimal number is taken modulo \<open>2 ^ 16\<close> before it is checked, so that
  65536 is accepted as the mask of 0 bits and 65535 as one of -1 bits.\<close>

theorem luci_decimal_mask:
  assumes "n \<le> tgt_ulong_max t"
  shows "parse_mask t f (show_nat n) =
    (if (n + 0x8000) mod 0x10000 \<le> 0x8000 + AF_BITS f then Some (int ((n + 0x8000) mod 0x10000) - 0x8000) else None)"
proof -
  have "to_s16 (int n) = int ((n + 0x8000) mod 0x10000) - 0x8000" by (simp add: to_s16_def zmod_int)
  then show ?thesis using parse_mask_decimal [OF assms, of f] by (auto simp: Let_def)
qed

theorem luci_decimal_mask_witness:
  "parse_mask (ex_target Big) AF_INET (show_nat 33) = None
    \<and> parse_mask (ex_target Big) AF_INET (show_nat 65536) = Some 0
    \<and> parse_mask (ex_target Big) AF_INET (show_nat 65535) = Some (- 1)"
  using luci_decimal_mask [of 33 "ex_target Big" AF_INET] luci_decimal_mask [of 65536 "ex_target Big" AF_INET]
    luci_decimal_mask [of 65535 "ex_target Big" AF_INET]
  by (simp add: ex_target_def)

text \<open>\<open>tomac\<close> undoes \<open>tolinklocal\<close> exactly if the memory of the link-local object,
  whose bytes 2 to 7 the code does not write, happened to be zero there; otherwise it returns
  nothing.\<close>

theorem luci_tomac_of_tolinklocal:
  assumes "wf_ip AF_PACKET c" and "length (ip_u8 (j 1)) = 16"
  shows "\<exists>l. new_obj (lcall (cidr_tolinklocal t) j [c] [LObj 0]) = Some l \<and> ip_family l = AF_INET6
    \<and> map_option (\<lambda>m. take 6 (ip_u8 m)) (new_obj (lcall (cidr_tomac t) j' [l] [LObj 0]))
      = (if gap (j 1) = replicate 6 0 then Some (take 6 (ip_u8 c)) else None)"
proof -
  have six: "take 6 (ip_u8 c) = [ip_u8 c ! 0, ip_u8 c ! 1, ip_u8 c ! 2, ip_u8 c ! 3, ip_u8 c ! 4, ip_u8 c ! 5]"
    using wf_ip_D(1) [OF assms(1)] by (auto simp: numeral_eq_Suc length_Suc_conv)
  show ?thesis
    using tolinklocal_new [OF wf_ip_D(2) [OF assms(1)], of t j] is_eui64_linklocal_of [OF assms(2), of c]
    by (auto simp: tomac_new six byte_xor_2) (simp_all add: linklocal_of_def Let_def byte_xor_2)
qed

theorem luci_tomac_of_tolinklocal_witness:
  "\<exists>l m. new_obj (lcall (cidr_tolinklocal (ex_target Big)) junk0 [ex_mac 48] [LObj 0]) = Some l
    \<and> new_obj (lcall (cidr_tomac (ex_target Big)) junk0 [l] [LObj 0]) = Some m
    \<and> take 6 (ip_u8 m) = [0xC0, 0xB6, 0xF9, 1, 2, 3]"
  using luci_tomac_of_tolinklocal [OF ex_wf(3), of 48 junk0 "ex_target Big" junk0]
  by (auto simp: junk0_def zero_cidr_def gap_def ex_mac_def map_option_case split: option.splits)

text \<open>A method called with text in place of an object finds its own converted operand where
  it looks for the optional prefix length: \<open>network("192.168.1.7/24")\<close> is an error.\<close>

theorem luci_text_operand_rejected:
  "lcall (cidr_network (ex_target Big)) junk0 [] [LStr ''192.168.1.7/24'']
    = Some (Inl (Lua_error ''Invalid data type''))"
  by code_simp

text \<open>A number makes the same IPv4 address on every machine, but the bytes of an IPv6 or MAC
  address it makes are reversed on a big-endian one.\<close>

theorem luci_number_byte_order:
  assumes "0 \<le> v" and "v < 2 ^ 32"
  shows "ip_val (cidr_from_number t v AF_INET) = nat v
    \<and> (tgt_endian t = Little \<longrightarrow> ip_val (cidr_from_number t v AF_INET6) = nat v)
    \<and> (tgt_endian t = Big \<longrightarrow> ip_val (cidr_from_number t v AF_INET6)
         = be_val (rev (bytes32 (word_of_int v))))"
proof -
  let ?w = "word_of_int v :: u32"
  have w: "unat ?w = nat v" using assms by (simp add: unat_eq_nat_uint uint_word_of_int)
  let ?low = "\<lambda>n. [ucast n, ucast (drop_bit 8 n), ucast (drop_bit 16 n), ucast (drop_bit 24 n)] :: bytes"
  have low: "?low n = rev (bytes32 n)" for n :: u32 by (simp add: bytes32_def)
  have pad: "be_val (replicate 12 0 @ bs) = be_val bs" for bs
    using be_val_append [of "replicate 12 0" bs] be_val_replicate_0 [of 12] by simp
  have v6: "ip_val (cidr_from_number t v AF_INET6) = be_val (rev (bytes32 (htonl (tgt_endian t) ?w)))"
  proof -
    have "ip_val (cidr_from_number t v AF_INET6) = be_val (replicate 12 0 @ ?low (htonl (tgt_endian t) ?w))"
      by (simp add: cidr_from_number_def Let_def ip_val_def)
    then show ?thesis by (simp only: low pad)
  qed
  have v4: "ip_val (cidr_from_number t v AF_INET) = unat ?w"
    by (simp add: cidr_from_number_def Let_def ip_val_def set_v4_def put_bytes_def zero_cidr_def be_val_bytes32)
  show ?thesis unfolding v4 v6 w [symmetric]
    by (cases "tgt_endian t") (simp_all add: be_val_bytes32)
qed

theorem luci_number_byte_order_witness:
  "ip_val (cidr_from_number (ex_target Little) 10 AF_INET6) = 10
    \<and> ip_val (cidr_from_number (ex_target Big) 10 AF_INET6) = 0x0A000000"
proof -
  have "be_val (rev (bytes32 (word_of_int 10))) = 0x0A000000" by code_simp
  then show ?thesis
    using luci_number_byte_order [of 10 "ex_target Little"] luci_number_byte_order [of 10 "ex_target Big"]
    by (simp add: ex_target_def)
qed

text \<open>\<open>is4rfc1918\<close> answers whether the address is in one of the private networks of RFC 1918.\<close>

theorem luci_is4rfc1918:
  assumes "wf_ip f c"
  shows "bool_result (lcall (cidr_is4rfc1918 t) j [c] [LObj 0]) = Some (f = AF_INET \<and> ip_val c \<in> rfc1918)"
proof (cases "f = AF_INET")
  case True
  then have "htonl (tgt_endian t) (ip_v4 t c) = word32 (take 4 (ip_u8 c))" "unat (word32 (take 4 (ip_u8 c))) = ip_val c"
    using assms htonl_ip_v4 [of f c t] word32_wf [of c] by simp_all
  with True assms show ?thesis
    by (simp add: cidr_is4rfc1918_def lua_run Let_def bool_result_def in_rfc1918_iff wf_ip_D word_le_nat_alt)
next
  case False
  with assms show ?thesis
    by (simp add: cidr_is4rfc1918_def lua_run Let_def bool_result_def wf_ip_D)
qed

theorem luci_is4rfc1918_witness:
  "bool_result (lcall (cidr_is4rfc1918 (ex_target Little)) junk0 [ex_v4 24] [LObj 0]) = Some True"
  using luci_is4rfc1918 [OF ex_wf(1), of 24 "ex_target Little" junk0] by (simp add: ex_vals in_rfc1918_iff)

end
