(* ===== verification/Template_Buffer.thy ===== *)
theory Template_Buffer
  imports Clib
begin

text \<open>
  The output buffer of LuCI's template engine
  (\<open>src/luci/modules/luci-base/src/template_utils.c\<close>, \<open>buf_init\<close> to
  \<open>buf_destroy\<close>) and the contract the other functions of the engine rely on.

  A buffer is the bytes written so far, the number of bytes allocated and the number in use.  A
  NUL follows the bytes in use, so writing \<open>n\<close> bytes needs \<open>n + 1\<close> bytes of room
  behind them; writing without that room is undefined (\<open>None\<close>).  \<open>mem n\<close> says
  whether the allocator grants a block of \<open>n\<close> bytes.
\<close>

section \<open>The buffer\<close>

record template_buffer =
  b_data :: bytes
  b_size :: nat
  b_fill :: nat

type_synonym allocator = "nat \<Rightarrow> bool"

definition buf_init :: "allocator \<Rightarrow> int \<Rightarrow> template_buffer option" where
  "buf_init mem sz =
     (let n = (if sz \<le> 0 then 1024 else nat sz)
      in if mem n then Some \<lparr>b_data = [], b_size = n, b_fill = 0\<rparr> else None)"

text \<open>The new size is the result, 0 if the allocator refuses.\<close>

definition buf_grow :: "allocator \<Rightarrow> int \<Rightarrow> template_buffer \<Rightarrow> nat \<times> template_buffer" where
  "buf_grow mem sz buf =
     (let n = (if sz \<le> 0 then 1024 else nat sz)
      in if mem (b_size buf + n) then (b_size buf + n, buf\<lparr>b_size := b_size buf + n\<rparr>) else (0, buf))"

text \<open>Storing bytes at \<open>dptr\<close>, and the NUL behind them.\<close>

definition buf_store :: "bytes \<Rightarrow> template_buffer \<Rightarrow> template_buffer option" where
  "buf_store bs buf =
     (if b_fill buf + length bs < b_size buf
      then Some (buf\<lparr>b_data := take (b_fill buf) (b_data buf) @ bs, b_fill := b_fill buf + length bs\<rparr>)
      else None)"

definition buf_putchar :: "allocator \<Rightarrow> u8 \<Rightarrow> template_buffer \<Rightarrow> (bool \<times> template_buffer) option" where
  "buf_putchar mem c buf =
     (let (r, buf1) = (if b_fill buf + 1 \<ge> b_size buf then buf_grow mem 0 buf else (1, buf))
      in if r = 0 then Some (False, buf1)
         else map_option (\<lambda>b. (True, b)) (buf_store [c] buf1))"

text \<open>The result is the length, 0 if the allocator refuses.\<close>

definition buf_append :: "allocator \<Rightarrow> bytes \<Rightarrow> template_buffer \<Rightarrow> (nat \<times> template_buffer) option" where
  "buf_append mem s buf =
     (let (r, buf1) = (if b_fill buf + length s + 1 \<ge> b_size buf
                       then buf_grow mem (int (length s) + 1) buf else (1, buf))
      in if r = 0 then Some (0, buf1)
         else map_option (\<lambda>b. (length s, b)) (buf_store s buf1))"

definition buf_length :: "template_buffer \<Rightarrow> nat" where
  "buf_length buf = b_fill buf"

definition buf_destroy :: "template_buffer \<Rightarrow> bytes" where
  "buf_destroy buf = b_data buf"

section \<open>The contract of an output buffer\<close>

text \<open>
  \<open>inv\<close> holds of every buffer in use and \<open>content\<close> is what was written to it.  A write
  never leaves the block; where the allocator grants every block it adds its bytes.
\<close>

locale out_buffer =
  fixes inv :: "'b \<Rightarrow> bool"
    and content :: "'b \<Rightarrow> bytes"
    and put :: "allocator \<Rightarrow> u8 \<Rightarrow> 'b \<Rightarrow> (bool \<times> 'b) option"
    and app :: "allocator \<Rightarrow> bytes \<Rightarrow> 'b \<Rightarrow> (nat \<times> 'b) option"
  assumes put_defined: "inv b \<Longrightarrow> \<exists>ok b'. put mem c b = Some (ok, b') \<and> inv b'
      \<and> content b' = content b @ (if ok then [c] else [])"
    and app_defined: "inv b \<Longrightarrow> \<exists>n b'. app mem s b = Some (n, b') \<and> inv b'
      \<and> (content b' = content b @ s \<and> n = length s \<or> content b' = content b \<and> n = 0)"
    and put_granted: "inv b \<Longrightarrow> \<forall>n. mem n \<Longrightarrow> \<exists>b'. put mem c b = Some (True, b')"
    and app_granted: "inv b \<Longrightarrow> \<forall>n. mem n \<Longrightarrow>
      \<exists>b'. app mem s b = Some (length s, b') \<and> content b' = content b @ s"
begin

lemma put_ok:
  assumes "inv b" and "\<forall>n. mem n"
  obtains b' where "put mem c b = Some (True, b')" "inv b'" "content b' = content b @ [c]"
  using put_defined [OF assms(1), of mem c] put_granted [OF assms, of c] by auto

lemma app_ok:
  assumes "inv b" and "\<forall>n. mem n"
  obtains b' where "app mem s b = Some (length s, b')" "inv b'" "content b' = content b @ s"
  using app_defined [OF assms(1), of mem s] app_granted [OF assms, of s] by auto

text \<open>A loop that writes the output of each element of a list.\<close>

lemma loop_ok:
  assumes step: "\<And>x b. x \<in> set xs \<Longrightarrow> inv b \<Longrightarrow>
      \<exists>b'. f x b = Some b' \<and> inv b' \<and> content b' = content b @ g x"
    and "inv b"
  shows "\<exists>b'. foldl (\<lambda>r x. Option.bind r (f x)) (Some b) xs = Some b' \<and> inv b'
    \<and> content b' = content b @ concat (map g xs)"
  using assms
proof (induction xs arbitrary: b)
  case (Cons x xs)
  obtain b1 where b1: "f x b = Some b1" "inv b1" "content b1 = content b @ g x"
    using Cons.prems(1) [of x b] Cons.prems(2) by auto
  obtain b2 where "foldl (\<lambda>r x. Option.bind r (f x)) (Some b1) xs = Some b2" "inv b2"
    "content b2 = content b1 @ concat (map g xs)"
    using Cons.IH [of b1] Cons.prems(1) b1(2) by auto
  with b1 show ?case by auto
qed auto

end

section \<open>The buffer meets its contract\<close>

definition buf_inv :: "template_buffer \<Rightarrow> bool" where
  "buf_inv buf \<longleftrightarrow> b_fill buf = length (b_data buf) \<and> b_fill buf < b_size buf"

lemma buf_init_inv: "buf_init mem sz = Some buf \<Longrightarrow> buf_inv buf \<and> b_data buf = []"
  by (auto simp: buf_init_def buf_inv_def Let_def split: if_splits)

lemma buf_store_defined:
  assumes "buf_inv buf" and "b_fill buf + length bs < b_size buf"
  shows "\<exists>b'. buf_store bs buf = Some b' \<and> buf_inv b' \<and> b_data b' = b_data buf @ bs"
  using assms by (auto simp: buf_store_def buf_inv_def)

lemma buf_grow_inv:
  assumes "buf_grow mem n buf = (r, buf')" and "buf_inv buf"
  shows "buf_inv buf' \<and> b_data buf' = b_data buf \<and> b_fill buf' = b_fill buf
    \<and> (r \<noteq> 0 \<longrightarrow> b_size buf' = b_size buf + (if n \<le> 0 then 1024 else nat n))"
  using assms by (auto simp: buf_grow_def buf_inv_def Let_def split: if_splits)

lemma make_room:
  assumes "(if c then buf_grow mem m b else (1, b)) = (r, b1)" and "buf_inv b"
    and "\<not> c \<Longrightarrow> b_fill b + k < b_size b" and "k \<le> (if m \<le> 0 then 1024 else nat m)"
  shows "buf_inv b1" "b_data b1 = b_data b" "r \<noteq> 0 \<Longrightarrow> b_fill b1 + k < b_size b1"
    "(\<forall>n. mem n) \<Longrightarrow> r \<noteq> 0"
proof -
  have g: "c \<Longrightarrow> buf_inv b1 \<and> b_data b1 = b_data b \<and> b_fill b1 = b_fill b
      \<and> (r \<noteq> 0 \<longrightarrow> b_size b1 = b_size b + (if m \<le> 0 then 1024 else nat m))"
    using buf_grow_inv [of mem m b r b1] assms(1,2) by simp
  have n: "\<not> c \<Longrightarrow> b1 = b" using assms(1) by simp
  have fs: "b_fill b < b_size b" using assms(2) by (simp add: buf_inv_def)
  show "buf_inv b1" "b_data b1 = b_data b" using g n assms(2) by blast+
  show "b_fill b1 + k < b_size b1" if "r \<noteq> 0"
  proof (cases c)
    case True
    with g that have "b_fill b1 = b_fill b" "b_size b1 = b_size b + (if m \<le> 0 then 1024 else nat m)"
      by blast+
    then show ?thesis using fs assms(4) by linarith
  qed (use n assms(3) in simp)
  have "b_size b \<noteq> 0" using assms(2) by (simp add: buf_inv_def)
  then show "(\<forall>n. mem n) \<Longrightarrow> r \<noteq> 0" using assms(1) by (auto simp: buf_grow_def Let_def split: if_splits)
qed

lemma buf_putchar_defined:
  assumes "buf_inv b"
  shows "\<exists>ok b'. buf_putchar mem c b = Some (ok, b') \<and> buf_inv b'
    \<and> b_data b' = b_data b @ (if ok then [c] else []) \<and> ((\<forall>n. mem n) \<longrightarrow> ok)"
proof -
  obtain r b1 where rb: "(if b_fill b + 1 \<ge> b_size b then buf_grow mem 0 b else (1, b)) = (r, b1)"
    by fastforce
  note b1 = make_room [OF rb assms, of 1, simplified]
  show ?thesis
  proof (cases "r = 0")
    case True
    then have "buf_putchar mem c b = Some (False, b1)" unfolding buf_putchar_def rb by simp
    with b1 True show ?thesis by auto
  next
    case False
    with b1 buf_store_defined [of b1 "[c]"] obtain b2
      where "buf_store [c] b1 = Some b2" "buf_inv b2" "b_data b2 = b_data b @ [c]" by auto
    moreover from this False have "buf_putchar mem c b = Some (True, b2)"
      unfolding buf_putchar_def rb by simp
    ultimately show ?thesis by auto
  qed
qed

lemma buf_append_defined:
  assumes "buf_inv b"
  shows "\<exists>n b'. buf_append mem s b = Some (n, b') \<and> buf_inv b'
    \<and> (b_data b' = b_data b @ s \<and> n = length s \<or> b_data b' = b_data b \<and> n = 0)
    \<and> ((\<forall>n. mem n) \<longrightarrow> n = length s \<and> b_data b' = b_data b @ s)"
proof -
  obtain r b1 where rb: "(if b_fill b + length s + 1 \<ge> b_size b
      then buf_grow mem (int (length s) + 1) b else (1, b)) = (r, b1)" by fastforce
  have m: "length s \<le> (if int (length s) + 1 \<le> 0 then 1024 else nat (int (length s) + 1))" by simp
  note b1 = make_room [OF rb assms _ m]
  show ?thesis
  proof (cases "r = 0")
    case True
    then have "buf_append mem s b = Some (0, b1)" unfolding buf_append_def rb by simp
    with b1 True show ?thesis by auto
  next
    case False
    with b1 buf_store_defined [of b1 s] obtain b2
      where "buf_store s b1 = Some b2" "buf_inv b2" "b_data b2 = b_data b @ s" by auto
    moreover from this False have "buf_append mem s b = Some (length s, b2)"
      unfolding buf_append_def rb by simp
    ultimately show ?thesis by auto
  qed
qed

interpretation tbuf: out_buffer buf_inv b_data buf_putchar buf_append
proof (unfold_locales, goal_cases)
  case (1 b mem c)
  then show ?case using buf_putchar_defined [of b mem c] by blast
next
  case (2 b mem s)
  then show ?case using buf_append_defined [of b mem s] by blast
next
  case (3 b mem c)
  then show ?case using buf_putchar_defined [of b mem c] by (metis (full_types))
next
  case (4 b mem s)
  then show ?case using buf_append_defined [of b mem s] by metis
qed

end
