(* ===== verification/Template_Utils.thy ===== *)
theory Template_Utils
  imports Template_Buffer
begin

text \<open>
  The sanitisers and escapers of LuCI's template engine
  (\<open>src/luci/modules/luci-base/src/template_utils.c\<close> from \<open>mb_num_chars\<close> on).

  A pointer into the source string is the rest of the string.  A function that returns a
  string gives \<open>Some None\<close> where the code returns NULL, and \<open>None\<close> where it leaves
  its memory.
\<close>

abbreviation chr :: "char \<Rightarrow> u8" where
  "chr c \<equiv> of_char c"

definition bytes_of :: "string \<Rightarrow> bytes" where
  "bytes_of s = map of_char s"

text \<open>\<open>isspace\<close> and \<open>isalpha\<close> of the C locale.\<close>

definition is_space :: "u8 \<Rightarrow> bool" where
  "is_space c \<longleftrightarrow> c = 32 \<or> 9 \<le> c \<and> c \<le> 13"

definition is_alpha :: "u8 \<Rightarrow> bool" where
  "is_alpha c \<longleftrightarrow> 65 \<le> c \<and> c \<le> 90 \<or> 97 \<le> c \<and> c \<le> 122"

section \<open>UTF-8 sequences\<close>

definition mb_num_chars :: "u8 \<Rightarrow> nat" where
  "mb_num_chars c =
     (if c AND 0xE0 = 0xC0 then 2
      else if c AND 0xF0 = 0xE0 then 3
      else if c AND 0xF8 = 0xF0 then 4
      else if c AND 0xFC = 0xF8 then 5
      else if c AND 0xFE = 0xFC then 6
      else 1)"

definition mb_is_cont :: "u8 \<Rightarrow> bool" where
  "mb_is_cont c \<longleftrightarrow> c \<ge> 0x80 \<and> c \<le> 0xBF"

definition mb_is_shortest :: "bytes \<Rightarrow> nat \<Rightarrow> bool" where
  "mb_is_shortest s n =
     (if n = 2 then \<not> (drop_bit 1 (s ! 0) = 0x60 \<and> drop_bit 6 (s ! 1) = 2)
      else if n = 3 then
        \<not> (s ! 0 = 0xE0 \<and> drop_bit 5 (s ! 1) = 4 \<and> drop_bit 6 (s ! 2) = 2)
      else if n = 4 then
        \<not> (s ! 0 = 0xF0 \<and> drop_bit 4 (s ! 1) = 8 \<and> drop_bit 6 (s ! 2) = 2 \<and> drop_bit 6 (s ! 3) = 2)
      else if n = 5 then
        \<not> (s ! 0 = 0xF8 \<and> drop_bit 3 (s ! 1) = 0x10 \<and> drop_bit 6 (s ! 2) = 2 \<and> drop_bit 6 (s ! 3) = 2
          \<and> drop_bit 6 (s ! 4) = 2)
      else if n = 6 then
        \<not> (s ! 0 = 0xF8 \<and> drop_bit 2 (s ! 1) = 0x20 \<and> drop_bit 6 (s ! 2) = 2 \<and> drop_bit 6 (s ! 3) = 2
          \<and> drop_bit 6 (s ! 4) = 2 \<and> drop_bit 6 (s ! 5) = 2)
      else True)"

definition mb_is_surrogate :: "bytes \<Rightarrow> nat \<Rightarrow> bool" where
  "mb_is_surrogate s n \<longleftrightarrow> n = 3 \<and> s ! 0 = 0xED \<and> s ! 1 \<ge> 0xA0 \<and> s ! 1 \<le> 0xBF"

definition mb_is_illegal :: "bytes \<Rightarrow> nat \<Rightarrow> bool" where
  "mb_is_illegal s n \<longleftrightarrow> n = 3 \<and> s ! 0 = 0xEF \<and> s ! 1 = 0xBF \<and> s ! 2 \<ge> 0xBE \<and> s ! 2 \<le> 0xBF"

text \<open>
  \<open>_validate_utf8\<close> on the rest \<open>s\<close> of the source: how many bytes it used, 0 if a
  write failed, and the buffer.  The counting loop stops behind \<open>n\<close> continuation bytes, one
  more than the sequence can have.
\<close>

definition count_valid :: "nat \<Rightarrow> bytes \<Rightarrow> nat" where
  "count_valid n s = 1 + length (takeWhile mb_is_cont (take n (drop 1 s)))"

definition uc_validate_utf8 :: "allocator \<Rightarrow> bytes \<Rightarrow> template_buffer \<Rightarrow> (nat \<times> template_buffer) option" where
  "uc_validate_utf8 mem s buf =
     (let c = s ! 0; n = mb_num_chars c in
      if c \<ge> 0x01 \<and> c \<le> 0x7F then do {
        (ok, buf) \<leftarrow> buf_putchar mem c buf;
        Some (if ok then 1 else 0, buf)
      }
      else if n > 1 then
        (let v = count_valid n s in
         if n = 6 \<or> n = 5 then do {
           (ok, buf) \<leftarrow> buf_putchar mem (chr CHR ''?'') buf;
           Some (if ok then v else 0, buf)
         }
         else if v = n \<and> mb_is_shortest s n \<and> \<not> mb_is_surrogate s n \<and> \<not> mb_is_illegal s n then do {
           (k, buf) \<leftarrow> buf_append mem (take n s) buf;
           Some (if k \<noteq> 0 then v else 0, buf)
         }
         else do {
           (ok, buf) \<leftarrow> buf_putchar mem (chr CHR ''?'') buf;
           Some (if ok then v else 0, buf)
         })
      else do {
        (ok, buf) \<leftarrow> buf_putchar mem (chr CHR ''?'') buf;
        Some (if ok then 1 else 0, buf)
      })"

function utf8_loop :: "allocator \<Rightarrow> bytes \<Rightarrow> template_buffer \<Rightarrow> template_buffer option" where
  "utf8_loop mem s buf =
     (if s = [] then Some buf
      else if hd s \<ge> 0x01 \<and> hd s \<le> 0x7F then
        (case buf_putchar mem (hd s) buf of
           None \<Rightarrow> None
         | Some (ok, buf) \<Rightarrow> if ok then utf8_loop mem (tl s) buf else Some buf)
      else
        (case uc_validate_utf8 mem s buf of
           None \<Rightarrow> None
         | Some (v, buf) \<Rightarrow> if v = 0 then Some buf else utf8_loop mem (drop v s) buf))"
  by pat_completeness auto
termination by (relation "measure (\<lambda>(mem, s, buf). length s)") (auto simp: neq_Nil_conv)

declare utf8_loop.simps [simp del]

text \<open>The functions that return a new string: make a buffer, fill it, hand out its data.\<close>

definition with_buffer ::
  "allocator \<Rightarrow> int \<Rightarrow> (template_buffer \<Rightarrow> template_buffer option) \<Rightarrow> bytes option option" where
  "with_buffer mem n f =
     (case buf_init mem n of
        None \<Rightarrow> Some None
      | Some buf \<Rightarrow> map_option (\<lambda>b. Some (buf_destroy b)) (f buf))"

definition utf8 :: "allocator \<Rightarrow> bytes \<Rightarrow> bytes option option" where
  "utf8 mem s = with_buffer mem (int (length s)) (utf8_loop mem s)"

section \<open>XML\<close>

text \<open>\<open>snprintf(esq, sizeof(esq), "&#%i;", *ptr)\<close>\<close>

definition xml_ref :: "u8 \<Rightarrow> bytes" where
  "xml_ref c = bytes_of (''&#'' @ show_nat (unat c) @ '';'')"

definition invalid_xml :: "u8 \<Rightarrow> bool" where
  "invalid_xml c \<longleftrightarrow> c \<le> 0x08 \<or> c \<ge> 0x0B \<and> c \<le> 0x0C \<or> c \<ge> 0x0E \<and> c \<le> 0x1F \<or> c = 0x7F"

definition xml_special :: "u8 \<Rightarrow> bool" where
  "xml_special c \<longleftrightarrow> c = 0x26 \<or> c = 0x27 \<or> c = 0x22 \<or> c = 0x3C \<or> c = 0x3E"

function pcdata_loop :: "allocator \<Rightarrow> bytes \<Rightarrow> template_buffer \<Rightarrow> template_buffer option" where
  "pcdata_loop mem s buf =
     (if s = [] then Some buf
      else if invalid_xml (hd s) then pcdata_loop mem (tl s) buf
      else if xml_special (hd s) then
        (case buf_append mem (xml_ref (hd s)) buf of
           None \<Rightarrow> None
         | Some (k, buf) \<Rightarrow> if k = 0 then Some buf else pcdata_loop mem (tl s) buf)
      else if hd s \<le> 0x7F then
        (case buf_putchar mem (hd s) buf of
           None \<Rightarrow> None
         | Some (ok, buf) \<Rightarrow> pcdata_loop mem (tl s) buf)
      else
        (case uc_validate_utf8 mem s buf of
           None \<Rightarrow> None
         | Some (v, buf) \<Rightarrow> if v = 0 then Some buf else pcdata_loop mem (drop v s) buf))"
  by pat_completeness auto
termination by (relation "measure (\<lambda>(mem, s, buf). length s)") (auto simp: neq_Nil_conv)

declare pcdata_loop.simps [simp del]

definition pcdata :: "allocator \<Rightarrow> bytes \<Rightarrow> bytes option option" where
  "pcdata mem s = with_buffer mem (int (length s)) (pcdata_loop mem s)"

text \<open>
  \<open>striptags\<close>.  What follows a tag's name up to its \<open>>\<close> is skipped; without one, only
  the \<open><\<close> is.  The results of the writes are not looked at.
\<close>

definition tag_start :: "bytes \<Rightarrow> bool" where
  "tag_start s \<longleftrightarrow> hd s = chr CHR ''<'' \<and> 2 < length s \<and> (s ! 1 = chr CHR ''/'' \<or> is_alpha (s ! 1))"

definition tag_rest :: "bytes \<Rightarrow> bytes option" where
  "tag_rest s = (case dropWhile (\<lambda>c. c \<noteq> chr CHR ''>'') s of [] \<Rightarrow> None | _ # r \<Rightarrow> Some r)"

lemma tag_rest_shorter: "tag_rest s = Some r \<Longrightarrow> length r < length s"
  using dropWhile_length_le [of "\<lambda>c. c \<noteq> chr CHR ''>''" s] by (auto simp: tag_rest_def split: list.splits)

function striptags_loop :: "allocator \<Rightarrow> u8 \<Rightarrow> bytes \<Rightarrow> template_buffer \<Rightarrow> template_buffer option" where
  "striptags_loop mem prev s buf =
     (if s = [] then Some buf
      else if tag_start s then
        (case tag_rest s of
           None \<Rightarrow> striptags_loop mem prev (tl s) buf
         | Some r \<Rightarrow>
             (case (if \<not> is_space prev then map_option snd (buf_putchar mem 32 buf) else Some buf) of
                None \<Rightarrow> None
              | Some buf \<Rightarrow> striptags_loop mem 32 r buf))
      else if is_space (hd s) then
        (case (if \<not> is_space prev then map_option snd (buf_putchar mem (hd s) buf) else Some buf) of
           None \<Rightarrow> None
         | Some buf \<Rightarrow> striptags_loop mem (hd s) (tl s) buf)
      else
        (case (if xml_special (hd s) then map_option snd (buf_append mem (xml_ref (hd s)) buf)
               else map_option snd (buf_putchar mem (hd s) buf)) of
           None \<Rightarrow> None
         | Some buf \<Rightarrow> striptags_loop mem (hd s) (tl s) buf))"
  by pat_completeness auto
termination
  by (relation "measure (\<lambda>(mem, prev, s, buf). length s)") (auto simp: neq_Nil_conv tag_rest_shorter)

declare striptags_loop.simps [simp del]

text \<open>Unlike the other two, it uses the buffer without asking whether there is one.\<close>

definition striptags :: "allocator \<Rightarrow> bytes \<Rightarrow> bytes option" where
  "striptags mem s =
     (case buf_init mem (int (length s)) of
        None \<Rightarrow> None
      | Some buf \<Rightarrow> map_option buf_destroy (striptags_loop mem 32 s buf))"

section \<open>Lua string literals\<close>

text \<open>The bytes written for one of the source, and the loop over the source.\<close>

definition escape_put :: "allocator \<Rightarrow> bool \<Rightarrow> u8 \<Rightarrow> template_buffer \<Rightarrow> template_buffer option" where
  "escape_put mem escape_xml c out =
     (if c = chr CHR 0x5C then map_option snd (buf_append mem [0x5C, 0x5C] out)
      else if c = 0x22 then
        (if escape_xml then map_option snd (buf_append mem (bytes_of ''&#34;'') out)
         else map_option snd (buf_append mem [0x5C, 0x22] out))
      else if c = 10 then map_option snd (buf_append mem (0x5C # bytes_of ''n'') out)
      else if (c = 0x27 \<or> c = 0x26 \<or> c = 0x3C \<or> c = 0x3E) \<and> escape_xml
        then map_option snd (buf_append mem (xml_ref c) out)
      else map_option snd (buf_putchar mem c out))"

definition luastr_escape :: "allocator \<Rightarrow> bytes \<Rightarrow> bool \<Rightarrow> template_buffer \<Rightarrow> template_buffer option" where
  "luastr_escape mem s escape_xml out =
     foldl (\<lambda>r c. Option.bind r (escape_put mem escape_xml c)) (Some out) s"

end
