(* ===== verification/Template_Utils_Facts.thy ===== *)
theory Template_Utils_Facts
  imports Template_Utils
begin

text \<open>
  What the sanitisers and escapers of the template engine compute, and that their output is
  safe where it is used: UTF-8 sequences are well formed, XML has no markup of the input, a Lua
  string literal reads back as the text it was made from.
\<close>

section \<open>Bytes\<close>

lemma div_range: "0 < (m::nat) \<Longrightarrow> n div m = h \<longleftrightarrow> h * m \<le> n \<and> n < h * m + m"
proof
  assume "0 < m" "n div m = h"
  then show "h * m \<le> n \<and> n < h * m + m"
    using div_times_less_eq_dividend [of n m] dividend_less_div_times [of m n] by (simp add: add.commute)
qed (simp add: div_nat_eqI mult.commute)

text \<open>Masking the high bits of a byte and comparing them is comparing the byte with two bounds.\<close>

lemma high_bits:
  fixes c :: u8
  assumes "k < 8" and "v = h * 2 ^ k"
  shows "unat (c AND NOT (mask k)) = v \<longleftrightarrow> v \<le> unat c \<and> unat c < v + 2 ^ k"
proof -
  have "unat c div 2 ^ k * 2 ^ k = h * 2 ^ k \<longleftrightarrow> unat c div 2 ^ k = h" by simp
  also have "\<dots> \<longleftrightarrow> h * 2 ^ k \<le> unat c \<and> unat c < h * 2 ^ k + 2 ^ k"
    by (simp add: div_range)
  finally show ?thesis using assms(2) by (simp add: unat_and_not_mask)
qed

lemma and_masks:
  fixes c :: u8
  shows "c AND 0xE0 = 0xC0 \<longleftrightarrow> 0xC0 \<le> c \<and> c \<le> 0xDF" "c AND 0xF0 = 0xE0 \<longleftrightarrow> 0xE0 \<le> c \<and> c \<le> 0xEF"
    "c AND 0xF8 = 0xF0 \<longleftrightarrow> 0xF0 \<le> c \<and> c \<le> 0xF7" "c AND 0xFC = 0xF8 \<longleftrightarrow> 0xF8 \<le> c \<and> c \<le> 0xFB"
    "c AND 0xFE = 0xFC \<longleftrightarrow> 0xFC \<le> c \<and> c \<le> 0xFD"
proof -
  have m: "(0xE0 :: u8) = NOT (mask 5)" "(0xF0 :: u8) = NOT (mask 4)" "(0xF8 :: u8) = NOT (mask 3)"
    "(0xFC :: u8) = NOT (mask 2)" "(0xFE :: u8) = NOT (mask 1)"
    by (simp_all add: mask_eq_exp_minus_1)
  show "c AND 0xE0 = 0xC0 \<longleftrightarrow> 0xC0 \<le> c \<and> c \<le> 0xDF"
    using high_bits [of 5 192 6 c] by (subst m(1)) (auto simp: word_unat_eq_iff word_le_nat_alt)
  show "c AND 0xF0 = 0xE0 \<longleftrightarrow> 0xE0 \<le> c \<and> c \<le> 0xEF"
    using high_bits [of 4 224 14 c] by (subst m(2)) (auto simp: word_unat_eq_iff word_le_nat_alt)
  show "c AND 0xF8 = 0xF0 \<longleftrightarrow> 0xF0 \<le> c \<and> c \<le> 0xF7"
    using high_bits [of 3 240 30 c] by (subst m(3)) (auto simp: word_unat_eq_iff word_le_nat_alt)
  show "c AND 0xFC = 0xF8 \<longleftrightarrow> 0xF8 \<le> c \<and> c \<le> 0xFB"
    using high_bits [of 2 248 62 c] by (subst m(4)) (auto simp: word_unat_eq_iff word_le_nat_alt)
  show "c AND 0xFE = 0xFC \<longleftrightarrow> 0xFC \<le> c \<and> c \<le> 0xFD"
    using high_bits [of 1 252 126 c] by (subst m(5)) (auto simp: word_unat_eq_iff word_le_nat_alt)
qed

lemma mb_num_chars_ranges:
  "mb_num_chars c = (if 0xC0 \<le> c \<and> c \<le> 0xDF then 2 else if 0xE0 \<le> c \<and> c \<le> 0xEF then 3
     else if 0xF0 \<le> c \<and> c \<le> 0xF7 then 4 else if 0xF8 \<le> c \<and> c \<le> 0xFB then 5
     else if 0xFC \<le> c \<and> c \<le> 0xFD then 6 else 1)"
  by (simp only: mb_num_chars_def and_masks)

lemma byte_tops:
  "drop_bit 1 (b :: u8) = 0x60 \<longleftrightarrow> 0xC0 \<le> b \<and> b \<le> 0xC1"
  "drop_bit 6 b = 2 \<longleftrightarrow> mb_is_cont b"
  "drop_bit 5 b = 4 \<longleftrightarrow> 0x80 \<le> b \<and> b \<le> 0x9F"
  "drop_bit 4 b = 8 \<longleftrightarrow> 0x80 \<le> b \<and> b \<le> 0x8F"
  by (auto simp: word_unat_eq_iff word_le_nat_alt unat_drop_bit_eq drop_bit_eq_div [where 'a = nat] div_range mb_is_cont_def)

section \<open>One step of the sanitisers\<close>

definition utf8_step :: "bytes \<Rightarrow> bytes \<times> nat" where
  "utf8_step s =
     (let c = s ! 0; n = mb_num_chars c; v = count_valid n s in
      if c \<ge> 0x01 \<and> c \<le> 0x7F then ([c], 1)
      else if n > 1 then
        (if n \<noteq> 6 \<and> n \<noteq> 5 \<and> v = n \<and> mb_is_shortest s n \<and> \<not> mb_is_surrogate s n \<and> \<not> mb_is_illegal s n
         then (take n s, v) else ([chr CHR ''?''], v))
      else ([chr CHR ''?''], 1))"

lemma utf8_step_pos [simp]: "0 < snd (utf8_step s)"
  by (auto simp: utf8_step_def Let_def count_valid_def)

lemma count_valid_le: "s \<noteq> [] \<Longrightarrow> count_valid n s \<le> length s"
  using length_takeWhile_le [of mb_is_cont "take n (drop 1 s)"] by (cases s) (auto simp: count_valid_def)

text \<open>Whatever the allocator does, \<open>_validate_utf8\<close> stays in the buffer; where it grants the
  memory, the step's output is written.\<close>

lemma validate_run:
  assumes "buf_inv b" and "s \<noteq> []"
  shows "\<exists>v b'. uc_validate_utf8 mem s b = Some (v, b') \<and> buf_inv b'
    \<and> ((\<forall>n. mem n) \<longrightarrow> v = snd (utf8_step s) \<and> b_data b' = b_data b @ fst (utf8_step s))"
proof -
  let ?n = "mb_num_chars (s ! 0)"
  have put: "\<exists>ok b'. buf_putchar mem c b = Some (ok, b') \<and> buf_inv b'
      \<and> ((\<forall>n. mem n) \<longrightarrow> ok \<and> b_data b' = b_data b @ [c])" for c
    using buf_putchar_defined [OF assms(1), of mem c] by (metis (full_types))
  have app: "\<exists>k b'. buf_append mem u b = Some (k, b') \<and> buf_inv b'
      \<and> ((\<forall>n. mem n) \<longrightarrow> k = length u \<and> b_data b' = b_data b @ u)" for u
    using buf_append_defined [OF assms(1), of mem u] by blast
  consider (ascii) "1 \<le> s ! 0 \<and> s ! 0 \<le> 0x7F"
    | (copy) "\<not> (1 \<le> s ! 0 \<and> s ! 0 \<le> 0x7F)" "?n > 1" "?n \<noteq> 6" "?n \<noteq> 5" "count_valid ?n s = ?n"
        "mb_is_shortest s ?n" "\<not> mb_is_surrogate s ?n" "\<not> mb_is_illegal s ?n"
    | (skip) "\<not> (1 \<le> s ! 0 \<and> s ! 0 \<le> 0x7F)" "?n > 1"
        "\<not> (?n \<noteq> 6 \<and> ?n \<noteq> 5 \<and> count_valid ?n s = ?n \<and> mb_is_shortest s ?n \<and> \<not> mb_is_surrogate s ?n \<and> \<not> mb_is_illegal s ?n)"
    | (zero) "\<not> (1 \<le> s ! 0 \<and> s ! 0 \<le> 0x7F)" "\<not> ?n > 1"
    by blast
  then show ?thesis
  proof cases
    case ascii
    with put [of "s ! 0"] show ?thesis
      by (auto simp: uc_validate_utf8_def utf8_step_def)
  next
    case copy
    then have "length (take ?n s) = ?n" using count_valid_le [OF assms(2), of ?n] by simp
    moreover have "uc_validate_utf8 mem s b =
        do {(k, b) \<leftarrow> buf_append mem (take ?n s) b; Some (if k \<noteq> 0 then count_valid ?n s else 0, b)}"
      unfolding uc_validate_utf8_def Let_def using copy by (simp only: if_False if_True simp_thms)
    moreover have "utf8_step s = (take ?n s, ?n)" using copy by (simp add: utf8_step_def Let_def)
    ultimately show ?thesis using app [of "take ?n s"] copy(2,5) by auto
  next
    case skip
    have "uc_validate_utf8 mem s b =
        do {(ok, b) \<leftarrow> buf_putchar mem (chr CHR ''?'') b; Some (if ok then count_valid ?n s else 0, b)}"
      unfolding uc_validate_utf8_def Let_def using skip by (smt (verit) if_cancel)
    moreover have "utf8_step s = ([chr CHR ''?''], count_valid ?n s)"
      using skip by (auto simp: utf8_step_def Let_def)
    ultimately show ?thesis using put [of "chr CHR ''?''"] by auto
  next
    case zero
    with put [of "chr CHR ''?''"] show ?thesis
      by (auto simp: uc_validate_utf8_def utf8_step_def Let_def)
  qed
qed

function utf8_clean :: "bytes \<Rightarrow> bytes" where
  "utf8_clean s = (if s = [] then [] else fst (utf8_step s) @ utf8_clean (drop (snd (utf8_step s)) s))"
  by pat_completeness auto
termination by (relation "measure length") (auto simp: neq_Nil_conv)

declare utf8_clean.simps [simp del]

lemma utf8_clean_Nil [simp]: "utf8_clean [] = []"
  by (simp add: utf8_clean.simps)

lemma utf8_loop_run:
  "buf_inv b \<Longrightarrow> \<exists>b'. utf8_loop mem s b = Some b' \<and> buf_inv b'
    \<and> ((\<forall>n. mem n) \<longrightarrow> b_data b' = b_data b @ utf8_clean s)"
proof (induction mem s b rule: utf8_loop.induct)
  case (1 mem s b)
  show ?case
  proof (cases "s = []")
    case True
    then show ?thesis using 1 by (simp add: utf8_loop.simps [of mem "[]"])
  next
    case False
    then have hd: "hd s = s ! 0" by (simp add: hd_conv_nth)
    have clean: "utf8_clean s = fst (utf8_step s) @ utf8_clean (drop (snd (utf8_step s)) s)"
      using False by (simp add: utf8_clean.simps [of s])
    show ?thesis
    proof (cases "hd s \<ge> 1 \<and> hd s \<le> 0x7F")
      case True
      then have step: "utf8_step s = ([hd s], 1)" by (simp add: utf8_step_def hd Let_def)
      obtain ok b1 where put: "buf_putchar mem (hd s) b = Some (ok, b1)" "buf_inv b1"
        "b_data b1 = b_data b @ (if ok then [hd s] else [])" "(\<forall>n. mem n) \<longrightarrow> ok"
        using buf_putchar_defined [OF "1.prems", of mem "hd s"] by auto
      show ?thesis
      proof (cases ok)
        case ok: True
        from "1.IH"(1) [OF False True put(1) refl ok put(2)] obtain b2 where
          "utf8_loop mem (tl s) b1 = Some b2" "buf_inv b2"
          "(\<forall>n. mem n) \<longrightarrow> b_data b2 = b_data b1 @ utf8_clean (tl s)" by blast
        moreover have "utf8_clean s = hd s # utf8_clean (tl s)" using clean step by (simp add: drop_Suc)
        moreover have "utf8_loop mem s b = utf8_loop mem (tl s) b1"
          using False True put(1) ok by (simp add: utf8_loop.simps [of mem s b])
        ultimately show ?thesis using put(3) ok by simp
      next
        case no: False
        then have "utf8_loop mem s b = Some b1"
          using False True put(1) by (simp add: utf8_loop.simps [of mem s b])
        with put(2,4) no show ?thesis by auto
      qed
    next
      case nascii: False
      obtain v b1 where val: "uc_validate_utf8 mem s b = Some (v, b1)" "buf_inv b1"
        "(\<forall>n. mem n) \<longrightarrow> v = snd (utf8_step s) \<and> b_data b1 = b_data b @ fst (utf8_step s)"
        using validate_run [OF "1.prems" False, of mem] by auto
      have loop: "utf8_loop mem s b = (if v = 0 then Some b1 else utf8_loop mem (drop v s) b1)"
        using False nascii val(1) by (subst utf8_loop.simps) (simp only: if_False option.case prod.case)
      show ?thesis
      proof (cases "v = 0")
        case True
        then have "\<not> (\<forall>n. mem n)" using val(3) utf8_step_pos [of s] by auto
        with loop True val(2) show ?thesis by auto
      next
        case v: False
        from "1.IH"(2) [OF False nascii val(1) refl v val(2)] obtain b2 where
          "utf8_loop mem (drop v s) b1 = Some b2" "buf_inv b2"
          "(\<forall>n. mem n) \<longrightarrow> b_data b2 = b_data b1 @ utf8_clean (drop v s)" by blast
        with loop v clean val(3) show ?thesis by auto
      qed
    qed
  qed
qed

section \<open>Units of UTF-8 text\<close>

text \<open>What the code copies: a byte of ASCII other than NUL, or a sequence its checks accept.\<close>

definition mb_accepted :: "bytes \<Rightarrow> bool" where
  "mb_accepted u \<longleftrightarrow> u \<noteq> [] \<and> length u \<in> {2, 3, 4} \<and> mb_num_chars (hd u) = length u
    \<and> list_all mb_is_cont (tl u) \<and> mb_is_shortest u (length u)
    \<and> \<not> mb_is_surrogate u (length u) \<and> \<not> mb_is_illegal u (length u)"

definition utf8_unit :: "bytes \<Rightarrow> bool" where
  "utf8_unit u \<longleftrightarrow> (\<exists>c. u = [c] \<and> 1 \<le> c \<and> c \<le> 0x7F) \<or> mb_accepted u"

lemma mb_checks_take:
  assumes "n \<le> length s" and "n \<in> {2, 3, 4}"
  shows "mb_is_shortest (take n s) n = mb_is_shortest s n"
    "mb_is_surrogate (take n s) n = mb_is_surrogate s n" "mb_is_illegal (take n s) n = mb_is_illegal s n"
  using assms by (auto simp: mb_is_shortest_def mb_is_surrogate_def mb_is_illegal_def)

lemma mb_checks_append:
  assumes "n = length u" and "n \<in> {2, 3, 4}"
  shows "mb_is_shortest (u @ r) n = mb_is_shortest u n"
    "mb_is_surrogate (u @ r) n = mb_is_surrogate u n" "mb_is_illegal (u @ r) n = mb_is_illegal u n"
  using mb_checks_take [of n "u @ r"] assms by simp_all

lemma takeWhile_take_all:
  "length (takeWhile P (take n xs)) = k \<Longrightarrow> list_all P (take k xs)"
proof -
  assume k: "length (takeWhile P (take n xs)) = k"
  have "takeWhile P (take n xs) = take k (take n xs)" using takeWhile_eq_take [of P "take n xs"] k by simp
  moreover have "k \<le> n" using k length_takeWhile_le [of P "take n xs"] by simp
  ultimately have "take k xs = takeWhile P (take n xs)" by (simp add: min_absorb1)
  then show ?thesis by (auto simp: list_all_iff dest: set_takeWhileD)
qed

lemma mb_num_chars_cases: "mb_num_chars c \<in> {1, 2, 3, 4, 5, 6}"
  by (simp add: mb_num_chars_def)

lemma utf8_step_unit:
  assumes "s \<noteq> []"
  shows "utf8_unit (fst (utf8_step s))"
proof -
  let ?n = "mb_num_chars (s ! 0)"
  have q: "utf8_unit [chr CHR ''?'']" by (auto simp: utf8_unit_def)
  show ?thesis
  proof (cases "\<not> (1 \<le> s ! 0 \<and> s ! 0 \<le> 0x7F) \<and> ?n > 1 \<and> ?n \<noteq> 6 \<and> ?n \<noteq> 5 \<and> count_valid ?n s = ?n
      \<and> mb_is_shortest s ?n \<and> \<not> mb_is_surrogate s ?n \<and> \<not> mb_is_illegal s ?n")
    case True
    then have n: "?n \<in> {2, 3, 4}" using mb_num_chars_cases [of "s ! 0"] by auto
    have le: "?n \<le> length s" using count_valid_le [OF assms, of ?n] True by simp
    have "length (takeWhile mb_is_cont (take ?n (drop 1 s))) = ?n - 1"
      using True unfolding count_valid_def by linarith
    then have "list_all mb_is_cont (take (?n - 1) (drop 1 s))" by (rule takeWhile_take_all)
    moreover have "tl (take ?n s) = take (?n - 1) (drop 1 s)" using n by (cases s) (auto simp: take_Cons')
    moreover have "hd (take ?n s) = s ! 0" using assms n by (auto simp: hd_conv_nth)
    ultimately have "mb_accepted (take ?n s)"
      using n le True mb_checks_take [OF le n] assms by (auto simp: mb_accepted_def min_absorb2)
    with True show ?thesis by (simp add: utf8_step_def Let_def utf8_unit_def)
  next
    case False
    with q show ?thesis by (auto simp: utf8_step_def Let_def utf8_unit_def)
  qed
qed

lemma utf8_unit_hd: "utf8_unit u \<Longrightarrow> u \<noteq> [] \<and> \<not> mb_is_cont (hd u)"
proof -
  assume u: "utf8_unit u"
  then consider c where "u = [c]" "1 \<le> c" "c \<le> 0x7F" | "mb_accepted u" by (auto simp: utf8_unit_def)
  then show ?thesis
  proof cases
    case 2
    then have "u \<noteq> []" "mb_num_chars (hd u) > 1" by (auto simp: mb_accepted_def)
    moreover have "mb_num_chars c = 1" if "mb_is_cont c" for c
      using that by (auto simp: mb_is_cont_def mb_num_chars_ranges word_le_nat_alt)
    ultimately show ?thesis by fastforce
  qed (auto simp: mb_is_cont_def word_le_nat_alt)
qed

lemma utf8_step_of_unit:
  assumes "utf8_unit u" and "r = [] \<or> \<not> mb_is_cont (hd r)"
  shows "utf8_step (u @ r) = (u, length u)"
proof -
  from assms(1) consider c where "u = [c]" "1 \<le> c" "c \<le> 0x7F" | "mb_accepted u"
    by (auto simp: utf8_unit_def)
  then show ?thesis
  proof cases
    case 1
    then show ?thesis by (simp add: utf8_step_def)
  next
    case 2
    let ?n = "length u"
    have u: "u \<noteq> []" "?n \<in> {2, 3, 4}" "mb_num_chars (hd u) = ?n" "list_all mb_is_cont (tl u)"
      using 2 by (auto simp: mb_accepted_def)
    have h: "(u @ r) ! 0 = hd u" using u(1) by (simp add: nth_append hd_conv_nth)
    have notascii: "\<not> (1 \<le> hd u \<and> hd u \<le> 0x7F)"
      using u(2,3) by (auto simp: mb_num_chars_ranges word_le_nat_alt split: if_splits)
    have "takeWhile mb_is_cont (take ?n (drop 1 (u @ r))) = tl u"
    proof -
      have "take ?n (drop 1 (u @ r)) = tl u @ take 1 r" using u(1) by (cases u) (auto simp: take_Cons')
      moreover have "takeWhile mb_is_cont (tl u @ take 1 r) = tl u"
        using u(4) assms(2) by (intro takeWhile_append_all) (auto simp: list_all_iff take_Cons' neq_Nil_conv)
      ultimately show ?thesis by simp
    qed
    then have "count_valid ?n (u @ r) = ?n" using u(1) by (simp add: count_valid_def)
    with 2 u h notascii mb_checks_append [OF refl u(2), of r] show ?thesis
      by (auto simp: utf8_step_def Let_def mb_accepted_def)
  qed
qed

lemma utf8_clean_units: "\<exists>us. utf8_clean s = concat us \<and> list_all utf8_unit us"
proof (induction s rule: utf8_clean.induct)
  case (1 s)
  show ?case
  proof (cases "s = []")
    case True
    then show ?thesis by (intro exI [of _ "[]"]) simp
  next
    case False
    with 1 obtain us where "utf8_clean (drop (snd (utf8_step s)) s) = concat us" "list_all utf8_unit us" by blast
    then show ?thesis using False utf8_step_unit [OF False]
      by (intro exI [of _ "fst (utf8_step s) # us"]) (simp add: utf8_clean.simps [of s])
  qed
qed

lemma utf8_clean_concat: "list_all utf8_unit us \<Longrightarrow> utf8_clean (concat us) = concat us"
proof (induction us)
  case (Cons u us)
  have u: "u \<noteq> []" using Cons.prems utf8_unit_hd by auto
  have "concat us = [] \<or> \<not> mb_is_cont (hd (concat us))"
  proof (cases us)
    case (Cons v vs)
    with Cons.prems utf8_unit_hd [of v] show ?thesis by simp
  qed simp
  then have "utf8_step (u @ concat us) = (u, length u)" using Cons.prems by (intro utf8_step_of_unit) auto
  then show ?case using Cons u by (simp add: utf8_clean.simps [of "u @ concat us"])
qed simp

lemma utf8_clean_idem: "utf8_clean (utf8_clean s) = utf8_clean s"
  using utf8_clean_units [of s] utf8_clean_concat by auto

text \<open>The well-formed byte sequences of the Unicode standard (table 3-7).\<close>

fun unicode_wf :: "bytes \<Rightarrow> bool" where
  "unicode_wf [a] \<longleftrightarrow> a \<le> 0x7F"
| "unicode_wf [a, b] \<longleftrightarrow> 0xC2 \<le> a \<and> a \<le> 0xDF \<and> mb_is_cont b"
| "unicode_wf [a, b, c] \<longleftrightarrow> mb_is_cont b \<and> mb_is_cont c \<and>
     (a = 0xE0 \<and> 0xA0 \<le> b \<or> 0xE1 \<le> a \<and> a \<le> 0xEC \<or> a = 0xED \<and> b \<le> 0x9F \<or> a = 0xEE \<or> a = 0xEF)"
| "unicode_wf [a, b, c, d] \<longleftrightarrow> mb_is_cont b \<and> mb_is_cont c \<and> mb_is_cont d \<and>
     (a = 0xF0 \<and> 0x90 \<le> b \<or> 0xF1 \<le> a \<and> a \<le> 0xF3 \<or> a = 0xF4 \<and> b \<le> 0x8F)"
| "unicode_wf _ \<longleftrightarrow> False"

lemma unat_byte_tops:
  "unat (drop_bit 6 b) = 2 \<longleftrightarrow> 0x80 \<le> unat b \<and> unat b \<le> 0xBF"
  "unat (drop_bit 5 b) = 4 \<longleftrightarrow> 0x80 \<le> unat b \<and> unat b \<le> 0x9F"
  "unat (drop_bit 4 b) = 8 \<longleftrightarrow> 0x80 \<le> unat b \<and> unat b \<le> 0x8F" for b :: u8
  by (auto simp: unat_drop_bit_eq drop_bit_eq_div [where 'a = nat] div_range)

lemma utf8_unit_wf:
  assumes "utf8_unit u" and "\<forall>b\<in>set u. b \<le> 0xF3"
  shows "unicode_wf u"
proof -
  from assms(1) consider c where "u = [c]" "1 \<le> c" "c \<le> 0x7F" | "mb_accepted u"
    by (auto simp: utf8_unit_def)
  then show ?thesis
  proof cases
    case 2
    then consider a b where "u = [a, b]" | a b c where "u = [a, b, c]" | a b c d where "u = [a, b, c, d]"
      by (auto simp: mb_accepted_def numeral_eq_Suc length_Suc_conv)
    then show ?thesis
    proof cases
      case 1
      with 2 show ?thesis
        by (auto simp: mb_accepted_def mb_is_shortest_def byte_tops [simplified] mb_num_chars_ranges word_le_nat_alt split: if_splits)
    next
      case (2 a b c)
      with \<open>mb_accepted u\<close> show ?thesis
        by (auto simp: mb_accepted_def mb_is_shortest_def mb_is_surrogate_def unat_byte_tops mb_num_chars_ranges
            mb_is_cont_def word_le_nat_alt word_unat_eq_iff split: if_splits)
    next
      case (3 a b c d)
      with \<open>mb_accepted u\<close> assms(2) show ?thesis
        by (auto simp: mb_accepted_def mb_is_shortest_def unat_byte_tops mb_num_chars_ranges
            mb_is_cont_def word_le_nat_alt word_unat_eq_iff split: if_splits)
    qed
  qed auto
qed

section \<open>XML\<close>

function pcdata_clean :: "bytes \<Rightarrow> bytes" where
  "pcdata_clean s =
     (if s = [] then []
      else if invalid_xml (hd s) then pcdata_clean (tl s)
      else if xml_special (hd s) then xml_ref (hd s) @ pcdata_clean (tl s)
      else if hd s \<le> 0x7F then hd s # pcdata_clean (tl s)
      else fst (utf8_step s) @ pcdata_clean (drop (snd (utf8_step s)) s))"
  by pat_completeness auto
termination by (relation "measure length") (auto simp: neq_Nil_conv)

declare pcdata_clean.simps [simp del]

lemma pcdata_clean_Nil [simp]: "pcdata_clean [] = []"
  by (simp add: pcdata_clean.simps)

lemma pcdata_loop_run:
  "buf_inv b \<Longrightarrow> \<exists>b'. pcdata_loop mem s b = Some b' \<and> buf_inv b'
    \<and> ((\<forall>n. mem n) \<longrightarrow> b_data b' = b_data b @ pcdata_clean s)"
proof (induction mem s b rule: pcdata_loop.induct)
  case (1 mem s b)
  note loop = pcdata_loop.simps [of mem s b] and clean = pcdata_clean.simps [of s]
  consider "s = []" | (inv) "s \<noteq> []" "invalid_xml (hd s)"
    | (special) "s \<noteq> []" "\<not> invalid_xml (hd s)" "xml_special (hd s)"
    | (ascii) "s \<noteq> []" "\<not> invalid_xml (hd s)" "\<not> xml_special (hd s)" "hd s \<le> 0x7F"
    | (multi) "s \<noteq> []" "\<not> invalid_xml (hd s)" "\<not> xml_special (hd s)" "\<not> hd s \<le> 0x7F"
    by blast
  then show ?case
  proof cases
    case 1
    with "1.prems" show ?thesis by (simp add: pcdata_loop.simps [of mem "[]"])
  next
    case inv
    with "1.IH"(1) [OF inv "1.prems"] show ?thesis by (simp add: loop clean)
  next
    case special
    obtain k b1 where app: "buf_append mem (xml_ref (hd s)) b = Some (k, b1)" "buf_inv b1"
      "(\<forall>n. mem n) \<longrightarrow> k = length (xml_ref (hd s)) \<and> b_data b1 = b_data b @ xml_ref (hd s)"
      using buf_append_defined [OF "1.prems", of mem "xml_ref (hd s)"] by blast
    have ne: "length (xml_ref (hd s)) \<noteq> 0" by (simp add: xml_ref_def bytes_of_def)
    show ?thesis
    proof (cases "k = 0")
      case True
      then have "\<not> (\<forall>n. mem n)" using app(3) ne by auto
      with special app True show ?thesis by (auto simp: loop)
    next
      case False
      from "1.IH"(2) [OF special app(1) refl False app(2)] app special False show ?thesis
        by (auto simp: loop clean)
    qed
  next
    case ascii
    obtain ok b1 where put: "buf_putchar mem (hd s) b = Some (ok, b1)" "buf_inv b1"
      "b_data b1 = b_data b @ (if ok then [hd s] else [])" "(\<forall>n. mem n) \<longrightarrow> ok"
      using buf_putchar_defined [OF "1.prems", of mem "hd s"] by auto
    from "1.IH"(3) [OF ascii put(1) refl put(2)] put ascii show ?thesis
      by (auto simp: loop clean)
  next
    case multi
    obtain v b1 where val: "uc_validate_utf8 mem s b = Some (v, b1)" "buf_inv b1"
      "(\<forall>n. mem n) \<longrightarrow> v = snd (utf8_step s) \<and> b_data b1 = b_data b @ fst (utf8_step s)"
      using validate_run [OF "1.prems" multi(1), of mem] by auto
    show ?thesis
    proof (cases "v = 0")
      case True
      then have "\<not> (\<forall>n. mem n)" using val(3) utf8_step_pos [of s] by auto
      with multi val True show ?thesis by (auto simp: loop)
    next
      case False
      from "1.IH"(4) [OF multi val(1) refl False val(2)] val multi False show ?thesis
        by (auto simp: loop clean)
    qed
  qed
qed

text \<open>Reading XML text back: the five references the code writes, and no other markup.\<close>

definition xml_char :: "bytes \<Rightarrow> u8 option" where
  "xml_char r = find (\<lambda>x. xml_ref x = r) [0x26, 0x27, 0x22, 0x3C, 0x3E]"

function xml_text :: "bytes \<Rightarrow> bytes option" where
  "xml_text s =
     (if s = [] then Some []
      else if hd s = 0x26 then
        (case xml_char (take 5 s) of None \<Rightarrow> None | Some x \<Rightarrow> map_option ((#) x) (xml_text (drop 5 s)))
      else if xml_special (hd s) then None
      else map_option ((#) (hd s)) (xml_text (tl s)))"
  by pat_completeness auto
termination by (relation "measure length") (auto simp: neq_Nil_conv)

declare xml_text.simps [simp del]

lemma xml_refs:
  "xml_ref 0x26 = [0x26, 0x23, 51, 56, 59]" "xml_ref 0x27 = [0x26, 0x23, 51, 57, 59]"
  "xml_ref 0x22 = [0x26, 0x23, 51, 52, 59]" "xml_ref 0x3C = [0x26, 0x23, 54, 48, 59]"
  "xml_ref 0x3E = [0x26, 0x23, 54, 50, 59]"
  by code_simp+

lemma xml_text_ref:
  assumes "xml_special c"
  shows "xml_text (xml_ref c @ r) = map_option ((#) c) (xml_text r)"
proof -
  have "list_all (\<lambda>c. length (xml_ref c) = 5 \<and> hd (xml_ref c) = 0x26 \<and> xml_char (xml_ref c) = Some c)
      [0x26, 0x27, 0x22, 0x3C, 0x3E]"
    by code_simp
  then have "length (xml_ref c) = 5" "hd (xml_ref c) = 0x26" "xml_char (xml_ref c) = Some c"
    using assms by (auto simp: xml_special_def)
  moreover from this(1) have "xml_ref c \<noteq> []" by auto
  ultimately show ?thesis by (subst xml_text.simps) simp
qed

lemma xml_text_plain: "list_all (\<lambda>c. \<not> xml_special c) u \<Longrightarrow> xml_text (u @ r) = map_option ((@) u) (xml_text r)"
proof (induction u)
  case (Cons c u)
  then have "c \<noteq> 0x26" "\<not> xml_special c" by (auto simp: xml_special_def)
  then have "xml_text ((c # u) @ r) = map_option ((#) c) (xml_text (u @ r))"
    by (subst xml_text.simps) simp
  with Cons show ?case by (simp add: option.map_comp comp_def)
qed (simp add: map_option_case split: option.splits)

lemma utf8_step_out:
  assumes "s \<noteq> []"
  shows "fst (utf8_step s) = [chr CHR ''?''] \<or> hd (fst (utf8_step s)) = s ! 0"
  using assms by (auto simp: utf8_step_def Let_def hd_conv_nth)

lemma step_multi:
  assumes "s \<noteq> []" and "\<not> hd s \<le> 0x7F"
  shows "list_all (\<lambda>c. \<not> xml_special c \<and> \<not> invalid_xml c) (fst (utf8_step s))"
proof -
  have ne: "\<not> (1 \<le> s ! 0 \<and> s ! 0 \<le> 0x7F)" using assms by (simp add: hd_conv_nth)
  from utf8_step_unit [OF assms(1)]
  consider c where "fst (utf8_step s) = [c]" "1 \<le> c" "c \<le> 0x7F" | "mb_accepted (fst (utf8_step s))"
    by (auto simp: utf8_unit_def)
  then show ?thesis
  proof cases
    case 1
    then have "fst (utf8_step s) = [chr CHR ''?'']"
      using utf8_step_out [OF assms(1)] ne by auto
    then show ?thesis by (simp add: xml_special_def invalid_xml_def word_le_nat_alt)
  next
    case 2
    let ?u = "fst (utf8_step s)"
    obtain h t where u: "?u = h # t" using 2 by (cases ?u) (auto simp: mb_accepted_def)
    have "0x80 \<le> h"
      using 2 u by (auto simp: mb_accepted_def mb_num_chars_ranges word_le_nat_alt split: if_splits)
    moreover have "list_all mb_is_cont t" using 2 u by (simp add: mb_accepted_def)
    ultimately have "list_all (\<lambda>c. 0x80 \<le> c) ?u" by (auto simp: u list_all_iff mb_is_cont_def)
    then show ?thesis
      by (rule list.pred_mono_strong) (auto simp: xml_special_def invalid_xml_def word_le_nat_alt word_less_nat_alt)
  qed
qed

lemma xml_text_pcdata:
  "0 \<notin> set s \<Longrightarrow> xml_text (pcdata_clean s) = Some (filter (\<lambda>c. \<not> invalid_xml c) (utf8_clean s))"
proof (induction s rule: pcdata_clean.induct)
  case (1 s)
  show ?case
  proof (cases "s = []")
    case True
    then show ?thesis by (simp add: xml_text.simps)
  next
    case ne: False
    have nz: "0 \<notin> set (tl s)" "0 \<notin> set (drop n s)" "hd s \<noteq> 0" for n
      using "1.prems" ne by (cases s; auto dest: in_set_dropD)+
    note clean = pcdata_clean.simps [of s] and uclean = utf8_clean.simps [of s]
    have ascii: "utf8_step s = ([hd s], 1)" if "hd s \<le> 0x7F"
      using that nz(3) ne by (simp add: utf8_step_def hd_conv_nth Let_def word_le_nat_alt unat_gt_0 Suc_le_eq)
    consider (inv) "invalid_xml (hd s)" | (special) "\<not> invalid_xml (hd s)" "xml_special (hd s)"
      | (plain) "\<not> invalid_xml (hd s)" "\<not> xml_special (hd s)" "hd s \<le> 0x7F"
      | (multi) "\<not> invalid_xml (hd s)" "\<not> xml_special (hd s)" "\<not> hd s \<le> 0x7F"
      by blast
    then show ?thesis
    proof cases
      case inv
      then have "hd s \<le> 0x7F" by (auto simp: invalid_xml_def word_le_nat_alt)
      with inv ne "1.IH"(1) [OF ne inv nz(1)] show ?thesis by (simp add: clean uclean ascii drop_Suc)
    next
      case special
      then have "hd s \<le> 0x7F" by (auto simp: xml_special_def word_le_nat_alt)
      with special ne "1.IH"(2) [OF ne special nz(1)] show ?thesis
        by (simp add: clean uclean ascii drop_Suc xml_text_ref)
    next
      case plain
      have "xml_text ([hd s] @ pcdata_clean (tl s)) = map_option ((@) [hd s]) (xml_text (pcdata_clean (tl s)))"
        using plain by (intro xml_text_plain) simp
      with plain ne "1.IH"(3) [OF ne plain nz(1)] show ?thesis by (simp add: clean uclean ascii drop_Suc)
    next
      case multi
      let ?u = "fst (utf8_step s)"
      have "list_all (\<lambda>c. \<not> xml_special c) ?u" "filter (\<lambda>c. \<not> invalid_xml c) ?u = ?u"
        using step_multi [OF ne multi(3)] by (auto simp: list_all_iff filter_id_conv)
      with multi ne "1.IH"(4) [OF ne multi nz(2)] show ?thesis
        by (simp add: clean uclean xml_text_plain)
    qed
  qed
qed

section \<open>Tags\<close>

function striptags_clean :: "u8 \<Rightarrow> bytes \<Rightarrow> bytes" where
  "striptags_clean prev s =
     (if s = [] then []
      else if tag_start s then
        (case tag_rest s of
           None \<Rightarrow> striptags_clean prev (tl s)
         | Some r \<Rightarrow> (if is_space prev then [] else [32]) @ striptags_clean 32 r)
      else if is_space (hd s) then (if is_space prev then [] else [hd s]) @ striptags_clean (hd s) (tl s)
      else (if xml_special (hd s) then xml_ref (hd s) else [hd s]) @ striptags_clean (hd s) (tl s))"
  by pat_completeness auto
termination by (relation "measure (\<lambda>(prev, s). length s)") (auto simp: neq_Nil_conv tag_rest_shorter)

declare striptags_clean.simps [simp del]

lemma put_if_run:
  assumes "buf_inv b"
  shows "\<exists>b'. (if c then map_option snd (buf_putchar mem x b) else Some b) = Some b' \<and> buf_inv b'
    \<and> ((\<forall>n. mem n) \<longrightarrow> b_data b' = b_data b @ (if c then [x] else []))"
  using buf_putchar_defined [OF assms, of mem x] assms by (cases c) fastforce+

lemma put_or_ref_run:
  assumes "buf_inv b"
  shows "\<exists>b'. (if c then map_option snd (buf_append mem u b) else map_option snd (buf_putchar mem x b)) = Some b'
    \<and> buf_inv b' \<and> ((\<forall>n. mem n) \<longrightarrow> b_data b' = b_data b @ (if c then u else [x]))"
  using buf_putchar_defined [OF assms, of mem x] buf_append_defined [OF assms, of mem u]
  by (cases c) fastforce+

lemma striptags_loop_run:
  "buf_inv b \<Longrightarrow> \<exists>b'. striptags_loop mem prev s b = Some b' \<and> buf_inv b'
    \<and> ((\<forall>n. mem n) \<longrightarrow> b_data b' = b_data b @ striptags_clean prev s)"
proof (induction mem prev s b rule: striptags_loop.induct)
  case (1 mem prev s b)
  note loop = striptags_loop.simps [of mem prev s b] and clean = striptags_clean.simps [of prev s]
  consider (nil) "s = []" | (unclosed) "s \<noteq> []" "tag_start s" "tag_rest s = None"
    | (tag) r where "s \<noteq> []" "tag_start s" "tag_rest s = Some r"
    | (space) "s \<noteq> []" "\<not> tag_start s" "is_space (hd s)"
    | (char) "s \<noteq> []" "\<not> tag_start s" "\<not> is_space (hd s)"
    by (cases "tag_rest s") auto
  then show ?case
  proof cases
    case nil
    with "1.prems" show ?thesis
      by (simp add: striptags_loop.simps [of mem prev "[]"] striptags_clean.simps [of prev "[]"])
  next
    case unclosed
    from "1.IH"(1) [OF unclosed "1.prems"] unclosed show ?thesis by (simp add: loop clean)
  next
    case tag
    obtain b1 where b1: "(if \<not> is_space prev then map_option snd (buf_putchar mem 32 b) else Some b) = Some b1"
      "buf_inv b1" "(\<forall>n. mem n) \<longrightarrow> b_data b1 = b_data b @ (if \<not> is_space prev then [32] else [])"
      using put_if_run [OF "1.prems", of "\<not> is_space prev" mem 32] by blast
    from "1.IH"(2) [OF tag b1(1,2)] b1(1,3) tag show ?thesis
      by (auto simp: loop clean simp del: map_option_eq_Some)
  next
    case space
    obtain b1 where b1: "(if \<not> is_space prev then map_option snd (buf_putchar mem (hd s) b) else Some b) = Some b1"
      "buf_inv b1" "(\<forall>n. mem n) \<longrightarrow> b_data b1 = b_data b @ (if \<not> is_space prev then [hd s] else [])"
      using put_if_run [OF "1.prems", of "\<not> is_space prev" mem "hd s"] by blast
    from "1.IH"(3) [OF space b1(1,2)] b1(1,3) space show ?thesis
      by (auto simp: loop clean simp del: map_option_eq_Some)
  next
    case char
    obtain b1 where b1: "(if xml_special (hd s) then map_option snd (buf_append mem (xml_ref (hd s)) b)
         else map_option snd (buf_putchar mem (hd s) b)) = Some b1"
      "buf_inv b1" "(\<forall>n. mem n) \<longrightarrow> b_data b1 = b_data b @ (if xml_special (hd s) then xml_ref (hd s) else [hd s])"
      using put_or_ref_run [OF "1.prems", of "xml_special (hd s)" mem "xml_ref (hd s)" "hd s"] by blast
    from "1.IH"(4) [OF char b1(1,2)] b1(1,3) char show ?thesis
      by (auto simp: loop clean simp del: map_option_eq_Some)
  qed
qed

lemma space_not_special: "is_space c \<Longrightarrow> \<not> xml_special c"
  by (auto simp: is_space_def xml_special_def word_le_nat_alt)

text \<open>What \<open>striptags\<close> leaves is XML text without markup.\<close>

lemma striptags_clean_text: "\<exists>t. xml_text (striptags_clean prev s) = Some t"
proof (induction prev s rule: striptags_clean.induct)
  case (1 prev s)
  have out: "\<exists>t. xml_text (u @ r) = Some t"
    if "(\<exists>c. xml_special c \<and> u = xml_ref c) \<or> list_all (\<lambda>c. \<not> xml_special c) u" "\<exists>t. xml_text r = Some t" for u r
    using that by (auto simp: xml_text_ref xml_text_plain)
  note clean = striptags_clean.simps [of prev s]
  consider (nil) "s = []" | (unclosed) "s \<noteq> []" "tag_start s" "tag_rest s = None"
    | (tag) r where "s \<noteq> []" "tag_start s" "tag_rest s = Some r"
    | (space) "s \<noteq> []" "\<not> tag_start s" "is_space (hd s)"
    | (char) "s \<noteq> []" "\<not> tag_start s" "\<not> is_space (hd s)"
    by (cases "tag_rest s") auto
  then show ?case
  proof cases
    case nil
    then show ?thesis by (simp add: striptags_clean.simps [of prev "[]"] xml_text.simps [of "[]"])
  next
    case unclosed
    with "1.IH"(1) [OF unclosed] show ?thesis by (simp add: clean)
  next
    case tag
    have "list_all (\<lambda>c. \<not> xml_special c) (if is_space prev then [] else [32])" by (simp add: xml_special_def)
    with out "1.IH"(2) [OF tag] tag show ?thesis by (simp add: clean)
  next
    case space
    then have "list_all (\<lambda>c. \<not> xml_special c) (if is_space prev then [] else [hd s])"
      by (simp add: space_not_special)
    with out "1.IH"(3) [OF space] space show ?thesis by (simp add: clean)
  next
    case char
    have "(\<exists>c. xml_special c \<and> u = xml_ref c) \<or> list_all (\<lambda>c. \<not> xml_special c) u"
      if "u = (if xml_special (hd s) then xml_ref (hd s) else [hd s])" for u
      using that by (auto split: if_splits)
    with out "1.IH"(4) [OF char] char show ?thesis by (simp add: clean)
  qed
qed

section \<open>Lua string literals\<close>

definition escape_out :: "bool \<Rightarrow> u8 \<Rightarrow> bytes" where
  "escape_out escape_xml c =
     (if c = 0x5C then [0x5C, 0x5C]
      else if c = 0x22 then (if escape_xml then xml_ref 0x22 else [0x5C, 0x22])
      else if c = 10 then [0x5C, 110]
      else if xml_special c \<and> escape_xml then xml_ref c
      else [c])"

lemma buf_append_run:
  assumes "buf_inv b"
  shows "\<exists>b'. map_option snd (buf_append mem u b) = Some b' \<and> buf_inv b'
    \<and> ((\<forall>n. mem n) \<longrightarrow> b_data b' = b_data b @ u)"
  using put_or_ref_run [OF assms, of True mem u] by simp

lemma escape_put_run:
  assumes "buf_inv b"
  shows "\<exists>b'. escape_put mem x c b = Some b' \<and> buf_inv b'
    \<and> ((\<forall>n. mem n) \<longrightarrow> b_data b' = b_data b @ escape_out x c)"
proof -
  have e: "bytes_of ''&#34;'' = xml_ref 0x22" "0x5C # bytes_of ''n'' = [0x5C, 110]" "chr CHR 0x5C = 0x5C"
    by code_simp+
  consider (bs) "c = 0x5C" | (dq) "c = 0x22" | (nl) "c = 10"
    | (xml) "c \<noteq> 0x5C" "c \<noteq> 0x22" "c \<noteq> 10" "c = 0x27 \<or> c = 0x26 \<or> c = 0x3C \<or> c = 0x3E" "x"
    | (plain) "c \<noteq> 0x5C" "c \<noteq> 0x22" "c \<noteq> 10" "\<not> ((c = 0x27 \<or> c = 0x26 \<or> c = 0x3C \<or> c = 0x3E) \<and> x)"
    by blast
  then show ?thesis
  proof cases
    case xml
    then have "escape_put mem x c b = map_option snd (buf_append mem (xml_ref c) b)" "escape_out x c = xml_ref c"
      by (auto simp: escape_put_def escape_out_def xml_special_def e)
    then show ?thesis using buf_append_run [OF assms, of mem "xml_ref c"] by simp
  next
    case plain
    then have "escape_put mem x c b = map_option snd (buf_putchar mem c b)" "escape_out x c = [c]"
      by (auto simp: escape_put_def escape_out_def xml_special_def e)
    then show ?thesis using put_if_run [OF assms, of True mem c] by simp
  qed (use buf_append_run [OF assms, of mem] in \<open>simp_all add: escape_put_def escape_out_def e\<close>)
qed

lemma luastr_escape_run:
  assumes "buf_inv b"
  shows "\<exists>b'. luastr_escape mem s x b = Some b' \<and> buf_inv b'
    \<and> ((\<forall>n. mem n) \<longrightarrow> b_data b' = b_data b @ concat (map (escape_out x) s))"
  using assms
proof (induction s arbitrary: b)
  case Nil
  then show ?case by (simp add: luastr_escape_def)
next
  case (Cons c s)
  obtain b1 where b1: "escape_put mem x c b = Some b1" "buf_inv b1"
    "(\<forall>n. mem n) \<longrightarrow> b_data b1 = b_data b @ escape_out x c"
    using escape_put_run [OF Cons.prems] by blast
  with Cons.IH [OF b1(2)] show ?case by (auto simp: luastr_escape_def)
qed

text \<open>
  The value of the string literal \<open>"..."\<close> around these bytes, for the escape sequences the
  code uses; Lua ends a literal at a quote and refuses one with a raw line break.
\<close>

fun lua_literal :: "bytes \<Rightarrow> bytes option" where
  "lua_literal [] = Some []"
| "lua_literal (c # s) =
     (if c = 0x5C then
        (case s of
           [] \<Rightarrow> None
         | d # r \<Rightarrow>
             if d = 0x5C \<or> d = 0x22 then map_option ((#) d) (lua_literal r)
             else if d = 110 then map_option ((#) 10) (lua_literal r)
             else None)
      else if c = 0x22 \<or> c = 10 \<or> c = 13 then None
      else map_option ((#) c) (lua_literal s))"

definition xml_out :: "bool \<Rightarrow> u8 \<Rightarrow> bytes" where
  "xml_out x c = (if x \<and> xml_special c then xml_ref c else [c])"

lemma lua_literal_plain:
  "list_all (\<lambda>c. c \<noteq> 0x5C \<and> c \<noteq> 0x22 \<and> c \<noteq> 10 \<and> c \<noteq> 13) u \<Longrightarrow>
    lua_literal (u @ r) = map_option ((@) u) (lua_literal r)"
proof (induction u)
  case (Cons c u)
  then show ?case by (simp add: option.map_comp comp_def)
qed (simp add: map_option_case split: option.splits)

lemma xml_ref_plain: "xml_special c \<Longrightarrow> list_all (\<lambda>c. c \<noteq> 0x5C \<and> c \<noteq> 0x22 \<and> c \<noteq> 10 \<and> c \<noteq> 13) (xml_ref c)"
  by (auto simp: xml_special_def xml_refs)

lemma escape_consts:
  "escape_out x 0x5C = [0x5C, 0x5C]" "xml_out x 0x5C = [0x5C]"
  "escape_out False 0x22 = [0x5C, 0x22]" "xml_out False 0x22 = [0x22]"
  "escape_out x 10 = [0x5C, 110]" "xml_out x 10 = [10]"
  "escape_out x 13 = [13]" "xml_out x 13 = [13]"
  by (simp_all add: escape_out_def xml_out_def xml_special_def)

lemma lua_literal_escape:
  "lua_literal (concat (map (escape_out x) s)) = (if 13 \<in> set s then None else Some (concat (map (xml_out x) s)))"
proof (induction s)
  case (Cons c s)
  consider (bs) "c = 0x5C" | (dq) "c = 0x22" "\<not> x" | (nl) "c = 10" | (cr) "c = 13"
    | (xml) "x" "xml_special c"
    | (plain) "c \<noteq> 0x5C" "c \<noteq> 0x22" "c \<noteq> 10" "c \<noteq> 13" "\<not> (x \<and> xml_special c)"
    by (auto simp: xml_special_def)
  then show ?case
  proof cases
    case xml
    then have "escape_out x c = xml_ref c" "xml_out x c = xml_ref c" "c \<noteq> 13"
      by (auto simp: escape_out_def xml_out_def xml_special_def)
    with Cons xml_ref_plain [OF xml(2)] show ?thesis by (simp add: lua_literal_plain)
  next
    case plain
    then have "escape_out x c = [c]" "xml_out x c = [c]" by (auto simp: escape_out_def xml_out_def)
    with Cons plain show ?thesis by simp
  qed (use Cons in \<open>simp_all add: escape_consts\<close>)
qed simp

section \<open>Properties\<close>

lemma with_buffer_run:
  assumes "\<And>b. buf_inv b \<Longrightarrow> \<exists>b'. f b = Some b' \<and> buf_inv b' \<and> ((\<forall>n. mem n) \<longrightarrow> b_data b' = b_data b @ r)"
  shows "\<exists>u. with_buffer mem n f = Some u \<and> ((\<forall>n. mem n) \<longrightarrow> u = Some r)"
proof (cases "buf_init mem n")
  case None
  then show ?thesis by (auto simp: with_buffer_def buf_init_def Let_def split: if_splits)
next
  case (Some b)
  from buf_init_inv [OF this] assms [of b] obtain b' where
    "f b = Some b'" "(\<forall>n. mem n) \<longrightarrow> b_data b' = r" by auto
  with Some show ?thesis by (auto simp: with_buffer_def buf_destroy_def)
qed

lemma utf8_run: "\<exists>u. utf8 mem s = Some u \<and> ((\<forall>n. mem n) \<longrightarrow> u = Some (utf8_clean s))"
  unfolding utf8_def by (rule with_buffer_run) (rule utf8_loop_run)

lemma pcdata_run: "\<exists>u. pcdata mem s = Some u \<and> ((\<forall>n. mem n) \<longrightarrow> u = Some (pcdata_clean s))"
  unfolding pcdata_def by (rule with_buffer_run) (rule pcdata_loop_run)

lemma set_utf8_step: "set (fst (utf8_step s)) \<subseteq> insert 63 (set s)" if "s \<noteq> []"
  using that by (auto simp: utf8_step_def Let_def dest: in_set_takeD)

lemma set_utf8_clean: "set (utf8_clean s) \<subseteq> insert 63 (set s)"
proof (induction s rule: utf8_clean.induct)
  case (1 s)
  then show ?case using set_utf8_step [of s] set_drop_subset [of "snd (utf8_step s)" s]
    by (cases "s = []") (auto simp: utf8_clean.simps [of s])
qed



text \<open>\<open>utf8\<close> is idempotent: what it returns it leaves alone.\<close>

theorem tmpl_utf8_idempotent:
  assumes "\<forall>n. mem n"
  shows "\<exists>u. utf8 mem s = Some (Some u) \<and> utf8 mem u = Some (Some u)"
  using utf8_run [of mem s] utf8_run [of mem "utf8_clean s"] assms utf8_clean_idem [of s] by auto

theorem tmpl_utf8_idempotent_witness:
  "\<exists>u. utf8 (\<lambda>_. True) [0xC3, 0xFF, 0x41] = Some (Some u) \<and> utf8 (\<lambda>_. True) u = Some (Some u)"
  by (rule tmpl_utf8_idempotent) simp



text \<open>A sequence that starts with \<open>F7\<close>, beyond the last code point of Unicode, passes as
  valid.\<close>

theorem tmpl_utf8_beyond_unicode:
  "utf8 (\<lambda>_. True) [0xF7, 0xBF, 0xBF, 0xBF] = Some (Some [0xF7, 0xBF, 0xBF, 0xBF])
    \<and> \<not> unicode_wf [0xF7, 0xBF, 0xBF, 0xBF]"
proof
  show "utf8 (\<lambda>_. True) [0xF7, 0xBF, 0xBF, 0xBF] = Some (Some [0xF7, 0xBF, 0xBF, 0xBF])" by code_simp
qed simp



text \<open>What \<open>striptags\<close> leaves is XML text: no quote or angle bracket stands for itself,
  and every ampersand starts a reference.\<close>

theorem tmpl_striptags_text:
  assumes "\<forall>n. mem n"
  shows "\<exists>p t. striptags mem s = Some p \<and> xml_text p = Some t"
proof -
  obtain b where b: "buf_init mem (int (length s)) = Some b" using assms by (simp add: buf_init_def Let_def)
  with striptags_loop_run [of b mem 32 s] buf_init_inv [OF b] assms striptags_clean_text [of 32 s]
  show ?thesis by (auto simp: striptags_def buf_destroy_def)
qed

theorem tmpl_striptags_text_witness:
  "\<exists>p t. striptags (\<lambda>_. True) (bytes_of ''<b>1<2</b> \"x\"'') = Some p \<and> xml_text p = Some t"
  by (rule tmpl_striptags_text) simp



end
