(* ===== verification/Template_Lmo.thy ===== *)
theory Template_Lmo
  imports Template_Utils
begin

text \<open>
  The translation catalogs of LuCI's template engine
  (\<open>src/luci/modules/luci-base/src/template_lmo.c\<close>): the hash function, the archives of
  translated strings, the list of catalogs and the lookup of a translation.

  An archive is a mapped file: the strings, then an index of entries sorted by key, then the
  offset of the index, all numbers big-endian.  Reading outside of the file is undefined
  (\<open>None\<close>).  Catalogs are objects in memory, by number; a freed object is no longer in the
  heap, and using it is undefined.
\<close>

section \<open>Hashes\<close>

text \<open>A byte read through \<open>char *\<close>: \<open>csigned\<close> says whether the machine's \<open>char\<close> is signed.\<close>

definition char_val :: "bool \<Rightarrow> u8 \<Rightarrow> u32" where
  "char_val csigned c = (if csigned then scast c else ucast c)"

definition sfh_get16 :: "u8 \<Rightarrow> u8 \<Rightarrow> u32" where
  "sfh_get16 d0 d1 = push_bit 8 (ucast d1) + ucast d0"

text \<open>The main loop takes four bytes at a time; \<open>sfh_tail\<close> are the cases of what is left.\<close>

fun sfh_main :: "u32 \<Rightarrow> bytes \<Rightarrow> u32 \<times> bytes" where
  "sfh_main h (a # b # c # d # rest) =
     (let h = h + sfh_get16 a b;
          tmp = push_bit 11 (sfh_get16 c d) XOR h;
          h = push_bit 16 h XOR tmp
      in sfh_main (h + drop_bit 11 h) rest)"
| "sfh_main h rest = (h, rest)"

fun sfh_tail :: "bool \<Rightarrow> u32 \<Rightarrow> bytes \<Rightarrow> u32" where
  "sfh_tail csigned h [a, b, c] =
     (let h = h + sfh_get16 a b; h = h XOR push_bit 16 h; h = h XOR push_bit 18 (char_val csigned c)
      in h + drop_bit 11 h)"
| "sfh_tail csigned h [a, b] =
     (let h = h + sfh_get16 a b; h = h XOR push_bit 11 h in h + drop_bit 17 h)"
| "sfh_tail csigned h [a] =
     (let h = h + char_val csigned a; h = h XOR push_bit 10 h in h + drop_bit 1 h)"
| "sfh_tail csigned h _ = h"

definition sfh_avalanche :: "u32 \<Rightarrow> u32" where
  "sfh_avalanche h =
     (let h = h XOR push_bit 3 h; h = h + drop_bit 5 h; h = h XOR push_bit 4 h; h = h + drop_bit 17 h;
          h = h XOR push_bit 25 h
      in h + drop_bit 6 h)"

definition sfh_hash :: "bool \<Rightarrow> bytes \<Rightarrow> u32" where
  "sfh_hash csigned data =
     (if data = [] then 0
      else (let (h, rest) = sfh_main (word_of_nat (length data)) data
            in sfh_avalanche (sfh_tail csigned h rest)))"

text \<open>Runs of white space become one blank, and there is none at either end.\<close>

fun canon_loop :: "u8 \<Rightarrow> bytes \<Rightarrow> bytes" where
  "canon_loop prev [] = []"
| "canon_loop prev (c # s) =
     (if is_space c then (if is_space prev then [] else [32]) else [c]) @ canon_loop c s"

definition canon :: "bytes \<Rightarrow> bytes" where
  "canon s = (let res = canon_loop 32 s in if res \<noteq> [] \<and> is_space (last res) then butlast res else res)"

definition lmo_canon_hash :: "bool \<Rightarrow> bytes \<Rightarrow> u32" where
  "lmo_canon_hash csigned s = (if length s \<ge> 4096 then 0 else sfh_hash csigned (canon s))"

section \<open>Archives\<close>

record lmo_entry =
  key_id :: u32
  val_id :: u32
  e_offset :: u32
  e_length :: u32

text \<open>\<open>ar_index\<close> is the offset of the index in the mapped file.\<close>

record lmo_archive =
  ar_length :: int
  ar_size :: u32
  ar_index :: nat
  ar_mmap :: bytes

text \<open>A big-endian word of the file.\<close>

definition rd32 :: "bytes \<Rightarrow> nat \<Rightarrow> u32 option" where
  "rd32 m off = (if off + 4 \<le> length m then Some (word32 (take 4 (drop off m))) else None)"

text \<open>
  \<open>lmo_open\<close> on a file (\<open>None\<close> if it cannot be opened).  An empty file cannot be mapped.
  The number of entries is computed in \<open>size_t\<close> and stored in an \<open>int\<close>.
\<close>

definition lmo_open :: "target \<Rightarrow> bytes option \<Rightarrow> lmo_archive option option" where
  "lmo_open t file =
     (case file of
        None \<Rightarrow> Some None
      | Some m \<Rightarrow>
          (if m = [] then Some None
           else if length m < 4 then None
           else do {
             idx \<leftarrow> rd32 m (length m - 4);
             let size = (word_of_nat (length m) :: u32);
             Some (if idx \<ge> size then None
               else Some
                 \<lparr>ar_length = to_s32 (int (nat ((int (unat (size - idx)) - 4) mod (int (tgt_ulong_max t) + 1)) div 16)),
                  ar_size = size, ar_index = unat idx, ar_mmap = m\<rparr>)
           }))"

definition entry_at :: "lmo_archive \<Rightarrow> nat \<Rightarrow> lmo_entry option" where
  "entry_at ar off = do {
     k \<leftarrow> rd32 (ar_mmap ar) off;
     v \<leftarrow> rd32 (ar_mmap ar) (off + 4);
     p \<leftarrow> rd32 (ar_mmap ar) (off + 8);
     n \<leftarrow> rd32 (ar_mmap ar) (off + 12);
     Some \<lparr>key_id = k, val_id = v, e_offset = p, e_length = n\<rparr>
   }"

text \<open>The key of entry \<open>m\<close>, which the search reads; the mapping has \<open>ar_size\<close> bytes.\<close>

definition key_at :: "lmo_archive \<Rightarrow> u32 \<Rightarrow> u32 option" where
  "key_at ar m =
     (let off = ar_index ar + 16 * unat m
      in if off + 4 \<le> unat (ar_size ar) then rd32 (ar_mmap ar) off else None)"

lemma key_at_bound: "key_at ar m = Some k \<Longrightarrow> unat m < 2 ^ 28"
  using unsigned_less [of "ar_size ar", where 'a = nat]
  by (auto simp: key_at_def Let_def split: if_splits)

lemma mid_bounds:
  fixes l r :: u32
  assumes "\<not> r < l"
  shows "unat (l + (r - l) div 2) = unat l + (unat r - unat l) div 2"
proof -
  have lr: "unat l \<le> unat r" using assms by (simp add: word_le_nat_alt not_less)
  then have "unat ((r - l) div 2) = (unat r - unat l) div 2"
    using assms by (simp add: unat_div unat_sub word_le_nat_alt)
  moreover have "unat l + (unat r - unat l) div 2 < 2 ^ 32"
    using lr unsigned_less [of r, where 'a = nat] by simp
  ultimately show ?thesis by (simp add: unat_word_ariths)
qed

lemma unat_plus_one: "unat (m :: u32) < 2 ^ 28 \<Longrightarrow> unat (m + 1) = unat m + 1"
  by (simp add: unat_word_ariths)

text \<open>
  The binary search: the offset of the entry found, \<open>Some None\<close> if there is none.  All of
  \<open>l\<close>, \<open>r\<close> and \<open>m\<close> are unsigned.
\<close>

function lmo_find_loop :: "lmo_archive \<Rightarrow> u32 \<Rightarrow> u32 \<Rightarrow> u32 \<Rightarrow> nat option option" where
  "lmo_find_loop ar hash l r =
     (let m = l + (r - l) div 2 in
      if r < l then Some None
      else (case key_at ar m of
          None \<Rightarrow> None
        | Some k \<Rightarrow>
            if k = hash then Some (Some (ar_index ar + 16 * unat m))
            else if k > hash then (if m = 0 then Some None else lmo_find_loop ar hash l (m - 1))
            else lmo_find_loop ar hash (m + 1) r))"
  by pat_completeness auto

termination
proof (relation "measure (\<lambda>(ar, hash, l, r). unat r + 1 - unat l)", goal_cases)
  case (2 ar hash l r m k)
  then have "unat m \<le> unat r" "unat m = unat l + (unat r - unat l) div 2" "unat l \<le> unat r"
    using mid_bounds [of r l] by (auto simp: word_le_nat_alt not_less)
  moreover have "unat (m - 1) = unat m - 1" "0 < unat m"
    using 2 by (simp_all add: unat_minus_one unat_gt_0)
  moreover have "(unat r - unat l) div 2 \<le> unat r - unat l" by simp
  ultimately show ?case unfolding in_measure prod.case by linarith
next
  case (3 ar hash l r m k)
  then have "unat m = unat l + (unat r - unat l) div 2" "unat l \<le> unat r"
    using mid_bounds [of r l] by (auto simp: word_le_nat_alt not_less)
  moreover have "unat (m + 1) = unat m + 1" using 3 key_at_bound by (intro unat_plus_one) blast
  ultimately show ?case by simp
qed simp

declare lmo_find_loop.simps [simp del]

definition lmo_find_entry :: "lmo_archive \<Rightarrow> u32 \<Rightarrow> nat option option" where
  "lmo_find_entry ar hash = lmo_find_loop ar hash 0 (word_of_int (ar_length ar - 1))"

section \<open>Catalogs\<close>

record lmo_catalog =
  cat_lang :: string
  cat_archives :: "lmo_archive list"

text \<open>\<open>lm_list\<close> is \<open>_lmo_catalogs\<close>, \<open>lm_active\<close> is \<open>_lmo_active_catalog\<close>.\<close>

record lmo_state =
  lm_heap :: "nat \<Rightarrow> lmo_catalog option"
  lm_next :: nat
  lm_list :: "nat list"
  lm_active :: "nat option"

definition lmo_init :: lmo_state where
  "lmo_init = \<lparr>lm_heap = (\<lambda>_. None), lm_next = 0, lm_list = [], lm_active = None\<rparr>"

text \<open>\<open>!strncmp(cat->lang, lang, 6)\<close>\<close>

definition same_lang :: "string \<Rightarrow> string \<Rightarrow> bool" where
  "same_lang a b \<longleftrightarrow> take 6 (a @ [CHR 0x00]) = take 6 (b @ [CHR 0x00])"

text \<open>The first catalog of the list for a language; every element is read until it is found.\<close>

fun find_catalog :: "(nat \<Rightarrow> lmo_catalog option) \<Rightarrow> string \<Rightarrow> nat list \<Rightarrow> nat option option" where
  "find_catalog h lang [] = Some None"
| "find_catalog h lang (c # cs) =
     (case h c of
        None \<Rightarrow> None
      | Some cat \<Rightarrow> if same_lang (cat_lang cat) lang then Some (Some c) else find_catalog h lang cs)"

definition lmo_change_catalog :: "string \<Rightarrow> lmo_state \<Rightarrow> (int \<times> lmo_state) option" where
  "lmo_change_catalog lang st =
     (case find_catalog (lm_heap st) lang (lm_list st) of
        None \<Rightarrow> None
      | Some None \<Rightarrow> Some (-1, st)
      | Some (Some c) \<Rightarrow> Some (0, st\<lparr>lm_active := Some c\<rparr>))"

text \<open>
  \<open>fnmatch\<close> for patterns of \<open>*\<close>, \<open>?\<close> and characters that stand for themselves.
\<close>

fun fnmatch :: "string \<Rightarrow> string \<Rightarrow> bool" where
  "fnmatch [] s \<longleftrightarrow> s = []"
| "fnmatch (p # ps) s \<longleftrightarrow>
     (if p = CHR ''*'' then (\<exists>k\<in>set [0..<Suc (length s)]. fnmatch ps (drop k s))
      else s \<noteq> [] \<and> (p = CHR ''?'' \<or> hd s = p) \<and> fnmatch ps (tl s))"

text \<open>The entries of the directory in the order they are read, each with the file it names.\<close>

fun load_archives ::
  "target \<Rightarrow> string \<Rightarrow> (string \<times> bytes option) list \<Rightarrow> lmo_archive list \<Rightarrow> lmo_archive list option" where
  "load_archives t pat [] ars = Some ars"
| "load_archives t pat ((name, file) # es) ars =
     (if fnmatch pat name
      then (case lmo_open t file of
              None \<Rightarrow> None
            | Some None \<Rightarrow> load_archives t pat es ars
            | Some (Some ar) \<Rightarrow> load_archives t pat es (ar # ars))
      else load_archives t pat es ars)"

definition lmo_load_catalog ::
  "target \<Rightarrow> string \<Rightarrow> (string \<times> bytes option) list option \<Rightarrow> lmo_state \<Rightarrow> (int \<times> lmo_state) option" where
  "lmo_load_catalog t lang dir st =
     (case lmo_change_catalog lang st of
        None \<Rightarrow> None
      | Some (r, st') \<Rightarrow>
          if r = 0 then Some (0, st')
          else (case dir of
              None \<Rightarrow> Some (-1, st)
            | Some es \<Rightarrow>
                map_option (\<lambda>ars.
                  let c = lm_next st;
                      cat = \<lparr>cat_lang = take 5 lang, cat_archives = ars\<rparr>
                  in (0, st\<lparr>lm_heap := (lm_heap st)(c := Some cat), lm_next := c + 1,
                        lm_list := c # lm_list st,
                        lm_active := (case lm_active st of None \<Rightarrow> Some c | a \<Rightarrow> a)\<rparr>))
                (load_archives t (take 15 (''*.'' @ lang @ ''.lmo'')) es [])))"

text \<open>The bytes of a translation, which the caller reads at \<open>*out\<close>.\<close>

definition slice :: "bytes \<Rightarrow> nat \<Rightarrow> nat \<Rightarrow> bytes option" where
  "slice m off n = (if off + n \<le> length m then Some (take n (drop off m)) else None)"

datatype translation = No_catalog | Not_found | Translated bytes

fun lmo_lookup :: "u32 \<Rightarrow> lmo_archive list \<Rightarrow> translation option" where
  "lmo_lookup hash [] = Some Not_found"
| "lmo_lookup hash (ar # ars) =
     (case lmo_find_entry ar hash of
        None \<Rightarrow> None
      | Some None \<Rightarrow> lmo_lookup hash ars
      | Some (Some off) \<Rightarrow> do {
          e \<leftarrow> entry_at ar off;
          s \<leftarrow> slice (ar_mmap ar) (unat (e_offset e)) (unat (e_length e));
          Some (Translated s)
        })"

definition lmo_translate :: "bool \<Rightarrow> bytes \<Rightarrow> lmo_state \<Rightarrow> translation option" where
  "lmo_translate csigned key st =
     (case lm_active st of
        None \<Rightarrow> Some No_catalog
      | Some c \<Rightarrow>
          (case lm_heap st c of
             None \<Rightarrow> None
           | Some cat \<Rightarrow> lmo_lookup (lmo_canon_hash csigned key) (cat_archives cat)))"

text \<open>The catalog is unlinked and freed; \<open>_lmo_active_catalog\<close> is not touched.\<close>

definition lmo_close_catalog :: "string \<Rightarrow> lmo_state \<Rightarrow> lmo_state option" where
  "lmo_close_catalog lang st =
     (case find_catalog (lm_heap st) lang (lm_list st) of
        None \<Rightarrow> None
      | Some None \<Rightarrow> Some st
      | Some (Some c) \<Rightarrow> Some (st\<lparr>lm_heap := (lm_heap st)(c := None), lm_list := remove1 c (lm_list st)\<rparr>))"

text \<open>\<open>luastr_translate\<close> of \<open>template_utils.c\<close>\<close>

definition luastr_translate ::
  "allocator \<Rightarrow> bool \<Rightarrow> lmo_state \<Rightarrow> bytes \<Rightarrow> bool \<Rightarrow> template_buffer \<Rightarrow> template_buffer option" where
  "luastr_translate mem csigned st s escape_xml out =
     (case lmo_translate csigned s st of
        None \<Rightarrow> None
      | Some (Translated tr) \<Rightarrow> luastr_escape mem tr escape_xml out
      | Some _ \<Rightarrow> luastr_escape mem s escape_xml out)"

end
