(* ===== verification/Template_Lmo_Facts.thy ===== *)
theory Template_Lmo_Facts
  imports Template_Lmo
begin

text \<open>
  What the catalogs of the template engine promise: the search finds an entry of a sorted
  index exactly if there is one and never reads outside of it, a catalog is the union of the
  dictionaries of its archives, and the active catalog stays valid as long as it is not closed.
\<close>

section \<open>The contract of a table of translations\<close>

text \<open>
  \<open>dict a\<close> is the abstract table of \<open>a\<close>, \<open>lookup\<close> finds a value in it.  The client
  asks one table after the other.
\<close>

locale lookup_table =
  fixes ok :: "'a \<Rightarrow> bool"
    and dict :: "'a \<Rightarrow> 'k \<Rightarrow> 'v option"
    and lookup :: "'k \<Rightarrow> 'a \<Rightarrow> 'v option option"
  assumes lookup_dict: "ok a \<Longrightarrow> lookup k a = Some (dict a k)"
begin

fun first_of :: "'k \<Rightarrow> 'a list \<Rightarrow> 'v option option" where
  "first_of k [] = Some None"
| "first_of k (a # as) =
     (case lookup k a of None \<Rightarrow> None | Some None \<Rightarrow> first_of k as | Some (Some v) \<Rightarrow> Some (Some v))"

lemma first_of_dict:
  "list_all ok as \<Longrightarrow> first_of k as = Some (foldr (\<lambda>a m. m ++ dict a) as Map.empty k)"
  by (induction as) (auto simp: lookup_dict map_add_def split: option.splits)

end

section \<open>The search\<close>

definition key_of :: "lmo_archive \<Rightarrow> nat \<Rightarrow> u32" where
  "key_of ar i = word32 (take 4 (drop (ar_index ar + 16 * i) (ar_mmap ar)))"

text \<open>An index of \<open>n > 0\<close> entries inside of the file, sorted by key.\<close>

definition wf_index :: "lmo_archive \<Rightarrow> nat \<Rightarrow> bool" where
  "wf_index ar n \<longleftrightarrow> 0 < n \<and> ar_length ar = int n \<and> length (ar_mmap ar) = unat (ar_size ar)
    \<and> ar_index ar + 16 * n \<le> length (ar_mmap ar)
    \<and> (\<forall>j<n. \<forall>i<j. key_of ar i \<le> key_of ar j)"

lemma wf_index_small: "wf_index ar n \<Longrightarrow> n < 2 ^ 28"
  using unsigned_less [of "ar_size ar", where 'a = nat] by (simp add: wf_index_def)

lemma key_at_key_of:
  assumes "wf_index ar n" and "unat m < n"
  shows "key_at ar m = Some (key_of ar (unat m))"
proof -
  have "ar_index ar + 16 * unat m + 16 \<le> length (ar_mmap ar)" using assms by (simp add: wf_index_def)
  then show ?thesis using assms(1) by (simp add: key_at_def rd32_def key_of_def wf_index_def)
qed

lemma lmo_find_loop_correct:
  assumes "wf_index ar n" and "unat l \<le> n" and "unat r < n"
    and "\<And>i. i < unat l \<Longrightarrow> key_of ar i < hash"
    and "\<And>i. unat r < i \<Longrightarrow> i < n \<Longrightarrow> hash < key_of ar i"
  shows "\<exists>res. lmo_find_loop ar hash l r = Some res
    \<and> (case res of None \<Rightarrow> \<forall>i<n. key_of ar i \<noteq> hash
       | Some off \<Rightarrow> \<exists>i<n. off = ar_index ar + 16 * i \<and> key_of ar i = hash)"
  using assms
proof (induction ar hash l r rule: lmo_find_loop.induct)
  case (1 ar hash l r)
  define m where "m = l + (r - l) div 2"
  have loop: "lmo_find_loop ar hash l r =
     (if r < l then Some None
      else (case key_at ar m of
          None \<Rightarrow> None
        | Some k \<Rightarrow>
            if k = hash then Some (Some (ar_index ar + 16 * unat m))
            else if k > hash then (if m = 0 then Some None else lmo_find_loop ar hash l (m - 1))
            else lmo_find_loop ar hash (m + 1) r))"
    by (subst lmo_find_loop.simps) (simp only: Let_def m_def)
  have sorted: "key_of ar i \<le> key_of ar j" if "i \<le> j" "j < n" for i j
    using "1.prems"(1) that by (cases "i = j") (auto simp: wf_index_def)
  show ?case
  proof (cases "r < l")
    case True
    have "key_of ar i \<noteq> hash" if "i < n" for i
    proof (cases "i < unat l")
      case True
      then show ?thesis using "1.prems"(4) by force
    next
      case False
      then have "unat r < i" using \<open>r < l\<close> by (simp add: word_less_nat_alt)
      then show ?thesis using "1.prems"(5) that by force
    qed
    with True loop show ?thesis by simp
  next
    case False
    then have m: "unat m = unat l + (unat r - unat l) div 2" "unat l \<le> unat m" "unat m \<le> unat r"
      using mid_bounds [OF False] by (auto simp: m_def word_le_nat_alt not_less)
    let ?k = "key_of ar (unat m)"
    have mn: "unat m < n" using m(3) "1.prems"(3) by simp
    then have k: "key_at ar m = Some ?k" using key_at_key_of "1.prems"(1) by blast
    consider "?k = hash" | "hash < ?k" "m = 0" | (left) "hash < ?k" "m \<noteq> 0" | (right) "?k < hash"
      by (metis linorder_cases)
    then show ?thesis
    proof cases
      case 1
      then show ?thesis using loop False k mn by auto
    next
      case 2
      have "key_of ar i \<noteq> hash" if "i < n" for i
        using sorted [of 0 i] that 2 by (auto simp: not_le [symmetric])
      then show ?thesis using loop False k 2 by simp
    next
      case left
      have u: "unat (m - 1) = unat m - 1" "0 < unat m" using left(2) by (simp_all add: unat_minus_one unat_gt_0)
      have above: "hash < key_of ar i" if "unat (m - 1) < i" "i < n" for i
      proof -
        have "unat m \<le> i" using that(1) u by linarith
        then show ?thesis using sorted that(2) left(1) order.strict_trans2 by blast
      qed
      have below_n: "unat (m - 1) < n" using u mn by simp
      have nk: "?k \<noteq> hash" using left(1) by simp
      have "lmo_find_loop ar hash l r = lmo_find_loop ar hash l (m - 1)" using loop False k nk left by simp
      moreover note "1.IH"(1) [OF m_def False k nk left "1.prems"(1,2) below_n "1.prems"(4) above]
      ultimately show ?thesis by simp
    next
      case right
      have u: "unat (m + 1) = unat m + 1" using key_at_bound [OF k] by (rule unat_plus_one)
      have below: "key_of ar i < hash" if "i < unat (m + 1)" for i
        using sorted [of i "unat m"] that right u mn by (simp add: less_Suc_eq_le)
      have le: "unat (m + 1) \<le> n" using u mn by simp
      have nk: "?k \<noteq> hash" "\<not> hash < ?k" using right by auto
      have "lmo_find_loop ar hash l r = lmo_find_loop ar hash (m + 1) r" using loop False k nk by simp
      moreover note "1.IH"(2) [OF m_def False k nk "1.prems"(1) le "1.prems"(3) below "1.prems"(5)]
      ultimately show ?thesis by simp
    qed
  qed
qed

lemma lmo_find_entry_correct:
  assumes "wf_index ar n"
  shows "\<exists>res. lmo_find_entry ar hash = Some res
    \<and> (case res of None \<Rightarrow> \<forall>i<n. key_of ar i \<noteq> hash
       | Some off \<Rightarrow> \<exists>i<n. off = ar_index ar + 16 * i \<and> key_of ar i = hash)"
proof -
  have n: "0 < n" "n < 2 ^ 28" using assms wf_index_small by (auto simp: wf_index_def)
  have "word_of_int (ar_length ar - 1) = (word_of_nat (n - 1) :: u32)"
    using assms n by (simp add: wf_index_def of_nat_diff)
  moreover have "unat (word_of_nat (n - 1) :: u32) = n - 1"
    by (subst unat_of_nat) (use n in simp)
  ultimately show ?thesis
    unfolding lmo_find_entry_def using n
    by (intro lmo_find_loop_correct [OF assms]) auto
qed

section \<open>The dictionary of an archive\<close>

text \<open>Entry \<open>i\<close> of the index: its fields and its string.\<close>

definition field :: "lmo_archive \<Rightarrow> nat \<Rightarrow> nat \<Rightarrow> nat" where
  "field ar i k = unat (word32 (take 4 (drop (ar_index ar + 16 * i + k) (ar_mmap ar))) :: u32)"

definition text_of :: "lmo_archive \<Rightarrow> nat \<Rightarrow> bytes" where
  "text_of ar i = take (field ar i 12) (drop (field ar i 8) (ar_mmap ar))"

text \<open>An archive whose keys are distinct and whose strings are in the file.\<close>

definition wf_archive :: "lmo_archive \<Rightarrow> bool" where
  "wf_archive ar \<longleftrightarrow> wf_index ar (nat (ar_length ar)) \<and> inj_on (key_of ar) {..<nat (ar_length ar)}
    \<and> (\<forall>i<nat (ar_length ar). field ar i 8 + field ar i 12 \<le> length (ar_mmap ar))"

definition ar_dict :: "lmo_archive \<Rightarrow> u32 \<Rightarrow> bytes option" where
  "ar_dict ar = map_of (map (\<lambda>i. (key_of ar i, text_of ar i)) [0..<nat (ar_length ar)])"

lemma ar_dict_entry:
  "wf_archive ar \<Longrightarrow> i < nat (ar_length ar) \<Longrightarrow> ar_dict ar (key_of ar i) = Some (text_of ar i)"
  unfolding ar_dict_def
  by (rule map_of_is_SomeI) (auto simp: wf_archive_def comp_def distinct_map atLeast0LessThan)

lemma ar_dict_none: "ar_dict ar k = None \<longleftrightarrow> (\<forall>i<nat (ar_length ar). key_of ar i \<noteq> k)"
  by (force simp: ar_dict_def map_of_eq_None_iff)

text \<open>The string that \<open>lmo_lookup\<close> takes from one archive.\<close>

definition ar_lookup :: "u32 \<Rightarrow> lmo_archive \<Rightarrow> bytes option option" where
  "ar_lookup hash ar = do {
     found \<leftarrow> lmo_find_entry ar hash;
     case found of
       None \<Rightarrow> Some None
     | Some off \<Rightarrow> do {
         e \<leftarrow> entry_at ar off;
         s \<leftarrow> slice (ar_mmap ar) (unat (e_offset e)) (unat (e_length e));
         Some (Some s)
       }
   }"

lemma entry_string:
  assumes "wf_archive ar" and "i < nat (ar_length ar)"
  shows "\<exists>e. entry_at ar (ar_index ar + 16 * i) = Some e
    \<and> slice (ar_mmap ar) (unat (e_offset e)) (unat (e_length e)) = Some (text_of ar i)"
proof -
  have "ar_index ar + 16 * i + 16 \<le> length (ar_mmap ar)"
    using assms by (simp add: wf_archive_def wf_index_def)
  then show ?thesis
    using assms by (auto simp: entry_at_def rd32_def slice_def text_of_def field_def wf_archive_def)
qed

lemma ar_lookup_dict:
  assumes wf: "wf_archive ar"
  shows "ar_lookup hash ar = Some (ar_dict ar hash)"
proof -
  obtain res where res: "lmo_find_entry ar hash = Some res"
    "case res of None \<Rightarrow> \<forall>i<nat (ar_length ar). key_of ar i \<noteq> hash
       | Some off \<Rightarrow> \<exists>i<nat (ar_length ar). off = ar_index ar + 16 * i \<and> key_of ar i = hash"
    using lmo_find_entry_correct [of ar "nat (ar_length ar)" hash] wf unfolding wf_archive_def by blast
  show ?thesis
  proof (cases res)
    case None
    then show ?thesis using res ar_dict_none [of ar hash] by (simp add: ar_lookup_def)
  next
    case (Some off)
    then obtain i where i: "i < nat (ar_length ar)" "off = ar_index ar + 16 * i" "key_of ar i = hash"
      using res(2) by auto
    then show ?thesis
      using entry_string [OF wf i(1)] ar_dict_entry [OF wf i(1)] Some res(1) by (auto simp: ar_lookup_def)
  qed
qed

interpretation lar: lookup_table wf_archive ar_dict ar_lookup
  by unfold_locales (rule ar_lookup_dict)

lemma lmo_lookup_Cons:
  "lmo_lookup hash (ar # ars) =
     (case ar_lookup hash ar of
        None \<Rightarrow> None
      | Some None \<Rightarrow> lmo_lookup hash ars
      | Some (Some s) \<Rightarrow> Some (Translated s))"
  by (auto simp: ar_lookup_def split: option.splits Option.bind_splits)

lemma lmo_lookup_first_of:
  "lmo_lookup hash ars = map_option (case_option Not_found Translated) (lar.first_of hash ars)"
proof (induction ars)
  case (Cons ar ars)
  then show ?case
    by (simp only: lmo_lookup_Cons lar.first_of.simps) (auto split: option.splits)
qed simp

text \<open>A table of dictionaries, the ones in front first.\<close>

definition dict_union :: "lmo_archive list \<Rightarrow> u32 \<Rightarrow> bytes option" where
  "dict_union ars = foldr (\<lambda>ar m. m ++ ar_dict ar) ars Map.empty"

lemma lmo_lookup_dicts:
  assumes "list_all wf_archive ars"
  shows "lmo_lookup hash ars = Some (case dict_union ars hash of None \<Rightarrow> Not_found | Some s \<Rightarrow> Translated s)"
  using lar.first_of_dict [OF assms, of hash]
  by (simp add: lmo_lookup_first_of dict_union_def)

text \<open>
  C25: looking up a key in well-formed archives gives its string in the union of their
  dictionaries, where the archive in front of the list wins, and \<open>Not_found\<close> exactly for a key
  of none; the search reads nothing outside of the files.
\<close>
theorem lmo_lookup_union:
  "list_all wf_archive ars \<Longrightarrow>
     lmo_lookup hash ars = Some (case dict_union ars hash of None \<Rightarrow> Not_found | Some s \<Rightarrow> Translated s)"
  by (rule lmo_lookup_dicts)

text \<open>An archive of two strings, \<open>AB\<close> with the key 1 and \<open>C\<close> with the key 2.\<close>

definition lmo_sample :: bytes where
  "lmo_sample = [65, 66, 0, 0, 67, 0, 0, 0,
     0,0,0,1, 0,0,0,9, 0,0,0,0, 0,0,0,2,
     0,0,0,2, 0,0,0,9, 0,0,0,4, 0,0,0,1,
     0,0,0,8]"

lemma two_less: "(\<forall>i<2. P i) \<longleftrightarrow> P 0 \<and> P (1 :: nat)"
  by (metis One_nat_def less_2_cases less_2_cases_iff)

theorem lmo_lookup_union_witness:
  "lmo_lookup 2 [\<lparr>ar_length = 2, ar_size = 44, ar_index = 8, ar_mmap = lmo_sample\<rparr>] = Some (Translated [67])"
proof -
  let ?ar = "\<lparr>ar_length = 2, ar_size = 44, ar_index = 8, ar_mmap = lmo_sample\<rparr>"
  have keys: "key_of ?ar 0 = 1" "key_of ?ar 1 = 2"
    by (simp_all add: key_of_def lmo_sample_def word32_def)
  have "field ?ar 0 8 = 0" "field ?ar 0 12 = 2" "field ?ar 1 8 = 4" "field ?ar 1 12 = 1"
    by (simp_all add: field_def lmo_sample_def word32_def)
  moreover have "[0..<2] = [0, 1 :: nat]" "{..<2} = {0, 1 :: nat}" "length lmo_sample = 44"
    "unat (44 :: u32) = 44" by (auto simp: upt_rec lmo_sample_def)
  ultimately have "wf_archive ?ar" "dict_union [?ar] 2 = Some [67]"
    using keys
    by (simp_all add: wf_archive_def wf_index_def dict_union_def ar_dict_def text_of_def two_less
          del: upt_Suc) (simp_all add: lmo_sample_def)
  then show ?thesis using lmo_lookup_union [of "[?ar]" 2] by simp
qed

section \<open>Small files\<close>

text \<open>An archive with an empty index: the search starts at entry \<open>2 ^ 31 - 1\<close>, outside of every file.\<close>

theorem lmo_empty_index: "ar_length ar = 0 \<Longrightarrow> lmo_find_entry ar hash = None"
proof -
  assume "ar_length ar = 0"
  moreover have "key_at ar 0x7FFFFFFF = None"
    using unsigned_less [of "ar_size ar", where 'a = nat] by (simp add: key_at_def)
  moreover have "(0xFFFFFFFF :: u32) div 2 = 0x7FFFFFFF" by (simp add: word_eq_iff_unsigned)
  ultimately show ?thesis
    by (simp add: lmo_find_entry_def lmo_find_loop.simps)
qed

lemma lmo_open_defined:
  "f = None \<or> f = Some [] \<or> (\<exists>m. f = Some m \<and> 4 \<le> length m) \<Longrightarrow> lmo_open t f \<noteq> None"
  by (auto simp: lmo_open_def rd32_def Let_def)

lemma load_archives_defined:
  assumes "\<forall>(name, f)\<in>set es. f = None \<or> f = Some [] \<or> (\<exists>m. f = Some m \<and> 4 \<le> length m)"
  shows "load_archives t pat es ars \<noteq> None"
  using assms
proof (induction es arbitrary: ars)
  case (Cons e es)
  obtain name f where e: "e = (name, f)" by (cases e)
  have "lmo_open t f \<noteq> None" using Cons.prems e by (intro lmo_open_defined) auto
  then obtain r where "lmo_open t f = Some r" by blast
  then show ?case using Cons e by (auto split: option.splits)
qed simp

section \<open>The signedness of \<open>char\<close>\<close>

lemma char_val_ascii: "c < 128 \<Longrightarrow> char_val True c = char_val False c"
proof -
  assume "c < 128"
  then have "unat c < 128" by (simp add: word_less_nat_alt)
  then have "c div 128 = 0" by (simp add: unat_eq_0 [symmetric] unat_div)
  then have "\<not> bit c 7" by (simp add: bit_iff_odd)
  then have "signed_take_bit 7 (uint c) = take_bit 7 (uint c)"
    by (simp add: signed_take_bit_eq_if_positive bit_uint_iff)
  also have "\<dots> = uint c"
  proof (rule take_bit_int_eq_self)
    show "0 \<le> uint c" by simp
    have "uint c < 128" using \<open>unat c < 128\<close> uint_nat [of c] by linarith
    then show "uint c < 2 ^ 7" by simp
  qed
  finally have "sint c = uint c" by (simp add: sint_uint)
  then have "scast c = (ucast c :: u32)" by (metis of_int_sint of_int_uint)
  then show ?thesis by (simp add: char_val_def)
qed

lemma sfh_main_rest: "set (snd (sfh_main h s)) \<subseteq> set s"
  by (induction h s rule: sfh_main.induct) (auto simp: Let_def)

lemma sfh_tail_ascii: "(\<forall>c\<in>set s. c < 128) \<Longrightarrow> sfh_tail True h s = sfh_tail False h s"
  by (cases "(True, h, s)" rule: sfh_tail.cases) (auto simp: char_val_ascii)

lemma sfh_hash_ascii: "(\<forall>c\<in>set s. c < 128) \<Longrightarrow> sfh_hash True s = sfh_hash False s"
proof -
  assume ascii: "\<forall>c\<in>set s. c < 128"
  obtain h rest where r: "sfh_main (word_of_nat (length s)) s = (h, rest)" by fastforce
  then have "\<forall>c\<in>set rest. c < 128" using ascii sfh_main_rest [of "word_of_nat (length s)" s] by auto
  then show ?thesis using r sfh_tail_ascii by (simp add: sfh_hash_def)
qed

lemma canon_loop_set: "set (canon_loop p s) \<subseteq> insert 32 (set s)"
  by (induction p s rule: canon_loop.induct) auto

lemma canon_set: "set (canon s) \<subseteq> insert 32 (set s)"
  using canon_loop_set [of 32 s] by (auto simp: canon_def Let_def dest: in_set_butlastD)

text \<open>
  for a key of ASCII characters, machines with a signed and with an unsigned \<open>char\<close> compute
  the same hash, so a catalog made on one is found on the other.
\<close>
theorem lmo_hash_ascii:
  "(\<forall>c\<in>set key. c < 128) \<Longrightarrow> lmo_canon_hash True key = lmo_canon_hash False key"
proof -
  assume "\<forall>c\<in>set key. c < 128"
  then have "\<forall>c\<in>set (canon key). c < 128" using canon_set [of key] by auto
  then show ?thesis by (simp add: lmo_canon_hash_def sfh_hash_ascii)
qed

theorem lmo_hash_ascii_witness: "lmo_canon_hash True [79, 75] = lmo_canon_hash False [79, 75]"
  by (rule lmo_hash_ascii) simp

text \<open>A key whose length is not a multiple of two and that ends in a character above 127.\<close>

theorem lmo_hash_latin: "lmo_canon_hash True [233] \<noteq> lmo_canon_hash False [233]"
proof -
  have "canon [233] = [233]" by (simp add: canon_def is_space_def word_le_nat_alt)
  moreover have "char_val True 233 = 0xFFFFFFE9" "char_val False 233 = 233"
    by (simp_all add: char_val_def)
  ultimately show ?thesis
    by (simp add: lmo_canon_hash_def sfh_hash_def sfh_avalanche_def)
qed

section \<open>The list of catalogs\<close>

text \<open>The calls of the library on its global state, and the states they can reach.\<close>

inductive lmo_step :: "target \<Rightarrow> lmo_state \<Rightarrow> lmo_state \<Rightarrow> bool" for t where
  load: "lmo_load_catalog t lang dir st = Some (r, st') \<Longrightarrow> lmo_step t st st'"
| change: "lmo_change_catalog lang st = Some (r, st') \<Longrightarrow> lmo_step t st st'"
| close: "lmo_close_catalog lang st = Some st' \<Longrightarrow> lmo_step t st st'"

inductive lmo_reach :: "target \<Rightarrow> lmo_state \<Rightarrow> bool" for t where
  init: "lmo_reach t lmo_init"
| step: "lmo_reach t st \<Longrightarrow> lmo_step t st st' \<Longrightarrow> lmo_reach t st'"

inductive_cases lmo_stepE: "lmo_step t st st'"

text \<open>
  The list holds every live catalog once, with a name of at most five characters.
\<close>

definition lm_ok :: "lmo_state \<Rightarrow> bool" where
  "lm_ok st \<longleftrightarrow> distinct (lm_list st) \<and> set (lm_list st) = dom (lm_heap st)
    \<and> (\<forall>c cat. lm_heap st c = Some cat \<longrightarrow> c < lm_next st \<and> length (cat_lang cat) \<le> 5)"

lemma find_catalog_live:
  "set cs \<subseteq> dom h \<Longrightarrow> find_catalog h lang cs \<noteq> None"
  by (induction cs) auto

lemma find_catalog_member:
  "find_catalog h lang cs = Some (Some c) \<Longrightarrow>
     c \<in> set cs \<and> (\<exists>cat. h c = Some cat \<and> same_lang (cat_lang cat) lang)"
  by (induction cs) (auto split: option.splits if_splits)

lemma change_cases:
  assumes "lmo_change_catalog lang st = Some (r, st')"
  obtains (same) "r = -1" "st' = st" | (found) c where "r = 0" "c \<in> set (lm_list st)" "st' = st\<lparr>lm_active := Some c\<rparr>"
  using assms find_catalog_member by (fastforce simp: lmo_change_catalog_def split: option.splits)

lemma load_cases:
  assumes "lmo_load_catalog t lang dir st = Some (r, st')"
  obtains (old) "lmo_change_catalog lang st = Some (0, st')"
  | (no_dir) "r = -1" "st' = st"
  | (new) ars a where "r = 0" "lmo_change_catalog lang st = Some (-1, st)"
      "st' = st\<lparr>lm_heap := (lm_heap st)(lm_next st \<mapsto> \<lparr>cat_lang = take 5 lang, cat_archives = ars\<rparr>),
         lm_next := lm_next st + 1, lm_list := lm_next st # lm_list st,
         lm_active := (case lm_active st of None \<Rightarrow> Some (lm_next st) | a \<Rightarrow> a)\<rparr>"
proof -
  obtain q st1 where ch: "lmo_change_catalog lang st = Some (q, st1)"
    using assms by (auto simp: lmo_load_catalog_def split: option.splits)
  show ?thesis
  proof (cases "q = 0")
    case True
    then show ?thesis using assms ch old by (simp add: lmo_load_catalog_def)
  next
    case False
    then have "q = -1" "st1 = st" using ch by (auto elim: change_cases)
    then show ?thesis using assms ch no_dir new by (auto simp: lmo_load_catalog_def Let_def split: option.splits)
  qed
qed

lemma close_cases:
  assumes "lmo_close_catalog lang st = Some st'"
  obtains (none) "st' = st"
  | (found) c where "c \<in> set (lm_list st)" "find_catalog (lm_heap st) lang (lm_list st) = Some (Some c)"
      "st' = st\<lparr>lm_heap := (lm_heap st)(c := None), lm_list := remove1 c (lm_list st)\<rparr>"
  using assms find_catalog_member by (fastforce simp: lmo_close_catalog_def split: option.splits)

lemma change_ok:
  assumes "lm_ok st" "lmo_change_catalog lang st = Some (r, st')"
  shows "lm_ok st'"
  using assms(2) by (rule change_cases) (use assms(1) in \<open>auto simp: lm_ok_def\<close>)

lemma load_ok:
  assumes "lm_ok st" "lmo_load_catalog t lang dir st = Some (r, st')"
  shows "lm_ok st'"
  using assms(2)
proof (rule load_cases)
  fix ars
  assume new: "st' = st\<lparr>lm_heap := (lm_heap st)(lm_next st \<mapsto> \<lparr>cat_lang = take 5 lang, cat_archives = ars\<rparr>),
         lm_next := lm_next st + 1, lm_list := lm_next st # lm_list st,
         lm_active := (case lm_active st of None \<Rightarrow> Some (lm_next st) | a \<Rightarrow> a)\<rparr>"
  have "lm_next st \<notin> set (lm_list st)" using assms(1) by (auto simp: lm_ok_def)
  then show ?thesis using assms(1) new by (auto simp: lm_ok_def less_SucI)
qed (use assms change_ok in auto)

lemma close_ok:
  assumes "lm_ok st" "lmo_close_catalog lang st = Some st'"
  shows "lm_ok st'"
  using assms(2) by (rule close_cases) (use assms(1) in \<open>auto simp: lm_ok_def\<close>)

lemma step_ok: "lmo_step t st st' \<Longrightarrow> lm_ok st \<Longrightarrow> lm_ok st'"
  by (elim lmo_stepE) (blast intro: change_ok load_ok close_ok)+

lemma reach_ok: "lmo_reach t st \<Longrightarrow> lm_ok st"
proof (induction rule: lmo_reach.induct)
  case init
  then show ?case by (simp add: lm_ok_def lmo_init_def)
qed (rule step_ok)

text \<open>
  C26: in every state the library can reach, switching to a language, closing one and loading
  one from files that are absent, empty or at least four bytes long touch live catalogs only.
\<close>
theorem lmo_catalogs_safe:
  assumes "lmo_reach t st"
    and "\<forall>(name, f)\<in>set es. f = None \<or> f = Some [] \<or> (\<exists>m. f = Some m \<and> 4 \<le> length m)"
  shows "lmo_change_catalog lang st \<noteq> None \<and> lmo_close_catalog lang st \<noteq> None
    \<and> lmo_load_catalog t lang (Some es) st \<noteq> None"
proof -
  have "find_catalog (lm_heap st) lang (lm_list st) \<noteq> None"
    using reach_ok [OF assms(1)] by (intro find_catalog_live) (simp add: lm_ok_def)
  then have ch: "lmo_change_catalog lang st \<noteq> None" "lmo_close_catalog lang st \<noteq> None"
    by (auto simp: lmo_change_catalog_def lmo_close_catalog_def split: option.splits)
  then show ?thesis
    using load_archives_defined [OF assms(2)] by (auto simp: lmo_load_catalog_def Let_def split: if_splits)
qed

definition lmo_demo :: "target \<Rightarrow> lmo_state" where
  "lmo_demo t = snd (the (lmo_load_catalog t ''de'' (Some []) lmo_init))"

lemma lmo_demo_eq:
  "lmo_load_catalog t ''de'' (Some []) lmo_init = Some (0, lmo_demo t)"
  "lmo_demo t = \<lparr>lm_heap = [0 \<mapsto> \<lparr>cat_lang = ''de'', cat_archives = []\<rparr>], lm_next = 1, lm_list = [0], lm_active = Some 0\<rparr>"
  by (auto simp: lmo_demo_def lmo_load_catalog_def lmo_change_catalog_def lmo_init_def)

lemma lmo_demo_reach: "lmo_reach t (lmo_demo t)"
  by (blast intro: lmo_reach.init lmo_reach.step lmo_step.load lmo_demo_eq(1))

theorem lmo_catalogs_safe_witness:
  "lmo_close_catalog ''de'' (lmo_demo \<lparr>tgt_endian = Little, tgt_ulong_max = 2 ^ 32 - 1\<rparr>) \<noteq> None"
  using lmo_catalogs_safe [OF lmo_demo_reach, of "[(''luci.de.lmo'', None)]"] by simp

text \<open>
  C39: closing a catalog leaves every translation as it was, unless it is the active one: then
  each translation that follows reads the freed catalog.
\<close>
theorem lmo_close_active:
  "lmo_close_catalog lang st = Some st' \<Longrightarrow>
     lmo_translate csigned key st' =
       (if lm_active st \<noteq> None \<and> find_catalog (lm_heap st) lang (lm_list st) = Some (lm_active st)
        then None else lmo_translate csigned key st)"
  by (auto simp: lmo_close_catalog_def lmo_translate_def split: option.splits if_splits)

theorem lmo_close_active_witness:
  "\<exists>st'. lmo_close_catalog ''de'' (lmo_demo \<lparr>tgt_endian = Little, tgt_ulong_max = 2 ^ 32 - 1\<rparr>) = Some st'
    \<and> lmo_translate True [79, 75] st' = None"
proof -
  let ?st = "lmo_demo \<lparr>tgt_endian = Little, tgt_ulong_max = 2 ^ 32 - 1\<rparr>"
  have "find_catalog (lm_heap ?st) ''de'' (lm_list ?st) = Some (Some 0)"
    by (simp add: lmo_demo_eq same_lang_def)
  moreover from this obtain st' where st': "lmo_close_catalog ''de'' ?st = Some st'"
    by (simp add: lmo_close_catalog_def)
  ultimately show ?thesis
    using lmo_close_active [OF st', of True "[79, 75]"] by (simp add: lmo_demo_eq)
qed

lemma same_lang_take:
  assumes "CHR 0x00 \<notin> set lang"
  shows "same_lang (take 5 lang) lang \<longleftrightarrow> length lang \<le> 5"
proof
  assume same: "same_lang (take 5 lang) lang"
  show "length lang \<le> 5"
  proof (rule ccontr)
    assume "\<not> length lang \<le> 5"
    then have "take 6 (take 5 lang @ [CHR 0x00]) ! 5 = CHR 0x00"
      and "take 6 (lang @ [CHR 0x00]) ! 5 = lang ! 5" "lang ! 5 \<in> set lang"
      by (auto simp: nth_append)
    then show False using same assms by (simp add: same_lang_def)
  qed
qed (simp add: same_lang_def)

lemma find_catalog_long:
  assumes "CHR 0x00 \<notin> set lang" "5 < length lang"
    and "\<forall>c\<in>set cs. \<exists>cat. h c = Some cat \<and> length (cat_lang cat) \<le> 5"
  shows "find_catalog h lang cs = Some None"
  using assms(3)
proof (induction cs)
  case (Cons c cs)
  then obtain cat where cat: "h c = Some cat" "length (cat_lang cat) \<le> 5" by auto
  have "\<not> same_lang (cat_lang cat) lang"
  proof
    assume "same_lang (cat_lang cat) lang"
    then have "(take 6 (cat_lang cat @ [CHR 0x00])) ! length (cat_lang cat) = take 6 (lang @ [CHR 0x00]) ! length (cat_lang cat)"
      by (simp add: same_lang_def)
    then have "lang ! length (cat_lang cat) = CHR 0x00" using cat(2) assms(2) by (simp add: nth_append)
    moreover have "lang ! length (cat_lang cat) \<in> set lang" using cat(2) assms(2) by simp
    ultimately show False using assms(1) by simp
  qed
  then show ?case using Cons cat by simp
qed simp

text \<open>
  after a catalog has been loaded, switching to its language succeeds exactly if the name of
  the language has at most five characters; a longer one is cut and never found again.
\<close>
theorem lmo_load_then_change:
  assumes "lmo_reach t st" and "CHR 0x00 \<notin> set lang"
    and "lmo_load_catalog t lang dir st = Some (0, st')"
  shows "\<exists>st''. lmo_change_catalog lang st' = Some (if length lang \<le> 5 then 0 else -1, st'')"
proof -
  have ok: "lm_ok st'" using reach_ok load_ok assms by blast
  show ?thesis
  proof (cases "length lang \<le> 5")
    case True
    show ?thesis using assms(3)
    proof (rule load_cases)
      assume "lmo_change_catalog lang st = Some (0, st')"
      then show ?thesis using True
        by (auto simp: lmo_change_catalog_def split: option.splits)
    next
      fix ars
      assume "st' = st\<lparr>lm_heap := (lm_heap st)(lm_next st \<mapsto> \<lparr>cat_lang = take 5 lang, cat_archives = ars\<rparr>),
         lm_next := lm_next st + 1, lm_list := lm_next st # lm_list st,
         lm_active := (case lm_active st of None \<Rightarrow> Some (lm_next st) | a \<Rightarrow> a)\<rparr>"
      then show ?thesis using True same_lang_take [OF assms(2)] by (simp add: lmo_change_catalog_def)
    qed simp
  next
    case False
    have "\<exists>cat. lm_heap st' c = Some cat \<and> length (cat_lang cat) \<le> 5" if "c \<in> set (lm_list st')" for c
      using ok that by (auto simp: lm_ok_def dom_def)
    then show ?thesis
      using False find_catalog_long [OF assms(2)] by (simp add: lmo_change_catalog_def)
  qed
qed

theorem lmo_load_then_change_witness:
  "\<exists>st' st''. lmo_load_catalog \<lparr>tgt_endian = Little, tgt_ulong_max = 2 ^ 32 - 1\<rparr> ''pt_pt1'' (Some []) lmo_init = Some (0, st')
     \<and> lmo_change_catalog ''pt_pt1'' st' = Some (-1, st'')"
proof -
  let ?t = "\<lparr>tgt_endian = Little, tgt_ulong_max = 2 ^ 32 - 1\<rparr>"
  obtain st' where "lmo_load_catalog ?t ''pt_pt1'' (Some []) lmo_init = Some (0, st')"
    by (simp add: lmo_load_catalog_def lmo_change_catalog_def lmo_init_def)
  moreover from lmo_load_then_change [OF lmo_reach.init _ this]
  obtain st'' where "lmo_change_catalog ''pt_pt1'' st' = Some (-1, st'')" by auto
  ultimately show ?thesis by blast
qed

end
