(* ===== verification/Po2lmo.thy ===== *)
theory Po2lmo
  imports Template_Lmo
begin

text \<open>
  The compiler of translations, \<open>src/luci/modules/luci-base/src/po2lmo.c\<close>: it reads the pairs
  of \<open>msgid\<close> and \<open>msgstr\<close> of a PO file line by line and writes the archive that
  \<open>template_lmo.c\<close> maps.

  The buffers of \<open>main\<close> are byte lists of 4096 elements; \<open>tmp\<close> is not initialised by the
  code, so its first content is an argument.  \<open>qsort\<close> is an argument as well.  Writing to the
  output and allocating memory succeed, and reading the input ends at the end of the file.
\<close>

section \<open>Lines and strings\<close>

text \<open>The string that starts at the beginning of an array; \<open>None\<close> if it is not terminated.\<close>

definition c_string :: "bytes \<Rightarrow> bytes option" where
  "c_string a = (if 0 \<in> set a then Some (takeWhile (\<lambda>c. c \<noteq> 0) a) else None)"

definition zeroed :: bytes where
  "zeroed = replicate 4096 0"

definition array_put :: "bytes \<Rightarrow> int \<Rightarrow> u8 \<Rightarrow> bytes option" where
  "array_put a i c = (if 0 \<le> i \<and> nat i < length a then Some (a[nat i := c]) else None)"

text \<open>\<open>strcat\<close> on an array: nothing may be written past its end.\<close>

definition array_cat :: "bytes \<Rightarrow> bytes \<Rightarrow> bytes option" where
  "array_cat a b = do {
     s \<leftarrow> c_string a;
     t \<leftarrow> c_string b;
     if length s + length t < length a
     then Some (s @ t @ [0] @ drop (length s + length t + 1) a) else None
   }"

text \<open>
  \<open>fgets\<close> of at most 4095 bytes: the line with its newline, and what follows.  The caller sees
  the line up to its first NUL.
\<close>

definition line_length :: "bytes \<Rightarrow> nat" where
  "line_length s = min 4095 (min (length s) (Suc (length (takeWhile (\<lambda>c. c \<noteq> 10) s))))"

text \<open>The loop of \<open>extract_string\<close> over the characters of \<open>src\<close> from \<open>pos\<close> on.\<close>

fun extract_loop :: "bytes \<Rightarrow> nat \<Rightarrow> int \<Rightarrow> bool \<Rightarrow> bytes \<Rightarrow> nat \<Rightarrow> (int \<times> bytes) option" where
  "extract_loop [] pos off esc dest len = Some (off, dest)"
| "extract_loop (c # src) pos off esc dest len =
     (if \<not> pos < len then Some (off, dest)
      else if off = -1 \<and> c = chr CHR 0x22 then extract_loop src (pos + 1) (int pos + 1) esc dest len
      else if off \<ge> 0 then
        (if esc then
           (let off = (if c = chr CHR 0x22 \<or> c = chr CHR 0x5C then off + 1 else off)
            in case array_put dest (int pos - off) c of
                 None \<Rightarrow> None
               | Some dest \<Rightarrow> extract_loop src (pos + 1) off False dest len)
         else if c = chr CHR 0x5C then
           (case array_put dest (int pos - off) c of
              None \<Rightarrow> None
            | Some dest \<Rightarrow> extract_loop src (pos + 1) off True dest len)
         else if c \<noteq> chr CHR 0x22 then
           (case array_put dest (int pos - off) c of
              None \<Rightarrow> None
            | Some dest \<Rightarrow> extract_loop src (pos + 1) off False dest len)
         else map_option (Pair off) (array_put dest (int pos - off) 0))
      else extract_loop src (pos + 1) off esc dest len)"

text \<open>The result of the call and the array \<open>dest\<close> after it.\<close>

definition extract_string :: "bytes \<Rightarrow> bytes \<Rightarrow> nat \<Rightarrow> (int \<times> bytes) option" where
  "extract_string src dest len = do {
     (off, dest) \<leftarrow> extract_loop src 0 (-1) False dest len;
     if off > -1 then (do { s \<leftarrow> c_string dest; Some (int (length s), dest) })
     else Some (-1, dest)
   }"

definition starts_with :: "string \<Rightarrow> bytes \<Rightarrow> bool" where
  "starts_with p s \<longleftrightarrow> take (length p) s = map chr p"

section \<open>The state machine\<close>

record po_state =
  ps_state :: nat
  ps_key :: bytes
  ps_val :: bytes
  ps_tmp :: bytes

text \<open>
  What a line changes before the test for \<open>state == 4\<close>; \<open>Some None\<close> is the syntax error that
  ends the program.
\<close>

definition po_line :: "bytes \<Rightarrow> po_state \<Rightarrow> po_state option option" where
  "po_line line st =
     (if ps_state st = 0 \<and> starts_with (''msgid '' @ [CHR 0x22]) line then do {
        (r, key) \<leftarrow> extract_string line (ps_key st) 4096;
        Some (if r = -1 then None
              else Some (st\<lparr>ps_key := key, ps_state := (if r = 0 then 1 else 2)\<rparr>))
      }
      else if ps_state st = 1 \<or> ps_state st = 2 then
        (if starts_with (''msgstr '' @ [CHR 0x22]) line \<or> ps_state st = 2 then do {
           (r, val) \<leftarrow> extract_string line (ps_val st) 4096;
           Some (Some (st\<lparr>ps_val := val, ps_state := (if r = -1 then 4 else 3)\<rparr>))
         }
         else do {
           (r, tmp) \<leftarrow> extract_string line (ps_tmp st) 4096;
           if r = -1 then Some (Some (st\<lparr>ps_tmp := tmp, ps_state := 2\<rparr>))
           else do {
             key \<leftarrow> array_cat (ps_key st) tmp;
             Some (Some (st\<lparr>ps_tmp := tmp, ps_key := key\<rparr>))
           }
         })
      else if ps_state st = 3 then do {
        (r, tmp) \<leftarrow> extract_string line (ps_tmp st) 4096;
        if r = -1 then Some (Some (st\<lparr>ps_tmp := tmp, ps_state := 4\<rparr>))
        else do {
          val \<leftarrow> array_cat (ps_val st) tmp;
          Some (Some (st\<lparr>ps_tmp := tmp, ps_val := val\<rparr>))
        }
      }
      else Some (Some st))"

text \<open>The entries and the strings written so far.\<close>

record po_output =
  po_entries :: "lmo_entry list"
  po_data :: bytes
  po_offset :: int

definition padded_length :: "nat \<Rightarrow> nat" where
  "padded_length n = n + (4 - n mod 4) mod 4"

text \<open>
  The pair in \<open>key\<close> and \<open>val\<close> is written: the value from its array with the bytes that follow
  up to a multiple of four.  \<open>offset\<close> is an \<open>int\<close>.
\<close>

definition po_emit :: "bool \<Rightarrow> bytes \<Rightarrow> bytes \<Rightarrow> po_output \<Rightarrow> po_output option" where
  "po_emit csigned key val out = do {
     k \<leftarrow> c_string key;
     v \<leftarrow> c_string val;
     if length k > 0 \<and> length v > 0 then
       (let key_id = sfh_hash csigned k; val_id = sfh_hash csigned v; len = padded_length (length v)
        in if key_id \<noteq> val_id then
             (if len \<le> length val \<and> po_offset out + int len < 2 ^ 31
              then Some \<lparr>po_entries = po_entries out
                     @ [\<lparr>key_id = key_id, val_id = val_id, e_offset = word_of_int (po_offset out),
                         e_length = word_of_nat (length v)\<rparr>],
                   po_data = po_data out @ take len val, po_offset = po_offset out + int len\<rparr>
              else None)
           else Some out)
     else Some out
   }"

text \<open>One turn of the loop of \<open>main\<close>.\<close>

definition po_turn ::
  "bool \<Rightarrow> bytes \<Rightarrow> po_state \<times> po_output \<Rightarrow> (po_state \<times> po_output) option option" where
  "po_turn csigned line s =
     (case po_line line (fst s) of
        None \<Rightarrow> None
      | Some None \<Rightarrow> Some None
      | Some (Some st) \<Rightarrow>
          (if ps_state st = 4
           then map_option (\<lambda>out. Some (st\<lparr>ps_state := 0, ps_key := zeroed, ps_val := zeroed\<rparr>, out))
             (po_emit csigned (ps_key st) (ps_val st) (snd s))
           else Some (Some (st, snd s))))"

lemma line_length_pos: "s \<noteq> [] \<Longrightarrow> 0 < line_length s"
  by (cases s) (auto simp: line_length_def)

text \<open>
  The loop.  At the end of the input it turns once more, on an empty line, as long as the state
  is 2 or more; such a turn always leads to state 0.
\<close>

function po_loop ::
  "bool \<Rightarrow> bytes \<Rightarrow> po_state \<times> po_output \<Rightarrow> (po_state \<times> po_output) option option" where
  "po_loop csigned input s =
     (if input = [] then
        (if ps_state (fst s) \<ge> 2
         then (case po_turn csigned [] s of
                 Some (Some s') \<Rightarrow> (if ps_state (fst s') \<ge> 2 then None else Some (Some s'))
               | r \<Rightarrow> r)
         else Some (Some s))
      else
        (let n = line_length input in
         case po_turn csigned (takeWhile (\<lambda>c. c \<noteq> 0) (take n input)) s of
           Some (Some s') \<Rightarrow> po_loop csigned (drop n input) s'
         | r \<Rightarrow> r))"
  by pat_completeness auto

termination
  by (relation "measure (\<lambda>(csigned, input, s). length input)") (auto simp: line_length_pos)

declare po_loop.simps [simp del]

section \<open>The program\<close>

definition entry_bytes :: "lmo_entry \<Rightarrow> bytes" where
  "entry_bytes e = bytes32 (key_id e) @ bytes32 (val_id e) @ bytes32 (e_offset e) @ bytes32 (e_length e)"

definition print_index :: "(lmo_entry list \<Rightarrow> lmo_entry list) \<Rightarrow> lmo_entry list \<Rightarrow> bytes" where
  "print_index qsort es = concat (map entry_bytes (qsort es))"

text \<open>
  How the program ends: with the usage text, with the message of a syntax error, without an
  output file, or with the file written.
\<close>

datatype po_result = Usage | Died | Removed | Written bytes

definition po_start :: "bytes \<Rightarrow> po_state \<times> po_output" where
  "po_start tmp =
     (\<lparr>ps_state = 0, ps_key = zeroed, ps_val = zeroed, ps_tmp = tmp\<rparr>,
      \<lparr>po_entries = [], po_data = [], po_offset = 0\<rparr>)"

definition po2lmo ::
  "bool \<Rightarrow> (lmo_entry list \<Rightarrow> lmo_entry list) \<Rightarrow> bytes \<Rightarrow> nat \<Rightarrow> bytes option \<Rightarrow> bool \<Rightarrow> po_result option" where
  "po2lmo csigned qsort tmp argc input can_write =
     (if argc \<noteq> 3 \<or> input = None \<or> \<not> can_write then Some Usage
      else map_option
        (\<lambda>r. case r of
           None \<Rightarrow> Died
         | Some (st, out) \<Rightarrow>
             (if po_offset out > 0
              then Written (po_data out @ print_index qsort (po_entries out) @ bytes32 (word_of_int (po_offset out)))
              else Removed))
        (po_loop csigned (the input) (po_start tmp)))"

end
