(* ===== verification/Po2lmo_Facts.thy ===== *)
theory Po2lmo_Facts
  imports Template_Lmo_Facts Po2lmo "HOL-Library.Multiset"
begin

text \<open>
  The compiler of translations against the reader of its archives: a PO text of quoted pairs
  becomes an archive in which \<open>template_lmo.c\<close> finds every value under the hash of its key.
\<close>

section \<open>Sorting the index\<close>

lemma map_of_entry:
  "distinct (map key_id es) \<Longrightarrow> e \<in> set es \<Longrightarrow> map_of (map (\<lambda>e. (key_id e, f e)) es) (key_id e) = Some (f e)"
  by (rule map_of_is_SomeI) (auto simp: comp_def)

text \<open>What \<open>qsort\<close> with \<open>cmp_index\<close> promises.\<close>

locale index_sort =
  fixes qsort :: "lmo_entry list \<Rightarrow> lmo_entry list"
  assumes same_entries: "mset (qsort es) = mset es"
    and ascending: "sorted (map key_id (qsort es))"
begin

lemma sort_set: "set (qsort es) = set es"
  by (rule mset_eq_setD) (rule same_entries)

lemma sort_length: "length (qsort es) = length es"
  by (rule mset_eq_length) (rule same_entries)

lemma sort_distinct: "distinct (map key_id es) \<Longrightarrow> distinct (map key_id (qsort es))"
  using same_entries [of es] by (metis mset_eq_imp_distinct_iff mset_map)

lemma sort_map_of:
  assumes "distinct (map key_id es)"
  shows "map_of (map (\<lambda>e. (key_id e, f e)) (qsort es)) = map_of (map (\<lambda>e. (key_id e, f e)) es)"
proof (rule map_of_eqI)
  show "set (map fst (map (\<lambda>e. (key_id e, f e)) (qsort es))) = set (map fst (map (\<lambda>e. (key_id e, f e)) es))"
    by (simp add: comp_def sort_set)
  show "\<forall>k\<in>set (map fst (map (\<lambda>e. (key_id e, f e)) (qsort es))).
      map_of (map (\<lambda>e. (key_id e, f e)) (qsort es)) k = map_of (map (\<lambda>e. (key_id e, f e)) es) k"
    by (auto simp: sort_set map_of_entry [OF assms] map_of_entry [OF sort_distinct [OF assms]])
qed

end

interpretation isort: index_sort "sort_key key_id"
  by unfold_locales simp_all

lemma unat_small: "n < 2 ^ 32 \<Longrightarrow> unat (word_of_nat n :: u32) = n"
  by (subst unat_of_nat) simp

section \<open>Archives laid out in a file\<close>

definition archive_file :: "bytes \<Rightarrow> lmo_entry list \<Rightarrow> bytes" where
  "archive_file data es = data @ concat (map entry_bytes es) @ bytes32 (word_of_nat (length data))"

definition archive :: "bytes \<Rightarrow> lmo_entry list \<Rightarrow> lmo_archive" where
  "archive data es =
     \<lparr>ar_length = int (length es), ar_size = word_of_nat (length (archive_file data es)),
      ar_index = length data, ar_mmap = archive_file data es\<rparr>"

lemma length_entry_bytes [simp]: "length (entry_bytes e) = 16"
  by (simp add: entry_bytes_def)

lemma length_entries [simp]: "length (concat (map entry_bytes es)) = 16 * length es"
  by (induction es) auto

lemma length_archive_file: "length (archive_file data es) = length data + 16 * length es + 4"
  by (simp add: archive_file_def)

lemma drop_entries:
  "i < length es \<Longrightarrow> drop (16 * i) (concat (map entry_bytes es)) = entry_bytes (es ! i) @ concat (map entry_bytes (drop (Suc i) es))"
proof (induction es arbitrary: i)
  case (Cons e es)
  then show ?case by (cases i) auto
qed simp

lemma field_archive:
  assumes "i < length es"
  shows "field (archive data es) i 0 = unat (key_id (es ! i))"
    and "field (archive data es) i 8 = unat (e_offset (es ! i))"
    and "field (archive data es) i 12 = unat (e_length (es ! i))"
proof -
  have d: "drop (length data + 16 * i + k) (archive_file data es) =
      drop k (entry_bytes (es ! i) @ concat (map entry_bytes (drop (Suc i) es)) @ bytes32 (word_of_nat (length data)))" for k
  proof -
    have "drop (16 * i + k) (concat (map entry_bytes es) @ bytes32 (word_of_nat (length data)))
        = drop k (drop (16 * i) (concat (map entry_bytes es) @ bytes32 (word_of_nat (length data))))"
      by (simp only: drop_drop add.commute)
    also have "\<dots> = drop k (entry_bytes (es ! i) @ concat (map entry_bytes (drop (Suc i) es)) @ bytes32 (word_of_nat (length data)))"
      using assms by (simp add: drop_entries)
    finally show ?thesis by (simp add: archive_file_def add.assoc)
  qed
  have w: "unat (word32 (take 4 (bytes32 w @ xs)) :: u32) = unat w" for w xs by simp
  show "field (archive data es) i 0 = unat (key_id (es ! i))"
    using d [of 0] by (simp add: field_def archive_def entry_bytes_def)
  show "field (archive data es) i 8 = unat (e_offset (es ! i))"
    "field (archive data es) i 12 = unat (e_length (es ! i))"
    by (simp_all add: field_def archive_def d entry_bytes_def)
qed

lemma key_of_archive: "i < length es \<Longrightarrow> key_of (archive data es) i = key_id (es ! i)"
  using field_archive(1) [of i es data] unsigned_word_eqI [where 'a = nat] by (auto simp: field_def key_of_def)

text \<open>What \<open>lmo_open\<close> makes of such a file.\<close>

lemma lmo_open_archive:
  assumes "length (archive_file data es) < 2 ^ 31" and "2 ^ 32 - 1 \<le> tgt_ulong_max t"
  shows "lmo_open t (Some (archive_file data es)) = Some (Some (archive data es))"
proof -
  let ?f = "archive_file data es"
  have len: "length ?f = length data + 16 * length es + 4" by (rule length_archive_file)
  have "drop (length ?f - 4) ?f = bytes32 (word_of_nat (length data))"
    by (simp add: archive_file_def)
  then have idx: "rd32 ?f (length ?f - 4) = Some (word_of_nat (length data))"
    using len by (simp add: rd32_def)
  have u: "unat (word_of_nat (length data) :: u32) = length data"
    by (rule unat_small) (use assms(1) len in simp)
  have v: "unat (word_of_nat (length ?f) :: u32) = length ?f"
    by (rule unat_small) (use assms(1) in simp)
  have lt: "(word_of_nat (length data) :: u32) < word_of_nat (length ?f)"
    unfolding word_less_nat_alt u v using len by linarith
  have "unat (word_of_nat (length ?f) - word_of_nat (length data) :: u32) = 16 * length es + 4"
    unfolding unat_sub_if' u v using len by simp
  moreover have "to_s32 (int (length es)) = int (length es)"
    using assms(1) len by (simp add: to_s32_def)
  moreover have "int (16 * length es) mod (int (tgt_ulong_max t) + 1) = int (16 * length es)"
    using assms len by (intro mod_pos_pos_trivial) auto
  moreover have "?f \<noteq> []" "\<not> length ?f < 4" using len by auto
  moreover have "nat (16 * int (length es)) div 16 = length es" by (simp add: nat_mult_distrib)
  ultimately show ?thesis
    using idx u v lt by (simp add: lmo_open_def archive_def Let_def not_le nat_div_distrib)
qed

lemma wf_archive_file:
  assumes "length (archive_file data es) < 2 ^ 31" and "es \<noteq> []"
    and "sorted (map key_id es)" "distinct (map key_id es)"
    and "\<forall>e\<in>set es. unat (e_offset e) + unat (e_length e) \<le> length data"
  shows "wf_archive (archive data es)"
    and "ar_dict (archive data es) = map_of (map (\<lambda>e. (key_id e, take (unat (e_length e)) (drop (unat (e_offset e)) data))) es)"
proof -
  let ?ar = "archive data es"
  have n: "nat (ar_length ?ar) = length es" by (simp add: archive_def)
  have len: "length (ar_mmap ?ar) = length data + 16 * length es + 4"
    by (simp add: archive_def length_archive_file)
  have "unat (ar_size ?ar) = length (ar_mmap ?ar)"
    using assms(1) by (simp add: archive_def unat_small)
  then have "wf_index ?ar (length es)"
    using assms(2,3) len key_of_archive [of _ es data]
    by (auto simp: wf_index_def archive_def sorted_iff_nth_mono)
  moreover have "inj_on (key_of ?ar) {..<length es}"
    using assms(4) key_of_archive [of _ es data] by (auto simp: inj_on_def distinct_conv_nth)
  moreover have "field ?ar i 8 + field ?ar i 12 \<le> length (ar_mmap ?ar)" if "i < length es" for i
    using assms(5) that len field_archive(2,3) [OF that, of data] nth_mem [OF that] by fastforce
  ultimately show "wf_archive ?ar" by (simp add: wf_archive_def n)
  have "text_of ?ar i = take (unat (e_length (es ! i))) (drop (unat (e_offset (es ! i))) data)" if "i < length es" for i
  proof -
    have "unat (e_offset (es ! i)) + unat (e_length (es ! i)) \<le> length data" using assms(5) that by simp
    then show ?thesis
      using field_archive(2,3) [OF that, of data] by (simp add: text_of_def archive_def archive_file_def)
  qed
  then have "map (\<lambda>i. (key_of ?ar i, text_of ?ar i)) [0..<length es]
      = map (\<lambda>e. (key_id e, take (unat (e_length e)) (drop (unat (e_offset e)) data))) es"
    by (intro nth_equalityI) (auto simp: key_of_archive)
  then show "ar_dict ?ar = map_of (map (\<lambda>e. (key_id e, take (unat (e_length e)) (drop (unat (e_offset e)) data))) es)"
    by (simp add: ar_dict_def n)
qed

section \<open>Quoted text\<close>

text \<open>Quotation marks and backslashes are written after a backslash.\<close>

fun po_escape :: "bytes \<Rightarrow> bytes" where
  "po_escape [] = []"
| "po_escape (c # s) = (if c = 34 \<or> c = 92 then [92, c] else [c]) @ po_escape s"

lemma extract_prefix:
  assumes "\<forall>c\<in>set p. c \<noteq> 34" and "pos + length p < len"
  shows "extract_loop (p @ 34 # s) pos (-1) False dest len
    = extract_loop s (pos + length p + 1) (int (pos + length p) + 1) False dest len"
  using assms by (induction p arbitrary: pos) auto

lemma extract_no_quote:
  "\<forall>c\<in>set s. c \<noteq> 34 \<Longrightarrow> extract_loop s pos (-1) False dest len = Some (-1, dest)"
  by (induction s arbitrary: pos) auto

lemma array_put_at: "0 \<le> off \<Longrightarrow> i < length a \<Longrightarrow> pos = nat off + i \<Longrightarrow> array_put a (int pos - off) c = Some (a[i := c])"
  by (auto simp: array_put_def)

lemma extract_body:
  assumes "0 \<le> off" "pos = nat off + i" "i + length b < length dest" "pos + length (po_escape b) < len"
  shows "\<exists>off'\<ge>0. extract_loop (po_escape b @ 34 # rest) pos off False dest len
    = Some (off', take i dest @ b @ [0] @ drop (i + length b + 1) dest)"
  using assms
proof (induction b arbitrary: pos off i dest)
  case Nil
  then have "array_put dest (int pos - off) 0 = Some (dest[i := 0])" by (intro array_put_at) auto
  then show ?case using Nil by (simp add: upd_conv_take_nth_drop)
next
  case (Cons c b)
  have i: "i < length dest" using Cons.prems(3) by simp
  show ?case
  proof (cases "c = 34 \<or> c = 92")
    case True
    have "array_put dest (int pos - off) 92 = Some (dest[i := 92])"
      "array_put (dest[i := 92]) (int (pos + 1) - (off + 1)) c = Some (dest[i := c])"
      using array_put_at [OF Cons.prems(1) i Cons.prems(2)]
        array_put_at [OF _ _ Cons.prems(2), of "dest[i := 92]" c] Cons.prems(1) i by simp_all
    then have "extract_loop (po_escape (c # b) @ 34 # rest) pos off False dest len
        = extract_loop (po_escape b @ 34 # rest) (pos + 2) (off + 1) False (dest[i := c]) len"
      using True Cons.prems by (auto simp: Let_def)
    moreover have "\<exists>off'\<ge>0. extract_loop (po_escape b @ 34 # rest) (pos + 2) (off + 1) False (dest[i := c]) len
        = Some (off', take (i + 1) (dest[i := c]) @ b @ [0] @ drop (i + 1 + length b + 1) (dest[i := c]))"
      using Cons.prems True by (intro Cons.IH) auto
    ultimately show ?thesis using i by (simp add: take_Suc_conv_app_nth)
  next
    case False
    have "array_put dest (int pos - off) c = Some (dest[i := c])"
      using array_put_at [OF Cons.prems(1) i Cons.prems(2)] .
    then have "extract_loop (po_escape (c # b) @ 34 # rest) pos off False dest len
        = extract_loop (po_escape b @ 34 # rest) (pos + 1) off False (dest[i := c]) len"
      using False Cons.prems by (auto simp: Let_def)
    moreover have "\<exists>off'\<ge>0. extract_loop (po_escape b @ 34 # rest) (pos + 1) off False (dest[i := c]) len
        = Some (off', take (i + 1) (dest[i := c]) @ b @ [0] @ drop (i + 1 + length b + 1) (dest[i := c]))"
      using Cons.prems False by (intro Cons.IH) auto
    ultimately show ?thesis using i by (simp add: take_Suc_conv_app_nth)
  qed
qed

lemma c_string_append: "0 \<notin> set s \<Longrightarrow> c_string (s @ 0 # r) = Some s"
  by (auto simp: c_string_def takeWhile_tail)

lemma extract_quoted:
  assumes "\<forall>c\<in>set p. c \<noteq> 34" "0 \<notin> set b" "length p + 1 + length (po_escape b) < len" "length b < length dest"
  shows "extract_string (p @ 34 # po_escape b @ 34 # rest) dest len
    = Some (int (length b), b @ [0] @ drop (length b + 1) dest)"
proof -
  obtain off where off: "off \<ge> 0" "extract_loop (po_escape b @ 34 # rest) (length p + 1) (int (length p) + 1) False dest len
      = Some (off, b @ [0] @ drop (length b + 1) dest)"
    using extract_body [of "int (length p) + 1" "length p + 1" 0 b dest len rest] assms
    by (auto simp: nat_add_distrib)
  have "extract_loop (p @ 34 # po_escape b @ 34 # rest) 0 (-1) False dest len
      = Some (off, b @ [0] @ drop (length b + 1) dest)"
    using extract_prefix [of p 0 len "po_escape b @ 34 # rest" dest] assms off(2) by simp
  then show ?thesis using off(1) assms(2) c_string_append by (simp add: extract_string_def)
qed

text \<open>An array that holds a string and is zero behind it.\<close>

definition filled :: "bytes \<Rightarrow> bytes" where
  "filled b = b @ replicate (4096 - length b) 0"

lemma filled_props:
  assumes "length b < 4096" "0 \<notin> set b"
  shows "c_string (filled b) = Some b" and "length (filled b) = 4096"
    and "b @ [0] @ drop (length b + 1) zeroed = filled b"
    and "length b \<le> k \<Longrightarrow> k \<le> 4096 \<Longrightarrow> take k (filled b) = b @ replicate (k - length b) 0"
proof -
  have r: "replicate (4096 - length b) 0 = (0 :: u8) # replicate (4095 - length b) 0"
    using assms(1) by (cases "4096 - length b") (auto simp: Suc_diff_Suc)
  then show "c_string (filled b) = Some b" unfolding filled_def r using assms(2) by (rule_tac c_string_append)
  show "length (filled b) = 4096" using assms(1) by (simp add: filled_def)
  show "b @ [0] @ drop (length b + 1) zeroed = filled b" unfolding filled_def r by (simp add: zeroed_def)
  show "take k (filled b) = b @ replicate (k - length b) 0" if "length b \<le> k" "k \<le> 4096"
    using that by (simp add: filled_def take_replicate)
qed

section \<open>A pair of the text\<close>

text \<open>A pair as it stands in the text, and the text of a list of pairs.\<close>

definition pair_text :: "bytes \<times> bytes \<Rightarrow> bytes" where
  "pair_text kv =
     map chr ''msgid '' @ [34] @ po_escape (fst kv) @ [34, 10]
     @ map chr ''msgstr '' @ [34] @ po_escape (snd kv) @ [34, 10] @ [10]"

definition po_text :: "(bytes \<times> bytes) list \<Rightarrow> bytes" where
  "po_text kvs = concat (map pair_text kvs)"

text \<open>Text of one line that fits into the buffers with its quotation marks.\<close>

definition po_word :: "bytes \<Rightarrow> bool" where
  "po_word s \<longleftrightarrow> s \<noteq> [] \<and> 0 \<notin> set s \<and> 10 \<notin> set s \<and> length (po_escape s) \<le> 4080"

lemma length_po_escape: "length s \<le> length (po_escape s)"
  by (induction s) auto

lemma set_po_escape: "set (po_escape s) \<subseteq> insert 92 (set s)"
  by (induction s) auto

lemma takeWhile_line: "10 \<notin> set l \<Longrightarrow> takeWhile (\<lambda>c. c \<noteq> 10) (l @ 10 # rest) = (l :: bytes)"
  by (auto simp: takeWhile_tail)

lemma first_line:
  assumes "10 \<notin> set l" "0 \<notin> set l" "length l < 4095"
  shows "line_length (l @ 10 # rest) = length l + 1"
    and "takeWhile (\<lambda>c. c \<noteq> 0) (take (length l + 1) (l @ 10 # rest)) = l @ [10]"
  using assms by (auto simp: line_length_def takeWhile_line takeWhile_append)

lemma po_loop_line:
  assumes "10 \<notin> set l" "0 \<notin> set l" "length l < 4095"
    and "po_turn csigned (l @ [10]) s = Some (Some s')"
  shows "po_loop csigned (l @ 10 # rest) s = po_loop csigned rest s'"
  using first_line [OF assms(1-3), of rest] assms(4)
  by (subst po_loop.simps) (simp add: Let_def)

definition start_state :: "bytes \<Rightarrow> po_state" where
  "start_state tmp = \<lparr>ps_state = 0, ps_key = zeroed, ps_val = zeroed, ps_tmp = tmp\<rparr>"

lemma chr_values: "map chr ''msgid '' = [109, 115, 103, 105, 100, 32]"
  "map chr ''msgstr '' = [109, 115, 103, 115, 116, 114, 32]" "chr CHR 0x22 = 34" "chr CHR 0x5C = 92"
  by simp_all

lemma length_zeroed [simp]: "length zeroed = 4096"
  by (simp add: zeroed_def)

lemma turn_msgid:
  assumes "po_word k"
  shows "po_turn csigned ((map chr ''msgid '' @ [34] @ po_escape k @ [34]) @ [10]) (start_state tmp, out)
    = Some (Some (\<lparr>ps_state = 2, ps_key = filled k, ps_val = zeroed, ps_tmp = tmp\<rparr>, out))"
proof -
  have "length k \<le> 4080" "0 \<notin> set k" "k \<noteq> []"
    using assms length_po_escape [of k] by (auto simp: po_word_def)
  then have "extract_string (map chr ''msgid '' @ 34 # po_escape k @ 34 # [10]) zeroed 4096 = Some (int (length k), filled k)"
    using assms extract_quoted [of "map chr ''msgid ''" k 4096 zeroed "[10]"] filled_props(3) [of k]
    by (simp add: chr_values po_word_def)
  then show ?thesis using \<open>k \<noteq> []\<close>
    by (simp add: po_turn_def po_line_def start_state_def starts_with_def)
qed

lemma turn_msgstr:
  assumes "po_word v"
  shows "po_turn csigned ((map chr ''msgstr '' @ [34] @ po_escape v @ [34]) @ [10])
      (\<lparr>ps_state = 2, ps_key = key, ps_val = zeroed, ps_tmp = tmp\<rparr>, out)
    = Some (Some (\<lparr>ps_state = 3, ps_key = key, ps_val = filled v, ps_tmp = tmp\<rparr>, out))"
proof -
  have "length v \<le> 4080" "0 \<notin> set v" "v \<noteq> []"
    using assms length_po_escape [of v] by (auto simp: po_word_def)
  then have "extract_string (map chr ''msgstr '' @ 34 # po_escape v @ 34 # [10]) zeroed 4096 = Some (int (length v), filled v)"
    using assms extract_quoted [of "map chr ''msgstr ''" v 4096 zeroed "[10]"] filled_props(3) [of v]
    by (simp add: chr_values po_word_def)
  then show ?thesis by (simp add: po_turn_def po_line_def)
qed

lemma turn_blank:
  "po_turn csigned ([] @ [10]) (\<lparr>ps_state = 3, ps_key = key, ps_val = val, ps_tmp = tmp\<rparr>, out)
    = map_option (\<lambda>out'. Some (start_state tmp, out')) (po_emit csigned key val out)"
  by (simp add: po_turn_def po_line_def extract_string_def start_state_def)

lemma pair_loop:
  assumes "po_word k" "po_word v" "po_emit csigned (filled k) (filled v) out = Some out'"
  shows "po_loop csigned (pair_text (k, v) @ rest) (start_state tmp, out) = po_loop csigned rest (start_state tmp, out')"
proof -
  have body: "10 \<notin> set (po_escape s)" "0 \<notin> set (po_escape s)" "length (po_escape s) \<le> 4080" if "po_word s" for s
    using that set_po_escape [of s] by (auto simp: po_word_def)
  let ?s1 = "(\<lparr>ps_state = 2, ps_key = filled k, ps_val = zeroed, ps_tmp = tmp\<rparr>, out)"
  let ?s2 = "(\<lparr>ps_state = 3, ps_key = filled k, ps_val = filled v, ps_tmp = tmp\<rparr>, out)"
  let ?l1 = "map chr ''msgid '' @ [34] @ po_escape k @ [34]" and ?l2 = "map chr ''msgstr '' @ [34] @ po_escape v @ [34]"
  have "po_loop csigned (?l1 @ 10 # ?l2 @ 10 # [] @ 10 # rest) (start_state tmp, out)
      = po_loop csigned (?l2 @ 10 # [] @ 10 # rest) ?s1"
    using body [OF assms(1)] turn_msgid [OF assms(1)] by (intro po_loop_line) (auto simp: chr_values)
  also have "\<dots> = po_loop csigned ([] @ 10 # rest) ?s2"
    using body [OF assms(2)] turn_msgstr [OF assms(2)] by (intro po_loop_line) (auto simp: chr_values)
  also have "\<dots> = po_loop csigned rest (start_state tmp, out')"
    using turn_blank assms(3) by (intro po_loop_line) auto
  finally show ?thesis by (simp add: pair_text_def)
qed

section \<open>The file of a list of pairs\<close>

definition kept :: "bool \<Rightarrow> (bytes \<times> bytes) list \<Rightarrow> (bytes \<times> bytes) list" where
  "kept csigned kvs = filter (\<lambda>kv. sfh_hash csigned (fst kv) \<noteq> sfh_hash csigned (snd kv)) kvs"

definition pad_text :: "bytes \<Rightarrow> bytes" where
  "pad_text v = v @ replicate (padded_length (length v) - length v) 0"

definition texts :: "(bytes \<times> bytes) list \<Rightarrow> bytes" where
  "texts kvs = concat (map (pad_text \<circ> snd) kvs)"

fun layout :: "bool \<Rightarrow> (bytes \<times> bytes) list \<Rightarrow> nat \<Rightarrow> lmo_entry list" where
  "layout csigned [] off = []"
| "layout csigned ((k, v) # kvs) off =
     \<lparr>key_id = sfh_hash csigned k, val_id = sfh_hash csigned v, e_offset = word_of_nat off,
      e_length = word_of_nat (length v)\<rparr> # layout csigned kvs (off + length (pad_text v))"

lemma length_pad_text: "length (pad_text v) = padded_length (length v)" "length v \<le> length (pad_text v)"
  by (simp_all add: pad_text_def padded_length_def)

lemma padded_bound: "n \<le> 4080 \<Longrightarrow> padded_length n \<le> 4083"
proof -
  have "(4 - n mod 4) mod 4 \<le> 3" by simp
  then show "n \<le> 4080 \<Longrightarrow> padded_length n \<le> 4083" unfolding padded_length_def by linarith
qed

lemma po_emit_filled:
  assumes "po_word k" "po_word v" "po_offset out = int (length (po_data out))"
    and "length (po_data out) + length (pad_text v) < 2 ^ 31"
  shows "po_emit csigned (filled k) (filled v) out = Some
    (if sfh_hash csigned k = sfh_hash csigned v then out
     else \<lparr>po_entries = po_entries out @ layout csigned [(k, v)] (length (po_data out)),
           po_data = po_data out @ pad_text v, po_offset = int (length (po_data out @ pad_text v))\<rparr>)"
proof -
  have w: "length s \<le> 4080" "0 \<notin> set s" "s \<noteq> []" if "po_word s" for s
    using that length_po_escape [of s] by (auto simp: po_word_def)
  have le: "padded_length (length v) \<le> 4083" "length v \<le> padded_length (length v)"
    using padded_bound [OF w(1) [OF assms(2)]] by (simp_all add: padded_length_def)
  then have "take (padded_length (length v)) (filled v) = pad_text v"
    using w [OF assms(2)] filled_props(4) [of v "padded_length (length v)"] by (simp add: pad_text_def)
  moreover have "c_string (filled k) = Some k" "c_string (filled v) = Some v" "length (filled v) = 4096"
    using w [OF assms(1)] w [OF assms(2)] by (simp_all add: filled_props)
  ultimately show ?thesis
    using assms(3,4) le w(3) [OF assms(1)] w(3) [OF assms(2)]
    by (simp add: po_emit_def Let_def length_pad_text)
qed

lemma texts_Cons: "texts ((k, v) # kvs) = pad_text v @ texts kvs"
  by (simp add: texts_def)

lemma kept_Cons:
  "kept csigned ((k, v) # kvs) = (if sfh_hash csigned k = sfh_hash csigned v then [] else [(k, v)]) @ kept csigned kvs"
  by (simp add: kept_def)

lemma po_text_loop:
  assumes "\<forall>(k, v)\<in>set kvs. po_word k \<and> po_word v" "po_offset out = int (length (po_data out))"
    and "length (po_data out) + length (texts kvs) < 2 ^ 31"
  shows "po_loop csigned (po_text kvs) (start_state tmp, out) = Some (Some (start_state tmp,
    \<lparr>po_entries = po_entries out @ layout csigned (kept csigned kvs) (length (po_data out)),
     po_data = po_data out @ texts (kept csigned kvs),
     po_offset = int (length (po_data out @ texts (kept csigned kvs)))\<rparr>))"
  using assms
proof (induction kvs arbitrary: out)
  case Nil
  then show ?case by (subst po_loop.simps) (simp add: po_text_def start_state_def kept_def texts_def)
next
  case (Cons kv kvs)
  obtain k v where kv: "kv = (k, v)" by (cases kv)
  have words: "po_word k" "po_word v" using Cons.prems(1) kv by auto
  define out' where "out' = (if sfh_hash csigned k = sfh_hash csigned v then out
     else \<lparr>po_entries = po_entries out @ layout csigned [(k, v)] (length (po_data out)),
           po_data = po_data out @ pad_text v, po_offset = int (length (po_data out @ pad_text v))\<rparr>)"
  have "po_emit csigned (filled k) (filled v) out = Some out'"
    unfolding out'_def using words Cons.prems(2,3) kv by (intro po_emit_filled) (auto simp: texts_Cons)
  then have "po_loop csigned (po_text (kv # kvs)) (start_state tmp, out) = po_loop csigned (po_text kvs) (start_state tmp, out')"
    using pair_loop [OF words] kv by (simp add: po_text_def)
  also have "\<dots> = Some (Some (start_state tmp,
    \<lparr>po_entries = po_entries out' @ layout csigned (kept csigned kvs) (length (po_data out')),
     po_data = po_data out' @ texts (kept csigned kvs),
     po_offset = int (length (po_data out' @ texts (kept csigned kvs)))\<rparr>))"
    using Cons.prems kv by (intro Cons.IH) (auto simp: out'_def texts_Cons)
  finally show ?case
    by (simp add: kv kept_Cons out'_def texts_Cons Cons.prems(2))
qed

lemma layout_keys: "map key_id (layout csigned kvs off) = map (\<lambda>kv. sfh_hash csigned (fst kv)) kvs"
  by (induction csigned kvs off rule: layout.induct) auto

lemma layout_strings:
  assumes "length pre + length (texts kvs) < 2 ^ 31"
  shows "map (\<lambda>e. (key_id e, take (unat (e_length e)) (drop (unat (e_offset e)) (pre @ texts kvs @ post)))) (layout csigned kvs (length pre))
      = map (\<lambda>kv. (sfh_hash csigned (fst kv), snd kv)) kvs
    \<and> (\<forall>e\<in>set (layout csigned kvs (length pre)). unat (e_offset e) + unat (e_length e) \<le> length (pre @ texts kvs))"
  using assms
proof (induction kvs arbitrary: pre)
  case (Cons kv kvs)
  obtain k v where kv: "kv = (k, v)" by (cases kv)
  have n: "length v \<le> length (pad_text v)" "length pre + length (pad_text v) + length (texts kvs) < 2 ^ 31"
    using Cons.prems length_pad_text(2) [of v] by (simp_all add: kv texts_Cons)
  have u: "unat (word_of_nat (length v) :: u32) = length v" "unat (word_of_nat (length pre) :: u32) = length pre"
    using n by (simp_all add: unat_small)
  have "take (length v) (pad_text v @ xs) = v" for xs by (simp add: pad_text_def)
  moreover note Cons.IH [of "pre @ pad_text v"]
  ultimately show ?case using n u by (simp add: kv texts_Cons)
qed (simp add: texts_def)

text \<open>Pairs that can be told apart, and whose archive has less than 2 GiB.\<close>

definition po_pairs :: "bool \<Rightarrow> (bytes \<times> bytes) list \<Rightarrow> bool" where
  "po_pairs csigned kvs \<longleftrightarrow> (\<forall>(k, v)\<in>set kvs. po_word k \<and> po_word v) \<and> kept csigned kvs \<noteq> []
    \<and> distinct (map (\<lambda>kv. sfh_hash csigned (fst kv)) (kept csigned kvs))
    \<and> length (texts kvs) + 16 * length kvs + 4 < 2 ^ 31"

lemma kept_smaller: "length (texts (kept csigned kvs)) \<le> length (texts kvs)" "length (kept csigned kvs) \<le> length kvs"
  by (induction kvs) (auto simp: kept_def texts_def le_SucI)

lemma length_layout: "length (layout csigned kvs off) = length kvs"
  using arg_cong [OF layout_keys, of length] by simp

lemma pad_text_pos: "v \<noteq> [] \<Longrightarrow> pad_text v \<noteq> []"
  by (simp add: pad_text_def)

lemma po2lmo_written:
  assumes "po_pairs csigned kvs"
  shows "po2lmo csigned qsort tmp 3 (Some (po_text kvs)) True
    = Some (Written (archive_file (texts (kept csigned kvs)) (qsort (layout csigned (kept csigned kvs) 0))))"
proof -
  let ?ks = "kept csigned kvs"
  have loop: "po_loop csigned (po_text kvs) (po_start tmp)
      = Some (Some (start_state tmp, \<lparr>po_entries = layout csigned ?ks 0, po_data = texts ?ks, po_offset = int (length (texts ?ks))\<rparr>))"
    using po_text_loop [of kvs "\<lparr>po_entries = [], po_data = [], po_offset = 0\<rparr>" csigned tmp] assms
    by (simp add: po_start_def start_state_def po_pairs_def)
  obtain k v ks where ks: "?ks = (k, v) # ks" using assms by (cases ?ks) (auto simp: po_pairs_def)
  then have "(k, v) \<in> set ?ks" by simp
  then have "(k, v) \<in> set kvs" by (simp add: kept_def)
  then have "pad_text v \<noteq> []" using assms pad_text_pos by (auto simp: po_pairs_def po_word_def)
  then have "texts ?ks \<noteq> []" by (simp add: ks texts_Cons)
  then show ?thesis using loop by (simp add: po2lmo_def archive_file_def print_index_def)
qed

context index_sort begin

lemma written_archive:
  assumes "po_pairs csigned kvs" and "2 ^ 32 - 1 \<le> tgt_ulong_max t"
  defines "data \<equiv> texts (kept csigned kvs)" and "es \<equiv> qsort (layout csigned (kept csigned kvs) 0)"
  shows "lmo_open t (Some (archive_file data es)) = Some (Some (archive data es))"
    and "wf_archive (archive data es)"
    and "ar_dict (archive data es) = map_of (map (\<lambda>kv. (sfh_hash csigned (fst kv), snd kv)) (kept csigned kvs))"
proof -
  let ?ks = "kept csigned kvs" and ?es = "layout csigned (kept csigned kvs) 0"
  have len: "length (archive_file data es) < 2 ^ 31"
    using assms(1) kept_smaller [of csigned kvs]
    by (simp add: length_archive_file data_def es_def sort_length length_layout po_pairs_def)
  then show "lmo_open t (Some (archive_file data es)) = Some (Some (archive data es))"
    using assms(2) by (rule lmo_open_archive)
  have strings: "map (\<lambda>e. (key_id e, take (unat (e_length e)) (drop (unat (e_offset e)) data))) ?es
      = map (\<lambda>kv. (sfh_hash csigned (fst kv), snd kv)) ?ks"
    "\<forall>e\<in>set ?es. unat (e_offset e) + unat (e_length e) \<le> length data"
    using layout_strings [of "[]" ?ks "[]" csigned] assms(1) kept_smaller [of csigned kvs]
    by (simp_all add: data_def po_pairs_def)
  have keys: "distinct (map key_id ?es)" using assms(1) by (simp add: layout_keys po_pairs_def)
  have "es \<noteq> []" using assms(1) sort_length [of ?es] length_layout [of csigned ?ks 0] unfolding es_def po_pairs_def
    by (metis length_0_conv)
  moreover have "\<forall>e\<in>set es. unat (e_offset e) + unat (e_length e) \<le> length data"
    using strings(2) by (simp add: es_def sort_set)
  ultimately have wf: "wf_archive (archive data es)"
    "ar_dict (archive data es) = map_of (map (\<lambda>e. (key_id e, take (unat (e_length e)) (drop (unat (e_offset e)) data))) es)"
    using wf_archive_file [OF len] ascending [of ?es] sort_distinct [OF keys] unfolding es_def by blast+
  show "wf_archive (archive data es)" by (rule wf(1))
  show "ar_dict (archive data es) = map_of (map (\<lambda>kv. (sfh_hash csigned (fst kv), snd kv)) ?ks)"
    unfolding wf(2) by (simp add: es_def sort_map_of [OF keys] strings(1))
qed

end

text \<open>
  C7: the text of a list of pairs, quoted as PO files are, is compiled to a file that
  \<open>lmo_open\<close> reads back as a well-formed archive, and its dictionary maps the hash of every key
  to the value, for each pair whose key and value have different hashes.
\<close>
theorem po2lmo_roundtrip:
  assumes "index_sort qsort" and "po_pairs csigned kvs" and "2 ^ 32 - 1 \<le> tgt_ulong_max t"
  shows "\<exists>m ar. po2lmo csigned qsort tmp 3 (Some (po_text kvs)) True = Some (Written m)
    \<and> lmo_open t (Some m) = Some (Some ar) \<and> wf_archive ar
    \<and> ar_dict ar = map_of (map (\<lambda>kv. (sfh_hash csigned (fst kv), snd kv)) (kept csigned kvs))"
  using po2lmo_written [OF assms(2)] index_sort.written_archive [OF assms] by blast

text \<open>The pair \<open>A\<close>, \<open>B\<close>.\<close>

lemma sfh_letters: "sfh_hash csigned [65] \<noteq> sfh_hash csigned [66]"
proof -
  have "char_val csigned 65 = 65" "char_val csigned 66 = 66" by (simp_all add: char_val_def)
  then show ?thesis by (simp add: sfh_hash_def sfh_avalanche_def)
qed

lemma po_pairs_sample: "po_pairs csigned [([65], [66])]"
  using sfh_letters [of csigned]
  by (simp add: po_pairs_def po_word_def kept_def texts_def pad_text_def padded_length_def)

theorem po2lmo_roundtrip_witness:
  "\<exists>m ar. po2lmo True (sort_key key_id) zeroed 3 (Some (po_text [([65], [66])])) True = Some (Written m)
    \<and> lmo_open \<lparr>tgt_endian = Little, tgt_ulong_max = 2 ^ 32 - 1\<rparr> (Some m) = Some (Some ar)
    \<and> ar_dict ar (sfh_hash True [65]) = Some [66]"
  using po2lmo_roundtrip [OF isort.index_sort_axioms po_pairs_sample [of True],
      of "\<lparr>tgt_endian = Little, tgt_ulong_max = 2 ^ 32 - 1\<rparr>" zeroed] sfh_letters [of True]
  by (fastforce simp: kept_def)

text \<open>The state after the compiled file has been loaded as the only catalog.\<close>

lemma load_written:
  assumes "index_sort qsort" and "po_pairs csigned kvs" and "2 ^ 32 - 1 \<le> tgt_ulong_max t"
    and "po2lmo csigned qsort tmp 3 (Some (po_text kvs)) True = Some (Written m)"
    and "lmo_load_catalog t ''de'' (Some [(''base.de.lmo'', Some m)]) lmo_init = Some (0, st)"
  shows "lmo_translate csigned key st = Some
    (case map_of (map (\<lambda>kv. (sfh_hash csigned (fst kv), snd kv)) (kept csigned kvs)) (lmo_canon_hash csigned key) of
       None \<Rightarrow> Not_found | Some v \<Rightarrow> Translated v)"
proof -
  let ?ks = "kept csigned kvs"
  define ar where "ar = archive (texts ?ks) (qsort (layout csigned ?ks 0))"
  have m: "m = archive_file (texts ?ks) (qsort (layout csigned ?ks 0))"
    using assms(4) po2lmo_written [OF assms(2), of qsort tmp] by simp
  have ar: "lmo_open t (Some m) = Some (Some ar)" "wf_archive ar"
    "ar_dict ar = map_of (map (\<lambda>kv. (sfh_hash csigned (fst kv), snd kv)) ?ks)"
    unfolding ar_def m by (rule index_sort.written_archive [OF assms(1-3)])+
  have "fnmatch ''*.de.lmo'' ''base.de.lmo''" by code_simp
  then have "st = \<lparr>lm_heap = [0 \<mapsto> \<lparr>cat_lang = ''de'', cat_archives = [ar]\<rparr>], lm_next = 1, lm_list = [0], lm_active = Some 0\<rparr>"
    using assms(5) ar(1) by (simp add: lmo_load_catalog_def lmo_change_catalog_def lmo_init_def)
  then show ?thesis
    using lmo_lookup_dicts [of "[ar]"] ar(2,3) by (simp add: lmo_translate_def dict_union_def)
qed

text \<open>
  C33: a key that has no white space to be folded is translated to its value once the compiled
  file is loaded, although the compiler hashes the key as it stands and the lookup hashes its
  canonical form.
\<close>
theorem po2lmo_translates:
  assumes "index_sort qsort" and "po_pairs csigned kvs" and "2 ^ 32 - 1 \<le> tgt_ulong_max t"
    and "po2lmo csigned qsort tmp 3 (Some (po_text kvs)) True = Some (Written m)"
    and "lmo_load_catalog t ''de'' (Some [(''base.de.lmo'', Some m)]) lmo_init = Some (0, st)"
    and "(k, v) \<in> set (kept csigned kvs)" and "canon k = k"
  shows "lmo_translate csigned k st = Some (Translated v)"
proof -
  have "map_of (map (\<lambda>kv. (sfh_hash csigned (fst kv), snd kv)) (kept csigned kvs)) (sfh_hash csigned k) = Some v"
  proof (rule map_of_is_SomeI)
    show "distinct (map fst (map (\<lambda>kv. (sfh_hash csigned (fst kv), snd kv)) (kept csigned kvs)))"
      using assms(2) by (simp add: po_pairs_def comp_def)
    show "(sfh_hash csigned k, v) \<in> set (map (\<lambda>kv. (sfh_hash csigned (fst kv), snd kv)) (kept csigned kvs))"
      using assms(6) by force
  qed
  moreover have "length k < 4096"
    using assms(2,6) length_po_escape [of k] by (fastforce simp: po_pairs_def kept_def po_word_def)
  ultimately show ?thesis
    using load_written [OF assms(1-5), of k] assms(7) by (simp add: lmo_canon_hash_def)
qed

lemma po_sample_loaded:
  "\<exists>m st. po2lmo True (sort_key key_id) zeroed 3 (Some (po_text [([65], [66])])) True = Some (Written m)
    \<and> lmo_load_catalog \<lparr>tgt_endian = Little, tgt_ulong_max = 2 ^ 32 - 1\<rparr> ''de'' (Some [(''base.de.lmo'', Some m)]) lmo_init = Some (0, st)"
proof -
  let ?t = "\<lparr>tgt_endian = Little, tgt_ulong_max = 2 ^ 32 - 1\<rparr>"
  have "fnmatch ''*.de.lmo'' ''base.de.lmo''" by code_simp
  then show ?thesis
    using po2lmo_written [OF po_pairs_sample [of True], of "sort_key key_id" zeroed]
      index_sort.written_archive(1) [OF isort.index_sort_axioms po_pairs_sample [of True], of ?t]
    by (simp add: lmo_load_catalog_def lmo_change_catalog_def lmo_init_def)
qed

theorem po2lmo_translates_witness:
  "\<exists>m st. po2lmo True (sort_key key_id) zeroed 3 (Some (po_text [([65], [66])])) True = Some (Written m)
    \<and> lmo_load_catalog \<lparr>tgt_endian = Little, tgt_ulong_max = 2 ^ 32 - 1\<rparr> ''de'' (Some [(''base.de.lmo'', Some m)]) lmo_init = Some (0, st)
    \<and> lmo_translate True [65] st = Some (Translated [66])"
proof -
  obtain m st where "po2lmo True (sort_key key_id) zeroed 3 (Some (po_text [([65], [66])])) True = Some (Written m)"
    "lmo_load_catalog \<lparr>tgt_endian = Little, tgt_ulong_max = 2 ^ 32 - 1\<rparr> ''de'' (Some [(''base.de.lmo'', Some m)]) lmo_init = Some (0, st)"
    using po_sample_loaded by blast
  moreover from po2lmo_translates [OF isort.index_sort_axioms po_pairs_sample _ this, of "[65]" "[66]"]
  have "lmo_translate True [65] st = Some (Translated [66])"
    using sfh_letters [of True] by (simp add: kept_def canon_def is_space_def word_le_nat_alt)
  ultimately show ?thesis by blast
qed

text \<open>
  A key with white space whose canonical form has the hash of none of the keys is not found,
  though it is in the file: the compiler does not fold white space.
\<close>

theorem po2lmo_white_space:
  assumes "index_sort qsort" and "po_pairs csigned [(k, v)]" and "2 ^ 32 - 1 \<le> tgt_ulong_max t"
    and "po2lmo csigned qsort tmp 3 (Some (po_text [(k, v)])) True = Some (Written m)"
    and "lmo_load_catalog t ''de'' (Some [(''base.de.lmo'', Some m)]) lmo_init = Some (0, st)"
    and "lmo_canon_hash csigned k \<noteq> sfh_hash csigned k"
  shows "lmo_translate csigned k st = Some Not_found"
  using load_written [OF assms(1-5), of k] assms(6) by (simp add: kept_def)

section \<open>Turns of the loop\<close>

text \<open>
  at the end of the input one more turn on an empty line brings every state from 2 on back
  to 0, so that the loop of \<open>main\<close> ends.
\<close>
theorem po_end_turn:
  "po_turn csigned [] (st, out) = Some (Some (st', out')) \<Longrightarrow> ps_state st \<in> {2, 3, 4} \<Longrightarrow> ps_state st' = 0"
  by (auto simp: po_turn_def po_line_def extract_string_def starts_with_def)

theorem po_end_turn_witness:
  "\<exists>st' out'. po_turn True [] (\<lparr>ps_state = 2, ps_key = zeroed, ps_val = zeroed, ps_tmp = zeroed\<rparr>, \<lparr>po_entries = [], po_data = [], po_offset = 0\<rparr>) = Some (Some (st', out'))
    \<and> ps_state st' = 0"
proof -
  let ?st = "\<lparr>ps_state = 2, ps_key = zeroed, ps_val = zeroed, ps_tmp = zeroed\<rparr>"
  have "c_string zeroed = Some []" by (simp add: c_string_def zeroed_def)
  then have "po_turn True [] (?st, \<lparr>po_entries = [], po_data = [], po_offset = 0\<rparr>) = Some (Some (start_state zeroed, \<lparr>po_entries = [], po_data = [], po_offset = 0\<rparr>))"
    by (simp add: po_turn_def po_line_def extract_string_def starts_with_def po_emit_def start_state_def)
  with po_end_turn [OF this] show ?thesis by auto
qed

text \<open>
  a continued text whose pieces have 4096 characters or more together is written past the
  end of its buffer.
\<close>
theorem po_overflow:
  assumes "c_string val = Some s" "length val = 4096" "length tmp = 4096" "0 \<notin> set b" "4096 \<le> length s + length b" "length (po_escape b) \<le> 4080"
  shows "po_turn csigned ([34] @ po_escape b @ [34, 10]) (\<lparr>ps_state = 3, ps_key = key, ps_val = val, ps_tmp = tmp\<rparr>, out) = None"
proof -
  have "length b \<le> 4080" using assms(6) length_po_escape [of b] by simp
  then have "extract_string ([34] @ po_escape b @ [34, 10]) tmp 4096 = Some (int (length b), b @ [0] @ drop (length b + 1) tmp)"
    using extract_quoted [of "[]" b 4096 tmp "[10]"] assms by simp
  moreover have "array_cat val (b @ [0] @ drop (length b + 1) tmp) = None"
    using assms c_string_append [of b] by (simp add: array_cat_def)
  ultimately show ?thesis by (simp add: po_turn_def po_line_def)
qed

theorem po_overflow_witness:
  "po_turn True ([34] @ po_escape (replicate 2048 65) @ [34, 10])
     (\<lparr>ps_state = 3, ps_key = zeroed, ps_val = filled (replicate 2048 66), ps_tmp = zeroed\<rparr>, \<lparr>po_entries = [], po_data = [], po_offset = 0\<rparr>) = None"
proof -
  have "po_escape (replicate n 65) = replicate n 65" for n by (induction n) auto
  then show ?thesis
    by (intro po_overflow [where s = "replicate 2048 66"]) (simp_all add: filled_props)
qed

end
