(* ===== verification/Template_Parser.thy ===== *)
theory Template_Parser
  imports Template_Lmo
begin

text \<open>
  LuCI's template parser (\<open>src/luci/modules/luci-base/src/template_parser.c\<close>) and the part of
  \<open>template_lualib.c\<close> that runs it: the reader that turns a template piece by piece into Lua
  source, and the message for a template that Lua rejects.

  Pointers into the template are offsets from \<open>data\<close>.  \<open>tp_data\<close> are the bytes that can be
  read there: the template, and what follows it in the string or in the last mapped page.
  Reading behind them, and copying a negative number of bytes, is undefined (\<open>None\<close>).
\<close>

section \<open>Chunks and the parser\<close>

datatype chunk_type = T_INIT | T_TEXT | T_COMMENT | T_EXPR | T_INCLUDE | T_I18N | T_I18N_RAW | T_CODE | T_EOF

text \<open>The Lua code in front of and behind a chunk.\<close>

fun gen_code :: "chunk_type \<Rightarrow> string option \<times> string option" where
  "gen_code T_TEXT = (Some (''write('' @ [CHR 0x22]), Some ([CHR 0x22] @ '')''))"
| "gen_code T_EXPR = (Some ''write(tostring('', Some ('' or '' @ [CHR 0x22, CHR 0x22] @ ''))''))"
| "gen_code T_INCLUDE = (Some (''include('' @ [CHR 0x22]), Some ([CHR 0x22] @ '')''))"
| "gen_code T_I18N = (Some (''write('' @ [CHR 0x22]), Some ([CHR 0x22] @ '')''))"
| "gen_code T_I18N_RAW = (Some (''write('' @ [CHR 0x22]), Some ([CHR 0x22] @ '')''))"
| "gen_code T_CODE = (None, Some '' '')"
| "gen_code _ = (None, None)"

record template_chunk =
  ck_s :: nat
  ck_e :: nat
  ck_type :: chunk_type
  ck_line :: int

record template_parser =
  tp_size :: nat
  tp_data :: bytes
  tp_off :: nat
  tp_gc :: "bytes option"
  tp_line :: int
  tp_in_expr :: bool
  tp_strip_before :: bool
  tp_strip_after :: bool
  tp_prv_chunk :: template_chunk
  tp_cur_chunk :: template_chunk
  tp_file :: "string option"

text \<open>
  \<open>strfind\<close> from position \<open>i\<close> of the haystack on: the place of the first match.
\<close>

definition match_at :: "bytes \<Rightarrow> bytes \<Rightarrow> nat \<Rightarrow> bool" where
  "match_at hay needle i \<longleftrightarrow> hay ! i = needle ! 0
    \<and> (length needle = 1 \<or> i + length needle \<le> length hay)
    \<and> list_all (\<lambda>j. i + j < length hay \<longrightarrow> hay ! (i + j) = needle ! j) [1..<length needle]"

function strfind_from :: "bytes \<Rightarrow> bytes \<Rightarrow> nat \<Rightarrow> nat option" where
  "strfind_from hay needle i =
     (if i < length hay then (if match_at hay needle i then Some i else strfind_from hay needle (i + 1))
      else None)"
  by pat_completeness auto
termination
  by (relation "measure (\<lambda>(hay, needle, i). length hay - i)") auto

declare strfind_from.simps [simp del]

definition strfind :: "bytes \<Rightarrow> bytes \<Rightarrow> nat option" where
  "strfind hay needle = strfind_from hay needle 0"

definition chunk_at :: "nat \<Rightarrow> template_chunk" where
  "chunk_at i = \<lparr>ck_s = i, ck_e = i, ck_type = T_INIT, ck_line = 0\<rparr>"

text \<open>
  A parser over \<open>size\<close> bytes of memory.  \<open>prv_chunk\<close> is zeroed; it is overwritten before it is used.
\<close>

definition new_parser :: "string option \<Rightarrow> nat \<Rightarrow> bytes \<Rightarrow> template_parser" where
  "new_parser file sz data =
     \<lparr>tp_size = sz, tp_data = data, tp_off = 0, tp_gc = None, tp_line = 0, tp_in_expr = False,
      tp_strip_before = False, tp_strip_after = False, tp_prv_chunk = chunk_at 0,
      tp_cur_chunk = chunk_at 0, tp_file = file\<rparr>"

text \<open>
  A mapped file: the rest of its last page reads as zero.  An empty file cannot be mapped; a file
  that cannot be read has no content.
\<close>

definition template_open :: "nat \<Rightarrow> string \<Rightarrow> bytes option \<Rightarrow> template_parser option" where
  "template_open page name content =
     (case content of
        None \<Rightarrow> None
      | Some m \<Rightarrow>
          (let sz = length m mod 2 ^ 32;
               pad = (page - sz mod page) mod page
           in if sz = 0 then None
              else Some (new_parser (Some name) sz (take (sz + pad) (m @ replicate pad 0)))))"

text \<open>A Lua string, with the NUL that follows it.\<close>

definition template_string :: "bytes \<Rightarrow> template_parser" where
  "template_string str =
     (let len = length str mod 2 ^ 32 in new_parser None len (str @ [0]))"

section \<open>Text and code\<close>

definition peek :: "bytes \<Rightarrow> nat \<Rightarrow> u8 option" where
  "peek data i = (if i < length data then Some (data ! i) else None)"

text \<open>\<open>while (s <= e && P(*s)) s++\<close>\<close>

function skip_fwd :: "(u8 \<Rightarrow> bool) \<Rightarrow> bytes \<Rightarrow> nat \<Rightarrow> nat \<Rightarrow> nat option" where
  "skip_fwd P data s e =
     (if s \<le> e then (case peek data s of
        None \<Rightarrow> None
      | Some c \<Rightarrow> if P c then skip_fwd P data (s + 1) e else Some s)
      else Some s)"
  by pat_completeness auto
termination
  by (relation "measure (\<lambda>(P, data, s, e). e + 1 - s)") auto

declare skip_fwd.simps [simp del]

text \<open>\<open>for (; e >= s && P(*e); e--)\<close>; a pointer in front of the template is undefined.\<close>

fun skip_back :: "(u8 \<Rightarrow> bool) \<Rightarrow> bytes \<Rightarrow> nat \<Rightarrow> nat \<Rightarrow> nat option" where
  "skip_back P data s 0 =
     (if s = 0 then (case peek data 0 of None \<Rightarrow> None | Some c \<Rightarrow> if P c then None else Some 0) else Some 0)"
| "skip_back P data s (Suc e) =
     (if s \<le> Suc e then (case peek data (Suc e) of
        None \<Rightarrow> None
      | Some c \<Rightarrow> if P c then skip_back P data s e else Some (Suc e))
      else Some (Suc e))"

definition is_blank :: "u8 \<Rightarrow> bool" where
  "is_blank c \<longleftrightarrow> c = 32 \<or> c = 9"

definition template_text :: "nat \<Rightarrow> template_parser \<Rightarrow> template_parser option" where
  "template_text e p =
     (let s = tp_off p in
      if s < tp_size p then
        map_option
          (\<lambda>s. p\<lparr>tp_cur_chunk := \<lparr>ck_s = s, ck_e = e, ck_type = T_TEXT, ck_line = tp_line p\<rparr>\<rparr>)
          (if tp_strip_after p then skip_fwd is_space (tp_data p) s e else Some s)
      else Some (p\<lparr>tp_cur_chunk := \<lparr>ck_s = s, ck_e = e, ck_type = T_EOF, ck_line = tp_line p\<rparr>\<rparr>))"

text \<open>The type of a tag by its first character, and whether that character is part of the chunk.\<close>

definition tag_type :: "u8 \<Rightarrow> chunk_type \<times> bool" where
  "tag_type c =
     (if c = chr CHR ''#'' then (T_COMMENT, False)
      else if c = chr CHR ''+'' then (T_INCLUDE, False)
      else if c = chr CHR '':'' then (T_I18N, False)
      else if c = chr CHR ''_'' then (T_I18N_RAW, False)
      else if c = chr CHR ''='' then (T_EXPR, False)
      else (T_CODE, True))"

definition template_code :: "nat \<Rightarrow> template_parser \<Rightarrow> template_parser option" where
  "template_code e p = do {
     let s = tp_off p;
     c \<leftarrow> peek (tp_data p) s;
     let before = (c = chr CHR ''-'');
     s \<leftarrow> (if before then skip_fwd is_blank (tp_data p) (s + 1) e else Some s);
     d \<leftarrow> (if e = 0 then None else peek (tp_data p) (e - 1));
     let after = (d = chr CHR ''-'');
     e \<leftarrow> (if after then skip_back is_blank (tp_data p) s (e - 1) else Some e);
     c \<leftarrow> peek (tp_data p) s;
     let (ty, keep) = tag_type c;
     Some (p\<lparr>tp_strip_before := before, tp_strip_after := after,
       tp_cur_chunk := \<lparr>ck_s = (if keep then s else s + 1), ck_e = e, ck_type = ty, ck_line = tp_line p\<rparr>\<rparr>)
   }"

section \<open>Formatting\<close>

text \<open>\<open>while (e > s && isspace(e[-1])) e--\<close>\<close>

fun strip_end :: "bytes \<Rightarrow> nat \<Rightarrow> nat \<Rightarrow> nat option" where
  "strip_end data s 0 = Some 0"
| "strip_end data s (Suc e) =
     (if s < Suc e then (case peek data e of
        None \<Rightarrow> None
      | Some c \<Rightarrow> if is_space c then strip_end data s e else Some (Suc e))
      else Some (Suc e))"

text \<open>The bytes from \<open>s\<close> to \<open>e\<close>, for a copy of \<open>e - s\<close> bytes.\<close>

definition between :: "bytes \<Rightarrow> nat \<Rightarrow> nat \<Rightarrow> bytes option" where
  "between data s e = (if s \<le> e \<and> e \<le> length data then Some (take (e - s) (drop s data)) else None)"

text \<open>A string of \<open>gen_code\<close>, if there is one.\<close>

definition append_code :: "allocator \<Rightarrow> string option \<Rightarrow> template_buffer \<Rightarrow> template_buffer option" where
  "append_code mem code buf =
     (case code of None \<Rightarrow> Some buf | Some s \<Rightarrow> map_option snd (buf_append mem (bytes_of s) buf))"

text \<open>The body of a chunk is written by its type.\<close>

definition chunk_body ::
  "allocator \<Rightarrow> bool \<Rightarrow> lmo_state \<Rightarrow> bytes \<Rightarrow> template_chunk \<Rightarrow> template_buffer \<Rightarrow> template_buffer option" where
  "chunk_body mem csigned lm data c buf =
     (let body = between data (ck_s c) (ck_e c) in
      case ck_type c of
        T_TEXT \<Rightarrow> Option.bind body (\<lambda>b. luastr_escape mem b False buf)
      | T_EXPR \<Rightarrow> Option.bind body (\<lambda>b. map_option snd (buf_append mem b buf))
      | T_INCLUDE \<Rightarrow> Option.bind body (\<lambda>b. luastr_escape mem b False buf)
      | T_I18N \<Rightarrow> Option.bind body (\<lambda>b. luastr_translate mem csigned lm b True buf)
      | T_I18N_RAW \<Rightarrow> Option.bind body (\<lambda>b. luastr_translate mem csigned lm b False buf)
      | T_CODE \<Rightarrow> Option.bind body (\<lambda>b. map_option snd (buf_append mem b buf))
      | _ \<Rightarrow> Some buf)"

text \<open>The lines that an expression or a piece of code adds to the count.\<close>

definition chunk_lines :: "bytes \<Rightarrow> template_chunk \<Rightarrow> int" where
  "chunk_lines data c =
     (if ck_type c = T_EXPR \<or> ck_type c = T_CODE
      then int (count_list (take (ck_e c - ck_s c) (drop (ck_s c) data)) 10) else 0)"

text \<open>
  The piece of Lua source for the previous chunk; no piece (\<open>NULL\<close> with size 0) is the end.
  It is also the result if there is no memory for the buffer.
\<close>

definition template_format_chunk ::
  "allocator \<Rightarrow> bool \<Rightarrow> lmo_state \<Rightarrow> template_parser \<Rightarrow> (bytes option \<times> template_parser) option" where
  "template_format_chunk mem csigned lm p =
     (let c = tp_prv_chunk p in do {
        e \<leftarrow> (if tp_strip_before p \<and> ck_type c = T_TEXT
               then strip_end (tp_data p) (ck_s c) (ck_e c) else Some (ck_e c));
        let c = c\<lparr>ck_e := e\<rparr>;
        let p = p\<lparr>tp_gc := None, tp_prv_chunk := c\<rparr>;
        if ck_s c = ck_e c then Some (if ck_type c = T_EOF then None else Some [32], p)
        else (case buf_init mem (int (ck_e c) - int (ck_s c)) of
            None \<Rightarrow> Some (None, p)
          | Some buf \<Rightarrow> do {
              buf \<leftarrow> append_code mem (fst (gen_code (ck_type c))) buf;
              buf \<leftarrow> chunk_body mem csigned lm (tp_data p) c buf;
              buf \<leftarrow> append_code mem (snd (gen_code (ck_type c))) buf;
              let out = buf_destroy buf;
              Some (Some (if buf_length buf = 0 then [32] else out),
                p\<lparr>tp_gc := Some out, tp_line := tp_line p + chunk_lines (tp_data p) c\<rparr>)
            })
      })"

section \<open>The reader\<close>

text \<open>
  One call of the reader: the chunk read before is formatted while the next one is looked for.
  A tag that does not end gives the character \<open>ESC\<close>.
\<close>

definition template_reader ::
  "allocator \<Rightarrow> bool \<Rightarrow> lmo_state \<Rightarrow> template_parser \<Rightarrow> (bytes option \<times> template_parser) option" where
  "template_reader mem csigned lm p =
     (let p = p\<lparr>tp_prv_chunk := tp_cur_chunk p, tp_gc := None\<rparr>;
          rest = take (tp_size p - tp_off p) (drop (tp_off p) (tp_data p))
      in if \<not> tp_in_expr p then
           (case strfind rest (bytes_of ''<%'') of
              Some i \<Rightarrow> do {
                let tag = tp_off p + i;
                p \<leftarrow> template_text tag p;
                template_format_chunk mem csigned lm (p\<lparr>tp_off := tag + 2, tp_in_expr := True\<rparr>)
              }
            | None \<Rightarrow> do {
                p \<leftarrow> template_text (tp_size p) p;
                template_format_chunk mem csigned lm (p\<lparr>tp_off := tp_size p\<rparr>)
              })
         else
           (case strfind rest (bytes_of ''%>'') of
              Some i \<Rightarrow> do {
                let tag = tp_off p + i;
                p \<leftarrow> template_code tag p;
                template_format_chunk mem csigned lm (p\<lparr>tp_off := tag + 2, tp_in_expr := False\<rparr>)
              }
            | None \<Rightarrow> do {
                p \<leftarrow> template_code (tp_size p) p;
                Some (Some [27], p)
              }))"

section \<open>Errors\<close>

text \<open>\<open>atoi\<close>, where the number fits.\<close>

definition atoi :: "bytes \<Rightarrow> int option" where
  "atoi s =
     (let s = dropWhile is_space s;
          neg = (s \<noteq> [] \<and> hd s = chr CHR ''-'');
          s = (if s \<noteq> [] \<and> (hd s = chr CHR ''-'' \<or> hd s = chr CHR ''+'') then tl s else s);
          v = foldl (\<lambda>a d. 10 * a + (int (unat d) - 48)) 0 (takeWhile (\<lambda>d. 48 \<le> d \<and> d \<le> 57) s);
          n = (if neg then - v else v)
      in if - (2 ^ 31) \<le> n \<and> n < 2 ^ 31 then Some n else None)"

text \<open>The line and the message for an error text of Lua (bytes without a NUL).\<close>

definition template_error :: "bytes \<Rightarrow> template_parser \<Rightarrow> (int \<times> bytes) option" where
  "template_error err p = do {
     (chunkline, err) \<leftarrow> (case strfind err (bytes_of '']:'') of
          None \<Rightarrow> Some (0, err)
        | Some i \<Rightarrow> do {
            n \<leftarrow> atoi (drop (i + 2) err);
            let r = dropWhile (\<lambda>c. c \<noteq> 32) (drop i err);
            Some (n - ck_line (tp_prv_chunk p), if r = [] then err else tl r)
          });
     let (off, err, chunkline) =
       (if strfind err (bytes_of ([CHR 0x27] @ ''char(27)'' @ [CHR 0x27])) \<noteq> None
        then (tp_size p, bytes_of ([CHR 0x27] @ ''%>'' @ [CHR 0x27] @ '' expected before end of file''), 0)
        else (ck_s (tp_prv_chunk p), err, chunkline));
     let line = int (count_list (take off (tp_data p)) 10) + chunkline;
     let name = (case tp_file p of None \<Rightarrow> ''[string]'' | Some f \<Rightarrow> f);
     Some (line, take 1023 (bytes_of (''Syntax error in '' @ name @ '':'' @ show_int line @ '': '') @ err))
   }"

section \<open>Loading\<close>

text \<open>
  What Lua decides after each piece it has read (\<open>None\<close> is the end of the source): it wants
  more, has compiled the source, or has an error.
\<close>

datatype lua_verdict = More | Compiled | Rejected bytes

datatype parse_result = Function | Parse_error int bytes | No_template

text \<open>\<open>lua_load\<close> with at most \<open>n\<close> calls of the reader; \<open>Some None\<close> means that it needs more.\<close>

fun load_loop ::
  "allocator \<Rightarrow> bool \<Rightarrow> lmo_state \<Rightarrow> (bytes option list \<Rightarrow> lua_verdict) \<Rightarrow> nat \<Rightarrow> bytes option list
    \<Rightarrow> template_parser \<Rightarrow> parse_result option option" where
  "load_loop mem csigned lm lua 0 done p = Some None"
| "load_loop mem csigned lm lua (Suc n) done p =
     (case template_reader mem csigned lm p of
        None \<Rightarrow> None
      | Some (r, p) \<Rightarrow>
          (case lua (done @ [r]) of
             More \<Rightarrow> load_loop mem csigned lm lua n (done @ [r]) p
           | Compiled \<Rightarrow> Some (Some Function)
           | Rejected err \<Rightarrow> map_option (\<lambda>(line, msg). Some (Parse_error line msg)) (template_error err p)))"

definition template_L_do_parse ::
  "allocator \<Rightarrow> bool \<Rightarrow> lmo_state \<Rightarrow> (bytes option list \<Rightarrow> lua_verdict) \<Rightarrow> nat
    \<Rightarrow> template_parser option \<Rightarrow> parse_result option option" where
  "template_L_do_parse mem csigned lm lua n p =
     (case p of None \<Rightarrow> Some (Some No_template) | Some p \<Rightarrow> load_loop mem csigned lm lua n [] p)"

definition template_L_parse where
  "template_L_parse mem csigned lm lua n page name content =
     template_L_do_parse mem csigned lm lua n (template_open page name content)"

definition template_L_parse_string where
  "template_L_parse_string mem csigned lm lua n str =
     template_L_do_parse mem csigned lm lua n (Some (template_string str))"

end
