(* ===== verification/Template_Parser_Facts.thy ===== *)
theory Template_Parser_Facts
  imports Template_Parser Template_Lmo_Facts Template_Utils_Facts
begin

text \<open>
  The template parser against a description of templates: which pieces of Lua source a template
  consists of, what happens to a tag that does not end, and the tag that makes the parser copy
  a negative number of bytes.
\<close>

section \<open>Searching\<close>

text \<open>The place of the first occurrence of two characters.\<close>

fun find2 :: "u8 \<Rightarrow> u8 \<Rightarrow> bytes \<Rightarrow> nat option" where
  "find2 a b (x # y # s) = (if x = a \<and> y = b then Some 0 else map_option Suc (find2 a b (y # s)))"
| "find2 a b _ = None"

lemma match_at_2: "i < length hay \<Longrightarrow> match_at hay [a, b] i \<longleftrightarrow> i + 1 < length hay \<and> hay ! i = a \<and> hay ! (i + 1) = b"
  by (auto simp: match_at_def upt_rec)

lemma strfind_from_2:
  "strfind_from (pre @ s) [a, b] (length pre) = map_option (\<lambda>i. length pre + i) (find2 a b s)"
proof (induction s arbitrary: pre)
  case Nil
  then show ?case by (simp add: strfind_from.simps)
next
  case (Cons x s)
  have IH: "strfind_from (pre @ x # s) [a, b] (Suc (length pre))
      = map_option (\<lambda>i. Suc (length pre) + i) (find2 a b s)"
    using Cons.IH [of "pre @ [x]"] by simp
  show ?case
  proof (cases s)
    case Nil
    then show ?thesis using IH by (subst strfind_from.simps) (simp add: match_at_2)
  next
    case (Cons y s')
    have m: "match_at (pre @ x # s) [a, b] (length pre) \<longleftrightarrow> x = a \<and> y = b"
      by (simp add: match_at_2 Cons nth_append)
    show ?thesis
    proof (cases "x = a \<and> y = b")
      case True
      then show ?thesis using m Cons by (subst strfind_from.simps) simp
    next
      case False
      then have "strfind_from (pre @ x # s) [a, b] (length pre) = strfind_from (pre @ x # s) [a, b] (Suc (length pre))"
        using m by (subst strfind_from.simps) auto
      then show ?thesis using IH False Cons by (simp add: option.map_comp comp_def)
    qed
  qed
qed

lemma strfind_2: "strfind s [a, b] = find2 a b s"
  using strfind_from_2 [of "[]" s a b] by (simp add: strfind_def option.map_ident)

lemma find2_split:
  "find2 a b s = Some i \<Longrightarrow> s = take i s @ a # b # drop (i + 2) s \<and> i + 2 \<le> length s"
  by (induction a b s arbitrary: i rule: find2.induct) (auto split: if_splits)

section \<open>Moving pointers\<close>

definition rstrip :: "bytes \<Rightarrow> bytes" where
  "rstrip s = rev (dropWhile is_space (rev s))"

definition slice_of :: "bytes \<Rightarrow> nat \<Rightarrow> nat \<Rightarrow> bytes" where
  "slice_of data s e = take (e - s) (drop s data)"

lemma slice_of_Cons: "s < e \<Longrightarrow> e \<le> length data \<Longrightarrow> slice_of data s e = data ! s # slice_of data (Suc s) e"
  by (simp add: slice_of_def take_Cons' Cons_nth_drop_Suc [symmetric])

lemma slice_of_snoc: "s \<le> e \<Longrightarrow> e < length data \<Longrightarrow> slice_of data s (Suc e) = slice_of data s e @ [data ! e]"
  by (simp add: slice_of_def Suc_diff_le take_Suc_conv_app_nth)

lemma slice_of_empty [simp]: "e \<le> s \<Longrightarrow> slice_of data s e = []"
  by (simp add: slice_of_def)

lemma slice_of_middle: "slice_of (xs @ ys @ zs) (length xs) (length xs + length ys) = ys"
  by (simp add: slice_of_def)

lemma slice_of_drop: "s + k \<le> e \<Longrightarrow> slice_of data (s + k) e = drop k (slice_of data s e)"
  by (simp add: slice_of_def drop_take add.commute)

lemma slice_of_take: "s \<le> e' \<Longrightarrow> e' \<le> e \<Longrightarrow> slice_of data s e' = take (e' - s) (slice_of data s e)"
  by (simp add: slice_of_def min_def)

lemma length_slice_of: "e \<le> length data \<Longrightarrow> length (slice_of data s e) = e - s"
  by (simp add: slice_of_def)

lemma skip_fwd_stops:
  assumes "s \<le> e" "e < length data" "\<not> P (data ! e)"
  shows "skip_fwd P data s e = Some (s + length (takeWhile P (slice_of data s e)))"
  using assms
proof (induction P data s e rule: skip_fwd.induct)
  case (1 P data s e)
  have pk: "peek data s = Some (data ! s)" using "1.prems" by (simp add: peek_def)
  show ?case
  proof (cases "P (data ! s)")
    case True
    then have "s < e" using "1.prems" by (metis le_neq_implies_less)
    then show ?thesis
      using "1.IH" [OF _ pk True] True "1.prems" pk slice_of_Cons [of s e data] by (subst skip_fwd.simps) simp
  next
    case False
    then have "takeWhile P (slice_of data s e) = []"
      using "1.prems" slice_of_Cons [of s e data] by (cases "s < e") auto
    then show ?thesis using False "1.prems" pk by (subst skip_fwd.simps) simp
  qed
qed

lemma strip_end_stops:
  "s \<le> e \<Longrightarrow> e \<le> length data \<Longrightarrow> strip_end data s e = Some (s + length (rstrip (slice_of data s e)))"
proof (induction e)
  case (Suc e)
  show ?case
  proof (cases "s < Suc e")
    case True
    have "rstrip (slice_of data s (Suc e)) = (if is_space (data ! e) then rstrip (slice_of data s e) else slice_of data s e @ [data ! e])"
      using True Suc.prems by (simp add: slice_of_snoc rstrip_def)
    then show ?thesis using Suc True by (simp add: peek_def length_slice_of)
  next
    case False
    then have "s = Suc e" using Suc.prems by simp
    then show ?thesis by (simp add: rstrip_def)
  qed
qed (simp add: rstrip_def)

lemma rstrip_prefix: "take (length (rstrip s)) s = rstrip s" "length (rstrip s) \<le> length s"
proof -
  have "s = rstrip s @ rev (takeWhile is_space (rev s))"
    unfolding rstrip_def by (metis rev_append rev_rev_ident takeWhile_dropWhile_id)
  then show "take (length (rstrip s)) s = rstrip s" by (metis append_eq_conv_conj)
  show "length (rstrip s) \<le> length s" using dropWhile_length_le [of is_space "rev s"] by (simp add: rstrip_def)
qed

section \<open>The piece of a chunk\<close>

text \<open>The text that stands for a key in the active catalog.\<close>

definition tr_text :: "bool \<Rightarrow> lmo_state \<Rightarrow> bytes \<Rightarrow> bytes" where
  "tr_text csigned lm k = (case lmo_translate csigned k lm of Some (Translated v) \<Rightarrow> v | _ \<Rightarrow> k)"

definition code_bytes :: "string option \<Rightarrow> bytes" where
  "code_bytes c = (case c of None \<Rightarrow> [] | Some s \<Rightarrow> bytes_of s)"

definition piece_body :: "(bytes \<Rightarrow> bytes) \<Rightarrow> chunk_type \<Rightarrow> bytes \<Rightarrow> bytes" where
  "piece_body tr ty b =
     (case ty of
        T_TEXT \<Rightarrow> concat (map (escape_out False) b)
      | T_INCLUDE \<Rightarrow> concat (map (escape_out False) b)
      | T_I18N \<Rightarrow> concat (map (escape_out True) (tr b))
      | T_I18N_RAW \<Rightarrow> concat (map (escape_out False) (tr b))
      | T_EXPR \<Rightarrow> b
      | T_CODE \<Rightarrow> b
      | _ \<Rightarrow> [])"

definition piece :: "(bytes \<Rightarrow> bytes) \<Rightarrow> chunk_type \<Rightarrow> bytes \<Rightarrow> bytes" where
  "piece tr ty b =
     (if b = [] then [32]
      else (let out = code_bytes (fst (gen_code ty)) @ piece_body tr ty b @ code_bytes (snd (gen_code ty))
            in if out = [] then [32] else out))"

lemma append_code_run:
  "buf_inv b \<Longrightarrow> \<forall>n. mem n \<Longrightarrow>
     \<exists>b'. append_code mem c b = Some b' \<and> buf_inv b' \<and> b_data b' = b_data b @ code_bytes c"
  using buf_append_run [of b mem] by (cases c) (auto simp: append_code_def code_bytes_def)

lemma luastr_translate_run:
  assumes "buf_inv b" "\<forall>n. mem n" "lmo_translate csigned k lm \<noteq> None"
  shows "\<exists>b'. luastr_translate mem csigned lm k x b = Some b' \<and> buf_inv b'
    \<and> b_data b' = b_data b @ concat (map (escape_out x) (tr_text csigned lm k))"
  using luastr_escape_run [OF assms(1), of mem _ x] assms(2,3)
  by (auto simp: luastr_translate_def tr_text_def split: translation.splits)

lemma chunk_body_run:
  assumes "buf_inv b" "\<forall>n. mem n" "\<forall>k. lmo_translate csigned k lm \<noteq> None"
    and "ck_s c \<le> ck_e c" "ck_e c \<le> length data"
  shows "\<exists>b'. chunk_body mem csigned lm data c b = Some b' \<and> buf_inv b'
    \<and> b_data b' = b_data b @ piece_body (tr_text csigned lm) (ck_type c) (slice_of data (ck_s c) (ck_e c))"
proof -
  let ?s = "slice_of data (ck_s c) (ck_e c)"
  have bt: "between data (ck_s c) (ck_e c) = Some ?s" using assms by (simp add: between_def slice_of_def)
  note e = luastr_escape_run [OF assms(1), of mem ?s False] buf_append_run [OF assms(1), of mem ?s]
    luastr_translate_run [of b mem csigned ?s lm]
  show ?thesis using e assms(1-3)
    by (cases "ck_type c") (simp_all add: chunk_body_def bt piece_body_def)
qed

text \<open>What a call leaves unchanged apart from \<open>gc\<close>, the line count and the previous chunk.\<close>

definition same_rest :: "template_parser \<Rightarrow> template_parser \<Rightarrow> bool" where
  "same_rest p q \<longleftrightarrow> (\<exists>g l c. q = p\<lparr>tp_gc := g, tp_line := l, tp_prv_chunk := c\<rparr>)"

lemma same_restD:
  "same_rest p q \<Longrightarrow> tp_size q = tp_size p \<and> tp_data q = tp_data p \<and> tp_off q = tp_off p
    \<and> tp_in_expr q = tp_in_expr p \<and> tp_strip_before q = tp_strip_before p
    \<and> tp_strip_after q = tp_strip_after p \<and> tp_cur_chunk q = tp_cur_chunk p"
  by (auto simp: same_rest_def)

lemma same_rest_update:
  "same_rest p (p\<lparr>tp_gc := g, tp_prv_chunk := c\<rparr>)"
  "same_rest p (p\<lparr>tp_gc := g, tp_line := l, tp_prv_chunk := c\<rparr>)"
  unfolding same_rest_def
  by (rule exI [of _ g], rule exI [of _ "tp_line p"], rule exI [of _ c], simp) blast

definition chunk_ok :: "bytes \<Rightarrow> template_chunk \<Rightarrow> bool" where
  "chunk_ok data c \<longleftrightarrow> ck_s c \<le> ck_e c \<and> ck_e c \<le> length data"

definition chunk_text :: "bytes \<Rightarrow> template_chunk \<Rightarrow> bytes" where
  "chunk_text data c = slice_of data (ck_s c) (ck_e c)"

lemma format_run:
  assumes mem: "\<forall>n. mem n" and tr: "\<forall>k. lmo_translate csigned k lm \<noteq> None"
    and ok: "chunk_ok (tp_data p) (tp_prv_chunk p)" and ty: "ck_type (tp_prv_chunk p) \<noteq> T_EOF"
  shows "\<exists>q. template_format_chunk mem csigned lm p = Some (Some (piece (tr_text csigned lm) (ck_type (tp_prv_chunk p))
      ((if tp_strip_before p \<and> ck_type (tp_prv_chunk p) = T_TEXT then rstrip else id) (chunk_text (tp_data p) (tp_prv_chunk p)))), q)
    \<and> same_rest p q"
proof -
  let ?c = "tp_prv_chunk p" and ?D = "tp_data p"
  let ?strip = "tp_strip_before p \<and> ck_type ?c = T_TEXT"
  define e where "e = (if ?strip then ck_s ?c + length (rstrip (chunk_text ?D ?c)) else ck_e ?c)"
  have len: "length (chunk_text ?D ?c) = ck_e ?c - ck_s ?c"
    using ok by (simp add: chunk_text_def chunk_ok_def length_slice_of)
  have e_eq: "(if ?strip then strip_end ?D (ck_s ?c) (ck_e ?c) else Some (ck_e ?c)) = Some e"
    using ok strip_end_stops [of "ck_s ?c" "ck_e ?c" ?D] by (simp add: e_def chunk_ok_def chunk_text_def)
  have le: "ck_s ?c \<le> e" "e \<le> ck_e ?c"
    using ok rstrip_prefix(2) [of "chunk_text ?D ?c"] len by (auto simp: e_def chunk_ok_def)
  have body: "slice_of ?D (ck_s ?c) e = (if ?strip then rstrip else id) (chunk_text ?D ?c)"
    using slice_of_take [OF le, of ?D] rstrip_prefix(1) [of "chunk_text ?D ?c"]
    using len by (simp add: e_def chunk_text_def)
  define c where "c = ?c\<lparr>ck_e := e\<rparr>"
  define p1 where "p1 = p\<lparr>tp_gc := None, tp_prv_chunk := c\<rparr>"
  have fmt: "template_format_chunk mem csigned lm p =
     (if ck_s c = ck_e c then Some (Some [32], p1)
      else (case buf_init mem (int (ck_e c) - int (ck_s c)) of
            None \<Rightarrow> Some (None, p1)
          | Some buf \<Rightarrow> do {
              buf \<leftarrow> append_code mem (fst (gen_code (ck_type c))) buf;
              buf \<leftarrow> chunk_body mem csigned lm ?D c buf;
              buf \<leftarrow> append_code mem (snd (gen_code (ck_type c))) buf;
              let out = buf_destroy buf;
              Some (Some (if buf_length buf = 0 then [32] else out),
                p1\<lparr>tp_gc := Some out, tp_line := tp_line p1 + chunk_lines ?D c\<rparr>)
            }))"
    unfolding template_format_chunk_def Let_def e_eq by (simp add: c_def p1_def ty cong: option.case_cong)
  have body_eq: "slice_of ?D (ck_s c) (ck_e c) = (if ?strip then rstrip else id) (chunk_text ?D ?c)"
    and cok: "ck_s c \<le> ck_e c" "ck_e c \<le> length ?D"
    using body le ok by (simp_all add: c_def chunk_ok_def)
  show ?thesis
  proof (cases "ck_s c = ck_e c")
    case True
    then have "(if ?strip then rstrip else id) (chunk_text ?D ?c) = []" using body_eq by simp
    then have "template_format_chunk mem csigned lm p = Some (Some (piece (tr_text csigned lm) (ck_type ?c)
        ((if ?strip then rstrip else id) (chunk_text ?D ?c))), p1)"
      using fmt True by (simp add: piece_def)
    moreover have "same_rest p p1" unfolding p1_def by (rule same_rest_update)
    ultimately show ?thesis by blast
  next
    case False
    then have ne: "slice_of ?D (ck_s c) (ck_e c) \<noteq> []" using cok length_slice_of [of "ck_e c" ?D "ck_s c"] by auto
    obtain b0 where b0: "buf_init mem (int (ck_e c) - int (ck_s c)) = Some b0" "buf_inv b0" "b_data b0 = []"
      using mem buf_init_inv [of mem "int (ck_e c) - int (ck_s c)"] by (fastforce simp: buf_init_def Let_def)
    obtain b1 where b1: "append_code mem (fst (gen_code (ck_type c))) b0 = Some b1" "buf_inv b1"
      "b_data b1 = code_bytes (fst (gen_code (ck_type c)))"
      using append_code_run [OF b0(2) mem] b0(3) by auto
    obtain b2 where b2: "chunk_body mem csigned lm ?D c b1 = Some b2" "buf_inv b2"
      "b_data b2 = b_data b1 @ piece_body (tr_text csigned lm) (ck_type c) (slice_of ?D (ck_s c) (ck_e c))"
      using chunk_body_run [OF b1(2) mem tr cok] by blast
    obtain b3 where b3: "append_code mem (snd (gen_code (ck_type c))) b2 = Some b3" "buf_inv b3"
      "b_data b3 = b_data b2 @ code_bytes (snd (gen_code (ck_type c)))"
      using append_code_run [OF b2(2) mem] by blast
    have "buf_length b3 = length (b_data b3)" using b3(2) by (simp add: buf_length_def buf_inv_def)
    then have "template_format_chunk mem csigned lm p = Some (Some (piece (tr_text csigned lm) (ck_type c) (slice_of ?D (ck_s c) (ck_e c))),
        p1\<lparr>tp_gc := Some (b_data b3), tp_line := tp_line p1 + chunk_lines ?D c\<rparr>)"
      unfolding fmt using False b0(1) b1(1,3) b2(1,3) b3(1,3) ne
      by (simp add: piece_def buf_destroy_def Let_def)
    moreover have "same_rest p (p1\<lparr>tp_gc := Some (b_data b3), tp_line := tp_line p1 + chunk_lines ?D c\<rparr>)"
    proof -
      have "p1\<lparr>tp_gc := Some (b_data b3), tp_line := tp_line p1 + chunk_lines ?D c\<rparr>
          = p\<lparr>tp_gc := Some (b_data b3), tp_line := tp_line p1 + chunk_lines ?D c, tp_prv_chunk := c\<rparr>"
        by (simp add: p1_def)
      then show ?thesis using same_rest_update(2) by simp
    qed
    ultimately show ?thesis using body_eq by (auto simp: c_def)
  qed
qed

section \<open>Tags\<close>

text \<open>A tag starts or ends with a dash, and is a body of one of the types.\<close>

definition tag_before :: "bytes \<Rightarrow> bool" where
  "tag_before tag \<longleftrightarrow> tag \<noteq> [] \<and> hd tag = 45"

definition tag_after :: "bytes \<Rightarrow> bool" where
  "tag_after tag \<longleftrightarrow> tag \<noteq> [] \<and> last tag = 45"

definition tag_body :: "bytes \<Rightarrow> bytes" where
  "tag_body tag =
     (let b = (if tag_after tag then butlast tag else tag)
      in if tag_before tag then dropWhile is_blank (tl b) else b)"

definition tag_parts :: "bytes \<Rightarrow> chunk_type \<times> bytes" where
  "tag_parts tag =
     (case tag_body tag of
        [] \<Rightarrow> (T_CODE, [])
      | c # r \<Rightarrow> (fst (tag_type c), if snd (tag_type c) then c # r else r))"

lemma skip_back_stops: "e < length data \<Longrightarrow> \<not> P (data ! e) \<or> e < s \<Longrightarrow> skip_back P data s e = Some e"
  by (cases e) (auto simp: peek_def)

lemma takeWhile_butlast: "s \<noteq> [] \<Longrightarrow> \<not> P (last s) \<Longrightarrow> takeWhile P (butlast s) = takeWhile P s"
  by (induction s) auto

lemma dash_blank: "\<not> is_blank 45" "\<not> is_blank 37" "chr CHR ''-'' = 45" "tag_type 45 = (T_CODE, True)" "tag_type 37 = (T_CODE, True)"
  by (simp_all add: is_blank_def tag_type_def)

lemma template_code_run:
  assumes data: "tp_data p = pre @ 37 # tag @ 37 # post" and off: "tp_off p = length pre + 1"
    and tag: "tag \<noteq> [45]"
  shows "\<exists>c. template_code (tp_off p + length tag) p
      = Some (p\<lparr>tp_strip_before := tag_before tag, tp_strip_after := tag_after tag, tp_cur_chunk := c\<rparr>)
    \<and> chunk_ok (tp_data p) c \<and> ck_type c = fst (tag_parts tag) \<and> chunk_text (tp_data p) c = snd (tag_parts tag)"
proof -
  let ?D = "tp_data p" and ?s = "tp_off p" and ?e = "tp_off p + length tag"
  have at: "?D ! ?e = 37" "?D ! (?s - 1) = 37" "?e < length ?D" "0 < ?s" using data off by (auto simp: nth_append)
  have tags: "?D ! (?s + i) = tag ! i" if "i < length tag" for i using data off that by (simp add: nth_append)
  have sl: "slice_of ?D ?s ?e = tag"
    using slice_of_middle [of "pre @ [37]" tag "37 # post"] data off by simp
  have hd: "?D ! ?s = 45 \<longleftrightarrow> tag_before tag"
    using tags [of 0] at by (cases tag) (auto simp: tag_before_def)
  have last: "?D ! (?e - 1) = 45 \<longleftrightarrow> tag_after tag"
  proof (cases "tag = []")
    case False
    then have "?D ! (?s + (length tag - 1)) = last tag" using tags [of "length tag - 1"] by (simp add: last_conv_nth)
    moreover have "?s + (length tag - 1) = ?e - 1" using False by (cases tag) simp_all
    ultimately show ?thesis using False by (simp add: tag_after_def)
  qed (use at in \<open>simp add: tag_after_def\<close>)
  define s1 where "s1 = (if tag_before tag then ?s + 1 + length (takeWhile is_blank (tl tag)) else ?s)"
  define e1 where "e1 = (if tag_after tag then ?e - 1 else ?e)"
  have skip: "(if tag_before tag then skip_fwd is_blank ?D (?s + 1) ?e else Some ?s) = Some s1"
  proof (cases "tag_before tag")
    case True
    then have "slice_of ?D (?s + 1) ?e = tl tag"
      using slice_of_drop [of ?s 1 ?e ?D] sl by (cases tag) (auto simp: tag_before_def drop_Suc)
    then show ?thesis
      using skip_fwd_stops [of "?s + 1" ?e ?D is_blank] True at dash_blank
      by (cases tag) (auto simp: s1_def tag_before_def)
  qed (simp add: s1_def)
  have stop: "(if tag_after tag then skip_back is_blank ?D s1 (?e - 1) else Some ?e) = Some e1"
    using skip_back_stops [of "?e - 1" ?D is_blank s1] at last dash_blank by (auto simp: e1_def)
  have s1_e1: "s1 \<le> e1 \<and> slice_of ?D s1 e1 = tag_body tag"
  proof (cases "tag_before tag")
    case bef: True
    then obtain r where r: "tag = 45 # r" by (cases tag) (auto simp: tag_before_def)
    show ?thesis
    proof (cases "tag_after tag")
      case True
      then have rne: "r \<noteq> []" "last r = 45" using tag r by (auto simp: tag_after_def split: if_splits)
      then have tw: "takeWhile is_blank (butlast r) = takeWhile is_blank r"
        using dash_blank by (intro takeWhile_butlast) auto
      have le: "length (takeWhile is_blank r) \<le> length (butlast r)" unfolding tw [symmetric] by (rule length_takeWhile_le)
      have se: "s1 = ?s + (1 + length (takeWhile is_blank r))" "e1 = ?s + length r" "s1 \<le> e1"
        using bef True r rne le by (cases "length r"; auto simp: s1_def e1_def)+
      have "slice_of ?D ?s e1 = butlast tag"
        using slice_of_take [of ?s e1 ?e ?D] se r sl by (simp add: butlast_conv_take)
      then have "slice_of ?D s1 e1 = drop (1 + length (takeWhile is_blank r)) (butlast tag)"
        using slice_of_drop [of ?s "1 + length (takeWhile is_blank r)" e1 ?D] se by simp
      also have "\<dots> = dropWhile is_blank (butlast r)" using r rne by (simp add: dropWhile_eq_drop tw)
      finally show ?thesis using se(3) bef True r rne by (simp add: tag_body_def)
    next
      case False
      have se: "s1 = ?s + (1 + length (takeWhile is_blank r))" "e1 = ?e" "s1 \<le> e1"
        using bef False r length_takeWhile_le [of is_blank r] by (auto simp: s1_def e1_def)
      then have "slice_of ?D s1 e1 = drop (1 + length (takeWhile is_blank r)) tag"
        using slice_of_drop [of ?s "1 + length (takeWhile is_blank r)" e1 ?D] sl by simp
      then show ?thesis using se(3) bef False r by (simp add: tag_body_def dropWhile_eq_drop)
    qed
  next
    case bef: False
    show ?thesis
    proof (cases "tag_after tag")
      case True
      then have "slice_of ?D ?s (?e - 1) = butlast tag" "1 \<le> length tag"
        using slice_of_take [of ?s "?e - 1" ?e ?D] sl
        by (cases tag; simp add: tag_after_def butlast_conv_take)+
      then show ?thesis using bef True by (simp add: s1_def e1_def tag_body_def)
    qed (use bef sl in \<open>simp add: s1_def e1_def tag_body_def\<close>)
  qed
  have e1_lt: "e1 < length ?D" "?D ! e1 = 45 \<or> ?D ! e1 = 37" using at last by (auto simp: e1_def)
  let ?c = "\<lparr>ck_s = (if snd (tag_type (?D ! s1)) then s1 else s1 + 1), ck_e = e1,
    ck_type = fst (tag_type (?D ! s1)), ck_line = tp_line p\<rparr>"
  have run: "template_code ?e p = Some (p\<lparr>tp_strip_before := tag_before tag, tp_strip_after := tag_after tag, tp_cur_chunk := ?c\<rparr>)"
  proof -
    have "peek ?D ?s = Some (?D ! ?s)" "peek ?D (?e - 1) = Some (?D ! (?e - 1))" "peek ?D s1 = Some (?D ! s1)" "?e \<noteq> 0"
      using at s1_e1 e1_lt by (auto simp: peek_def)
    moreover have "(chr CHR ''-'' :: u8) = 45" by simp
    ultimately show ?thesis
      unfolding template_code_def Let_def using skip stop hd last by (simp split: prod.split)
  qed
  have "chunk_ok ?D ?c \<and> ck_type ?c = fst (tag_parts tag) \<and> chunk_text ?D ?c = snd (tag_parts tag)"
  proof (cases "tag_body tag")
    case Nil
    then have "s1 = e1" using s1_e1 length_slice_of [of e1 ?D s1] e1_lt by simp
    then show ?thesis using Nil e1_lt dash_blank by (auto simp: chunk_ok_def chunk_text_def tag_parts_def)
  next
    case (Cons c r)
    then have "s1 < e1" using s1_e1 by (metis le_neq_implies_less list.distinct(1) slice_of_empty order_refl)
    then have "?D ! s1 = c" "slice_of ?D (Suc s1) e1 = r"
      using slice_of_Cons [of s1 e1 ?D] s1_e1 Cons e1_lt by auto
    then show ?thesis using Cons s1_e1 \<open>s1 < e1\<close> e1_lt by (auto simp: chunk_ok_def chunk_text_def tag_parts_def)
  qed
  with run show ?thesis by blast
qed

section \<open>What a template consists of\<close>

definition strip_left :: "bool \<Rightarrow> bytes \<Rightarrow> bytes" where
  "strip_left b s = (if b then dropWhile is_space s else s)"

definition strip_right :: "bool \<Rightarrow> bytes \<Rightarrow> bytes" where
  "strip_right b s = (if b then rstrip s else s)"

text \<open>
  The pieces of a template from a place outside of a tag on: the text up to the next tag, the
  tag, and so on.  \<open>after\<close> and \<open>before\<close> say whether the tag in front ended or started with a
  dash.  A tag without an end, and the tag \<open><%-%>\<close>, have no pieces.
\<close>

function tmpl_code :: "(bytes \<Rightarrow> bytes) \<Rightarrow> bool \<Rightarrow> bool \<Rightarrow> bytes \<Rightarrow> bytes list option" where
  "tmpl_code tr after before src =
     (case find2 60 37 src of
        None \<Rightarrow> Some (if src = [] then [] else [piece tr T_TEXT (strip_right before (strip_left after src))])
      | Some i \<Rightarrow>
          (case find2 37 62 (drop (i + 2) src) of
             None \<Rightarrow> None
           | Some j \<Rightarrow>
               (let tag = take j (drop (i + 2) src) in
                if tag = [45] then None
                else map_option
                  (\<lambda>ps. piece tr T_TEXT (strip_right (tag_before tag) (strip_left after (take i src)))
                     # piece tr (fst (tag_parts tag)) (snd (tag_parts tag)) # ps)
                  (tmpl_code tr (tag_after tag) (tag_before tag) (drop (i + 2 + j + 2) src)))))"
  by pat_completeness auto
termination
  by (relation "measure (\<lambda>(tr, after, before, src). length src)") (auto dest!: find2_split)

declare tmpl_code.simps [simp del]

text \<open>Calls of the reader one after the other.\<close>

fun template_reads ::
  "allocator \<Rightarrow> bool \<Rightarrow> lmo_state \<Rightarrow> nat \<Rightarrow> template_parser \<Rightarrow> (bytes option list \<times> template_parser) option" where
  "template_reads mem csigned lm 0 p = Some ([], p)"
| "template_reads mem csigned lm (Suc n) p =
     (case template_reader mem csigned lm p of
        None \<Rightarrow> None
      | Some (r, q) \<Rightarrow> map_option (\<lambda>(rs, q). (r # rs, q)) (template_reads mem csigned lm n q))"

section \<open>The reader, call by call\<close>

text \<open>A parser in the middle of the template \<open>src\<close>, which is followed by a NUL.\<close>

definition located :: "bytes \<Rightarrow> bytes \<Rightarrow> template_parser \<Rightarrow> bool" where
  "located src post p \<longleftrightarrow> tp_size p = length src \<and> tp_data p = src @ 0 # post \<and> tp_off p \<le> length src"

definition reading :: "bytes \<Rightarrow> bytes \<Rightarrow> template_parser \<Rightarrow> bool" where
  "reading src post p \<longleftrightarrow> located src post p \<and> chunk_ok (tp_data p) (tp_cur_chunk p)"

definition cur_piece :: "bool \<Rightarrow> lmo_state \<Rightarrow> bool \<Rightarrow> template_parser \<Rightarrow> bytes" where
  "cur_piece csigned lm strip p =
     piece (tr_text csigned lm) (ck_type (tp_cur_chunk p))
       (strip_right (strip \<and> ck_type (tp_cur_chunk p) = T_TEXT) (chunk_text (tp_data p) (tp_cur_chunk p)))"

definition started :: "template_parser \<Rightarrow> template_parser" where
  "started p = p\<lparr>tp_prv_chunk := tp_cur_chunk p, tp_gc := None\<rparr>"

lemma marks: "bytes_of ''<%'' = [60, 37]" "bytes_of ''%>'' = [37, 62]"
  by (simp_all add: bytes_of_def)

lemma rest_eq: "located src post p \<Longrightarrow> take (tp_size p - tp_off p) (drop (tp_off p) (tp_data p)) = drop (tp_off p) src"
  by (simp add: reading_def located_def)

lemma reading_located: "reading src post p \<Longrightarrow> located src post p"
  by (simp add: reading_def)

lemma reader_text:
  assumes "located src post p" "\<not> tp_in_expr p"
  shows "template_reader mem csigned lm p =
    (case find2 60 37 (drop (tp_off p) src) of
       Some i \<Rightarrow> Option.bind (template_text (tp_off p + i) (started p))
         (\<lambda>q. template_format_chunk mem csigned lm (q\<lparr>tp_off := tp_off p + i + 2, tp_in_expr := True\<rparr>))
     | None \<Rightarrow> Option.bind (template_text (length src) (started p))
         (\<lambda>q. template_format_chunk mem csigned lm (q\<lparr>tp_off := length src\<rparr>)))"
proof -
  have t: "take (length src - tp_off p) (drop (tp_off p) (tp_data p)) = drop (tp_off p) src" "tp_size p = length src"
    using rest_eq [of src post p] assms(1) by (simp_all add: reading_def located_def)
  show ?thesis
  proof (cases "find2 60 37 (drop (tp_off p) src)")
    case None
    have "template_text (length src) (started p) = Some q \<Longrightarrow> tp_size q = length src" for q
      using t(2) by (auto simp: template_text_def Let_def started_def split: if_splits)
    then show ?thesis using assms(2) t None
      by (auto simp: template_reader_def Let_def marks strfind_2 started_def cong: Option.bind_cong)
  qed (use assms(2) t in \<open>simp add: template_reader_def Let_def marks strfind_2 started_def\<close>)
qed

lemma reader_code:
  assumes "located src post p" "tp_in_expr p"
  shows "template_reader mem csigned lm p =
    (case find2 37 62 (drop (tp_off p) src) of
       Some i \<Rightarrow> Option.bind (template_code (tp_off p + i) (started p))
         (\<lambda>q. template_format_chunk mem csigned lm (q\<lparr>tp_off := tp_off p + i + 2, tp_in_expr := False\<rparr>))
     | None \<Rightarrow> map_option (Pair (Some [27])) (template_code (length src) (started p)))"
proof -
  have t: "take (length src - tp_off p) (drop (tp_off p) (tp_data p)) = drop (tp_off p) src" "tp_size p = length src"
    using rest_eq [OF assms(1)] assms(1) by (simp_all add: reading_def located_def)
  show ?thesis
    using assms(2) t by (auto simp: template_reader_def Let_def marks strfind_2 started_def map_option_case split: option.split)
qed

lemma find2_nth: "find2 a b s = Some i \<Longrightarrow> s ! i = a \<and> s ! (i + 1) = b"
  by (induction a b s arbitrary: i rule: find2.induct) (auto split: if_splits)

text \<open>The text chunk that a call finds.\<close>

lemma space_marks: "\<not> is_space 0" "\<not> is_space 60"
  by (simp_all add: is_space_def word_le_nat_alt)

lemma template_text_run:
  assumes "located src post p" "tp_off p < length src" "tp_off p \<le> e" "e \<le> length src"
    and "e = length src \<or> src ! e = 60"
  shows "\<exists>c. template_text e (started p) = Some (started p\<lparr>tp_cur_chunk := c\<rparr>) \<and> ck_type c = T_TEXT
    \<and> chunk_ok (tp_data p) c \<and> chunk_text (tp_data p) c = strip_left (tp_strip_after p) (slice_of src (tp_off p) e)"
proof -
  let ?D = "tp_data p" and ?s = "tp_off p"
  have D: "?D = src @ 0 # post" "tp_size p = length src" using assms(1) by (simp_all add: reading_def located_def)
  have sl: "slice_of ?D ?s e = slice_of src ?s e" using assms(4) D by (simp add: slice_of_def)
  have at: "e < length ?D" "\<not> is_space (?D ! e)"
    using assms(4,5) D space_marks by (auto simp: nth_append)
  define s1 where "s1 = (if tp_strip_after p then ?s + length (takeWhile is_space (slice_of ?D ?s e)) else ?s)"
  have "(if tp_strip_after p then skip_fwd is_space ?D ?s e else Some ?s) = Some s1"
    using skip_fwd_stops [of ?s e ?D is_space] assms(3) at by (simp add: s1_def)
  then have "template_text e (started p) = Some (started p\<lparr>tp_cur_chunk := \<lparr>ck_s = s1, ck_e = e, ck_type = T_TEXT, ck_line = tp_line p\<rparr>\<rparr>)"
    using D(2) assms(2) by (auto simp: template_text_def started_def Let_def split: if_splits)
  moreover have le: "s1 \<le> e"
    using length_takeWhile_le [of is_space "slice_of ?D ?s e"] length_slice_of [of e ?D ?s] at assms(3)
    by (cases "tp_strip_after p") (auto simp: s1_def)
  moreover have "slice_of ?D s1 e = strip_left (tp_strip_after p) (slice_of src ?s e)"
    using slice_of_drop [of ?s "length (takeWhile is_space (slice_of ?D ?s e))" e ?D] le sl
    by (auto simp: s1_def strip_left_def dropWhile_eq_drop)
  ultimately show ?thesis using at by (auto simp: chunk_ok_def chunk_text_def)
qed

text \<open>The piece of the chunk found before, and what stays the same.\<close>

lemma format_started:
  assumes mem: "\<forall>n. mem n" and tr: "\<forall>k. lmo_translate csigned k lm \<noteq> None"
    and r: "reading src post p" and ty: "ck_type (tp_cur_chunk p) \<noteq> T_EOF"
    and q: "tp_data q = tp_data p" "tp_prv_chunk q = tp_cur_chunk p"
  shows "\<exists>q'. template_format_chunk mem csigned lm q = Some (Some (cur_piece csigned lm (tp_strip_before q) p), q')
    \<and> same_rest q q'"
proof -
  have "chunk_ok (tp_data q) (tp_prv_chunk q)" "ck_type (tp_prv_chunk q) \<noteq> T_EOF"
    using r ty q by (auto simp: reading_def located_def)
  note f = format_run [OF mem tr this]
  have "(if tp_strip_before q \<and> ck_type (tp_prv_chunk q) = T_TEXT then rstrip else id) (chunk_text (tp_data q) (tp_prv_chunk q))
      = strip_right (tp_strip_before q \<and> ck_type (tp_cur_chunk p) = T_TEXT) (chunk_text (tp_data p) (tp_cur_chunk p))"
    using q by (simp add: strip_right_def)
  then show ?thesis using f q by (simp add: cur_piece_def)
qed

text \<open>Outside of a tag: a tag follows, text up to the end follows, nothing follows.\<close>

lemma read_open:
  assumes mem: "\<forall>n. mem n" and tr: "\<forall>k. lmo_translate csigned k lm \<noteq> None"
    and r: "reading src post p" "\<not> tp_in_expr p" and ty: "ck_type (tp_cur_chunk p) \<noteq> T_EOF"
    and i: "find2 60 37 (drop (tp_off p) src) = Some i"
  shows "\<exists>q. template_reader mem csigned lm p = Some (Some (cur_piece csigned lm (tp_strip_before p) p), q)
    \<and> reading src post q \<and> tp_in_expr q \<and> tp_off q = tp_off p + i + 2
    \<and> ck_type (tp_cur_chunk q) = T_TEXT \<and> tp_data q = tp_data p
    \<and> chunk_text (tp_data q) (tp_cur_chunk q) = strip_left (tp_strip_after p) (take i (drop (tp_off p) src))"
proof -
  note sp = find2_split [OF i]
  have "tp_off p + i < length src" using sp by auto
  moreover from this have "src ! (tp_off p + i) = 60"
    using find2_nth [OF i] r(1) by (simp add: reading_def located_def)
  ultimately obtain c where c: "template_text (tp_off p + i) (started p) = Some (started p\<lparr>tp_cur_chunk := c\<rparr>)"
    "ck_type c = T_TEXT" "chunk_ok (tp_data p) c"
    "chunk_text (tp_data p) c = strip_left (tp_strip_after p) (slice_of src (tp_off p) (tp_off p + i))"
    using template_text_run [OF reading_located [OF r(1)], of "tp_off p + i"] by auto
  let ?q = "started p\<lparr>tp_cur_chunk := c, tp_off := tp_off p + i + 2, tp_in_expr := True\<rparr>"
  obtain q where q: "template_format_chunk mem csigned lm ?q = Some (Some (cur_piece csigned lm (tp_strip_before ?q) p), q)" "same_rest ?q q"
    using format_started [OF mem tr r(1) ty, of ?q] by (auto simp: started_def)
  have "template_reader mem csigned lm p = Some (Some (cur_piece csigned lm (tp_strip_before p) p), q)"
    using q(1) c(1) i by (simp add: reader_text [OF reading_located [OF r(1)] r(2)] started_def)
  then show ?thesis
    using same_restD [OF q(2)] r sp c by (auto simp: started_def reading_def located_def slice_of_def)
qed

lemma read_tail:
  assumes mem: "\<forall>n. mem n" and tr: "\<forall>k. lmo_translate csigned k lm \<noteq> None"
    and r: "reading src post p" "\<not> tp_in_expr p" and ty: "ck_type (tp_cur_chunk p) \<noteq> T_EOF"
    and i: "find2 60 37 (drop (tp_off p) src) = None" and off: "tp_off p < length src"
  shows "\<exists>q. template_reader mem csigned lm p = Some (Some (cur_piece csigned lm (tp_strip_before p) p), q)
    \<and> reading src post q \<and> \<not> tp_in_expr q \<and> tp_off q = length src
    \<and> ck_type (tp_cur_chunk q) = T_TEXT \<and> tp_data q = tp_data p \<and> tp_strip_before q = tp_strip_before p
    \<and> chunk_text (tp_data q) (tp_cur_chunk q) = strip_left (tp_strip_after p) (drop (tp_off p) src)"
proof -
  obtain c where c: "template_text (length src) (started p) = Some (started p\<lparr>tp_cur_chunk := c\<rparr>)"
    "ck_type c = T_TEXT" "chunk_ok (tp_data p) c"
    "chunk_text (tp_data p) c = strip_left (tp_strip_after p) (slice_of src (tp_off p) (length src))"
    using template_text_run [OF reading_located [OF r(1)] off, of "length src"] r(1) by (auto simp: reading_def located_def)
  let ?q = "started p\<lparr>tp_cur_chunk := c, tp_off := length src\<rparr>"
  obtain q where q: "template_format_chunk mem csigned lm ?q = Some (Some (cur_piece csigned lm (tp_strip_before ?q) p), q)" "same_rest ?q q"
    using format_started [OF mem tr r(1) ty, of ?q] by (auto simp: started_def)
  have "template_reader mem csigned lm p = Some (Some (cur_piece csigned lm (tp_strip_before p) p), q)"
    using q(1) c(1) i by (simp add: reader_text [OF reading_located [OF r(1)] r(2)] started_def)
  then show ?thesis
    using same_restD [OF q(2)] r c by (auto simp: started_def reading_def located_def slice_of_def)
qed

text \<open>At the end of the template the last chunk is followed by the end.\<close>

lemma template_text_end:
  assumes "located src post p" "tp_off p = length src"
  shows "template_text (length src) (started p) = Some (started p\<lparr>tp_cur_chunk :=
    \<lparr>ck_s = length src, ck_e = length src, ck_type = T_EOF, ck_line = tp_line p\<rparr>\<rparr>)"
  using assms by (simp add: template_text_def reading_def located_def started_def Let_def)

lemma read_end:
  assumes mem: "\<forall>n. mem n" and tr: "\<forall>k. lmo_translate csigned k lm \<noteq> None"
    and r: "reading src post p" "\<not> tp_in_expr p" and ty: "ck_type (tp_cur_chunk p) \<noteq> T_EOF"
    and off: "tp_off p = length src"
  shows "\<exists>q. template_reads mem csigned lm 2 p = Some ([Some (cur_piece csigned lm (tp_strip_before p) p), None], q)"
proof -
  let ?c = "\<lparr>ck_s = length src, ck_e = length src, ck_type = T_EOF, ck_line = tp_line p\<rparr>"
  let ?q = "started p\<lparr>tp_cur_chunk := ?c, tp_off := length src\<rparr>"
  obtain q where q: "template_format_chunk mem csigned lm ?q = Some (Some (cur_piece csigned lm (tp_strip_before ?q) p), q)" "same_rest ?q q"
    using format_started [OF mem tr r(1) ty, of ?q] by (auto simp: started_def)
  have one: "template_reader mem csigned lm p = Some (Some (cur_piece csigned lm (tp_strip_before p) p), q)"
    using q(1) off template_text_end [OF reading_located [OF r(1)] off] by (simp add: reader_text [OF reading_located [OF r(1)] r(2)] started_def)
  have q2: "reading src post q" "\<not> tp_in_expr q" "tp_off q = length src" "tp_cur_chunk q = ?c"
    using same_restD [OF q(2)] r by (auto simp: started_def reading_def located_def chunk_ok_def)
  have "\<exists>q'. template_reader mem csigned lm q = Some (None, q')"
    using template_text_end [OF reading_located [OF q2(1)] q2(3)] q2(3,4)
    by (simp add: reader_text [OF reading_located [OF q2(1)] q2(2)] template_format_chunk_def Let_def started_def)
  then show ?thesis using one by (auto simp: numeral_2_eq_2)
qed

lemma tag_parts_type: "fst (tag_parts tag) \<noteq> T_EOF \<and> fst (tag_parts tag) \<noteq> T_TEXT"
  by (auto simp: tag_parts_def tag_type_def split: list.splits)

text \<open>Inside of a tag that ends.\<close>

lemma read_close:
  assumes mem: "\<forall>n. mem n" and tr: "\<forall>k. lmo_translate csigned k lm \<noteq> None"
    and r: "reading src post p" "tp_in_expr p" and ty: "ck_type (tp_cur_chunk p) \<noteq> T_EOF"
    and mark: "0 < tp_off p" "src ! (tp_off p - 1) = 37"
    and j: "find2 37 62 (drop (tp_off p) src) = Some j"
    and tag: "tag = take j (drop (tp_off p) src)" "tag \<noteq> [45]"
  shows "\<exists>q. template_reader mem csigned lm p = Some (Some (cur_piece csigned lm (tag_before tag) p), q)
    \<and> reading src post q \<and> \<not> tp_in_expr q \<and> tp_off q = tp_off p + j + 2
    \<and> tp_strip_before q = tag_before tag \<and> tp_strip_after q = tag_after tag
    \<and> ck_type (tp_cur_chunk q) = fst (tag_parts tag) \<and> chunk_text (tp_data q) (tp_cur_chunk q) = snd (tag_parts tag)"
proof -
  note sp = find2_split [OF j]
  have D: "tp_data p = src @ 0 # post" "tp_off p \<le> length src" using r(1) by (simp_all add: reading_def located_def)
  have len: "length tag = j" using sp tag(1) by auto
  have "src = take (tp_off p - 1) src @ src ! (tp_off p - 1) # drop (tp_off p) src"
    using mark(1) D(2) id_take_nth_drop [of "tp_off p - 1" src] by simp
  also have "drop (tp_off p) src = tag @ 37 # 62 # drop (j + 2) (drop (tp_off p) src)" using sp tag(1) by simp
  finally have data: "tp_data (started p) = take (tp_off p - 1) src @ 37 # tag @ 37 # (62 # drop (j + 2) (drop (tp_off p) src)) @ 0 # post"
    using D(1) mark(2) by (simp add: started_def)
  have off: "tp_off (started p) = length (take (tp_off p - 1) src) + 1"
    using mark(1) D(2) by (simp add: started_def)
  have st: "tp_off (started p) = tp_off p" "tp_data (started p) = tp_data p" by (simp_all add: started_def)
  obtain c where c: "template_code (tp_off p + j) (started p)
      = Some (started p\<lparr>tp_strip_before := tag_before tag, tp_strip_after := tag_after tag, tp_cur_chunk := c\<rparr>)"
    "chunk_ok (tp_data p) c" "ck_type c = fst (tag_parts tag)" "chunk_text (tp_data p) c = snd (tag_parts tag)"
    using template_code_run [OF data off tag(2)] unfolding len st by blast
  let ?q = "started p\<lparr>tp_strip_before := tag_before tag, tp_strip_after := tag_after tag, tp_cur_chunk := c,
    tp_off := tp_off p + j + 2, tp_in_expr := False\<rparr>"
  obtain q where q: "template_format_chunk mem csigned lm ?q = Some (Some (cur_piece csigned lm (tp_strip_before ?q) p), q)" "same_rest ?q q"
    using format_started [OF mem tr r(1) ty, of ?q] by (auto simp: started_def)
  have "template_reader mem csigned lm p = Some (Some (cur_piece csigned lm (tag_before tag) p), q)"
    using q(1) c(1) j r by (simp add: reader_code [of src post] reading_def)
  then show ?thesis
    using same_restD [OF q(2)] r sp c by (auto simp: started_def reading_def located_def)
qed

lemma reads_Suc:
  "template_reader mem csigned lm p = Some (r, q) \<Longrightarrow> template_reads mem csigned lm n q = Some (rs, q') \<Longrightarrow>
     template_reads mem csigned lm (Suc n) p = Some (r # rs, q')"
  by simp

text \<open>From a place outside of a tag to the end of the template.\<close>

lemma reads_code:
  assumes "tmpl_code (tr_text csigned lm) (tp_strip_after p) (tp_strip_before p) (drop (tp_off p) src) = Some ps"
    and mem: "\<forall>n. mem n" and tr: "\<forall>k. lmo_translate csigned k lm \<noteq> None"
    and "reading src post p" "\<not> tp_in_expr p"
    and "ck_type (tp_cur_chunk p) \<noteq> T_EOF \<and> ck_type (tp_cur_chunk p) \<noteq> T_TEXT"
  shows "\<exists>q. template_reads mem csigned lm (length ps + 2) p
    = Some (Some (piece (tr_text csigned lm) (ck_type (tp_cur_chunk p)) (chunk_text (tp_data p) (tp_cur_chunk p))) # map Some ps @ [None], q)"
  using assms(1,4-6)
proof (induction "length src - tp_off p" arbitrary: p ps rule: less_induct)
  case (less p ps)
  note r = less.prems(2,3) and ty = less.prems(4)
  let ?tr = "tr_text csigned lm" and ?rest = "drop (tp_off p) src"
  have cur: "cur_piece csigned lm b p = piece ?tr (ck_type (tp_cur_chunk p)) (chunk_text (tp_data p) (tp_cur_chunk p))" for b
    using ty by (simp add: cur_piece_def strip_right_def)
  have off: "tp_off p \<le> length src" using r(1) by (simp add: reading_def located_def)
  show ?case
  proof (cases "find2 60 37 ?rest")
    case None
    show ?thesis
    proof (cases "tp_off p = length src")
      case True
      then have "ps = []" using less.prems(1) None by (subst (asm) tmpl_code.simps) simp
      then show ?thesis using read_end [OF mem tr r _ True] ty cur by (simp add: numeral_2_eq_2)
    next
      case False
      then have lt: "tp_off p < length src" using off by simp
      then have ps: "ps = [piece ?tr T_TEXT (strip_right (tp_strip_before p) (strip_left (tp_strip_after p) ?rest))]"
        using less.prems(1) None by (subst (asm) tmpl_code.simps) simp
      obtain q where q: "template_reader mem csigned lm p = Some (Some (cur_piece csigned lm (tp_strip_before p) p), q)"
        "reading src post q" "\<not> tp_in_expr q" "tp_off q = length src" "ck_type (tp_cur_chunk q) = T_TEXT"
        "tp_strip_before q = tp_strip_before p"
        "chunk_text (tp_data q) (tp_cur_chunk q) = strip_left (tp_strip_after p) ?rest"
        using read_tail [OF mem tr r _ None lt] ty by blast
      obtain q' where "template_reads mem csigned lm 2 q = Some ([Some (cur_piece csigned lm (tp_strip_before q) q), None], q')"
        using read_end [OF mem tr q(2,3) _ q(4)] q(5) by auto
      from reads_Suc [OF q(1) this] show ?thesis
        using ps cur q(5-7) by (auto simp: cur_piece_def numeral_3_eq_3 numeral_2_eq_2)
    qed
  next
    case (Some i)
    obtain j where j: "find2 37 62 (drop (tp_off p + i + 2) src) = Some j"
      using less.prems(1) Some by (subst (asm) tmpl_code.simps) (auto simp: add_ac split: option.splits)
    define tag where "tag = take j (drop (tp_off p + i + 2) src)"
    obtain ps' where ps: "tag \<noteq> [45]"
      "ps = piece ?tr T_TEXT (strip_right (tag_before tag) (strip_left (tp_strip_after p) (take i ?rest)))
         # piece ?tr (fst (tag_parts tag)) (snd (tag_parts tag)) # ps'"
      "tmpl_code ?tr (tag_after tag) (tag_before tag) (drop (tp_off p + i + 2 + j + 2) src) = Some ps'"
      using less.prems(1) Some j
      by (subst (asm) tmpl_code.simps) (auto simp: add_ac tag_def Let_def split: if_splits)
    obtain q where q: "template_reader mem csigned lm p = Some (Some (cur_piece csigned lm (tp_strip_before p) p), q)"
      "reading src post q" "tp_in_expr q" "tp_off q = tp_off p + i + 2" "ck_type (tp_cur_chunk q) = T_TEXT"
      "chunk_text (tp_data q) (tp_cur_chunk q) = strip_left (tp_strip_after p) (take i ?rest)"
      using read_open [OF mem tr r _ Some] ty by blast
    have mark: "0 < tp_off q" "src ! (tp_off q - 1) = 37"
      using find2_nth [OF Some] find2_split [OF Some] off q(4) by (auto simp: add_ac)
    obtain q2 where q2: "template_reader mem csigned lm q = Some (Some (cur_piece csigned lm (tag_before tag) q), q2)"
      "reading src post q2" "\<not> tp_in_expr q2" "tp_off q2 = tp_off q + j + 2"
      "tp_strip_before q2 = tag_before tag" "tp_strip_after q2 = tag_after tag"
      "ck_type (tp_cur_chunk q2) = fst (tag_parts tag)" "chunk_text (tp_data q2) (tp_cur_chunk q2) = snd (tag_parts tag)"
      using read_close [OF mem tr q(2,3) _ mark, of j tag] q(4,5) j ps(1) by (auto simp: tag_def)
    have "length src - tp_off q2 < length src - tp_off p" using q2(2,4) q(4) by (auto simp: reading_def located_def)
    moreover have "tmpl_code ?tr (tp_strip_after q2) (tp_strip_before q2) (drop (tp_off q2) src) = Some ps'"
      using ps(3) q2(4-6) q(4) by simp
    ultimately obtain q3 where "template_reads mem csigned lm (length ps' + 2) q2
      = Some (Some (piece ?tr (ck_type (tp_cur_chunk q2)) (chunk_text (tp_data q2) (tp_cur_chunk q2))) # map Some ps' @ [None], q3)"
      using less.hyps [OF _ _ q2(2,3)] q2(7) tag_parts_type [of tag] by auto
    from reads_Suc [OF q(1) reads_Suc [OF q2(1) this]] show ?thesis
      using ps(2) cur q(5,6) q2(7,8) by (simp add: cur_piece_def)
  qed
qed


text \<open>A catalog state without an active catalog, where every key stands for itself.\<close>

lemma no_catalog: "\<forall>k. lmo_translate csigned k lmo_init \<noteq> None" "tr_text csigned lmo_init = id"
  by (auto simp: lmo_translate_def lmo_init_def tr_text_def)

text \<open>The template \<open>a<%=1%>\<close>.\<close>

lemma tmpl_sample:
  "tmpl_code id False False [97, 60, 37, 61, 49, 37, 62] = Some [piece id T_TEXT [97], piece id T_EXPR [49]]"
proof -
  have "find2 60 37 [97, 60, 37, 61, 49, 37, 62] = Some 1" "find2 37 62 [61, 49, 37, 62] = Some 2" by simp_all
  moreover have "tag_parts [61, 49] = (T_EXPR, [49])" "\<not> tag_before [61, 49]" "\<not> tag_after [61, 49]"
    by (simp_all add: tag_parts_def tag_body_def tag_before_def tag_after_def tag_type_def)
  ultimately show ?thesis
    by (subst tmpl_code.simps) (simp add: strip_left_def strip_right_def tmpl_code.simps [of id False False "[]"])
qed


section \<open>Tags that do not end\<close>

lemma template_code_total:
  assumes p: "located src post p" and src: "src \<noteq> []"
  shows "\<exists>b a c. template_code (length src) (started p) = Some (started p\<lparr>tp_strip_before := b, tp_strip_after := a, tp_cur_chunk := c\<rparr>)"
proof -
  let ?D = "tp_data p" and ?s = "tp_off p" and ?e = "length src"
  have D: "?D ! ?e = 0" "?e < length ?D" "?s \<le> ?e" "?e \<noteq> 0" using p src by (auto simp: located_def)
  have nb: "\<not> is_blank 0" by (simp add: is_blank_def)
  obtain s1 where s1: "(if ?D ! ?s = 45 then skip_fwd is_blank ?D (?s + 1) ?e else Some ?s) = Some s1" "s1 \<le> ?e"
  proof (cases "?D ! ?s = 45")
    case True
    have "?s \<noteq> ?e"
    proof
      assume "?s = ?e"
      then have "(0 :: u8) = 45" using True D(1) by simp
      then show False by simp
    qed
    then have "?s + 1 \<le> ?e" using D(3) by simp
    with skip_fwd_stops [of "?s + 1" ?e ?D is_blank] D nb
      length_takeWhile_le [of is_blank "slice_of ?D (?s + 1) ?e"] length_slice_of [of ?e ?D "?s + 1"] that True
    show ?thesis by auto
  qed (use D(3) that in auto)
  have "\<exists>e1. (if ?D ! (?e - 1) = 45 then skip_back is_blank ?D s1 (?e - 1) else Some ?e) = Some e1"
    using skip_back_stops [of "?e - 1" ?D is_blank s1] D dash_blank by auto
  then obtain e1 where e1: "(if ?D ! (?e - 1) = 45 then skip_back is_blank ?D s1 (?e - 1) else Some ?e) = Some e1" ..
  have pk: "peek ?D ?s = Some (?D ! ?s)" "peek ?D (?e - 1) = Some (?D ! (?e - 1))" "peek ?D s1 = Some (?D ! s1)"
    using D s1(2) by (auto simp: peek_def)
  have st: "tp_off (started p) = tp_off p" "tp_data (started p) = tp_data p" by (simp_all add: started_def)
  have dash: "(chr CHR ''-'' :: u8) = 45" by simp
  show ?thesis
    unfolding template_code_def Let_def st dash using pk s1 e1 D(4) by (simp split: prod.split) blast
qed

lemma open_tag_reads:
  assumes "located src post p" "tp_in_expr p" "find2 37 62 (drop (tp_off p) src) = None" "src \<noteq> []"
  shows "\<exists>q. template_reads mem csigned lm n p = Some (replicate n (Some [27]), q)"
  using assms(1-3)
proof (induction n arbitrary: p)
  case (Suc n)
  obtain b a c where q: "template_code (length src) (started p)
      = Some (started p\<lparr>tp_strip_before := b, tp_strip_after := a, tp_cur_chunk := c\<rparr>)"
    using template_code_total [OF Suc.prems(1) assms(4)] by blast
  let ?q = "started p\<lparr>tp_strip_before := b, tp_strip_after := a, tp_cur_chunk := c\<rparr>"
  have "template_reader mem csigned lm p = Some (Some [27], ?q)"
    using q Suc.prems(3) by (simp add: reader_code [OF Suc.prems(1,2)])
  moreover obtain q' where "template_reads mem csigned lm n ?q = Some (replicate n (Some [27]), q')"
    using Suc.IH [of ?q] Suc.prems by (auto simp: located_def started_def)
  ultimately show ?case by simp
qed simp

lemma string_reading:
  assumes "length src < 2 ^ 32"
  shows "reading src [] (template_string src)" "tp_off (template_string src) = 0" "\<not> tp_in_expr (template_string src)"
    "tp_strip_after (template_string src) = False" "tp_strip_before (template_string src) = False"
    "tp_cur_chunk (template_string src) = chunk_at 0"
  using assms by (simp_all add: template_string_def new_parser_def reading_def located_def chunk_ok_def chunk_at_def)

lemma open_tag_string:
  assumes mem: "\<forall>n. mem n" and tr: "\<forall>k. lmo_translate csigned k lm \<noteq> None" and len: "length src < 2 ^ 32"
    and i: "find2 60 37 src = Some i" and "find2 37 62 (drop (i + 2) src) = None"
  shows "\<exists>q. template_reads mem csigned lm (Suc n) (template_string src) = Some (Some [32] # replicate n (Some [27]), q)"
proof -
  note p = string_reading [OF len]
  have "ck_type (tp_cur_chunk (template_string src)) \<noteq> T_EOF" by (simp add: p chunk_at_def)
  from read_open [OF mem tr p(1,3) this, of i]
  obtain q where q: "template_reader mem csigned lm (template_string src)
      = Some (Some (cur_piece csigned lm False (template_string src)), q)"
    "reading src [] q" "tp_in_expr q" "tp_off q = i + 2"
    using i p by auto
  moreover have "cur_piece csigned lm False (template_string src) = [32]"
    by (simp add: cur_piece_def p chunk_at_def chunk_text_def piece_def strip_right_def)
  moreover have "src \<noteq> []" using i by auto
  ultimately show ?thesis
    using open_tag_reads [of src "[]" q mem csigned lm n] assms(5) by (auto simp: reading_def)
qed

lemma load_loop_more:
  assumes "template_reads mem csigned lm n p = Some (rs, q)"
    and "\<And>k. k \<le> n \<Longrightarrow> 0 < k \<Longrightarrow> lua (seen @ take k rs) = More"
  shows "load_loop mem csigned lm lua n seen p = Some None"
  using assms
proof (induction n arbitrary: p rs seen)
  case (Suc n)
  obtain r p1 rs1 where r: "template_reader mem csigned lm p = Some (r, p1)"
    "template_reads mem csigned lm n p1 = Some (rs1, q)" "rs = r # rs1"
    using Suc.prems(1) by (auto split: option.splits prod.splits)
  have "lua ((seen @ [r]) @ take k rs1) = More" if "k \<le> n" for k
    using Suc.prems(2) [of "Suc k"] that r(3) by simp
  then have "load_loop mem csigned lm lua n (seen @ [r]) p1 = Some None" "lua (seen @ [r]) = More"
    using Suc.IH [OF r(2)] by (blast, metis append_Nil2 le0 take_0)
  then show ?case using r(1) by simp
qed simp



section \<open>The empty tag\<close>

lemma dash_code:
  assumes "tp_off q = n" "tp_data q ! n = 45" "tp_data q ! Suc n = 37" "Suc n < length (tp_data q)"
  shows "template_code (Suc n) (started q) = Some (started q\<lparr>tp_strip_before := True, tp_strip_after := True,
    tp_cur_chunk := \<lparr>ck_s = Suc n, ck_e = n, ck_type = T_CODE, ck_line = tp_line q\<rparr>\<rparr>)"
proof -
  have "skip_fwd is_blank (tp_data q) (Suc n) (Suc n) = Some (Suc n)"
    using assms dash_blank by (subst skip_fwd.simps) (simp add: peek_def)
  moreover have "skip_back is_blank (tp_data q) (Suc n) n = Some n"
    using assms dash_blank by (intro skip_back_stops) auto
  ultimately show ?thesis
    using assms dash_blank by (simp add: template_code_def Let_def started_def peek_def)
qed

text \<open>
  a template with the tag \<open><%-%>\<close> makes the parser copy -1 bytes: the piece of the tag is
  undefined, whatever the text in front of it.
\<close>
theorem tmpl_dash_tag:
  assumes "\<forall>n. mem n" and "\<forall>k. lmo_translate csigned k lm \<noteq> None" and "length src < 2 ^ 32"
    and "find2 60 37 src = Some i" and "find2 37 62 (drop (i + 2) src) = Some 1" and "src ! (i + 2) = 45"
  shows "template_reads mem csigned lm 3 (template_string src) = None"
proof -
  note p = string_reading [OF assms(3)]
  let ?p = "template_string src"
  have ty: "ck_type (tp_cur_chunk ?p) \<noteq> T_EOF" by (simp add: p chunk_at_def)
  obtain q where q: "template_reader mem csigned lm ?p = Some (Some (cur_piece csigned lm False ?p), q)"
    "reading src [] q" "tp_in_expr q" "tp_off q = i + 2" "ck_type (tp_cur_chunk q) = T_TEXT"
    using read_open [OF assms(1,2) p(1,3) ty, of i] assms(4) p by auto
  have D: "tp_data q = src @ [0]" "i + 5 \<le> length src" "src ! (i + 2) = 45" "src ! (i + 3) = 37"
    using q(2) find2_split [OF assms(5)] find2_nth [OF assms(5)] assms(6)
    by (auto simp: reading_def located_def numeral_3_eq_3)
  let ?c = "\<lparr>ck_s = i + 3, ck_e = i + 2, ck_type = T_CODE, ck_line = tp_line q\<rparr>"
  let ?q = "started q\<lparr>tp_strip_before := True, tp_strip_after := True, tp_cur_chunk := ?c\<rparr>"
  have at: "tp_data q ! (i + 2) = 45" "tp_data q ! (i + 3) = 37" "i + 3 < length (tp_data q)"
    using D by (simp_all add: nth_append)
  have code: "template_code (i + 3) (started q) = Some ?q"
    using dash_code [OF q(4)] at by (simp add: numeral_3_eq_3)
  have ty2: "ck_type (tp_cur_chunk q) \<noteq> T_EOF" using q(5) by simp
  let ?r = "?q\<lparr>tp_off := i + 5, tp_in_expr := False\<rparr>"
  obtain q2 where q2: "template_format_chunk mem csigned lm ?r = Some (Some (cur_piece csigned lm True q), q2)" "same_rest ?r q2"
    using format_started [OF assms(1,2) q(2) ty2, of ?r] by (auto simp: started_def)
  have second: "template_reader mem csigned lm q = Some (Some (cur_piece csigned lm True q), q2)"
  proof -
    have "i + 2 + 1 = i + 3" "i + 2 + 1 + 2 = i + 5" by simp_all
    then show ?thesis
      unfolding reader_code [OF reading_located [OF q(2)] q(3)] q(4) assms(5) option.case using code q2(1)
      by (simp only: Option.bind.bind_lunit)
  qed
  have loc: "located src [] q2" "\<not> tp_in_expr q2" "tp_cur_chunk q2 = ?c"
    using same_restD [OF q2(2)] q(2) D(2) by (auto simp: located_def reading_def started_def)
  have none: "template_format_chunk mem csigned lm (r\<lparr>tp_off := n, tp_in_expr := b\<rparr>) = None"
    "template_format_chunk mem csigned lm (r\<lparr>tp_off := n\<rparr>) = None" if "tp_prv_chunk r = ?c" for r n b
    using that assms(1) by (auto simp: template_format_chunk_def Let_def buf_init_def append_code_def chunk_body_def between_def)
  have "template_reader mem csigned lm q2 = None"
  proof -
    have "tp_prv_chunk r = ?c" if "template_text e (started q2) = Some r" for e r
      using that loc(3) by (auto simp: template_text_def Let_def started_def split: if_splits)
    then have b: "Option.bind (template_text e (started q2)) f = None" if "\<And>r. tp_prv_chunk r = ?c \<Longrightarrow> f r = None" for e f
      using that by (cases "template_text e (started q2)") auto
    show ?thesis unfolding reader_text [OF loc(1,2)]
      by (cases "find2 60 37 (drop (tp_off q2) src)") (simp_all only: option.case b [OF none(1)] b [OF none(2)])
  qed
  then show ?thesis using q(1) second by (simp add: numeral_3_eq_3)
qed

theorem tmpl_dash_tag_witness:
  "template_reads (\<lambda>_. True) True lmo_init 3 (template_string (bytes_of ''a<%-%>'')) = None"
proof (rule tmpl_dash_tag)
  show "find2 60 37 (bytes_of ''a<%-%>'') = Some 1" "find2 37 62 (drop (1 + 2) (bytes_of ''a<%-%>'')) = Some 1"
    by (simp_all add: bytes_of_def)
qed (use no_catalog in \<open>auto simp: bytes_of_def\<close>)

end
