(* ===== verification/Template_Lualib.thy ===== *)
theory Template_Lualib
  imports Template_Parser_Facts
begin

text \<open>
  The Lua binding of the template engine
  (\<open>src/luci/modules/luci-base/src/template_lualib.c\<close>): how the results of the C functions
  become Lua values.  A call is given by its string arguments, checked by Lua, and returns the
  list of its results.
\<close>

section \<open>Sanitisers\<close>

datatype lua_result = R_nil | R_bool bool | R_int int | R_text bytes

text \<open>\<open>lua_pushstring\<close> takes the bytes up to the first NUL.\<close>

definition push_string :: "bytes \<Rightarrow> lua_result" where
  "push_string s = R_text (takeWhile (\<lambda>c. c \<noteq> 0) s)"

definition template_L_utf8 :: "allocator \<Rightarrow> bytes \<Rightarrow> lua_result list option" where
  "template_L_utf8 mem str =
     map_option (\<lambda>r. case r of None \<Rightarrow> [] | Some s \<Rightarrow> [push_string s]) (utf8 mem str)"

definition template_L_pcdata :: "allocator \<Rightarrow> bytes \<Rightarrow> lua_result list option" where
  "template_L_pcdata mem str =
     map_option (\<lambda>r. case r of None \<Rightarrow> [] | Some s \<Rightarrow> [push_string s]) (pcdata mem str)"

definition template_L_striptags :: "allocator \<Rightarrow> bytes \<Rightarrow> lua_result list option" where
  "template_L_striptags mem str = map_option (\<lambda>s. [push_string s]) (striptags mem str)"

section \<open>Catalogs\<close>

text \<open>A missing language is \<open>en\<close>.\<close>

definition opt_lang :: "string option \<Rightarrow> string" where
  "opt_lang lang = (case lang of None \<Rightarrow> ''en'' | Some l \<Rightarrow> l)"

definition template_L_load_catalog ::
  "target \<Rightarrow> string option \<Rightarrow> (string \<times> bytes option) list option \<Rightarrow> lmo_state
    \<Rightarrow> (lua_result list \<times> lmo_state) option" where
  "template_L_load_catalog t lang dir st =
     map_option (\<lambda>(r, st). ([R_bool (r = 0)], st)) (lmo_load_catalog t (opt_lang lang) dir st)"

definition template_L_close_catalog :: "string option \<Rightarrow> lmo_state \<Rightarrow> (lua_result list \<times> lmo_state) option" where
  "template_L_close_catalog lang st = map_option (Pair []) (lmo_close_catalog (opt_lang lang) st)"

definition template_L_change_catalog :: "string option \<Rightarrow> lmo_state \<Rightarrow> (lua_result list \<times> lmo_state) option" where
  "template_L_change_catalog lang st =
     map_option (\<lambda>(r, st). ([R_bool (r = 0)], st)) (lmo_change_catalog (opt_lang lang) st)"

definition template_L_translate :: "bool \<Rightarrow> bytes \<Rightarrow> lmo_state \<Rightarrow> lua_result list option" where
  "template_L_translate csigned key st =
     map_option (\<lambda>r. case r of
         Translated tr \<Rightarrow> [R_text tr]
       | Not_found \<Rightarrow> []
       | No_catalog \<Rightarrow> [R_nil, R_text (bytes_of ''no catalog loaded'')])
       (lmo_translate csigned key st)"

text \<open>\<open>lua_Integer\<close> is as wide as a pointer.\<close>

definition template_L_hash :: "target \<Rightarrow> bool \<Rightarrow> bytes \<Rightarrow> lua_result list" where
  "template_L_hash t csigned key =
     (let h = int (unat (sfh_hash csigned key))
      in [R_int (if tgt_ulong_max t = 2 ^ 32 - 1 then to_s32 h else h)])"

section \<open>Strings with a NUL\<close>

lemma utf8_unit_no_nul: "utf8_unit u \<Longrightarrow> 0 \<notin> set u"
  by (cases u) (auto simp: utf8_unit_def mb_accepted_def mb_num_chars_ranges list_all_iff mb_is_cont_def
      word_le_nat_alt split: if_splits)

lemma utf8_clean_no_nul: "0 \<notin> set (utf8_clean s)"
proof -
  obtain us where "utf8_clean s = concat us" "list_all utf8_unit us" using utf8_clean_units by blast
  then show ?thesis using utf8_unit_no_nul by (auto simp: list_all_iff)
qed

lemma pcdata_clean_no_nul: "0 \<notin> set (pcdata_clean s)"
proof (induction s rule: pcdata_clean.induct)
  case (1 s)
  have ref: "0 \<notin> set (xml_ref c)" if "xml_special c" for c
    using that by (auto simp: xml_special_def xml_refs)
  have "0 \<notin> set (fst (utf8_step s))" if "s \<noteq> []" "\<not> hd s \<le> 0x7F"
    using step_multi [OF that] by (auto simp: list_all_iff invalid_xml_def)
  moreover have "invalid_xml 0" by (simp add: invalid_xml_def)
  ultimately show ?case using 1 ref by (subst pcdata_clean.simps) auto
qed

lemma push_string_whole: "0 \<notin> set s \<Longrightarrow> push_string s = R_text s"
  by (auto simp: push_string_def intro: takeWhile_eq_all_conv [THEN iffD2])

text \<open>
  \<open>utf8\<close> and \<open>pcdata\<close> lose nothing on their way to Lua, for any input and also if it has a
  NUL: their results have none.
\<close>
theorem tmpl_sanitised_whole:
  assumes "\<forall>n. mem n"
  shows "template_L_utf8 mem s = map_option (\<lambda>r. [R_text (the r)]) (utf8 mem s)
    \<and> template_L_pcdata mem s = map_option (\<lambda>r. [R_text (the r)]) (pcdata mem s)"
  using utf8_run [of mem s] pcdata_run [of mem s] assms
    push_string_whole [OF utf8_clean_no_nul [of s]] push_string_whole [OF pcdata_clean_no_nul [of s]]
  by (auto simp: template_L_utf8_def template_L_pcdata_def)

theorem tmpl_sanitised_whole_witness:
  "template_L_utf8 (\<lambda>_. True) [65, 0, 66] = map_option (\<lambda>r. [R_text (the r)]) (utf8 (\<lambda>_. True) [65, 0, 66])"
  using tmpl_sanitised_whole [of "\<lambda>_. True" "[65, 0, 66]"] by simp

text \<open>\<open>striptags\<close> keeps a NUL, and the binding then drops what follows it.\<close>

theorem tmpl_striptags_cut: "template_L_striptags (\<lambda>_. True) [65, 0, 66] = Some [R_text [65]]"
proof -
  have "striptags (\<lambda>_. True) [65, 0, 66] = Some [65, 0, 66]" by code_simp
  then show ?thesis by (simp add: template_L_striptags_def push_string_def)
qed

end
