(* ===== verification/Driver.thy ===== *)
theory Driver
  imports Prelude
begin

text \<open>
  How the kernel drivers under \<open>src/openwrt/target/linux/generic/files/drivers/net/phy\<close> call each
  other: functions over a state that return 0 or an error number of Linux.
\<close>

section \<open>Calls that can fail\<close>

text \<open>
  A driver function returns 0 and a value, or a negative error number; either way the state may
  have changed.
\<close>

type_synonym ('s, 'a) drv = "'s \<Rightarrow> (int + 'a) \<times> 's"

definition dret :: "'a \<Rightarrow> ('s, 'a) drv" where
  "dret a s = (Inr a, s)"

definition derr :: "int \<Rightarrow> ('s, 'a) drv" where
  "derr e s = (Inl e, s)"

text \<open>\<open>err = f(...); if (err) return err;\<close>\<close>

definition dbind :: "('s, 'a) drv \<Rightarrow> ('a \<Rightarrow> ('s, 'b) drv) \<Rightarrow> ('s, 'b) drv" where
  "dbind m f s = (case m s of (Inl e, s') \<Rightarrow> (Inl e, s') | (Inr a, s') \<Rightarrow> f a s')"

text \<open>A call whose result is not looked at.\<close>

definition dignore :: "('s, 'a) drv \<Rightarrow> ('s, unit) drv" where
  "dignore m s = (Inr (), snd (m s))"

text \<open>The calls for the elements of a list, until one fails.\<close>

fun dfor :: "'i list \<Rightarrow> ('i \<Rightarrow> ('s, unit) drv) \<Rightarrow> ('s, unit) drv" where
  "dfor [] f = dret ()"
| "dfor (i # is) f = dbind (f i) (\<lambda>_. dfor is f)"

definition EPERM :: int where "EPERM = -1"
definition EIO :: int where "EIO = -5"
definition ENOMEM :: int where "ENOMEM = -12"
definition EBUSY :: int where "EBUSY = -16"
definition ENODEV :: int where "ENODEV = -19"
definition EINVAL :: int where "EINVAL = -22"
definition ENFILE :: int where "ENFILE = -23"
definition ENOSPC :: int where "ENOSPC = -28"
definition EMSGSIZE :: int where "EMSGSIZE = -90"
definition EOPNOTSUPP :: int where "EOPNOTSUPP = -95"
definition ETIMEDOUT :: int where "ETIMEDOUT = -110"
definition ENOTSUPP :: int where "ENOTSUPP = -524"

lemmas errnos = EPERM_def EIO_def ENOMEM_def EBUSY_def ENODEV_def EINVAL_def ENFILE_def ENOSPC_def
  EMSGSIZE_def EOPNOTSUPP_def ETIMEDOUT_def ENOTSUPP_def

named_theorems drv_simps "running driver calls"

lemma dret_run [drv_simps]: "dret a s = (Inr a, s)"
  by (simp add: dret_def)

lemma derr_run [drv_simps]: "derr e s = (Inl e, s)"
  by (simp add: derr_def)

lemma dbind_run [drv_simps]:
  "m s = (Inr a, s') \<Longrightarrow> dbind m f s = f a s'"
  "m s = (Inl e, s') \<Longrightarrow> dbind m f s = (Inl e, s')"
  by (simp_all add: dbind_def)

lemma dbind_dret [simp]: "dbind (dret a) f = f a" "dbind (derr e) f = derr e"
  by (auto simp: dbind_def dret_def derr_def)

end
