(* ===== verification/Rtl8366_Bus.thy ===== *)
theory Rtl8366_Bus
  imports Driver
begin

text \<open>
  The serial management interface of the Realtek RTL8366 switches
  (\<open>src/openwrt/target/linux/generic/files/drivers/net/phy/rtl8366_smi.c\<close>): the two GPIO pins
  are driven by hand to read and write the registers of the chip.

  A run of the bus is the list of the calls of the GPIO library, oldest first.  What the chip
  answers is the argument \<open>sense\<close>: the level of the data pin after the calls so far.  The spin
  lock makes each register access one step; delays are left out.
\<close>

section \<open>Pins\<close>

datatype pin = SDA | SCK

text \<open>\<open>gpio_direction_output\<close>, \<open>gpio_direction_input\<close>, \<open>gpio_set_value\<close> and \<open>gpio_get_value\<close>.\<close>

datatype gpio = Out pin bool | In pin | Set pin bool | Get pin

type_synonym wire = "gpio list"

definition rtl8366_smi_start :: "wire \<Rightarrow> wire" where
  "rtl8366_smi_start w =
     w @ [Out SCK False, Out SDA True, Set SCK True, Set SCK False,
          Set SCK True, Set SDA False, Set SCK False, Set SDA True]"

definition rtl8366_smi_stop :: "wire \<Rightarrow> wire" where
  "rtl8366_smi_stop w =
     w @ [Set SDA False, Set SCK True, Set SDA True, Set SCK True, Set SCK False, Set SCK True,
          Set SCK False, Set SCK True, In SDA, In SCK]"

fun rtl8366_smi_write_bits :: "u32 \<Rightarrow> nat \<Rightarrow> wire \<Rightarrow> wire" where
  "rtl8366_smi_write_bits data 0 w = w"
| "rtl8366_smi_write_bits data (Suc n) w =
     rtl8366_smi_write_bits data n (w @ [Set SDA (bit data n), Set SCK True, Set SCK False])"

text \<open>One bit after the other, the highest first.\<close>

fun read_bits_loop :: "(wire \<Rightarrow> bool) \<Rightarrow> nat \<Rightarrow> u32 \<Rightarrow> wire \<Rightarrow> u32 \<times> wire" where
  "read_bits_loop sense 0 data w = (data, w)"
| "read_bits_loop sense (Suc n) data w =
     (let w = w @ [Set SCK True];
          u = sense w
      in read_bits_loop sense n (data OR push_bit n (if u then 1 else 0)) (w @ [Get SDA, Set SCK False]))"

definition rtl8366_smi_read_bits :: "(wire \<Rightarrow> bool) \<Rightarrow> nat \<Rightarrow> wire \<Rightarrow> u32 \<times> wire" where
  "rtl8366_smi_read_bits sense len w =
     (let (data, w) = read_bits_loop sense len 0 (w @ [In SDA]) in (data, w @ [Out SDA False]))"

text \<open>The loop of \<open>rtl8366_smi_wait_for_ack\<close>; \<open>RTL8366_SMI_ACK_RETRY_COUNT\<close> is 5.\<close>

function wait_for_ack_loop :: "(wire \<Rightarrow> bool) \<Rightarrow> nat \<Rightarrow> (wire, unit) drv" where
  "wait_for_ack_loop sense retry_cnt w =
     (let (ack, w) = rtl8366_smi_read_bits sense 1 w in
      if ack = 0 then (Inr (), w)
      else if retry_cnt + 1 > 5 then (Inl ETIMEDOUT, w)
      else wait_for_ack_loop sense (retry_cnt + 1) w)"
  by pat_completeness auto
termination
  by (relation "measure (\<lambda>(sense, retry_cnt, w). 5 - retry_cnt)") auto

declare wait_for_ack_loop.simps [simp del]

definition rtl8366_smi_wait_for_ack :: "(wire \<Rightarrow> bool) \<Rightarrow> (wire, unit) drv" where
  "rtl8366_smi_wait_for_ack sense = wait_for_ack_loop sense 0"

section \<open>Bytes\<close>

definition rtl8366_smi_write_byte :: "(wire \<Rightarrow> bool) \<Rightarrow> u8 \<Rightarrow> (wire, unit) drv" where
  "rtl8366_smi_write_byte sense data w =
     rtl8366_smi_wait_for_ack sense (rtl8366_smi_write_bits (ucast data) 8 w)"

definition rtl8366_smi_write_byte_noack :: "u8 \<Rightarrow> (wire, unit) drv" where
  "rtl8366_smi_write_byte_noack data w = (Inr (), rtl8366_smi_write_bits (ucast data) 8 w)"

definition rtl8366_smi_read_byte0 :: "(wire \<Rightarrow> bool) \<Rightarrow> (wire, u8) drv" where
  "rtl8366_smi_read_byte0 sense w =
     (let (t, w) = rtl8366_smi_read_bits sense 8 w in (Inr (ucast (t AND 0xFF)), rtl8366_smi_write_bits 0 1 w))"

definition rtl8366_smi_read_byte1 :: "(wire \<Rightarrow> bool) \<Rightarrow> (wire, u8) drv" where
  "rtl8366_smi_read_byte1 sense w =
     (let (t, w) = rtl8366_smi_read_bits sense 8 w in (Inr (ucast (t AND 0xFF)), rtl8366_smi_write_bits 1 1 w))"

section \<open>Registers\<close>

text \<open>The code between \<open>rtl8366_smi_start\<close> and the label \<open>out\<close>, and \<open>rtl8366_smi_stop\<close> behind it.\<close>

definition transaction :: "(wire, 'a) drv \<Rightarrow> (wire, 'a) drv" where
  "transaction m w = (let (r, w) = m (rtl8366_smi_start w) in (r, rtl8366_smi_stop w))"

definition rtl8366_smi_read_reg :: "(wire \<Rightarrow> bool) \<Rightarrow> u8 \<Rightarrow> u32 \<Rightarrow> (wire, u32) drv" where
  "rtl8366_smi_read_reg sense cmd_read addr =
     transaction
       (dbind (rtl8366_smi_write_byte sense cmd_read) (\<lambda>_.
        dbind (rtl8366_smi_write_byte sense (ucast (addr AND 0xFF))) (\<lambda>_.
        dbind (rtl8366_smi_write_byte sense (ucast (drop_bit 8 addr))) (\<lambda>_.
        dbind (rtl8366_smi_read_byte0 sense) (\<lambda>lo.
        dbind (rtl8366_smi_read_byte1 sense) (\<lambda>hi.
        dret (ucast lo OR push_bit 8 (ucast hi))))))))"

definition smi_write_reg :: "(wire \<Rightarrow> bool) \<Rightarrow> u8 \<Rightarrow> u32 \<Rightarrow> u32 \<Rightarrow> bool \<Rightarrow> (wire, unit) drv" where
  "smi_write_reg sense cmd_write addr data ack =
     transaction
       (dbind (rtl8366_smi_write_byte sense cmd_write) (\<lambda>_.
        dbind (rtl8366_smi_write_byte sense (ucast (addr AND 0xFF))) (\<lambda>_.
        dbind (rtl8366_smi_write_byte sense (ucast (drop_bit 8 addr))) (\<lambda>_.
        dbind (rtl8366_smi_write_byte sense (ucast (data AND 0xFF))) (\<lambda>_.
        if ack then rtl8366_smi_write_byte sense (ucast (drop_bit 8 data))
        else rtl8366_smi_write_byte_noack (ucast (drop_bit 8 data)))))))"

definition rtl8366_smi_write_reg :: "(wire \<Rightarrow> bool) \<Rightarrow> u8 \<Rightarrow> u32 \<Rightarrow> u32 \<Rightarrow> (wire, unit) drv" where
  "rtl8366_smi_write_reg sense cmd_write addr data = smi_write_reg sense cmd_write addr data True"

definition rtl8366_smi_write_reg_noack :: "(wire \<Rightarrow> bool) \<Rightarrow> u8 \<Rightarrow> u32 \<Rightarrow> u32 \<Rightarrow> (wire, unit) drv" where
  "rtl8366_smi_write_reg_noack sense cmd_write addr data = smi_write_reg sense cmd_write addr data False"

text \<open>
  What the drivers above use of the bus, for any bus: a register is read, or written with and
  without waiting for the last acknowledgement.
\<close>

record 'c regs =
  reg_read :: "u32 \<Rightarrow> ('c, u32) drv"
  reg_write :: "u32 \<Rightarrow> u32 \<Rightarrow> ('c, unit) drv"
  reg_write_noack :: "u32 \<Rightarrow> u32 \<Rightarrow> ('c, unit) drv"

definition smi_regs :: "(wire \<Rightarrow> bool) \<Rightarrow> u8 \<Rightarrow> u8 \<Rightarrow> wire regs" where
  "smi_regs sense cmd_read cmd_write =
     \<lparr>reg_read = rtl8366_smi_read_reg sense cmd_read,
      reg_write = rtl8366_smi_write_reg sense cmd_write,
      reg_write_noack = rtl8366_smi_write_reg_noack sense cmd_write\<rparr>"

definition rtl8366_smi_rmwr :: "'c regs \<Rightarrow> u32 \<Rightarrow> u32 \<Rightarrow> u32 \<Rightarrow> ('c, unit) drv" where
  "rtl8366_smi_rmwr rg addr msk data =
     dbind (reg_read rg addr) (\<lambda>t. reg_write rg addr ((t AND NOT msk) OR data))"

end
