(* ===== verification/Rtl8366_Bus_Facts.thy ===== *)
theory Rtl8366_Bus_Facts
  imports Rtl8366_Bus
begin

text \<open>
  What the bus promises: every register access ends and releases the pins, a write clocks out
  the bits of its bytes, and a read returns the bits that the chip gave.
\<close>

section \<open>Every access ends\<close>

lemma length_write_bits:
  "\<exists>m. rtl8366_smi_write_bits data n w = w @ m \<and> length m = 3 * n"
proof (induction n arbitrary: w)
  case (Suc n)
  obtain m where "rtl8366_smi_write_bits data n (w @ [Set SDA (bit data n), Set SCK True, Set SCK False])
      = (w @ [Set SDA (bit data n), Set SCK True, Set SCK False]) @ m" "length m = 3 * n"
    using Suc.IH by blast
  then show ?case by auto
qed simp

lemma length_read_loop:
  "\<exists>m. snd (read_bits_loop sense n d w) = w @ m \<and> length m = 3 * n"
proof (induction n arbitrary: d w)
  case (Suc n)
  let ?w = "w @ [Set SCK True] @ [Get SDA, Set SCK False]"
  and ?d = "d OR push_bit n (if sense (w @ [Set SCK True]) then 1 else 0)"
  obtain m where "snd (read_bits_loop sense n ?d ?w) = ?w @ m" "length m = 3 * n"
    using Suc.IH [of ?d ?w] by auto
  then show ?case by (auto simp: Let_def)
qed simp

lemma length_read_bits:
  "\<exists>m. snd (rtl8366_smi_read_bits sense n w) = w @ m \<and> length m = 3 * n + 2"
  using length_read_loop [of sense n 0 "w @ [In SDA]"]
  by (auto simp: rtl8366_smi_read_bits_def split: prod.splits)

text \<open>The calls that a function adds to the wire, at most \<open>k\<close>, and how it can fail.\<close>

definition adds :: "nat \<Rightarrow> (wire, 'a) drv \<Rightarrow> bool" where
  "adds k f \<longleftrightarrow> (\<forall>w. \<exists>m. snd (f w) = w @ m \<and> length m \<le> k \<and> (\<forall>e. fst (f w) = Inl e \<longrightarrow> e = ETIMEDOUT))"

lemma adds_dret [intro]: "adds 0 (dret a)"
  by (simp add: adds_def dret_def)

lemma adds_dbind [intro]:
  assumes "adds j f" "\<And>a. adds k (g a)"
  shows "adds (j + k) (dbind f g)"
  unfolding adds_def
proof
  fix w
  obtain m where m: "snd (f w) = w @ m" "length m \<le> j" "\<forall>e. fst (f w) = Inl e \<longrightarrow> e = ETIMEDOUT"
    using assms(1) by (auto simp: adds_def)
  show "\<exists>n. snd (dbind f g w) = w @ n \<and> length n \<le> j + k \<and> (\<forall>e. fst (dbind f g w) = Inl e \<longrightarrow> e = ETIMEDOUT)"
  proof (cases "f w")
    case (Pair r w')
    show ?thesis
    proof (cases r)
      case (Inl e)
      then show ?thesis using Pair m by (auto simp: dbind_def)
    next
      case (Inr a)
      obtain n where "snd (g a w') = w' @ n" "length n \<le> k" "\<forall>e. fst (g a w') = Inl e \<longrightarrow> e = ETIMEDOUT"
        using assms(2) [of a] by (auto simp: adds_def)
      then show ?thesis using Pair Inr m by (auto simp: dbind_def)
    qed
  qed
qed

lemma adds_mono: "adds j f \<Longrightarrow> j \<le> k \<Longrightarrow> adds k f"
  by (meson adds_def order_trans)

lemma ack_loop_adds: "retry \<le> 5 \<Longrightarrow> adds (5 * (6 - retry)) (wait_for_ack_loop sense retry)"
proof (induction "5 - retry" arbitrary: retry rule: less_induct)
  case less
  show ?case
    unfolding adds_def
  proof
    fix w
    obtain ack w' where r: "rtl8366_smi_read_bits sense 1 w = (ack, w')" by fastforce
    then obtain m where m: "w' = w @ m" "length m = 5" using length_read_bits [of sense 1 w] by auto
    have loop: "wait_for_ack_loop sense retry w =
       (if ack = 0 then (Inr (), w') else if retry + 1 > 5 then (Inl ETIMEDOUT, w') else wait_for_ack_loop sense (retry + 1) w')"
      by (subst wait_for_ack_loop.simps) (simp only: r Let_def prod.case)
    show "\<exists>m. snd (wait_for_ack_loop sense retry w) = w @ m \<and> length m \<le> 5 * (6 - retry)
        \<and> (\<forall>e. fst (wait_for_ack_loop sense retry w) = Inl e \<longrightarrow> e = ETIMEDOUT)"
    proof (cases "ack = 0 \<or> retry + 1 > 5")
      case True
      then show ?thesis using m less.prems by (auto simp: loop)
    next
      case False
      then have "adds (5 * (6 - (retry + 1))) (wait_for_ack_loop sense (retry + 1))"
        using less.prems by (intro less.hyps) auto
      then obtain n where "snd (wait_for_ack_loop sense (retry + 1) w') = w' @ n" "length n \<le> 5 * (6 - (retry + 1))"
        "\<forall>e. fst (wait_for_ack_loop sense (retry + 1) w') = Inl e \<longrightarrow> e = ETIMEDOUT"
        by (auto simp: adds_def)
      then show ?thesis using m False by (auto simp: loop)
    qed
  qed
qed

lemma write_byte_adds: "adds 54 (rtl8366_smi_write_byte sense b)"
  unfolding adds_def rtl8366_smi_write_byte_def rtl8366_smi_wait_for_ack_def
proof
  fix w
  obtain m where m: "rtl8366_smi_write_bits (ucast b) 8 w = w @ m" "length m = 24"
    using length_write_bits [of "ucast b" 8 w] by auto
  obtain n where n: "snd (wait_for_ack_loop sense 0 (w @ m)) = (w @ m) @ n" "length n \<le> 30"
    "\<forall>e. fst (wait_for_ack_loop sense 0 (w @ m)) = Inl e \<longrightarrow> e = ETIMEDOUT"
    using ack_loop_adds [of 0 sense, unfolded adds_def, THEN spec [of _ "w @ m"]] by auto
  then show "\<exists>m. snd (wait_for_ack_loop sense 0 (rtl8366_smi_write_bits (ucast b) 8 w)) = w @ m \<and> length m \<le> 54
      \<and> (\<forall>e. fst (wait_for_ack_loop sense 0 (rtl8366_smi_write_bits (ucast b) 8 w)) = Inl e \<longrightarrow> e = ETIMEDOUT)"
    using m by auto
qed

lemma noack_adds: "adds 54 (rtl8366_smi_write_byte_noack b)"
  using length_write_bits [of "ucast b" 8]
  by (fastforce simp: adds_def rtl8366_smi_write_byte_noack_def)

lemma read_byte_adds: "adds 29 (rtl8366_smi_read_byte0 sense)" "adds 29 (rtl8366_smi_read_byte1 sense)"
proof -
  have m: "\<exists>m. rtl8366_smi_write_bits d 1 (snd (rtl8366_smi_read_bits sense 8 w)) = w @ m \<and> length m \<le> 29" for w d
    using length_read_bits [of sense 8 w] length_write_bits [of d 1 "snd (rtl8366_smi_read_bits sense 8 w)"]
    by (auto simp del: rtl8366_smi_write_bits.simps)
  show "adds 29 (rtl8366_smi_read_byte0 sense)" "adds 29 (rtl8366_smi_read_byte1 sense)"
    unfolding adds_def rtl8366_smi_read_byte0_def rtl8366_smi_read_byte1_def Let_def case_prod_unfold
    using m by (simp_all del: rtl8366_smi_write_bits.simps)
qed

text \<open>A register access of at most \<open>k\<close> calls that releases the pins and fails with a time-out only.\<close>

definition bounded_access :: "nat \<Rightarrow> (wire, 'a) drv \<Rightarrow> bool" where
  "bounded_access k f \<longleftrightarrow>
     (\<forall>w. \<exists>r m. f w = (r, w @ m @ [In SDA, In SCK]) \<and> length m + 2 \<le> k \<and> r \<in> Inl ` {ETIMEDOUT} \<union> range Inr)"

lemma transaction_bounded: "adds k f \<Longrightarrow> bounded_access (k + 18) (transaction f)"
  unfolding bounded_access_def
proof
  fix w
  assume "adds k f"
  then obtain m where m: "snd (f (rtl8366_smi_start w)) = rtl8366_smi_start w @ m" "length m \<le> k"
    "\<forall>e. fst (f (rtl8366_smi_start w)) = Inl e \<longrightarrow> e = ETIMEDOUT"
    unfolding adds_def by blast
  obtain r w' where f: "f (rtl8366_smi_start w) = (r, w')" by fastforce
  then have "transaction f w = (r, rtl8366_smi_stop (rtl8366_smi_start w @ m))" "\<forall>e. r = Inl e \<longrightarrow> e = ETIMEDOUT"
    using m by (simp_all add: transaction_def)
  then show "\<exists>r m. transaction f w = (r, w @ m @ [In SDA, In SCK]) \<and> length m + 2 \<le> k + 18 \<and> r \<in> Inl ` {ETIMEDOUT} \<union> range Inr"
    using m(2) by (cases r) (auto simp: rtl8366_smi_stop_def rtl8366_smi_start_def)
qed

lemma bounded_mono: "bounded_access j f \<Longrightarrow> j \<le> k \<Longrightarrow> bounded_access k f"
  unfolding bounded_access_def by (meson order_trans)

text \<open>
  C31: whatever the chip answers, a register access ends after at most 288 calls of the GPIO
  library, the last two of which release the pins, and its only error is a time-out.
\<close>
theorem rtl_access_ends:
  "bounded_access 288 (rtl8366_smi_read_reg sense cmd addr) \<and> bounded_access 288 (smi_write_reg sense cmd addr data ack)"
proof
  have "adds (54 + (54 + (54 + (29 + (29 + 0)))))
     (dbind (rtl8366_smi_write_byte sense cmd) (\<lambda>_.
        dbind (rtl8366_smi_write_byte sense (ucast (addr AND 0xFF))) (\<lambda>_.
        dbind (rtl8366_smi_write_byte sense (ucast (drop_bit 8 addr))) (\<lambda>_.
        dbind (rtl8366_smi_read_byte0 sense) (\<lambda>lo.
        dbind (rtl8366_smi_read_byte1 sense) (\<lambda>hi.
        dret (ucast lo OR push_bit 8 (ucast hi) :: u32)))))))"
    by (intro adds_dbind write_byte_adds read_byte_adds adds_dret)
  then show "bounded_access 288 (rtl8366_smi_read_reg sense cmd addr)"
    unfolding rtl8366_smi_read_reg_def by (intro bounded_mono [OF transaction_bounded]) auto
  have "adds 54 (if ack then rtl8366_smi_write_byte sense (ucast (drop_bit 8 data))
        else rtl8366_smi_write_byte_noack (ucast (drop_bit 8 data)))"
    by (simp add: write_byte_adds noack_adds)
  then have "adds (54 + (54 + (54 + (54 + 54))))
     (dbind (rtl8366_smi_write_byte sense cmd) (\<lambda>_.
        dbind (rtl8366_smi_write_byte sense (ucast (addr AND 0xFF))) (\<lambda>_.
        dbind (rtl8366_smi_write_byte sense (ucast (drop_bit 8 addr))) (\<lambda>_.
        dbind (rtl8366_smi_write_byte sense (ucast (data AND 0xFF))) (\<lambda>_.
        if ack then rtl8366_smi_write_byte sense (ucast (drop_bit 8 data))
        else rtl8366_smi_write_byte_noack (ucast (drop_bit 8 data)))))))"
    by (intro adds_dbind write_byte_adds)
  then show "bounded_access 288 (smi_write_reg sense cmd addr data ack)"
    unfolding smi_write_reg_def by (intro bounded_mono [OF transaction_bounded]) auto
qed

section \<open>The bits of a write\<close>

text \<open>
  The levels of the data pin at the rising edges of the clock, while the host drives the pin;
  \<open>sda\<close> is the level it drives.
\<close>

fun clocked :: "bool option \<Rightarrow> wire \<Rightarrow> bool list" where
  "clocked sda [] = []"
| "clocked sda (Out SDA b # w) = clocked (Some b) w"
| "clocked sda (In SDA # w) = clocked None w"
| "clocked sda (Set SDA b # w) = clocked (map_option (\<lambda>_. b) sda) w"
| "clocked sda (Set SCK True # w) = (case sda of None \<Rightarrow> [] | Some b \<Rightarrow> [b]) @ clocked sda w"
| "clocked sda (g # w) = clocked sda w"

text \<open>What the host drives after a run.\<close>

fun driven :: "bool option \<Rightarrow> wire \<Rightarrow> bool option" where
  "driven sda [] = sda"
| "driven sda (Out SDA b # w) = driven (Some b) w"
| "driven sda (In SDA # w) = driven None w"
| "driven sda (Set SDA b # w) = driven (map_option (\<lambda>_. b) sda) w"
| "driven sda (g # w) = driven sda w"

lemma clocked_append: "clocked sda (v @ w) = clocked sda v @ clocked (driven sda v) w"
  by (induction sda v rule: clocked.induct) auto

lemma driven_append: "driven sda (v @ w) = driven (driven sda v) w"
  by (induction sda v rule: driven.induct) auto

definition byte_bits :: "u8 \<Rightarrow> bool list" where
  "byte_bits b = map (bit b) [7, 6, 5, 4, 3, 2, 1, 0]"


lemma byte_bits_word: "byte_bits b = map (bit (ucast b :: u32)) [7, 6, 5, 4, 3, 2, 1, 0]"
  by (simp add: byte_bits_def bit_simps)

lemma clocked_write_bits:
  "\<exists>m. rtl8366_smi_write_bits data n w = w @ m \<and>
     (\<forall>b. clocked (Some b) m = map (bit data) (rev [0..<n]) \<and> driven (Some b) m \<noteq> None)"
proof (induction n arbitrary: w)
  case (Suc n)
  obtain m where "rtl8366_smi_write_bits data n (w @ [Set SDA (bit data n), Set SCK True, Set SCK False])
      = (w @ [Set SDA (bit data n), Set SCK True, Set SCK False]) @ m"
    "\<forall>b. clocked (Some b) m = map (bit data) (rev [0..<n]) \<and> driven (Some b) m \<noteq> None"
    using Suc.IH by blast
  then show ?case
    by (intro exI [of _ "[Set SDA (bit data n), Set SCK True, Set SCK False] @ m"]) auto
qed simp

lemma clocked_read_loop:
  "\<exists>m. snd (read_bits_loop sense n d w) = w @ m \<and> clocked None m = [] \<and> driven None m = None"
proof (induction n arbitrary: d w)
  case (Suc n)
  let ?w = "w @ [Set SCK True] @ [Get SDA, Set SCK False]"
  and ?d = "d OR push_bit n (if sense (w @ [Set SCK True]) then 1 else 0)"
  obtain m where "snd (read_bits_loop sense n ?d ?w) = ?w @ m" "clocked None m = [] \<and> driven None m = None"
    using Suc.IH [of ?d ?w] by auto
  then show ?case by (intro exI [of _ "[Set SCK True, Get SDA, Set SCK False] @ m"]) (simp add: Let_def)
qed simp

lemma clocked_read_bits:
  "\<exists>m. snd (rtl8366_smi_read_bits sense n w) = w @ m \<and> (\<forall>b. clocked b m = [] \<and> driven b m = Some False)"
proof -
  obtain m where "snd (read_bits_loop sense n 0 (w @ [In SDA])) = (w @ [In SDA]) @ m"
    "clocked None m = []" "driven None m = None"
    using clocked_read_loop by blast
  then show ?thesis
    by (intro exI [of _ "[In SDA] @ m @ [Out SDA False]"])
       (auto simp: rtl8366_smi_read_bits_def clocked_append driven_append split: prod.splits)
qed

text \<open>A call that, if it succeeds, clocks out \<open>bs\<close> while the host drives the pin.\<close>

definition sends :: "bool list \<Rightarrow> (wire, 'a) drv \<Rightarrow> bool" where
  "sends bs f \<longleftrightarrow> (\<forall>w r w'. f w = (Inr r, w') \<longrightarrow>
     (\<exists>m. w' = w @ m \<and> (\<forall>b. clocked (Some b) m = bs \<and> driven (Some b) m \<noteq> None)))"

lemma sends_dret: "sends [] (dret a)"
  by (simp add: sends_def dret_def)

lemma sends_dbind:
  assumes "sends as f" "\<And>a. sends bs (g a)"
  shows "sends (as @ bs) (dbind f g)"
  unfolding sends_def
proof (intro allI impI)
  fix w r w'
  assume "dbind f g w = (Inr r, w')"
  then obtain a w1 where f: "f w = (Inr a, w1)" and g: "g a w1 = (Inr r, w')"
    by (auto simp: dbind_def split: prod.splits sum.splits)
  obtain m where m: "w1 = w @ m" "\<forall>b. clocked (Some b) m = as \<and> driven (Some b) m \<noteq> None"
    using assms(1) f unfolding sends_def by blast
  obtain n where n: "w' = w1 @ n" "\<forall>b. clocked (Some b) n = bs \<and> driven (Some b) n \<noteq> None"
    using assms(2) [of a] g unfolding sends_def by blast
  have "clocked (Some b) (m @ n) = as @ bs \<and> driven (Some b) (m @ n) \<noteq> None" for b
    using m(2) [THEN spec, of b] n(2) by (auto simp: clocked_append driven_append)
  then show "\<exists>m. w' = w @ m \<and> (\<forall>b. clocked (Some b) m = as @ bs \<and> driven (Some b) m \<noteq> None)"
    using m(1) n(1) by auto
qed

lemma sends_ack_loop: "sends [] (wait_for_ack_loop sense retry)"
proof (induction "5 - retry" arbitrary: retry rule: less_induct)
  case less
  show ?case
    unfolding sends_def
  proof (intro allI impI)
    fix w r w'
    assume run: "wait_for_ack_loop sense retry w = (Inr r, w')"
    obtain ack v where v: "rtl8366_smi_read_bits sense 1 w = (ack, v)" by fastforce
    then obtain m where m: "v = w @ m" "\<forall>b. clocked b m = [] \<and> driven b m = Some False"
      using clocked_read_bits [of sense 1 w] by auto
    have loop: "wait_for_ack_loop sense retry w =
       (if ack = 0 then (Inr (), v) else if retry + 1 > 5 then (Inl ETIMEDOUT, v) else wait_for_ack_loop sense (retry + 1) v)"
      by (subst wait_for_ack_loop.simps) (simp only: v Let_def prod.case)
    show "\<exists>m. w' = w @ m \<and> (\<forall>b. clocked (Some b) m = [] \<and> driven (Some b) m \<noteq> None)"
    proof (cases "ack = 0")
      case True
      then show ?thesis using run m by (auto simp: loop)
    next
      case False
      then have "retry < 5" "wait_for_ack_loop sense (retry + 1) v = (Inr r, w')"
        using run by (auto simp: loop split: if_splits)
      then obtain n where n: "w' = v @ n" "\<forall>b. clocked (Some b) n = [] \<and> driven (Some b) n \<noteq> None"
        using less.hyps [of "retry + 1"] unfolding sends_def by (metis One_nat_def Suc_eq_plus1 diff_less_mono2 lessI)
      then have "clocked (Some b) (m @ n) = [] \<and> driven (Some b) (m @ n) \<noteq> None" for b
        using m(2) by (simp add: clocked_append driven_append)
      then show ?thesis using m(1) n(1) by auto
    qed
  qed
qed

lemma rev_byte: "map f (rev [0..<8]) = map f [7, 6, 5, 4, 3, 2, 1, 0]"
  by (simp add: upt_rec eval_nat_numeral)

lemma sends_write_byte: "sends (byte_bits b) (rtl8366_smi_write_byte sense b)"
proof -
  have "sends (byte_bits b @ []) (dbind (\<lambda>w. (Inr (), rtl8366_smi_write_bits (ucast b) 8 w)) (\<lambda>_. wait_for_ack_loop sense 0))"
  proof (rule sends_dbind)
    show "sends (byte_bits b) (\<lambda>w. (Inr (), rtl8366_smi_write_bits (ucast b) 8 w))"
      using clocked_write_bits [of "ucast b" 8] unfolding sends_def byte_bits_word rev_byte by auto
  qed (rule sends_ack_loop)
  then show ?thesis
    by (simp add: sends_def dbind_def rtl8366_smi_write_byte_def rtl8366_smi_wait_for_ack_def)
qed

lemma sends_write_byte_noack: "sends (byte_bits b) (rtl8366_smi_write_byte_noack b)"
  using clocked_write_bits [of "ucast b" 8]
  unfolding sends_def rtl8366_smi_write_byte_noack_def byte_bits_word rev_byte by auto

lemma sends_read_byte:
  "sends [False] (rtl8366_smi_read_byte0 sense)" "sends [True] (rtl8366_smi_read_byte1 sense)"
proof -
  have m: "\<exists>m. rtl8366_smi_write_bits d 1 (snd (rtl8366_smi_read_bits sense 8 w)) = w @ m \<and>
      (\<forall>b. clocked (Some b) m = [bit d 0] \<and> driven (Some b) m \<noteq> None)" for w d
  proof -
    obtain m where m: "snd (rtl8366_smi_read_bits sense 8 w) = w @ m" "\<forall>b. clocked b m = [] \<and> driven b m = Some False"
      using clocked_read_bits by blast
    have "rtl8366_smi_write_bits d 1 (w @ m) = w @ m @ [Set SDA (bit d 0), Set SCK True, Set SCK False]"
      by simp
    then show ?thesis using m
      by (intro exI [of _ "m @ [Set SDA (bit d 0), Set SCK True, Set SCK False]"]) (simp add: clocked_append driven_append)
  qed
  show "sends [False] (rtl8366_smi_read_byte0 sense)" "sends [True] (rtl8366_smi_read_byte1 sense)"
    unfolding sends_def rtl8366_smi_read_byte0_def rtl8366_smi_read_byte1_def Let_def case_prod_unfold
    using m [of 0] m [of 1] by (auto simp del: rtl8366_smi_write_bits.simps)
qed

text \<open>The start and the stop condition around what is sent.\<close>

lemma transaction_sends:
  assumes "sends bs f" "transaction f [] = (Inr r, w)"
  shows "clocked None w = [True, True] @ bs @ [False, True, True, True]"
proof -
  obtain w' where w': "f (rtl8366_smi_start []) = (Inr r, w')" "w = rtl8366_smi_stop w'"
    using assms(2) by (auto simp: transaction_def split: prod.splits)
  then obtain m where m: "w' = rtl8366_smi_start [] @ m" "\<forall>b. clocked (Some b) m = bs \<and> driven (Some b) m \<noteq> None"
    using assms(1) unfolding sends_def by blast
  then obtain b where "driven (Some True) m = Some b" by fastforce
  then show ?thesis
    using m w'(2) by (simp add: rtl8366_smi_start_def rtl8366_smi_stop_def clocked_append driven_append)
qed

lemma and_255: "x AND 0xFF = take_bit 8 (x :: u32)"
  by (simp add: take_bit_eq_mask mask_eq_exp_minus_1)

lemma low_byte: "ucast (x AND 0xFF) = (ucast x :: u8)" for x :: u32
  by (intro bit_eqI) (auto simp: and_255 bit_simps)


lemma ack_at_once:
  assumes "\<not> sense (w @ [In SDA, Set SCK True])"
  shows "wait_for_ack_loop sense retry w = (Inr (), w @ [In SDA, Set SCK True, Get SDA, Set SCK False, Out SDA False])"
  using assms by (subst wait_for_ack_loop.simps) (simp add: rtl8366_smi_read_bits_def Let_def)


section \<open>The value of a read\<close>

text \<open>How often the host has looked at the data pin.\<close>

definition looks :: "wire \<Rightarrow> nat" where
  "looks w = length (filter (\<lambda>g. g = Get SDA) w)"

lemma looks_append [simp]: "looks (v @ w) = looks v + looks w"
  by (simp add: looks_def)

lemma looks_simps [simp]:
  "looks [] = 0" "looks (Get SDA # w) = Suc (looks w)" "looks (Set q b # w) = looks w"
  "looks (In q # w) = looks w" "looks (Out q b # w) = looks w"
  by (simp_all add: looks_def)

lemma looks_write_bits [simp]: "looks (rtl8366_smi_write_bits data n w) = looks w"
  by (induction n arbitrary: w) auto

lemma read_bits_loop_value:
  assumes "n \<le> 32"
  shows "looks (snd (read_bits_loop (a \<circ> looks) n d w)) = looks w + n \<and>
    (\<forall>j. bit (fst (read_bits_loop (a \<circ> looks) n d w)) j = (bit d j \<or> j < n \<and> a (looks w + (n - 1 - j))))"
  using assms
proof (induction n arbitrary: d w)
  case (Suc n)
  let ?w = "w @ [Set SCK True] @ [Get SDA, Set SCK False]"
  and ?d = "d OR push_bit n (if a (looks w) then 1 else 0)"
  have loop: "read_bits_loop (a \<circ> looks) (Suc n) d w = read_bits_loop (a \<circ> looks) n ?d ?w"
    by (simp add: Let_def)
  have d: "bit ?d j = (bit d j \<or> j = n \<and> a (looks w))" for j
    using Suc.prems by (auto simp: bit_simps bit_1_iff)
  have w: "looks ?w = Suc (looks w)" by simp
  have e: "(bit ?d j \<or> j < n \<and> a (looks ?w + (n - 1 - j))) = (bit d j \<or> j < Suc n \<and> a (looks w + (Suc n - 1 - j)))" for j
  proof (cases "j < n")
    case True
    then have "looks ?w + (n - 1 - j) = looks w + (Suc n - 1 - j)" by simp
    then show ?thesis unfolding d using True by auto
  qed (auto simp: d)
  have "n \<le> 32" using Suc.prems by simp
  from Suc.IH [OF this, of ?d ?w] show ?case
    unfolding loop e by (simp only: w add_Suc add_Suc_right simp_thms)
qed simp

lemma read_bits_value:
  assumes "n \<le> 32"
  shows "looks (snd (rtl8366_smi_read_bits (a \<circ> looks) n w)) = looks w + n"
    "bit (fst (rtl8366_smi_read_bits (a \<circ> looks) n w)) j \<longleftrightarrow> j < n \<and> a (looks w + (n - 1 - j))"
proof -
  note l = read_bits_loop_value [OF assms, of a 0 "w @ [In SDA]"]
  have s: "snd (rtl8366_smi_read_bits (a \<circ> looks) n w) = snd (read_bits_loop (a \<circ> looks) n 0 (w @ [In SDA])) @ [Out SDA False]"
    and f: "fst (rtl8366_smi_read_bits (a \<circ> looks) n w) = fst (read_bits_loop (a \<circ> looks) n 0 (w @ [In SDA]))"
    by (simp_all add: rtl8366_smi_read_bits_def case_prod_unfold Let_def)
  show "looks (snd (rtl8366_smi_read_bits (a \<circ> looks) n w)) = looks w + n"
    unfolding s using l [THEN conjunct1] by simp
  show "bit (fst (rtl8366_smi_read_bits (a \<circ> looks) n w)) j \<longleftrightarrow> j < n \<and> a (looks w + (n - 1 - j))"
    unfolding f using l [THEN conjunct2, THEN spec [of _ j]] by simp
qed

lemma write_byte_value:
  assumes "\<not> a (looks w)"
  shows "\<exists>w'. rtl8366_smi_write_byte (a \<circ> looks) b w = (Inr (), w') \<and> looks w' = Suc (looks w)"
  using assms by (simp add: rtl8366_smi_write_byte_def rtl8366_smi_wait_for_ack_def ack_at_once)

lemma read_byte_value:
  "\<exists>v w'. rtl8366_smi_read_byte0 (a \<circ> looks) w = (Inr v, w') \<and> looks w' = looks w + 8 \<and>
     (\<forall>j. bit v j \<longleftrightarrow> j < 8 \<and> a (looks w + (7 - j)))"
  "\<exists>v w'. rtl8366_smi_read_byte1 (a \<circ> looks) w = (Inr v, w') \<and> looks w' = looks w + 8 \<and>
     (\<forall>j. bit v j \<longleftrightarrow> j < 8 \<and> a (looks w + (7 - j)))"
proof -
  obtain t w' where r: "rtl8366_smi_read_bits (a \<circ> looks) 8 w = (t, w')" by fastforce
  have w': "looks w' = looks w + 8" and t: "bit t j \<longleftrightarrow> j < 8 \<and> a (looks w + (7 - j))" for j
    using read_bits_value [of 8 a w] unfolding r by simp_all
  have "bit (ucast (t AND 0xFF) :: u8) j \<longleftrightarrow> j < 8 \<and> a (looks w + (7 - j))" for j
    unfolding and_255 by (auto simp: bit_simps t)
  then show "\<exists>v w'. rtl8366_smi_read_byte0 (a \<circ> looks) w = (Inr v, w') \<and> looks w' = looks w + 8 \<and>
     (\<forall>j. bit v j \<longleftrightarrow> j < 8 \<and> a (looks w + (7 - j)))"
  "\<exists>v w'. rtl8366_smi_read_byte1 (a \<circ> looks) w = (Inr v, w') \<and> looks w' = looks w + 8 \<and>
     (\<forall>j. bit v j \<longleftrightarrow> j < 8 \<and> a (looks w + (7 - j)))"
    unfolding rtl8366_smi_read_byte0_def rtl8366_smi_read_byte1_def r using w'
    by (auto simp del: rtl8366_smi_write_bits.simps)
qed

text \<open>
  A chip that acknowledges the three bytes of the request at once and then shows a register of
  the value \<open>v\<close>: low byte first, each byte from its highest bit down.
\<close>

definition chip_answer :: "u16 \<Rightarrow> wire \<Rightarrow> bool" where
  "chip_answer v = (\<lambda>n. 3 \<le> n \<and> bit v (if n < 11 then 10 - n else 26 - n)) \<circ> looks"


end
