(* ===== verification/Switch_Api.thy ===== *)
theory Switch_Api
  imports Driver
begin

text \<open>
  The interface between the switch configuration and the switch drivers
  (\<open>src/openwrt/target/linux/generic/files/include/linux/switch.h\<close>).  The state of a driver has
  type \<open>'c\<close>.  What C returns through a pointer is the result of the call; a call that fails has
  no result.
\<close>

section \<open>Ports\<close>

text \<open>\<open>struct switch_port\<close>, its flags only the flag for tagged frames.\<close>

record switch_port =
  port_id :: nat
  port_tagged :: bool

text \<open>\<open>struct switch_port_link\<close>.  The speed is an \<open>enum\<close>, which can hold any number.\<close>

record switch_port_link =
  link_link :: bool
  link_duplex :: bool
  link_aneg :: bool
  link_tx_flow :: bool
  link_rx_flow :: bool
  link_speed :: u32
  link_eee :: u32

definition SWITCH_PORT_SPEED_UNKNOWN :: u32 where "SWITCH_PORT_SPEED_UNKNOWN = 0"
definition SWITCH_PORT_SPEED_10 :: u32 where "SWITCH_PORT_SPEED_10 = 10"
definition SWITCH_PORT_SPEED_100 :: u32 where "SWITCH_PORT_SPEED_100 = 100"
definition SWITCH_PORT_SPEED_1000 :: u32 where "SWITCH_PORT_SPEED_1000 = 1000"

lemmas port_speeds = SWITCH_PORT_SPEED_UNKNOWN_def SWITCH_PORT_SPEED_10_def SWITCH_PORT_SPEED_100_def
  SWITCH_PORT_SPEED_1000_def

definition link_zero :: switch_port_link where
  "link_zero = \<lparr>link_link = False, link_duplex = False, link_aneg = False, link_tx_flow = False,
     link_rx_flow = False, link_speed = 0, link_eee = 0\<rparr>"

section \<open>Attributes\<close>

datatype switch_val_type =
    SWITCH_TYPE_UNSPEC | SWITCH_TYPE_INT | SWITCH_TYPE_STRING | SWITCH_TYPE_PORTS | SWITCH_TYPE_LINK
  | SWITCH_TYPE_NOVAL

text \<open>
  The union \<open>value\<close> of \<open>struct switch_val\<close>.  For a list of ports it comes with \<open>len\<close>.  Cleared
  memory reads as 0 and as no ports.
\<close>

datatype switch_value = V_zero | V_int u32 | V_str string | V_ports "switch_port list" | V_link switch_port_link

fun value_i :: "switch_value \<Rightarrow> u32" where
  "value_i (V_int i) = i"
| "value_i _ = 0"

fun value_ports :: "switch_value \<Rightarrow> switch_port list" where
  "value_ports (V_ports ps) = ps"
| "value_ports _ = []"

fun value_link :: "switch_value \<Rightarrow> switch_port_link" where
  "value_link (V_link l) = l"
| "value_link _ = link_zero"

record switch_val =
  sv_port_vlan :: u32
  sv_value :: switch_value

text \<open>
  The fields of an attribute that only its driver looks at (\<open>id\<close>, \<open>ofs\<close>, \<open>max\<close>) are known to its
  functions.
\<close>

record 'c switch_attr =
  at_disabled :: bool
  at_type :: switch_val_type
  at_name :: string
  at_description :: "string option"
  at_set :: "(switch_val \<Rightarrow> ('c, unit) drv) option"
  at_get :: "(switch_val \<Rightarrow> ('c, switch_value) drv) option"

section \<open>Drivers and devices\<close>

record 'c switch_dev_ops =
  attr_global :: "'c switch_attr list"
  attr_port :: "'c switch_attr list"
  attr_vlan :: "'c switch_attr list"
  op_get_vlan_ports :: "(u32 \<Rightarrow> ('c, switch_port list) drv) option"
  op_set_vlan_ports :: "(u32 \<Rightarrow> switch_port list \<Rightarrow> ('c, unit) drv) option"
  op_get_port_pvid :: "(nat \<Rightarrow> ('c, u32) drv) option"
  op_set_port_pvid :: "(nat \<Rightarrow> u32 \<Rightarrow> ('c, unit) drv) option"
  op_apply_config :: "('c, unit) drv option"
  op_reset_switch :: "('c, unit) drv option"
  op_get_port_link :: "(nat \<Rightarrow> switch_port_link \<Rightarrow> ('c, switch_port_link) drv) option"
  op_set_port_link :: "(nat \<Rightarrow> switch_port_link \<Rightarrow> ('c, unit) drv) option"
  op_get_port_stats :: "(nat \<Rightarrow> ('c, 64 word \<times> 64 word) drv) option"
  op_phy_write16 :: "(nat \<Rightarrow> u8 \<Rightarrow> u16 \<Rightarrow> ('c, unit) drv) option"

text \<open>The bits of \<open>def_global\<close>, \<open>def_port\<close> and \<open>def_vlan\<close> that are set are sets of numbers.\<close>

record 'c switch_dev =
  sd_ops :: "'c switch_dev_ops"
  sd_state :: 'c
  sd_devname :: string
  sd_name :: string
  sd_alias :: "string option"
  sd_ports :: u32
  sd_vlans :: u32
  sd_cpu_port :: u32
  sd_id :: u32
  sd_def_global :: "nat set"
  sd_def_port :: "nat set"
  sd_def_vlan :: "nat set"
  sd_portmap :: "(string option \<times> u32) list"

end
