(* ===== verification/Swconfig.thy ===== *)
theory Swconfig
  imports Switch_Api Clib
begin

text \<open>
  The switch configuration of the kernel
  (\<open>src/openwrt/target/linux/generic/files/drivers/net/phy/swconfig.c\<close>): the list of switches and
  the requests that look at or change an attribute of a switch.

  The kernel's netlink code has checked and split a request before it is handled here; a request
  is the record of the attributes it had.  The mutexes make each handler one step.
\<close>

section \<open>Attributes every switch has\<close>

definition swconfig_get_vlan_ports :: "'c switch_dev \<Rightarrow> switch_val \<Rightarrow> ('c, switch_value) drv" where
  "swconfig_get_vlan_ports dev val =
     (if sv_port_vlan val \<ge> sd_vlans dev then derr EINVAL
      else case op_get_vlan_ports (sd_ops dev) of
        None \<Rightarrow> derr EOPNOTSUPP
      | Some f \<Rightarrow> dbind (f (sv_port_vlan val)) (\<lambda>ports. dret (V_ports ports)))"

text \<open>The ports are checked one by one; the VLAN id of an untagged port is set on the way.\<close>

fun set_pvids :: "'c switch_dev \<Rightarrow> u32 \<Rightarrow> switch_port list \<Rightarrow> ('c, unit) drv" where
  "set_pvids dev vid [] = dret ()"
| "set_pvids dev vid (port # ports) =
     (if port_id port \<ge> unat (sd_ports dev) then derr EINVAL
      else dbind
        (case op_set_port_pvid (sd_ops dev) of
           Some f \<Rightarrow> if \<not> port_tagged port then dignore (f (port_id port) vid) else dret ()
         | None \<Rightarrow> dret ())
        (\<lambda>_. set_pvids dev vid ports))"

definition swconfig_set_vlan_ports :: "'c switch_dev \<Rightarrow> switch_val \<Rightarrow> ('c, unit) drv" where
  "swconfig_set_vlan_ports dev val =
     (let ports = value_ports (sv_value val) in
      if sv_port_vlan val \<ge> sd_vlans dev then derr EINVAL
      else if length ports > unat (sd_ports dev) then derr EINVAL
      else case op_set_vlan_ports (sd_ops dev) of
        None \<Rightarrow> derr EOPNOTSUPP
      | Some f \<Rightarrow> dbind (set_pvids dev (sv_port_vlan val) ports) (\<lambda>_. f (sv_port_vlan val) ports))"

definition swconfig_set_pvid :: "'c switch_dev \<Rightarrow> switch_val \<Rightarrow> ('c, unit) drv" where
  "swconfig_set_pvid dev val =
     (if sv_port_vlan val \<ge> sd_ports dev then derr EINVAL
      else case op_set_port_pvid (sd_ops dev) of
        None \<Rightarrow> derr EOPNOTSUPP
      | Some f \<Rightarrow> f (unat (sv_port_vlan val)) (value_i (sv_value val)))"

definition swconfig_get_pvid :: "'c switch_dev \<Rightarrow> switch_val \<Rightarrow> ('c, switch_value) drv" where
  "swconfig_get_pvid dev val =
     (if sv_port_vlan val \<ge> sd_ports dev then derr EINVAL
      else case op_get_port_pvid (sd_ops dev) of
        None \<Rightarrow> derr EOPNOTSUPP
      | Some f \<Rightarrow> dbind (f (unat (sv_port_vlan val))) (\<lambda>i. dret (V_int i)))"

definition swconfig_set_link :: "'c switch_dev \<Rightarrow> switch_val \<Rightarrow> ('c, unit) drv" where
  "swconfig_set_link dev val =
     (case op_set_port_link (sd_ops dev) of
        None \<Rightarrow> derr EOPNOTSUPP
      | Some f \<Rightarrow> f (unat (sv_port_vlan val)) (value_link (sv_value val)))"

definition swconfig_get_link :: "'c switch_dev \<Rightarrow> switch_val \<Rightarrow> ('c, switch_value) drv" where
  "swconfig_get_link dev val =
     (if sv_port_vlan val \<ge> sd_ports dev then derr EINVAL
      else case op_get_port_link (sd_ops dev) of
        None \<Rightarrow> derr EOPNOTSUPP
      | Some f \<Rightarrow> dbind (f (unat (sv_port_vlan val)) link_zero) (\<lambda>l. dret (V_link l)))"

definition swconfig_apply_config :: "'c switch_dev \<Rightarrow> switch_val \<Rightarrow> ('c, unit) drv" where
  "swconfig_apply_config dev val = (case op_apply_config (sd_ops dev) of None \<Rightarrow> dret () | Some f \<Rightarrow> f)"

definition swconfig_reset_switch :: "'c switch_dev \<Rightarrow> switch_val \<Rightarrow> ('c, unit) drv" where
  "swconfig_reset_switch dev val = (case op_reset_switch (sd_ops dev) of None \<Rightarrow> dret () | Some f \<Rightarrow> f)"

text \<open>\<open>enum global_defaults\<close>, \<open>enum vlan_defaults\<close> and \<open>enum port_defaults\<close>.\<close>

definition GLOBAL_APPLY :: nat where "GLOBAL_APPLY = 0"
definition GLOBAL_RESET :: nat where "GLOBAL_RESET = 1"
definition VLAN_PORTS :: nat where "VLAN_PORTS = 0"
definition PORT_PVID :: nat where "PORT_PVID = 0"
definition PORT_LINK :: nat where "PORT_LINK = 1"

lemmas default_numbers = GLOBAL_APPLY_def GLOBAL_RESET_def VLAN_PORTS_def PORT_PVID_def PORT_LINK_def

definition default_global :: "'c switch_dev \<Rightarrow> 'c switch_attr list" where
  "default_global dev =
     [\<lparr>at_disabled = False, at_type = SWITCH_TYPE_NOVAL, at_name = ''apply'',
       at_description = Some ''Activate changes in the hardware'',
       at_set = Some (swconfig_apply_config dev), at_get = None\<rparr>,
      \<lparr>at_disabled = False, at_type = SWITCH_TYPE_NOVAL, at_name = ''reset'',
       at_description = Some ''Reset the switch'',
       at_set = Some (swconfig_reset_switch dev), at_get = None\<rparr>]"

definition default_port :: "'c switch_dev \<Rightarrow> 'c switch_attr list" where
  "default_port dev =
     [\<lparr>at_disabled = False, at_type = SWITCH_TYPE_INT, at_name = ''pvid'',
       at_description = Some ''Primary VLAN ID'',
       at_set = Some (swconfig_set_pvid dev), at_get = Some (swconfig_get_pvid dev)\<rparr>,
      \<lparr>at_disabled = False, at_type = SWITCH_TYPE_LINK, at_name = ''link'',
       at_description = Some ''Get port link information'',
       at_set = Some (swconfig_set_link dev), at_get = Some (swconfig_get_link dev)\<rparr>]"

definition default_vlan :: "'c switch_dev \<Rightarrow> 'c switch_attr list" where
  "default_vlan dev =
     [\<lparr>at_disabled = False, at_type = SWITCH_TYPE_PORTS, at_name = ''ports'',
       at_description = Some ''VLAN port mapping'',
       at_set = Some (swconfig_set_vlan_ports dev), at_get = Some (swconfig_get_vlan_ports dev)\<rparr>]"

definition swconfig_find_attr_by_name :: "'c switch_attr list \<Rightarrow> string \<Rightarrow> 'c switch_attr option" where
  "swconfig_find_attr_by_name alist name = List.find (\<lambda>a. name = at_name a) alist"

definition swconfig_defaults_init :: "'c switch_dev \<Rightarrow> 'c switch_dev" where
  "swconfig_defaults_init dev =
     (let sops = sd_ops dev in
      dev\<lparr>sd_def_vlan := (if op_get_vlan_ports sops \<noteq> None \<or> op_set_vlan_ports sops \<noteq> None then {VLAN_PORTS} else {}),
          sd_def_port :=
            (if op_get_port_pvid sops \<noteq> None \<or> op_set_port_pvid sops \<noteq> None then {PORT_PVID} else {}) \<union>
            (if op_get_port_link sops \<noteq> None \<and> swconfig_find_attr_by_name (attr_port sops) ''link'' = None
             then {PORT_LINK} else {}),
          sd_def_global := {GLOBAL_APPLY, GLOBAL_RESET}\<rparr>)"

section \<open>Requests\<close>

datatype switch_cmd =
    SWITCH_CMD_UNSPEC | SWITCH_CMD_GET_SWITCH | SWITCH_CMD_NEW_ATTR
  | SWITCH_CMD_LIST_GLOBAL | SWITCH_CMD_GET_GLOBAL | SWITCH_CMD_SET_GLOBAL
  | SWITCH_CMD_LIST_PORT | SWITCH_CMD_GET_PORT | SWITCH_CMD_SET_PORT
  | SWITCH_CMD_LIST_VLAN | SWITCH_CMD_GET_VLAN | SWITCH_CMD_SET_VLAN

text \<open>
  The attributes of a nested port: its id and whether it has the flag.  The kernel may refuse to
  split a nested attribute, which is \<open>None\<close> in a request.
\<close>

type_synonym port_attrs = "u32 option \<times> bool"

record link_attrs =
  la_duplex :: bool
  la_aneg :: bool
  la_speed :: "u32 option"

record genl_info =
  nl_cmd :: switch_cmd
  nl_id :: "u32 option"          \<comment> \<open>\<open>SWITCH_ATTR_ID\<close>\<close>
  nl_op_id :: "u32 option"       \<comment> \<open>\<open>SWITCH_ATTR_OP_ID\<close>\<close>
  nl_op_port :: "u32 option"
  nl_op_vlan :: "u32 option"
  nl_value_int :: "u32 option"
  nl_value_str :: "string option"
  nl_value_ports :: "port_attrs option list option"
  nl_value_link :: "link_attrs option option"

definition SWITCH_ATTR_DEFAULTS_OFFSET :: u32 where "SWITCH_ATTR_DEFAULTS_OFFSET = 0x1000"

text \<open>The two lists of attributes a command is about, and which of the second list are active.\<close>

definition global_attrs :: "'c switch_dev \<Rightarrow> 'c switch_attr list \<times> 'c switch_attr list \<times> nat set" where
  "global_attrs dev = (attr_global (sd_ops dev), default_global dev, sd_def_global dev)"

definition vlan_attrs :: "'c switch_dev \<Rightarrow> 'c switch_attr list \<times> 'c switch_attr list \<times> nat set" where
  "vlan_attrs dev = (attr_vlan (sd_ops dev), default_vlan dev, sd_def_vlan dev)"

definition port_attrs_of :: "'c switch_dev \<Rightarrow> 'c switch_attr list \<times> 'c switch_attr list \<times> nat set" where
  "port_attrs_of dev = (attr_port (sd_ops dev), default_port dev, sd_def_port dev)"

text \<open>The \<open>switch\<close> of \<open>swconfig_lookup_attr\<close>: the lists, and what it puts into \<open>val->port_vlan\<close>.\<close>

definition below :: "u32 option \<Rightarrow> u32 \<Rightarrow> u32 option" where
  "below n limit = (case n of None \<Rightarrow> None | Some i \<Rightarrow> if i \<ge> limit then None else Some i)"

definition lookup_lists ::
  "'c switch_dev \<Rightarrow> genl_info \<Rightarrow> (('c switch_attr list \<times> 'c switch_attr list \<times> nat set) \<times> u32) option" where
  "lookup_lists dev info =
     (let c = nl_cmd info in
      if c = SWITCH_CMD_SET_GLOBAL \<or> c = SWITCH_CMD_GET_GLOBAL then Some (global_attrs dev, 0)
      else if c = SWITCH_CMD_SET_VLAN \<or> c = SWITCH_CMD_GET_VLAN
      then map_option (Pair (vlan_attrs dev)) (below (nl_op_vlan info) (sd_vlans dev))
      else if c = SWITCH_CMD_SET_PORT \<or> c = SWITCH_CMD_GET_PORT
      then map_option (Pair (port_attrs_of dev)) (below (nl_op_port info) (sd_ports dev))
      else None)"

text \<open>No attribute is \<open>None\<close>, otherwise it comes with \<open>val->port_vlan\<close>.\<close>

definition swconfig_lookup_attr :: "'c switch_dev \<Rightarrow> genl_info \<Rightarrow> ('c switch_attr \<times> u32) option" where
  "swconfig_lookup_attr dev info =
     (case nl_op_id info of None \<Rightarrow> None | Some attr_id \<Rightarrow>
      case lookup_lists dev info of None \<Rightarrow> None | Some ((alist, def_list, def_active), port_vlan) \<Rightarrow>
      let attr =
        (if attr_id \<ge> SWITCH_ATTR_DEFAULTS_OFFSET
         then let i = unat (attr_id - SWITCH_ATTR_DEFAULTS_OFFSET) in
           if i \<ge> length def_list \<or> i \<notin> def_active then None else Some (def_list ! i)
         else if unat attr_id \<ge> length alist then None else Some (alist ! unat attr_id))
      in case attr of None \<Rightarrow> None | Some a \<Rightarrow> if at_disabled a then None else Some (a, port_vlan))"

text \<open>The ports of a request, \<open>len\<close> of them read already.\<close>

fun parse_ports_loop :: "nat \<Rightarrow> nat \<Rightarrow> port_attrs option list \<Rightarrow> int + switch_port list" where
  "parse_ports_loop len limit [] = Inr []"
| "parse_ports_loop len limit (nla # nlas) =
     (if len \<ge> limit then Inl EINVAL
      else case nla of
        None \<Rightarrow> Inl EINVAL
      | Some (None, _) \<Rightarrow> Inl EINVAL
      | Some (Some i, tagged) \<Rightarrow>
          map_sum id (Cons \<lparr>port_id = unat i, port_tagged = tagged\<rparr>) (parse_ports_loop (len + 1) limit nlas))"

definition swconfig_parse_ports :: "port_attrs option list \<Rightarrow> u32 \<Rightarrow> int + switch_port list" where
  "swconfig_parse_ports nlas limit = parse_ports_loop 0 (unat limit) nlas"

text \<open>The speed is read without a look whether it is there.\<close>

definition swconfig_parse_link :: "link_attrs option \<Rightarrow> (int + switch_port_link) option" where
  "swconfig_parse_link nla =
     (case nla of
        None \<Rightarrow> Some (Inl EINVAL)
      | Some tb \<Rightarrow>
          (case la_speed tb of
             None \<Rightarrow> None
           | Some speed \<Rightarrow>
               Some (Inr (link_zero\<lparr>link_duplex := la_duplex tb, link_aneg := la_aneg tb, link_speed := speed\<rparr>))))"

text \<open>The \<open>switch\<close> of \<open>swconfig_set_attr\<close>: the value of a request for an attribute.\<close>

fun request_value :: "'c switch_dev \<Rightarrow> genl_info \<Rightarrow> switch_val_type \<Rightarrow> (int + switch_value) option" where
  "request_value dev info SWITCH_TYPE_NOVAL = Some (Inr V_zero)"
| "request_value dev info SWITCH_TYPE_INT =
     Some (case nl_value_int info of None \<Rightarrow> Inl EINVAL | Some i \<Rightarrow> Inr (V_int i))"
| "request_value dev info SWITCH_TYPE_STRING =
     Some (case nl_value_str info of None \<Rightarrow> Inl EINVAL | Some s \<Rightarrow> Inr (V_str s))"
| "request_value dev info SWITCH_TYPE_PORTS =
     Some (case nl_value_ports info of
       None \<Rightarrow> Inr (V_ports [])
     | Some nlas \<Rightarrow> map_sum id V_ports (swconfig_parse_ports nlas (sd_ports dev)))"
| "request_value dev info SWITCH_TYPE_LINK =
     (case nl_value_link info of
        None \<Rightarrow> Some (Inr (V_link link_zero))
      | Some nla \<Rightarrow> map_option (map_sum id V_link) (swconfig_parse_link nla))"
| "request_value dev info SWITCH_TYPE_UNSPEC = Some (Inl EINVAL)"

section \<open>The list of switches\<close>

record 'c swcfg =
  swdevs :: "'c switch_dev list"
  swdev_id :: u32

text \<open>The place of a switch in the list.\<close>

fun find_dev :: "u32 \<Rightarrow> 'c switch_dev list \<Rightarrow> nat option" where
  "find_dev i [] = None"
| "find_dev i (p # ps) = (if i \<noteq> sd_id p then map_option Suc (find_dev i ps) else Some 0)"

definition swconfig_get_dev :: "'c swcfg \<Rightarrow> genl_info \<Rightarrow> nat option" where
  "swconfig_get_dev s info = (case nl_id info of None \<Rightarrow> None | Some i \<Rightarrow> find_dev i (swdevs s))"

text \<open>A call of the driver of a switch.\<close>

definition call_driver :: "nat \<Rightarrow> ('c, 'a) drv \<Rightarrow> ('c swcfg, 'a) drv" where
  "call_driver k f s =
     (let dev = swdevs s ! k; (r, c) = f (sd_state dev) in (r, s\<lparr>swdevs := (swdevs s)[k := dev\<lparr>sd_state := c\<rparr>]\<rparr>))"

text \<open>\<open>admin\<close> says whether the process has the capability \<open>CAP_NET_ADMIN\<close>.\<close>

definition set_attr_dev :: "'c switch_dev \<Rightarrow> genl_info \<Rightarrow> ('c, unit) drv option" where
  "set_attr_dev dev info =
     (case swconfig_lookup_attr dev info of None \<Rightarrow> Some (derr EINVAL) | Some (attr, port_vlan) \<Rightarrow>
      case at_set attr of None \<Rightarrow> Some (derr EINVAL) | Some f \<Rightarrow>
      map_option (\<lambda>v. case v of Inl err \<Rightarrow> derr err | Inr value \<Rightarrow> f \<lparr>sv_port_vlan = port_vlan, sv_value = value\<rparr>)
        (request_value dev info (at_type attr)))"

definition swconfig_set_attr :: "bool \<Rightarrow> genl_info \<Rightarrow> 'c swcfg \<Rightarrow> ((int + unit) \<times> 'c swcfg) option" where
  "swconfig_set_attr admin info s =
     (if \<not> admin then Some (Inl EPERM, s)
      else case swconfig_get_dev s info of
        None \<Rightarrow> Some (Inl EINVAL, s)
      | Some k \<Rightarrow> map_option (\<lambda>f. call_driver k f s) (set_attr_dev (swdevs s ! k) info))"

section \<open>Registration\<close>

text \<open>
  A child of the device tree node of a switch.  The property \<open>swconfig,portmap\<close> is its bytes.
\<close>

record of_port =
  of_compatible :: bool
  of_segment :: "string option"
  of_portmap :: "bytes option"

text \<open>\<open>be32_to_cpup\<close>\<close>

definition be32 :: "bytes \<Rightarrow> u32" where
  "be32 bs = word_of_nat (be_val (take 4 bs))"

definition load_port :: "of_port \<Rightarrow> 'c switch_dev \<Rightarrow> 'c switch_dev" where
  "load_port port dev =
     (case (of_compatible port, of_segment port, of_portmap port) of
        (True, Some segment, Some prop) \<Rightarrow>
          if length prop \<noteq> 8 then dev
          else let phys = be32 prop in
            if phys <s 0 \<or> phys \<ge> sd_ports dev then dev
            else dev\<lparr>sd_portmap := (sd_portmap dev)[unat phys := (Some segment, be32 (drop 4 prop))]\<rparr>
      | _ \<Rightarrow> dev)"

definition of_switch_load_portmap :: "of_port list option \<Rightarrow> 'c switch_dev \<Rightarrow> 'c switch_dev" where
  "of_switch_load_portmap of_node dev = (case of_node of None \<Rightarrow> dev | Some ports \<Rightarrow> fold load_port ports dev)"

text \<open>\<open>sscanf(s, "switch%d", &i)\<close>: the number, or no match.\<close>

definition scan_switch :: "string \<Rightarrow> int option" where
  "scan_switch s =
     (if take 6 s \<noteq> ''switch'' then None
      else let t = dropWhile isspace (drop 6 s);
               neg = (t \<noteq> [] \<and> hd t = CHR ''-'');
               ds = takeWhile isdigit (if neg then tl t else t)
        in if ds = [] then None else Some ((if neg then -1 else 1) * int (digits_val 10 ds)))"

text \<open>
  The loop over the switches that collects the numbers in use.  A bit behind the end of the
  variable is undefined.
\<close>

fun in_use_loop :: "nat \<Rightarrow> 'c switch_dev list \<Rightarrow> nat set \<Rightarrow> nat set option" where
  "in_use_loop max_switches [] in_use = Some in_use"
| "in_use_loop max_switches (sdev # sdevs) in_use =
     (case scan_switch (sd_devname sdev) of
        None \<Rightarrow> in_use_loop max_switches sdevs in_use
      | Some i \<Rightarrow>
          if i < 0 \<or> i > int max_switches then in_use_loop max_switches sdevs in_use
          else if nat i = max_switches then None
          else in_use_loop max_switches sdevs (insert (nat i) in_use))"

definition find_first_zero_bit :: "nat set \<Rightarrow> nat \<Rightarrow> nat" where
  "find_first_zero_bit bits n = (case List.find (\<lambda>i. i \<notin> bits) [0..<n] of None \<Rightarrow> n | Some i \<Rightarrow> i)"

text \<open>
  What the kernel answers while a switch is registered: whether there is memory, the result of
  setting up the LED trigger, the node of the device tree and the number of bits of a \<open>long\<close>.
\<close>

record reg_env =
  re_memory :: bool
  re_led :: int
  re_node :: "of_port list option"
  re_long :: nat

definition register_switch ::
  "reg_env \<Rightarrow> 'c switch_dev \<Rightarrow> string option \<Rightarrow> 'c swcfg \<Rightarrow> ((int + unit) \<times> 'c swcfg) option" where
  "register_switch env dev netdev s =
     (let dev = (if netdev \<noteq> None \<and> sd_alias dev = None then dev\<lparr>sd_alias := netdev\<rparr> else dev) in
      if sd_alias dev = None then None
      else if swdev_id s = 0x7FFFFFFF then Some (Inl ENOMEM, s)
      else if sd_ports dev > 0 \<and> \<not> re_memory env then Some (Inl ENOMEM, s)
      else
        let dev = dev\<lparr>sd_portmap := replicate (unat (sd_ports dev)) (None, 0)\<rparr>;
            dev = swconfig_defaults_init dev;
            s = s\<lparr>swdev_id := swdev_id s + 1\<rparr>;
            dev = dev\<lparr>sd_id := swdev_id s\<rparr>
        in case in_use_loop (re_long env) (swdevs s) {} of
             None \<Rightarrow> None
           | Some in_use \<Rightarrow>
               let i = find_first_zero_bit in_use (re_long env) in
               if i = re_long env then Some (Inl ENFILE, s)
               else
                 let dev = of_switch_load_portmap (re_node env) dev;
                     dev = dev\<lparr>sd_devname := ''switch'' @ show_nat i\<rparr>;
                     s = s\<lparr>swdevs := swdevs s @ [dev]\<rparr>
                 in Some (if re_led env \<noteq> 0 then Inl (re_led env) else Inr (), s))"

text \<open>The switch at place \<open>k\<close> leaves the list.\<close>

definition unregister_switch :: "nat \<Rightarrow> 'c swcfg \<Rightarrow> 'c swcfg" where
  "unregister_switch k s = s\<lparr>swdevs := take k (swdevs s) @ drop (Suc k) (swdevs s)\<rparr>"

definition swconfig_init :: "'c swcfg" where
  "swconfig_init = \<lparr>swdevs = [], swdev_id = 0\<rparr>"

section \<open>The link of a port\<close>

text \<open>The registers of a PHY: \<open>MII_BMCR\<close> is 0, and the bits of its value.\<close>

definition BMCR_ANENABLE :: u16 where "BMCR_ANENABLE = 0x1000"
definition BMCR_ANRESTART :: u16 where "BMCR_ANRESTART = 0x0200"
definition BMCR_FULLDPLX :: u16 where "BMCR_FULLDPLX = 0x0100"
definition BMCR_SPEED100 :: u16 where "BMCR_SPEED100 = 0x2000"
definition BMCR_SPEED1000 :: u16 where "BMCR_SPEED1000 = 0x0040"

definition switch_generic_set_link :: "'c switch_dev \<Rightarrow> nat \<Rightarrow> switch_port_link \<Rightarrow> ('c, unit) drv" where
  "switch_generic_set_link dev port link =
     (case op_phy_write16 (sd_ops dev) of
        None \<Rightarrow> derr ENOTSUPP
      | Some phy_write16 \<Rightarrow>
          if link_aneg link
          then dbind (dignore (phy_write16 port 0 0x0000)) (\<lambda>_.
               dignore (phy_write16 port 0 (BMCR_ANENABLE OR BMCR_ANRESTART)))
          else
            let bmcr = (if link_duplex link then BMCR_FULLDPLX else 0) in
            if link_speed link = SWITCH_PORT_SPEED_10 then dignore (phy_write16 port 0 bmcr)
            else if link_speed link = SWITCH_PORT_SPEED_100 then dignore (phy_write16 port 0 (bmcr OR BMCR_SPEED100))
            else if link_speed link = SWITCH_PORT_SPEED_1000 then dignore (phy_write16 port 0 (bmcr OR BMCR_SPEED1000))
            else derr ENOTSUPP)"

end
