(* ===== verification/Swconfig_Netlink.thy ===== *)
theory Swconfig_Netlink
  imports Swconfig
begin

text \<open>
  The answers of the switch configuration: how the attributes of a switch, the value of an
  attribute and the list of switches are put into netlink messages (the rest of
  \<open>src/openwrt/target/linux/generic/files/drivers/net/phy/swconfig.c\<close>).

  A message is the list of what was put into it, each part with its size; the buffer of a message
  has room for \<open>room\<close> bytes.  Buffers live on a heap: sending a buffer or freeing it ends its life,
  and a use of it afterwards is undefined.
\<close>

section \<open>Messages\<close>

datatype nl_attr =
    SWITCH_ATTR_ID | SWITCH_ATTR_DEV_NAME | SWITCH_ATTR_ALIAS | SWITCH_ATTR_NAME | SWITCH_ATTR_VLANS
  | SWITCH_ATTR_PORTS | SWITCH_ATTR_PORTMAP | SWITCH_ATTR_CPU_PORT | SWITCH_ATTR_OP_ID
  | SWITCH_ATTR_OP_TYPE | SWITCH_ATTR_OP_NAME | SWITCH_ATTR_OP_PORT | SWITCH_ATTR_OP_VLAN
  | SWITCH_ATTR_OP_VALUE_INT | SWITCH_ATTR_OP_VALUE_STR
  | SWITCH_ATTR_OP_VALUE_PORTS | SWITCH_ATTR_OP_VALUE_LINK | SWITCH_ATTR_OP_DESCRIPTION | SWITCH_ATTR_PORT
  | SWITCH_PORTMAP_SEGMENT | SWITCH_PORTMAP_VIRT | SWITCH_PORT_ID | SWITCH_PORT_FLAG_TAGGED
  | SWITCH_LINK_FLAG_LINK | SWITCH_LINK_FLAG_DUPLEX | SWITCH_LINK_FLAG_ANEG | SWITCH_LINK_FLAG_TX_FLOW
  | SWITCH_LINK_FLAG_RX_FLOW | SWITCH_LINK_SPEED | SWITCH_LINK_FLAG_EEE_100BASET
  | SWITCH_LINK_FLAG_EEE_1000BASET

text \<open>
  Headers, attributes, and the places where the length of a nest or of the message is filled in.
  A header is that of netlink and that of generic netlink.  An attribute is padded to 4 bytes.
\<close>

datatype part =
    Genl_put switch_cmd bool       \<comment> \<open>the flag \<open>NLM_F_MULTI\<close>\<close>
  | Put_u32 nl_attr u32
  | Put_string nl_attr string
  | Put_flag nl_attr
  | Put_type nl_attr switch_val_type
  | Nest_start nl_attr
  | Nest_end
  | Genl_end

definition align4 :: "nat \<Rightarrow> nat" where
  "align4 n = 4 * ((n + 3) div 4)"

fun part_size :: "part \<Rightarrow> nat" where
  "part_size (Genl_put c m) = 20"
| "part_size (Put_u32 a v) = 8"
| "part_size (Put_type a t) = 8"
| "part_size (Put_string a s) = align4 (4 + (length s + 1))"
| "part_size (Put_flag a) = 4"
| "part_size (Nest_start a) = 4"
| "part_size Nest_end = 0"
| "part_size Genl_end = 0"

type_synonym skb = "part list"

definition skb_len :: "skb \<Rightarrow> nat" where
  "skb_len msg = sum_list (map part_size msg)"

text \<open>\<open>nla_put_u32\<close>, \<open>nla_put_string\<close>, \<open>nla_put_flag\<close>: nothing is put when it does not fit.\<close>

definition fits :: "nat \<Rightarrow> part \<Rightarrow> skb \<Rightarrow> bool" where
  "fits room p msg \<longleftrightarrow> skb_len msg + part_size p \<le> room"

text \<open>Parts one after the other, until one does not fit.\<close>

fun nla_puts :: "nat \<Rightarrow> part list \<Rightarrow> skb \<Rightarrow> bool \<times> skb" where
  "nla_puts room [] msg = (True, msg)"
| "nla_puts room (p # ps) msg = (if fits room p msg then nla_puts room ps (msg @ [p]) else (False, msg))"

text \<open>\<open>nla_nest_start\<close> and \<open>genlmsg_put\<close>: a pointer to the new part, or a null pointer.\<close>

definition put_at :: "nat \<Rightarrow> part \<Rightarrow> skb \<Rightarrow> nat option \<times> skb" where
  "put_at room p msg = (if fits room p msg then (Some (length msg), msg @ [p]) else (None, msg))"

text \<open>
  The common shape of a message: a header, parts, and the end.  The check of the header is for an
  error pointer, which \<open>genlmsg_put\<close> never returns; with a null pointer \<open>genlmsg_cancel\<close> does
  nothing and \<open>genlmsg_end\<close> is undefined.
\<close>

definition genl_message :: "nat \<Rightarrow> switch_cmd \<Rightarrow> bool \<Rightarrow> part list \<Rightarrow> skb \<Rightarrow> (bool \<times> skb) option" where
  "genl_message room cmd multi ps msg =
     (let (hdr, msg) = put_at room (Genl_put cmd multi) msg in
      case nla_puts room ps msg of
        (True, msg) \<Rightarrow> (case hdr of None \<Rightarrow> None | Some _ \<Rightarrow> Some (True, msg @ [Genl_end]))
      | (False, msg) \<Rightarrow> Some (False, case hdr of None \<Rightarrow> msg | Some p \<Rightarrow> take p msg))"

section \<open>Buffers\<close>

record net =
  bufs :: "nat \<rightharpoonup> skb"
  next_buf :: nat
  sent :: "skb list"

text \<open>The size of a buffer, which allocations succeed and what sending answers.\<close>

record net_env =
  ne_room :: nat
  ne_alloc :: "nat \<Rightarrow> bool"
  ne_reply :: "nat \<Rightarrow> int"

definition nlmsg_new :: "net_env \<Rightarrow> net \<Rightarrow> nat option \<times> net" where
  "nlmsg_new env n =
     (let b = next_buf n; n = n\<lparr>next_buf := b + 1\<rparr> in
      if ne_alloc env b then (Some b, n\<lparr>bufs := (bufs n)(b \<mapsto> [])\<rparr>) else (None, n))"

definition nlmsg_free :: "nat \<Rightarrow> net \<Rightarrow> net option" where
  "nlmsg_free b n = (if bufs n b = None then None else Some (n\<lparr>bufs := (bufs n)(b := None)\<rparr>))"

text \<open>The buffer is gone also when sending fails.\<close>

definition genlmsg_reply :: "net_env \<Rightarrow> nat \<Rightarrow> net \<Rightarrow> (int \<times> net) option" where
  "genlmsg_reply env b n =
     (case bufs n b of
        None \<Rightarrow> None
      | Some msg \<Rightarrow>
          let err = ne_reply env b; n = n\<lparr>bufs := (bufs n)(b := None)\<rparr> in
          Some (err, if err < 0 then n else n\<lparr>sent := sent n @ [msg]\<rparr>))"

definition put_buf :: "nat \<Rightarrow> skb \<Rightarrow> net \<Rightarrow> net" where
  "put_buf b msg n = n\<lparr>bufs := (bufs n)(b \<mapsto> msg)\<rparr>"

text \<open>\<open>struct swconfig_callback\<close>: the message, and the pointer to the nest in a message.\<close>

record callback =
  cb_msg :: "nat option"
  cb_nest :: "(nat \<times> nat) option"

definition cb_zero :: callback where
  "cb_zero = \<lparr>cb_msg = None, cb_nest = None\<rparr>"

text \<open>The two functions of a callback, each for the buffer \<open>cb->msg\<close>.\<close>

type_synonym fill = "nat \<Rightarrow> callback \<Rightarrow> net \<Rightarrow> (bool \<times> callback \<times> net) option"
type_synonym close = "nat \<Rightarrow> callback \<Rightarrow> net \<Rightarrow> net option"

text \<open>
  \<open>swconfig_send_multipart\<close>, its loop from an attempt on.  The result is whether 0 is returned.
  Behind the label \<open>error\<close> the buffer is freed and \<open>cb->msg\<close> stays.
\<close>

function multipart_loop ::
  "net_env \<Rightarrow> fill \<Rightarrow> close option \<Rightarrow> bool \<Rightarrow> callback \<Rightarrow> net \<Rightarrow> (bool \<times> callback \<times> net) option" where
  "multipart_loop env fill close restart cb n =
     (let (msg, n) = (case cb_msg cb of Some b \<Rightarrow> (Some b, n) | None \<Rightarrow> nlmsg_new env n);
          cb = cb\<lparr>cb_msg := msg\<rparr>
      in case msg of
           None \<Rightarrow> Some (False, cb, n)
         | Some b \<Rightarrow>
             do {
               (ok, cb, n) \<leftarrow> fill b cb n;
               if ok then Some (True, cb, n)
               else if restart then do { n \<leftarrow> nlmsg_free b n; Some (False, cb, n) }
               else do {
                 n \<leftarrow> (case close of None \<Rightarrow> Some n | Some f \<Rightarrow> f b cb n);
                 (err, n) \<leftarrow> genlmsg_reply env b n;
                 let cb = cb\<lparr>cb_msg := None\<rparr> in
                 if err < 0 then Some (False, cb, n)
                 else multipart_loop env fill close True cb n
               }
             })"
  by pat_completeness auto
termination
  by (relation "measure (\<lambda>(env, fill, close, restart, cb, n). if restart then 0 else 1)") auto

declare multipart_loop.simps [simp del]

definition swconfig_send_multipart ::
  "net_env \<Rightarrow> fill \<Rightarrow> close option \<Rightarrow> callback \<Rightarrow> net \<Rightarrow> (bool \<times> callback \<times> net) option" where
  "swconfig_send_multipart env fill close cb n = multipart_loop env fill close False cb n"

section \<open>The attributes of a switch\<close>

definition attr_parts :: "nat \<Rightarrow> 'c switch_attr \<Rightarrow> part list" where
  "attr_parts i a =
     [Put_u32 SWITCH_ATTR_OP_ID (word_of_nat i), Put_type SWITCH_ATTR_OP_TYPE (at_type a),
      Put_string SWITCH_ATTR_OP_NAME (at_name a)] @
     (case at_description a of None \<Rightarrow> [] | Some d \<Rightarrow> [Put_string SWITCH_ATTR_OP_DESCRIPTION d])"

definition swconfig_dump_attr :: "net_env \<Rightarrow> nat \<Rightarrow> 'c switch_attr \<Rightarrow> fill" where
  "swconfig_dump_attr env i a b cb n =
     (case bufs n b of
        None \<Rightarrow> None
      | Some msg \<Rightarrow> do {
          (ok, msg) \<leftarrow> genl_message (ne_room env) SWITCH_CMD_NEW_ATTR True (attr_parts i a) msg;
          Some (ok, cb, put_buf b msg n)
        })"

text \<open>The two loops of \<open>swconfig_list_attrs\<close> go over these attributes and their numbers.\<close>

definition listed_attrs :: "'c switch_attr list \<times> 'c switch_attr list \<times> nat set \<Rightarrow> (nat \<times> 'c switch_attr) list" where
  "listed_attrs l = (case l of (alist, def_list, def_active) \<Rightarrow>
     [(i, alist ! i). i \<leftarrow> [0..<length alist], \<not> at_disabled (alist ! i)] @
     [(0x1000 + i, def_list ! i). i \<leftarrow> [0..<length def_list], i \<in> def_active])"

fun list_loop :: "net_env \<Rightarrow> (nat \<times> 'c switch_attr) list \<Rightarrow> callback \<Rightarrow> net \<Rightarrow> (bool \<times> callback \<times> net) option" where
  "list_loop env [] cb n = Some (True, cb, n)"
| "list_loop env ((i, a) # as) cb n = do {
     (ok, cb, n) \<leftarrow> swconfig_send_multipart env (swconfig_dump_attr env i a) None cb n;
     if ok then list_loop env as cb n else Some (False, cb, n)
   }"

definition list_lists :: "'c switch_dev \<Rightarrow> switch_cmd \<Rightarrow> ('c switch_attr list \<times> 'c switch_attr list \<times> nat set) option" where
  "list_lists dev c =
     (if c = SWITCH_CMD_LIST_GLOBAL then Some (global_attrs dev)
      else if c = SWITCH_CMD_LIST_VLAN then Some (vlan_attrs dev)
      else if c = SWITCH_CMD_LIST_PORT then Some (port_attrs_of dev)
      else None)"

definition swconfig_list_attrs :: "net_env \<Rightarrow> genl_info \<Rightarrow> 'c swcfg \<Rightarrow> net \<Rightarrow> (int \<times> net) option" where
  "swconfig_list_attrs env info s n =
     (case swconfig_get_dev s info of None \<Rightarrow> Some (EINVAL, n) | Some k \<Rightarrow>
      case list_lists (swdevs s ! k) (nl_cmd info) of None \<Rightarrow> Some (EINVAL, n) | Some l \<Rightarrow> do {
        (ok, cb, n) \<leftarrow> list_loop env (listed_attrs l) cb_zero n;
        case cb_msg cb of
          None \<Rightarrow> Some (if ok then 0 else -1, n)
        | Some b \<Rightarrow>
            if ok then genlmsg_reply env b n
            else do { n \<leftarrow> nlmsg_free b n; Some (-1, n) }
      })"

section \<open>The value of an attribute\<close>

text \<open>
  A nest that belongs to another buffer is a pointer into freed memory.  After it was taken back
  its length is written behind the end of the message.
\<close>

definition swconfig_close_portlist :: close where
  "swconfig_close_portlist b cb n =
     (case cb_nest cb of
        None \<Rightarrow> Some n
      | Some (b', p) \<Rightarrow>
          (case bufs n b of
             None \<Rightarrow> None
           | Some msg \<Rightarrow>
               if b' \<noteq> b then None
               else Some (if p < length msg then put_buf b (msg @ [Nest_end]) n else n)))"

definition nest_cancel :: "nat \<Rightarrow> callback \<Rightarrow> skb \<Rightarrow> skb option" where
  "nest_cancel b cb msg = (case cb_nest cb of None \<Rightarrow> Some msg | Some (b', p) \<Rightarrow> if b' \<noteq> b then None else Some (take p msg))"

definition port_parts :: "switch_port \<Rightarrow> part list" where
  "port_parts port =
     Put_u32 SWITCH_PORT_ID (word_of_nat (port_id port)) #
     (if port_tagged port then [Put_flag SWITCH_PORT_FLAG_TAGGED] else [])"

definition start_nest :: "nat \<Rightarrow> nl_attr \<Rightarrow> nat \<Rightarrow> callback \<Rightarrow> skb \<Rightarrow> callback \<times> skb" where
  "start_nest room a b cb msg =
     (let (p, msg) = put_at room (Nest_start a) msg in (cb\<lparr>cb_nest := map_option (Pair b) p\<rparr>, msg))"

definition swconfig_send_port :: "net_env \<Rightarrow> nl_attr \<Rightarrow> switch_port \<Rightarrow> fill" where
  "swconfig_send_port env cmd port b cb n =
     (case bufs n b of None \<Rightarrow> None | Some msg \<Rightarrow>
      let (cb, msg) = (if cb_nest cb = None then start_nest (ne_room env) cmd b cb msg else (cb, msg)) in
      if cb_nest cb = None then Some (False, cb, put_buf b msg n)
      else
        case put_at (ne_room env) (Nest_start SWITCH_ATTR_PORT) msg of
          (None, msg) \<Rightarrow> do { msg \<leftarrow> nest_cancel b cb msg; Some (False, cb, put_buf b msg n) }
        | (Some p, msg) \<Rightarrow>
            (case nla_puts (ne_room env) (port_parts port) msg of
               (True, msg) \<Rightarrow> Some (True, cb, put_buf b (msg @ [Nest_end]) n)
             | (False, msg) \<Rightarrow> do { msg \<leftarrow> nest_cancel b cb (take p msg); Some (False, cb, put_buf b msg n) }))"

fun send_ports_loop :: "net_env \<Rightarrow> nl_attr \<Rightarrow> switch_port list \<Rightarrow> callback \<Rightarrow> net \<Rightarrow> (bool \<times> callback \<times> net) option" where
  "send_ports_loop env a [] cb n = Some (True, cb, n)"
| "send_ports_loop env a (port # ports) cb n = do {
     (ok, cb, n) \<leftarrow> swconfig_send_multipart env (swconfig_send_port env a port) (Some swconfig_close_portlist) cb n;
     if ok then send_ports_loop env a ports cb n else Some (False, cb, n)
   }"

text \<open>The result is the buffer that \<open>*msg\<close> points at; it is not changed on an error.\<close>

definition swconfig_send_ports ::
  "net_env \<Rightarrow> nat \<Rightarrow> nl_attr \<Rightarrow> switch_port list \<Rightarrow> net \<Rightarrow> (bool \<times> nat \<times> net) option" where
  "swconfig_send_ports env b a ports n =
     (case bufs n b of None \<Rightarrow> None | Some msg \<Rightarrow>
      let (cb, msg) = start_nest (ne_room env) a b \<lparr>cb_msg = Some b, cb_nest = None\<rparr> msg in do {
        (ok, cb, n) \<leftarrow> send_ports_loop env a ports cb (put_buf b msg n);
        if \<not> ok then Some (False, b, n)
        else case cb_msg cb of None \<Rightarrow> None | Some b' \<Rightarrow> do {
          n \<leftarrow> swconfig_close_portlist b' cb n;
          Some (True, b', n)
        }
      })"

definition link_parts :: "switch_port_link \<Rightarrow> part list" where
  "link_parts link =
     (if link_link link then [Put_flag SWITCH_LINK_FLAG_LINK] else []) @
     (if link_duplex link then [Put_flag SWITCH_LINK_FLAG_DUPLEX] else []) @
     (if link_aneg link then [Put_flag SWITCH_LINK_FLAG_ANEG] else []) @
     (if link_tx_flow link then [Put_flag SWITCH_LINK_FLAG_TX_FLOW] else []) @
     (if link_rx_flow link then [Put_flag SWITCH_LINK_FLAG_RX_FLOW] else []) @
     [Put_u32 SWITCH_LINK_SPEED (link_speed link)] @
     (if link_eee link AND push_bit 3 1 \<noteq> 0 then [Put_flag SWITCH_LINK_FLAG_EEE_100BASET] else []) @
     (if link_eee link AND push_bit 5 1 \<noteq> 0 then [Put_flag SWITCH_LINK_FLAG_EEE_1000BASET] else [])"

definition swconfig_send_link :: "nat \<Rightarrow> nl_attr \<Rightarrow> switch_port_link \<Rightarrow> skb \<Rightarrow> (bool \<times> skb) option" where
  "swconfig_send_link room a link msg =
     (let (p, msg) = put_at room (Nest_start a) msg in
      case nla_puts room (link_parts link) msg of
        (True, msg) \<Rightarrow> (case p of None \<Rightarrow> None | Some _ \<Rightarrow> Some (True, msg @ [Nest_end]))
      | (False, msg) \<Rightarrow> Some (False, case p of None \<Rightarrow> msg | Some p \<Rightarrow> take p msg))"

text \<open>
  The \<open>switch\<close> of \<open>swconfig_get_attr\<close>: 0 or the error number, the buffer that \<open>msg\<close> points at and
  the heap.  A failed \<open>nla_put\<close> leaves the error 0.
\<close>

definition put_or :: "net_env \<Rightarrow> part \<Rightarrow> nat \<Rightarrow> net \<Rightarrow> ((int + nat) \<times> net) option" where
  "put_or env p b n =
     (case bufs n b of
        None \<Rightarrow> None
      | Some msg \<Rightarrow> if fits (ne_room env) p msg then Some (Inr b, put_buf b (msg @ [p]) n) else Some (Inl 0, n))"

fun send_value ::
  "net_env \<Rightarrow> 'c switch_dev \<Rightarrow> switch_val_type \<Rightarrow> switch_value \<Rightarrow> nat \<Rightarrow> net \<Rightarrow> ((int + nat) \<times> net) option" where
  "send_value env dev SWITCH_TYPE_INT v b n = put_or env (Put_u32 SWITCH_ATTR_OP_VALUE_INT (value_i v)) b n"
| "send_value env dev SWITCH_TYPE_STRING v b n =
     (case v of V_str s \<Rightarrow> put_or env (Put_string SWITCH_ATTR_OP_VALUE_STR s) b n | _ \<Rightarrow> None)"
| "send_value env dev SWITCH_TYPE_PORTS v b n =
     (if sd_ports dev = 0 then Some (Inl EINVAL, n)
      else do {
        (ok, b, n) \<leftarrow> swconfig_send_ports env b SWITCH_ATTR_OP_VALUE_PORTS (value_ports v) n;
        Some (if ok then Inr b else Inl (-1), n)
      })"
| "send_value env dev SWITCH_TYPE_LINK v b n =
     (case bufs n b of None \<Rightarrow> None | Some msg \<Rightarrow> do {
        (ok, msg) \<leftarrow> swconfig_send_link (ne_room env) SWITCH_ATTR_OP_VALUE_LINK (value_link v) msg;
        Some (if ok then Inr b else Inl (-1), put_buf b msg n)
      })"
| "send_value env dev _ v b n = Some (Inl EINVAL, n)"

text \<open>
  The answer of \<open>swconfig_get_attr\<close> once the driver has given the value.  \<open>genlmsg_end\<close> is for the
  header in the first buffer.
\<close>

definition send_answer ::
  "net_env \<Rightarrow> 'c switch_dev \<Rightarrow> switch_cmd \<Rightarrow> switch_val_type \<Rightarrow> switch_value \<Rightarrow> net \<Rightarrow> (int \<times> net) option" where
  "send_answer env dev cmd type v n =
     (case nlmsg_new env n of (None, n) \<Rightarrow> Some (ENOMEM, n) | (Some b, n) \<Rightarrow>
      let (hdr, msg) = put_at (ne_room env) (Genl_put cmd False) [] in do {
        (r, n) \<leftarrow> send_value env dev type v b (put_buf b msg n);
        case r of
          Inl err \<Rightarrow> do { n \<leftarrow> nlmsg_free b n; Some (if err = 0 then ENOMEM else err, n) }
        | Inr b' \<Rightarrow>
            if hdr = None \<or> b' \<noteq> b then None
            else case bufs n b of
              None \<Rightarrow> None
            | Some msg \<Rightarrow> genlmsg_reply env b (put_buf b (msg @ [Genl_end]) n)
      })"

definition get_attr_dev :: "'c switch_dev \<Rightarrow> genl_info \<Rightarrow> ('c, switch_val_type \<times> switch_value) drv" where
  "get_attr_dev dev info =
     (case swconfig_lookup_attr dev info of None \<Rightarrow> derr EINVAL | Some (attr, port_vlan) \<Rightarrow>
      case at_get attr of None \<Rightarrow> derr EINVAL | Some f \<Rightarrow>
      dbind (f \<lparr>sv_port_vlan = port_vlan, sv_value = V_zero\<rparr>) (\<lambda>v. dret (at_type attr, v)))"

definition swconfig_get_attr :: "net_env \<Rightarrow> genl_info \<Rightarrow> 'c swcfg \<Rightarrow> net \<Rightarrow> (int \<times> 'c swcfg \<times> net) option" where
  "swconfig_get_attr env info s n =
     (case swconfig_get_dev s info of None \<Rightarrow> Some (EINVAL, s, n) | Some k \<Rightarrow>
      case call_driver k (get_attr_dev (swdevs s ! k) info) s of
        (Inl err, s) \<Rightarrow> Some (err, s, n)
      | (Inr (type, v), s) \<Rightarrow> do {
          (err, n) \<leftarrow> send_answer env (swdevs s ! k) (nl_cmd info) type v n;
          Some (err, s, n)
        })"

section \<open>The list of switches\<close>

text \<open>A port for whose nest there is no room is left out.\<close>

fun portmap_loop :: "nat \<Rightarrow> (string option \<times> u32) list \<Rightarrow> skb \<Rightarrow> bool \<times> skb" where
  "portmap_loop room [] msg = (True, msg)"
| "portmap_loop room ((s, virt) # ports) msg =
     (case put_at room (Nest_start SWITCH_ATTR_PORTS) msg of
        (None, msg) \<Rightarrow> portmap_loop room ports msg
      | (Some _, msg) \<Rightarrow>
          (case nla_puts room
             (case s of None \<Rightarrow> [] | Some s \<Rightarrow> [Put_string SWITCH_PORTMAP_SEGMENT s, Put_u32 SWITCH_PORTMAP_VIRT virt]) msg of
             (True, msg) \<Rightarrow> portmap_loop room ports (msg @ [Nest_end])
           | (False, msg) \<Rightarrow> (False, msg)))"

definition switch_parts :: "'c switch_dev \<Rightarrow> string \<Rightarrow> part list" where
  "switch_parts dev alias =
     [Put_u32 SWITCH_ATTR_ID (sd_id dev), Put_string SWITCH_ATTR_DEV_NAME (sd_devname dev),
      Put_string SWITCH_ATTR_ALIAS alias, Put_string SWITCH_ATTR_NAME (sd_name dev),
      Put_u32 SWITCH_ATTR_VLANS (sd_vlans dev), Put_u32 SWITCH_ATTR_PORTS (sd_ports dev),
      Put_u32 SWITCH_ATTR_CPU_PORT (sd_cpu_port dev), Nest_start SWITCH_ATTR_PORTMAP]"

definition swconfig_send_switch :: "nat \<Rightarrow> 'c switch_dev \<Rightarrow> skb \<Rightarrow> (bool \<times> skb) option" where
  "swconfig_send_switch room dev msg =
     (case sd_alias dev of None \<Rightarrow> None | Some alias \<Rightarrow>
      let (hdr, msg) = put_at room (Genl_put SWITCH_CMD_NEW_ATTR True) msg;
          (ok, msg) = nla_puts room (switch_parts dev alias) msg;
          (ok, msg) = (if ok then portmap_loop room (sd_portmap dev) msg else (False, msg))
      in if ok then (case hdr of None \<Rightarrow> None | Some _ \<Rightarrow> Some (True, msg @ [Nest_end, Genl_end]))
         else Some (False, case hdr of None \<Rightarrow> msg | Some p \<Rightarrow> take p msg))"

text \<open>\<open>idx\<close> is counted up before a switch is put.\<close>

fun dump_loop :: "nat \<Rightarrow> nat \<Rightarrow> nat \<Rightarrow> 'c switch_dev list \<Rightarrow> skb \<Rightarrow> (nat \<times> skb) option" where
  "dump_loop room start idx [] skb = Some (idx, skb)"
| "dump_loop room start idx (dev # devs) skb =
     (let idx = idx + 1 in
      if idx \<le> start then dump_loop room start idx devs skb
      else do {
        (ok, skb) \<leftarrow> swconfig_send_switch room dev skb;
        if ok then dump_loop room start idx devs skb else Some (idx, skb)
      })"

text \<open>One call for an empty buffer: the message and the place where the next call goes on.\<close>

definition swconfig_dump_switches :: "nat \<Rightarrow> nat \<Rightarrow> 'c swcfg \<Rightarrow> (nat \<times> skb) option" where
  "swconfig_dump_switches room start s = dump_loop room start 0 (swdevs s) []"

end
