(* ===== verification/Libnl.thy ===== *)
theory Libnl
  imports Swconfig_Netlink
begin

text \<open>
  Netlink as seen from user space (\<open>src/openwrt/package/libs/libnl-tiny/src\<close>): the attributes in a
  message, tables of attributes, messages that are built, the loop that receives an answer, and the
  numbers of errors.  Bytes of an attribute are not modelled; a pointer to an attribute is the
  attribute.  \<open>None\<close> is what C leaves undefined.
\<close>

section \<open>Attributes\<close>

datatype nla =
    N_u32 nl_attr u32 | N_string nl_attr string | N_flag nl_attr | N_type nl_attr switch_val_type
  | N_nest nl_attr "nla list"

fun nla_type :: "nla \<Rightarrow> nl_attr" where
  "nla_type (N_u32 a v) = a"
| "nla_type (N_string a s) = a"
| "nla_type (N_flag a) = a"
| "nla_type (N_type a t) = a"
| "nla_type (N_nest a as) = a"

text \<open>The readers of a payload.\<close>

fun nla_get_u32 :: "nla \<Rightarrow> u32 option" where
  "nla_get_u32 (N_u32 a v) = Some v"
| "nla_get_u32 _ = None"

fun nla_get_string :: "nla \<Rightarrow> string option" where
  "nla_get_string (N_string a s) = Some s"
| "nla_get_string _ = None"

fun nla_get_type :: "nla \<Rightarrow> switch_val_type option" where
  "nla_get_type (N_type a t) = Some t"
| "nla_get_type _ = None"

fun nla_nested :: "nla \<Rightarrow> nla list option" where
  "nla_nested (N_nest a as) = Some as"
| "nla_nested (N_flag a) = Some []"
| "nla_nested _ = None"

section \<open>Tables of attributes\<close>

text \<open>The last attribute of a type is the one in the table.\<close>

type_synonym nla_table = "nl_attr \<Rightarrow> nla option"

definition nla_parse :: "nla list \<Rightarrow> nla_table" where
  "nla_parse as a = List.find (\<lambda>x. nla_type x = a) (rev as)"

text \<open>
  \<open>validate_nla\<close>.  Whether a payload that is no string ends with a zero byte is not modelled.
\<close>

datatype nla_policy = NLA_UNSPEC | NLA_U32 | NLA_STRING | NLA_FLAG

fun nla_len :: "nla \<Rightarrow> nat" where
  "nla_len (N_u32 a v) = 4"
| "nla_len (N_type a t) = 4"
| "nla_len (N_string a s) = length s + 1"
| "nla_len (N_flag a) = 0"
| "nla_len (N_nest a as) = sum_list (map (\<lambda>x. align4 (4 + nla_len x)) as)"

definition validate_nla :: "nla_policy \<Rightarrow> nla \<Rightarrow> bool option" where
  "validate_nla p x =
     (case p of
        NLA_UNSPEC \<Rightarrow> Some True
      | NLA_U32 \<Rightarrow> Some (4 \<le> nla_len x)
      | NLA_FLAG \<Rightarrow> Some (nla_len x = 0)
      | NLA_STRING \<Rightarrow> if nla_len x = 0 then Some False else if nla_get_string x \<noteq> None then Some True else None)"

text \<open>The table, or the first attribute that is refused.\<close>

fun validate_all :: "(nl_attr \<Rightarrow> nla_policy) \<Rightarrow> nla list \<Rightarrow> bool option" where
  "validate_all policy [] = Some True"
| "validate_all policy (x # xs) = do {
     ok \<leftarrow> validate_nla (policy (nla_type x)) x;
     if ok then validate_all policy xs else Some False
   }"

definition nla_parse_nested :: "(nl_attr \<Rightarrow> nla_policy) \<Rightarrow> nla \<Rightarrow> nla_table option option" where
  "nla_parse_nested policy x = do {
     as \<leftarrow> nla_nested x;
     ok \<leftarrow> validate_all policy as;
     Some (if ok then Some (nla_parse as) else None)
   }"

section \<open>Messages\<close>

text \<open>
  The messages in a buffer: whether a message is one of several, and its attributes.  What does not
  start with a header ends the loop over the buffer; a message without its end has no length.
\<close>

fun nlmsgs :: "skb \<Rightarrow> (bool \<times> nla list) list option"
and nlmsg_attrs :: "bool \<Rightarrow> (nl_attr \<times> nla list) list \<Rightarrow> nla list \<Rightarrow> skb \<Rightarrow> (bool \<times> nla list) list option" where
  "nlmsgs [] = Some []"
| "nlmsgs (p # ps) = (case p of Genl_put c multi \<Rightarrow> nlmsg_attrs multi [] [] ps | _ \<Rightarrow> Some [])"
| "nlmsg_attrs multi st as [] = None"
| "nlmsg_attrs multi st as (p # ps) =
     (case p of
        Genl_put c m \<Rightarrow> None
      | Put_u32 a v \<Rightarrow> nlmsg_attrs multi st (as @ [N_u32 a v]) ps
      | Put_string a s \<Rightarrow> nlmsg_attrs multi st (as @ [N_string a s]) ps
      | Put_flag a \<Rightarrow> nlmsg_attrs multi st (as @ [N_flag a]) ps
      | Put_type a t \<Rightarrow> nlmsg_attrs multi st (as @ [N_type a t]) ps
      | Nest_start a \<Rightarrow> nlmsg_attrs multi ((a, as) # st) [] ps
      | Nest_end \<Rightarrow> (case st of [] \<Rightarrow> None | (a, bs) # st \<Rightarrow> nlmsg_attrs multi st (bs @ [N_nest a as]) ps)
      | Genl_end \<Rightarrow> if st = [] then map_option (Cons (multi, as)) (nlmsgs ps) else None)"

text \<open>
  \<open>nla_reserve\<close>: the length of the message is counted twice against the size of the buffer.  Ending
  a nest takes no room.
\<close>

definition nm_size :: nat where "nm_size = 4096"

definition nla_reserve :: "part \<Rightarrow> skb \<Rightarrow> skb option" where
  "nla_reserve p msg =
     (if p \<noteq> Nest_end \<and> nm_size < skb_len msg + part_size p + skb_len msg then None else Some (msg @ [p]))"

fun nla_put_all :: "part list \<Rightarrow> skb \<Rightarrow> skb option" where
  "nla_put_all [] msg = Some msg"
| "nla_put_all (p # ps) msg = Option.bind (nla_reserve p msg) (nla_put_all ps)"

section \<open>Errors\<close>

definition NLE_FAILURE :: int where "NLE_FAILURE = 1"
definition NLE_INTR :: int where "NLE_INTR = 2"
definition NLE_BAD_SOCK :: int where "NLE_BAD_SOCK = 3"
definition NLE_AGAIN :: int where "NLE_AGAIN = 4"
definition NLE_NOMEM :: int where "NLE_NOMEM = 5"
definition NLE_EXIST :: int where "NLE_EXIST = 6"
definition NLE_INVAL :: int where "NLE_INVAL = 7"
definition NLE_RANGE :: int where "NLE_RANGE = 8"
definition NLE_OPNOTSUPP :: int where "NLE_OPNOTSUPP = 10"
definition NLE_OBJ_NOTFOUND :: int where "NLE_OBJ_NOTFOUND = 12"
definition NLE_BUSY :: int where "NLE_BUSY = 25"
definition NLE_NOADDR :: int where "NLE_NOADDR = 19"
definition NLE_AF_NOSUPPORT :: int where "NLE_AF_NOSUPPORT = 11"
definition NLE_PROTO_MISMATCH :: int where "NLE_PROTO_MISMATCH = 26"
definition NLE_NOACCESS :: int where "NLE_NOACCESS = 27"
definition NLE_PERM :: int where "NLE_PERM = 28"
definition NLE_NODEV :: int where "NLE_NODEV = 31"

lemmas nle_numbers = NLE_FAILURE_def NLE_INTR_def NLE_BAD_SOCK_def NLE_AGAIN_def NLE_NOMEM_def NLE_EXIST_def
  NLE_INVAL_def NLE_RANGE_def NLE_OPNOTSUPP_def NLE_OBJ_NOTFOUND_def NLE_BUSY_def NLE_NOADDR_def
  NLE_AF_NOSUPPORT_def NLE_PROTO_MISMATCH_def NLE_NOACCESS_def NLE_PERM_def NLE_NODEV_def

text \<open>The numbers of Linux are those of most architectures.\<close>

definition nl_syserr2nlerr :: "int \<Rightarrow> int" where
  "nl_syserr2nlerr err =
     (let e = \<bar>err\<bar> in
      if e = 9 then NLE_BAD_SOCK
      else if e = 98 then NLE_EXIST
      else if e = 17 then NLE_EXIST
      else if e = 99 then NLE_NOADDR
      else if e = 3 \<or> e = 2 then NLE_OBJ_NOTFOUND
      else if e = 4 then NLE_INTR
      else if e = 11 then NLE_AGAIN
      else if e = 88 then NLE_BAD_SOCK
      else if e = 92 then NLE_INVAL
      else if e = 14 then NLE_INVAL
      else if e = 13 then NLE_NOACCESS
      else if e = 22 then NLE_INVAL
      else if e = 105 then NLE_NOMEM
      else if e = 12 then NLE_NOMEM
      else if e = 97 then NLE_AF_NOSUPPORT
      else if e = 93 then NLE_PROTO_MISMATCH
      else if e = 95 then NLE_OPNOTSUPP
      else if e = 1 then NLE_PERM
      else if e = 16 then NLE_BUSY
      else if e = 34 then NLE_RANGE
      else if e = 19 then NLE_NODEV
      else NLE_FAILURE)"

section \<open>Receiving\<close>

text \<open>
  The answer to a request is some buffers and the number the kernel ends with: 0 for an
  acknowledgement or the end of a list, or an error.  \<open>call\<close> is the callback for a valid message; it
  changes the value behind its argument, and both results it can have let the loop go on.
\<close>

type_synonym 'v callback_fun = "nla list \<Rightarrow> 'v \<Rightarrow> 'v option"

fun deliver :: "'v callback_fun \<Rightarrow> (bool \<times> nla list) list \<Rightarrow> bool \<Rightarrow> 'v \<Rightarrow> (bool \<times> 'v) option" where
  "deliver call [] multipart v = Some (multipart, v)"
| "deliver call ((multi, as) # msgs) multipart v = do {
     v \<leftarrow> call as v;
     deliver call msgs (multipart \<or> multi) v
   }"

text \<open>
  \<open>recvmsgs\<close> reads the next buffer only after a message of several, so that the acknowledgement of any
  other answer is read by \<open>nl_wait_for_ack\<close>; the kernel sends one message then, and what a second
  one would do is not modelled.
\<close>

fun nl_recvmsgs :: "'v callback_fun \<Rightarrow> skb list \<Rightarrow> int \<Rightarrow> bool \<Rightarrow> 'v \<Rightarrow> (int \<times> 'v) option" where
  "nl_recvmsgs call [] err multipart v = Some (if err = 0 then 0 else - nl_syserr2nlerr err, v)"
| "nl_recvmsgs call (b # bs) err multipart v = do {
     msgs \<leftarrow> nlmsgs b;
     (multipart, v) \<leftarrow> deliver call msgs multipart v;
     if multipart \<or> bs = [] then nl_recvmsgs call bs err multipart v else None
   }"

end
