(* ===== verification/Swlib.thy ===== *)
theory Swlib
  imports Libnl
begin

text \<open>
  The library of the switch configuration in user space
  (\<open>src/openwrt/package/network/config/swconfig/src/swlib.c\<close>, \<open>swlib.h\<close>): finding switches, reading
  the lists of their attributes, and getting and setting attributes through netlink.

  The kernel is a state of type \<open>'k\<close> with the table \<open>'k kern\<close> of what it answers.  Allocations of
  the process succeed.  \<open>None\<close> is what C leaves undefined.
\<close>

section \<open>Data\<close>

text \<open>\<open>struct switch_port\<close> (its flags only the one for tagged frames), \<open>struct switch_port_link\<close>.\<close>

record swl_port =
  up_id :: u32
  up_tagged :: bool

record swl_link =
  ul_link :: bool
  ul_duplex :: bool
  ul_aneg :: bool
  ul_tx_flow :: bool
  ul_rx_flow :: bool
  ul_speed :: u32
  ul_eee :: u32

definition swl_link_zero :: swl_link where
  "swl_link_zero = \<lparr>ul_link = False, ul_duplex = False, ul_aneg = False, ul_tx_flow = False, ul_rx_flow = False,
     ul_speed = 0, ul_eee = 0\<rparr>"

definition SWLIB_LINK_FLAG_EEE_100BASET :: u32 where "SWLIB_LINK_FLAG_EEE_100BASET = 1"
definition SWLIB_LINK_FLAG_EEE_1000BASET :: u32 where "SWLIB_LINK_FLAG_EEE_1000BASET = 2"

datatype swlib_attr_group = SWLIB_ATTR_GROUP_GLOBAL | SWLIB_ATTR_GROUP_VLAN | SWLIB_ATTR_GROUP_PORT

text \<open>\<open>struct switch_attr\<close>; a list of them is a list, and \<open>dev\<close> is the device that has the list.\<close>

record swl_attr =
  ua_atype :: swlib_attr_group
  ua_id :: u32
  ua_type :: switch_val_type
  ua_name :: "string option"
  ua_description :: "string option"

record swl_dev =
  ud_id :: u32
  ud_dev_name :: string
  ud_name :: "string option"
  ud_alias :: string
  ud_ports :: int
  ud_vlans :: int
  ud_cpu_port :: int
  ud_ops :: "swl_attr list"
  ud_port_ops :: "swl_attr list"
  ud_vlan_ops :: "swl_attr list"
  ud_maps :: "(string option \<times> u32) list option"

text \<open>
  The union \<open>value\<close> of \<open>struct switch_val\<close>: cleared, or its member that was set.  The member \<open>len\<close>
  counts the ports.
\<close>

datatype swl_value = W_zero | W_str string | W_int u32 | W_ports "swl_port list" | W_link swl_link

fun w_ports :: "swl_value \<Rightarrow> swl_port list" where
  "w_ports (W_ports ps) = ps"
| "w_ports _ = []"

record swl_val =
  uv_err :: int
  uv_port_vlan :: int
  uv_value :: swl_value

section \<open>The kernel and the process\<close>

record 'k kern =
  k_family :: bool         \<comment> \<open>whether the socket connects and has the family \<open>switch\<close>\<close>
  k_doit :: "switch_cmd \<Rightarrow> nla list \<Rightarrow> 'k \<Rightarrow> (int \<times> skb list \<times> 'k) option"
  k_dump :: "switch_cmd \<Rightarrow> 'k \<Rightarrow> (int \<times> skb list \<times> 'k) option"

text \<open>The global variables: whether there is a socket, and \<open>refcount\<close>; and what was printed.\<close>

record 'k sw =
  sw_kernel :: 'k
  sw_handle :: bool
  sw_refcount :: int
  sw_out :: string

definition sw_print :: "string \<Rightarrow> 'k sw \<Rightarrow> 'k sw" where
  "sw_print t s = s\<lparr>sw_out := sw_out s @ t\<rparr>"

text \<open>
  \<open>swlib_call\<close> for a request with attributes, and for a list without.  When the attributes do not fit
  the result is a variable that was never set.
\<close>

definition swlib_call ::
  "'k kern \<Rightarrow> switch_cmd \<Rightarrow> 'v callback_fun \<Rightarrow> part list option \<Rightarrow> 'v \<Rightarrow> 'k sw \<Rightarrow> (int \<times> 'v \<times> 'k sw) option" where
  "swlib_call kern cmd call data v s =
     (if \<not> sw_handle s then None
      else do {
        parts \<leftarrow> data;
        msg \<leftarrow> nla_put_all parts [Genl_put cmd False];
        msgs \<leftarrow> nlmsgs (msg @ [Genl_end]);
        (err, bs, k) \<leftarrow> k_doit kern cmd (snd (hd msgs)) (sw_kernel s);
        (ret, v) \<leftarrow> nl_recvmsgs call bs err False v;
        Some (ret, v, s\<lparr>sw_kernel := k\<rparr>)
      })"

definition swlib_dump ::
  "'k kern \<Rightarrow> switch_cmd \<Rightarrow> 'v callback_fun \<Rightarrow> 'v \<Rightarrow> 'k sw \<Rightarrow> (int \<times> 'v \<times> 'k sw) option" where
  "swlib_dump kern cmd call v s =
     (if \<not> sw_handle s then None
      else do {
        (err, bs, k) \<leftarrow> k_dump kern cmd (sw_kernel s);
        (ret, v) \<leftarrow> nl_recvmsgs call bs err False v;
        Some (ret, v, s\<lparr>sw_kernel := k\<rparr>)
      })"

section \<open>Getting an attribute\<close>

definition send_attr :: "swl_dev \<Rightarrow> swl_attr \<Rightarrow> int \<Rightarrow> part list" where
  "send_attr dev a port_vlan =
     [Put_u32 SWITCH_ATTR_ID (ud_id dev), Put_u32 SWITCH_ATTR_OP_ID (ua_id a)] @
     (case ua_atype a of
        SWLIB_ATTR_GROUP_PORT \<Rightarrow> [Put_u32 SWITCH_ATTR_OP_PORT (word_of_int port_vlan)]
      | SWLIB_ATTR_GROUP_VLAN \<Rightarrow> [Put_u32 SWITCH_ATTR_OP_VLAN (word_of_int port_vlan)]
      | _ \<Rightarrow> [])"

fun port_policy :: "nl_attr \<Rightarrow> nla_policy" where
  "port_policy SWITCH_PORT_ID = NLA_U32"
| "port_policy SWITCH_PORT_FLAG_TAGGED = NLA_FLAG"
| "port_policy _ = NLA_UNSPEC"

fun portmap_policy :: "nl_attr \<Rightarrow> nla_policy" where
  "portmap_policy SWITCH_PORTMAP_SEGMENT = NLA_STRING"
| "portmap_policy SWITCH_PORTMAP_VIRT = NLA_U32"
| "portmap_policy _ = NLA_UNSPEC"

fun swl_link_policy :: "nl_attr \<Rightarrow> nla_policy" where
  "swl_link_policy SWITCH_LINK_FLAG_LINK = NLA_FLAG"
| "swl_link_policy SWITCH_LINK_FLAG_DUPLEX = NLA_FLAG"
| "swl_link_policy SWITCH_LINK_FLAG_ANEG = NLA_FLAG"
| "swl_link_policy SWITCH_LINK_SPEED = NLA_U32"
| "swl_link_policy SWITCH_LINK_FLAG_EEE_100BASET = NLA_FLAG"
| "swl_link_policy SWITCH_LINK_FLAG_EEE_1000BASET = NLA_FLAG"
| "swl_link_policy _ = NLA_UNSPEC"

text \<open>The ports that are there already, and those of a nest, at most as many as the device has.\<close>

fun store_port_val :: "swl_dev \<Rightarrow> nla list \<Rightarrow> int \<Rightarrow> swl_port list \<Rightarrow> (int \<times> swl_port list) option" where
  "store_port_val dev [] err ports = Some (err, ports)"
| "store_port_val dev (p # ps) err ports =
     (if int (length ports) \<ge> ud_ports dev then Some (err, ports)
      else do {
        tb \<leftarrow> nla_parse_nested port_policy p;
        case tb of
          None \<Rightarrow> Some (- NLE_RANGE, ports)
        | Some tb \<Rightarrow>
            (case tb SWITCH_PORT_ID of
               None \<Rightarrow> store_port_val dev ps 0 ports
             | Some x \<Rightarrow> do {
                 i \<leftarrow> nla_get_u32 x;
                 store_port_val dev ps 0 (ports @ [\<lparr>up_id = i, up_tagged = (tb SWITCH_PORT_FLAG_TAGGED \<noteq> None)\<rparr>])
               })
      })"

text \<open>The speed is read without a look whether it is there.\<close>

definition store_link_val :: "nla \<Rightarrow> swl_link option \<Rightarrow> (int \<times> swl_link option) option" where
  "store_link_val x old = do {
     tb \<leftarrow> nla_parse_nested swl_link_policy x;
     case tb of
       None \<Rightarrow> Some (- NLE_RANGE, old)
     | Some tb \<Rightarrow> do {
         y \<leftarrow> tb SWITCH_LINK_SPEED;
         speed \<leftarrow> nla_get_u32 y;
         Some (0, Some
           \<lparr>ul_link = (tb SWITCH_LINK_FLAG_LINK \<noteq> None), ul_duplex = (tb SWITCH_LINK_FLAG_DUPLEX \<noteq> None),
            ul_aneg = (tb SWITCH_LINK_FLAG_ANEG \<noteq> None), ul_tx_flow = (tb SWITCH_LINK_FLAG_TX_FLOW \<noteq> None),
            ul_rx_flow = (tb SWITCH_LINK_FLAG_RX_FLOW \<noteq> None), ul_speed = speed,
            ul_eee = (if tb SWITCH_LINK_FLAG_EEE_100BASET \<noteq> None then SWLIB_LINK_FLAG_EEE_100BASET else 0) OR
                     (if tb SWITCH_LINK_FLAG_EEE_1000BASET \<noteq> None then SWLIB_LINK_FLAG_EEE_1000BASET else 0)\<rparr>)
       }
   }"

text \<open>The pointers in the union; the bytes of another value are none.\<close>

definition value_ports_ptr :: "swl_value \<Rightarrow> swl_port list option" where
  "value_ports_ptr v = (case v of W_zero \<Rightarrow> Some [] | W_ports ps \<Rightarrow> Some ps | _ \<Rightarrow> None)"

definition value_link_ptr :: "swl_value \<Rightarrow> swl_link option option" where
  "value_link_ptr v = (case v of W_zero \<Rightarrow> Some None | W_link l \<Rightarrow> Some (Some l) | _ \<Rightarrow> None)"

text \<open>
  The value of a message.  A list of ports goes behind the ports that an earlier message has
  brought.  The error of the two functions above is overwritten with 0; a link that was allocated
  and not written is not a value.
\<close>

definition store_val :: "swl_dev \<Rightarrow> swl_val callback_fun" where
  "store_val dev as val =
     (let tb = nla_parse as in
      case tb SWITCH_ATTR_OP_VALUE_INT of
        Some x \<Rightarrow> do { i \<leftarrow> nla_get_u32 x; Some (val\<lparr>uv_value := W_int i, uv_err := 0\<rparr>) }
      | None \<Rightarrow>
      (case tb SWITCH_ATTR_OP_VALUE_STR of
        Some x \<Rightarrow> do { t \<leftarrow> nla_get_string x; Some (val\<lparr>uv_value := W_str t, uv_err := 0\<rparr>) }
      | None \<Rightarrow>
      (case tb SWITCH_ATTR_OP_VALUE_PORTS of
        Some x \<Rightarrow> do {
          ps \<leftarrow> nla_nested x;
          old \<leftarrow> value_ports_ptr (uv_value val);
          (_, ports) \<leftarrow> store_port_val dev ps 0 old;
          Some (val\<lparr>uv_value := W_ports ports, uv_err := 0\<rparr>)
        }
      | None \<Rightarrow>
      (case tb SWITCH_ATTR_OP_VALUE_LINK of
        Some x \<Rightarrow> do {
          old \<leftarrow> value_link_ptr (uv_value val);
          (_, link) \<leftarrow> store_link_val x old;
          l \<leftarrow> link;
          Some (val\<lparr>uv_value := W_link l, uv_err := 0\<rparr>)
        }
      | None \<Rightarrow> Some (val\<lparr>uv_err := 0\<rparr>)))))"

definition get_cmd :: "swlib_attr_group \<Rightarrow> switch_cmd" where
  "get_cmd g = (case g of SWLIB_ATTR_GROUP_GLOBAL \<Rightarrow> SWITCH_CMD_GET_GLOBAL | SWLIB_ATTR_GROUP_PORT \<Rightarrow> SWITCH_CMD_GET_PORT
     | SWLIB_ATTR_GROUP_VLAN \<Rightarrow> SWITCH_CMD_GET_VLAN)"

definition set_cmd :: "swlib_attr_group \<Rightarrow> switch_cmd" where
  "set_cmd g = (case g of SWLIB_ATTR_GROUP_GLOBAL \<Rightarrow> SWITCH_CMD_SET_GLOBAL | SWLIB_ATTR_GROUP_PORT \<Rightarrow> SWITCH_CMD_SET_PORT
     | SWLIB_ATTR_GROUP_VLAN \<Rightarrow> SWITCH_CMD_SET_VLAN)"

definition swlib_get_attr ::
  "'k kern \<Rightarrow> swl_dev \<Rightarrow> swl_attr \<Rightarrow> swl_val \<Rightarrow> 'k sw \<Rightarrow> (int \<times> swl_val \<times> 'k sw) option" where
  "swlib_get_attr kern dev a val s = do {
     (err, val, s) \<leftarrow> swlib_call kern (get_cmd (ua_atype a)) (store_val dev) (Some (send_attr dev a (uv_port_vlan val)))
       (val\<lparr>uv_value := W_zero, uv_err := EINVAL\<rparr>) s;
     Some (if err = 0 then uv_err val else err, val, s)
   }"

section \<open>Setting an attribute\<close>

definition send_attr_ports :: "swl_port list \<Rightarrow> part list" where
  "send_attr_ports ports =
     (if ports = [] then []
      else Nest_start SWITCH_ATTR_OP_VALUE_PORTS #
        concat (map (\<lambda>port. [Nest_start SWITCH_ATTR_PORT, Put_u32 SWITCH_PORT_ID (up_id port)] @
          (if up_tagged port then [Put_flag SWITCH_PORT_FLAG_TAGGED] else []) @ [Nest_end]) ports) @ [Nest_end])"

definition send_attr_link :: "swl_link \<Rightarrow> part list" where
  "send_attr_link link =
     [Nest_start SWITCH_ATTR_OP_VALUE_LINK] @ (if ul_duplex link then [Put_flag SWITCH_LINK_FLAG_DUPLEX] else []) @
     (if ul_aneg link then [Put_flag SWITCH_LINK_FLAG_ANEG] else []) @
     [Put_u32 SWITCH_LINK_SPEED (ul_speed link), Nest_end]"

text \<open>
  What \<open>send_attr_val\<close> puts; \<open>None\<close> is its failure.  A cleared value is 0, no string and no ports;
  a cleared pointer to a link is read, and so is a member of the union that was not set, which is
  \<open>None\<close> as well.
\<close>

definition send_attr_val :: "swl_dev \<Rightarrow> swl_attr \<Rightarrow> swl_val \<Rightarrow> part list option" where
  "send_attr_val dev a val =
     map_option (append (send_attr dev a (uv_port_vlan val)))
       (case (ua_type a, uv_value val) of
          (SWITCH_TYPE_NOVAL, _) \<Rightarrow> Some []
        | (SWITCH_TYPE_INT, W_int i) \<Rightarrow> Some [Put_u32 SWITCH_ATTR_OP_VALUE_INT i]
        | (SWITCH_TYPE_INT, W_zero) \<Rightarrow> Some [Put_u32 SWITCH_ATTR_OP_VALUE_INT 0]
        | (SWITCH_TYPE_STRING, W_str t) \<Rightarrow> Some [Put_string SWITCH_ATTR_OP_VALUE_STR t]
        | (SWITCH_TYPE_PORTS, W_ports ports) \<Rightarrow> Some (send_attr_ports ports)
        | (SWITCH_TYPE_PORTS, W_zero) \<Rightarrow> Some []
        | (SWITCH_TYPE_LINK, W_link link) \<Rightarrow> Some (send_attr_link link)
        | _ \<Rightarrow> None)"

definition swlib_set_attr :: "'k kern \<Rightarrow> swl_dev \<Rightarrow> swl_attr \<Rightarrow> swl_val \<Rightarrow> 'k sw \<Rightarrow> (int \<times> 'k sw) option" where
  "swlib_set_attr kern dev a val s = do {
     (err, _, s) \<leftarrow> swlib_call kern (set_cmd (ua_atype a)) (\<lambda>as v. Some v) (send_attr_val dev a val) () s;
     Some (err, s)
   }"

section \<open>Values as text\<close>

text \<open>
  The loop over the flags behind the number of a port: whether there was a \<open>t\<close>, and the rest.
  \<open>None\<close> is the return of -1.
\<close>

fun port_flags :: "bool \<Rightarrow> string \<Rightarrow> (bool \<times> string) option" where
  "port_flags tagged [] = Some (tagged, [])"
| "port_flags tagged (c # cs) =
     (if isspace c then Some (tagged, c # cs)
      else if c = CHR ''t'' then port_flags True cs
      else None)"

lemma port_flags_length: "port_flags tagged s = Some (t, r) \<Longrightarrow> length r \<le> length s"
  by (induction tagged s rule: port_flags.induct) (auto split: if_splits)

lemma strtoul_shortens: "s \<noteq> [] \<Longrightarrow> isdigit (hd s) \<Longrightarrow> strtoul umax 10 s = (n, r, e) \<Longrightarrow> length r < length s"
proof -
  assume s: "s \<noteq> []" "isdigit (hd s)" "strtoul umax 10 s = (n, r, e)"
  obtain c cs where c: "s = c # cs" "isdigit c" using s(1,2) by (cases s) auto
  have sp: "\<not> isspace c" "c \<noteq> CHR ''-''" "c \<noteq> CHR ''+''"
    using c(2) by (auto simp: isdigit_def isspace_def Let_def)
  have "takeWhile (digit_in 10) s \<noteq> []" using c by (simp add: digit_in_10)
  then show ?thesis using s(3) c sp
    by (auto simp: strtoul_def strip_sign_def strip_base_def Let_def split: if_splits)
qed

text \<open>
  The loop over a list of ports.  The number is an \<open>unsigned long\<close> of at most \<open>umax\<close> that is stored
  into 32 bits.
\<close>

function parse_ports :: "nat \<Rightarrow> int \<Rightarrow> swl_port list \<Rightarrow> string \<Rightarrow> swl_port list option" where
  "parse_ports umax limit ports str =
     (let ptr = dropWhile isspace str in
      if ptr = [] then Some ports
      else if \<not> isdigit (hd ptr) then None
      else if int (length ports) \<ge> limit then None
      else let (n, ptr, _) = strtoul umax 10 ptr in
        case port_flags False ptr of
          None \<Rightarrow> None
        | Some (tagged, ptr) \<Rightarrow>
            parse_ports umax limit (ports @ [\<lparr>up_id = word_of_nat n, up_tagged = tagged\<rparr>]) (drop 1 ptr))"
  by pat_completeness auto

termination
proof (relation "measure (\<lambda>(umax, limit, ports, s). length s)", goal_cases)
  case 1
  show ?case by simp
next
  case (2 umax limit ports str ptr x n y ptr' e z tagged ptr'')
  have "length ptr'' \<le> length ptr'" using 2 port_flags_length by auto
  also have "\<dots> < length ptr" using 2 strtoul_shortens [of ptr umax n ptr' e] by auto
  also have "\<dots> \<le> length str" using 2(1) by (simp add: length_dropWhile_le)
  finally show ?case by simp
qed

declare parse_ports.simps [simp del]

text \<open>\<open>strtok\<close> with blanks: the words.\<close>

function strtok_words :: "string \<Rightarrow> string list" where
  "strtok_words s =
     (let t = dropWhile (\<lambda>c. c = CHR '' '') s in
      if t = [] then [] else takeWhile (\<lambda>c. c \<noteq> CHR '' '') t # strtok_words (dropWhile (\<lambda>c. c \<noteq> CHR '' '') t))"
  by pat_completeness auto
termination
proof (relation "measure length", goal_cases)
  case 1
  show ?case by simp
next
  case (2 s t)
  have "hd t \<noteq> CHR '' ''" using 2 hd_dropWhile [of "\<lambda>c. c = CHR '' ''" s] by simp
  with 2(2) obtain c cs where c: "t = c # cs" "c \<noteq> CHR '' ''" by (cases t) simp_all
  have "length (dropWhile (\<lambda>c. c \<noteq> CHR '' '') t) < length t"
    using c length_dropWhile_le [of "\<lambda>c. c \<noteq> CHR '' ''" cs] by simp
  also have "\<dots> \<le> length s" using 2(1) by (simp add: length_dropWhile_le)
  finally show ?case by simp
qed

declare strtok_words.simps [simp del]

datatype link_cmd = LCMD_NONE | LCMD_DUPLEX | LCMD_ANEG | LCMD_SPEED

text \<open>The loop over the words of a link; words that are not known are skipped with a message.\<close>

fun parse_link :: "link_cmd \<Rightarrow> swl_link \<Rightarrow> string list \<Rightarrow> swl_link option" where
  "parse_link cmd link [] = Some link"
| "parse_link LCMD_NONE link (w # ws) =
     parse_link (if w = ''duplex'' then LCMD_DUPLEX else if w = ''autoneg'' then LCMD_ANEG
       else if w = ''speed'' then LCMD_SPEED else LCMD_NONE) link ws"
| "parse_link LCMD_DUPLEX link (w # ws) =
     parse_link LCMD_NONE (if w = ''half'' then link\<lparr>ul_duplex := False\<rparr>
       else if w = ''full'' then link\<lparr>ul_duplex := True\<rparr> else link) ws"
| "parse_link LCMD_ANEG link (w # ws) =
     parse_link LCMD_NONE (if w = ''on'' then link\<lparr>ul_aneg := True\<rparr>
       else if w = ''off'' then link\<lparr>ul_aneg := False\<rparr> else link) ws"
| "parse_link LCMD_SPEED link (w # ws) = do {
     n \<leftarrow> atoi_s32 w;
     parse_link LCMD_NONE (link\<lparr>ul_speed := word_of_int n\<rparr>) ws
   }"

text \<open>
  The \<open>switch\<close> of \<open>swlib_set_attr_string\<close>: the value of a text (\<open>None\<close> is a null pointer), or what is
  returned at once.
\<close>

definition string_value :: "nat \<Rightarrow> swl_dev \<Rightarrow> switch_val_type \<Rightarrow> string option \<Rightarrow> (int + swl_value) option" where
  "string_value umax dev t str =
     (case t of
        SWITCH_TYPE_INT \<Rightarrow> do { w \<leftarrow> str; i \<leftarrow> atoi_s32 w; Some (Inr (W_int (word_of_int i))) }
      | SWITCH_TYPE_STRING \<Rightarrow> Some (Inr (case str of None \<Rightarrow> W_zero | Some w \<Rightarrow> W_str w))
      | SWITCH_TYPE_PORTS \<Rightarrow>
          Some (case str of
            None \<Rightarrow> Inr (W_ports [])
          | Some w \<Rightarrow> (case parse_ports umax (ud_ports dev) [] w of None \<Rightarrow> Inl (-1) | Some ports \<Rightarrow> Inr (W_ports ports)))
      | SWITCH_TYPE_LINK \<Rightarrow> do { w \<leftarrow> str; l \<leftarrow> parse_link LCMD_NONE swl_link_zero (strtok_words w); Some (Inr (W_link l)) }
      | SWITCH_TYPE_NOVAL \<Rightarrow> Some (if str = Some ''0'' then Inl 0 else Inr W_zero)
      | SWITCH_TYPE_UNSPEC \<Rightarrow> Some (Inl (-1)))"

definition swlib_set_attr_string ::
  "nat \<Rightarrow> 'k kern \<Rightarrow> swl_dev \<Rightarrow> swl_attr \<Rightarrow> int \<Rightarrow> string option \<Rightarrow> 'k sw \<Rightarrow> (int \<times> 'k sw) option" where
  "swlib_set_attr_string umax kern dev a port_vlan str s = do {
     v \<leftarrow> string_value umax dev (ua_type a) str;
     case v of
       Inl ret \<Rightarrow> Some (ret, s)
     | Inr value \<Rightarrow> swlib_set_attr kern dev a \<lparr>uv_err = 0, uv_port_vlan = port_vlan, uv_value = value\<rparr> s
   }"

section \<open>The attributes of a switch\<close>

text \<open>
  The loop of \<open>add_attr\<close> over \<open>head\<close> appends to a list: the place \<open>head\<close> points at is the end of the
  list, where \<open>prev\<close> finds a null pointer each time.
\<close>

definition add_attr :: "swlib_attr_group \<Rightarrow> swl_attr list callback_fun" where
  "add_attr atype as l =
     (let tb = nla_parse as in do {
        i \<leftarrow> (case tb SWITCH_ATTR_OP_ID of None \<Rightarrow> Some 0 | Some x \<Rightarrow> nla_get_u32 x);
        t \<leftarrow> (case tb SWITCH_ATTR_OP_TYPE of None \<Rightarrow> Some SWITCH_TYPE_UNSPEC | Some x \<Rightarrow> nla_get_type x);
        name \<leftarrow> (case tb SWITCH_ATTR_OP_NAME of None \<Rightarrow> Some None | Some x \<Rightarrow> map_option Some (nla_get_string x));
        d \<leftarrow> (case tb SWITCH_ATTR_OP_DESCRIPTION of None \<Rightarrow> Some None | Some x \<Rightarrow> map_option Some (nla_get_string x));
        Some (l @ [\<lparr>ua_atype = atype, ua_id = i, ua_type = t, ua_name = name, ua_description = d\<rparr>])
      })"

definition add_id :: "swl_dev \<Rightarrow> part list" where
  "add_id dev = [Put_u32 SWITCH_ATTR_ID (ud_id dev)]"

definition list_attrs ::
  "'k kern \<Rightarrow> swl_dev \<Rightarrow> switch_cmd \<Rightarrow> swlib_attr_group \<Rightarrow> 'k sw \<Rightarrow> (swl_attr list \<times> 'k sw) option" where
  "list_attrs kern dev cmd atype s = do {
     (_, l, s) \<leftarrow> swlib_call kern cmd (add_attr atype) (Some (add_id dev)) [] s;
     Some (l, s)
   }"

definition swlib_scan :: "'k kern \<Rightarrow> swl_dev \<Rightarrow> 'k sw \<Rightarrow> (swl_dev \<times> 'k sw) option" where
  "swlib_scan kern dev s =
     (if ud_ops dev \<noteq> [] \<or> ud_port_ops dev \<noteq> [] \<or> ud_vlan_ops dev \<noteq> [] then Some (dev, s)
      else do {
        (l, s) \<leftarrow> list_attrs kern dev SWITCH_CMD_LIST_GLOBAL SWLIB_ATTR_GROUP_GLOBAL s;
        let dev = dev\<lparr>ud_ops := l\<rparr>;
        (l, s) \<leftarrow> list_attrs kern dev SWITCH_CMD_LIST_PORT SWLIB_ATTR_GROUP_PORT s;
        let dev = dev\<lparr>ud_port_ops := l\<rparr>;
        (l, s) \<leftarrow> list_attrs kern dev SWITCH_CMD_LIST_VLAN SWLIB_ATTR_GROUP_VLAN s;
        Some (dev\<lparr>ud_vlan_ops := l\<rparr>, s)
      })"

text \<open>An attribute without a name is a null pointer that is read.\<close>

fun find_attr :: "string \<Rightarrow> swl_attr list \<Rightarrow> swl_attr option option" where
  "find_attr name [] = Some None"
| "find_attr name (a # as) = do {
     n \<leftarrow> ua_name a;
     if name = n then Some (Some a) else find_attr name as
   }"

definition dev_attrs :: "swl_dev \<Rightarrow> swlib_attr_group \<Rightarrow> swl_attr list" where
  "dev_attrs dev g = (case g of SWLIB_ATTR_GROUP_GLOBAL \<Rightarrow> ud_ops dev | SWLIB_ATTR_GROUP_PORT \<Rightarrow> ud_port_ops dev
     | SWLIB_ATTR_GROUP_VLAN \<Rightarrow> ud_vlan_ops dev)"

definition swlib_lookup_attr :: "swl_dev \<Rightarrow> swlib_attr_group \<Rightarrow> string \<Rightarrow> swl_attr option option" where
  "swlib_lookup_attr dev g name = find_attr name (dev_attrs dev g)"

section \<open>Switches\<close>

text \<open>The loop of \<open>add_port_map\<close>, with the next place \<open>idx\<close>.\<close>

fun port_map_loop :: "int \<Rightarrow> nat \<Rightarrow> (string option \<times> u32) list \<Rightarrow> nla list \<Rightarrow> (string option \<times> u32) list option" where
  "port_map_loop limit idx maps [] = Some maps"
| "port_map_loop limit idx maps (p # ps) =
     (if int idx \<ge> limit then port_map_loop limit idx maps ps
      else do {
        tb \<leftarrow> nla_parse_nested portmap_policy p;
        case tb of
          None \<Rightarrow> port_map_loop limit idx maps ps
        | Some tb \<Rightarrow>
            (case (tb SWITCH_PORTMAP_SEGMENT, tb SWITCH_PORTMAP_VIRT) of
               (Some x, Some y) \<Rightarrow> do {
                 segment \<leftarrow> nla_get_string x;
                 virt \<leftarrow> nla_get_u32 y;
                 port_map_loop limit (idx + 1) (maps[idx := (Some segment, virt)]) ps
               }
             | _ \<Rightarrow> port_map_loop limit (idx + 1) maps ps)
      })"

text \<open>A negative number of ports is a size that is never allocated.\<close>

definition add_port_map :: "int \<Rightarrow> nla list \<Rightarrow> (string option \<times> u32) list option option" where
  "add_port_map ports ps =
     (if ports < 0 then Some None else map_option Some (port_map_loop ports 0 (replicate (nat ports) (None, 0)) ps))"

definition get_s32 :: "nla option \<Rightarrow> int option" where
  "get_s32 x = (case x of None \<Rightarrow> Some 0 | Some x \<Rightarrow> map_option sint (nla_get_u32 x))"

text \<open>A message for a switch; the alias is read without a look whether it is there.\<close>

definition add_switch :: "string option \<Rightarrow> swl_dev list callback_fun" where
  "add_switch filter_name as devs =
     (let tb = nla_parse as in
      case tb SWITCH_ATTR_DEV_NAME of
        None \<Rightarrow> Some devs
      | Some x \<Rightarrow> do {
          name \<leftarrow> nla_get_string x;
          y \<leftarrow> tb SWITCH_ATTR_ALIAS;
          alias \<leftarrow> nla_get_string y;
          if filter_name \<noteq> None \<and> filter_name \<noteq> Some name \<and> filter_name \<noteq> Some alias then Some devs
          else do {
            i \<leftarrow> (case tb SWITCH_ATTR_ID of None \<Rightarrow> Some 0 | Some x \<Rightarrow> nla_get_u32 x);
            dname \<leftarrow> (case tb SWITCH_ATTR_NAME of None \<Rightarrow> Some None | Some x \<Rightarrow> map_option Some (nla_get_string x));
            ports \<leftarrow> get_s32 (tb SWITCH_ATTR_PORTS);
            vlans \<leftarrow> get_s32 (tb SWITCH_ATTR_VLANS);
            cpu_port \<leftarrow> get_s32 (tb SWITCH_ATTR_CPU_PORT);
            maps \<leftarrow> (case tb SWITCH_ATTR_PORTMAP of
                None \<Rightarrow> Some None
              | Some x \<Rightarrow> do { ps \<leftarrow> nla_nested x; add_port_map ports ps });
            Some (devs @ [\<lparr>ud_id = i, ud_dev_name = take 15 name, ud_name = dname, ud_alias = alias, ud_ports = ports,
              ud_vlans = vlans, ud_cpu_port = cpu_port, ud_ops = [], ud_port_ops = [], ud_vlan_ops = [], ud_maps = maps\<rparr>])
          }
        })"

definition swlib_priv_free :: "'k sw \<Rightarrow> 'k sw" where
  "swlib_priv_free s = s\<lparr>sw_handle := False\<rparr>"

definition swlib_priv_init :: "'k kern \<Rightarrow> 'k sw \<Rightarrow> int \<times> 'k sw" where
  "swlib_priv_init kern s = (if k_family kern then (0, s\<lparr>sw_handle := True\<rparr>) else (EINVAL, swlib_priv_free s))"

text \<open>No switch is a null pointer.  Each device counts as a reference to the socket.\<close>

definition swlib_connect :: "'k kern \<Rightarrow> string option \<Rightarrow> 'k sw \<Rightarrow> (swl_dev list \<times> 'k sw) option" where
  "swlib_connect kern name s =
     (let (ret, s) = (if sw_refcount s = 0 then swlib_priv_init kern s else (0, s)) in
      if ret < 0 then Some ([], s)
      else do {
        (_, devs, s) \<leftarrow> swlib_dump kern SWITCH_CMD_GET_SWITCH (add_switch name) [] s;
        let s = s\<lparr>sw_refcount := sw_refcount s + int (length devs)\<rparr>;
        Some (devs, if sw_refcount s = 0 then swlib_priv_free s else s)
      })"

definition swlib_free :: "swl_dev \<Rightarrow> 'k sw \<Rightarrow> 'k sw" where
  "swlib_free dev s =
     (let s = s\<lparr>sw_refcount := sw_refcount s - 1\<rparr> in if sw_refcount s = 0 then swlib_priv_free s else s)"

definition swlib_free_all :: "swl_dev list \<Rightarrow> 'k sw \<Rightarrow> 'k sw" where
  "swlib_free_all devs s = fold swlib_free devs s"

definition list_switch :: "string callback_fun" where
  "list_switch as out =
     (let tb = nla_parse as in
      case (tb SWITCH_ATTR_DEV_NAME, tb SWITCH_ATTR_NAME) of
        (Some x, Some _) \<Rightarrow> do {
          name \<leftarrow> nla_get_string x;
          y \<leftarrow> tb SWITCH_ATTR_ALIAS;
          alias \<leftarrow> nla_get_string y;
          Some (out @ ''Found: '' @ name @ '' - '' @ alias @ [CHR 0x0A])
        }
      | _ \<Rightarrow> Some out)"

definition swlib_list :: "'k kern \<Rightarrow> 'k sw \<Rightarrow> 'k sw option" where
  "swlib_list kern s =
     (let (ret, s) = swlib_priv_init kern s in
      if ret < 0 then Some s
      else do {
        (_, out, s) \<leftarrow> swlib_dump kern SWITCH_CMD_GET_SWITCH list_switch [] s;
        Some (swlib_priv_free (sw_print out s))
      })"

text \<open>The port map; the ports of a segment, or all ports.\<close>

fun ports_text :: "((string option \<times> u32) \<Rightarrow> bool) \<Rightarrow> nat \<Rightarrow> (string option \<times> u32) list \<Rightarrow> string" where
  "ports_text f i [] = []"
| "ports_text f i (m # ms) = (if f m then show_nat i @ '' '' else []) @ ports_text f (i + 1) ms"

fun portmap_lines :: "int \<Rightarrow> nat \<Rightarrow> (string option \<times> u32) list \<Rightarrow> string" where
  "portmap_lines cpu i [] = []"
| "portmap_lines cpu i (m # ms) =
     ''port'' @ show_nat i @ '':'' @ [CHR 0x09] @
     (if int i = cpu then ''cpu''
      else case fst m of
        Some segment \<Rightarrow> segment @ ''.'' @ show_int (sint (snd m))
      | None \<Rightarrow> ''disabled'') @ [CHR 0x0A] @ portmap_lines cpu (i + 1) ms"

definition swlib_print_portmap :: "swl_dev \<Rightarrow> string option \<Rightarrow> 'k sw \<Rightarrow> 'k sw option" where
  "swlib_print_portmap dev segment s =
     (if segment = Some ''cpu'' then Some (sw_print (show_int (ud_cpu_port dev) @ '' '') s)
      else do {
        maps \<leftarrow> (if ud_ports dev \<le> 0 then Some [] else ud_maps dev);
        case segment of
          Some g \<Rightarrow> Some (sw_print (ports_text (\<lambda>m. if g = ''disabled'' then fst m = None else fst m = Some g) 0 maps) s)
        | None \<Rightarrow> do {
            name \<leftarrow> ud_name dev;
            Some (sw_print (ud_dev_name dev @ '' - '' @ name @ [CHR 0x0A] @ portmap_lines (ud_cpu_port dev) 0 maps) s)
          }
      })"

end
