(* ===== verification/Swconfig_Kernel.thy ===== *)
theory Swconfig_Kernel
  imports Swlib
begin

text \<open>
  The kernel as the program \<open>swconfig\<close> sees it: its requests are those of \<open>Swconfig\<close> and
  \<open>Swconfig_Netlink\<close>, by the table \<open>swconfig_ops\<close> of
  \<open>src/openwrt/target/linux/generic/files/drivers/net/phy/swconfig.c\<close>.
\<close>

section \<open>Requests\<close>

text \<open>
  What the netlink code of the kernel makes of the attributes of a request
  (\<open>struct switch_policy\<close> of \<open>swconfig.c\<close>).
\<close>

definition u32_attr :: "nl_attr \<Rightarrow> nla list \<Rightarrow> u32 option" where
  "u32_attr a as = Option.bind (nla_parse as a) nla_get_u32"

definition has_attr :: "nl_attr \<Rightarrow> nla list \<Rightarrow> bool" where
  "has_attr a as \<longleftrightarrow> nla_parse as a \<noteq> None"

definition port_request :: "nla \<Rightarrow> port_attrs option" where
  "port_request x = map_option (\<lambda>as. (u32_attr SWITCH_PORT_ID as, has_attr SWITCH_PORT_FLAG_TAGGED as)) (nla_nested x)"

definition link_request :: "nla \<Rightarrow> link_attrs option" where
  "link_request x = map_option (\<lambda>as. \<lparr>la_duplex = has_attr SWITCH_LINK_FLAG_DUPLEX as, la_aneg = has_attr SWITCH_LINK_FLAG_ANEG as,
     la_speed = u32_attr SWITCH_LINK_SPEED as\<rparr>) (nla_nested x)"

definition genl_request :: "switch_cmd \<Rightarrow> nla list \<Rightarrow> genl_info" where
  "genl_request cmd as =
     \<lparr>nl_cmd = cmd, nl_id = u32_attr SWITCH_ATTR_ID as, nl_op_id = u32_attr SWITCH_ATTR_OP_ID as,
      nl_op_port = u32_attr SWITCH_ATTR_OP_PORT as, nl_op_vlan = u32_attr SWITCH_ATTR_OP_VLAN as,
      nl_value_int = u32_attr SWITCH_ATTR_OP_VALUE_INT as,
      nl_value_str = Option.bind (nla_parse as SWITCH_ATTR_OP_VALUE_STR) nla_get_string,
      nl_value_ports = map_option (map port_request) (Option.bind (nla_parse as SWITCH_ATTR_OP_VALUE_PORTS) nla_nested),
      nl_value_link = map_option link_request (nla_parse as SWITCH_ATTR_OP_VALUE_LINK)\<rparr>"

text \<open>
  The table \<open>swconfig_ops\<close>.  The state of the kernel is the list of switches and the buffers; what a
  request sends is what it appends to the messages sent.  A command without a handler is refused.
\<close>

definition new_messages :: "net \<Rightarrow> net \<Rightarrow> skb list" where
  "new_messages n n' = drop (length (sent n)) (sent n')"

definition swconfig_doit ::
  "net_env \<Rightarrow> bool \<Rightarrow> switch_cmd \<Rightarrow> nla list \<Rightarrow> 'c swcfg \<times> net \<Rightarrow> (int \<times> skb list \<times> ('c swcfg \<times> net)) option" where
  "swconfig_doit env admin cmd as k =
     (let (s, n) = k; info = genl_request cmd as in
      if cmd = SWITCH_CMD_LIST_GLOBAL \<or> cmd = SWITCH_CMD_LIST_VLAN \<or> cmd = SWITCH_CMD_LIST_PORT
      then map_option (\<lambda>(err, n'). (err, new_messages n n', (s, n'))) (swconfig_list_attrs env info s n)
      else if cmd = SWITCH_CMD_GET_GLOBAL \<or> cmd = SWITCH_CMD_GET_VLAN \<or> cmd = SWITCH_CMD_GET_PORT
      then map_option (\<lambda>(err, s', n'). (err, new_messages n n', (s', n'))) (swconfig_get_attr env info s n)
      else if cmd = SWITCH_CMD_SET_GLOBAL \<or> cmd = SWITCH_CMD_SET_VLAN \<or> cmd = SWITCH_CMD_SET_PORT
      then map_option (\<lambda>(r, s'). (case r of Inl err \<Rightarrow> err | Inr _ \<Rightarrow> 0, [], (s', n))) (swconfig_set_attr admin info s)
      else Some (EOPNOTSUPP, [], k))"

section \<open>The list of switches\<close>

text \<open>
  The kernel calls \<open>swconfig_dump_switches\<close> for one buffer after the other, each call from where the
  last one has stopped, until a buffer stays empty.
\<close>

lemma dump_loop_moves:
  "dump_loop room start idx devs skb = Some (idx', skb')
   \<Longrightarrow> idx \<le> idx' \<and> idx' \<le> idx + length devs \<and> (skb' \<noteq> skb \<longrightarrow> start < idx')"
proof (induction devs arbitrary: idx skb)
  case (Cons dev devs)
  show ?case
  proof (cases "idx + 1 \<le> start")
    case True
    then show ?thesis using Cons.IH [of "idx + 1" skb] Cons.prems by simp
  next
    case False
    then obtain ok skb1 where one: "swconfig_send_switch room dev skb = Some (ok, skb1)"
      using Cons.prems by (auto simp: Let_def bind_eq_Some_conv)
    show ?thesis
    proof (cases ok)
      case True
      then show ?thesis using Cons.IH [of "idx + 1" skb1] Cons.prems one False by auto
    next
      case no: False
      then show ?thesis using Cons.prems one False by auto
    qed
  qed
qed simp

function dump_all :: "nat \<Rightarrow> nat \<Rightarrow> 'c swcfg \<Rightarrow> skb list option" where
  "dump_all room start s = do {
     (idx, skb) \<leftarrow> swconfig_dump_switches room start s;
     if skb = [] then Some [] else map_option (Cons skb) (dump_all room idx s)
   }"
  by pat_completeness auto
termination
proof (relation "measure (\<lambda>(room, start, s). length (swdevs s) - start)", goal_cases)
  case 1
  show ?case by simp
next
  case (2 room start s x idx skb)
  then have "dump_loop room start 0 (swdevs s) [] = Some (idx, skb)" "skb \<noteq> []"
    by (auto simp: swconfig_dump_switches_def)
  then have "start < idx" "idx \<le> length (swdevs s)" using dump_loop_moves by fastforce+
  then show ?case by simp
qed

declare dump_all.simps [simp del]

text \<open>The switch configuration of the kernel, as a process that has \<open>CAP_NET_ADMIN\<close> or not sees it.\<close>

definition switch_kern :: "net_env \<Rightarrow> bool \<Rightarrow> ('c swcfg \<times> net) kern" where
  "switch_kern env admin =
     \<lparr>k_family = True, k_doit = swconfig_doit env admin,
      k_dump = (\<lambda>cmd (s, n). if cmd = SWITCH_CMD_GET_SWITCH
        then map_option (\<lambda>bs. (0, bs, (s, n))) (dump_all (ne_room env) 0 s) else Some (EOPNOTSUPP, [], (s, n)))\<rparr>"

end
