(* ===== verification/Swconfig_Cli.thy ===== *)
theory Swconfig_Cli
  imports Swlib
begin

text \<open>
  The program \<open>swconfig\<close>: its command line
  (\<open>src/openwrt/package/network/config/swconfig/src/cli.c\<close>) and the configuration it loads
  (\<open>uci.c\<close>).  What is printed on the standard output is in the state; messages on the error output
  are left out.  A run ends with an exit code: the end of \<open>main\<close>, or an early \<open>exit\<close>.
\<close>

section \<open>Printing\<close>

definition type_text :: "switch_val_type \<Rightarrow> string" where
  "type_text t = (case t of SWITCH_TYPE_INT \<Rightarrow> ''int'' | SWITCH_TYPE_STRING \<Rightarrow> ''string'' | SWITCH_TYPE_PORTS \<Rightarrow> ''ports''
     | SWITCH_TYPE_NOVAL \<Rightarrow> ''none'' | _ \<Rightarrow> ''unknown'')"

text \<open>A missing name or description is a null pointer for \<open>%s\<close>.\<close>

fun print_attrs :: "nat \<Rightarrow> swl_attr list \<Rightarrow> string option" where
  "print_attrs i [] = Some []"
| "print_attrs i (a # as) = do {
     name \<leftarrow> ua_name a;
     description \<leftarrow> ua_description a;
     rest \<leftarrow> print_attrs (i + 1) as;
     Some ([CHR 0x09] @ ''Attribute '' @ show_nat (i + 1) @ '' ('' @ type_text (ua_type a) @ ''): '' @ name @ '' ('' @
       description @ '')'' @ [CHR 0x0A] @ rest)
   }"

definition list_attributes :: "swl_dev \<Rightarrow> string option" where
  "list_attributes dev = do {
     name \<leftarrow> ud_name dev;
     global_attrs \<leftarrow> print_attrs 0 (ud_ops dev);
     vlan_attrs \<leftarrow> print_attrs 0 (ud_vlan_ops dev);
     port_attrs \<leftarrow> print_attrs 0 (ud_port_ops dev);
     Some (ud_dev_name dev @ '': '' @ ud_alias dev @ ''('' @ name @ ''), ports: '' @ show_int (ud_ports dev) @
       '' (cpu @ '' @ show_int (ud_cpu_port dev) @ ''), vlans: '' @ show_int (ud_vlans dev) @ [CHR 0x0A] @
       ''     --switch'' @ [CHR 0x0A] @ global_attrs @ ''     --vlan'' @ [CHR 0x0A] @ vlan_attrs @
       ''     --port'' @ [CHR 0x0A] @ port_attrs)
   }"

definition speed_str :: "int \<Rightarrow> string" where
  "speed_str speed = (if speed = 10 then ''10baseT'' else if speed = 100 then ''100baseT''
     else if speed = 1000 then ''1000baseT'' else ''unknown'')"

definition port_text :: "swl_port \<Rightarrow> string" where
  "port_text p = show_int (sint (up_id p)) @ (if up_tagged p then ''t'' else []) @ '' ''"

definition link_text :: "int \<Rightarrow> swl_link \<Rightarrow> string" where
  "link_text port_vlan link =
     (if ul_link link
      then ''port:'' @ show_int port_vlan @ '' link:up speed:'' @ speed_str (sint (ul_speed link)) @ '' '' @
        (if ul_duplex link then ''full'' else ''half'') @ ''-duplex '' @
        (if ul_tx_flow link then ''txflow '' else []) @ (if ul_rx_flow link then ''rxflow '' else []) @
        (if ul_eee link AND SWLIB_LINK_FLAG_EEE_100BASET \<noteq> 0 then ''eee100 '' else []) @
        (if ul_eee link AND SWLIB_LINK_FLAG_EEE_1000BASET \<noteq> 0 then ''eee1000 '' else []) @
        (if ul_aneg link then ''auto'' else [])
      else ''port:'' @ show_int port_vlan @ '' link:down'')"

text \<open>
  \<open>print_attr_val\<close>: a cleared union is 0 and no ports; as a string or a link it is a null pointer, and
  another member than the one that was set is undefined.
\<close>

definition attr_val_text :: "switch_val_type \<Rightarrow> swl_val \<Rightarrow> string option" where
  "attr_val_text t val =
     (case (t, uv_value val) of
        (SWITCH_TYPE_INT, W_int i) \<Rightarrow> Some (show_int (sint i))
      | (SWITCH_TYPE_INT, W_zero) \<Rightarrow> Some ''0''
      | (SWITCH_TYPE_INT, _) \<Rightarrow> None
      | (SWITCH_TYPE_STRING, W_str w) \<Rightarrow> Some w
      | (SWITCH_TYPE_STRING, _) \<Rightarrow> None
      | (SWITCH_TYPE_PORTS, v) \<Rightarrow> Some (concat (map port_text (w_ports v)))
      | (SWITCH_TYPE_LINK, W_link link) \<Rightarrow> Some (link_text (uv_port_vlan val) link)
      | (SWITCH_TYPE_LINK, _) \<Rightarrow> None
      | _ \<Rightarrow> Some ''?unknown-type?'')"

text \<open>\<open>show_attrs\<close> uses one variable for all values.\<close>

fun show_attrs :: "'k kern \<Rightarrow> swl_dev \<Rightarrow> swl_attr list \<Rightarrow> swl_val \<Rightarrow> 'k sw \<Rightarrow> 'k sw option" where
  "show_attrs kern dev [] val s = Some s"
| "show_attrs kern dev (a # as) val s =
     (if ua_type a = SWITCH_TYPE_NOVAL then show_attrs kern dev as val s
      else do {
        name \<leftarrow> ua_name a;
        let s = sw_print ([CHR 0x09] @ name @ '': '') s;
        (ret, val, s) \<leftarrow> swlib_get_attr kern dev a val s;
        text \<leftarrow> (if ret < 0 then Some ''???'' else attr_val_text (ua_type a) val);
        show_attrs kern dev as val (sw_print (text @ [CHR 0x0A]) s)
      })"

text \<open>A value whose \<open>port_vlan\<close> is \<open>n\<close>.\<close>

definition val_for :: "int \<Rightarrow> swl_val" where
  "val_for n = \<lparr>uv_err = 0, uv_port_vlan = n, uv_value = W_zero\<rparr>"

text \<open>\<open>junk\<close> is what the variable holds that is not set for the switch itself.\<close>

definition show_global :: "'k kern \<Rightarrow> int \<Rightarrow> swl_dev \<Rightarrow> 'k sw \<Rightarrow> 'k sw option" where
  "show_global kern junk dev s =
     show_attrs kern dev (ud_ops dev) (val_for junk) (sw_print (''Global attributes:'' @ [CHR 0x0A]) s)"

definition show_port :: "'k kern \<Rightarrow> swl_dev \<Rightarrow> int \<Rightarrow> 'k sw \<Rightarrow> 'k sw option" where
  "show_port kern dev port s =
     show_attrs kern dev (ud_port_ops dev) (val_for port) (sw_print (''Port '' @ show_int port @ '':'' @ [CHR 0x0A]) s)"

text \<open>With \<open>all\<close> a VLAN without ports is left out; the attribute is used without a look whether it is there.\<close>

definition show_vlan :: "'k kern \<Rightarrow> swl_dev \<Rightarrow> int \<Rightarrow> bool \<Rightarrow> 'k sw \<Rightarrow> 'k sw option" where
  "show_vlan kern dev vlan all s = do {
     (skip, val, s) \<leftarrow>
       (if all then do {
          found \<leftarrow> swlib_lookup_attr dev SWLIB_ATTR_GROUP_VLAN ''ports'';
          a \<leftarrow> found;
          (ret, val, s) \<leftarrow> swlib_get_attr kern dev a (val_for vlan) s;
          Some (ret < 0 \<or> w_ports (uv_value val) = [], val, s)
        }
        else Some (False, val_for vlan, s));
     if skip then Some s
     else show_attrs kern dev (ud_vlan_ops dev) val (sw_print (''VLAN '' @ show_int vlan @ '':'' @ [CHR 0x0A]) s)
   }"

text \<open>A loop over numbers from 0 on.\<close>

fun show_each :: "(int \<Rightarrow> 'k sw \<Rightarrow> 'k sw option) \<Rightarrow> nat list \<Rightarrow> 'k sw \<Rightarrow> 'k sw option" where
  "show_each f [] s = Some s"
| "show_each f (i # is) s = Option.bind (f (int i) s) (show_each f is)"

definition show_all :: "'k kern \<Rightarrow> int \<Rightarrow> swl_dev \<Rightarrow> 'k sw \<Rightarrow> 'k sw option" where
  "show_all kern junk dev s = do {
     s \<leftarrow> show_global kern junk dev s;
     s \<leftarrow> show_each (show_port kern dev) [0..<nat (ud_ports dev)] s;
     show_each (\<lambda>i. show_vlan kern dev i True) [0..<nat (ud_vlans dev)] s
   }"

section \<open>Configuration files\<close>

text \<open>
  A package as the library for configuration files has it: sections with a type, a name and options.
  An option whose value is a list is \<open>None\<close>.
\<close>

record uci_section =
  uci_type :: string
  uci_name :: string
  uci_options :: "(string \<times> string option) list"

text \<open>A setting: the attribute, the port or VLAN, and the text; the two early ones with their names.\<close>

record setting =
  set_attr :: "swl_attr option"
  set_port_vlan :: int
  set_val :: string

definition early_settings :: "(string \<times> string) list" where
  "early_settings = [(''reset'', ''1''), (''enable_vlan'', ''1'')]"

definition swlib_match_name :: "swl_dev \<Rightarrow> string \<Rightarrow> bool" where
  "swlib_match_name dev name \<longleftrightarrow> name = ud_dev_name dev \<or> name = ud_alias dev"

text \<open>The values of the early settings, and the list of the others.\<close>

fun swlib_map_settings ::
  "swl_dev \<Rightarrow> swlib_attr_group \<Rightarrow> int \<Rightarrow> (string \<times> string option) list \<Rightarrow> (string \<times> string) list \<Rightarrow> setting list \<Rightarrow>
   ((string \<times> string) list \<times> setting list) option" where
  "swlib_map_settings dev g port_vlan [] early settings = Some (early, settings)"
| "swlib_map_settings dev g port_vlan ((name, None) # os) early settings =
     swlib_map_settings dev g port_vlan os early settings"
| "swlib_map_settings dev g port_vlan ((name, Some v) # os) early settings =
     (if name = ''device'' then swlib_map_settings dev g port_vlan os early settings
      else if g = SWLIB_ATTR_GROUP_GLOBAL \<and> name \<in> fst ` set early
      then swlib_map_settings dev g port_vlan os (map (\<lambda>(n, w). (n, if n = name then v else w)) early) settings
      else do {
        found \<leftarrow> swlib_lookup_attr dev g name;
        swlib_map_settings dev g port_vlan os early
          (case found of
             None \<Rightarrow> settings
           | Some a \<Rightarrow> settings @ [\<lparr>set_attr = Some a, set_port_vlan = port_vlan, set_val = v\<rparr>])
      })"

text \<open>
  Whether a section is the one of the switch: the first option \<open>name\<close> with a text decides, then the
  name of the section.
\<close>

fun named_for :: "swl_dev \<Rightarrow> (string \<times> string option) list \<Rightarrow> bool" where
  "named_for dev [] = False"
| "named_for dev ((n, v) # os) =
     (case v of
        Some w \<Rightarrow> if n = ''name'' then swlib_match_name dev w else named_for dev os
      | None \<Rightarrow> named_for dev os)"

definition is_switch_section :: "swl_dev \<Rightarrow> uci_section \<Rightarrow> bool" where
  "is_switch_section dev s \<longleftrightarrow>
     uci_type s = ''switch'' \<and> (named_for dev (uci_options s) \<or> swlib_match_name dev (uci_name s))"

text \<open>
  The number of the port or VLAN of a section, \<open>key\<close> being the name of its option: the last options
  count, and the number has to be all of its text.
\<close>

fun section_scan :: "swl_dev \<Rightarrow> string \<Rightarrow> (string \<times> string option) list \<Rightarrow> bool \<Rightarrow> string option \<Rightarrow> bool \<times> string option" where
  "section_scan dev key [] devn num = (devn, num)"
| "section_scan dev key ((n, v) # os) devn num =
     (case v of
        None \<Rightarrow> section_scan dev key os devn num
      | Some w \<Rightarrow>
          if n = ''device'' then section_scan dev key os (swlib_match_name dev w) num
          else if n = key then section_scan dev key os devn (Some w)
          else section_scan dev key os devn num)"

definition section_number :: "nat \<Rightarrow> swl_dev \<Rightarrow> string \<Rightarrow> uci_section \<Rightarrow> int option" where
  "section_number umax dev key s =
     (case section_scan dev key (uci_options s) False None of
        (True, Some w) \<Rightarrow>
          if w = [] then None
          else (case strtoul umax 0 w of (n, err, _) \<Rightarrow> if err \<noteq> [] then None else Some (to_s32 (int n)))
      | _ \<Rightarrow> None)"

fun map_sections ::
  "nat \<Rightarrow> swl_dev \<Rightarrow> uci_section list \<Rightarrow> (string \<times> string) list \<Rightarrow> setting list \<Rightarrow> ((string \<times> string) list \<times> setting list) option" where
  "map_sections umax dev [] early settings = Some (early, settings)"
| "map_sections umax dev (s # ss) early settings = do {
     (early, settings) \<leftarrow>
       (if uci_type s = ''switch_port''
        then (case section_number umax dev ''port'' s of
          None \<Rightarrow> Some (early, settings)
        | Some n \<Rightarrow> swlib_map_settings dev SWLIB_ATTR_GROUP_PORT n (uci_options s) early settings)
        else if uci_type s = ''switch_vlan''
        then (case section_number umax dev ''vlan'' s of
          None \<Rightarrow> Some (early, settings)
        | Some n \<Rightarrow> swlib_map_settings dev SWLIB_ATTR_GROUP_VLAN n (uci_options s) early settings)
        else Some (early, settings));
     map_sections umax dev ss early settings
   }"

text \<open>The attributes of the early settings; they are for the switch itself, with the number 0.\<close>

fun early_list :: "swl_dev \<Rightarrow> (string \<times> string) list \<Rightarrow> setting list option" where
  "early_list dev [] = Some []"
| "early_list dev ((n, v) # es) = do {
     a \<leftarrow> swlib_lookup_attr dev SWLIB_ATTR_GROUP_GLOBAL n;
     l \<leftarrow> early_list dev es;
     Some (\<lparr>set_attr = a, set_port_vlan = 0, set_val = v\<rparr> # l)
   }"

text \<open>The results of the requests are not looked at.\<close>

fun apply_settings :: "nat \<Rightarrow> 'k kern \<Rightarrow> swl_dev \<Rightarrow> setting list \<Rightarrow> 'k sw \<Rightarrow> 'k sw option" where
  "apply_settings umax kern dev [] s = Some s"
| "apply_settings umax kern dev (st # sts) s = do {
     s \<leftarrow> (case set_attr st of
        None \<Rightarrow> Some s
      | Some a \<Rightarrow> map_option snd (swlib_set_attr_string umax kern dev a (set_port_vlan st) (Some (set_val st)) s));
     apply_settings umax kern dev sts s
   }"

definition swlib_apply_from_uci :: "nat \<Rightarrow> 'k kern \<Rightarrow> swl_dev \<Rightarrow> uci_section list \<Rightarrow> 'k sw \<Rightarrow> (int \<times> 'k sw) option" where
  "swlib_apply_from_uci umax kern dev p s =
     (case List.find (is_switch_section dev) p of
        None \<Rightarrow> Some (-1, s)
      | Some sec \<Rightarrow> do {
          (early, settings) \<leftarrow> swlib_map_settings dev SWLIB_ATTR_GROUP_GLOBAL 0 (uci_options sec) early_settings [];
          (early, settings) \<leftarrow> map_sections umax dev p early settings;
          first \<leftarrow> early_list dev early;
          s \<leftarrow> apply_settings umax kern dev (first @ settings) s;
          found \<leftarrow> swlib_lookup_attr dev SWLIB_ATTR_GROUP_GLOBAL ''apply'';
          case found of
            None \<Rightarrow> Some (0, s)
          | Some a \<Rightarrow> do {
              (_, s) \<leftarrow> swlib_set_attr kern dev a (val_for 0) s;
              Some (0, s)
            }
        })"

section \<open>The command line\<close>

datatype cli_cmd = CMD_NONE | CMD_GET | CMD_SET | CMD_LOAD | CMD_HELP | CMD_SHOW | CMD_PORTMAP

record cli =
  cl_cmd :: cli_cmd
  cl_port :: int
  cl_vlan :: int
  cl_key :: string
  cl_value :: "string option"
  cl_segment :: "string option"

definition cli_start :: cli where
  "cli_start = \<lparr>cl_cmd = CMD_NONE, cl_port = -1, cl_vlan = -1, cl_key = [], cl_value = None, cl_segment = None\<rparr>"

text \<open>
  The loop over the arguments.  \<open>None\<close> is undefined, \<open>Some None\<close> ends with the usage.
\<close>

fun parse_args :: "string list \<Rightarrow> cli \<Rightarrow> cli option option" where
  "parse_args [] c = Some (Some c)"
| "parse_args (arg # args) c =
     (if cl_cmd c \<noteq> CMD_NONE then Some None
      else if arg = ''port'' \<and> args \<noteq> []
      then Option.bind (atoi_s32 (hd args)) (\<lambda>n. parse_args (tl args) (c\<lparr>cl_port := n\<rparr>))
      else if arg = ''vlan'' \<and> args \<noteq> []
      then Option.bind (atoi_s32 (hd args)) (\<lambda>n. parse_args (tl args) (c\<lparr>cl_vlan := n\<rparr>))
      else if arg = ''help'' then parse_args args (c\<lparr>cl_cmd := CMD_HELP\<rparr>)
      else if arg = ''set'' \<and> args \<noteq> []
      then parse_args (drop 2 args)
        (c\<lparr>cl_cmd := CMD_SET, cl_key := hd args, cl_value := (if length args > 1 then Some (args ! 1) else cl_value c)\<rparr>)
      else if arg = ''get'' \<and> args \<noteq> [] then parse_args (tl args) (c\<lparr>cl_cmd := CMD_GET, cl_key := hd args\<rparr>)
      else if arg = ''load'' \<and> args \<noteq> []
      then (if cl_port c \<ge> 0 \<or> cl_vlan c \<ge> 0 then Some None
            else parse_args (tl args) (c\<lparr>cl_cmd := CMD_LOAD, cl_key := hd args\<rparr>))
      else if arg = ''portmap''
      then parse_args (tl args)
        (c\<lparr>cl_cmd := CMD_PORTMAP, cl_segment := (if args \<noteq> [] then Some (hd args) else cl_segment c)\<rparr>)
      else if arg = ''show'' then parse_args args (c\<lparr>cl_cmd := CMD_SHOW\<rparr>)
      else Some None)"

definition usage_text :: string where
  "usage_text = ''swconfig list'' @ [CHR 0x0A] @
     ''swconfig dev <dev> [port <port>|vlan <vlan>] (help|set <key> <value>|get <key>|load <config>|show)'' @ [CHR 0x0A]"

text \<open>\<open>print_usage\<close> ends the program with the exit code 1.\<close>

definition print_usage :: "'k sw \<Rightarrow> int \<times> 'k sw" where
  "print_usage s = (1, sw_print usage_text s)"

text \<open>The attribute of \<open>get\<close> and \<open>set\<close>, and the number that goes with it.\<close>

definition cli_group :: "cli \<Rightarrow> swlib_attr_group" where
  "cli_group c = (if cl_port c > -1 then SWLIB_ATTR_GROUP_PORT
     else if cl_vlan c > -1 then SWLIB_ATTR_GROUP_VLAN else SWLIB_ATTR_GROUP_GLOBAL)"

definition cli_set ::
  "nat \<Rightarrow> 'k kern \<Rightarrow> cli \<Rightarrow> swl_dev list \<Rightarrow> swl_dev \<Rightarrow> swl_attr \<Rightarrow> 'k sw \<Rightarrow> (int \<times> 'k sw) option" where
  "cli_set umax kern c devs dev a s =
     (if ua_type a \<noteq> SWITCH_TYPE_NOVAL \<and> cl_value c = None then Some (print_usage s)
      else do {
        (ret, s) \<leftarrow> swlib_set_attr_string umax kern dev a (if cl_vlan c > -1 then cl_vlan c else cl_port c) (cl_value c) s;
        Some (ret, swlib_free_all devs s)
      })"

definition cli_get ::
  "'k kern \<Rightarrow> int \<Rightarrow> cli \<Rightarrow> swl_dev list \<Rightarrow> swl_dev \<Rightarrow> swl_attr \<Rightarrow> 'k sw \<Rightarrow> (int \<times> 'k sw) option" where
  "cli_get kern junk c devs dev a s = do {
     (ret, val, s) \<leftarrow> swlib_get_attr kern dev a
       (val_for (if cl_port c > -1 then cl_port c else if cl_vlan c > -1 then cl_vlan c else junk)) s;
     if ret < 0 then Some (ret, swlib_free_all devs s)
     else do {
       t \<leftarrow> attr_val_text (ua_type a) val;
       Some (ret, swlib_free_all devs (sw_print (t @ [CHR 0x0A]) s))
     }
   }"

text \<open>
  The part behind the connection: \<open>dev\<close> is the first of the switches found.  \<open>configs\<close> has the packages
  of configuration files; loading one always ends the program, unless there is no memory.
\<close>

definition run_command ::
  "nat \<Rightarrow> 'k kern \<Rightarrow> int \<Rightarrow> (string \<Rightarrow> uci_section list option) \<Rightarrow> cli \<Rightarrow> swl_dev list \<Rightarrow> swl_dev \<Rightarrow> 'k sw \<Rightarrow>
   (int \<times> 'k sw) option" where
  "run_command umax kern junk configs c devs dev s = do {
     (dev, s) \<leftarrow> swlib_scan kern dev s;
     found \<leftarrow> (if cl_cmd c = CMD_GET \<or> cl_cmd c = CMD_SET then swlib_lookup_attr dev (cli_group c) (cl_key c) else Some None);
     case cl_cmd c of
       CMD_SET \<Rightarrow> (case found of None \<Rightarrow> Some (-1, swlib_free_all devs s) | Some a \<Rightarrow> cli_set umax kern c devs dev a s)
     | CMD_GET \<Rightarrow> (case found of None \<Rightarrow> Some (-1, swlib_free_all devs s) | Some a \<Rightarrow> cli_get kern junk c devs dev a s)
     | CMD_LOAD \<Rightarrow> (case configs (cl_key c) of None \<Rightarrow> Some (-1, s) | Some p \<Rightarrow> swlib_apply_from_uci umax kern dev p s)
     | CMD_HELP \<Rightarrow> do { t \<leftarrow> list_attributes dev; Some (0, swlib_free_all devs (sw_print t s)) }
     | CMD_PORTMAP \<Rightarrow> do { s \<leftarrow> swlib_print_portmap dev (cl_segment c) s; Some (0, swlib_free_all devs s) }
     | CMD_SHOW \<Rightarrow> do {
         s \<leftarrow> (if cl_port c \<ge> 0 then show_port kern dev (cl_port c) s
               else if cl_vlan c \<ge> 0 then show_vlan kern dev (cl_vlan c) False s
               else show_all kern junk dev s);
         Some (0, swlib_free_all devs s)
       }
     | CMD_NONE \<Rightarrow> Some (0, swlib_free_all devs s)
   }"

text \<open>\<open>main\<close>; the arguments are those behind the name of the program.\<close>

definition swconfig_main ::
  "nat \<Rightarrow> 'k kern \<Rightarrow> int \<Rightarrow> (string \<Rightarrow> uci_section list option) \<Rightarrow> string list \<Rightarrow> 'k sw \<Rightarrow> (int \<times> 'k sw) option" where
  "swconfig_main umax kern junk configs args s =
     (if args = [''list''] then map_option (Pair 0) (swlib_list kern s)
      else if length args < 3 \<or> hd args \<noteq> ''dev'' then Some (print_usage s)
      else do {
        parsed \<leftarrow> parse_args (drop 2 args) cli_start;
        case parsed of
          None \<Rightarrow> Some (print_usage s)
        | Some c \<Rightarrow>
            if cl_cmd c = CMD_NONE \<or> (cl_port c > -1 \<and> cl_vlan c > -1) then Some (print_usage s)
            else do {
              (devs, s) \<leftarrow> swlib_connect kern (Some (args ! 1)) s;
              case devs of
                [] \<Rightarrow> Some (1, s)
              | dev # _ \<Rightarrow> run_command umax kern junk configs c devs dev s
            }
      })"

end
