(* ===== verification/Rtl8366_Smi.thy ===== *)
theory Rtl8366_Smi
  imports Rtl8366_Bus Switch_Api
begin

text \<open>
  The part of the RTL8366 driver that is common to the chips
  (\<open>src/openwrt/target/linux/generic/files/drivers/net/phy/rtl8366_smi.c\<close>): VLANs and port VLAN
  ids over the operations of a chip.

  A chip has a table of 4096 VLANs and a few member configurations, copies of VLANs that ports
  can point at: the VLAN id (PVID) of a port is that of the configuration it points at.  The type
  of the chip's state is \<open>'c\<close>; a call may change it also when it fails.
\<close>

section \<open>Data\<close>

record vlan_mc =
  mc_vid :: u16
  mc_untag :: u16
  mc_member :: u16
  mc_fid :: u8
  mc_priority :: u8

record vlan_4k =
  v4_vid :: u16
  v4_untag :: u16
  v4_member :: u16
  v4_fid :: u8

definition mc_zero :: vlan_mc where
  "mc_zero = \<lparr>mc_vid = 0, mc_untag = 0, mc_member = 0, mc_fid = 0, mc_priority = 0\<rparr>"

definition v4_zero :: vlan_4k where
  "v4_zero = \<lparr>v4_vid = 0, v4_untag = 0, v4_member = 0, v4_fid = 0\<rparr>"

text \<open>\<open>struct rtl8366_smi_ops\<close>, without the functions for the PHY bus.\<close>

record 'c rtl_ops =
  detect :: "('c, unit) drv"
  reset_chip :: "('c, unit) drv"
  setup_chip :: "('c, unit) drv"
  get_vlan_mc :: "nat \<Rightarrow> ('c, vlan_mc) drv"
  set_vlan_mc :: "nat \<Rightarrow> vlan_mc \<Rightarrow> ('c, unit) drv"
  get_vlan_4k :: "u32 \<Rightarrow> ('c, vlan_4k) drv"
  set_vlan_4k :: "vlan_4k \<Rightarrow> ('c, unit) drv"
  get_mc_index :: "nat \<Rightarrow> ('c, nat) drv"
  set_mc_index :: "nat \<Rightarrow> nat \<Rightarrow> ('c, unit) drv"
  get_mib_counter :: "nat \<Rightarrow> nat \<Rightarrow> ('c, 64 word) drv"
  is_vlan_valid :: "int \<Rightarrow> u32 \<Rightarrow> bool"
  enable_vlan :: "int \<Rightarrow> ('c, unit) drv"
  enable_vlan4k :: "int \<Rightarrow> ('c, unit) drv"
  enable_port :: "nat \<Rightarrow> int \<Rightarrow> ('c, unit) drv"

text \<open>What is fixed when the switch is set up, and what changes.\<close>

record 'c rtl =
  ops :: "'c rtl_ops"
  hw_reset :: "(bool \<Rightarrow> 'c \<Rightarrow> 'c) option"
  cpu_port :: nat
  num_ports :: nat
  num_vlan_mc :: nat

record 'c smi =
  chip :: 'c
  vlan_enabled :: int
  vlan4k_enabled :: int
  pins :: "pin list"  \<comment> \<open>held by the driver\<close>

definition on_chip :: "('c, 'a) drv \<Rightarrow> ('c smi, 'a) drv" where
  "on_chip f s = (let (r, c) = f (chip s) in (r, s\<lparr>chip := c\<rparr>))"

definition modify :: "('s \<Rightarrow> 's) \<Rightarrow> ('s, unit) drv" where
  "modify f s = (Inr (), f s)"

section \<open>VLANs\<close>

definition rtl8366_reset :: "'c rtl \<Rightarrow> ('c, unit) drv" where
  "rtl8366_reset smi = (case hw_reset smi of Some f \<Rightarrow> modify (f False \<circ> f True) | None \<Rightarrow> reset_chip (ops smi))"

text \<open>The loop over the ports, from port \<open>i\<close> on.\<close>

fun mc_is_used_loop :: "'c rtl \<Rightarrow> nat \<Rightarrow> nat list \<Rightarrow> ('c, bool) drv" where
  "mc_is_used_loop smi mc_index [] = dret False"
| "mc_is_used_loop smi mc_index (i # is) =
     dbind (get_mc_index (ops smi) i) (\<lambda>index.
     if mc_index = index then dret True else mc_is_used_loop smi mc_index is)"

definition rtl8366_mc_is_used :: "'c rtl \<Rightarrow> nat \<Rightarrow> ('c, bool) drv" where
  "rtl8366_mc_is_used smi mc_index = mc_is_used_loop smi mc_index [0..<num_ports smi]"

text \<open>
  The loops that read the member configurations until one satisfies \<open>P\<close>: its number, if any, and
  what the variable \<open>vlanmc\<close> holds behind the loop.
\<close>

fun find_mc :: "'c rtl \<Rightarrow> (vlan_mc \<Rightarrow> bool) \<Rightarrow> nat list \<Rightarrow> vlan_mc \<Rightarrow> ('c, nat option \<times> vlan_mc) drv" where
  "find_mc smi P [] vlanmc = dret (None, vlanmc)"
| "find_mc smi P (i # is) vlanmc =
     dbind (get_vlan_mc (ops smi) i) (\<lambda>vlanmc.
     if P vlanmc then dret (Some i, vlanmc) else find_mc smi P is vlanmc)"

definition rtl8366_set_vlan :: "'c rtl \<Rightarrow> u32 \<Rightarrow> u32 \<Rightarrow> u32 \<Rightarrow> u32 \<Rightarrow> ('c, unit) drv" where
  "rtl8366_set_vlan smi vid member untag fid =
     dbind (get_vlan_4k (ops smi) vid) (\<lambda>vlan4k.
     dbind (set_vlan_4k (ops smi)
       (vlan4k\<lparr>v4_member := ucast member, v4_untag := ucast untag, v4_fid := ucast fid\<rparr>)) (\<lambda>_.
     dbind (find_mc smi (\<lambda>vlanmc. vid = ucast (mc_vid vlanmc)) [0..<num_vlan_mc smi] mc_zero) (\<lambda>(found, vlanmc).
     case found of
       None \<Rightarrow> dret ()
     | Some i \<Rightarrow> set_vlan_mc (ops smi) i
         (vlanmc\<lparr>mc_member := ucast member, mc_untag := ucast untag, mc_fid := ucast fid\<rparr>))))"

definition rtl8366_get_pvid :: "'c rtl \<Rightarrow> nat \<Rightarrow> ('c, u16) drv" where
  "rtl8366_get_pvid smi port =
     dbind (get_mc_index (ops smi) port) (\<lambda>index.
     dbind (get_vlan_mc (ops smi) index) (\<lambda>vlanmc.
     dret (mc_vid vlanmc)))"

text \<open>The third loop of \<open>rtl8366_set_pvid\<close>: the first configuration that no port points at.\<close>

fun find_unused :: "'c rtl \<Rightarrow> nat list \<Rightarrow> ('c, nat option) drv" where
  "find_unused smi [] = dret None"
| "find_unused smi (i # is) =
     dbind (rtl8366_mc_is_used smi i) (\<lambda>used. if \<not> used then dret (Some i) else find_unused smi is)"

text \<open>Entry \<open>i\<close> is filled from the VLAN table and given to the port.\<close>

definition take_entry :: "'c rtl \<Rightarrow> nat \<Rightarrow> u32 \<Rightarrow> nat \<Rightarrow> vlan_mc \<Rightarrow> ('c, unit) drv" where
  "take_entry smi port vid i vlanmc =
     dbind (get_vlan_4k (ops smi) vid) (\<lambda>vlan4k.
     dbind (set_vlan_mc (ops smi) i
       (vlanmc\<lparr>mc_vid := ucast vid, mc_member := v4_member vlan4k, mc_untag := v4_untag vlan4k, mc_fid := v4_fid vlan4k\<rparr>)) (\<lambda>_.
     set_mc_index (ops smi) port i))"

definition rtl8366_set_pvid :: "'c rtl \<Rightarrow> nat \<Rightarrow> u32 \<Rightarrow> ('c, unit) drv" where
  "rtl8366_set_pvid smi port vid =
     dbind (find_mc smi (\<lambda>vlanmc. vid = ucast (mc_vid vlanmc)) [0..<num_vlan_mc smi] mc_zero) (\<lambda>(found, vlanmc).
     case found of
       Some i \<Rightarrow> dbind (set_vlan_mc (ops smi) i vlanmc) (\<lambda>_. set_mc_index (ops smi) port i)
     | None \<Rightarrow>
     dbind (find_mc smi (\<lambda>vlanmc. mc_vid vlanmc = 0 \<and> mc_member vlanmc = 0) [0..<num_vlan_mc smi] vlanmc) (\<lambda>(found, vlanmc).
     case found of
       Some i \<Rightarrow> take_entry smi port vid i vlanmc
     | None \<Rightarrow>
     dbind (find_unused smi [0..<num_vlan_mc smi]) (\<lambda>found.
     case found of
       Some i \<Rightarrow> take_entry smi port vid i vlanmc
     | None \<Rightarrow> derr ENOSPC)))"

definition rtl8366_enable_vlan :: "'c rtl \<Rightarrow> int \<Rightarrow> ('c smi, unit) drv" where
  "rtl8366_enable_vlan smi enable =
     dbind (on_chip (enable_vlan (ops smi) enable)) (\<lambda>_.
     dbind (modify (vlan_enabled_update (\<lambda>_. enable))) (\<lambda>_.
     if enable = 0
     then dbind (modify (vlan4k_enabled_update (\<lambda>_. 0))) (\<lambda>_. on_chip (enable_vlan4k (ops smi) enable))
     else dret ()))"

definition rtl8366_enable_vlan4k :: "'c rtl \<Rightarrow> int \<Rightarrow> ('c smi, unit) drv" where
  "rtl8366_enable_vlan4k smi enable =
     dbind (if enable \<noteq> 0
            then dbind (on_chip (enable_vlan (ops smi) enable)) (\<lambda>_. modify (vlan_enabled_update (\<lambda>_. enable)))
            else dret ()) (\<lambda>_.
     dbind (on_chip (enable_vlan4k (ops smi) enable)) (\<lambda>_.
     modify (vlan4k_enabled_update (\<lambda>_. enable))))"

definition rtl8366_enable_all_ports :: "'c rtl \<Rightarrow> int \<Rightarrow> ('c, unit) drv" where
  "rtl8366_enable_all_ports smi enable =
     dfor [0..<num_ports smi] (\<lambda>port. enable_port (ops smi) port enable)"

definition rtl8366_reset_vlan :: "'c rtl \<Rightarrow> ('c smi, unit) drv" where
  "rtl8366_reset_vlan smi =
     dbind (dignore (rtl8366_enable_vlan smi 0)) (\<lambda>_.
     dbind (dignore (rtl8366_enable_vlan4k smi 0)) (\<lambda>_.
     on_chip (dfor [0..<num_vlan_mc smi] (\<lambda>i. set_vlan_mc (ops smi) i mc_zero))))"

text \<open>The ports of the VLAN that \<open>rtl8366_init_vlan\<close> makes for a port.\<close>

definition init_mask :: "'c rtl \<Rightarrow> nat \<Rightarrow> u32" where
  "init_mask smi port =
     (if port = cpu_port smi then push_bit (num_ports smi) 1 - 1
      else push_bit port 1 OR push_bit (cpu_port smi) 1)"

definition rtl8366_init_vlan :: "'c rtl \<Rightarrow> ('c smi, unit) drv" where
  "rtl8366_init_vlan smi =
     dbind (rtl8366_reset_vlan smi) (\<lambda>_.
     dbind (on_chip (dfor [0..<num_ports smi] (\<lambda>port.
       dbind (rtl8366_set_vlan smi (word_of_nat (port + 1)) (init_mask smi port) (init_mask smi port) 0) (\<lambda>_.
       rtl8366_set_pvid smi port (word_of_nat (port + 1)))))) (\<lambda>_.
     rtl8366_enable_vlan smi 1))"

section \<open>The functions of the switch device\<close>

definition rtl8366_sw_reset_switch :: "'c rtl \<Rightarrow> ('c smi, unit) drv" where
  "rtl8366_sw_reset_switch smi =
     dbind (on_chip (rtl8366_reset smi)) (\<lambda>_.
     dbind (on_chip (setup_chip (ops smi))) (\<lambda>_.
     dbind (rtl8366_reset_vlan smi) (\<lambda>_.
     dbind (rtl8366_enable_vlan smi 1) (\<lambda>_.
     on_chip (rtl8366_enable_all_ports smi 1)))))"

definition rtl8366_sw_get_port_pvid :: "'c rtl \<Rightarrow> nat \<Rightarrow> ('c smi, u16) drv" where
  "rtl8366_sw_get_port_pvid smi port = on_chip (rtl8366_get_pvid smi port)"

definition rtl8366_sw_set_port_pvid :: "'c rtl \<Rightarrow> nat \<Rightarrow> u32 \<Rightarrow> ('c smi, unit) drv" where
  "rtl8366_sw_set_port_pvid smi port val = on_chip (rtl8366_set_pvid smi port val)"

text \<open>The bytes sent and received.\<close>

definition rtl8366_sw_get_port_stats :: "'c rtl \<Rightarrow> nat \<Rightarrow> nat \<Rightarrow> nat \<Rightarrow> ('c smi, 64 word \<times> 64 word) drv" where
  "rtl8366_sw_get_port_stats smi port txb_id rxb_id =
     (if port \<ge> num_ports smi then derr EINVAL
      else on_chip
        (dbind (get_mib_counter (ops smi) txb_id port) (\<lambda>tx_bytes.
         dbind (get_mib_counter (ops smi) rxb_id port) (\<lambda>rx_bytes.
         dret (tx_bytes, rx_bytes)))))"

definition valid_then :: "'c rtl \<Rightarrow> u32 \<Rightarrow> ('c smi, 'a) drv \<Rightarrow> ('c smi, 'a) drv" where
  "valid_then smi vid f s = (if \<not> is_vlan_valid (ops smi) (vlan4k_enabled s) vid then derr EINVAL s else f s)"

text \<open>The error of reading the table is not looked at: the record is then all zero.\<close>

definition read_vlan_4k :: "'c rtl \<Rightarrow> u32 \<Rightarrow> ('c, vlan_4k) drv" where
  "read_vlan_4k smi vid c =
     (case get_vlan_4k (ops smi) vid c of (Inr v, c') \<Rightarrow> (Inr v, c') | (Inl _, c') \<Rightarrow> (Inr v4_zero, c'))"

definition vlan_ports :: "vlan_4k \<Rightarrow> nat list \<Rightarrow> switch_port list" where
  "vlan_ports vlan4k is =
     map (\<lambda>i. \<lparr>port_id = i, port_tagged = \<not> bit (v4_untag vlan4k) i\<rparr>) (filter (bit (v4_member vlan4k)) is)"

definition rtl8366_sw_get_vlan_ports :: "'c rtl \<Rightarrow> u32 \<Rightarrow> ('c smi, switch_port list) drv" where
  "rtl8366_sw_get_vlan_ports smi vid =
     valid_then smi vid (on_chip (dbind (read_vlan_4k smi vid) (\<lambda>vlan4k.
       dret (vlan_ports vlan4k [0..<num_ports smi]))))"

text \<open>The masks for the ports, and a PVID for each port that has none.\<close>

fun set_vlan_ports_loop :: "'c rtl \<Rightarrow> u32 \<Rightarrow> switch_port list \<Rightarrow> u32 \<Rightarrow> u32 \<Rightarrow> ('c, u32 \<times> u32) drv" where
  "set_vlan_ports_loop smi vid [] member untag = dret (member, untag)"
| "set_vlan_ports_loop smi vid (port # ports) member untag =
     (let member = member OR push_bit (port_id port) 1;
          untag = (if \<not> port_tagged port then untag OR push_bit (port_id port) 1 else untag)
      in dbind (rtl8366_get_pvid smi (port_id port)) (\<lambda>pvid.
         dbind (if pvid = 0 then rtl8366_set_pvid smi (port_id port) vid else dret ()) (\<lambda>_.
         set_vlan_ports_loop smi vid ports member untag)))"

definition rtl8366_sw_set_vlan_ports :: "'c rtl \<Rightarrow> u32 \<Rightarrow> switch_port list \<Rightarrow> ('c smi, unit) drv" where
  "rtl8366_sw_set_vlan_ports smi vid ports =
     valid_then smi vid (on_chip
       (dbind (set_vlan_ports_loop smi vid ports 0 0) (\<lambda>(member, untag).
        rtl8366_set_vlan smi vid member untag 0)))"

definition rtl8366_sw_get_vlan_fid :: "'c rtl \<Rightarrow> u32 \<Rightarrow> ('c smi, u8) drv" where
  "rtl8366_sw_get_vlan_fid smi vid =
     valid_then smi vid (on_chip (dbind (get_vlan_4k (ops smi) vid) (\<lambda>vlan4k. dret (v4_fid vlan4k))))"

definition rtl8366_sw_set_vlan_fid :: "'c rtl \<Rightarrow> u32 \<Rightarrow> u32 \<Rightarrow> u32 \<Rightarrow> ('c smi, unit) drv" where
  "rtl8366_sw_set_vlan_fid smi max_fid vid fid =
     valid_then smi vid
       (if fid > max_fid then derr EINVAL
        else on_chip (dbind (get_vlan_4k (ops smi) vid) (\<lambda>vlan4k.
          rtl8366_set_vlan smi vid (ucast (v4_member vlan4k)) (ucast (v4_untag vlan4k)) fid)))"

definition rtl8366_sw_get_vlan_enable :: "nat \<Rightarrow> ('c smi, int) drv" where
  "rtl8366_sw_get_vlan_enable ofs s =
     (if ofs > 2 then derr EINVAL s else dret (if ofs = 1 then vlan_enabled s else vlan4k_enabled s) s)"

definition rtl8366_sw_set_vlan_enable :: "'c rtl \<Rightarrow> nat \<Rightarrow> int \<Rightarrow> ('c smi, unit) drv" where
  "rtl8366_sw_set_vlan_enable smi ofs enable =
     (if ofs > 2 then derr EINVAL
      else if ofs = 1 then rtl8366_enable_vlan smi enable else rtl8366_enable_vlan4k smi enable)"

section \<open>Start\<close>

text \<open>
  \<open>req\<close> is what \<open>gpio_request\<close> answers for a pin: 0 or an error number; \<open>mii_init\<close> registers the
  PHY bus with the kernel.
\<close>

definition hw_reset_to :: "'c rtl \<Rightarrow> bool \<Rightarrow> ('c smi, unit) drv" where
  "hw_reset_to smi active = (case hw_reset smi of Some f \<Rightarrow> on_chip (modify (f active)) | None \<Rightarrow> dret ())"

definition smi_init_pins :: "(pin \<Rightarrow> int) \<Rightarrow> 'c rtl \<Rightarrow> ('c smi, unit) drv" where
  "smi_init_pins req smi s =
     (if req SDA \<noteq> 0 then (Inl (req SDA), s)
      else let s = s\<lparr>pins := SDA # pins s\<rparr> in
        if req SCK \<noteq> 0 then (Inl (req SCK), s\<lparr>pins := remove1 SDA (pins s)\<rparr>)
        else hw_reset_to smi False (s\<lparr>pins := SCK # pins s\<rparr>))"

definition smi_cleanup_pins :: "'c rtl \<Rightarrow> ('c smi, unit) drv" where
  "smi_cleanup_pins smi =
     dbind (hw_reset_to smi True) (\<lambda>_. modify (pins_update (\<lambda>ps. remove1 SDA (remove1 SCK ps))))"

text \<open>What is done between the labels; an error runs the cleanup and stays the result.\<close>

definition on_error :: "('s, 'a) drv \<Rightarrow> ('s, unit) drv \<Rightarrow> ('s, 'a) drv" where
  "on_error f g s = (case f s of (Inl e, s') \<Rightarrow> (Inl e, snd (g s')) | (Inr a, s') \<Rightarrow> (Inr a, s'))"

definition rtl8366_smi_init :: "(pin \<Rightarrow> int) \<Rightarrow> ('c, unit) drv \<Rightarrow> 'c rtl \<Rightarrow> ('c smi, unit) drv" where
  "rtl8366_smi_init req mii_init smi =
     dbind (smi_init_pins req smi) (\<lambda>_.
     on_error
       (dbind (on_chip (detect (ops smi))) (\<lambda>_.
        dbind (on_chip (rtl8366_reset smi)) (\<lambda>_.
        dbind (on_chip (setup_chip (ops smi))) (\<lambda>_.
        dbind (rtl8366_init_vlan smi) (\<lambda>_.
        dbind (on_chip (rtl8366_enable_all_ports smi 1)) (\<lambda>_.
        on_chip mii_init))))))
       (smi_cleanup_pins smi))"

definition rtl8366_smi_cleanup :: "('c, unit) drv \<Rightarrow> 'c rtl \<Rightarrow> ('c smi, unit) drv" where
  "rtl8366_smi_cleanup mii_cleanup smi = dbind (dignore (on_chip mii_cleanup)) (\<lambda>_. smi_cleanup_pins smi)"

datatype rtl8366_type = RTL8366_TYPE_UNKNOWN | RTL8366_TYPE_S | RTL8366_TYPE_RB

definition rtl8366_smi_detect :: "(pin \<Rightarrow> int) \<Rightarrow> (wire \<Rightarrow> bool) \<Rightarrow> wire \<Rightarrow> rtl8366_type" where
  "rtl8366_smi_detect req sense w =
     (if req SDA \<noteq> 0 \<or> req SCK \<noteq> 0 then RTL8366_TYPE_UNKNOWN
      else case fst (rtl8366_smi_read_reg sense 0xA9 0x5C w) of
        Inl _ \<Rightarrow> RTL8366_TYPE_UNKNOWN
      | Inr reg \<Rightarrow>
          if reg = 0x6027 then RTL8366_TYPE_S
          else if reg = 0x5937 then RTL8366_TYPE_RB
          else RTL8366_TYPE_UNKNOWN)"

end
