(* ===== verification/Rtl8366s.thy ===== *)
theory Rtl8366s
  imports Rtl8366_Smi
begin

text \<open>
  The RTL8366S chip
  (\<open>src/openwrt/target/linux/generic/files/drivers/net/phy/rtl8366s.c\<close>): what the operations of
  the common driver and the attributes of the switch are in terms of its registers.  \<open>rg\<close> is the
  bus; a variable that the code leaves without a value when a read fails is an argument \<open>junk\<close>.
\<close>

section \<open>Reset and PHYs\<close>

text \<open>The loop of the reset, with the number of turns that are left.\<close>

fun reset_chip_loop :: "'c regs \<Rightarrow> nat \<Rightarrow> ('c, unit) drv" where
  "reset_chip_loop rg 0 c = (Inl EIO, c)"
| "reset_chip_loop rg (Suc timeout) c =
     (case reg_read rg 0x0100 c of
        (Inl _, c') \<Rightarrow> (Inl EIO, c')
      | (Inr data, c') \<Rightarrow> if data AND 1 = 0 then (Inr (), c') else reset_chip_loop rg timeout c')"

definition rtl8366s_reset_chip :: "'c regs \<Rightarrow> ('c, unit) drv" where
  "rtl8366s_reset_chip rg = dbind (dignore (reg_write_noack rg 0x0100 1)) (\<lambda>_. reset_chip_loop rg 10)"

definition phy_reg :: "nat \<Rightarrow> u32 \<Rightarrow> u32 \<Rightarrow> u32" where
  "phy_reg phy_no page addr =
     0x8000 OR push_bit (phy_no + 9) 1 OR (push_bit 5 page AND push_bit 5 7) OR (addr AND 0x1F)"

definition rtl8366s_read_phy_reg :: "'c regs \<Rightarrow> nat \<Rightarrow> u32 \<Rightarrow> u32 \<Rightarrow> ('c, u32) drv" where
  "rtl8366s_read_phy_reg rg phy_no page addr =
     (if phy_no > 4 then derr EINVAL
      else if page > 7 then derr EINVAL
      else if addr > 31 then derr EINVAL
      else dbind (reg_write rg 0x8028 1) (\<lambda>_.
           dbind (reg_write rg (phy_reg phy_no page addr) 0) (\<lambda>_.
           reg_read rg 0x8029)))"

definition rtl8366s_write_phy_reg :: "'c regs \<Rightarrow> nat \<Rightarrow> u32 \<Rightarrow> u32 \<Rightarrow> u32 \<Rightarrow> ('c, unit) drv" where
  "rtl8366s_write_phy_reg rg phy_no page addr data =
     (if phy_no > 4 then derr EINVAL
      else if page > 7 then derr EINVAL
      else if addr > 31 then derr EINVAL
      else dbind (reg_write rg 0x8028 0) (\<lambda>_. reg_write rg (phy_reg phy_no page addr) data))"

definition rtl8366s_mii_read :: "'c regs \<Rightarrow> nat \<Rightarrow> u32 \<Rightarrow> 'c \<Rightarrow> u32 \<times> 'c" where
  "rtl8366s_mii_read rg addr reg c =
     (case rtl8366s_read_phy_reg rg addr 0 reg c of (Inl _, c') \<Rightarrow> (0xFFFF, c') | (Inr v, c') \<Rightarrow> (v, c'))"

definition rtl8366s_mii_write :: "'c regs \<Rightarrow> nat \<Rightarrow> u32 \<Rightarrow> u16 \<Rightarrow> ('c, unit) drv" where
  "rtl8366s_mii_write rg addr reg val c =
     (let (r, c1) = rtl8366s_write_phy_reg rg addr 0 reg (ucast val) c in
      (r, snd (rtl8366s_read_phy_reg rg addr 0 reg c1)))"

section \<open>Setup\<close>

definition rtl8366s_set_green_port :: "'c regs \<Rightarrow> nat \<Rightarrow> int \<Rightarrow> ('c, unit) drv" where
  "rtl8366s_set_green_port rg port enable =
     (if port \<ge> 6 then derr EINVAL
      else dbind (rtl8366s_read_phy_reg rg port 0 12) (\<lambda>phyData.
           rtl8366s_write_phy_reg rg port 0 12
             (if enable \<noteq> 0 then phyData OR 0x1000 else phyData AND NOT 0x1000)))"

definition rtl8366s_set_green :: "'c regs \<Rightarrow> int \<Rightarrow> ('c, unit) drv" where
  "rtl8366s_set_green rg enable =
     dbind (if enable = 0 then dfor [0..<5] (\<lambda>i. dignore (rtl8366s_set_green_port rg i 0)) else dret ()) (\<lambda>_.
     rtl8366_smi_rmwr rg 0x000A 0x0018 (if enable \<noteq> 0 then push_bit 3 1 OR push_bit 4 1 else 0))"

text \<open>Initial values: register and value in turn, a register without value at the end is left out.\<close>

fun init_pairs :: "u32 list \<Rightarrow> (u32 \<times> u32) list" where
  "init_pairs (reg # val # cells) = (reg, val) # init_pairs cells"
| "init_pairs cells = []"

text \<open>
  \<open>initvals\<close> is what the platform data gives, \<open>dts\<close> the cells of the property
  \<open>realtek,initvals\<close>, if there is one, and \<open>green\<close> whether the device tree asks for Green Ethernet.
\<close>

definition rtl8366s_setup :: "'c regs \<Rightarrow> (u32 \<times> u32) list \<Rightarrow> u32 list option \<Rightarrow> bool \<Rightarrow> ('c, unit) drv" where
  "rtl8366s_setup rg initvals dts green =
     dbind (dfor initvals (\<lambda>(reg, val). reg_write rg reg val)) (\<lambda>_.
     dbind (case dts of
              None \<Rightarrow> dret ()
            | Some cells \<Rightarrow>
                if length cells < 2 then derr EINVAL
                else dfor (init_pairs cells) (\<lambda>(reg, val). reg_write rg reg val)) (\<lambda>_.
     dbind (if green
            then dbind (rtl8366s_set_green rg 1) (\<lambda>_. dfor [0..<5] (\<lambda>i. rtl8366s_set_green_port rg i 1))
            else dret ()) (\<lambda>_.
     dbind (rtl8366_smi_rmwr rg 0x0000 (push_bit 4 3) (push_bit 4 1)) (\<lambda>_.
     dbind (reg_write rg 0x0002 0) (\<lambda>_.
     dbind (reg_write rg 0x0003 0) (\<lambda>_.
     dbind (reg_write rg 0x0379 0x3F) (\<lambda>_.
     rtl8366_smi_rmwr rg 0x0004 1 0)))))))"

definition rtl8366s_detect :: "'c regs \<Rightarrow> ('c, unit) drv" where
  "rtl8366s_detect rg =
     dbind (reg_read rg 0x0105) (\<lambda>chip_id.
     if chip_id \<noteq> 0x8366 then derr ENODEV
     else dbind (reg_read rg 0x0104) (\<lambda>chip_ver. dret ()))"

section \<open>Counters\<close>

text \<open>The base, the offset and the length in registers of each counter.\<close>

definition rtl8366s_mib_counters :: "(nat \<times> nat \<times> nat) list" where
  "rtl8366s_mib_counters =
     [(0, 0, 4), (0, 4, 4), (0, 8, 2), (0, 10, 2), (0, 12, 2), (0, 14, 2), (0, 16, 2), (0, 18, 2), (0, 20, 2),
      (0, 22, 2), (0, 24, 2), (0, 26, 2), (0, 28, 2), (0, 30, 2), (0, 32, 2), (0, 34, 2), (0, 36, 2), (0, 38, 2),
      (0, 40, 2), (0, 42, 2), (0, 44, 4), (0, 48, 2), (0, 50, 2), (0, 52, 2), (0, 54, 2), (0, 56, 2), (0, 58, 2),
      (0, 60, 2), (0, 62, 2), (1, 0, 2), (1, 2, 2), (1, 4, 2), (1, 6, 2)]"

text \<open>The registers of the counter, the last one first.\<close>

fun read_counter :: "'c regs \<Rightarrow> u32 \<Rightarrow> nat \<Rightarrow> 64 word \<Rightarrow> ('c, 64 word) drv" where
  "read_counter rg addr 0 mibvalue = dret mibvalue"
| "read_counter rg addr (Suc i) mibvalue =
     dbind (reg_read rg (addr + word_of_nat i)) (\<lambda>data.
     read_counter rg addr i (push_bit 16 mibvalue OR ucast (data AND 0xFFFF)))"

definition counter_addr :: "nat \<Rightarrow> nat \<Rightarrow> nat" where
  "counter_addr counter port =
     (case rtl8366s_mib_counters ! counter of (base, offset, len) \<Rightarrow>
        (if base = 0 then 0x1000 + 0x0040 * port else 0x1180 + 0x0008 * port) + offset)"

definition rtl8366_get_mib_counter :: "'c regs \<Rightarrow> nat \<Rightarrow> nat \<Rightarrow> ('c, 64 word) drv" where
  "rtl8366_get_mib_counter rg counter port =
     (if port > 6 \<or> counter \<ge> 33 then derr EINVAL
      else let addr = word_of_nat (counter_addr counter port) in
        dbind (reg_write rg addr 0) (\<lambda>_.
        dbind (reg_read rg 0x11F0) (\<lambda>data.
        if data AND 1 \<noteq> 0 then derr EBUSY
        else if data AND 2 \<noteq> 0 then derr EIO
        else read_counter rg addr (snd (snd (rtl8366s_mib_counters ! counter))) 0)))"

section \<open>VLAN tables\<close>

text \<open>Members, untagged ports and filter id share the second word of an entry.\<close>

definition pack_ports :: "u16 \<Rightarrow> u16 \<Rightarrow> u8 \<Rightarrow> u32" where
  "pack_ports member untag fid =
     (ucast member AND 0x3F) OR push_bit 6 (ucast untag AND 0x3F) OR push_bit 12 (ucast fid AND 7)"

definition unpack_member :: "u32 \<Rightarrow> u16" where "unpack_member w = ucast (w AND 0x3F)"
definition unpack_untag :: "u32 \<Rightarrow> u16" where "unpack_untag w = ucast (drop_bit 6 w AND 0x3F)"
definition unpack_fid :: "u32 \<Rightarrow> u8" where "unpack_fid w = ucast (drop_bit 12 w AND 7)"

definition rtl8366s_get_vlan_4k :: "'c regs \<Rightarrow> u32 \<Rightarrow> ('c, vlan_4k) drv" where
  "rtl8366s_get_vlan_4k rg vid =
     (if vid \<ge> 4096 then derr EINVAL
      else dbind (reg_write rg 0x0185 (vid AND 0xFFF)) (\<lambda>_.
           dbind (reg_write rg 0x0180 0x0E01) (\<lambda>_.
           dbind (reg_read rg 0x018B) (\<lambda>data0.
           dbind (reg_read rg 0x018C) (\<lambda>data1.
           dret \<lparr>v4_vid = ucast vid, v4_untag = unpack_untag data1, v4_member = unpack_member data1,
                 v4_fid = unpack_fid data1\<rparr>)))))"

definition rtl8366s_set_vlan_4k :: "'c regs \<Rightarrow> vlan_4k \<Rightarrow> ('c, unit) drv" where
  "rtl8366s_set_vlan_4k rg vlan4k =
     (if v4_vid vlan4k \<ge> 4096 \<or> v4_member vlan4k > 0x3F \<or> v4_untag vlan4k > 0x3F \<or> v4_fid vlan4k > 7
      then derr EINVAL
      else dbind (reg_write rg 0x0185 (ucast (v4_vid vlan4k) AND 0xFFF)) (\<lambda>_.
           dbind (reg_write rg 0x0186 (pack_ports (v4_member vlan4k) (v4_untag vlan4k) (v4_fid vlan4k))) (\<lambda>_.
           reg_write rg 0x0180 0x0F01)))"

definition mc_base :: "nat \<Rightarrow> u32" where
  "mc_base index = 0x0016 + word_of_nat index * 2"

definition pack_vid :: "u16 \<Rightarrow> u8 \<Rightarrow> u32" where
  "pack_vid vid priority = (ucast vid AND 0xFFF) OR push_bit 12 (ucast priority AND 7)"

definition rtl8366s_get_vlan_mc :: "'c regs \<Rightarrow> nat \<Rightarrow> ('c, vlan_mc) drv" where
  "rtl8366s_get_vlan_mc rg index =
     (if index \<ge> 16 then derr EINVAL
      else dbind (reg_read rg (mc_base index)) (\<lambda>data0.
           dbind (reg_read rg (mc_base index + 1)) (\<lambda>data1.
           dret \<lparr>mc_vid = ucast (data0 AND 0xFFF), mc_untag = unpack_untag data1, mc_member = unpack_member data1,
                 mc_fid = unpack_fid data1, mc_priority = ucast (drop_bit 12 data0 AND 7)\<rparr>)))"

definition rtl8366s_set_vlan_mc :: "'c regs \<Rightarrow> nat \<Rightarrow> vlan_mc \<Rightarrow> ('c, unit) drv" where
  "rtl8366s_set_vlan_mc rg index vlanmc =
     (if index \<ge> 16 \<or> mc_vid vlanmc \<ge> 4096 \<or> mc_priority vlanmc > 7 \<or> mc_member vlanmc > 0x3F \<or>
         mc_untag vlanmc > 0x3F \<or> mc_fid vlanmc > 7
      then derr EINVAL
      else dbind (reg_write rg (mc_base index) (pack_vid (mc_vid vlanmc) (mc_priority vlanmc))) (\<lambda>_.
           reg_write rg (mc_base index + 1) (pack_ports (mc_member vlanmc) (mc_untag vlanmc) (mc_fid vlanmc))))"

definition port_vlan_ctrl_reg :: "nat \<Rightarrow> u32" where
  "port_vlan_ctrl_reg p = 0x0058 + word_of_nat (p div 4)"

definition port_vlan_ctrl_shift :: "nat \<Rightarrow> nat" where
  "port_vlan_ctrl_shift p = 4 * (p mod 4)"

definition rtl8366s_get_mc_index :: "'c regs \<Rightarrow> nat \<Rightarrow> ('c, nat) drv" where
  "rtl8366s_get_mc_index rg port =
     (if port \<ge> 6 then derr EINVAL
      else dbind (reg_read rg (port_vlan_ctrl_reg port)) (\<lambda>data.
           dret (unat (drop_bit (port_vlan_ctrl_shift port) data AND 0xF))))"

definition rtl8366s_set_mc_index :: "'c regs \<Rightarrow> nat \<Rightarrow> nat \<Rightarrow> ('c, unit) drv" where
  "rtl8366s_set_mc_index rg port index =
     (if port \<ge> 6 \<or> index \<ge> 16 then derr EINVAL
      else rtl8366_smi_rmwr rg (port_vlan_ctrl_reg port)
             (push_bit (port_vlan_ctrl_shift port) 0xF)
             (push_bit (port_vlan_ctrl_shift port) (word_of_nat index AND 0xF)))"

definition rtl8366s_enable_vlan :: "'c regs \<Rightarrow> int \<Rightarrow> ('c, unit) drv" where
  "rtl8366s_enable_vlan rg enable =
     rtl8366_smi_rmwr rg 0x0000 (push_bit 13 1) (if enable \<noteq> 0 then push_bit 13 1 else 0)"

definition rtl8366s_enable_vlan4k :: "'c regs \<Rightarrow> int \<Rightarrow> ('c, unit) drv" where
  "rtl8366s_enable_vlan4k rg enable = rtl8366_smi_rmwr rg 0x010F 1 (if enable \<noteq> 0 then 1 else 0)"

definition rtl8366s_is_vlan_valid :: "int \<Rightarrow> u32 \<Rightarrow> bool" where
  "rtl8366s_is_vlan_valid vlan4k vlan =
     (let max = (if vlan4k \<noteq> 0 then 4096 - 1 else 16) in \<not> (vlan = 0 \<or> vlan \<ge> max))"

definition rtl8366s_enable_port :: "'c regs \<Rightarrow> nat \<Rightarrow> int \<Rightarrow> ('c, unit) drv" where
  "rtl8366s_enable_port rg port enable =
     rtl8366_smi_rmwr rg 0x0001 (push_bit port 1) (if enable \<noteq> 0 then 0 else push_bit port 1)"

section \<open>Attributes of the switch\<close>

definition read_or :: "'c regs \<Rightarrow> u32 \<Rightarrow> u32 \<Rightarrow> ('c, u32) drv" where
  "read_or rg addr junk c = (case reg_read rg addr c of (Inl _, c') \<Rightarrow> (Inr junk, c') | (Inr v, c') \<Rightarrow> (Inr v, c'))"

definition rtl8366s_sw_reset_mibs :: "'c regs \<Rightarrow> ('c, unit) drv" where
  "rtl8366s_sw_reset_mibs rg = rtl8366_smi_rmwr rg 0x11F0 0 (push_bit 2 1)"

definition rtl8366s_sw_get_blinkrate :: "'c regs \<Rightarrow> u32 \<Rightarrow> ('c, u32) drv" where
  "rtl8366s_sw_get_blinkrate rg junk = dbind (read_or rg 0x0420 junk) (\<lambda>data. dret (data AND 7))"

definition rtl8366s_sw_set_blinkrate :: "'c regs \<Rightarrow> u32 \<Rightarrow> ('c, unit) drv" where
  "rtl8366s_sw_set_blinkrate rg val =
     (if val \<ge> 6 then derr EINVAL else rtl8366_smi_rmwr rg 0x0420 7 val)"

definition rtl8366s_sw_get_max_length :: "'c regs \<Rightarrow> u32 \<Rightarrow> ('c, u32) drv" where
  "rtl8366s_sw_get_max_length rg junk =
     dbind (read_or rg 0x0000 junk) (\<lambda>data. dret (drop_bit 4 (data AND push_bit 4 3)))"

definition rtl8366s_sw_set_max_length :: "'c regs \<Rightarrow> u32 \<Rightarrow> ('c, unit) drv" where
  "rtl8366s_sw_set_max_length rg val =
     (if val > 3 then derr EINVAL
      else rtl8366_smi_rmwr rg 0x0000 (push_bit 4 3) (push_bit 4 val))"

definition rtl8366s_sw_get_learning_enable :: "'c regs \<Rightarrow> u32 \<Rightarrow> ('c, bool) drv" where
  "rtl8366s_sw_get_learning_enable rg junk = dbind (read_or rg 0x0002 junk) (\<lambda>data. dret (data = 0))"

definition rtl8366s_sw_set_learning_enable :: "'c regs \<Rightarrow> u32 \<Rightarrow> ('c, unit) drv" where
  "rtl8366s_sw_set_learning_enable rg val =
     (let portmask = (if val = 0 then 0x3F else 0) in
      dbind (reg_write rg 0x0002 portmask) (\<lambda>_. reg_write rg 0x0003 portmask))"

definition rtl8366s_sw_get_green :: "'c regs \<Rightarrow> ('c, bool) drv" where
  "rtl8366s_sw_get_green rg = dbind (reg_read rg 0x000A) (\<lambda>data. dret (data AND (push_bit 3 1 OR push_bit 4 1) \<noteq> 0))"

definition rtl8366s_sw_get_green_port :: "'c regs \<Rightarrow> nat \<Rightarrow> ('c, bool) drv" where
  "rtl8366s_sw_get_green_port rg port =
     (if port \<ge> 6 then derr EINVAL
      else dbind (rtl8366s_read_phy_reg rg port 0 12) (\<lambda>phyData. dret (phyData AND 0x1000 \<noteq> 0)))"

text \<open>A read that fails leaves the variable 0, so it looks like no link.\<close>

definition rtl8366s_sw_get_port_link :: "'c regs \<Rightarrow> nat \<Rightarrow> switch_port_link \<Rightarrow> ('c, switch_port_link) drv" where
  "rtl8366s_sw_get_port_link rg port link =
     (if port \<ge> 6 then derr EINVAL
      else dbind (read_or rg (0x0060 + word_of_nat (port div 2)) 0) (\<lambda>data.
        let data = (if port mod 2 \<noteq> 0 then drop_bit 8 data else data);
            link = link\<lparr>link_link := (data AND 0x0010 \<noteq> 0)\<rparr>
        in dret (if \<not> link_link link then link
                 else link\<lparr>link_duplex := (data AND 0x0004 \<noteq> 0), link_rx_flow := (data AND 0x0040 \<noteq> 0),
                   link_tx_flow := (data AND 0x0020 \<noteq> 0), link_aneg := (data AND 0x0080 \<noteq> 0),
                   link_speed := (let speed = data AND 0x0003 in
                     if speed = 0 then SWITCH_PORT_SPEED_10 else if speed = 1 then SWITCH_PORT_SPEED_100
                     else if speed = 2 then SWITCH_PORT_SPEED_1000 else SWITCH_PORT_SPEED_UNKNOWN)\<rparr>)))"

definition rtl8366s_sw_set_port_led :: "'c regs \<Rightarrow> nat \<Rightarrow> u32 \<Rightarrow> ('c, unit) drv" where
  "rtl8366s_sw_set_port_led rg port val =
     (if port \<ge> 6 \<or> port = 4 then derr EINVAL
      else if port = 5 then rtl8366_smi_rmwr rg 0x0420 (push_bit 4 0xF) (push_bit 4 val)
      else rtl8366_smi_rmwr rg 0x0421 (push_bit (port * 4) 0xF) (push_bit (port * 4) val))"

definition rtl8366s_sw_get_port_led :: "'c regs \<Rightarrow> nat \<Rightarrow> ('c, u32) drv" where
  "rtl8366s_sw_get_port_led rg port =
     (if port \<ge> 4 then derr EINVAL
      else dbind (read_or rg 0x0421 0) (\<lambda>data. dret (drop_bit (port * 4) data AND 0x000F)))"

definition rtl8366s_sw_reset_port_mibs :: "'c regs \<Rightarrow> nat \<Rightarrow> ('c, unit) drv" where
  "rtl8366s_sw_reset_port_mibs rg port =
     (if port \<ge> 6 then derr EINVAL else rtl8366_smi_rmwr rg 0x11F0 0 (push_bit (port + 3) 1))"

section \<open>The chip\<close>

definition rtl8366s_smi_ops :: "'c regs \<Rightarrow> (u32 \<times> u32) list \<Rightarrow> u32 list option \<Rightarrow> bool \<Rightarrow> 'c rtl_ops" where
  "rtl8366s_smi_ops rg initvals dts green =
     \<lparr>detect = rtl8366s_detect rg, reset_chip = rtl8366s_reset_chip rg, setup_chip = rtl8366s_setup rg initvals dts green,
      get_vlan_mc = rtl8366s_get_vlan_mc rg, set_vlan_mc = rtl8366s_set_vlan_mc rg,
      get_vlan_4k = rtl8366s_get_vlan_4k rg, set_vlan_4k = rtl8366s_set_vlan_4k rg,
      get_mc_index = rtl8366s_get_mc_index rg, set_mc_index = rtl8366s_set_mc_index rg,
      get_mib_counter = rtl8366_get_mib_counter rg, is_vlan_valid = rtl8366s_is_vlan_valid,
      enable_vlan = rtl8366s_enable_vlan rg, enable_vlan4k = rtl8366s_enable_vlan4k rg,
      enable_port = rtl8366s_enable_port rg\<rparr>"

text \<open>What \<open>rtl8366s_probe\<close> sets up.\<close>

definition rtl8366s :: "'c regs \<Rightarrow> (bool \<Rightarrow> 'c \<Rightarrow> 'c) option \<Rightarrow> (u32 \<times> u32) list \<Rightarrow> u32 list option \<Rightarrow> bool \<Rightarrow> 'c rtl" where
  "rtl8366s rg reset initvals dts green =
     \<lparr>ops = rtl8366s_smi_ops rg initvals dts green, hw_reset = reset, cpu_port = 5, num_ports = 6, num_vlan_mc = 16\<rparr>"

definition rtl8366s_sw_get_port_stats :: "'c rtl \<Rightarrow> nat \<Rightarrow> ('c smi, 64 word \<times> 64 word) drv" where
  "rtl8366s_sw_get_port_stats smi port = rtl8366_sw_get_port_stats smi port 20 0"

end
