(* ===== verification/Rtl8366s_Switch.thy ===== *)
theory Rtl8366s_Switch
  imports Rtl8366s Swconfig_Netlink
begin

text \<open>
  The RTL8366S as a switch of the switch configuration: the tables of attributes and operations in
  \<open>src/openwrt/target/linux/generic/files/drivers/net/phy/rtl8366s.c\<close>, and the two texts that
  \<open>rtl8366_smi.c\<close> makes for it.  The buffer of 4096 bytes for these texts is never full.  \<open>junk\<close> is
  what a variable holds that a failed read has not written.
\<close>

section \<open>Texts\<close>

text \<open>\<open>%-36s\<close> and \<open>%04x\<close>\<close>

definition pad_right :: "nat \<Rightarrow> string \<Rightarrow> string" where
  "pad_right n s = s @ replicate (n - length s) CHR '' ''"

definition pad_zeros :: "nat \<Rightarrow> string \<Rightarrow> string" where
  "pad_zeros n s = replicate (n - length s) CHR ''0'' @ s"

definition NL :: string where "NL = [CHR 0x0A]"

text \<open>The counters one after the other; \<open>i\<close> is the number of the next.\<close>

fun port_mib_loop :: "'c rtl \<Rightarrow> nat \<Rightarrow> nat \<Rightarrow> string list \<Rightarrow> 'c \<Rightarrow> string \<times> 'c" where
  "port_mib_loop smi port i [] c = ([], c)"
| "port_mib_loop smi port i (name # names) c =
     (let (r, c) = get_mib_counter (ops smi) i port c;
          value = (case r of Inr counter \<Rightarrow> show_nat (unat counter) | Inl _ \<Rightarrow> ''error'');
          (rest, c) = port_mib_loop smi port (i + 1) names c
      in (pad_right 36 name @ '': '' @ value @ NL @ rest, c))"

definition rtl8366_sw_get_port_mib :: "string list \<Rightarrow> 'c rtl \<Rightarrow> nat \<Rightarrow> ('c smi, string) drv" where
  "rtl8366_sw_get_port_mib names smi port =
     (if port \<ge> num_ports smi then derr EINVAL
      else on_chip (\<lambda>c.
        let (s, c) = port_mib_loop smi port 0 names c
        in (Inr (''Port '' @ show_nat port @ '' MIB counters'' @ NL @ s), c)))"

definition vlan_info :: "vlan_4k \<Rightarrow> nat list \<Rightarrow> string" where
  "vlan_info vlan4k ports =
     ''VLAN '' @ show_nat (unat (v4_vid vlan4k)) @ '': Ports: '' @ [CHR 0x27] @
     concat (map (\<lambda>i. show_nat i @ (if bit (v4_untag vlan4k) i then [] else ''t'')) (filter (bit (v4_member vlan4k)) ports)) @
     [CHR 0x27] @ '', members='' @ pad_zeros 4 (show_hex (unat (v4_member vlan4k))) @
     '', untag='' @ pad_zeros 4 (show_hex (unat (v4_untag vlan4k))) @
     '', fid='' @ show_nat (unat (v4_fid vlan4k))"

definition rtl8366_sw_get_vlan_info :: "'c rtl \<Rightarrow> u32 \<Rightarrow> ('c smi, string) drv" where
  "rtl8366_sw_get_vlan_info smi vid =
     valid_then smi vid (on_chip (dbind (get_vlan_4k (ops smi) vid) (\<lambda>vlan4k.
       dret (vlan_info vlan4k [0..<num_ports smi]))))"

text \<open>The names in \<open>rtl8366s_mib_counters\<close>.\<close>

definition rtl8366s_mib_names :: "string list" where
  "rtl8366s_mib_names =
     [''IfInOctets'', ''EtherStatsOctets'', ''EtherStatsUnderSizePkts'', ''EtherFragments'',
      ''EtherStatsPkts64Octets'', ''EtherStatsPkts65to127Octets'', ''EtherStatsPkts128to255Octets'',
      ''EtherStatsPkts256to511Octets'', ''EtherStatsPkts512to1023Octets'', ''EtherStatsPkts1024to1518Octets'',
      ''EtherOversizeStats'', ''EtherStatsJabbers'', ''IfInUcastPkts'', ''EtherStatsMulticastPkts'',
      ''EtherStatsBroadcastPkts'', ''EtherStatsDropEvents'', ''Dot3StatsFCSErrors'', ''Dot3StatsSymbolErrors'',
      ''Dot3InPauseFrames'', ''Dot3ControlInUnknownOpcodes'', ''IfOutOctets'', ''Dot3StatsSingleCollisionFrames'',
      ''Dot3StatMultipleCollisionFrames'', ''Dot3sDeferredTransmissions'', ''Dot3StatsLateCollisions'',
      ''EtherStatsCollisions'', ''Dot3StatsExcessiveCollisions'', ''Dot3OutPauseFrames'',
      ''Dot1dBasePortDelayExceededDiscards'', ''Dot1dTpPortInDiscards'', ''IfOutUcastPkts'',
      ''IfOutMulticastPkts'', ''IfOutBroadcastPkts'']"

section \<open>Attributes\<close>

definition as_value :: "('a \<Rightarrow> switch_value) \<Rightarrow> ('s, 'a) drv \<Rightarrow> ('s, switch_value) drv" where
  "as_value f m = dbind m (\<lambda>a. dret (f a))"

definition V_bool :: "bool \<Rightarrow> switch_value" where
  "V_bool b = V_int (if b then 1 else 0)"

definition int_attr :: "string \<Rightarrow> string \<Rightarrow> (switch_val \<Rightarrow> ('c, unit) drv) \<Rightarrow> (switch_val \<Rightarrow> ('c, switch_value) drv) \<Rightarrow> 'c switch_attr" where
  "int_attr name description f g =
     \<lparr>at_disabled = False, at_type = SWITCH_TYPE_INT, at_name = name, at_description = Some description,
      at_set = Some f, at_get = Some g\<rparr>"

definition noval_attr :: "string \<Rightarrow> string \<Rightarrow> (switch_val \<Rightarrow> ('c, unit) drv) \<Rightarrow> 'c switch_attr" where
  "noval_attr name description f =
     \<lparr>at_disabled = False, at_type = SWITCH_TYPE_NOVAL, at_name = name, at_description = Some description,
      at_set = Some f, at_get = None\<rparr>"

definition string_attr :: "string \<Rightarrow> string \<Rightarrow> (switch_val \<Rightarrow> ('c, switch_value) drv) \<Rightarrow> 'c switch_attr" where
  "string_attr name description g =
     \<lparr>at_disabled = False, at_type = SWITCH_TYPE_STRING, at_name = name, at_description = Some description,
      at_set = None, at_get = Some g\<rparr>"

definition rtl8366s_globals :: "'c regs \<Rightarrow> u32 \<Rightarrow> 'c rtl \<Rightarrow> 'c smi switch_attr list" where
  "rtl8366s_globals rg junk smi =
     [int_attr ''enable_learning'' ''Enable learning, enable aging''
        (\<lambda>v. on_chip (rtl8366s_sw_set_learning_enable rg (value_i (sv_value v))))
        (\<lambda>v. as_value V_bool (on_chip (rtl8366s_sw_get_learning_enable rg junk))),
      int_attr ''enable_vlan'' ''Enable VLAN mode''
        (\<lambda>v. rtl8366_sw_set_vlan_enable smi 1 (sint (value_i (sv_value v))))
        (\<lambda>v. as_value (\<lambda>i. V_int (word_of_int i)) (rtl8366_sw_get_vlan_enable 1)),
      int_attr ''enable_vlan4k'' ''Enable VLAN 4K mode''
        (\<lambda>v. rtl8366_sw_set_vlan_enable smi 2 (sint (value_i (sv_value v))))
        (\<lambda>v. as_value (\<lambda>i. V_int (word_of_int i)) (rtl8366_sw_get_vlan_enable 2)),
      noval_attr ''reset_mibs'' ''Reset all MIB counters'' (\<lambda>v. on_chip (rtl8366s_sw_reset_mibs rg)),
      int_attr ''blinkrate''
        ''Get/Set LED blinking rate (0 = 43ms, 1 = 84ms, 2 = 120ms, 3 = 170ms, 4 = 340ms, 5 = 670ms)''
        (\<lambda>v. on_chip (rtl8366s_sw_set_blinkrate rg (value_i (sv_value v))))
        (\<lambda>v. as_value V_int (on_chip (rtl8366s_sw_get_blinkrate rg junk))),
      int_attr ''max_length''
        ''Get/Set the maximum length of valid packets (0 = 1522, 1 = 1536, 2 = 1552, 3 = 16000 (9216?))''
        (\<lambda>v. on_chip (rtl8366s_sw_set_max_length rg (value_i (sv_value v))))
        (\<lambda>v. as_value V_int (on_chip (rtl8366s_sw_get_max_length rg junk))),
      int_attr ''green_mode'' ''Get/Set the router green feature''
        (\<lambda>v. on_chip (rtl8366s_set_green rg (sint (value_i (sv_value v)))))
        (\<lambda>v. as_value V_bool (on_chip (rtl8366s_sw_get_green rg)))]"

definition rtl8366s_port :: "'c regs \<Rightarrow> 'c rtl \<Rightarrow> 'c smi switch_attr list" where
  "rtl8366s_port rg smi =
     [noval_attr ''reset_mib'' ''Reset single port MIB counters''
        (\<lambda>v. on_chip (rtl8366s_sw_reset_port_mibs rg (unat (sv_port_vlan v)))),
      string_attr ''mib'' ''Get MIB counters for port''
        (\<lambda>v. as_value V_str (rtl8366_sw_get_port_mib rtl8366s_mib_names smi (unat (sv_port_vlan v)))),
      int_attr ''led'' ''Get/Set port group (0 - 3) led mode (0 - 15)''
        (\<lambda>v. on_chip (rtl8366s_sw_set_port_led rg (unat (sv_port_vlan v)) (value_i (sv_value v))))
        (\<lambda>v. as_value V_int (on_chip (rtl8366s_sw_get_port_led rg (unat (sv_port_vlan v))))),
      int_attr ''green_port'' ''Get/Set port green feature (0 - 1)''
        (\<lambda>v. on_chip (rtl8366s_set_green_port rg (unat (sv_port_vlan v)) (sint (value_i (sv_value v)))))
        (\<lambda>v. as_value V_bool (on_chip (rtl8366s_sw_get_green_port rg (unat (sv_port_vlan v)))))]"

definition rtl8366s_vlan :: "'c rtl \<Rightarrow> 'c smi switch_attr list" where
  "rtl8366s_vlan smi =
     [string_attr ''info'' ''Get vlan information''
        (\<lambda>v. as_value V_str (rtl8366_sw_get_vlan_info smi (sv_port_vlan v))),
      int_attr ''fid'' ''Get/Set vlan FID''
        (\<lambda>v. rtl8366_sw_set_vlan_fid smi 7 (sv_port_vlan v) (value_i (sv_value v)))
        (\<lambda>v. as_value (\<lambda>fid. V_int (ucast fid)) (rtl8366_sw_get_vlan_fid smi (sv_port_vlan v)))]"

definition rtl8366_ops :: "'c regs \<Rightarrow> u32 \<Rightarrow> 'c rtl \<Rightarrow> 'c smi switch_dev_ops" where
  "rtl8366_ops rg junk smi =
     \<lparr>attr_global = rtl8366s_globals rg junk smi, attr_port = rtl8366s_port rg smi, attr_vlan = rtl8366s_vlan smi,
      op_get_vlan_ports = Some (rtl8366_sw_get_vlan_ports smi),
      op_set_vlan_ports = Some (rtl8366_sw_set_vlan_ports smi),
      op_get_port_pvid = Some (\<lambda>port. dbind (rtl8366_sw_get_port_pvid smi port) (\<lambda>vid. dret (ucast vid))),
      op_set_port_pvid = Some (rtl8366_sw_set_port_pvid smi),
      op_apply_config = None,
      op_reset_switch = Some (rtl8366_sw_reset_switch smi),
      op_get_port_link = Some (\<lambda>port link. on_chip (rtl8366s_sw_get_port_link rg port link)),
      op_set_port_link = None,
      op_get_port_stats = Some (rtl8366s_sw_get_port_stats smi),
      op_phy_write16 = None\<rparr>"

text \<open>\<open>rtl8366s_switch_init\<close>; \<open>parent\<close> is the name of the device of the driver.\<close>

definition rtl8366s_switch :: "'c regs \<Rightarrow> u32 \<Rightarrow> 'c rtl \<Rightarrow> string \<Rightarrow> 'c smi \<Rightarrow> 'c smi switch_dev" where
  "rtl8366s_switch rg junk smi parent st =
     \<lparr>sd_ops = rtl8366_ops rg junk smi, sd_state = st, sd_devname = [], sd_name = ''RTL8366S'', sd_alias = Some parent,
      sd_ports = 6, sd_vlans = 4096, sd_cpu_port = 5, sd_id = 0, sd_def_global = {}, sd_def_port = {},
      sd_def_vlan = {}, sd_portmap = []\<rparr>"

definition rtl8366s_switch_init ::
  "reg_env \<Rightarrow> 'c regs \<Rightarrow> u32 \<Rightarrow> 'c rtl \<Rightarrow> string \<Rightarrow> 'c smi \<Rightarrow> 'c smi swcfg \<Rightarrow> ((int + unit) \<times> 'c smi swcfg) option" where
  "rtl8366s_switch_init env rg junk smi parent st = register_switch env (rtl8366s_switch rg junk smi parent st) None"

end
