(* ===== verification/Swconfig_Facts.thy ===== *)
theory Swconfig_Facts
  imports Swconfig_Netlink
begin

text \<open>
  What the switch configuration keeps true: the list of switches and their names, what a driver is
  asked, and the messages that answer a request.
\<close>

section \<open>Device numbers\<close>

lemma dropWhile_digits: "cs \<noteq> [] \<Longrightarrow> (\<And>c. c \<in> set cs \<Longrightarrow> isdigit c) \<Longrightarrow> dropWhile isspace cs = cs"
  by (cases cs) (force simp: isdigit_def isspace_def Let_def)+

text \<open>A name the kernel gave to a switch reads back as its number.\<close>

lemma scan_switch_name [simp]: "scan_switch (''switch'' @ show_nat i) = Some (int i)"
proof -
  have digits: "isdigit c" if "c \<in> set (show_nat i)" for c
    using that show_nat_digits digit_in_10 by blast
  then have t: "takeWhile isdigit (show_nat i) = show_nat i" and d: "dropWhile isspace (show_nat i) = show_nat i"
    by (simp_all add: dropWhile_digits)
  have "hd (show_nat i) \<noteq> CHR ''-''"
    using digits [of "hd (show_nat i)"] by (auto simp: isdigit_def)
  then show ?thesis by (simp add: scan_switch_def d Let_def t del: takeWhile_eq_all_conv)
qed

lemma switch_name_inj: "''switch'' @ show_nat i = ''switch'' @ show_nat j \<longleftrightarrow> i = j"
  using scan_switch_name by (metis of_nat_eq_iff option.inject)

definition named_below :: "nat \<Rightarrow> 'c switch_dev \<Rightarrow> bool" where
  "named_below n dev \<longleftrightarrow> (\<exists>i < n. sd_devname dev = ''switch'' @ show_nat i)"

lemma in_use_names:
  "(\<forall>dev \<in> set devs. named_below n dev)
   \<Longrightarrow> in_use_loop n devs u = Some (u \<union> {i. \<exists>dev \<in> set devs. sd_devname dev = ''switch'' @ show_nat i})"
proof (induction devs arbitrary: u)
  case (Cons dev devs)
  then obtain i where i: "i < n" "sd_devname dev = ''switch'' @ show_nat i"
    by (auto simp: named_below_def)
  have "in_use_loop n (dev # devs) u = in_use_loop n devs (insert i u)"
    using i by (simp del: append_Cons)
  also have "\<dots> = Some (insert i u \<union> {i. \<exists>dev \<in> set devs. sd_devname dev = ''switch'' @ show_nat i})"
    using Cons by (simp del: append_Cons)
  finally show ?case
    using i(2) switch_name_inj by (auto simp del: append_Cons)
qed simp

lemma find_first_zero_bit:
  "find_first_zero_bit u n \<le> n"
  "find_first_zero_bit u n < n \<Longrightarrow> find_first_zero_bit u n \<notin> u"
  "i < find_first_zero_bit u n \<Longrightarrow> i \<in> u"
proof -
  have "(case List.find (\<lambda>i. i \<notin> u) [0..<n] of
      None \<Rightarrow> \<forall>i < n. i \<in> u
    | Some k \<Rightarrow> k < n \<and> k \<notin> u \<and> (\<forall>i < k. i \<in> u))"
    by (auto simp: find_None_iff find_Some_iff split: option.split)
  then show "find_first_zero_bit u n \<le> n" "find_first_zero_bit u n < n \<Longrightarrow> find_first_zero_bit u n \<notin> u"
    "i < find_first_zero_bit u n \<Longrightarrow> i \<in> u"
    by (auto simp: find_first_zero_bit_def split: option.splits)
qed


section \<open>The list of switches\<close>

text \<open>The calls that change the list or the driver of a switch, on a machine whose \<open>long\<close> has \<open>L\<close> bits.\<close>

inductive sw_reach :: "nat \<Rightarrow> 'c swcfg \<Rightarrow> bool" for L where
  init: "sw_reach L swconfig_init"
| register: "sw_reach L s \<Longrightarrow> re_long env = L \<Longrightarrow> register_switch env dev netdev s = Some (r, s') \<Longrightarrow> sw_reach L s'"
| unregister: "sw_reach L s \<Longrightarrow> sw_reach L (unregister_switch k s)"
| set_attr: "sw_reach L s \<Longrightarrow> swconfig_set_attr admin info s = Some (r, s') \<Longrightarrow> sw_reach L s'"
| get_attr: "sw_reach L s \<Longrightarrow> swconfig_get_attr env info s n = Some (err, s', n') \<Longrightarrow> sw_reach L s'"

definition dev_ok :: "nat \<Rightarrow> u32 \<Rightarrow> 'c switch_dev \<Rightarrow> bool" where
  "dev_ok L last_id dev \<longleftrightarrow> named_below L dev \<and> 0 < sd_id dev \<and> sd_id dev \<le> last_id \<and> sd_alias dev \<noteq> None \<and>
     length (sd_portmap dev) = unat (sd_ports dev)"

definition registry_inv :: "nat \<Rightarrow> 'c swcfg \<Rightarrow> bool" where
  "registry_inv L s \<longleftrightarrow> swdev_id s \<le> 0x7FFFFFFF \<and> distinct (map sd_id (swdevs s)) \<and>
     distinct (map sd_devname (swdevs s)) \<and> (\<forall>dev \<in> set (swdevs s). dev_ok L (swdev_id s) dev)"

lemma map_update_same: "f x = f (xs ! k) \<Longrightarrow> map f (xs[k := x]) = map f xs"
  by (metis list_update_id map_update)

lemma registry_call_driver: "registry_inv L s \<Longrightarrow> registry_inv L (snd (call_driver k f s))"
proof -
  assume inv: "registry_inv L s"
  show ?thesis
  proof (cases "k < length (swdevs s)")
    case True
    then have "swdevs s ! k \<in> set (swdevs s)" by simp
    then show ?thesis
      using inv
      by (auto simp: registry_inv_def call_driver_def Let_def map_update_same dev_ok_def named_below_def
          split: prod.split dest!: subsetD [OF set_update_subset_insert])
  next
    case False
    then show ?thesis using inv by (simp add: call_driver_def Let_def list_update_beyond split: prod.split)
  qed
qed

lemma registry_set_attr:
  "swconfig_set_attr admin info s = Some (r, s') \<Longrightarrow> registry_inv L s \<Longrightarrow> registry_inv L s'"
  using registry_call_driver [of L s] by (fastforce simp: swconfig_set_attr_def split: if_splits option.splits dest: sndI)

lemma registry_get_attr:
  assumes "swconfig_get_attr env info s n = Some (err, s', n')" "registry_inv L s"
  shows "registry_inv L s'"
proof (cases "swconfig_get_dev s info")
  case (Some k)
  have "s' = snd (call_driver k (get_attr_dev (swdevs s ! k) info) s)"
    using assms(1) Some by (auto simp: swconfig_get_attr_def bind_eq_Some_conv split: prod.splits sum.splits)
  then show ?thesis using registry_call_driver assms(2) by blast
qed (use assms in \<open>auto simp: swconfig_get_attr_def\<close>)

lemma distinct_without: "distinct xs \<Longrightarrow> distinct (take k xs @ drop (Suc k) xs)"
  using set_take_disj_set_drop_if_distinct [of xs k "Suc k"] by simp

lemma map_without: "map f (take k xs @ drop (Suc k) xs) = take k (map f xs) @ drop (Suc k) (map f xs)"
  by (simp add: take_map drop_map)

lemma registry_unregister: "registry_inv L s \<Longrightarrow> registry_inv L (unregister_switch k s)"
  unfolding registry_inv_def unregister_switch_def
  using distinct_without [of "map sd_id (swdevs s)" k] distinct_without [of "map sd_devname (swdevs s)" k]
  by (auto simp del: map_append simp: map_without dest: in_set_takeD in_set_dropD)


lemma load_port_same [simp]:
  "sd_id (load_port port dev) = sd_id dev" "sd_alias (load_port port dev) = sd_alias dev"
  "sd_ports (load_port port dev) = sd_ports dev" "length (sd_portmap (load_port port dev)) = length (sd_portmap dev)"
  by (simp_all add: load_port_def Let_def split: option.split bool.split)

lemma load_portmap_same [simp]:
  "sd_id (of_switch_load_portmap node dev) = sd_id dev" "sd_alias (of_switch_load_portmap node dev) = sd_alias dev"
  "sd_ports (of_switch_load_portmap node dev) = sd_ports dev"
  "length (sd_portmap (of_switch_load_portmap node dev)) = length (sd_portmap dev)"
proof -
  have "sd_id (fold load_port ports dev) = sd_id dev \<and> sd_alias (fold load_port ports dev) = sd_alias dev \<and>
     sd_ports (fold load_port ports dev) = sd_ports dev \<and>
     length (sd_portmap (fold load_port ports dev)) = length (sd_portmap dev)" for ports
    by (induction ports arbitrary: dev) simp_all
  then show "sd_id (of_switch_load_portmap node dev) = sd_id dev" "sd_alias (of_switch_load_portmap node dev) = sd_alias dev"
    "sd_ports (of_switch_load_portmap node dev) = sd_ports dev"
    "length (sd_portmap (of_switch_load_portmap node dev)) = length (sd_portmap dev)"
    by (simp_all add: of_switch_load_portmap_def split: option.split)
qed

lemma defaults_init_same [simp]:
  "sd_id (swconfig_defaults_init dev) = sd_id dev" "sd_alias (swconfig_defaults_init dev) = sd_alias dev"
  "sd_ports (swconfig_defaults_init dev) = sd_ports dev" "sd_portmap (swconfig_defaults_init dev) = sd_portmap dev"
  by (simp_all add: swconfig_defaults_init_def Let_def)

text \<open>The number a new switch gets: the first that no name has.\<close>

definition new_number :: "nat \<Rightarrow> 'c swcfg \<Rightarrow> nat" where
  "new_number L s = find_first_zero_bit {i. \<exists>dev \<in> set (swdevs s). sd_devname dev = ''switch'' @ show_nat i} L"

lemma registry_in_use:
  "registry_inv L s \<Longrightarrow>
   in_use_loop L (swdevs s) {} = Some {i. \<exists>dev \<in> set (swdevs s). sd_devname dev = ''switch'' @ show_nat i}"
  by (subst in_use_names) (auto simp: registry_inv_def dev_ok_def)

lemma next_id: "i < 0x7FFFFFFF \<Longrightarrow> unat (i + 1) = unat i + 1" for i :: u32
  by (simp add: word_less_nat_alt unat_word_ariths)

text \<open>What a registration does to the list; the result may still be an error.\<close>

lemma register_cases:
  assumes "register_switch env dev netdev s = Some (r, s')" "registry_inv L s" "re_long env = L"
  obtains "s' = s" "r = Inl ENOMEM"
  | "s' = s\<lparr>swdev_id := swdev_id s + 1\<rparr>" "swdev_id s < 0x7FFFFFFF" "r = Inl ENFILE" "new_number L s = L"
  | dev' where "s' = \<lparr>swdevs = swdevs s @ [dev'], swdev_id = swdev_id s + 1\<rparr>" "swdev_id s < 0x7FFFFFFF"
      "new_number L s < L" "sd_id dev' = swdev_id s + 1" "sd_devname dev' = ''switch'' @ show_nat (new_number L s)"
      "sd_alias dev' \<noteq> None" "length (sd_portmap dev') = unat (sd_ports dev')"
      "r = (if re_led env \<noteq> 0 then Inl (re_led env) else Inr ())"
proof (cases "swdev_id s = 0x7FFFFFFF \<or> sd_ports dev > 0 \<and> \<not> re_memory env")
  case True
  then show ?thesis
    using assms that(1) by (auto simp: register_switch_def Let_def split: if_splits)
next
  case False
  then have less: "swdev_id s < 0x7FFFFFFF"
    using assms(2) by (auto simp: registry_inv_def)
  have num: "new_number L s \<le> L"
    unfolding new_number_def by (rule find_first_zero_bit)
  show ?thesis
  proof (cases "new_number L s = L")
    case True
    then show ?thesis
      using assms False less that(2)
      by (auto simp: register_switch_def Let_def registry_in_use new_number_def split: if_splits)
  next
    case n: False
    define named where "named = (if netdev \<noteq> None \<and> sd_alias dev = None then dev\<lparr>sd_alias := netdev\<rparr> else dev)"
    have same: "sd_ports named = sd_ports dev" by (simp add: named_def)
    define dev' where "dev' = (of_switch_load_portmap (re_node env)
      ((swconfig_defaults_init (named\<lparr>sd_portmap := replicate (unat (sd_ports named)) (None, 0)\<rparr>))\<lparr>sd_id := swdev_id s + 1\<rparr>))
      \<lparr>sd_devname := ''switch'' @ show_nat (new_number L s)\<rparr>"
    have "sd_alias named \<noteq> None"
      using assms(1) unfolding register_switch_def named_def [symmetric] Let_def by (simp split: if_splits)
    then have "s' = \<lparr>swdevs = swdevs s @ [dev'], swdev_id = swdev_id s + 1\<rparr>"
      "r = (if re_led env \<noteq> 0 then Inl (re_led env) else Inr ())" "sd_alias dev' \<noteq> None"
      using assms False n
      unfolding register_switch_def named_def [symmetric] Let_def same [symmetric]
      by (auto simp: dev'_def registry_in_use new_number_def)
    moreover have "sd_id dev' = swdev_id s + 1" "sd_devname dev' = ''switch'' @ show_nat (new_number L s)"
      "length (sd_portmap dev') = unat (sd_ports dev')"
      by (simp_all add: dev'_def)
    ultimately show ?thesis
      using that(3) less num n by (metis le_neq_implies_less)
  qed
qed


lemma dev_ok_mono: "dev_ok L i dev \<Longrightarrow> i \<le> j \<Longrightarrow> dev_ok L j dev"
  by (auto simp: dev_ok_def)

lemma registry_register:
  assumes "register_switch env dev netdev s = Some (r, s')" "registry_inv L s" "re_long env = L"
  shows "registry_inv L s'"
proof (rule register_cases [OF assms])
  assume "s' = s" then show ?thesis using assms(2) by simp
next
  assume s': "s' = s\<lparr>swdev_id := swdev_id s + 1\<rparr>" and less: "swdev_id s < 0x7FFFFFFF"
  have "swdev_id s \<le> swdev_id s + 1" "swdev_id s + 1 \<le> 0x7FFFFFFF"
    using less next_id [OF less] by (simp_all add: word_le_nat_alt word_less_nat_alt)
  then show ?thesis
    using assms(2) s' by (auto simp: registry_inv_def intro: dev_ok_mono)
next
  fix dev'
  assume s': "s' = \<lparr>swdevs = swdevs s @ [dev'], swdev_id = swdev_id s + 1\<rparr>" and less: "swdev_id s < 0x7FFFFFFF"
    and num: "new_number L s < L" and i: "sd_id dev' = swdev_id s + 1"
    and name: "sd_devname dev' = ''switch'' @ show_nat (new_number L s)"
    and rest: "sd_alias dev' \<noteq> None" "length (sd_portmap dev') = unat (sd_ports dev')"
  have le: "swdev_id s < swdev_id s + 1" "swdev_id s + 1 \<le> 0x7FFFFFFF"
    using less next_id [OF less] by (simp_all add: word_le_nat_alt word_less_nat_alt)
  have new: "dev_ok L (swdev_id s + 1) dev'"
    using num i name rest le(1) by (auto simp: dev_ok_def named_below_def intro: order_le_less_trans [OF word_zero_le])
  have old: "dev_ok L (swdev_id s) d" if "d \<in> set (swdevs s)" for d
    using that assms(2) by (simp add: registry_inv_def)
  have "sd_id dev' \<notin> sd_id ` set (swdevs s)"
    using old le(1) i by (fastforce simp: dev_ok_def)
  moreover have "sd_devname dev' \<notin> sd_devname ` set (swdevs s)"
    using find_first_zero_bit(2) [of "{i. \<exists>dev \<in> set (swdevs s). sd_devname dev = ''switch'' @ show_nat i}" L]
      num name by (force simp: new_number_def simp del: append_Cons)
  ultimately show ?thesis
    using assms(2) s' new old le by (auto simp: registry_inv_def intro: dev_ok_mono order_less_imp_le)
qed

lemma sw_reach_inv: "sw_reach L s \<Longrightarrow> registry_inv L s"
proof (induction rule: sw_reach.induct)
  case init
  then show ?case by (simp add: registry_inv_def swconfig_init_def)
qed (auto intro: registry_register registry_unregister registry_set_attr registry_get_attr)

text \<open>The switch found for an id is the one that has it.\<close>

lemma find_dev_Some: "find_dev i devs = Some k \<Longrightarrow> k < length devs \<and> sd_id (devs ! k) = i"
  by (induction devs arbitrary: k) (auto split: if_splits)

lemma find_dev_nth: "distinct (map sd_id devs) \<Longrightarrow> k < length devs \<Longrightarrow> find_dev (sd_id (devs ! k)) devs = Some k"
proof (induction devs arbitrary: k)
  case (Cons dev devs)
  have "sd_id (devs ! j) \<noteq> sd_id dev" if "j < length devs" for j
    using Cons.prems(1) nth_mem [OF that] by (auto simp: image_iff)
  then show ?case
    using Cons by (cases k) auto
qed simp

text \<open>
  C11: In every state that registrations, removals and requests reach, the switches have different
  ids and different names; the names are \<open>switch0\<close> to \<open>switch63\<close> (\<open>switch31\<close> for a \<open>long\<close> of 32
  bits), the id of each switch finds this switch, and the next registration writes no bit behind
  the end of the set of numbers in use: it fails, or the new switch gets the first free number.
\<close>

theorem sw_registry:
  assumes "sw_reach L s"
  shows "distinct (map sd_id (swdevs s)) \<and> distinct (map sd_devname (swdevs s)) \<and>
     (\<forall>dev \<in> set (swdevs s). \<exists>i < L. sd_devname dev = ''switch'' @ show_nat i) \<and>
     (\<forall>k < length (swdevs s). find_dev (sd_id (swdevs s ! k)) (swdevs s) = Some k) \<and>
     (\<forall>env dev. sd_alias dev \<noteq> None \<and> re_long env = L \<longrightarrow>
        (\<exists>r s'. register_switch env dev None s = Some (r, s') \<and>
           (swdevs s' = swdevs s \<and> r \<noteq> Inr () \<or>
            (\<exists>dev' i. swdevs s' = swdevs s @ [dev'] \<and> sd_devname dev' = ''switch'' @ show_nat i \<and>
               (\<forall>j < i. \<exists>d \<in> set (swdevs s). sd_devname d = ''switch'' @ show_nat j)))))"
proof -
  have inv: "registry_inv L s" using assms by (rule sw_reach_inv)
  have reg: "\<exists>r s'. register_switch env dev None s = Some (r, s') \<and>
      (swdevs s' = swdevs s \<and> r \<noteq> Inr () \<or>
       (\<exists>dev' i. swdevs s' = swdevs s @ [dev'] \<and> sd_devname dev' = ''switch'' @ show_nat i \<and>
          (\<forall>j < i. \<exists>d \<in> set (swdevs s). sd_devname d = ''switch'' @ show_nat j)))"
    if "sd_alias dev \<noteq> None" and L: "re_long env = L" for env and dev :: "'a switch_dev"
  proof -
    have "register_switch env dev None s \<noteq> None"
      using that registry_in_use [OF inv] by (auto simp: register_switch_def Let_def)
    then obtain r s' where r: "register_switch env dev None s = Some (r, s')" by auto
    have first: "\<exists>d \<in> set (swdevs s). sd_devname d = ''switch'' @ show_nat j" if "j < new_number L s" for j
      using find_first_zero_bit(3) that unfolding new_number_def by blast
    show ?thesis
      by (rule register_cases [OF r inv L]) (use r first in \<open>auto simp del: append_Cons\<close>)
  qed
  then show ?thesis
    using inv by (auto simp: registry_inv_def dev_ok_def named_below_def find_dev_nth simp del: append_Cons)
qed


text \<open>Two switches, one of them registered.\<close>

definition no_ops :: "unit switch_dev_ops" where
  "no_ops = \<lparr>attr_global = [], attr_port = [], attr_vlan = [], op_get_vlan_ports = None, op_set_vlan_ports = None,
     op_get_port_pvid = None, op_set_port_pvid = None, op_apply_config = None, op_reset_switch = None,
     op_get_port_link = None, op_set_port_link = None, op_get_port_stats = None, op_phy_write16 = None\<rparr>"

definition some_dev :: "string \<Rightarrow> unit switch_dev" where
  "some_dev s = \<lparr>sd_ops = no_ops, sd_state = (), sd_devname = [], sd_name = s, sd_alias = Some s, sd_ports = 2,
     sd_vlans = 4, sd_cpu_port = 1, sd_id = 0, sd_def_global = {}, sd_def_port = {}, sd_def_vlan = {}, sd_portmap = []\<rparr>"

definition long_env :: reg_env where
  "long_env = \<lparr>re_memory = True, re_led = 0, re_node = None, re_long = 64\<rparr>"

definition first_dev :: "unit switch_dev" where
  "first_dev = (some_dev ''a'')\<lparr>sd_devname := ''switch0'', sd_id := 1, sd_def_global := {0, 1}, sd_portmap := [(None, 0), (None, 0)]\<rparr>"

lemma registered_one:
  "register_switch long_env (some_dev ''a'') None swconfig_init = Some (Inr (), \<lparr>swdevs = [first_dev], swdev_id = 1\<rparr>)"
proof -
  have "show_nat 0 = ''0''" by code_simp
  moreover have "replicate 2 x = [x, x]" for x :: "string option \<times> u32" by (simp add: numeral_2_eq_2)
  ultimately show ?thesis
    by (simp add: register_switch_def long_env_def some_dev_def swconfig_init_def find_first_zero_bit_def upt_rec
        of_switch_load_portmap_def Let_def first_dev_def swconfig_defaults_init_def default_numbers no_ops_def)
qed

text \<open>When the LED trigger fails, the registration fails with the switch on the list.\<close>

lemma register_led_error:
  "register_switch (long_env\<lparr>re_led := ENOMEM\<rparr>) (some_dev ''a'') None swconfig_init =
     Some (Inl ENOMEM, \<lparr>swdevs = [first_dev], swdev_id = 1\<rparr>)"
  using registered_one by (simp add: register_switch_def long_env_def swconfig_init_def Let_def errnos split: if_splits)

lemma reach_one: "sw_reach 64 \<lparr>swdevs = [first_dev], swdev_id = 1\<rparr>"
  by (rule sw_reach.register [OF sw_reach.init _ registered_one]) (simp add: long_env_def)

lemma sw_registry_witness:
  "\<exists>s :: unit swcfg. swdevs s \<noteq> [] \<and> (\<exists>r s'. register_switch long_env (some_dev ''b'') None s = Some (r, s'))"
proof -
  let ?s = "\<lparr>swdevs = [first_dev], swdev_id = 1\<rparr>"
  have "\<exists>r s'. register_switch long_env (some_dev ''b'') None ?s = Some (r, s')"
    using sw_registry [OF reach_one, THEN conjunct2, THEN conjunct2, THEN conjunct2, THEN conjunct2, rule_format,
        of "some_dev ''b''" long_env]
    by (auto simp: long_env_def some_dev_def)
  then show ?thesis
    by (intro exI [of _ ?s]) simp
qed

section \<open>What a driver is asked\<close>

text \<open>
  The driver with a guard in front of each operation: an argument out of range is answered with
  \<open>e\<close>, and \<open>g\<close> happens to the state.
\<close>

definition guarded :: "bool \<Rightarrow> int \<Rightarrow> ('c \<Rightarrow> 'c) \<Rightarrow> ('c, 'a) drv \<Rightarrow> ('c, 'a) drv" where
  "guarded b e g f c = (if b then f c else (Inl e, g c))"

lemma guarded_True [simp]: "guarded True e g f = f"
  by (simp add: guarded_def fun_eq_iff)

definition guard_attr :: "u32 \<Rightarrow> int \<Rightarrow> ('c \<Rightarrow> 'c) \<Rightarrow> 'c switch_attr \<Rightarrow> 'c switch_attr" where
  "guard_attr limit e g a =
     a\<lparr>at_set := map_option (\<lambda>f v. guarded (sv_port_vlan v < limit) e g (f v)) (at_set a),
       at_get := map_option (\<lambda>f v. guarded (sv_port_vlan v < limit) e g (f v)) (at_get a)\<rparr>"

definition guard_ops :: "u32 \<Rightarrow> u32 \<Rightarrow> int \<Rightarrow> ('c \<Rightarrow> 'c) \<Rightarrow> 'c switch_dev_ops \<Rightarrow> 'c switch_dev_ops" where
  "guard_ops ports vlans e g sops = sops
     \<lparr>attr_vlan := map (guard_attr vlans e g) (attr_vlan sops),
      attr_port := map (guard_attr ports e g) (attr_port sops),
      op_get_vlan_ports := map_option (\<lambda>f vid. guarded (vid < vlans) e g (f vid)) (op_get_vlan_ports sops),
      op_set_vlan_ports := map_option (\<lambda>f vid ps.
        guarded (vid < vlans \<and> length ps \<le> unat ports \<and> (\<forall>p \<in> set ps. port_id p < unat ports)) e g (f vid ps))
        (op_set_vlan_ports sops),
      op_get_port_pvid := map_option (\<lambda>f p. guarded (p < unat ports) e g (f p)) (op_get_port_pvid sops),
      op_set_port_pvid := map_option (\<lambda>f p vid. guarded (p < unat ports) e g (f p vid)) (op_set_port_pvid sops),
      op_get_port_link := map_option (\<lambda>f p l. guarded (p < unat ports) e g (f p l)) (op_get_port_link sops),
      op_set_port_link := map_option (\<lambda>f p l. guarded (p < unat ports) e g (f p l)) (op_set_port_link sops)\<rparr>"

definition guard_dev :: "int \<Rightarrow> ('c \<Rightarrow> 'c) \<Rightarrow> 'c switch_dev \<Rightarrow> 'c switch_dev" where
  "guard_dev e g dev = dev\<lparr>sd_ops := guard_ops (sd_ports dev) (sd_vlans dev) e g (sd_ops dev)\<rparr>"

lemma guard_dev_sel [simp]:
  "sd_ports (guard_dev e g dev) = sd_ports dev" "sd_vlans (guard_dev e g dev) = sd_vlans dev"
  "sd_def_global (guard_dev e g dev) = sd_def_global dev" "sd_def_port (guard_dev e g dev) = sd_def_port dev"
  "sd_def_vlan (guard_dev e g dev) = sd_def_vlan dev"
  "sd_ops (guard_dev e g dev) = guard_ops (sd_ports dev) (sd_vlans dev) e g (sd_ops dev)"
  by (simp_all add: guard_dev_def)

lemma set_pvids_guard:
  "set_pvids (guard_dev e g dev) vid ps = set_pvids dev vid ps"
proof (induction ps)
  case (Cons p ps)
  then show ?case
    by (auto simp: guard_ops_def split: option.split)
qed simp

lemma set_pvids_ok: "set_pvids dev vid ps c = (Inr u, c') \<Longrightarrow> \<forall>p \<in> set ps. port_id p < unat (sd_ports dev)"
proof (induction ps arbitrary: c)
  case (Cons p ps)
  then have less: "port_id p < unat (sd_ports dev)"
    by (auto simp: derr_def split: if_splits)
  have "\<exists>c1. set_pvids dev vid ps c1 = (Inr u, c')"
    using Cons.prems less by (auto simp: dbind_def split: if_splits option.splits prod.splits sum.splits)
  then show ?case using Cons.IH less by auto
qed simp

lemma dbind_cong_run: "(\<And>a c'. m c = (Inr a, c') \<Longrightarrow> f a c' = f' a c') \<Longrightarrow> dbind m f c = dbind m f' c"
  by (auto simp: dbind_def split: prod.split sum.split)

lemma set_vlan_ports_guard: "swconfig_set_vlan_ports (guard_dev e g dev) val = swconfig_set_vlan_ports dev val"
proof -
  let ?vid = "sv_port_vlan val" and ?ps = "value_ports (sv_value val)"
  have "dbind (set_pvids dev ?vid ?ps) (\<lambda>_. guarded (\<forall>p \<in> set ?ps. port_id p < unat (sd_ports dev)) e g (f ?vid ?ps)) =
    dbind (set_pvids dev ?vid ?ps) (\<lambda>_. f ?vid ?ps)" for f
    by (rule ext, rule dbind_cong_run) (use set_pvids_ok in \<open>fastforce simp: guarded_def\<close>)
  then show ?thesis
    by (auto simp: swconfig_set_vlan_ports_def Let_def set_pvids_guard guard_ops_def not_le split: option.split)
qed

lemma defaults_guard:
  "default_global (guard_dev e g dev) = default_global dev"
  "default_vlan (guard_dev e g dev) = default_vlan dev"
  by (auto simp: default_global_def default_vlan_def swconfig_apply_config_def swconfig_reset_switch_def
      swconfig_get_vlan_ports_def set_vlan_ports_guard fun_eq_iff guard_ops_def not_le split: option.split)

text \<open>Two attributes of the same type whose functions agree at an index.\<close>

definition same_at :: "u32 \<Rightarrow> 'c switch_attr \<Rightarrow> 'c switch_attr \<Rightarrow> bool" where
  "same_at i a a' \<longleftrightarrow> at_type a = at_type a' \<and> at_disabled a = at_disabled a' \<and>
     (\<forall>v. map_option (\<lambda>f. f \<lparr>sv_port_vlan = i, sv_value = v\<rparr>) (at_set a) =
            map_option (\<lambda>f. f \<lparr>sv_port_vlan = i, sv_value = v\<rparr>) (at_set a') \<and>
          map_option (\<lambda>f. f \<lparr>sv_port_vlan = i, sv_value = v\<rparr>) (at_get a) =
            map_option (\<lambda>f. f \<lparr>sv_port_vlan = i, sv_value = v\<rparr>) (at_get a'))"

lemma same_at_refl [simp]: "same_at i a a"
  by (simp add: same_at_def)

lemma same_at_guard: "i < limit \<Longrightarrow> same_at i (guard_attr limit e g a) a"
  by (auto simp: same_at_def guard_attr_def option.map_comp comp_def)

lemma default_port_guard:
  "i < sd_ports dev \<Longrightarrow> list_all2 (same_at i) (default_port (guard_dev e g dev)) (default_port dev)"
  by (auto simp: default_port_def same_at_def swconfig_set_pvid_def swconfig_get_pvid_def swconfig_set_link_def
      swconfig_get_link_def guard_ops_def word_less_nat_alt split: option.split)

definition same_lists ::
  "u32 \<Rightarrow> 'c switch_attr list \<times> 'c switch_attr list \<times> nat set \<Rightarrow> 'c switch_attr list \<times> 'c switch_attr list \<times> nat set \<Rightarrow> bool" where
  "same_lists i l l' \<longleftrightarrow>
     list_all2 (same_at i) (fst l) (fst l') \<and> list_all2 (same_at i) (fst (snd l)) (fst (snd l')) \<and> snd (snd l) = snd (snd l')"

lemma lookup_lists_guard:
  "rel_option (\<lambda>(l, i) (l', i'). i = i' \<and> same_lists i l l') (lookup_lists (guard_dev e g dev) info) (lookup_lists dev info)"
proof -
  have vlan: "same_lists i (vlan_attrs (guard_dev e g dev)) (vlan_attrs dev)" if "i < sd_vlans dev" for i
    using that by (auto simp: same_lists_def vlan_attrs_def defaults_guard guard_ops_def list_all2_conv_all_nth same_at_guard)
  have port: "same_lists i (port_attrs_of (guard_dev e g dev)) (port_attrs_of dev)" if "i < sd_ports dev" for i
    using that default_port_guard [OF that]
    by (simp add: same_lists_def port_attrs_of_def guard_ops_def list_all2_map1 list.rel_refl same_at_guard)
  have glob: "same_lists i (global_attrs (guard_dev e g dev)) (global_attrs dev)" for i
    by (auto simp: same_lists_def global_attrs_def defaults_guard guard_ops_def list_all2_conv_all_nth)
  show ?thesis
    using vlan port glob
    by (auto simp: lookup_lists_def Let_def below_def not_le split: option.split)
qed

lemma lookup_attr_guard:
  "rel_option (\<lambda>(a, i) (a', i'). i = i' \<and> same_at i a a')
     (swconfig_lookup_attr (guard_dev e g dev) info) (swconfig_lookup_attr dev info)"
proof (cases "nl_op_id info")
  case (Some attr_id)
  show ?thesis
  proof (cases "lookup_lists dev info")
    case None
    then have "lookup_lists (guard_dev e g dev) info = None"
      using lookup_lists_guard [of e g dev info] by simp
    then show ?thesis using None by (simp add: swconfig_lookup_attr_def Some)
  next
    case l: (Some l)
    obtain alist def_list active i where l2: "l = ((alist, def_list, active), i)" by (cases l) auto
    obtain alist' def_list' where l': "lookup_lists (guard_dev e g dev) info = Some ((alist', def_list', active), i)"
      "list_all2 (same_at i) alist' alist" "list_all2 (same_at i) def_list' def_list"
      using lookup_lists_guard [of e g dev info] l l2 by (auto simp: same_lists_def option_rel_Some2)
    then have len: "length alist' = length alist" "length def_list' = length def_list"
      by (auto dest: list_all2_lengthD)
    have nth: "k < length alist \<Longrightarrow> same_at i (alist' ! k) (alist ! k)"
      "k < length def_list \<Longrightarrow> same_at i (def_list' ! k) (def_list ! k)" for k
      using l' len by (auto simp: list_all2_conv_all_nth)
    then show ?thesis
      unfolding swconfig_lookup_attr_def Some l l2 l'(1) using len
      by (auto simp: Let_def same_at_def)
  qed
qed (simp add: swconfig_lookup_attr_def)


lemma request_value_guard: "request_value (guard_dev e g dev) info t = request_value dev info t"
  by (cases t) (simp_all split: option.split)


section \<open>Messages\<close>

lemma skb_len_simps [simp]:
  "skb_len [] = 0" "skb_len (p # ps) = part_size p + skb_len ps" "skb_len (ps @ qs) = skb_len ps + skb_len qs"
  by (simp_all add: skb_len_def)

lemma nla_puts_fit: "skb_len msg + skb_len ps \<le> room \<Longrightarrow> nla_puts room ps msg = (True, msg @ ps)"
  by (induction ps arbitrary: msg) (simp_all add: fits_def)

lemma nla_puts_short:
  "skb_len msg \<le> room \<Longrightarrow> room < skb_len msg + skb_len ps
   \<Longrightarrow> \<exists>qs. nla_puts room ps msg = (False, msg @ qs) \<and> skb_len msg + skb_len qs \<le> room"
proof (induction ps arbitrary: msg)
  case (Cons p ps)
  show ?case
  proof (cases "fits room p msg")
    case True
    then obtain qs where "nla_puts room ps (msg @ [p]) = (False, (msg @ [p]) @ qs)" "skb_len (msg @ [p]) + skb_len qs \<le> room"
      using Cons.IH [of "msg @ [p]"] Cons.prems by (auto simp: fits_def)
    then show ?thesis using True by (intro exI [of _ "p # qs"]) simp
  next
    case False
    then show ?thesis using Cons.prems by (intro exI [of _ "[]"]) simp
  qed
qed simp

definition whole :: "switch_cmd \<Rightarrow> bool \<Rightarrow> part list \<Rightarrow> skb" where
  "whole cmd multi ps = Genl_put cmd multi # ps @ [Genl_end]"

lemma skb_len_whole [simp]: "skb_len (whole cmd multi ps) = 20 + skb_len ps"
  by (simp add: whole_def)

lemma genl_message_fit:
  "skb_len msg + (20 + skb_len ps) \<le> room \<Longrightarrow> genl_message room cmd multi ps msg = Some (True, msg @ whole cmd multi ps)"
  by (simp add: genl_message_def put_at_def fits_def nla_puts_fit whole_def)

text \<open>What is left behind a message that did not fit is less than a header.\<close>

lemma genl_message_short:
  assumes "skb_len msg \<le> room" "room < skb_len msg + (20 + skb_len ps)" "20 \<le> skb_len ps"
  obtains junk where "genl_message room cmd multi ps msg = Some (False, msg @ junk)"
    "skb_len junk < 20" "skb_len (msg @ junk) \<le> room"
proof (cases "skb_len msg + 20 \<le> room")
  case True
  let ?m = "msg @ [Genl_put cmd multi]"
  obtain qs where "nla_puts room ps ?m = (False, ?m @ qs)"
    using nla_puts_short [of ?m room ps] assms True by auto
  then have "genl_message room cmd multi ps msg = Some (False, msg @ [])"
    using True by (simp add: genl_message_def put_at_def fits_def)
  then show ?thesis using that [of "[]"] assms(1) by simp
next
  case False
  obtain qs where qs: "nla_puts room ps msg = (False, msg @ qs)" "skb_len msg + skb_len qs \<le> room"
    using nla_puts_short [of msg room ps] assms False by auto
  then have "genl_message room cmd multi ps msg = Some (False, msg @ qs)"
    using False by (simp add: genl_message_def put_at_def fits_def)
  then show ?thesis using that [of qs] qs(2) False by simp
qed

section \<open>The attributes of a switch\<close>

definition attr_message :: "nat \<times> 'c switch_attr \<Rightarrow> skb" where
  "attr_message x = whole SWITCH_CMD_NEW_ATTR True (attr_parts (fst x) (snd x))"

definition attr_messages :: "(nat \<times> 'c switch_attr) list \<Rightarrow> skb" where
  "attr_messages xs = concat (map attr_message xs)"

lemma attr_messages_simps [simp]:
  "attr_messages [] = []" "attr_messages (xs @ ys) = attr_messages xs @ attr_messages ys" "attr_messages [x] = attr_message x"
  by (simp_all add: attr_messages_def)

lemma attr_parts_len: "20 \<le> skb_len (attr_parts i a)"
  by (simp add: attr_parts_def align4_def split: option.split)

text \<open>
  The heap while the attributes are listed: \<open>base\<close>, and the buffer of the callback, if any, with the
  messages of \<open>xs\<close>.
\<close>

definition holding :: "nat \<Rightarrow> (nat \<rightharpoonup> skb) \<Rightarrow> (nat \<times> 'c switch_attr) list \<Rightarrow> callback \<Rightarrow> net \<Rightarrow> bool" where
  "holding room base xs cb n \<longleftrightarrow>
     (case cb_msg cb of
        None \<Rightarrow> xs = [] \<and> bufs n = base
      | Some b \<Rightarrow> xs \<noteq> [] \<and> b < next_buf n \<and> base b = None \<and> bufs n = base(b \<mapsto> attr_messages xs) \<and> skb_len (attr_messages xs) \<le> room)"

definition fresh_above :: "(nat \<rightharpoonup> skb) \<Rightarrow> net \<Rightarrow> bool" where
  "fresh_above base n \<longleftrightarrow> (\<forall>b \<ge> next_buf n. base b = None)"

text \<open>A buffer that was sent: some messages, and what was left behind the last.\<close>

definition sent_as :: "nat \<Rightarrow> (nat \<times> 'c switch_attr) list \<Rightarrow> skb \<Rightarrow> bool" where
  "sent_as room xs msg \<longleftrightarrow> xs \<noteq> [] \<and> (\<exists>junk. msg = attr_messages xs @ junk \<and> skb_len junk < 20 \<and> skb_len msg \<le> room)"

text \<open>The buffer an attempt works on.\<close>

lemma take_buffer:
  assumes "holding room base xs cb n" "fresh_above base n"
  obtains (none) n' where "cb_msg cb = None" "nlmsg_new env n = (None, n')" "bufs n' = base" "sent n' = sent n"
      "\<not> ne_alloc env (next_buf n)"
  | (some) b n' where "(case cb_msg cb of Some b \<Rightarrow> (Some b, n) | None \<Rightarrow> nlmsg_new env n) = (Some b, n')"
      "bufs n' = base(b \<mapsto> attr_messages xs)" "base b = None" "b < next_buf n'" "fresh_above base n'" "sent n' = sent n"
      "skb_len (attr_messages xs) \<le> room"
proof (cases "cb_msg cb")
  case None
  then show ?thesis
    using assms none some [of "next_buf n" "snd (nlmsg_new env n)"]
    by (cases "ne_alloc env (next_buf n)") (auto simp: holding_def nlmsg_new_def Let_def fresh_above_def)
next
  case (Some b)
  then show ?thesis using assms some [of b n] by (auto simp: holding_def)
qed


lemma dump_fit:
  "bufs n b = Some msg \<Longrightarrow> skb_len msg + skb_len (attr_message (i, a)) \<le> ne_room env
   \<Longrightarrow> swconfig_dump_attr env i a b cb n = Some (True, cb, put_buf b (msg @ attr_message (i, a)) n)"
  by (simp add: swconfig_dump_attr_def genl_message_fit attr_message_def)

lemma dump_short:
  assumes "bufs n b = Some msg" "skb_len msg \<le> ne_room env" "ne_room env < skb_len msg + skb_len (attr_message (i, a))"
  obtains junk where "swconfig_dump_attr env i a b cb n = Some (False, cb, put_buf b (msg @ junk) n)"
    "skb_len junk < 20" "skb_len (msg @ junk) \<le> ne_room env"
proof (rule genl_message_short [of msg "ne_room env" "attr_parts i a" SWITCH_CMD_NEW_ATTR True])
  show "skb_len msg \<le> ne_room env" "ne_room env < skb_len msg + (20 + skb_len (attr_parts i a))"
    using assms by (simp_all add: attr_message_def)
  show "20 \<le> skb_len (attr_parts i a)" by (rule attr_parts_len)
  fix junk
  assume j: "genl_message (ne_room env) SWITCH_CMD_NEW_ATTR True (attr_parts i a) msg = Some (False, msg @ junk)"
    "skb_len junk < 20" "skb_len (msg @ junk) \<le> ne_room env"
  show thesis
    by (rule that [OF _ j(2,3)]) (simp add: swconfig_dump_attr_def assms(1) j(1))
qed

lemma put_buf_sel [simp]: "bufs (put_buf b msg n) = (bufs n)(b \<mapsto> msg)" "next_buf (put_buf b msg n) = next_buf n" "sent (put_buf b msg n) = sent n"
  by (simp_all add: put_buf_def)

lemma fresh_put_buf [simp]: "fresh_above base (put_buf b msg n) = fresh_above base n"
  by (simp add: fresh_above_def)

text \<open>What one attribute does, on the first attempt or the second.\<close>

definition attr_done ::
  "net_env \<Rightarrow> (nat \<rightharpoonup> skb) \<Rightarrow> (nat \<times> 'c switch_attr) list \<Rightarrow> nat \<times> 'c switch_attr \<Rightarrow> net \<Rightarrow> bool \<Rightarrow> callback \<Rightarrow> net \<Rightarrow> bool" where
  "attr_done env base xs x n ok cb' n' \<longleftrightarrow>
     fresh_above base n' \<and>
     (if ok
      then holding (ne_room env) base (xs @ [x]) cb' n' \<and> sent n' = sent n \<or>
           holding (ne_room env) base [x] cb' n' \<and> (\<exists>msg. sent n' = sent n @ [msg] \<and> sent_as (ne_room env) xs msg)
      else cb_msg cb' = None \<and> bufs n' = base \<and>
           (sent n' = sent n \<or> (\<exists>msg. sent n' = sent n @ [msg] \<and> sent_as (ne_room env) xs msg)) \<and>
           ((\<exists>b. \<not> ne_alloc env b) \<or> (\<exists>b. ne_reply env b < 0)))"

lemma attempt_fit:
  assumes "holding (ne_room env) base xs cb n" "fresh_above base n"
    "skb_len (attr_messages (xs @ [(i, a)])) \<le> ne_room env"
  shows "\<exists>ok cb' n'. multipart_loop env (swconfig_dump_attr env i a) None restart cb n = Some (ok, cb', n') \<and>
    fresh_above base n' \<and> sent n' = sent n \<and>
    (if ok then holding (ne_room env) base (xs @ [(i, a)]) cb' n'
     else cb_msg cb' = None \<and> bufs n' = base \<and> (\<exists>b. \<not> ne_alloc env b))"
proof (rule take_buffer [OF assms(1,2), of env])
  fix n' assume "cb_msg cb = None" "nlmsg_new env n = (None, n')" "bufs n' = base" "sent n' = sent n" "\<not> ne_alloc env (next_buf n)"
  moreover have "next_buf n \<le> next_buf n'"
    using \<open>nlmsg_new env n = (None, n')\<close> by (auto simp: nlmsg_new_def Let_def split: if_splits)
  ultimately show ?thesis
    using assms(2) by (subst multipart_loop.simps) (auto simp: fresh_above_def)
next
  fix b n'
  assume *: "(case cb_msg cb of Some b \<Rightarrow> (Some b, n) | None \<Rightarrow> nlmsg_new env n) = (Some b, n')"
    "bufs n' = base(b \<mapsto> attr_messages xs)" "base b = None" "b < next_buf n'" "fresh_above base n'" "sent n' = sent n"
  have "swconfig_dump_attr env i a b (cb\<lparr>cb_msg := Some b\<rparr>) n' =
    Some (True, cb\<lparr>cb_msg := Some b\<rparr>, put_buf b (attr_messages xs @ attr_message (i, a)) n')"
    using * assms(3) by (intro dump_fit) simp_all
  then show ?thesis
    using * assms(3) by (subst multipart_loop.simps) (auto simp: holding_def)
qed

lemma send_attr:
  assumes "holding (ne_room env) base xs cb n" "fresh_above base n" "skb_len (attr_message (i, a)) \<le> ne_room env"
  shows "\<exists>ok cb' n'. swconfig_send_multipart env (swconfig_dump_attr env i a) None cb n = Some (ok, cb', n') \<and>
    attr_done env base xs (i, a) n ok cb' n'"
proof (cases "skb_len (attr_messages (xs @ [(i, a)])) \<le> ne_room env")
  case True
  obtain ok cb' n' where r: "multipart_loop env (swconfig_dump_attr env i a) None False cb n = Some (ok, cb', n')"
    "fresh_above base n'" "sent n' = sent n"
    "if ok then holding (ne_room env) base (xs @ [(i, a)]) cb' n'
     else cb_msg cb' = None \<and> bufs n' = base \<and> (\<exists>b. \<not> ne_alloc env b)"
    using attempt_fit [OF assms(1,2) True, of False] by auto
  then have "attr_done env base xs (i, a) n ok cb' n'"
    by (auto simp: attr_done_def split: if_splits)
  then show ?thesis using r(1) unfolding swconfig_send_multipart_def by blast
next
  case False
  then have "xs \<noteq> []" using assms(3) by auto
  obtain b where b: "cb_msg cb = Some b" using assms(1) \<open>xs \<noteq> []\<close> by (auto simp: holding_def split: option.splits)
  then have h: "b < next_buf n" "base b = None" "bufs n = base(b \<mapsto> attr_messages xs)" "skb_len (attr_messages xs) \<le> ne_room env"
    using assms(1) by (auto simp: holding_def)
  obtain junk where fill: "swconfig_dump_attr env i a b cb n = Some (False, cb, put_buf b (attr_messages xs @ junk) n)"
    and junk: "skb_len junk < 20" "skb_len (attr_messages xs @ junk) \<le> ne_room env"
    using dump_short [of n b "attr_messages xs" env i a cb] h False by auto
  have msg: "sent_as (ne_room env) xs (attr_messages xs @ junk)"
    using junk \<open>xs \<noteq> []\<close> by (auto simp: sent_as_def)
  let ?n = "put_buf b (attr_messages xs @ junk) n"
  have same: "cb\<lparr>cb_msg := Some b\<rparr> = cb" using b by simp
  let ?err = "ne_reply env b" and ?n1 = "?n\<lparr>bufs := base\<rparr>"
  have base: "base(b := None) = base" using h(2) by auto
  show ?thesis
  proof (cases "?err < 0")
    case True
    then have "multipart_loop env (swconfig_dump_attr env i a) None False cb n = Some (False, cb\<lparr>cb_msg := None\<rparr>, ?n1)"
      by (subst multipart_loop.simps) (simp add: b same fill genlmsg_reply_def h Let_def base)
    moreover have "attr_done env base xs (i, a) n False (cb\<lparr>cb_msg := None\<rparr>) ?n1"
      using True assms(2) by (auto simp: attr_done_def fresh_above_def)
    ultimately show ?thesis unfolding swconfig_send_multipart_def by blast
  next
    case False
    let ?cb = "cb\<lparr>cb_msg := None\<rparr>" and ?n2 = "?n1\<lparr>sent := sent n @ [attr_messages xs @ junk]\<rparr>"
    have start: "holding (ne_room env) base [] ?cb ?n2" "fresh_above base ?n2"
      using assms(2) by (simp_all add: holding_def fresh_above_def)
    obtain ok cb' n' where again: "multipart_loop env (swconfig_dump_attr env i a) None True ?cb ?n2 = Some (ok, cb', n')"
      "fresh_above base n'" "sent n' = sent n @ [attr_messages xs @ junk]"
      "if ok then holding (ne_room env) base [(i, a)] cb' n' else cb_msg cb' = None \<and> bufs n' = base \<and> (\<exists>b. \<not> ne_alloc env b)"
      using attempt_fit [OF start, of i a True, unfolded append_Nil attr_messages_simps(3), OF assms(3)]
      by (elim exE conjE) (rule that, simp_all)
    have "multipart_loop env (swconfig_dump_attr env i a) None False cb n = Some (ok, cb', n')"
      using False again(1) by (subst multipart_loop.simps) (simp add: b same fill genlmsg_reply_def h Let_def base)
    moreover have "attr_done env base xs (i, a) n ok cb' n'"
      using again(2-4) msg by (auto simp: attr_done_def split: if_splits)
    ultimately show ?thesis unfolding swconfig_send_multipart_def by blast
  qed
qed


definition troubled :: "net_env \<Rightarrow> bool" where
  "troubled env \<longleftrightarrow> (\<exists>b. \<not> ne_alloc env b) \<or> (\<exists>b. ne_reply env b < 0)"

lemma list_loop_run:
  assumes "holding (ne_room env) base xs cb n" "fresh_above base n"
    "\<forall>x \<in> set ys. skb_len (attr_message x) \<le> ne_room env"
  shows "\<exists>ok cb' n' chunks msgs ws. list_loop env ys cb n = Some (ok, cb', n') \<and>
    sent n' = sent n @ msgs \<and> list_all2 (sent_as (ne_room env)) chunks msgs \<and> xs @ ys = concat chunks @ ws \<and>
    fresh_above base n' \<and>
    (if ok then holding (ne_room env) base ws cb' n' else cb_msg cb' = None \<and> bufs n' = base \<and> troubled env)"
  using assms
proof (induction ys arbitrary: xs cb n)
  case Nil
  then show ?case
    by (intro exI [of _ True] exI [of _ cb] exI [of _ n] exI [of _ "[]"] exI [of _ xs]) simp
next
  case (Cons y ys)
  obtain i a where y: "y = (i, a)" by (cases y)
  obtain ok cb1 n1 where one: "swconfig_send_multipart env (swconfig_dump_attr env i a) None cb n = Some (ok, cb1, n1)"
    and did: "attr_done env base xs (i, a) n ok cb1 n1"
    using send_attr [of env base xs cb n i a] Cons.prems y by auto
  have fresh: "fresh_above base n1" using did by (simp add: attr_done_def)
  show ?case
  proof (cases ok)
    case False
    have run: "list_loop env (y # ys) cb n = Some (False, cb1, n1)"
      using one False y by simp
    have bad: "cb_msg cb1 = None \<and> bufs n1 = base \<and> troubled env"
      using did False by (auto simp: attr_done_def troubled_def)
    consider "sent n1 = sent n" | msg where "sent n1 = sent n @ [msg]" "sent_as (ne_room env) xs msg"
      using did False by (auto simp: attr_done_def)
    then show ?thesis
    proof cases
      case 1
      then show ?thesis using run bad fresh
        by (intro exI [of _ False] exI [of _ cb1] exI [of _ n1] exI [of _ "[]"] exI [of _ "xs @ y # ys"]) simp
    next
      case (2 msg)
      then show ?thesis using run bad fresh
        by (intro exI [of _ False] exI [of _ cb1] exI [of _ n1] exI [of _ "[xs]"] exI [of _ "[msg]"] exI [of _ "y # ys"]) simp
    qed
  next
    case True
    have run: "list_loop env (y # ys) cb n = list_loop env ys cb1 n1"
      using one True y by simp
    have ball_tail: "\<forall>x \<in> set ys. skb_len (attr_message x) \<le> ne_room env" using Cons.prems(3) by simp
    consider "holding (ne_room env) base (xs @ [y]) cb1 n1" "sent n1 = sent n"
      | msg where "holding (ne_room env) base [y] cb1 n1" "sent n1 = sent n @ [msg]" "sent_as (ne_room env) xs msg"
      using did True y by (auto simp: attr_done_def)
    then show ?thesis
    proof cases
      case 1
      show ?thesis
        unfolding run using Cons.IH [OF 1(1) fresh ball_tail] 1(2) by simp
    next
      case (2 msg)
      obtain ok cb' n' chunks msgs ws where rest: "list_loop env ys cb1 n1 = Some (ok, cb', n')"
        "sent n' = sent n1 @ msgs" "list_all2 (sent_as (ne_room env)) chunks msgs" "[y] @ ys = concat chunks @ ws" "fresh_above base n'"
        "if ok then holding (ne_room env) base ws cb' n' else cb_msg cb' = None \<and> bufs n' = base \<and> troubled env"
        using Cons.IH [OF 2(1) fresh ball_tail] by (elim exE conjE) (rule that)
      show ?thesis
        unfolding run using rest 2(2,3)
        by (intro exI [of _ ok] exI [of _ cb'] exI [of _ n'] exI [of _ "xs # chunks"] exI [of _ "msg # msgs"] exI [of _ ws]) simp
    qed
  qed
qed

lemma list_attrs_run:
  assumes "swconfig_get_dev s info = Some k" "list_lists (swdevs s ! k) (nl_cmd info) = Some l"
    and "\<forall>x \<in> set (listed_attrs l). skb_len (attr_message x) \<le> ne_room env" "fresh_above (bufs n) n"
  shows "\<exists>err n' chunks msgs ws. swconfig_list_attrs env info s n = Some (err, n') \<and> bufs n' = bufs n \<and>
    fresh_above (bufs n) n' \<and>
    sent n' = sent n @ msgs \<and> list_all2 (sent_as (ne_room env)) chunks msgs \<and> listed_attrs l = concat chunks @ ws \<and>
    (err \<ge> 0 \<longrightarrow> ws = []) \<and> (\<not> troubled env \<longrightarrow> err \<ge> 0)"
proof -
  have start: "holding (ne_room env) (bufs n) [] cb_zero n"
    by (simp add: holding_def cb_zero_def)
  obtain ok cb' n' chunks msgs ws where loop: "list_loop env (listed_attrs l) cb_zero n = Some (ok, cb', n')"
    "sent n' = sent n @ msgs" "list_all2 (sent_as (ne_room env)) chunks msgs" "listed_attrs l = concat chunks @ ws" "fresh_above (bufs n) n'"
    "if ok then holding (ne_room env) (bufs n) ws cb' n' else cb_msg cb' = None \<and> bufs n' = bufs n \<and> troubled env"
    using list_loop_run [OF start assms(4,3), unfolded append_Nil] by (elim exE conjE) (rule that)
  show ?thesis
  proof (cases "cb_msg cb'")
    case None
    have "bufs n' = bufs n" using loop(6) None by (auto simp: holding_def split: if_splits)
    moreover have "ok \<Longrightarrow> ws = []" "\<not> ok \<Longrightarrow> troubled env" using loop(6) None by (auto simp: holding_def)
    ultimately show ?thesis using loop(1-5) None assms(1,2)
      by (intro exI [of _ "if ok then 0 else -1"] exI [of _ n'] exI [of _ chunks] exI [of _ msgs] exI [of _ ws])
        (simp add: swconfig_list_attrs_def)
  next
    case (Some b)
    then have ok: "ok" and ws: "ws \<noteq> []" and h: "bufs n b = None" "bufs n' = (bufs n)(b \<mapsto> attr_messages ws)" "skb_len (attr_messages ws) \<le> ne_room env"
      using loop(6) by (auto simp: holding_def split: if_splits)
    have base: "(bufs n)(b := None) = bufs n" using h(1) by auto
    have run: "swconfig_list_attrs env info s n = genlmsg_reply env b n'"
      using loop(1) Some assms(1,2) ok by (simp add: swconfig_list_attrs_def)
    show ?thesis
    proof (cases "ne_reply env b < 0")
      case True
      then show ?thesis using run h base loop(2-5)
        by (intro exI [of _ "ne_reply env b"] exI [of _ "n'\<lparr>bufs := bufs n\<rparr>"] exI [of _ chunks] exI [of _ msgs] exI [of _ ws])
          (auto simp: genlmsg_reply_def Let_def troubled_def fresh_above_def)
    next
      case False
      have "sent_as (ne_room env) ws (attr_messages ws)"
        using h(3) ws by (auto simp: sent_as_def)
      then show ?thesis using run h base loop(2-5) False
        by (intro exI [of _ "ne_reply env b"] exI [of _ "n'\<lparr>bufs := bufs n, sent := sent n' @ [attr_messages ws]\<rparr>"]
            exI [of _ "chunks @ [ws]"] exI [of _ "msgs @ [attr_messages ws]"] exI [of _ "[]"])
          (auto simp: genlmsg_reply_def Let_def list_all2_appendI fresh_above_def)
    qed
  qed
qed

text \<open>
  C12: Asking for the attributes of a switch has a defined outcome whatever allocations fail and
  whatever sending answers: the heap is as before, no buffer is lost or freed twice.  The buffers
  that were sent hold, one after the other, the messages of the first attributes, each at least one; behind the last
  message of a buffer there may be less than a header of left-over bytes.  Without trouble, and
  whenever the answer is not an error, these are all attributes of the driver that are not disabled
  and all active defaults, each once and in order.  It is assumed that each attribute fits into a
  buffer of its own.
\<close>

theorem sw_list_attrs:
  assumes "swconfig_get_dev s info = Some k" "list_lists (swdevs s ! k) (nl_cmd info) = Some l"
    and "\<forall>x \<in> set (listed_attrs l). skb_len (attr_message x) \<le> ne_room env" "fresh_above (bufs n) n"
  shows "\<exists>err n' chunks msgs ws. swconfig_list_attrs env info s n = Some (err, n') \<and> bufs n' = bufs n \<and>
    sent n' = sent n @ msgs \<and> list_all2 (sent_as (ne_room env)) chunks msgs \<and> listed_attrs l = concat chunks @ ws \<and>
    (err \<ge> 0 \<longrightarrow> ws = []) \<and> (\<not> troubled env \<longrightarrow> err \<ge> 0)"
  using list_attrs_run [OF assms] by blast

definition plain_net :: net where "plain_net = \<lparr>bufs = (\<lambda>_. None), next_buf = 0, sent = []\<rparr>"
definition small_env :: net_env where "small_env = \<lparr>ne_room = 90, ne_alloc = (\<lambda>_. True), ne_reply = (\<lambda>_. 0)\<rparr>"

definition ask :: "switch_cmd \<Rightarrow> genl_info" where
  "ask c = \<lparr>nl_cmd = c, nl_id = Some 0, nl_op_id = None, nl_op_port = None, nl_op_vlan = None, nl_value_int = None,
     nl_value_str = None, nl_value_ports = None, nl_value_link = None\<rparr>"

definition one_switch :: "unit swcfg" where
  "one_switch = \<lparr>swdevs = [(some_dev ''a'')\<lparr>sd_def_global := {0, 1}\<rparr>], swdev_id = 1\<rparr>"

lemma sw_list_attrs_witness:
  "\<exists>err n'. swconfig_list_attrs small_env (ask SWITCH_CMD_LIST_GLOBAL) one_switch plain_net = Some (err, n') \<and>
     err \<ge> 0 \<and> sent n' \<noteq> []"
proof -
  let ?dev = "(some_dev ''a'')\<lparr>sd_def_global := {0, 1}\<rparr>"
  have dev: "swconfig_get_dev one_switch (ask SWITCH_CMD_LIST_GLOBAL) = Some 0"
    by (simp add: swconfig_get_dev_def one_switch_def ask_def some_dev_def)
  have l: "list_lists (swdevs one_switch ! 0) (nl_cmd (ask SWITCH_CMD_LIST_GLOBAL)) = Some (global_attrs ?dev)"
    by (simp add: list_lists_def one_switch_def ask_def)
  have listed: "listed_attrs (global_attrs ?dev) = [(0x1000, default_global ?dev ! 0), (0x1001, default_global ?dev ! 1)]"
    by (simp add: listed_attrs_def global_attrs_def some_dev_def no_ops_def upt_rec default_global_def)
  have fit: "\<forall>x \<in> set (listed_attrs (global_attrs ?dev)). skb_len (attr_message x) \<le> ne_room small_env"
    unfolding listed by (simp add: attr_message_def attr_parts_def default_global_def align4_def small_env_def)
  have "fresh_above (bufs plain_net) plain_net" "\<not> troubled small_env"
    by (simp_all add: fresh_above_def plain_net_def troubled_def small_env_def)
  with sw_list_attrs [OF dev l fit] listed show ?thesis
    by (fastforce simp: plain_net_def)
qed

text \<open>
  An attribute that does not fit into a buffer of its own is freed by \<open>swconfig_send_multipart\<close>, and
  again by \<open>swconfig_list_attrs\<close>.
\<close>

lemma list_attrs_double_free:
  assumes "swconfig_get_dev s info = Some k" "list_lists (swdevs s ! k) (nl_cmd info) = Some l"
    and "listed_attrs l = x # xs" "ne_room env < skb_len (attr_message x)" "\<not> troubled env"
  shows "swconfig_list_attrs env info s n = None"
proof -
  obtain i a where x: "x = (i, a)" by (cases x)
  have env: "ne_alloc env b" "\<not> ne_reply env b < 0" for b
    using assms(5) by (auto simp: troubled_def)
  have fill: "\<exists>junk. swconfig_dump_attr env i a b cb m = Some (False, cb, put_buf b junk m)" if "bufs m b = Some []" for b cb m
    using dump_short [of m b "[]" env i a cb] that assms(4) x by auto
  have loop: "\<exists>n'. multipart_loop env (swconfig_dump_attr env i a) None True cb n1 =
      Some (False, cb\<lparr>cb_msg := Some (next_buf n1)\<rparr>, n') \<and> bufs n' (next_buf n1) = None"
    if "cb_msg cb = None" for cb n1
  proof -
    let ?b = "next_buf n1" and ?n = "n1\<lparr>next_buf := next_buf n1 + 1, bufs := (bufs n1)(next_buf n1 \<mapsto> [])\<rparr>"
    obtain junk where f: "swconfig_dump_attr env i a ?b (cb\<lparr>cb_msg := Some ?b\<rparr>) ?n = Some (False, cb\<lparr>cb_msg := Some ?b\<rparr>, put_buf ?b junk ?n)"
      using fill [of ?n ?b "cb\<lparr>cb_msg := Some ?b\<rparr>"] by auto
    show ?thesis
      by (subst multipart_loop.simps) (simp add: that nlmsg_new_def env(1) f [simplified] nlmsg_free_def Let_def)
  qed
  let ?b = "next_buf n" and ?n = "n\<lparr>next_buf := Suc (next_buf n), bufs := (bufs n)(next_buf n \<mapsto> [])\<rparr>"
  let ?cb = "cb_zero\<lparr>cb_msg := Some ?b\<rparr>"
  obtain junk where f: "swconfig_dump_attr env i a ?b ?cb ?n = Some (False, ?cb, put_buf ?b junk ?n)"
    using fill [of ?n ?b ?cb] by auto
  let ?n1 = "put_buf ?b junk ?n\<lparr>bufs := (bufs (put_buf ?b junk ?n))(?b := None), sent := sent n @ [junk]\<rparr>"
  obtain n' where again: "multipart_loop env (swconfig_dump_attr env i a) None True (?cb\<lparr>cb_msg := None\<rparr>) ?n1 =
      Some (False, ?cb\<lparr>cb_msg := Some (next_buf ?n1)\<rparr>, n')" "bufs n' (next_buf ?n1) = None"
    using loop [of "?cb\<lparr>cb_msg := None\<rparr>" ?n1] by auto
  have "swconfig_send_multipart env (swconfig_dump_attr env i a) None cb_zero n =
      Some (False, ?cb\<lparr>cb_msg := Some (next_buf ?n1)\<rparr>, n')"
    unfolding swconfig_send_multipart_def
    by (subst multipart_loop.simps)
      (use again(1) in \<open>simp add: cb_zero_def nlmsg_new_def env f [unfolded cb_zero_def, simplified] genlmsg_reply_def Let_def\<close>)
  then have "list_loop env (listed_attrs l) cb_zero n = Some (False, ?cb\<lparr>cb_msg := Some (next_buf ?n1)\<rparr>, n')"
    using assms(3) x by simp
  then show ?thesis
    using assms(1,2) again(2) by (simp add: swconfig_list_attrs_def nlmsg_free_def)
qed


section \<open>The ports of a VLAN\<close>

definition port_section :: "switch_port \<Rightarrow> part list" where
  "port_section port = Nest_start SWITCH_ATTR_PORT # port_parts port @ [Nest_end]"

lemma port_section_len: "skb_len (port_section port) \<le> 16" "skb_len (port_parts port) \<le> 12"
  by (simp_all add: port_section_def port_parts_def)

lemma put_buf_put_buf [simp]: "put_buf b msg (put_buf b msg' n) = put_buf b msg n"
  by (simp add: put_buf_def)

lemma put_buf_same: "bufs n b = Some msg \<Longrightarrow> put_buf b msg n = n"
  by (simp add: put_buf_def map_upd_triv)

lemma send_port_fit:
  assumes "bufs n b = Some msg" "cb_nest cb = Some nest" "skb_len msg + 16 \<le> ne_room env"
  shows "swconfig_send_port env a port b cb n = Some (True, cb, put_buf b (msg @ port_section port) n)"
proof -
  have "nla_puts (ne_room env) (port_parts port) (msg @ [Nest_start SWITCH_ATTR_PORT]) =
      (True, (msg @ [Nest_start SWITCH_ATTR_PORT]) @ port_parts port)"
    using assms(3) port_section_len(2) [of port] by (intro nla_puts_fit) simp
  then show ?thesis
    using assms by (simp add: swconfig_send_port_def put_at_def fits_def port_section_def)
qed

lemma send_ports_loop_fit:
  "bufs n b = Some msg \<Longrightarrow> cb_msg cb = Some b \<Longrightarrow> cb_nest cb = Some nest \<Longrightarrow> skb_len msg + 16 * length ports \<le> ne_room env
   \<Longrightarrow> send_ports_loop env a ports cb n = Some (True, cb, put_buf b (msg @ concat (map port_section ports)) n)"
proof (induction ports arbitrary: msg n)
  case Nil
  then show ?case by (simp add: put_buf_same)
next
  case (Cons port ports)
  have same: "cb\<lparr>cb_msg := Some b\<rparr> = cb" using Cons.prems(2) by simp
  let ?msg = "msg @ port_section port"
  have "swconfig_send_port env a port b cb n = Some (True, cb, put_buf b ?msg n)"
    using Cons.prems by (intro send_port_fit) simp_all
  then have "swconfig_send_multipart env (swconfig_send_port env a port) (Some swconfig_close_portlist) cb n =
      Some (True, cb, put_buf b ?msg n)"
    unfolding swconfig_send_multipart_def by (subst multipart_loop.simps) (simp add: Cons.prems(2) same)
  moreover have "send_ports_loop env a ports cb (put_buf b ?msg n) =
      Some (True, cb, put_buf b (?msg @ concat (map port_section ports)) (put_buf b ?msg n))"
    using Cons.prems port_section_len(1) [of port] by (intro Cons.IH) simp_all
  ultimately show ?case by simp
qed

definition ports_message :: "switch_cmd \<Rightarrow> switch_port list \<Rightarrow> skb" where
  "ports_message cmd ports =
     whole cmd False (Nest_start SWITCH_ATTR_OP_VALUE_PORTS # concat (map port_section ports) @ [Nest_end])"

text \<open>The answer to a request for the ports of a VLAN is one message, the ports in the driver's order.\<close>

lemma send_ports_answer:
  assumes "24 + 16 * length ports \<le> ne_room env" "sd_ports dev \<noteq> 0" "ne_alloc env (next_buf n)"
    "ne_reply env (next_buf n) = 0" "bufs n (next_buf n) = None"
  shows "send_answer env dev cmd SWITCH_TYPE_PORTS (V_ports ports) n =
    Some (0, n\<lparr>next_buf := next_buf n + 1, sent := sent n @ [ports_message cmd ports]\<rparr>)"
proof -
  let ?b = "next_buf n"
  define m0 where "m0 = n\<lparr>next_buf := Suc ?b, bufs := (bufs n)(?b \<mapsto> [])\<rparr>"
  let ?cb = "\<lparr>cb_msg = Some ?b, cb_nest = Some (?b, 1)\<rparr>"
  let ?start = "[Genl_put cmd False, Nest_start SWITCH_ATTR_OP_VALUE_PORTS]"
  have loop: "send_ports_loop env SWITCH_ATTR_OP_VALUE_PORTS ports ?cb (put_buf ?b ?start m0) =
      Some (True, ?cb, put_buf ?b (?start @ concat (map port_section ports)) (put_buf ?b ?start m0))"
    using assms(1) by (intro send_ports_loop_fit) simp_all
  have ports: "swconfig_send_ports env ?b SWITCH_ATTR_OP_VALUE_PORTS ports (put_buf ?b [Genl_put cmd False] m0) =
      Some (True, ?b, put_buf ?b (?start @ concat (map port_section ports) @ [Nest_end]) m0)"
    using assms(1) loop by (simp add: swconfig_send_ports_def start_nest_def put_at_def fits_def swconfig_close_portlist_def)
  have "(bufs n)(?b := None) = bufs n" using assms(5) by auto
  then show ?thesis
    using assms ports
    by (simp add: send_answer_def nlmsg_new_def put_at_def fits_def m0_def [symmetric] genlmsg_reply_def Let_def)
      (simp add: m0_def put_buf_def ports_message_def whole_def)
qed

section \<open>The list of switches in messages\<close>

definition portmap_section :: "string option \<times> u32 \<Rightarrow> part list" where
  "portmap_section x = Nest_start SWITCH_ATTR_PORTS #
     (case fst x of None \<Rightarrow> [] | Some s \<Rightarrow> [Put_string SWITCH_PORTMAP_SEGMENT s, Put_u32 SWITCH_PORTMAP_VIRT (snd x)]) @ [Nest_end]"

lemma portmap_section_simps:
  "portmap_section (None, v) = [Nest_start SWITCH_ATTR_PORTS, Nest_end]"
  "portmap_section (Some t, v) =
     [Nest_start SWITCH_ATTR_PORTS, Put_string SWITCH_PORTMAP_SEGMENT t, Put_u32 SWITCH_PORTMAP_VIRT v, Nest_end]"
  by (simp_all add: portmap_section_def)

definition switch_message :: "'c switch_dev \<Rightarrow> skb" where
  "switch_message dev = whole SWITCH_CMD_NEW_ATTR True
     (switch_parts dev (the (sd_alias dev)) @ concat (map portmap_section (sd_portmap dev)) @ [Nest_end])"

lemma portmap_loop_fit:
  "skb_len msg + skb_len (concat (map portmap_section ports)) \<le> room
   \<Longrightarrow> portmap_loop room ports msg = (True, msg @ concat (map portmap_section ports))"
proof (induction ports arbitrary: msg)
  case (Cons x ports)
  obtain s virt where x: "x = (s, virt)" by (cases x)
  let ?ps = "case s of None \<Rightarrow> [] | Some s \<Rightarrow> [Put_string SWITCH_PORTMAP_SEGMENT s, Put_u32 SWITCH_PORTMAP_VIRT virt]"
  have "nla_puts room ?ps (msg @ [Nest_start SWITCH_ATTR_PORTS]) = (True, (msg @ [Nest_start SWITCH_ATTR_PORTS]) @ ?ps)"
    using Cons.prems x by (intro nla_puts_fit) (cases s; simp add: portmap_section_simps)
  moreover have "portmap_loop room ports (msg @ portmap_section x) =
      (True, (msg @ portmap_section x) @ concat (map portmap_section ports))"
    using Cons.prems by (intro Cons.IH) simp
  ultimately show ?case
    using Cons.prems x by (cases s; simp add: put_at_def fits_def portmap_section_simps)
qed simp

lemma send_switch_fit:
  assumes "sd_alias dev \<noteq> None" "skb_len msg + skb_len (switch_message dev) \<le> room"
  shows "swconfig_send_switch room dev msg = Some (True, msg @ switch_message dev)"
proof -
  obtain s where s: "sd_alias dev = Some s" using assms(1) by auto
  let ?start = "msg @ [Genl_put SWITCH_CMD_NEW_ATTR True]"
  have "nla_puts room (switch_parts dev s) ?start = (True, ?start @ switch_parts dev s)"
    using assms(2) s by (intro nla_puts_fit) (simp add: switch_message_def)
  moreover have "portmap_loop room (sd_portmap dev) (?start @ switch_parts dev s) =
      (True, (?start @ switch_parts dev s) @ concat (map portmap_section (sd_portmap dev)))"
    using assms(2) s by (intro portmap_loop_fit) (simp add: switch_message_def)
  ultimately show ?thesis
    using assms(2) s by (simp add: swconfig_send_switch_def put_at_def fits_def switch_message_def whole_def)
qed

lemma dump_loop_fit:
  "\<forall>dev \<in> set devs. sd_alias dev \<noteq> None \<Longrightarrow> start \<le> idx \<Longrightarrow> skb_len msg + skb_len (concat (map switch_message devs)) \<le> room
   \<Longrightarrow> dump_loop room start idx (devs @ rest) msg =
       dump_loop room start (idx + length devs) rest (msg @ concat (map switch_message devs))"
  by (induction devs arbitrary: idx msg) (simp_all add: send_switch_fit Let_def)

lemma dump_loop_skip: "idx + length devs \<le> start \<Longrightarrow>
    dump_loop room start idx (devs @ rest) msg = dump_loop room start (idx + length devs) rest msg"
  by (induction devs arbitrary: idx) (simp_all add: Let_def)

text \<open>
  When the messages of all switches fit into one buffer, the first call of the dump puts the
  message of every registered switch into it, each once and in the order of registration, with its
  id, names, sizes and the whole port map; the next call adds nothing, which ends the dump.
\<close>

theorem sw_dump_switches:
  assumes "sw_reach L s" "skb_len (concat (map switch_message (swdevs s))) \<le> room"
  shows "swconfig_dump_switches room 0 s = Some (length (swdevs s), concat (map switch_message (swdevs s))) \<and>
    swconfig_dump_switches room (length (swdevs s)) s = Some (length (swdevs s), [])"
proof -
  have "\<forall>dev \<in> set (swdevs s). sd_alias dev \<noteq> None"
    using sw_reach_inv [OF assms(1)] by (simp add: registry_inv_def dev_ok_def)
  then show ?thesis
    using assms(2) dump_loop_fit [of "swdevs s" 0 0 "[]" room "[]"] dump_loop_skip [of 0 "swdevs s" "length (swdevs s)" room "[]" "[]"]
    by (simp add: swconfig_dump_switches_def)
qed

lemma sw_dump_switches_witness:
  "swconfig_dump_switches 200 0 \<lparr>swdevs = [first_dev], swdev_id = 1\<rparr> = Some (1, switch_message first_dev)"
proof -
  have "skb_len (concat (map switch_message (swdevs \<lparr>swdevs = [first_dev], swdev_id = 1\<rparr>))) \<le> 200"
    by (simp add: first_dev_def some_dev_def switch_message_def switch_parts_def portmap_section_def align4_def)
  then show ?thesis
    using sw_dump_switches [OF reach_one, of 200] by auto
qed

text \<open>
  The switch at which a buffer is full is counted as sent: the next call goes on behind it, and no
  message has it.
\<close>

lemma dump_skips:
  assumes "swdevs s = devs @ dev # rest" "\<forall>d \<in> set devs. sd_alias d \<noteq> None"
    "skb_len (concat (map switch_message devs)) \<le> room"
    "swconfig_send_switch room dev (concat (map switch_message devs)) = Some (False, msg)"
  shows "swconfig_dump_switches room 0 s = Some (length devs + 1, msg)"
    "swconfig_dump_switches room (length devs + 1) s = dump_loop room (length devs + 1) (length devs + 1) rest []"
  using dump_loop_fit [of devs 0 0 "[]" room "dev # rest"] dump_loop_skip [of 0 "devs @ [dev]" "length devs + 1" room rest "[]"] assms
  by (simp_all add: swconfig_dump_switches_def Let_def)

end
