(* ===== verification/Rtl8366_Vlan_Spec.thy ===== *)
theory Rtl8366_Vlan_Spec
  imports Rtl8366_Smi
begin

text \<open>
  What an RTL8366 chip promises the common driver: the chip behaves like a machine whose state
  is its two tables and its switches.  The locale \<open>rtl_vlan\<close> is this contract; inside it every
  VLAN function of the driver, run on the chip, is shown to do what the same function does on the
  machine.
\<close>

section \<open>The machine\<close>

record vlans =
  t_mc :: "nat \<Rightarrow> vlan_mc"
  t_4k :: "u32 \<Rightarrow> u16 \<times> u16 \<times> u8"  \<comment> \<open>member, untag, fid\<close>
  t_index :: "nat \<Rightarrow> nat"
  t_vlan :: bool
  t_vlan4k :: bool
  t_port :: "nat \<Rightarrow> bool"

text \<open>What is the same for all states: the numbers of ports and member configurations, and the masks and filter ids the chip takes.\<close>

record limits =
  l_ports :: nat
  l_mc :: nat
  l_mask :: u16
  l_fid :: u8

definition fields_ok :: "limits \<Rightarrow> u16 \<Rightarrow> u16 \<Rightarrow> u8 \<Rightarrow> bool" where
  "fields_ok l member untag fid \<longleftrightarrow> member \<le> l_mask l \<and> untag \<le> l_mask l \<and> fid \<le> l_fid l"

definition mc_ok :: "limits \<Rightarrow> vlan_mc \<Rightarrow> bool" where
  "mc_ok l m \<longleftrightarrow> mc_vid m < 4096 \<and> mc_priority m \<le> 7 \<and> fields_ok l (mc_member m) (mc_untag m) (mc_fid m)"

definition v4_entry :: "vlans \<Rightarrow> u32 \<Rightarrow> vlan_4k" where
  "v4_entry t vid = (let (member, untag, fid) = t_4k t vid in
     \<lparr>v4_vid = ucast vid, v4_untag = untag, v4_member = member, v4_fid = fid\<rparr>)"

definition spec_get_mc :: "limits \<Rightarrow> nat \<Rightarrow> (vlans, vlan_mc) drv" where
  "spec_get_mc l i t = (if i < l_mc l then Inr (t_mc t i) else Inl EINVAL, t)"

definition spec_set_mc :: "limits \<Rightarrow> nat \<Rightarrow> vlan_mc \<Rightarrow> (vlans, unit) drv" where
  "spec_set_mc l i m t = (if i < l_mc l \<and> mc_ok l m then (Inr (), t\<lparr>t_mc := (t_mc t)(i := m)\<rparr>) else (Inl EINVAL, t))"

definition spec_get_4k :: "limits \<Rightarrow> u32 \<Rightarrow> (vlans, vlan_4k) drv" where
  "spec_get_4k l vid t = (if vid < 4096 then Inr (v4_entry t vid) else Inl EINVAL, t)"

definition spec_set_4k :: "limits \<Rightarrow> vlan_4k \<Rightarrow> (vlans, unit) drv" where
  "spec_set_4k l v t =
     (if v4_vid v < 4096 \<and> fields_ok l (v4_member v) (v4_untag v) (v4_fid v)
      then (Inr (), t\<lparr>t_4k := (t_4k t)(ucast (v4_vid v) := (v4_member v, v4_untag v, v4_fid v))\<rparr>)
      else (Inl EINVAL, t))"

definition spec_get_index :: "limits \<Rightarrow> nat \<Rightarrow> (vlans, nat) drv" where
  "spec_get_index l p t = (if p < l_ports l then Inr (t_index t p) else Inl EINVAL, t)"

definition spec_set_index :: "limits \<Rightarrow> nat \<Rightarrow> nat \<Rightarrow> (vlans, unit) drv" where
  "spec_set_index l p i t =
     (if p < l_ports l \<and> i < l_mc l then (Inr (), t\<lparr>t_index := (t_index t)(p := i)\<rparr>) else (Inl EINVAL, t))"

text \<open>Which VLAN ids may be configured: below the number of member configurations in the small mode.\<close>

definition spec_valid :: "limits \<Rightarrow> int \<Rightarrow> u32 \<Rightarrow> bool" where
  "spec_valid l vlan4k vid \<longleftrightarrow> 0 < vid \<and> unat vid < (if vlan4k \<noteq> 0 then 4095 else l_mc l)"

definition spec_ops :: "limits \<Rightarrow> vlans rtl_ops" where
  "spec_ops l =
     \<lparr>detect = dret (), reset_chip = dret (), setup_chip = dret (),
      get_vlan_mc = spec_get_mc l, set_vlan_mc = spec_set_mc l,
      get_vlan_4k = spec_get_4k l, set_vlan_4k = spec_set_4k l,
      get_mc_index = spec_get_index l, set_mc_index = spec_set_index l,
      get_mib_counter = (\<lambda>_ _. derr EINVAL),
      is_vlan_valid = spec_valid l,
      enable_vlan = (\<lambda>e. modify (t_vlan_update (\<lambda>_. e \<noteq> 0))),
      enable_vlan4k = (\<lambda>e. modify (t_vlan4k_update (\<lambda>_. e \<noteq> 0))),
      enable_port = (\<lambda>p e. modify (\<lambda>t. t\<lparr>t_port := (t_port t)(p := e \<noteq> 0)\<rparr>))\<rparr>"

definition spec :: "limits \<Rightarrow> nat \<Rightarrow> vlans rtl" where
  "spec l cpu = \<lparr>ops = spec_ops l, hw_reset = None, cpu_port = cpu, num_ports = l_ports l, num_vlan_mc = l_mc l\<rparr>"

text \<open>What the chip keeps of its tables: each entry is one it would take.\<close>

definition vlans_ok :: "limits \<Rightarrow> vlans \<Rightarrow> bool" where
  "vlans_ok l t \<longleftrightarrow>
     (\<forall>i < l_mc l. mc_ok l (t_mc t i)) \<and>
     (\<forall>vid < 4096. case t_4k t vid of (member, untag, fid) \<Rightarrow> fields_ok l member untag fid) \<and>
     (\<forall>p < l_ports l. t_index t p < l_mc l)"

section \<open>Simulation\<close>

text \<open>\<open>f\<close> on a state of which \<open>view\<close> shows the tables does what \<open>g\<close> does on these.\<close>

definition simulates :: "('c \<Rightarrow> bool) \<Rightarrow> ('c \<Rightarrow> 't) \<Rightarrow> ('c, 'a) drv \<Rightarrow> ('t, 'a) drv \<Rightarrow> bool" where
  "simulates ok view f g \<longleftrightarrow>
     (\<forall>c. ok c \<longrightarrow> (\<exists>c'. f c = (fst (g (view c)), c') \<and> ok c' \<and> view c' = snd (g (view c))))"

lemma simulatesI:
  "(\<And>c. ok c \<Longrightarrow> \<exists>c'. f c = (fst (g (view c)), c') \<and> ok c' \<and> view c' = snd (g (view c))) \<Longrightarrow> simulates ok view f g"
  by (simp add: simulates_def)

lemma simulatesE:
  assumes "simulates ok view f g" "ok c"
  obtains c' where "f c = (fst (g (view c)), c')" "ok c'" "view c' = snd (g (view c))"
  using assms unfolding simulates_def by blast

named_theorems sims "driver functions on the chip and on the machine"

lemma sim_dret [sims]: "simulates ok view (dret a) (dret a)"
  by (simp add: simulates_def dret_def)

lemma sim_derr [sims]: "simulates ok view (derr e) (derr e)"
  by (simp add: simulates_def derr_def)

lemma sim_dbind [sims]:
  assumes "simulates ok view f f'" "\<And>a. simulates ok view (g a) (g' a)"
  shows "simulates ok view (dbind f g) (dbind f' g')"
proof (rule simulatesI)
  fix c assume "ok c"
  then obtain c1 where c1: "f c = (fst (f' (view c)), c1)" "ok c1" "view c1 = snd (f' (view c))"
    using assms(1) by (auto elim: simulatesE)
  show "\<exists>c'. dbind f g c = (fst (dbind f' g' (view c)), c') \<and> ok c' \<and> view c' = snd (dbind f' g' (view c))"
  proof (cases "f' (view c)")
    case (Pair r t)
    show ?thesis
    proof (cases r)
      case (Inl e)
      then show ?thesis using Pair c1 by (simp add: dbind_def)
    next
      case (Inr a)
      obtain c2 where "g a c1 = (fst (g' a (view c1)), c2)" "ok c2" "view c2 = snd (g' a (view c1))"
        using assms(2) c1(2) by (auto elim: simulatesE)
      then show ?thesis using Pair Inr c1 by (simp add: dbind_def)
    qed
  qed
qed

lemma sim_if [sims]:
  "simulates ok view f f' \<Longrightarrow> simulates ok view g g' \<Longrightarrow> simulates ok view (if b then f else g) (if b then f' else g')"
  by simp

lemma sim_option [sims]:
  "simulates ok view f f' \<Longrightarrow> (\<And>a. simulates ok view (g a) (g' a))
   \<Longrightarrow> simulates ok view (case x of None \<Rightarrow> f | Some a \<Rightarrow> g a) (case x of None \<Rightarrow> f' | Some a \<Rightarrow> g' a)"
  by (cases x) auto

lemma sim_pair [sims]:
  "(\<And>a b. simulates ok view (f a b) (f' a b))
   \<Longrightarrow> simulates ok view (case x of (a, b) \<Rightarrow> f a b) (case x of (a, b) \<Rightarrow> f' a b)"
  by (cases x) auto

lemma sim_dfor [sims]:
  "(\<And>i. i \<in> set is \<Longrightarrow> simulates ok view (f i) (f' i)) \<Longrightarrow> simulates ok view (dfor is f) (dfor is f')"
  by (induction "is") (auto intro: sims)

lemma sim_dignore [sims]: "simulates ok view f f' \<Longrightarrow> simulates ok view (dignore f) (dignore f')"
  by (rule simulatesI) (auto simp: dignore_def elim!: simulatesE)

text \<open>With the flags of the driver around the chip.\<close>

definition smi_abs :: "('c \<Rightarrow> 't) \<Rightarrow> 'c smi \<Rightarrow> 't smi" where
  "smi_abs view s = \<lparr>chip = view (chip s), vlan_enabled = vlan_enabled s, vlan4k_enabled = vlan4k_enabled s, pins = pins s\<rparr>"

lemma sim_on_chip [sims]:
  "simulates ok view f f' \<Longrightarrow> simulates (\<lambda>s. ok (chip s)) (smi_abs view) (on_chip f) (on_chip f')"
  by (rule simulatesI) (auto simp: on_chip_def smi_abs_def case_prod_unfold Let_def elim!: simulatesE)

lemma sim_flags [sims]:
  "simulates (\<lambda>s. ok (chip s)) (smi_abs view) (modify (vlan_enabled_update f)) (modify (vlan_enabled_update f))"
  "simulates (\<lambda>s. ok (chip s)) (smi_abs view) (modify (vlan4k_enabled_update f)) (modify (vlan4k_enabled_update f))"
  by (auto intro!: simulatesI simp: modify_def smi_abs_def)

section \<open>The contract\<close>

locale rtl_vlan =
  fixes smi :: "'c rtl" and l :: limits and ok :: "'c \<Rightarrow> bool" and tables :: "'c \<Rightarrow> vlans"
  assumes sizes: "num_ports smi = l_ports l" "num_vlan_mc smi = l_mc l"
    and tables_ok: "ok c \<Longrightarrow> vlans_ok l (tables c)"
    and sim_get_mc: "simulates ok tables (get_vlan_mc (ops smi) i) (spec_get_mc l i)"
    and sim_set_mc: "simulates ok tables (set_vlan_mc (ops smi) i m) (spec_set_mc l i m)"
    and sim_get_4k: "simulates ok tables (get_vlan_4k (ops smi) vid) (spec_get_4k l vid)"
    and sim_set_4k: "simulates ok tables (set_vlan_4k (ops smi) v) (spec_set_4k l v)"
    and sim_get_index: "simulates ok tables (get_mc_index (ops smi) p) (spec_get_index l p)"
    and sim_set_index: "simulates ok tables (set_mc_index (ops smi) p i) (spec_set_index l p i)"
    and sim_enable_vlan: "simulates ok tables (enable_vlan (ops smi) e) (modify (t_vlan_update (\<lambda>_. e \<noteq> 0)))"
    and sim_enable_vlan4k: "simulates ok tables (enable_vlan4k (ops smi) e) (modify (t_vlan4k_update (\<lambda>_. e \<noteq> 0)))"
    and sim_enable_port: "p < l_ports l \<Longrightarrow>
      simulates ok tables (enable_port (ops smi) p e) (modify (\<lambda>t. t\<lparr>t_port := (t_port t)(p := e \<noteq> 0)\<rparr>))"
    and valid: "is_vlan_valid (ops smi) = spec_valid l"
begin

abbreviation tab :: "vlans rtl" where
  "tab \<equiv> spec l (cpu_port smi)"

lemmas ops_sims = sim_get_mc sim_set_mc sim_get_4k sim_set_4k sim_get_index sim_set_index
  sim_enable_vlan sim_enable_vlan4k sim_enable_port

lemma tab_simps [simp]:
  "get_vlan_mc (ops tab) = spec_get_mc l" "set_vlan_mc (ops tab) = spec_set_mc l"
  "get_vlan_4k (ops tab) = spec_get_4k l" "set_vlan_4k (ops tab) = spec_set_4k l"
  "get_mc_index (ops tab) = spec_get_index l" "set_mc_index (ops tab) = spec_set_index l"
  "enable_vlan (ops tab) e = modify (t_vlan_update (\<lambda>_. e \<noteq> 0))"
  "enable_vlan4k (ops tab) e = modify (t_vlan4k_update (\<lambda>_. e \<noteq> 0))"
  "enable_port (ops tab) p e = modify (\<lambda>t. t\<lparr>t_port := (t_port t)(p := e \<noteq> 0)\<rparr>)"
  "is_vlan_valid (ops tab) = spec_valid l"
  "num_ports tab = l_ports l" "num_vlan_mc tab = l_mc l" "cpu_port tab = cpu_port smi"
  by (simp_all add: spec_def spec_ops_def)

lemma sim_is_used: "simulates ok tables (mc_is_used_loop smi i ps) (mc_is_used_loop tab i ps)"
  by (induction ps) (auto intro!: sims ops_sims)

lemma sim_find_mc: "simulates ok tables (find_mc smi P is m) (find_mc tab P is m)"
  by (induction "is" arbitrary: m) (auto intro!: sims ops_sims)

lemma sim_find_unused: "simulates ok tables (find_unused smi is) (find_unused tab is)"
  by (induction "is") (auto intro!: sims sim_is_used simp: rtl8366_mc_is_used_def sizes)

lemma sim_set_vlan:
  "simulates ok tables (rtl8366_set_vlan smi vid member untag fid) (rtl8366_set_vlan tab vid member untag fid)"
  unfolding rtl8366_set_vlan_def tab_simps sizes by (intro sims ops_sims sim_find_mc)

lemma sim_get_pvid: "simulates ok tables (rtl8366_get_pvid smi p) (rtl8366_get_pvid tab p)"
  unfolding rtl8366_get_pvid_def tab_simps by (intro sims ops_sims)

lemma sim_take_entry: "simulates ok tables (take_entry smi p vid i m) (take_entry tab p vid i m)"
  unfolding take_entry_def tab_simps by (intro sims ops_sims)

lemma sim_set_pvid: "simulates ok tables (rtl8366_set_pvid smi p vid) (rtl8366_set_pvid tab p vid)"
  unfolding rtl8366_set_pvid_def tab_simps sizes
  by (intro sims ops_sims sim_find_mc sim_find_unused sim_take_entry)

lemma sim_set_ports_loop:
  "simulates ok tables (set_vlan_ports_loop smi vid ps member untag) (set_vlan_ports_loop tab vid ps member untag)"
  by (induction ps arbitrary: member untag)
     (auto simp: Let_def intro!: sims sim_get_pvid sim_set_pvid)

lemma sim_enable:
  "simulates (\<lambda>s. ok (chip s)) (smi_abs tables) (rtl8366_enable_vlan smi e) (rtl8366_enable_vlan tab e)"
  "simulates (\<lambda>s. ok (chip s)) (smi_abs tables) (rtl8366_enable_vlan4k smi e) (rtl8366_enable_vlan4k tab e)"
  unfolding rtl8366_enable_vlan_def rtl8366_enable_vlan4k_def tab_simps by (intro sims ops_sims)+

lemma sim_reset_vlan:
  "simulates (\<lambda>s. ok (chip s)) (smi_abs tables) (rtl8366_reset_vlan smi) (rtl8366_reset_vlan tab)"
  unfolding rtl8366_reset_vlan_def tab_simps sizes by (intro sims ops_sims sim_enable)

lemma sim_init_vlan:
  "simulates (\<lambda>s. ok (chip s)) (smi_abs tables) (rtl8366_init_vlan smi) (rtl8366_init_vlan tab)"
proof -
  have "init_mask tab p = init_mask smi p" for p
    by (simp add: init_mask_def sizes)
  then show ?thesis
    unfolding rtl8366_init_vlan_def tab_simps sizes
    by (auto intro!: sims sim_enable sim_reset_vlan sim_set_vlan sim_set_pvid)
qed

lemma sim_valid_then:
  "simulates (\<lambda>s. ok (chip s)) (smi_abs tables) f g
   \<Longrightarrow> simulates (\<lambda>s. ok (chip s)) (smi_abs tables) (valid_then smi vid f) (valid_then tab vid g)"
  by (rule simulatesI) (auto simp: valid_then_def valid derr_def smi_abs_def elim!: simulatesE)

lemma sim_sw_pvid:
  "simulates (\<lambda>s. ok (chip s)) (smi_abs tables) (rtl8366_sw_get_port_pvid smi p) (rtl8366_sw_get_port_pvid tab p)"
  "simulates (\<lambda>s. ok (chip s)) (smi_abs tables) (rtl8366_sw_set_port_pvid smi p vid) (rtl8366_sw_set_port_pvid tab p vid)"
  unfolding rtl8366_sw_get_port_pvid_def rtl8366_sw_set_port_pvid_def
  by (intro sims sim_get_pvid sim_set_pvid)+

lemma sim_sw_vlan_ports:
  "simulates (\<lambda>s. ok (chip s)) (smi_abs tables) (rtl8366_sw_get_vlan_ports smi vid) (rtl8366_sw_get_vlan_ports tab vid)"
  "simulates (\<lambda>s. ok (chip s)) (smi_abs tables) (rtl8366_sw_set_vlan_ports smi vid ps) (rtl8366_sw_set_vlan_ports tab vid ps)"
proof -
  have "simulates ok tables (read_vlan_4k smi vid) (read_vlan_4k tab vid)"
  proof (rule simulatesI)
    fix c assume "ok c"
    then obtain c' where "get_vlan_4k (ops smi) vid c = (fst (spec_get_4k l vid (tables c)), c')" "ok c'"
      "tables c' = snd (spec_get_4k l vid (tables c))"
      using sim_get_4k by (auto elim: simulatesE)
    then show "\<exists>c'. read_vlan_4k smi vid c = (fst (read_vlan_4k tab vid (tables c)), c') \<and> ok c'
        \<and> tables c' = snd (read_vlan_4k tab vid (tables c))"
      by (auto simp: read_vlan_4k_def spec_get_4k_def)
  qed
  then show "simulates (\<lambda>s. ok (chip s)) (smi_abs tables) (rtl8366_sw_get_vlan_ports smi vid) (rtl8366_sw_get_vlan_ports tab vid)"
    unfolding rtl8366_sw_get_vlan_ports_def tab_simps sizes by (intro sims sim_valid_then)
  show "simulates (\<lambda>s. ok (chip s)) (smi_abs tables) (rtl8366_sw_set_vlan_ports smi vid ps) (rtl8366_sw_set_vlan_ports tab vid ps)"
    unfolding rtl8366_sw_set_vlan_ports_def by (intro sims sim_valid_then sim_set_ports_loop sim_set_vlan)
qed

lemma sim_sw_fid:
  "simulates (\<lambda>s. ok (chip s)) (smi_abs tables) (rtl8366_sw_get_vlan_fid smi vid) (rtl8366_sw_get_vlan_fid tab vid)"
  "simulates (\<lambda>s. ok (chip s)) (smi_abs tables) (rtl8366_sw_set_vlan_fid smi m vid fid) (rtl8366_sw_set_vlan_fid tab m vid fid)"
  unfolding rtl8366_sw_get_vlan_fid_def rtl8366_sw_set_vlan_fid_def tab_simps
  by (intro sims sim_valid_then ops_sims sim_set_vlan)+

lemma sim_sw_enable:
  "simulates (\<lambda>s. ok (chip s)) (smi_abs tables) (rtl8366_sw_set_vlan_enable smi ofs e) (rtl8366_sw_set_vlan_enable tab ofs e)"
  unfolding rtl8366_sw_set_vlan_enable_def by (intro sims sim_enable)

end

end
