(* ===== verification/Rtl8366_Vlan_Facts.thy ===== *)
theory Rtl8366_Vlan_Facts
  imports Rtl8366_Vlan_Spec
begin

text \<open>
  The VLAN functions of the driver on the machine of \<open>Rtl8366_Vlan_Spec\<close>: which entry a port
  gets, what stays of the others, and the invariant that links the two tables.
\<close>

section \<open>Machine steps\<close>

lemma spec_simps [simp]:
  "get_vlan_mc (ops (spec l cpu)) = spec_get_mc l" "set_vlan_mc (ops (spec l cpu)) = spec_set_mc l"
  "get_vlan_4k (ops (spec l cpu)) = spec_get_4k l" "set_vlan_4k (ops (spec l cpu)) = spec_set_4k l"
  "get_mc_index (ops (spec l cpu)) = spec_get_index l" "set_mc_index (ops (spec l cpu)) = spec_set_index l"
  "enable_vlan (ops (spec l cpu)) e = modify (t_vlan_update (\<lambda>_. e \<noteq> 0))"
  "enable_vlan4k (ops (spec l cpu)) e = modify (t_vlan4k_update (\<lambda>_. e \<noteq> 0))"
  "enable_port (ops (spec l cpu)) p e = modify (\<lambda>t. t\<lparr>t_port := (t_port t)(p := e \<noteq> 0)\<rparr>)"
  "is_vlan_valid (ops (spec l cpu)) = spec_valid l"
  "num_ports (spec l cpu) = l_ports l" "num_vlan_mc (spec l cpu) = l_mc l" "cpu_port (spec l cpu) = cpu"
  by (simp_all add: spec_def spec_ops_def)

lemma unat_vid: "vid < 4096 \<Longrightarrow> unat (ucast vid :: u16) = unat vid" for vid :: u32
  by (simp add: unsigned_ucast_eq take_bit_nat_eq_self word_less_nat_alt)

lemma vid_u16: "vid < 4096 \<Longrightarrow> ucast (ucast vid :: u16) = (vid :: u32)"
  by (rule word_unat_eq_iff [THEN iffD2], subst unsigned_ucast_eq)
     (simp add: unat_vid take_bit_nat_eq_self word_less_nat_alt)

lemma unat_up: "unat (ucast m :: u32) = unat m" for m :: u16
proof -
  have "unat m < 2 ^ 16" using unsigned_less [of m] by simp
  then show ?thesis by (simp add: unsigned_ucast_eq take_bit_nat_eq_self)
qed

lemma up_eq [simp]: "(ucast m :: u32) = ucast n \<longleftrightarrow> m = n" for m n :: u16
  using unat_up [of m] unat_up [of n] by (auto simp: word_unat_eq_iff)

lemma vid_less: "vid < 4096 \<Longrightarrow> ucast vid < (4096 :: u16)" for vid :: u32
  by (simp add: word_less_nat_alt unat_vid)

lemma find_mc_spec:
  "\<forall>i \<in> set is. i < l_mc l \<Longrightarrow>
   find_mc (spec l cpu) P is m t =
     (Inr (case List.find (\<lambda>i. P (t_mc t i)) is of
        Some i \<Rightarrow> (Some i, t_mc t i)
      | None \<Rightarrow> (None, if is = [] then m else t_mc t (last is))), t)"
  by (induction "is" arbitrary: m) (auto simp: dbind_def dret_def spec_get_mc_def split: option.split)

lemma mc_is_used_spec: "rtl8366_mc_is_used (spec l cpu) i t = (Inr (\<exists>p < l_ports l. t_index t p = i), t)"
proof -
  have "mc_is_used_loop (spec l cpu) i ps t = (Inr (\<exists>p \<in> set ps. t_index t p = i), t)"
    if "\<forall>p \<in> set ps. p < l_ports l" for ps
    using that by (induction ps) (auto simp: dbind_def dret_def spec_get_index_def)
  from this [of "[0..<l_ports l]"] show ?thesis
    by (auto simp: rtl8366_mc_is_used_def)
qed

lemma find_unused_spec:
  "find_unused (spec l cpu) is t = (Inr (List.find (\<lambda>i. \<forall>p < l_ports l. t_index t p \<noteq> i) is), t)"
  by (induction "is") (auto simp: dbind_def dret_def mc_is_used_spec)

text \<open>The entry that \<open>rtl8366_set_pvid\<close> gives to a port, and what it writes there.\<close>

definition filled :: "vlans \<Rightarrow> u32 \<Rightarrow> vlan_mc \<Rightarrow> vlan_mc" where
  "filled t vid m = (let (member, untag, fid) = t_4k t vid in
     m\<lparr>mc_vid := ucast vid, mc_member := member, mc_untag := untag, mc_fid := fid\<rparr>)"

definition entry_for :: "limits \<Rightarrow> vlans \<Rightarrow> u32 \<Rightarrow> (nat \<times> vlan_mc) option" where
  "entry_for l t vid =
     (case List.find (\<lambda>i. vid = ucast (mc_vid (t_mc t i))) [0..<l_mc l] of
        Some i \<Rightarrow> Some (i, t_mc t i)
      | None \<Rightarrow> (case List.find (\<lambda>i. mc_vid (t_mc t i) = 0 \<and> mc_member (t_mc t i) = 0) [0..<l_mc l] of
        Some i \<Rightarrow> Some (i, filled t vid (t_mc t i))
      | None \<Rightarrow> (case List.find (\<lambda>i. \<forall>p < l_ports l. t_index t p \<noteq> i) [0..<l_mc l] of
        Some i \<Rightarrow> Some (i, filled t vid (t_mc t (l_mc l - 1)))
      | None \<Rightarrow> None)))"

lemma filled_simps [simp]:
  "mc_vid (filled t vid m) = ucast vid"
  "t_4k t vid = (mc_member (filled t vid m), mc_untag (filled t vid m), mc_fid (filled t vid m)) \<longleftrightarrow> True"
  by (auto simp: filled_def split: prod.splits)

lemma find_upt: "List.find P [0..<n] = Some i \<Longrightarrow> i < n \<and> P i"
  by (auto simp: find_Some_iff)

lemma mc_ok_filled:
  assumes "vlans_ok l t" "vid < 4096" "mc_ok l m"
  shows "mc_ok l (filled t vid m)"
  using assms vid_less [OF assms(2)] by (auto simp: vlans_ok_def mc_ok_def filled_def split: prod.splits)

lemma entry_for_ok:
  assumes "vlans_ok l t" "vid < 4096" "entry_for l t vid = Some (i, m)"
  shows "i < l_mc l \<and> mc_ok l m \<and> ucast (mc_vid m) = vid"
proof -
  have mc: "mc_ok l (t_mc t j)" if "j < l_mc l" for j
    using assms(1) that by (simp add: vlans_ok_def)
  have "mc_ok l (filled t vid (t_mc t j))" if "j < l_mc l" for j
    using mc_ok_filled [OF assms(1,2) mc [OF that]] .
  then show ?thesis
    using assms(3) vid_u16 [OF assms(2)]
    by (auto simp: entry_for_def split: option.splits dest!: find_upt intro: mc)
qed

lemma find_mc_all:
  "find_mc (spec l cpu) P [0..<l_mc l] m t =
     (Inr (case List.find (\<lambda>i. P (t_mc t i)) [0..<l_mc l] of
        Some i \<Rightarrow> (Some i, t_mc t i)
      | None \<Rightarrow> (None, if l_mc l = 0 then m else t_mc t (l_mc l - 1))), t)"
  by (subst find_mc_spec) (auto simp: last_conv_nth split: option.split)

lemma take_entry_spec:
  assumes "vid < 4096" "i < l_mc l" "mc_ok l (filled t vid m)"
  shows "take_entry (spec l cpu) p vid i m t = spec_set_index l p i (t\<lparr>t_mc := (t_mc t)(i := filled t vid m)\<rparr>)"
proof -
  obtain member untag fid where f: "t_4k t vid = (member, untag, fid)" by (metis surj_pair)
  then show ?thesis
    using assms by (simp add: take_entry_def dbind_def spec_get_4k_def spec_set_mc_def v4_entry_def filled_def)
qed

lemma set_pvid_spec:
  assumes "vlans_ok l t" "vid < 4096"
  shows "rtl8366_set_pvid (spec l cpu) p vid t = (case entry_for l t vid of
     Some (i, m) \<Rightarrow> spec_set_index l p i (t\<lparr>t_mc := (t_mc t)(i := m)\<rparr>)
   | None \<Rightarrow> (Inl ENOSPC, t))"
proof -
  have mc: "mc_ok l (t_mc t j)" if "j < l_mc l" for j
    using assms(1) that by (simp add: vlans_ok_def)
  have fill: "mc_ok l (filled t vid (t_mc t j))" if "j < l_mc l" for j
    using mc_ok_filled [OF assms mc [OF that]] .
  note defs = rtl8366_set_pvid_def dbind_def find_mc_all entry_for_def spec_set_mc_def derr_def
  show ?thesis
  proof (cases "List.find (\<lambda>i. vid = ucast (mc_vid (t_mc t i))) [0..<l_mc l]")
    case (Some i)
    then have "i < l_mc l" using find_upt by blast
    then show ?thesis using Some mc by (simp add: defs)
  next
    case n1: None
    show ?thesis
    proof (cases "List.find (\<lambda>i. mc_vid (t_mc t i) = 0 \<and> mc_member (t_mc t i) = 0) [0..<l_mc l]")
      case (Some i)
      then have "i < l_mc l" using find_upt by blast
      then show ?thesis using n1 Some assms(2) fill by (simp add: defs take_entry_spec)
    next
      case n2: None
      show ?thesis
      proof (cases "List.find (\<lambda>i. \<forall>p < l_ports l. t_index t p \<noteq> i) [0..<l_mc l]")
        case (Some i)
        then have "i < l_mc l" using find_upt by blast
        then show ?thesis using n1 n2 Some assms(2) fill by (simp add: defs find_unused_spec take_entry_spec)
      qed (simp add: defs n1 n2 find_unused_spec)
    qed
  qed
qed

text \<open>An entry is free as soon as there are more entries than ports.\<close>

lemma entry_for_Some:
  assumes "l_ports l < l_mc l"
  obtains i m where "entry_for l t vid = Some (i, m)"
proof -
  have "card (t_index t ` {..<l_ports l}) \<le> l_ports l"
    using card_image_le [of "{..<l_ports l}" "t_index t"] by simp
  then have "\<not> {..<l_mc l} \<subseteq> t_index t ` {..<l_ports l}"
    using assms card_mono [of "t_index t ` {..<l_ports l}" "{..<l_mc l}"] by auto
  then have "List.find (\<lambda>i. \<forall>p < l_ports l. t_index t p \<noteq> i) [0..<l_mc l] \<noteq> None"
    by (auto simp: find_None_iff)
  then obtain k where "List.find (\<lambda>i. \<forall>p < l_ports l. t_index t p \<noteq> i) [0..<l_mc l] = Some k" by blast
  then have "entry_for l t vid \<noteq> None"
    by (simp add: entry_for_def split: option.split)
  then show ?thesis using that by auto
qed

section \<open>The VLAN id of a port\<close>

definition pvid :: "vlans \<Rightarrow> nat \<Rightarrow> u16" where
  "pvid t p = mc_vid (t_mc t (t_index t p))"

lemma get_pvid_spec:
  "vlans_ok l t \<Longrightarrow> p < l_ports l \<Longrightarrow> rtl8366_get_pvid (spec l cpu) p t = (Inr (pvid t p), t)"
  by (simp add: rtl8366_get_pvid_def dbind_def dret_def spec_get_index_def spec_get_mc_def vlans_ok_def pvid_def)

text \<open>
  The tables fit together: no two entries have the same VLAN id, and an entry with a VLAN id is
  what the VLAN table says.
\<close>

definition vlans_inv :: "limits \<Rightarrow> vlans \<Rightarrow> bool" where
  "vlans_inv l t \<longleftrightarrow> vlans_ok l t \<and>
     (\<forall>i < l_mc l. mc_vid (t_mc t i) \<noteq> 0 \<longrightarrow>
        (\<forall>j < l_mc l. mc_vid (t_mc t j) = mc_vid (t_mc t i) \<longrightarrow> j = i) \<and>
        t_4k t (ucast (mc_vid (t_mc t i))) = (mc_member (t_mc t i), mc_untag (t_mc t i), mc_fid (t_mc t i)))"

lemma entry_for_cases:
  assumes "entry_for l t vid = Some (i, m)"
  shows "i < l_mc l \<and>
    (vid = ucast (mc_vid (t_mc t i)) \<and> m = t_mc t i \<or>
     (\<forall>j < l_mc l. vid \<noteq> ucast (mc_vid (t_mc t j))) \<and> (\<exists>m'. m = filled t vid m') \<and>
     (mc_vid (t_mc t i) = 0 \<or> (\<forall>p < l_ports l. t_index t p \<noteq> i)))"
proof (cases "List.find (\<lambda>i. vid = ucast (mc_vid (t_mc t i))) [0..<l_mc l]")
  case (Some k)
  then show ?thesis using assms by (auto simp: entry_for_def dest!: find_upt)
next
  case None
  then have no: "\<forall>j < l_mc l. vid \<noteq> ucast (mc_vid (t_mc t j))"
    by (auto simp: find_None_iff)
  show ?thesis
  proof (cases "List.find (\<lambda>i. mc_vid (t_mc t i) = 0 \<and> mc_member (t_mc t i) = 0) [0..<l_mc l]")
    case (Some k)
    then show ?thesis using assms None no find_upt [OF Some] by (auto simp: entry_for_def)
  next
    case n2: None
    obtain k where k: "List.find (\<lambda>i. \<forall>p < l_ports l. t_index t p \<noteq> i) [0..<l_mc l] = Some k"
      using assms None n2 by (auto simp: entry_for_def split: option.splits)
    then show ?thesis using assms None n2 no find_upt [OF k] by (auto simp: entry_for_def)
  qed
qed

lemma take_entry_inv:
  assumes inv: "vlans_inv l t" and vid: "vid < 4096" and e: "entry_for l t vid = Some (i, m)"
  shows "vlans_inv l (t\<lparr>t_mc := (t_mc t)(i := m)\<rparr>)"
proof -
  let ?t = "t\<lparr>t_mc := (t_mc t)(i := m)\<rparr>"
  have ok: "vlans_ok l t" and uniq: "\<And>a b. a < l_mc l \<Longrightarrow> b < l_mc l \<Longrightarrow> mc_vid (t_mc t a) \<noteq> 0 \<Longrightarrow>
      mc_vid (t_mc t b) = mc_vid (t_mc t a) \<Longrightarrow> b = a"
    and same: "\<And>a. a < l_mc l \<Longrightarrow> mc_vid (t_mc t a) \<noteq> 0 \<Longrightarrow>
      t_4k t (ucast (mc_vid (t_mc t a))) = (mc_member (t_mc t a), mc_untag (t_mc t a), mc_fid (t_mc t a))"
    using inv by (auto simp: vlans_inv_def)
  have ok': "vlans_ok l ?t"
    using ok entry_for_ok [OF ok vid e] by (auto simp: vlans_ok_def)
  show ?thesis
  proof (cases "vid = ucast (mc_vid (t_mc t i)) \<and> m = t_mc t i")
    case True
    then show ?thesis using ok' inv by (simp add: vlans_inv_def)
  next
    case False
    then have no: "\<And>j. j < l_mc l \<Longrightarrow> vid \<noteq> ucast (mc_vid (t_mc t j))" and "\<exists>m'. m = filled t vid m'"
      using entry_for_cases [OF e] by auto
    then obtain m' where m': "m = filled t vid m'" by blast
    have other: "mc_vid (t_mc t j) \<noteq> ucast vid" if "j < l_mc l" for j
      using no [OF that] vid_u16 [OF vid] by auto
    have "(\<forall>j < l_mc l. mc_vid (t_mc ?t j) = mc_vid (t_mc ?t k) \<longrightarrow> j = k) \<and>
        t_4k ?t (ucast (mc_vid (t_mc ?t k))) = (mc_member (t_mc ?t k), mc_untag (t_mc ?t k), mc_fid (t_mc ?t k))"
      if k: "k < l_mc l" "mc_vid (t_mc ?t k) \<noteq> 0" for k
    proof (cases "k = i")
      case True
      then show ?thesis using other vid_u16 [OF vid] by (auto simp: m')
    next
      case False
      then show ?thesis using k other [of k] uniq [of k] same [of k] by (auto simp: m')
    qed
    then show ?thesis using ok' by (simp add: vlans_inv_def)
  qed
qed

lemma set_index_inv:
  "vlans_inv l t \<Longrightarrow> vlans_inv l (snd (spec_set_index l p i t))"
  by (auto simp: spec_set_index_def vlans_inv_def vlans_ok_def)

lemma set_pvid_step:
  assumes inv: "vlans_inv l t" and vid: "vid < 4096" and p: "p < l_ports l" and e: "entry_for l t vid = Some (i, m)"
    and t': "t' = t\<lparr>t_mc := (t_mc t)(i := m), t_index := (t_index t)(p := i)\<rparr>"
  shows "vlans_inv l t'" "ucast (pvid t' p) = vid"
    "\<And>q. q < l_ports l \<Longrightarrow> q \<noteq> p \<Longrightarrow> pvid t q \<noteq> 0 \<Longrightarrow> pvid t' q = pvid t q"
proof -
  have ok: "vlans_ok l t" using inv by (simp add: vlans_inv_def)
  note new = entry_for_ok [OF ok vid e] and cases = entry_for_cases [OF e]
  show "vlans_inv l t'"
    using set_index_inv [OF take_entry_inv [OF inv vid e], of p i] p new by (simp add: spec_set_index_def t')
  show "ucast (pvid t' p) = vid"
    using new by (simp add: pvid_def t')
  fix q assume q: "q < l_ports l" "q \<noteq> p" "pvid t q \<noteq> 0"
  show "pvid t' q = pvid t q"
    using cases q by (auto simp: pvid_def t')
qed

lemma set_pvid_machine:
  assumes "vlans_inv l t" "l_ports l < l_mc l" "vid < 4096" "p < l_ports l"
  obtains t' where "rtl8366_set_pvid (spec l cpu) p vid t = (Inr (), t')" "vlans_inv l t'"
    "ucast (pvid t' p) = vid" "\<And>q. q < l_ports l \<Longrightarrow> q \<noteq> p \<Longrightarrow> pvid t q \<noteq> 0 \<Longrightarrow> pvid t' q = pvid t q"
    "t_4k t' = t_4k t"
proof -
  obtain i m where e: "entry_for l t vid = Some (i, m)"
    using entry_for_Some [OF assms(2)] by blast
  let ?t = "t\<lparr>t_mc := (t_mc t)(i := m), t_index := (t_index t)(p := i)\<rparr>"
  have "i < l_mc l" using entry_for_cases [OF e] by simp
  then have "rtl8366_set_pvid (spec l cpu) p vid t = (Inr (), ?t)"
    using set_pvid_spec [of l t vid cpu p] assms e by (simp add: vlans_inv_def spec_set_index_def)
  then show ?thesis
    using that set_pvid_step [OF assms(1,3,4) e refl] by simp
qed

text \<open>A VLAN id that the chip does not have changes nothing, whatever the port.\<close>

lemma set_pvid_invalid:
  assumes "vlans_ok l t" "\<not> vid < 4096"
  shows "\<exists>e. rtl8366_set_pvid (spec l cpu) p vid t = (Inl e, t)"
proof -
  have "vid \<noteq> ucast (mc_vid (t_mc t i))" if "i < l_mc l" for i
  proof
    assume v: "vid = ucast (mc_vid (t_mc t i))"
    have "mc_vid (t_mc t i) < 4096" using assms(1) that by (simp add: vlans_ok_def mc_ok_def)
    then have "unat (mc_vid (t_mc t i)) < 4096" by (simp add: word_less_nat_alt)
    moreover have "unat vid = unat (mc_vid (t_mc t i))"
      using v by (simp add: unat_up)
    ultimately show False using assms(2) by (simp add: word_less_nat_alt)
  qed
  then have "List.find (\<lambda>i. vid = ucast (mc_vid (t_mc t i))) [0..<l_mc l] = None"
    by (auto simp: find_None_iff)
  then show ?thesis
    using assms(2)
    by (auto simp: rtl8366_set_pvid_def dbind_def find_mc_all find_unused_spec take_entry_def spec_get_4k_def derr_def
        split: option.split)
qed

section \<open>VLANs\<close>

lemma set_vlan_machine:
  assumes inv: "vlans_inv l t" and vid: "vid < 4096" and f: "fields_ok l (ucast member) (ucast untag) (ucast fid)"
  obtains t' where "rtl8366_set_vlan (spec l cpu) vid member untag fid t = (Inr (), t')" "vlans_inv l t'"
    "\<And>p. pvid t' p = pvid t p" "t_4k t' = (t_4k t)(vid := (ucast member, ucast untag, ucast fid))"
proof -
  let ?t1 = "t\<lparr>t_4k := (t_4k t)(vid := (ucast member, ucast untag, ucast fid))\<rparr>"
  have ok: "vlans_ok l t" and uniq: "\<And>a b. a < l_mc l \<Longrightarrow> b < l_mc l \<Longrightarrow> mc_vid (t_mc t a) \<noteq> 0 \<Longrightarrow>
      mc_vid (t_mc t b) = mc_vid (t_mc t a) \<Longrightarrow> b = a"
    and same: "\<And>a. a < l_mc l \<Longrightarrow> mc_vid (t_mc t a) \<noteq> 0 \<Longrightarrow>
      t_4k t (ucast (mc_vid (t_mc t a))) = (mc_member (t_mc t a), mc_untag (t_mc t a), mc_fid (t_mc t a))"
    using inv by (auto simp: vlans_inv_def)
  have ok1: "vlans_ok l ?t1"
    using ok f by (auto simp: vlans_ok_def)
  have set4k: "spec_set_4k l ((v4_entry t vid)\<lparr>v4_member := ucast member, v4_untag := ucast untag, v4_fid := ucast fid\<rparr>) t
      = (Inr (), ?t1)"
    using vid_less [OF vid] vid_u16 [OF vid] f by (simp add: spec_set_4k_def v4_entry_def split: prod.split)
  let ?find = "List.find (\<lambda>i. vid = ucast (mc_vid (t_mc ?t1 i))) [0..<l_mc l]"
  have run: "rtl8366_set_vlan (spec l cpu) vid member untag fid t = (case ?find of
      None \<Rightarrow> (Inr (), ?t1)
    | Some i \<Rightarrow> spec_set_mc l i ((t_mc t i)\<lparr>mc_member := ucast member, mc_untag := ucast untag, mc_fid := ucast fid\<rparr>) ?t1)"
    using vid unfolding rtl8366_set_vlan_def dbind_def
    by (simp add: spec_get_4k_def set4k find_mc_all dret_def split: option.split)
  show ?thesis
  proof (cases ?find)
    case None
    then have "\<And>i. i < l_mc l \<Longrightarrow> vid \<noteq> ucast (mc_vid (t_mc t i))"
      by (auto simp: find_None_iff)
    then have "vlans_inv l ?t1"
      using ok1 uniq same by (auto simp: vlans_inv_def)
    then show ?thesis
      using that [of ?t1] run None by (simp add: pvid_def)
  next
    case (Some i)
    let ?m = "(t_mc t i)\<lparr>mc_member := ucast member, mc_untag := ucast untag, mc_fid := ucast fid\<rparr>"
    let ?t2 = "?t1\<lparr>t_mc := (t_mc t)(i := ?m)\<rparr>"
    have i: "i < l_mc l" "vid = ucast (mc_vid (t_mc t i))"
      using find_upt [OF Some] by auto
    have m: "mc_ok l ?m"
      using ok i(1) f by (simp add: vlans_ok_def mc_ok_def)
    have ok2: "vlans_ok l ?t2"
      using ok1 m by (simp add: vlans_ok_def)
    have vid_i: "mc_vid (t_mc t j) = mc_vid (t_mc t i)" if "j < l_mc l" "vid = ucast (mc_vid (t_mc t j))" for j
      using that(2) unfolding i(2) by simp
    have vids: "mc_vid (t_mc ?t2 j) = mc_vid (t_mc t j)" for j by simp
    have "t_4k ?t2 (ucast (mc_vid (t_mc ?t2 k))) = (mc_member (t_mc ?t2 k), mc_untag (t_mc ?t2 k), mc_fid (t_mc ?t2 k))"
      if "k < l_mc l" "mc_vid (t_mc ?t2 k) \<noteq> 0" for k
    proof (cases "k = i")
      case True
      then show ?thesis using i(2) by simp
    next
      case False
      have k: "mc_vid (t_mc t k) \<noteq> 0" using that(2) unfolding vids .
      then have "mc_vid (t_mc t k) \<noteq> mc_vid (t_mc t i)"
        using uniq [OF i(1) that(1)] uniq [OF that(1) i(1)] False by fastforce
      then show ?thesis using same [OF that(1) k] False i(2) by simp
    qed
    moreover have "j = k" if "k < l_mc l" "mc_vid (t_mc ?t2 k) \<noteq> 0" "j < l_mc l" "mc_vid (t_mc ?t2 j) = mc_vid (t_mc ?t2 k)" for j k
      using uniq [OF that(1,3)] that(2,4) unfolding vids by simp
    ultimately have "vlans_inv l ?t2"
      using ok2 unfolding vlans_inv_def by blast
    moreover have "pvid ?t2 p = pvid t p" for p
      by (simp add: pvid_def)
    ultimately show ?thesis
      using that [of ?t2] run Some i(1) m by (simp add: spec_set_mc_def)
  qed
qed


section \<open>Reset and start\<close>

definition limits_ok :: "limits \<Rightarrow> nat \<Rightarrow> bool" where
  "limits_ok l cpu \<longleftrightarrow> l_ports l \<le> 15 \<and> l_ports l < l_mc l \<and> l_mc l \<le> 4095 \<and> l_mask l = mask (l_ports l) \<and> cpu < l_ports l"

lemma fields_ok_bits:
  assumes "limits_ok l cpu" "\<And>j. bit member j \<Longrightarrow> j < l_ports l" "\<And>j. bit untag j \<Longrightarrow> j < l_ports l"
  shows "fields_ok l (ucast (member :: u32)) (ucast (untag :: u32)) 0"
proof -
  have "(ucast m :: u16) \<le> l_mask l" if "\<And>j. bit m j \<Longrightarrow> j < l_ports l" for m :: u32
  proof -
    have "take_bit (l_ports l) (ucast m :: u16) = ucast m"
      by (intro bit_eqI) (auto simp: bit_simps dest: that)
    then show ?thesis
      using assms(1) word_and_le1 [of "ucast m :: u16" "mask (l_ports l)"] by (simp add: limits_ok_def take_bit_eq_mask)
  qed
  then show ?thesis using assms(2,3) by (simp add: fields_ok_def)
qed

lemma bit_init_mask:
  assumes "limits_ok l cpu" "p < l_ports l"
  shows "bit (init_mask (spec l cpu) p) j \<longleftrightarrow> j < l_ports l \<and> (j = p \<or> j = cpu \<or> p = cpu)"
proof -
  have n: "l_ports l \<le> 15" "cpu < l_ports l" using assms(1) by (auto simp: limits_ok_def)
  have "push_bit (l_ports l) 1 - 1 = (mask (l_ports l) :: u32)"
    by (simp add: mask_eq_exp_minus_1)
  then show ?thesis
    using n assms(2) by (auto simp: init_mask_def bit_simps bit_1_iff)
qed

lemma dfor_append: "dfor (xs @ ys) f = dbind (dfor xs f) (\<lambda>_. dfor ys f)"
proof (induction xs)
  case (Cons x xs)
  then show ?case by (auto simp: dbind_def split: prod.splits sum.splits)
qed simp

lemma clear_entries:
  "n \<le> l_mc l \<Longrightarrow> dfor [0..<n] (\<lambda>i. spec_set_mc l i mc_zero) t =
     (Inr (), t\<lparr>t_mc := (\<lambda>i. if i < n then mc_zero else t_mc t i)\<rparr>)"
proof (induction n)
  case (Suc n)
  have "mc_ok l mc_zero" by (simp add: mc_ok_def mc_zero_def fields_ok_def)
  moreover have "(\<lambda>i. if i < Suc n then mc_zero else t_mc t i) = (\<lambda>i. if i < n then mc_zero else t_mc t i)(n := mc_zero)"
    by (auto simp: less_Suc_eq)
  ultimately show ?case
    using Suc by (simp add: dfor_append dbind_def dret_def spec_set_mc_def)
qed (simp add: dret_def)

text \<open>The tables when the member configurations are clear and VLANs are off.\<close>

definition cleared :: "limits \<Rightarrow> vlans \<Rightarrow> vlans" where
  "cleared l t = t\<lparr>t_mc := (\<lambda>i. if i < l_mc l then mc_zero else t_mc t i), t_vlan := False, t_vlan4k := False\<rparr>"

lemma reset_vlan_spec:
  "rtl8366_reset_vlan (spec l cpu) s =
     (Inr (), s\<lparr>chip := cleared l (chip s), vlan_enabled := 0, vlan4k_enabled := 0\<rparr>)"
proof -
  have e: "dignore (rtl8366_enable_vlan (spec l cpu) 0) s =
      (Inr (), s\<lparr>chip := (chip s)\<lparr>t_vlan := False, t_vlan4k := False\<rparr>, vlan_enabled := 0, vlan4k_enabled := 0\<rparr>)" for s
    by (cases s) (simp add: rtl8366_enable_vlan_def dignore_def dbind_def on_chip_def modify_def)
  have e4: "dignore (rtl8366_enable_vlan4k (spec l cpu) 0) s = (Inr (), s\<lparr>chip := (chip s)\<lparr>t_vlan4k := False\<rparr>, vlan4k_enabled := 0\<rparr>)" for s
    by (cases s) (simp add: rtl8366_enable_vlan4k_def dignore_def dbind_def on_chip_def modify_def dret_def)
  show ?thesis
    by (cases s, cases "chip s")
       (simp add: rtl8366_reset_vlan_def dbind_run(1) [OF e] dbind_run(1) [OF e4] on_chip_def clear_entries cleared_def cong: if_cong)
qed

lemma cleared_inv: "vlans_ok l t \<Longrightarrow> vlans_inv l (cleared l t)"
  by (auto simp: vlans_inv_def vlans_ok_def cleared_def mc_ok_def mc_zero_def fields_ok_def)

lemma init_loop_machine:
  assumes inv: "vlans_inv l t" and lim: "limits_ok l cpu"
  shows "n \<le> l_ports l \<Longrightarrow> \<exists>t'. dfor [0..<n] (\<lambda>port.
       dbind (rtl8366_set_vlan (spec l cpu) (word_of_nat (port + 1)) (init_mask (spec l cpu) port) (init_mask (spec l cpu) port) 0) (\<lambda>_.
       rtl8366_set_pvid (spec l cpu) port (word_of_nat (port + 1)))) t = (Inr (), t') \<and>
     vlans_inv l t' \<and> (\<forall>p < n. pvid t' p = word_of_nat (p + 1) \<and>
       t_4k t' (word_of_nat (p + 1)) = (ucast (init_mask (spec l cpu) p), ucast (init_mask (spec l cpu) p), 0))"
proof (induction n)
  case 0
  then show ?case using inv by (simp add: dret_def)
next
  case (Suc n)
  let ?vid = "word_of_nat (n + 1) :: u32" and ?m = "init_mask (spec l cpu) n"
  let ?body = "\<lambda>port. dbind (rtl8366_set_vlan (spec l cpu) (word_of_nat (port + 1)) (init_mask (spec l cpu) port) (init_mask (spec l cpu) port) 0) (\<lambda>_.
       rtl8366_set_pvid (spec l cpu) port (word_of_nat (port + 1)))"
  obtain t1 where t1: "dfor [0..<n] ?body t = (Inr (), t1)" "vlans_inv l t1"
    "\<And>p. p < n \<Longrightarrow> pvid t1 p = word_of_nat (p + 1)"
    "\<And>p. p < n \<Longrightarrow> t_4k t1 (word_of_nat (p + 1)) = (ucast (init_mask (spec l cpu) p), ucast (init_mask (spec l cpu) p), 0)"
    using Suc by auto
  have n: "n < 15" "n < l_ports l" "l_ports l < l_mc l" using lim Suc.prems by (auto simp: limits_ok_def)
  have unat32: "unat (word_of_nat (p + 1) :: u32) = p + 1" if "p < 15" for p
    by (subst unat_of_nat) (use that in simp)
  have unat16: "unat (word_of_nat (p + 1) :: u16) = p + 1" if "p < 15" for p
    by (subst unat_of_nat) (use that in simp)
  have vid: "?vid < 4096" using unat32 [OF n(1)] n(1) by (simp add: word_less_nat_alt)
  have f: "fields_ok l (ucast ?m) (ucast ?m) (ucast (0 :: u32))"
    using fields_ok_bits [OF lim, of ?m ?m] bit_init_mask [OF lim n(2)] by simp
  obtain t2 where t2: "rtl8366_set_vlan (spec l cpu) ?vid ?m ?m 0 t1 = (Inr (), t2)" "vlans_inv l t2"
    "\<And>p. pvid t2 p = pvid t1 p" "t_4k t2 = (t_4k t1)(?vid := (ucast ?m, ucast ?m, ucast (0 :: u32)))"
    using set_vlan_machine [OF t1(2) vid f] by blast
  obtain t3 where t3: "rtl8366_set_pvid (spec l cpu) n ?vid t2 = (Inr (), t3)" "vlans_inv l t3"
    "ucast (pvid t3 n) = ?vid" "\<And>q. q < l_ports l \<Longrightarrow> q \<noteq> n \<Longrightarrow> pvid t2 q \<noteq> 0 \<Longrightarrow> pvid t3 q = pvid t2 q"
    "t_4k t3 = t_4k t2"
    using set_pvid_machine [OF t2(2) n(3) vid n(2)] by blast
  have "dfor [0..<Suc n] ?body t = (Inr (), t3)"
    using t1(1) t2(1) t3(1) by (simp add: dfor_append dbind_def dret_def)
  moreover have "pvid t3 p = word_of_nat (p + 1)" if "p < Suc n" for p
  proof (cases "p = n")
    case True
    have "unat (pvid t3 n) = unat ?vid" using t3(3) unat_up [of "pvid t3 n"] by simp
    then have "unat (pvid t3 n) = unat (word_of_nat (n + 1) :: u16)"
      using unat32 [OF n(1)] unat16 [OF n(1)] by simp
    then show ?thesis using True by (simp only: word_unat_eq_iff)
  next
    case False
    then have p: "p < n" "p < 15" "p < l_ports l" using that n by auto
    have "(word_of_nat (p + 1) :: u16) \<noteq> 0" using unat16 [OF p(2)] by (metis Suc_eq_plus1 nat.distinct(1) unsigned_0)
    then show ?thesis using t3(4) [OF p(3) False] t2(3) t1(3) [OF p(1)] by simp
  qed
  moreover have "t_4k t3 (word_of_nat (p + 1)) = (ucast (init_mask (spec l cpu) p), ucast (init_mask (spec l cpu) p), 0)"
    if "p < Suc n" for p
  proof (cases "p = n")
    case True
    then show ?thesis using t3(5) t2(4) by simp
  next
    case False
    then have p: "p < n" "p < 15" using that n by auto
    then have "(word_of_nat (p + 1) :: u32) \<noteq> ?vid" using unat32 [of p] unat32 [OF n(1)] by auto
    then show ?thesis using t3(5) t2(4) t1(4) [OF p(1)] by (simp only: fun_upd_apply if_False)
  qed
  ultimately show ?case using t3(2) by blast
qed

lemma init_vlan_machine:
  assumes ok: "vlans_ok l (chip s)" and lim: "limits_ok l cpu"
  obtains s' where "rtl8366_init_vlan (spec l cpu) s = (Inr (), s')" "vlans_inv l (chip s')" "vlan_enabled s' = 1"
    "vlan4k_enabled s' = 0" "t_vlan (chip s')"
    "\<And>p. p < l_ports l \<Longrightarrow> pvid (chip s') p = word_of_nat (p + 1) \<and> t_4k (chip s') (word_of_nat (p + 1)) =
       (ucast (init_mask (spec l cpu) p), ucast (init_mask (spec l cpu) p), 0)"
proof -
  obtain t' where t': "dfor [0..<l_ports l] (\<lambda>port.
       dbind (rtl8366_set_vlan (spec l cpu) (word_of_nat (port + 1)) (init_mask (spec l cpu) port) (init_mask (spec l cpu) port) 0) (\<lambda>_.
       rtl8366_set_pvid (spec l cpu) port (word_of_nat (port + 1)))) (cleared l (chip s)) = (Inr (), t')" "vlans_inv l t'"
     "\<And>p. p < l_ports l \<Longrightarrow> pvid t' p = word_of_nat (p + 1) \<and>
       t_4k t' (word_of_nat (p + 1)) = (ucast (init_mask (spec l cpu) p), ucast (init_mask (spec l cpu) p), 0)"
    using init_loop_machine [OF cleared_inv [OF ok] lim order_refl] by blast
  let ?s = "s\<lparr>chip := t'\<lparr>t_vlan := True\<rparr>, vlan_enabled := 1, vlan4k_enabled := 0\<rparr>"
  have "rtl8366_init_vlan (spec l cpu) s = (Inr (), ?s)"
    using t'(1) unfolding rtl8366_init_vlan_def
    by (simp add: dbind_def [of "rtl8366_reset_vlan _"] reset_vlan_spec)
       (simp add: dbind_def on_chip_def rtl8366_enable_vlan_def modify_def dret_def)
  then show ?thesis
    using that [of ?s] t'(2,3) by (simp add: vlans_inv_def vlans_ok_def pvid_def)
qed

section \<open>The ports of a VLAN\<close>

lemma spec_valid_vid:
  assumes "limits_ok l cpu" "spec_valid l flag vid"
  shows "vid < 4096" "vid \<noteq> 0"
  using assms by (auto simp: spec_valid_def limits_ok_def word_less_nat_alt split: if_splits)

lemma set_ports_loop_machine:
  assumes "limits_ok l cpu" "vid < 4096" "vid \<noteq> 0"
  shows "vlans_inv l t \<Longrightarrow> \<forall>p \<in> set ps. port_id p < l_ports l \<Longrightarrow>
    \<exists>member' untag' t'. set_vlan_ports_loop (spec l cpu) vid ps member untag t = (Inr (member', untag'), t') \<and>
      vlans_inv l t' \<and> t_4k t' = t_4k t \<and>
      (\<forall>j < 32. bit member' j \<longleftrightarrow> bit member j \<or> (\<exists>p \<in> set ps. port_id p = j)) \<and>
      (\<forall>j < 32. bit untag' j \<longleftrightarrow> bit untag j \<or> (\<exists>p \<in> set ps. port_id p = j \<and> \<not> port_tagged p)) \<and>
      (\<forall>q < l_ports l. pvid t q \<noteq> 0 \<longrightarrow> pvid t' q = pvid t q) \<and> (\<forall>p \<in> set ps. pvid t' (port_id p) \<noteq> 0)"
proof (induction ps arbitrary: member untag t)
  case (Cons p ps)
  have lim: "l_ports l < l_mc l" "l_ports l \<le> 15" using assms(1) by (auto simp: limits_ok_def)
  have p: "port_id p < l_ports l" using Cons.prems(2) by simp
  obtain t1 where t1: "(if pvid t (port_id p) = 0 then rtl8366_set_pvid (spec l cpu) (port_id p) vid else dret ()) t = (Inr (), t1)"
    "vlans_inv l t1" "t_4k t1 = t_4k t" "\<And>q. q < l_ports l \<Longrightarrow> pvid t q \<noteq> 0 \<Longrightarrow> pvid t1 q = pvid t q"
    "pvid t1 (port_id p) \<noteq> 0"
  proof (cases "pvid t (port_id p) = 0")
    case True
    obtain t1 where t1: "rtl8366_set_pvid (spec l cpu) (port_id p) vid t = (Inr (), t1)" "vlans_inv l t1"
      "ucast (pvid t1 (port_id p)) = vid"
      "\<And>q. q < l_ports l \<Longrightarrow> q \<noteq> port_id p \<Longrightarrow> pvid t q \<noteq> 0 \<Longrightarrow> pvid t1 q = pvid t q" "t_4k t1 = t_4k t"
      using set_pvid_machine [OF Cons.prems(1) lim(1) assms(2) p] by blast
    have "pvid t1 (port_id p) \<noteq> 0" using t1(3) assms(3) by auto
    moreover have "pvid t1 q = pvid t q" if "q < l_ports l" "pvid t q \<noteq> 0" for q
      using t1(4) [OF that(1) _ that(2)] that(2) True by (cases "q = port_id p") auto
    ultimately show ?thesis using that [of t1] t1 True by simp
  next
    case False
    then show ?thesis using that [of t] Cons.prems(1) by (simp add: dret_def)
  qed
  let ?m = "member OR push_bit (port_id p) 1" and ?u = "if \<not> port_tagged p then untag OR push_bit (port_id p) 1 else untag"
  obtain member' untag' t' where t': "set_vlan_ports_loop (spec l cpu) vid ps ?m ?u t1 = (Inr (member', untag'), t')"
      "vlans_inv l t'" "t_4k t' = t_4k t1"
      "\<And>j. j < 32 \<Longrightarrow> bit member' j \<longleftrightarrow> bit ?m j \<or> (\<exists>p \<in> set ps. port_id p = j)"
      "\<And>j. j < 32 \<Longrightarrow> bit untag' j \<longleftrightarrow> bit ?u j \<or> (\<exists>p \<in> set ps. port_id p = j \<and> \<not> port_tagged p)"
      "\<And>q. q < l_ports l \<Longrightarrow> pvid t1 q \<noteq> 0 \<Longrightarrow> pvid t' q = pvid t1 q" "\<And>p. p \<in> set ps \<Longrightarrow> pvid t' (port_id p) \<noteq> 0"
    using Cons.IH [OF t1(2), of ?m ?u] Cons.prems(2) by auto
  have run: "set_vlan_ports_loop (spec l cpu) vid (p # ps) member untag t = (Inr (member', untag'), t')"
    using t1(1) t'(1) get_pvid_spec [OF _ p, of t] Cons.prems(1)
    by (simp add: Let_def dbind_def vlans_inv_def)
  have bits: "bit (push_bit (port_id p) (1 :: u32)) j \<longleftrightarrow> port_id p = j" if "j < 32" for j
    using that by (auto simp: bit_simps bit_1_iff)
  show ?case
  proof (intro exI conjI)
    show "set_vlan_ports_loop (spec l cpu) vid (p # ps) member untag t = (Inr (member', untag'), t')" by (rule run)
    show "vlans_inv l t'" by fact
    show "t_4k t' = t_4k t" using t1(3) t'(3) by simp
    show "\<forall>j<32. bit member' j \<longleftrightarrow> bit member j \<or> (\<exists>p \<in> set (p # ps). port_id p = j)"
      using t'(4) bits by (auto simp: bit_or_iff)
    show "\<forall>j<32. bit untag' j \<longleftrightarrow> bit untag j \<or> (\<exists>p \<in> set (p # ps). port_id p = j \<and> \<not> port_tagged p)"
      using t'(5) bits by (auto simp: bit_or_iff)
    show "\<forall>q<l_ports l. pvid t q \<noteq> 0 \<longrightarrow> pvid t' q = pvid t q"
      using t1(4) t'(6) by auto
    show "\<forall>p \<in> set (p # ps). pvid t' (port_id p) \<noteq> 0"
      using t'(7) t'(6) [OF p t1(5)] t1(5) by auto
  qed
qed (auto simp: dret_def)

lemma set_vlan_ports_machine:
  assumes lim: "limits_ok l cpu" and valid: "spec_valid l (vlan4k_enabled s) vid" and inv: "vlans_inv l (chip s)"
    and ids: "\<forall>p \<in> set ps. port_id p < l_ports l"
  obtains s' member untag where "rtl8366_sw_set_vlan_ports (spec l cpu) vid ps s = (Inr (), s')" "vlans_inv l (chip s')"
    "vlan4k_enabled s' = vlan4k_enabled s" "vlan_enabled s' = vlan_enabled s"
    "t_4k (chip s') = (t_4k (chip s))(vid := (member, untag, 0))"
    "\<And>j. bit member j \<longleftrightarrow> (\<exists>p \<in> set ps. port_id p = j)"
    "\<And>j. bit untag j \<longleftrightarrow> (\<exists>p \<in> set ps. port_id p = j \<and> \<not> port_tagged p)"
    "\<And>q. q < l_ports l \<Longrightarrow> pvid (chip s) q \<noteq> 0 \<Longrightarrow> pvid (chip s') q = pvid (chip s) q"
    "\<And>p. p \<in> set ps \<Longrightarrow> pvid (chip s') (port_id p) \<noteq> 0"
proof -
  note vid = spec_valid_vid [OF lim valid]
  have small: "l_ports l \<le> 15" using lim by (simp add: limits_ok_def)
  obtain m u t1 where t1: "set_vlan_ports_loop (spec l cpu) vid ps 0 0 (chip s) = (Inr (m, u), t1)" "vlans_inv l t1"
      "t_4k t1 = t_4k (chip s)"
      "\<And>j. j < 32 \<Longrightarrow> bit m j \<longleftrightarrow> (\<exists>p \<in> set ps. port_id p = j)"
      "\<And>j. j < 32 \<Longrightarrow> bit u j \<longleftrightarrow> (\<exists>p \<in> set ps. port_id p = j \<and> \<not> port_tagged p)"
      "\<And>q. q < l_ports l \<Longrightarrow> pvid (chip s) q \<noteq> 0 \<Longrightarrow> pvid t1 q = pvid (chip s) q"
      "\<And>p. p \<in> set ps \<Longrightarrow> pvid t1 (port_id p) \<noteq> 0"
    using set_ports_loop_machine [OF lim vid inv ids, of 0 0] by auto
  have m: "bit m j \<longleftrightarrow> (\<exists>p \<in> set ps. port_id p = j)" and u: "bit u j \<longleftrightarrow> (\<exists>p \<in> set ps. port_id p = j \<and> \<not> port_tagged p)" for j
    using t1(4,5) [of j] bit_imp_le_length [of m j] bit_imp_le_length [of u j] ids small
    by (cases "j < 32"; auto)+
  have mu: "j < l_ports l" if "bit m j \<or> bit u j" for j
    using that m u ids by auto
  have f: "fields_ok l (ucast m) (ucast u) (ucast (0 :: u32))"
    using fields_ok_bits [OF lim, of m u] mu by simp
  obtain t2 where t2: "rtl8366_set_vlan (spec l cpu) vid m u 0 t1 = (Inr (), t2)" "vlans_inv l t2"
    "\<And>p. pvid t2 p = pvid t1 p" "t_4k t2 = (t_4k t1)(vid := (ucast m, ucast u, ucast (0 :: u32)))"
    using set_vlan_machine [OF t1(2) vid(1) f] by blast
  let ?s = "s\<lparr>chip := t2\<rparr>"
  have "rtl8366_sw_set_vlan_ports (spec l cpu) vid ps s = (Inr (), ?s)"
    using t1(1) t2(1) valid by (simp add: rtl8366_sw_set_vlan_ports_def valid_then_def on_chip_def dbind_def)
  moreover have "bit (ucast m :: u16) j \<longleftrightarrow> bit m j" "bit (ucast u :: u16) j \<longleftrightarrow> bit u j" for j
    using mu [of j] small by (auto simp: bit_simps)
  ultimately show ?thesis
    using that [of ?s "ucast m" "ucast u"] t2 t1(3,6,7) m u by simp
qed

lemma get_vlan_ports_machine:
  assumes "limits_ok l cpu" "spec_valid l (vlan4k_enabled s) vid" "t_4k (chip s) vid = (member, untag, fid)"
  shows "rtl8366_sw_get_vlan_ports (spec l cpu) vid s =
    (Inr (map (\<lambda>i. \<lparr>port_id = i, port_tagged = \<not> bit untag i\<rparr>) (filter (bit member) [0..<l_ports l])), s)"
  using assms(2,3) spec_valid_vid(1) [OF assms(1,2)]
  by (simp add: rtl8366_sw_get_vlan_ports_def valid_then_def on_chip_def read_vlan_4k_def dbind_def dret_def
      spec_get_4k_def v4_entry_def vlan_ports_def)

text \<open>What was set is read back, in the order of the ports.\<close>

lemma vlan_ports_roundtrip_machine:
  assumes lim: "limits_ok l cpu" and valid: "spec_valid l (vlan4k_enabled s) vid" and inv: "vlans_inv l (chip s)"
    and ids: "\<forall>p \<in> set ps. port_id p < l_ports l" and dist: "distinct (map port_id ps)"
  shows "\<exists>s'. rtl8366_sw_set_vlan_ports (spec l cpu) vid ps s = (Inr (), s') \<and>
    rtl8366_sw_get_vlan_ports (spec l cpu) vid s' = (Inr (sort_key port_id ps), s') \<and>
    vlan4k_enabled s' = vlan4k_enabled s \<and>
    (\<forall>q < l_ports l. pvid (chip s) q \<noteq> 0 \<longrightarrow> pvid (chip s') q = pvid (chip s) q)"
proof -
  obtain s' member untag where s': "rtl8366_sw_set_vlan_ports (spec l cpu) vid ps s = (Inr (), s')" "vlans_inv l (chip s')"
    "vlan4k_enabled s' = vlan4k_enabled s" "vlan_enabled s' = vlan_enabled s" "t_4k (chip s') = (t_4k (chip s))(vid := (member, untag, 0))"
    and m: "\<And>j. bit member j \<longleftrightarrow> (\<exists>p \<in> set ps. port_id p = j)"
    and u: "\<And>j. bit untag j \<longleftrightarrow> (\<exists>p \<in> set ps. port_id p = j \<and> \<not> port_tagged p)"
    and pvids: "\<And>q. q < l_ports l \<Longrightarrow> pvid (chip s) q \<noteq> 0 \<Longrightarrow> pvid (chip s') q = pvid (chip s) q"
    by (rule set_vlan_ports_machine [OF lim valid inv ids]) (rule that)
  let ?got = "map (\<lambda>i. \<lparr>port_id = i, port_tagged = \<not> bit untag i\<rparr>) (filter (bit member) [0..<l_ports l])"
  have get: "rtl8366_sw_get_vlan_ports (spec l cpu) vid s' = (Inr ?got, s')"
    using get_vlan_ports_machine [OF lim, of s' vid member untag 0] s'(3,5) valid by simp
  have inj: "inj_on port_id (set ps)" using dist by (simp add: distinct_map)
  have elem: "p = \<lparr>port_id = port_id p, port_tagged = \<not> bit untag (port_id p)\<rparr>" if "p \<in> set ps" for p
  proof -
    have "bit untag (port_id p) \<longleftrightarrow> \<not> port_tagged p"
      using u [of "port_id p"] that inj by (auto dest: inj_onD)
    then show ?thesis by simp
  qed
  have "set ?got = set ps"
  proof
    show "set ?got \<subseteq> set ps"
    proof
      fix x assume "x \<in> set ?got"
      then obtain i where i: "x = \<lparr>port_id = i, port_tagged = \<not> bit untag i\<rparr>" "bit member i" by auto
      then obtain p where p: "p \<in> set ps" "port_id p = i" using m by auto
      then have "p = x" using elem [OF p(1)] i(1) by simp
      then show "x \<in> set ps" using p(1) by simp
    qed
    show "set ps \<subseteq> set ?got"
    proof
      fix p assume p: "p \<in> set ps"
      then have "port_id p \<in> set (filter (bit member) [0..<l_ports l])" using m ids by auto
      then show "p \<in> set ?got" using elem [OF p] by (metis (no_types, lifting) image_eqI set_map)
    qed
  qed
  moreover have "map port_id ?got = filter (bit member) [0..<l_ports l]"
    by (simp add: comp_def)
  ultimately have "?got = sort_key port_id ps"
    using inj dist
    by (intro map_sorted_distinct_set_unique [of port_id]) (auto simp: sorted_wrt_filter distinct_map inj_on_def)
  then show ?thesis using s'(1,3) get pvids by auto
qed

section \<open>What every request keeps\<close>

text \<open>Whatever \<open>f\<close> answers, it keeps \<open>I\<close>.\<close>

definition keeps :: "('s \<Rightarrow> bool) \<Rightarrow> ('s, 'a) drv \<Rightarrow> bool" where
  "keeps I f \<longleftrightarrow> (\<forall>s. I s \<longrightarrow> I (snd (f s)))"

named_theorems keep "functions that keep the invariant of the tables"

lemma keeps_dret [keep]: "keeps I (dret a)"
  by (simp add: keeps_def dret_def)

lemma keeps_derr [keep]: "keeps I (derr e)"
  by (simp add: keeps_def derr_def)

lemma keeps_dbind [keep]: "keeps I f \<Longrightarrow> (\<And>a. keeps I (g a)) \<Longrightarrow> keeps I (dbind f g)"
  unfolding keeps_def
proof (intro allI impI)
  fix s assume f: "\<forall>s. I s \<longrightarrow> I (snd (f s))" and g: "\<And>a. \<forall>s. I s \<longrightarrow> I (snd (g a s))" and "I s"
  obtain r s' where "f s = (r, s')" by fastforce
  moreover then have "I s'" using f \<open>I s\<close> by (metis snd_conv)
  ultimately show "I (snd (dbind f g s))" using g by (cases r) (simp_all add: dbind_def)
qed

lemma keeps_if [keep]: "keeps I f \<Longrightarrow> keeps I g \<Longrightarrow> keeps I (if b then f else g)"
  by simp

lemma keeps_pair [keep]: "(\<And>a b. keeps I (f a b)) \<Longrightarrow> keeps I (case x of (a, b) \<Rightarrow> f a b)"
  by (cases x) simp

lemma keeps_read: "(\<And>t. snd (f t) = t) \<Longrightarrow> keeps I f"
  by (simp add: keeps_def)

text \<open>The tables fit together, and the two switches are as they were.\<close>

definition tables_inv :: "limits \<Rightarrow> bool \<Rightarrow> bool \<Rightarrow> vlans \<Rightarrow> bool" where
  "tables_inv l on on4k t \<longleftrightarrow> vlans_inv l t \<and> t_vlan t = on \<and> t_vlan4k t = on4k"

lemma keeps_set_pvid [keep]: "keeps (tables_inv l on on4k) (rtl8366_set_pvid (spec l cpu) p vid)"
  unfolding keeps_def
proof (intro allI impI)
  fix t assume t: "tables_inv l on on4k t"
  then have ok: "vlans_ok l t" and inv: "vlans_inv l t" by (auto simp: tables_inv_def vlans_inv_def)
  show "tables_inv l on on4k (snd (rtl8366_set_pvid (spec l cpu) p vid t))"
  proof (cases "vid < 4096")
    case False
    then show ?thesis using set_pvid_invalid [OF ok, of vid cpu p] t by auto
  next
    case vid: True
    show ?thesis
    proof (cases "entry_for l t vid")
      case None
      then show ?thesis using set_pvid_spec [OF ok vid] t by simp
    next
      case (Some e)
      obtain i m where e: "entry_for l t vid = Some (i, m)" using Some by (cases e) auto
      have "vlans_inv l (snd (spec_set_index l p i (t\<lparr>t_mc := (t_mc t)(i := m)\<rparr>)))"
        by (rule set_index_inv [OF take_entry_inv [OF inv vid e]])
      then show ?thesis using set_pvid_spec [OF ok vid] e t by (simp add: tables_inv_def spec_set_index_def)
    qed
  qed
qed

lemma keeps_set_vlan [keep]: "keeps (tables_inv l on on4k) (rtl8366_set_vlan (spec l cpu) vid member untag fid)"
  unfolding keeps_def
proof (intro allI impI)
  fix t assume t: "tables_inv l on on4k t"
  let ?t = "snd (rtl8366_set_vlan (spec l cpu) vid member untag fid t)"
  have flags: "t_vlan ?t = t_vlan t \<and> t_vlan4k ?t = t_vlan4k t"
    by (auto simp: rtl8366_set_vlan_def dbind_def spec_get_4k_def spec_set_4k_def find_mc_all dret_def spec_set_mc_def
        split: option.split)
  show "tables_inv l on on4k ?t"
  proof (cases "vid < 4096 \<and> fields_ok l (ucast member) (ucast untag) (ucast fid)")
    case True
    then obtain t' where "rtl8366_set_vlan (spec l cpu) vid member untag fid t = (Inr (), t')" "vlans_inv l t'"
      using set_vlan_machine [of l t vid member untag fid cpu] t unfolding tables_inv_def by blast
    then show ?thesis using flags t by (simp add: tables_inv_def)
  next
    case False
    then have "?t = t"
      by (auto simp: rtl8366_set_vlan_def dbind_def spec_get_4k_def spec_set_4k_def)
    then show ?thesis using t by simp
  qed
qed

lemma keeps_get_pvid [keep]: "keeps I (rtl8366_get_pvid (spec l cpu) p)"
  by (rule keeps_read) (simp add: rtl8366_get_pvid_def dbind_def dret_def spec_get_index_def spec_get_mc_def)

lemma keeps_ports_loop [keep]:
  "keeps (tables_inv l on on4k) (set_vlan_ports_loop (spec l cpu) vid ps member untag)"
proof (induction ps arbitrary: member untag)
  case (Cons p ps)
  show ?case
    unfolding set_vlan_ports_loop.simps Let_def
    by (intro keeps_dbind keeps_get_pvid keeps_if keeps_set_pvid keeps_dret Cons.IH)
qed (simp add: keeps_dret)

text \<open>
  The state of the driver and its chip: the tables fit together, the flags of the driver are the
  switches of the chip, and the large VLAN mode is only on when VLANs are.
\<close>

definition smi_inv :: "limits \<Rightarrow> vlans smi \<Rightarrow> bool" where
  "smi_inv l s \<longleftrightarrow> tables_inv l (vlan_enabled s \<noteq> 0) (vlan4k_enabled s \<noteq> 0) (chip s) \<and>
     (vlan4k_enabled s \<noteq> 0 \<longrightarrow> vlan_enabled s \<noteq> 0)"

lemma keeps_on_chip:
  "(\<And>on on4k. keeps (tables_inv l on on4k) f) \<Longrightarrow> keeps (smi_inv l) (on_chip f)"
  by (auto simp: keeps_def smi_inv_def on_chip_def case_prod_unfold Let_def)

lemma keeps_valid_then: "keeps I f \<Longrightarrow> keeps I (valid_then smi vid f)"
  by (simp add: keeps_def valid_then_def derr_def)

lemma keeps_enable:
  "keeps (smi_inv l) (rtl8366_enable_vlan (spec l cpu) e)"
  "keeps (smi_inv l) (rtl8366_enable_vlan4k (spec l cpu) e)"
  by (auto simp: keeps_def smi_inv_def tables_inv_def vlans_inv_def vlans_ok_def rtl8366_enable_vlan_def
      rtl8366_enable_vlan4k_def dbind_def on_chip_def modify_def dret_def)

lemma get_4k_reads: "snd (spec_get_4k l vid t) = t"
  by (simp add: spec_get_4k_def)

lemma keeps_sw:
  "keeps (smi_inv l) (rtl8366_sw_set_port_pvid (spec l cpu) p vid)"
  "keeps (smi_inv l) (rtl8366_sw_set_vlan_ports (spec l cpu) vid ps)"
  "keeps (smi_inv l) (rtl8366_sw_set_vlan_fid (spec l cpu) m vid fid)"
  "keeps (smi_inv l) (rtl8366_sw_set_vlan_enable (spec l cpu) ofs e)"
  unfolding rtl8366_sw_set_port_pvid_def rtl8366_sw_set_vlan_ports_def rtl8366_sw_set_vlan_fid_def
    rtl8366_sw_set_vlan_enable_def spec_simps
  by (intro keeps_on_chip keeps_valid_then keeps_if keeps_derr keeps_dbind keeps_pair keeps_set_pvid keeps_set_vlan
      keeps_ports_loop keeps_enable keeps_read get_4k_reads)+

lemma reset_vlan_inv: "vlans_ok l (chip s) \<Longrightarrow> smi_inv l (snd (rtl8366_reset_vlan (spec l cpu) s))"
  using cleared_inv [of l "chip s"] by (simp add: reset_vlan_spec smi_inv_def tables_inv_def cleared_def)

lemma keeps_dfor: "(\<And>i. keeps I (f i)) \<Longrightarrow> keeps I (dfor is f)"
  by (induction "is") (auto intro: keeps_dbind keeps_dret)

lemma init_vlan_inv:
  assumes "vlans_ok l (chip s)"
  shows "smi_inv l (snd (rtl8366_init_vlan (spec l cpu) s))"
proof -
  let ?f = "dbind (on_chip (dfor [0..<l_ports l] (\<lambda>port.
       dbind (rtl8366_set_vlan (spec l cpu) (word_of_nat (port + 1)) (init_mask (spec l cpu) port) (init_mask (spec l cpu) port) 0) (\<lambda>_.
       rtl8366_set_pvid (spec l cpu) port (word_of_nat (port + 1)))))) (\<lambda>_. rtl8366_enable_vlan (spec l cpu) 1)"
  have "keeps (smi_inv l) ?f"
    by (intro keeps_dbind keeps_on_chip keeps_dfor keeps_set_vlan keeps_set_pvid keeps_enable)
  moreover have "snd (rtl8366_init_vlan (spec l cpu) s) = snd (?f (snd (rtl8366_reset_vlan (spec l cpu) s)))"
    by (simp add: rtl8366_init_vlan_def dbind_run(1) [OF reset_vlan_spec] reset_vlan_spec)
  ultimately show ?thesis
    using reset_vlan_inv [OF assms, of cpu] by (simp add: keeps_def)
qed

section \<open>Requests\<close>

text \<open>What the switch device asks of the driver, in any order and whatever the arguments.\<close>

datatype request =
    Set_pvid nat u32
  | Set_ports u32 "switch_port list"
  | Set_fid u32 u32 u32
  | Set_enable nat int

fun run_request :: "'c rtl \<Rightarrow> request \<Rightarrow> ('c smi, unit) drv" where
  "run_request smi (Set_pvid port vid) = rtl8366_sw_set_port_pvid smi port vid"
| "run_request smi (Set_ports vid ports) = rtl8366_sw_set_vlan_ports smi vid ports"
| "run_request smi (Set_fid max_fid vid fid) = rtl8366_sw_set_vlan_fid smi max_fid vid fid"
| "run_request smi (Set_enable ofs enable) = rtl8366_sw_set_vlan_enable smi ofs enable"

text \<open>The states of the driver after its VLANs were set up or reset; requests may fail.\<close>

inductive managed :: "'c rtl \<Rightarrow> ('c \<Rightarrow> bool) \<Rightarrow> 'c smi \<Rightarrow> bool" for smi ok where
  init: "ok (chip s) \<Longrightarrow> managed smi ok (snd (rtl8366_init_vlan smi s))"
| reset: "ok (chip s) \<Longrightarrow> managed smi ok (snd (rtl8366_reset_vlan smi s))"
| request: "managed smi ok s \<Longrightarrow> managed smi ok (snd (run_request smi r s))"

lemma keeps_request: "keeps (smi_inv l) (run_request (spec l cpu) r)"
  by (cases r) (simp_all add: keeps_sw)

lemma simulates_snd:
  "simulates ok view f g \<Longrightarrow> ok c \<Longrightarrow> ok (snd (f c)) \<and> view (snd (f c)) = snd (g (view c))"
  by (auto elim!: simulatesE)

text \<open>A result on the machine is the result on the chip.\<close>

lemma simulates_run:
  "simulates ok view f g \<Longrightarrow> ok c \<Longrightarrow> g (view c) = (r, t) \<Longrightarrow> \<exists>c'. f c = (r, c') \<and> ok c' \<and> view c' = t"
  by (auto elim!: simulatesE)

lemma smi_abs_simps [simp]:
  "chip (smi_abs view s) = view (chip s)" "vlan_enabled (smi_abs view s) = vlan_enabled s"
  "vlan4k_enabled (smi_abs view s) = vlan4k_enabled s"
  by (simp_all add: smi_abs_def)

context rtl_vlan
begin

lemma sim_request: "simulates (\<lambda>s. ok (chip s)) (smi_abs tables) (run_request smi r) (run_request tab r)"
  by (cases r) (simp_all add: sim_sw_pvid sim_sw_vlan_ports sim_sw_fid sim_sw_enable)

text \<open>The invariant holds in every state that requests can reach.\<close>

lemma managed_inv: "managed smi ok s \<Longrightarrow> ok (chip s) \<and> smi_inv l (smi_abs tables s)"
proof (induction rule: managed.induct)
  case (init s)
  then show ?case
    using simulates_snd [OF sim_init_vlan init] init_vlan_inv [of l "smi_abs tables s" "cpu_port smi"]
      tables_ok [OF init] by simp
next
  case (reset s)
  then show ?case
    using simulates_snd [OF sim_reset_vlan reset] reset_vlan_inv [of l "smi_abs tables s" "cpu_port smi"]
      tables_ok [OF reset] by simp
next
  case (request s r)
  then have "ok (chip s)" and inv: "smi_inv l (smi_abs tables s)" by auto
  from simulates_snd [OF sim_request this(1), of r]
  have "ok (chip (snd (run_request smi r s)))"
    and "smi_abs tables (snd (run_request smi r s)) = snd (run_request tab r (smi_abs tables s))"
    by auto
  then show ?case
    using keeps_request [of l "cpu_port smi" r] inv by (simp add: keeps_def)
qed

lemma get_pvid_chip:
  assumes "ok (chip s)" "q < l_ports l"
  shows "fst (rtl8366_sw_get_port_pvid smi q s) = Inr (pvid (tables (chip s)) q)"
proof -
  have "rtl8366_get_pvid tab q (tables (chip s)) = (Inr (pvid (tables (chip s)) q), tables (chip s))"
    by (rule get_pvid_spec [OF tables_ok [OF assms(1)] assms(2)])
  from simulates_run [OF sim_get_pvid assms(1) this] show ?thesis
    by (auto simp: rtl8366_sw_get_port_pvid_def on_chip_def)
qed

lemma get_vlan_ports_chip:
  assumes "ok (chip s)" "limits_ok l (cpu_port smi)" "spec_valid l (vlan4k_enabled s) vid"
    "t_4k (tables (chip s)) vid = (member, untag, fid)"
  shows "fst (rtl8366_sw_get_vlan_ports smi vid s) =
    Inr (map (\<lambda>i. \<lparr>port_id = i, port_tagged = \<not> bit untag i\<rparr>) (filter (bit member) [0..<l_ports l]))"
  using simulates_run [OF sim_sw_vlan_ports(1) _ get_vlan_ports_machine [OF assms(2), of "smi_abs tables s" vid]] assms
  by fastforce

text \<open>Setting the PVID of a port succeeds, is seen by the next read, and is not seen at other ports.\<close>

lemma set_pvid_chip:
  assumes "managed smi ok s" "l_ports l < l_mc l" "vid < 4096" "p < l_ports l"
  shows "\<exists>s'. rtl8366_sw_set_port_pvid smi p vid s = (Inr (), s') \<and> managed smi ok s' \<and>
    rtl8366_sw_get_port_pvid smi p s' = (Inr (ucast vid), snd (rtl8366_sw_get_port_pvid smi p s')) \<and>
    (\<forall>q < l_ports l. q \<noteq> p \<longrightarrow> fst (rtl8366_sw_get_port_pvid smi q s) \<noteq> Inr 0 \<longrightarrow>
       fst (rtl8366_sw_get_port_pvid smi q s') = fst (rtl8366_sw_get_port_pvid smi q s))"
proof -
  note get = get_pvid_chip
  have ok: "ok (chip s)" and inv: "vlans_inv l (tables (chip s))"
    using managed_inv [OF assms(1)] by (auto simp: smi_inv_def tables_inv_def)
  obtain t' where t': "rtl8366_set_pvid tab p vid (tables (chip s)) = (Inr (), t')"
    "ucast (pvid t' p) = vid"
    "\<And>q. q < l_ports l \<Longrightarrow> q \<noteq> p \<Longrightarrow> pvid (tables (chip s)) q \<noteq> 0 \<Longrightarrow> pvid t' q = pvid (tables (chip s)) q"
    using set_pvid_machine [OF inv assms(2,3,4), of "cpu_port smi"] by metis
  obtain c' where c': "rtl8366_set_pvid smi p vid (chip s) = (Inr (), c')" "ok c'" "tables c' = t'"
    using simulates_run [OF sim_set_pvid ok t'(1)] by blast
  let ?s = "s\<lparr>chip := c'\<rparr>"
  have run: "rtl8366_sw_set_port_pvid smi p vid s = (Inr (), ?s)"
    using c'(1) by (simp add: rtl8366_sw_set_port_pvid_def on_chip_def)
  moreover have "managed smi ok ?s"
    using managed.request [OF assms(1), of "Set_pvid p vid"] run by simp
  moreover have "pvid t' p = ucast vid"
    using t'(2) vid_u16 [OF assms(3)] up_eq by metis
  then have "fst (rtl8366_sw_get_port_pvid smi p ?s) = Inr (ucast vid)"
    using get [of ?s p] c'(2,3) assms(4) by simp
  ultimately show ?thesis
    using get [of ?s] get [of s] ok c'(2,3) t'(3) by (auto simp: prod_eq_iff)
qed

lemma init_vlan_chip:
  assumes ok: "ok (chip s)" and lim: "limits_ok l (cpu_port smi)"
  shows "\<exists>s'. rtl8366_init_vlan smi s = (Inr (), s') \<and> ok (chip s') \<and> vlan_enabled s' = 1 \<and> vlan4k_enabled s' = 0 \<and>
    t_vlan (tables (chip s')) \<and> vlans_inv l (tables (chip s')) \<and>
    (\<forall>p < l_ports l. pvid (tables (chip s')) p = word_of_nat (p + 1) \<and>
       t_4k (tables (chip s')) (word_of_nat (p + 1)) = (ucast (init_mask smi p), ucast (init_mask smi p), 0))"
proof -
  obtain t where t: "rtl8366_init_vlan tab (smi_abs tables s) = (Inr (), t)" "vlans_inv l (chip t)" "vlan_enabled t = 1"
    "vlan4k_enabled t = 0" "t_vlan (chip t)"
    "\<And>p. p < l_ports l \<Longrightarrow> pvid (chip t) p = word_of_nat (p + 1) \<and> t_4k (chip t) (word_of_nat (p + 1)) =
       (ucast (init_mask tab p), ucast (init_mask tab p), 0)"
    by (rule init_vlan_machine [of l "smi_abs tables s" "cpu_port smi"])
       (use tables_ok [OF ok] lim in auto)
  have mask: "init_mask tab p = init_mask smi p" for p
    by (simp add: init_mask_def sizes)
  obtain s' where "rtl8366_init_vlan smi s = (Inr (), s')" "ok (chip s')" "smi_abs tables s' = t"
    using simulates_run [OF sim_init_vlan ok t(1)] by blast
  then show ?thesis using t(2-6) unfolding mask by auto
qed

lemma vlan_ports_roundtrip_chip:
  assumes "managed smi ok s" "limits_ok l (cpu_port smi)" "is_vlan_valid (ops smi) (vlan4k_enabled s) vid"
    "\<forall>p \<in> set ps. port_id p < l_ports l" "distinct (map port_id ps)"
  shows "\<exists>s'. rtl8366_sw_set_vlan_ports smi vid ps s = (Inr (), s') \<and> managed smi ok s' \<and>
    fst (rtl8366_sw_get_vlan_ports smi vid s') = Inr (sort_key port_id ps) \<and>
    vlan4k_enabled s' = vlan4k_enabled s \<and>
    (\<forall>q < l_ports l. fst (rtl8366_sw_get_port_pvid smi q s) \<noteq> Inr 0 \<longrightarrow>
       fst (rtl8366_sw_get_port_pvid smi q s') = fst (rtl8366_sw_get_port_pvid smi q s))"
proof -
  have ok: "ok (chip s)" and inv: "vlans_inv l (tables (chip s))"
    using managed_inv [OF assms(1)] by (auto simp: smi_inv_def tables_inv_def)
  have v: "spec_valid l (vlan4k_enabled s) vid" using assms(3) valid by simp
  obtain t where t: "rtl8366_sw_set_vlan_ports tab vid ps (smi_abs tables s) = (Inr (), t)"
    "rtl8366_sw_get_vlan_ports tab vid t = (Inr (sort_key port_id ps), t)" "vlan4k_enabled t = vlan4k_enabled s"
    "\<And>q. q < l_ports l \<Longrightarrow> pvid (tables (chip s)) q \<noteq> 0 \<Longrightarrow> pvid (chip t) q = pvid (tables (chip s)) q"
    using vlan_ports_roundtrip_machine [OF assms(2), of "smi_abs tables s" vid ps] v inv assms(4,5) by auto
  obtain s' where s': "rtl8366_sw_set_vlan_ports smi vid ps s = (Inr (), s')" "ok (chip s')" "smi_abs tables s' = t"
    using simulates_run [OF sim_sw_vlan_ports(2) ok t(1)] by blast
  moreover have "managed smi ok s'"
    using managed.request [OF assms(1), of "Set_ports vid ps"] s'(1) by simp
  moreover have "\<exists>s''. rtl8366_sw_get_vlan_ports smi vid s' = (Inr (sort_key port_id ps), s'')"
    using simulates_run [OF sim_sw_vlan_ports(1), of s' vid] s'(2,3) t(2) by fastforce
  moreover have "vlan4k_enabled s' = vlan4k_enabled s" "chip t = tables (chip s')"
    using s'(3) t(3) by auto
  ultimately show ?thesis using get_pvid_chip ok t(4) by auto
qed

end

end
