(* ===== verification/Rtl8366s_Facts.thy ===== *)
theory Rtl8366s_Facts
  imports Rtl8366s Rtl8366_Vlan_Facts
begin

text \<open>
  The RTL8366S keeps the contract of \<open>Rtl8366_Vlan_Spec\<close>: the tables of the machine are fields of
  its registers.  With it the properties of the VLAN functions hold for this chip.
\<close>

section \<open>Fields of a word\<close>

lemma field_masks: "w AND 0x3F = take_bit 6 w" "w AND 0xFFF = take_bit 12 w" "w AND 7 = take_bit 3 w" "w AND 0xF = take_bit 4 w"
  for w :: u32
  by (simp_all add: take_bit_eq_mask mask_eq_exp_minus_1)

lemma below_take_bit: "unat m < 2 ^ n \<Longrightarrow> take_bit n m = m" for m :: "'a::len word"
  by (simp add: word_unat_eq_iff unsigned_take_bit_eq take_bit_nat_eq_self)

lemma below_bit: "unat m < 2 ^ n \<Longrightarrow> bit m j \<Longrightarrow> j < n" for m :: "'a::len word"
  using below_take_bit [of m n] bit_take_bit_iff [of n m j] by auto

lemma unpack_pack:
  assumes "member \<le> 0x3F" "untag \<le> 0x3F" "fid \<le> 7"
  shows "unpack_member (pack_ports member untag fid) = member"
    "unpack_untag (pack_ports member untag fid) = untag"
    "unpack_fid (pack_ports member untag fid) = fid"
proof -
  have m: "bit member j \<Longrightarrow> j < 6" and u: "bit untag j \<Longrightarrow> j < 6" and f: "bit fid j \<Longrightarrow> j < 3" for j
    using assms below_bit [of member 6 j] below_bit [of untag 6 j] below_bit [of fid 3 j] by (simp_all add: word_le_nat_alt)
  show "unpack_member (pack_ports member untag fid) = member"
    by (intro bit_eqI) (auto simp: unpack_member_def pack_ports_def field_masks bit_simps dest: m)
  show "unpack_untag (pack_ports member untag fid) = untag"
    by (intro bit_eqI) (auto simp: unpack_untag_def pack_ports_def field_masks bit_simps dest: u)
  show "unpack_fid (pack_ports member untag fid) = fid"
    by (intro bit_eqI) (auto simp: unpack_fid_def pack_ports_def field_masks bit_simps dest: f)
qed

lemma unpack_vid:
  assumes "vid < 4096" "priority \<le> 7"
  shows "ucast (pack_vid vid priority AND 0xFFF) = vid" "ucast (drop_bit 12 (pack_vid vid priority) AND 7) = priority"
proof -
  have v: "bit vid j \<Longrightarrow> j < 12" and p: "bit priority j \<Longrightarrow> j < 3" for j
    using assms below_bit [of vid 12 j] below_bit [of priority 3 j] by (simp_all add: word_le_nat_alt word_less_nat_alt)
  show "ucast (pack_vid vid priority AND 0xFFF) = vid"
    by (intro bit_eqI) (auto simp: pack_vid_def field_masks bit_simps dest: v)
  show "ucast (drop_bit 12 (pack_vid vid priority) AND 7) = priority"
    by (intro bit_eqI) (auto simp: pack_vid_def field_masks bit_simps dest: p)
qed

lemma unat_field: "unat (ucast (take_bit n x) :: 'b::len word) < 2 ^ n" for x :: u32
proof -
  have "unat (ucast (take_bit n x) :: 'b word) \<le> unat (take_bit n x)"
    by (simp only: unsigned_ucast_eq take_bit_nat_less_eq_self)
  also have "\<dots> < 2 ^ n" by (simp add: unsigned_take_bit_eq)
  finally show ?thesis .
qed

lemma unpack_bounds:
  "unpack_member w \<le> 0x3F" "unpack_untag w \<le> 0x3F" "unpack_fid w \<le> 7"
  "ucast (w AND 0xFFF) < (4096 :: u16)" "ucast (drop_bit 12 w AND 7) \<le> (7 :: u8)"
proof -
  show "unpack_member w \<le> 0x3F"
    using unat_field [of 6 w, where 'b = 16] by (simp add: unpack_member_def field_masks word_le_nat_alt)
  show "unpack_untag w \<le> 0x3F"
    using unat_field [of 6 "drop_bit 6 w", where 'b = 16] by (simp add: unpack_untag_def field_masks word_le_nat_alt)
  show "unpack_fid w \<le> 7"
    using unat_field [of 3 "drop_bit 12 w", where 'b = 8] by (simp add: unpack_fid_def field_masks word_le_nat_alt)
  show "ucast (w AND 0xFFF) < (4096 :: u16)"
    using unat_field [of 12 w, where 'b = 16] by (simp add: field_masks word_less_nat_alt)
  show "ucast (drop_bit 12 w AND 7) \<le> (7 :: u8)"
    using unat_field [of 3 "drop_bit 12 w", where 'b = 8] by (simp add: field_masks word_le_nat_alt)
qed

text \<open>A word fits a register.\<close>

definition reg_word :: "u32 \<Rightarrow> bool" where
  "reg_word w \<longleftrightarrow> (\<forall>j. bit w j \<longrightarrow> j < 16)"

lemma reg_word_pack: "reg_word (pack_ports member untag fid)" "reg_word (pack_vid vid priority)"
  by (auto simp: reg_word_def pack_ports_def pack_vid_def field_masks bit_simps)

lemma reg_word_rmw: "reg_word t \<Longrightarrow> reg_word d \<Longrightarrow> reg_word ((t AND NOT m) OR d)"
  by (auto simp: reg_word_def bit_simps)

lemma mc_base_unat: "i < 16 \<Longrightarrow> unat (mc_base i) = 22 + 2 * i"
  by (simp add: mc_base_def unat_word_ariths unat_of_nat)

lemma mc_base_Suc_unat: "i < 16 \<Longrightarrow> unat (mc_base i + 1) = 23 + 2 * i"
  using mc_base_unat [of i] by (simp add: unat_word_ariths)

lemma ctrl_reg_unat: "p < 6 \<Longrightarrow> unat (port_vlan_ctrl_reg p) = 88 + p div 4"
  by (simp add: port_vlan_ctrl_reg_def unat_word_ariths unat_of_nat)


section \<open>What the driver relies on\<close>

text \<open>The registers that keep what was written, and those where a table entry is shown.\<close>

definition conf_reg :: "u32 \<Rightarrow> bool" where
  "conf_reg a \<longleftrightarrow> unat a \<in> {0, 1, 88, 89, 0x010F, 0x0185, 0x0186, 0x018B, 0x018C} \<union> {22..53}"

text \<open>
  The chip behind the bus, as its data sheet has it: registers keep what was written, and two
  commands move entries between the table of 4096 VLANs and the registers.  \<open>reg\<close> and \<open>table\<close>
  are what the chip holds, \<open>ok\<close> says that it works.
\<close>

locale rtl8366s_chip =
  fixes rg :: "'c regs" and ok :: "'c \<Rightarrow> bool" and reg :: "'c \<Rightarrow> u32 \<Rightarrow> u32" and table :: "'c \<Rightarrow> u32 \<Rightarrow> u32"
  assumes read_conf: "ok c \<Longrightarrow> conf_reg a \<Longrightarrow> \<exists>c'. reg_read rg a c = (Inr (reg c a), c') \<and> ok c' \<and>
      (\<forall>b. conf_reg b \<longrightarrow> reg c' b = reg c b) \<and> table c' = table c"
    and write_conf: "ok c \<Longrightarrow> conf_reg a \<Longrightarrow> a \<notin> {0x018B, 0x018C} \<Longrightarrow> reg_word v \<Longrightarrow>
      \<exists>c'. reg_write rg a v c = (Inr (), c') \<and> ok c' \<and> reg c' a = v \<and>
        (\<forall>b. conf_reg b \<longrightarrow> b \<noteq> a \<longrightarrow> reg c' b = reg c b) \<and> table c' = table c"
    and width: "ok c \<Longrightarrow> conf_reg a \<Longrightarrow> reg_word (reg c a)"
    and table_read: "ok c \<Longrightarrow> \<exists>c'. reg_write rg 0x0180 0x0E01 c = (Inr (), c') \<and> ok c' \<and>
        reg c' 0x018C = table c (reg c 0x0185) \<and>
        (\<forall>b. conf_reg b \<longrightarrow> b \<notin> {0x018B, 0x018C} \<longrightarrow> reg c' b = reg c b) \<and> table c' = table c"
    and table_write: "ok c \<Longrightarrow> \<exists>c'. reg_write rg 0x0180 0x0F01 c = (Inr (), c') \<and> ok c' \<and>
        (\<forall>b. conf_reg b \<longrightarrow> reg c' b = reg c b) \<and> table c' = (table c)(reg c 0x0185 := reg c 0x0186)"

text \<open>The tables of the machine, read off the registers.\<close>

definition s_limits :: limits where
  "s_limits = \<lparr>l_ports = 6, l_mc = 16, l_mask = 0x3F, l_fid = 7\<rparr>"

definition mc_of :: "u32 \<Rightarrow> u32 \<Rightarrow> vlan_mc" where
  "mc_of w0 w1 = \<lparr>mc_vid = ucast (w0 AND 0xFFF), mc_untag = unpack_untag w1, mc_member = unpack_member w1,
     mc_fid = unpack_fid w1, mc_priority = ucast (drop_bit 12 w0 AND 7)\<rparr>"

definition index_of :: "(u32 \<Rightarrow> u32) \<Rightarrow> nat \<Rightarrow> nat" where
  "index_of r p = unat (drop_bit (port_vlan_ctrl_shift p) (r (port_vlan_ctrl_reg p)) AND 0xF)"

definition s_tables :: "(u32 \<Rightarrow> u32) \<Rightarrow> (u32 \<Rightarrow> u32) \<Rightarrow> vlans" where
  "s_tables r t =
     \<lparr>t_mc = (\<lambda>i. if i < 16 then mc_of (r (mc_base i)) (r (mc_base i + 1)) else mc_zero),
      t_4k = (\<lambda>vid. if vid < 4096 then (unpack_member (t vid), unpack_untag (t vid), unpack_fid (t vid)) else (0, 0, 0)),
      t_index = (\<lambda>p. if p < 6 then index_of r p else 0),
      t_vlan = bit (r 0) 13, t_vlan4k = bit (r 0x010F) 0,
      t_port = (\<lambda>p. p < 6 \<and> \<not> bit (r 1) p)\<rparr>"

lemma mc_of_ok: "mc_ok s_limits (mc_of w0 w1)"
  by (simp add: mc_ok_def mc_of_def fields_ok_def s_limits_def unpack_bounds)

lemma index_of_less: "index_of r p < 16"
proof -
  have "unat (take_bit 4 x) < 2 ^ 4" for x :: u32
    by (simp only: unsigned_take_bit_eq take_bit_nat_less_exp)
  then show ?thesis by (simp add: index_of_def field_masks)
qed

lemma s_tables_ok: "vlans_ok s_limits (s_tables r t)"
  using mc_of_ok index_of_less by (auto simp: vlans_ok_def s_tables_def s_limits_def fields_ok_def unpack_bounds)

lemma conf_regs [simp]:
  "i < 16 \<Longrightarrow> conf_reg (mc_base i)" "i < 16 \<Longrightarrow> conf_reg (mc_base i + 1)" "p < 6 \<Longrightarrow> conf_reg (port_vlan_ctrl_reg p)"
  "conf_reg 0" "conf_reg 1" "conf_reg 0x010F" "conf_reg 0x0185" "conf_reg 0x0186" "conf_reg 0x018B" "conf_reg 0x018C"
  by (auto simp: conf_reg_def mc_base_unat mc_base_Suc_unat ctrl_reg_unat)

text \<open>The tables depend on nothing else.\<close>

lemma s_tables_cong:
  assumes "\<And>b. conf_reg b \<Longrightarrow> b \<notin> {0x0185, 0x0186, 0x018B, 0x018C} \<Longrightarrow> r' b = r b" "t' = t"
  shows "s_tables r' t' = s_tables r t"
proof -
  have not: "b \<notin> {0x0185, 0x0186, 0x018B, 0x018C}" if "unat b < 300" for b :: u32
    using that by auto
  have mc: "r' (mc_base i) = r (mc_base i)" "r' (mc_base i + 1) = r (mc_base i + 1)" if "i < 16" for i
    using that by (auto intro!: assms(1) not simp: mc_base_unat mc_base_Suc_unat simp del: insert_iff)
  have ix: "r' (port_vlan_ctrl_reg p) = r (port_vlan_ctrl_reg p)" if "p < 6" for p
    using that by (auto intro!: assms(1) not simp: ctrl_reg_unat simp del: insert_iff)
  have "r' 0 = r 0" "r' 1 = r 1" "r' 0x010F = r 0x010F"
    by (auto intro!: assms(1))
  then show ?thesis
    using mc ix assms(2) by (auto simp: s_tables_def index_of_def fun_eq_iff)
qed


text \<open>What a change of one register does to the tables.\<close>

lemma mc_base_neq:
  assumes "i < 16" "unat b < 22 \<or> 54 \<le> unat b"
  shows "mc_base i \<noteq> b" "mc_base i + 1 \<noteq> b"
  using assms mc_base_unat [of i] mc_base_Suc_unat [of i] by auto

lemma mc_base_inj:
  assumes "i < 16" "j < 16"
  shows "mc_base i = mc_base j \<longleftrightarrow> i = j" "mc_base i + 1 = mc_base j + 1 \<longleftrightarrow> i = j" "mc_base i \<noteq> mc_base j + 1"
proof -
  have "22 + 2 * i \<noteq> 23 + 2 * j" by presburger
  then show "mc_base i \<noteq> mc_base j + 1"
    by (simp only: word_unat_eq_iff mc_base_unat [OF assms(1)] mc_base_Suc_unat [OF assms(2)] not_False_eq_True)
  show "mc_base i = mc_base j \<longleftrightarrow> i = j"
    by (simp add: word_unat_eq_iff mc_base_unat [OF assms(1)] mc_base_unat [OF assms(2)])
  then show "mc_base i + 1 = mc_base j + 1 \<longleftrightarrow> i = j" by simp
qed

lemma ctrl_reg_neq:
  assumes "p < 6" "unat b < 88 \<or> 90 \<le> unat b"
  shows "port_vlan_ctrl_reg p \<noteq> b"
  using assms ctrl_reg_unat [of p] by auto

text \<open>The parts of the tables one by one.\<close>

lemma s_tables_sel [simp]:
  "t_mc (s_tables r t) = (\<lambda>i. if i < 16 then mc_of (r (mc_base i)) (r (mc_base i + 1)) else mc_zero)"
  "t_4k (s_tables r t) = (\<lambda>vid. if vid < 4096 then (unpack_member (t vid), unpack_untag (t vid), unpack_fid (t vid)) else (0, 0, 0))"
  "t_index (s_tables r t) = (\<lambda>p. if p < 6 then index_of r p else 0)"
  "t_vlan (s_tables r t) = bit (r 0) 13" "t_vlan4k (s_tables r t) = bit (r 0x010F) 0"
  "t_port (s_tables r t) = (\<lambda>p. p < 6 \<and> \<not> bit (r 1) p)"
  by (simp_all add: s_tables_def)

lemma s_tables_upd_mc:
  assumes "i < 16"
  shows "s_tables (r(mc_base i := w0, mc_base i + 1 := w1)) t =
    (s_tables r t)\<lparr>t_mc := (t_mc (s_tables r t))(i := mc_of w0 w1)\<rparr>"
    (is "s_tables ?r t = _")
proof (rule vlans.equality)
  have other: "?r b = r b" if "unat b < 22 \<or> 54 \<le> unat b" for b
    using mc_base_neq [OF assms that] by simp
  have "t_mc (s_tables ?r t) j = ((t_mc (s_tables r t))(i := mc_of w0 w1)) j" for j
  proof (cases "j < 16")
    case True
    have "?r (mc_base j) = (if j = i then w0 else r (mc_base j))"
      using mc_base_inj(1,3) [OF True assms] by (simp only: fun_upd_apply if_False)
    moreover have "?r (mc_base j + 1) = (if j = i then w1 else r (mc_base j + 1))"
      using mc_base_inj(2) [OF True assms] mc_base_inj(3) [OF assms True] by (auto simp: fun_upd_def)
    ultimately show ?thesis using True by (simp del: fun_upd_apply) (simp add: fun_upd_def)
  next
    case False
    then show ?thesis using assms by (simp del: fun_upd_apply) (simp add: fun_upd_def)
  qed
  then show "t_mc (s_tables ?r t) = t_mc ((s_tables r t)\<lparr>t_mc := (t_mc (s_tables r t))(i := mc_of w0 w1)\<rparr>)"
    by (simp add: fun_eq_iff del: s_tables_sel fun_upd_apply)
  have "index_of ?r p = index_of r p" if "p < 6" for p
    using other [of "port_vlan_ctrl_reg p"] ctrl_reg_unat [OF that] by (simp add: index_of_def del: fun_upd_apply)
  then show "t_index (s_tables ?r t) = t_index ((s_tables r t)\<lparr>t_mc := (t_mc (s_tables r t))(i := mc_of w0 w1)\<rparr>)"
    by (simp add: fun_eq_iff del: fun_upd_apply)
qed (use mc_base_neq [OF assms] in simp_all)

lemma s_tables_upd_switches:
  "s_tables (r(0 := w)) t = (s_tables r t)\<lparr>t_vlan := bit w 13\<rparr>"
  "s_tables (r(0x010F := w)) t = (s_tables r t)\<lparr>t_vlan4k := bit w 0\<rparr>"
  "s_tables (r(1 := w)) t = (s_tables r t)\<lparr>t_port := (\<lambda>p. p < 6 \<and> \<not> bit w p)\<rparr>"
  using mc_base_neq ctrl_reg_neq by (intro vlans.equality; auto simp: index_of_def fun_eq_iff)+

lemma ctrl_reg_same: "p < 6 \<Longrightarrow> q < 6 \<Longrightarrow> port_vlan_ctrl_reg p = port_vlan_ctrl_reg q \<longleftrightarrow> p div 4 = q div 4"
  by (simp add: word_unat_eq_iff ctrl_reg_unat)

lemma index_bits:
  assumes "i < 16" and "s = 4 * (p mod 4)" and "s' = 4 * (q mod 4)"
  shows "drop_bit s' ((w AND NOT (push_bit s 0xF)) OR push_bit s (word_of_nat i AND 0xF)) AND 0xF =
    (if p mod 4 = q mod 4 then word_of_nat i else drop_bit s' w AND (0xF :: u32))"
proof (rule bit_eqI)
  fix j
  have i: "bit (word_of_nat i :: u32) k \<Longrightarrow> k < 4" for k
    by (rule below_bit [of _ 4]) (use assms(1) in \<open>simp_all add: unat_of_nat\<close>)
  have F: "(0xF :: u32) = mask 4" by (simp add: mask_eq_exp_minus_1)
  have m: "p mod 4 < 4" "q mod 4 < 4" by simp_all
  show "bit (drop_bit s' ((w AND NOT (push_bit s 0xF)) OR push_bit s (word_of_nat i AND 0xF)) AND 0xF) j =
    bit (if p mod 4 = q mod 4 then word_of_nat i else drop_bit s' w AND (0xF :: u32)) j"
  proof (cases "j < 4")
    case True
    then show ?thesis using m by (auto simp: F assms(2,3) bit_simps)
  next
    case False
    then show ?thesis using i [of j] by (auto simp: F bit_simps)
  qed
qed

lemma s_tables_upd_index:
  assumes "p < 6" "i < 16"
  shows "s_tables (r(port_vlan_ctrl_reg p :=
      (r (port_vlan_ctrl_reg p) AND NOT (push_bit (port_vlan_ctrl_shift p) 0xF)) OR
      push_bit (port_vlan_ctrl_shift p) (word_of_nat i AND 0xF))) t =
    (s_tables r t)\<lparr>t_index := (t_index (s_tables r t))(p := i)\<rparr>"
    (is "s_tables ?r t = _")
proof -
  have "index_of ?r q = (if q = p then i else index_of r q)" if "q < 6" for q
  proof (cases "p div 4 = q div 4")
    case True
    have "p mod 4 = q mod 4 \<longleftrightarrow> q = p" using True by (metis mult_div_mod_eq)
    moreover have "unat (word_of_nat i :: u32) = i" using assms(2) by (simp add: unat_of_nat)
    moreover have "port_vlan_ctrl_reg q = port_vlan_ctrl_reg p" using ctrl_reg_same [OF assms(1) that] True by simp
    ultimately show ?thesis
      using index_bits [OF assms(2) refl refl, of q "r (port_vlan_ctrl_reg p)" p]
      by (simp add: index_of_def port_vlan_ctrl_shift_def)
  next
    case False
    then have "q \<noteq> p" "port_vlan_ctrl_reg q \<noteq> port_vlan_ctrl_reg p"
      using ctrl_reg_same [OF assms(1) that] by auto
    then show ?thesis by (simp add: index_of_def)
  qed
  then have "t_index (s_tables ?r t) = (t_index (s_tables r t))(p := i)"
    using assms(1) by (simp add: fun_eq_iff del: fun_upd_apply) simp
  moreover have "?r b = r b" if "unat b < 88 \<or> 90 \<le> unat b" for b
    using ctrl_reg_neq [OF assms(1) that] by simp
  ultimately show ?thesis
    by (intro vlans.equality) (simp_all add: fun_eq_iff mc_base_unat mc_base_Suc_unat del: fun_upd_apply)
qed

section \<open>The chip keeps the contract\<close>

lemma s_limits_sel [simp]: "l_ports s_limits = 6" "l_mc s_limits = 16" "l_mask s_limits = 0x3F" "l_fid s_limits = 7"
  by (simp_all add: s_limits_def)

lemma limits_ok_s: "limits_ok s_limits 5"
  by (simp add: limits_ok_def mask_eq_exp_minus_1)

lemma rtl8366s_sel [simp]:
  "num_ports (rtl8366s rg reset initvals dts green) = 6" "num_vlan_mc (rtl8366s rg reset initvals dts green) = 16"
  "cpu_port (rtl8366s rg reset initvals dts green) = 5"
  "get_vlan_mc (ops (rtl8366s rg reset initvals dts green)) = rtl8366s_get_vlan_mc rg"
  "set_vlan_mc (ops (rtl8366s rg reset initvals dts green)) = rtl8366s_set_vlan_mc rg"
  "get_vlan_4k (ops (rtl8366s rg reset initvals dts green)) = rtl8366s_get_vlan_4k rg"
  "set_vlan_4k (ops (rtl8366s rg reset initvals dts green)) = rtl8366s_set_vlan_4k rg"
  "get_mc_index (ops (rtl8366s rg reset initvals dts green)) = rtl8366s_get_mc_index rg"
  "set_mc_index (ops (rtl8366s rg reset initvals dts green)) = rtl8366s_set_mc_index rg"
  "enable_vlan (ops (rtl8366s rg reset initvals dts green)) = rtl8366s_enable_vlan rg"
  "enable_vlan4k (ops (rtl8366s rg reset initvals dts green)) = rtl8366s_enable_vlan4k rg"
  "enable_port (ops (rtl8366s rg reset initvals dts green)) = rtl8366s_enable_port rg"
  "is_vlan_valid (ops (rtl8366s rg reset initvals dts green)) = rtl8366s_is_vlan_valid"
  by (simp_all add: rtl8366s_def rtl8366s_smi_ops_def)

lemma valid_s: "rtl8366s_is_vlan_valid = spec_valid s_limits"
  by (auto simp: fun_eq_iff rtl8366s_is_vlan_valid_def spec_valid_def word_le_nat_alt word_less_nat_alt unat_gt_0 Let_def)

lemma reg_word_bit: "n < 16 \<Longrightarrow> reg_word (push_bit n 1)" "reg_word 0" "reg_word 1"
  by (auto simp: reg_word_def bit_simps bit_1_iff)

context rtl8366s_chip
begin

definition view :: "'c \<Rightarrow> vlans" where
  "view c = s_tables (reg c) (table c)"

text \<open>Reading and changing one register.\<close>

lemma reading:
  assumes "ok c" "conf_reg a"
  obtains c' where "reg_read rg a c = (Inr (reg c a), c')" "ok c'" "\<And>b. conf_reg b \<Longrightarrow> reg c' b = reg c b" "table c' = table c"
    "view c' = view c"
  using read_conf [OF assms] s_tables_cong [of "reg _" "reg c" "table _" "table c"] unfolding view_def by metis

lemma changing_view:
  assumes "\<And>b. conf_reg b \<Longrightarrow> reg c' b = r b" "table c' = t"
  shows "view c' = s_tables r t"
  unfolding view_def using assms by (intro s_tables_cong) auto

lemma changing:
  assumes "ok c" "conf_reg a" "a \<notin> {0x018B, 0x018C}" "reg_word data"
  obtains c' where "rtl8366_smi_rmwr rg a msk data c = (Inr (), c')" "ok c'"
    "view c' = s_tables ((reg c)(a := (reg c a AND NOT msk) OR data)) (table c)"
proof -
  obtain c1 where c1: "reg_read rg a c = (Inr (reg c a), c1)" "ok c1" "\<And>b. conf_reg b \<Longrightarrow> reg c1 b = reg c b" "table c1 = table c"
    using reading [OF assms(1,2)] by metis
  have "reg_word ((reg c a AND NOT msk) OR data)"
    by (rule reg_word_rmw [OF width [OF assms(1,2)] assms(4)])
  from write_conf [OF c1(2) assms(2,3) this] obtain c' where
    c': "reg_write rg a ((reg c a AND NOT msk) OR data) c1 = (Inr (), c')" "ok c'" "reg c' a = (reg c a AND NOT msk) OR data"
      "\<And>b. conf_reg b \<Longrightarrow> b \<noteq> a \<Longrightarrow> reg c' b = reg c1 b" "table c' = table c1"
    by blast
  have "rtl8366_smi_rmwr rg a msk data c = (Inr (), c')"
    using c1(1) c'(1) by (simp add: rtl8366_smi_rmwr_def dbind_def)
  moreover have "view c' = s_tables ((reg c)(a := (reg c a AND NOT msk) OR data)) (table c)"
  proof (rule changing_view)
    show "reg c' b = ((reg c)(a := (reg c a AND NOT msk) OR data)) b" if "conf_reg b" for b
      using c1(3) [OF that] c'(3) c'(4) [OF that] by simp
  qed (simp add: c'(5) c1(4))
  ultimately show ?thesis using that c'(2) by simp
qed

lemma s_enable_vlan: "simulates ok view (rtl8366s_enable_vlan rg e) (modify (t_vlan_update (\<lambda>_. e \<noteq> 0)))"
proof (rule simulatesI)
  fix c assume c: "ok c"
  have "reg_word (if e \<noteq> 0 then push_bit 13 1 else 0)" using reg_word_bit(1) [of 13] reg_word_bit(2) by auto
  from changing [OF c _ _ this, where a = 0 and msk = "push_bit 13 1"] obtain c' where
    c': "rtl8366s_enable_vlan rg e c = (Inr (), c')" "ok c'" "view c' = s_tables ((reg c)(0 := (reg c 0 AND NOT (push_bit 13 1)) OR (if e \<noteq> 0 then push_bit 13 1 else 0))) (table c)"
    unfolding rtl8366s_enable_vlan_def by auto
  have "view c' = (view c)\<lparr>t_vlan := e \<noteq> 0\<rparr>"
    unfolding c'(3) s_tables_upd_switches view_def [of c] by (simp add: bit_simps bit_1_iff)
  then show "\<exists>c'. rtl8366s_enable_vlan rg e c = (fst (modify (t_vlan_update (\<lambda>_. e \<noteq> 0)) (view c)), c') \<and> ok c' \<and>
      view c' = snd (modify (t_vlan_update (\<lambda>_. e \<noteq> 0)) (view c))"
    using c' by (simp add: modify_def)
qed

lemma s_enable_vlan4k: "simulates ok view (rtl8366s_enable_vlan4k rg e) (modify (t_vlan4k_update (\<lambda>_. e \<noteq> 0)))"
proof (rule simulatesI)
  fix c assume c: "ok c"
  have "reg_word (if e \<noteq> 0 then 1 else 0)" using reg_word_bit by auto
  from changing [OF c _ _ this, where a = "0x010F" and msk = 1] obtain c' where
    c': "rtl8366s_enable_vlan4k rg e c = (Inr (), c')" "ok c'" "view c' = s_tables ((reg c)(0x010F := (reg c 0x010F AND NOT 1) OR (if e \<noteq> 0 then 1 else 0))) (table c)"
    unfolding rtl8366s_enable_vlan4k_def by auto
  have "view c' = (view c)\<lparr>t_vlan4k := e \<noteq> 0\<rparr>"
    unfolding c'(3) s_tables_upd_switches view_def [of c] by (simp add: bit_simps bit_1_iff)
  then show "\<exists>c'. rtl8366s_enable_vlan4k rg e c = (fst (modify (t_vlan4k_update (\<lambda>_. e \<noteq> 0)) (view c)), c') \<and> ok c' \<and>
      view c' = snd (modify (t_vlan4k_update (\<lambda>_. e \<noteq> 0)) (view c))"
    using c' by (simp add: modify_def)
qed

lemma s_enable_port:
  assumes "p < 6"
  shows "simulates ok view (rtl8366s_enable_port rg p e) (modify (\<lambda>t. t\<lparr>t_port := (t_port t)(p := e \<noteq> 0)\<rparr>))"
proof (rule simulatesI)
  fix c assume c: "ok c"
  have "reg_word (if e \<noteq> 0 then 0 else push_bit p 1)" using reg_word_bit(1) [of p] reg_word_bit(2) assms by auto
  from changing [OF c _ _ this, where a = 1 and msk = "push_bit p 1"] obtain c' where
    c': "rtl8366s_enable_port rg p e c = (Inr (), c')" "ok c'" "view c' = s_tables ((reg c)(1 := (reg c 1 AND NOT (push_bit p 1)) OR (if e \<noteq> 0 then 0 else push_bit p 1))) (table c)"
    unfolding rtl8366s_enable_port_def by auto
  have "(\<lambda>q. q < 6 \<and> \<not> bit ((reg c 1 AND NOT (push_bit p 1)) OR (if e \<noteq> 0 then 0 else push_bit p 1)) q) =
      (t_port (view c))(p := e \<noteq> 0)"
  proof
    fix q
    show "(q < 6 \<and> \<not> bit ((reg c 1 AND NOT (push_bit p 1)) OR (if e \<noteq> 0 then 0 else push_bit p 1)) q) =
      ((t_port (view c))(p := e \<noteq> 0)) q"
      using assms by (cases "q = p") (auto simp: view_def bit_or_iff bit_and_iff bit_not_iff bit_push_bit_iff bit_1_iff simp del: push_bit_of_1)
  qed
  then have "view c' = (view c)\<lparr>t_port := (t_port (view c))(p := e \<noteq> 0)\<rparr>"
    unfolding c'(3) s_tables_upd_switches by (simp only: view_def)
  then show "\<exists>c'. rtl8366s_enable_port rg p e c = (fst (modify (\<lambda>t. t\<lparr>t_port := (t_port t)(p := e \<noteq> 0)\<rparr>) (view c)), c') \<and> ok c' \<and>
      view c' = snd (modify (\<lambda>t. t\<lparr>t_port := (t_port t)(p := e \<noteq> 0)\<rparr>) (view c))"
    using c' by (simp add: modify_def)
qed

lemma s_get_index: "simulates ok view (rtl8366s_get_mc_index rg p) (spec_get_index s_limits p)"
proof (rule simulatesI)
  fix c assume c: "ok c"
  show "\<exists>c'. rtl8366s_get_mc_index rg p c = (fst (spec_get_index s_limits p (view c)), c') \<and> ok c' \<and>
      view c' = snd (spec_get_index s_limits p (view c))"
  proof (cases "p < 6")
    case True
    then obtain c' where "reg_read rg (port_vlan_ctrl_reg p) c = (Inr (reg c (port_vlan_ctrl_reg p)), c')" "ok c'" "view c' = view c"
      using reading [OF c, of "port_vlan_ctrl_reg p"] by auto
    then show ?thesis
      using True by (simp add: rtl8366s_get_mc_index_def dbind_def dret_def spec_get_index_def view_def index_of_def)
  qed (use c in \<open>simp add: rtl8366s_get_mc_index_def spec_get_index_def derr_def\<close>)
qed

lemma s_set_index: "simulates ok view (rtl8366s_set_mc_index rg p i) (spec_set_index s_limits p i)"
proof (rule simulatesI)
  fix c assume c: "ok c"
  show "\<exists>c'. rtl8366s_set_mc_index rg p i c = (fst (spec_set_index s_limits p i (view c)), c') \<and> ok c' \<and>
      view c' = snd (spec_set_index s_limits p i (view c))"
  proof (cases "p < 6 \<and> i < 16")
    case True
    let ?a = "port_vlan_ctrl_reg p" and ?d = "push_bit (port_vlan_ctrl_shift p) (word_of_nat i AND 0xF) :: u32"
    have "reg_word ?d"
      by (auto simp: reg_word_def field_masks bit_simps port_vlan_ctrl_shift_def)
    moreover have "?a \<notin> {0x018B, 0x018C}" using ctrl_reg_neq [of p] True by simp
    ultimately obtain c' where
      c': "rtl8366_smi_rmwr rg ?a (push_bit (port_vlan_ctrl_shift p) 0xF) ?d c = (Inr (), c')" "ok c'" "view c' = s_tables ((reg c)(?a := (reg c ?a AND NOT (push_bit (port_vlan_ctrl_shift p) 0xF)) OR ?d)) (table c)"
      using changing [OF c, of ?a ?d "push_bit (port_vlan_ctrl_shift p) 0xF"] True by auto
    have "view c' = (view c)\<lparr>t_index := (t_index (view c))(p := i)\<rparr>"
      unfolding c'(3) view_def [of c] using True by (intro s_tables_upd_index) auto
    then show ?thesis using c' True by (simp add: rtl8366s_set_mc_index_def spec_set_index_def)
  qed (use c in \<open>auto simp: rtl8366s_set_mc_index_def spec_set_index_def derr_def\<close>)
qed

lemma s_get_mc: "simulates ok view (rtl8366s_get_vlan_mc rg i) (spec_get_mc s_limits i)"
proof (rule simulatesI)
  fix c assume c: "ok c"
  show "\<exists>c'. rtl8366s_get_vlan_mc rg i c = (fst (spec_get_mc s_limits i (view c)), c') \<and> ok c' \<and>
      view c' = snd (spec_get_mc s_limits i (view c))"
  proof (cases "i < 16")
    case True
    obtain c1 where c1: "reg_read rg (mc_base i) c = (Inr (reg c (mc_base i)), c1)" "ok c1" "view c1 = view c"
      "\<And>b. conf_reg b \<Longrightarrow> reg c1 b = reg c b"
      using reading [OF c conf_regs(1) [OF True]] by metis
    obtain c2 where c2: "reg_read rg (mc_base i + 1) c1 = (Inr (reg c1 (mc_base i + 1)), c2)" "ok c2" "view c2 = view c1"
      using reading [OF c1(2) conf_regs(2) [OF True]] by metis
    show ?thesis
      using True c1 c2 by (simp add: rtl8366s_get_vlan_mc_def dbind_def dret_def spec_get_mc_def view_def mc_of_def)
  qed (use c in \<open>simp add: rtl8366s_get_vlan_mc_def spec_get_mc_def derr_def\<close>)
qed

lemma writing:
  assumes "ok c" "conf_reg a" "a \<notin> {0x018B, 0x018C}" "reg_word v"
  obtains c' where "reg_write rg a v c = (Inr (), c')" "ok c'"
    "\<And>b. conf_reg b \<Longrightarrow> reg c' b = ((reg c)(a := v)) b" "table c' = table c"
  using write_conf [OF assms] by (metis fun_upd_apply)

lemma s_set_mc: "simulates ok view (rtl8366s_set_vlan_mc rg i m) (spec_set_mc s_limits i m)"
proof (rule simulatesI)
  fix c assume c: "ok c"
  show "\<exists>c'. rtl8366s_set_vlan_mc rg i m c = (fst (spec_set_mc s_limits i m (view c)), c') \<and> ok c' \<and>
      view c' = snd (spec_set_mc s_limits i m (view c))"
  proof (cases "i < 16 \<and> mc_ok s_limits m")
    case True
    then have i: "i < 16" and m: "mc_vid m < 4096" "mc_priority m \<le> 7" "mc_member m \<le> 0x3F" "mc_untag m \<le> 0x3F" "mc_fid m \<le> 7"
      by (auto simp: mc_ok_def fields_ok_def)
    let ?w0 = "pack_vid (mc_vid m) (mc_priority m)" and ?w1 = "pack_ports (mc_member m) (mc_untag m) (mc_fid m)"
    have n: "mc_base i \<notin> {0x018B, 0x018C}" "mc_base i + 1 \<notin> {0x018B, 0x018C}"
      using mc_base_neq [OF i] by auto
    obtain c1 where c1: "reg_write rg (mc_base i) ?w0 c = (Inr (), c1)" "ok c1"
      "\<And>b. conf_reg b \<Longrightarrow> reg c1 b = ((reg c)(mc_base i := ?w0)) b" "table c1 = table c"
      using writing [OF c conf_regs(1) [OF i] n(1) reg_word_pack(2)] by metis
    obtain c2 where c2: "reg_write rg (mc_base i + 1) ?w1 c1 = (Inr (), c2)" "ok c2"
      "\<And>b. conf_reg b \<Longrightarrow> reg c2 b = ((reg c1)(mc_base i + 1 := ?w1)) b" "table c2 = table c1"
      using writing [OF c1(2) conf_regs(2) [OF i] n(2) reg_word_pack(1)] by metis
    have "view c2 = s_tables ((reg c)(mc_base i := ?w0, mc_base i + 1 := ?w1)) (table c)"
      by (rule changing_view) (use c1(3,4) c2(3,4) in simp_all)
    moreover have "mc_of ?w0 ?w1 = m"
      by (intro vlan_mc.equality) (simp_all add: mc_of_def unpack_pack [OF m(3,4,5)] unpack_vid [OF m(1,2)])
    ultimately have "view c2 = (view c)\<lparr>t_mc := (t_mc (view c))(i := m)\<rparr>"
      using s_tables_upd_mc [OF i, of "reg c" ?w0 ?w1 "table c"] by (simp only: view_def [of c])
    then show ?thesis
      using c1 c2 True m [folded not_le] m [folded not_less]
      by (simp add: rtl8366s_set_vlan_mc_def dbind_def spec_set_mc_def)
  next
    case False
    then have "i \<ge> 16 \<or> mc_vid m \<ge> 4096 \<or> mc_priority m > 7 \<or> mc_member m > 0x3F \<or> mc_untag m > 0x3F \<or> mc_fid m > 7"
      by (auto simp: mc_ok_def fields_ok_def not_le not_less)
    then show ?thesis using False c by (auto simp: rtl8366s_set_vlan_mc_def spec_set_mc_def derr_def)
  qed
qed

lemma vid_and: "vid < 4096 \<Longrightarrow> vid AND 0xFFF = (vid :: u32)"
  unfolding field_masks by (rule below_take_bit) (simp add: word_less_nat_alt)

lemma reg_word_vid: "vid < 4096 \<Longrightarrow> reg_word vid" for vid :: u32
  unfolding reg_word_def using below_bit [of vid 12] by (force simp: word_less_nat_alt)

lemma s_get_4k: "simulates ok view (rtl8366s_get_vlan_4k rg vid) (spec_get_4k s_limits vid)"
proof (rule simulatesI)
  fix c assume c: "ok c"
  show "\<exists>c'. rtl8366s_get_vlan_4k rg vid c = (fst (spec_get_4k s_limits vid (view c)), c') \<and> ok c' \<and>
      view c' = snd (spec_get_4k s_limits vid (view c))"
  proof (cases "vid < 4096")
    case True
    obtain c1 where c1: "reg_write rg 0x0185 vid c = (Inr (), c1)" "ok c1"
      "\<And>b. conf_reg b \<Longrightarrow> reg c1 b = ((reg c)(0x0185 := vid)) b" "table c1 = table c"
      using writing [OF c _ _ reg_word_vid [OF True], of "0x0185"] by auto
    obtain c2 where c2: "reg_write rg 0x0180 0x0E01 c1 = (Inr (), c2)" "ok c2" "reg c2 0x018C = table c1 (reg c1 0x0185)"
      "\<And>b. conf_reg b \<Longrightarrow> b \<notin> {0x018B, 0x018C} \<Longrightarrow> reg c2 b = reg c1 b" "table c2 = table c1"
      using table_read [OF c1(2)] by blast
    obtain c3 where c3: "reg_read rg 0x018B c2 = (Inr (reg c2 0x018B), c3)" "ok c3"
      "\<And>b. conf_reg b \<Longrightarrow> reg c3 b = reg c2 b" "table c3 = table c2"
      using reading [OF c2(2), of "0x018B"] by auto
    obtain c4 where c4: "reg_read rg 0x018C c3 = (Inr (reg c3 0x018C), c4)" "ok c4"
      "\<And>b. conf_reg b \<Longrightarrow> reg c4 b = reg c3 b" "table c4 = table c3"
      using reading [OF c3(2), of "0x018C"] by auto
    have "reg c1 0x0185 = vid" using c1(3) [of "0x0185"] by simp
    then have data: "reg c3 0x018C = table c vid"
      using c3(3) [of "0x018C"] c2(3) c1(4) by simp
    have "view c4 = view c"
      unfolding view_def using c1(3,4) c2(4,5) c3(3,4) c4(3,4) by (intro s_tables_cong) auto
    then show ?thesis
      using True True [folded not_le] c1(1) c2(1) c3(1) c4(1,2) data vid_and [OF True]
      by (simp add: rtl8366s_get_vlan_4k_def dbind_def dret_def spec_get_4k_def v4_entry_def view_def [of c])
  qed (use c in \<open>auto simp: rtl8366s_get_vlan_4k_def spec_get_4k_def derr_def not_less\<close>)
qed

lemma s_set_4k: "simulates ok view (rtl8366s_set_vlan_4k rg v) (spec_set_4k s_limits v)"
proof (rule simulatesI)
  fix c assume c: "ok c"
  show "\<exists>c'. rtl8366s_set_vlan_4k rg v c = (fst (spec_set_4k s_limits v (view c)), c') \<and> ok c' \<and>
      view c' = snd (spec_set_4k s_limits v (view c))"
  proof (cases "v4_vid v < 4096 \<and> fields_ok s_limits (v4_member v) (v4_untag v) (v4_fid v)")
    case True
    then have v: "v4_vid v < 4096" "v4_member v \<le> 0x3F" "v4_untag v \<le> 0x3F" "v4_fid v \<le> 7"
      by (auto simp: fields_ok_def)
    let ?vid = "ucast (v4_vid v) :: u32" and ?w = "pack_ports (v4_member v) (v4_untag v) (v4_fid v)"
    have vid: "?vid < 4096" using v(1) unat_up [of "v4_vid v"] by (simp add: word_less_nat_alt)
    obtain c1 where c1: "reg_write rg 0x0185 ?vid c = (Inr (), c1)" "ok c1"
      "\<And>b. conf_reg b \<Longrightarrow> reg c1 b = ((reg c)(0x0185 := ?vid)) b" "table c1 = table c"
      using writing [OF c _ _ reg_word_vid [OF vid], of "0x0185"] by auto
    obtain c2 where c2: "reg_write rg 0x0186 ?w c1 = (Inr (), c2)" "ok c2"
      "\<And>b. conf_reg b \<Longrightarrow> reg c2 b = ((reg c1)(0x0186 := ?w)) b" "table c2 = table c1"
      by (rule writing [OF c1(2) _ _ reg_word_pack(1), of "0x0186"]) auto
    obtain c3 where c3: "reg_write rg 0x0180 0x0F01 c2 = (Inr (), c3)" "ok c3"
      "\<And>b. conf_reg b \<Longrightarrow> reg c3 b = reg c2 b" "table c3 = (table c2)(reg c2 0x0185 := reg c2 0x0186)"
      using table_write [OF c2(2)] by blast
    have "reg c2 0x0185 = ?vid" "reg c2 0x0186 = ?w"
      using c2(3) [of "0x0185"] c2(3) [of "0x0186"] c1(3) [of "0x0185"] by simp_all
    then have t: "table c3 = (table c)(?vid := ?w)" using c3(4) c2(4) c1(4) by simp
    have "view c3 = s_tables (reg c) (table c3)"
      unfolding view_def using c1(3) c2(3) c3(3) by (intro s_tables_cong) auto
    also have "\<dots> = (view c)\<lparr>t_4k := (t_4k (view c))(?vid := (v4_member v, v4_untag v, v4_fid v))\<rparr>"
      unfolding t view_def using vid by (intro vlans.equality) (auto simp: fun_eq_iff unpack_pack [OF v(2,3,4)])
    finally show ?thesis
      using c1(1) c2(1) c3(1,2) v [folded not_le] v [folded not_less] vid_and [OF vid] True
      by (simp add: rtl8366s_set_vlan_4k_def dbind_def spec_set_4k_def)
  next
    case False
    then have "v4_vid v \<ge> 4096 \<or> v4_member v > 0x3F \<or> v4_untag v > 0x3F \<or> v4_fid v > 7"
      by (auto simp: fields_ok_def not_le not_less)
    then show ?thesis using False c by (auto simp: rtl8366s_set_vlan_4k_def spec_set_4k_def derr_def)
  qed
qed

end

sublocale rtl8366s_chip \<subseteq> vlan: rtl_vlan "rtl8366s rg reset initvals dts green" s_limits ok view
proof
qed (simp_all add: valid_s s_get_mc s_set_mc s_get_4k s_set_4k s_get_index s_set_index s_enable_vlan s_enable_vlan4k
    s_enable_port view_def s_tables_ok)

context rtl8366s_chip
begin

lemma contract: "rtl_vlan (rtl8366s rg reset initvals dts green) s_limits ok (\<lambda>c. s_tables (reg c) (table c))"
  using vlan.rtl_vlan_axioms by (simp add: view_def [abs_def])

end

section \<open>A chip\<close>

text \<open>The registers and the table as the data sheet describes them, for the contract's witness.\<close>

record s_chip =
  s_reg :: "u32 \<Rightarrow> u32"
  s_table :: "u32 \<Rightarrow> u32"

definition s_write :: "u32 \<Rightarrow> u32 \<Rightarrow> s_chip \<Rightarrow> s_chip" where
  "s_write a v c =
     (if a = 0x0180 then
        if v = 0x0E01 then c\<lparr>s_reg := (s_reg c)(0x018B := s_reg c 0x0185, 0x018C := s_table c (s_reg c 0x0185))\<rparr>
        else if v = 0x0F01 then c\<lparr>s_table := (s_table c)(s_reg c 0x0185 := s_reg c 0x0186)\<rparr>
        else c
      else c\<lparr>s_reg := (s_reg c)(a := v)\<rparr>)"

definition s_regs :: "s_chip regs" where
  "s_regs = \<lparr>reg_read = (\<lambda>a c. (Inr (s_reg c a), c)), reg_write = (\<lambda>a v. modify (s_write a v)),
     reg_write_noack = (\<lambda>a v. modify (s_write a v))\<rparr>"

definition s_ok :: "s_chip \<Rightarrow> bool" where
  "s_ok c \<longleftrightarrow> (\<forall>a. reg_word (s_reg c a)) \<and> (\<forall>vid. reg_word (s_table c vid))"

interpretation s_chip: rtl8366s_chip s_regs s_ok s_reg s_table
proof
  fix c a v
  assume c: "s_ok c"
  note simps = s_regs_def s_write_def s_ok_def modify_def
  show "\<exists>c'. reg_read s_regs a c = (Inr (s_reg c a), c') \<and> s_ok c' \<and>
      (\<forall>b. conf_reg b \<longrightarrow> s_reg c' b = s_reg c b) \<and> s_table c' = s_table c" if "conf_reg a"
    using c by (simp add: simps)
  show "\<exists>c'. reg_write s_regs a v c = (Inr (), c') \<and> s_ok c' \<and> s_reg c' a = v \<and>
      (\<forall>b. conf_reg b \<longrightarrow> b \<noteq> a \<longrightarrow> s_reg c' b = s_reg c b) \<and> s_table c' = s_table c"
    if "conf_reg a" "a \<notin> {0x018B, 0x018C}" "reg_word v"
  proof -
    have "a \<noteq> 0x0180" using that(1) by (auto simp: conf_reg_def)
    then show ?thesis using c that(3) by (simp add: simps)
  qed
  show "reg_word (s_reg c a)" if "conf_reg a" using c by (simp add: s_ok_def)
  show "\<exists>c'. reg_write s_regs 0x0180 0x0E01 c = (Inr (), c') \<and> s_ok c' \<and>
      s_reg c' 0x018C = s_table c (s_reg c 0x0185) \<and>
      (\<forall>b. conf_reg b \<longrightarrow> b \<notin> {0x018B, 0x018C} \<longrightarrow> s_reg c' b = s_reg c b) \<and> s_table c' = s_table c"
    using c by (simp add: simps)
  show "\<exists>c'. reg_write s_regs 0x0180 0x0F01 c = (Inr (), c') \<and> s_ok c' \<and>
      (\<forall>b. conf_reg b \<longrightarrow> s_reg c' b = s_reg c b) \<and> s_table c' = (s_table c)(s_reg c 0x0185 := s_reg c 0x0186)"
    using c by (simp add: simps)
qed

definition s_start :: "s_chip smi" where
  "s_start = \<lparr>chip = \<lparr>s_reg = (\<lambda>_. 0), s_table = (\<lambda>_. 0)\<rparr>, vlan_enabled = 0, vlan4k_enabled = 0, pins = []\<rparr>"

lemma s_start_ok: "s_ok (chip s_start)"
  by (simp add: s_ok_def s_start_def reg_word_def)

lemma s_managed: "managed (rtl8366s s_regs None [] None False) s_ok (snd (rtl8366_init_vlan (rtl8366s s_regs None [] None False) s_start))"
  by (rule managed.init) (rule s_start_ok)

section \<open>Properties\<close>

text \<open>
  C5: whatever requests come, in whatever order and with whatever arguments, failed ones included,
  after the VLANs were set up or reset: no two member configurations have the same VLAN id, each is
  what the VLAN table says, the flags of the driver are the switches of the chip, and the large
  mode is only on when VLANs are.
\<close>
theorem rtl_vlan_invariant:
  assumes "rtl8366s_chip rg ok reg table" "managed (rtl8366s rg reset initvals dts green) ok s"
  shows "ok (chip s) \<and> smi_inv s_limits (smi_abs (\<lambda>c. s_tables (reg c) (table c)) s)"
  by (rule rtl_vlan.managed_inv [OF rtl8366s_chip.contract [OF assms(1)] assms(2)])

lemma rtl_vlan_invariant_witness:
  "smi_inv s_limits (smi_abs (\<lambda>c. s_tables (s_reg c) (s_table c))
     (snd (run_request (rtl8366s s_regs None [] None False) (Set_pvid 2 7)
       (snd (rtl8366_init_vlan (rtl8366s s_regs None [] None False) s_start)))))"
  using rtl_vlan_invariant [OF s_chip.rtl8366s_chip_axioms managed.request [OF s_managed, of "Set_pvid 2 7"]]
  by blast

text \<open>
  C13: setting the PVID of a port never fails, is what the port has afterwards, and does not change
  the PVID of another port, unless that port had none.
\<close>
theorem rtl_set_pvid:
  assumes "rtl8366s_chip rg ok reg table" "managed (rtl8366s rg reset initvals dts green) ok s"
    and "vid < 4096" "p < 6"
  shows "\<exists>s'. rtl8366_sw_set_port_pvid (rtl8366s rg reset initvals dts green) p vid s = (Inr (), s') \<and>
    fst (rtl8366_sw_get_port_pvid (rtl8366s rg reset initvals dts green) p s') = Inr (ucast vid) \<and>
    (\<forall>q < 6. q \<noteq> p \<longrightarrow> fst (rtl8366_sw_get_port_pvid (rtl8366s rg reset initvals dts green) q s) \<noteq> Inr 0 \<longrightarrow>
       fst (rtl8366_sw_get_port_pvid (rtl8366s rg reset initvals dts green) q s') =
       fst (rtl8366_sw_get_port_pvid (rtl8366s rg reset initvals dts green) q s))"
proof -
  note set = rtl_vlan.set_pvid_chip [OF rtl8366s_chip.contract [OF assms(1)] assms(2), of vid p]
  obtain s' where "rtl8366_sw_set_port_pvid (rtl8366s rg reset initvals dts green) p vid s = (Inr (), s')"
    "rtl8366_sw_get_port_pvid (rtl8366s rg reset initvals dts green) p s' =
       (Inr (ucast vid), snd (rtl8366_sw_get_port_pvid (rtl8366s rg reset initvals dts green) p s'))"
    "\<And>q. q < 6 \<Longrightarrow> q \<noteq> p \<Longrightarrow> fst (rtl8366_sw_get_port_pvid (rtl8366s rg reset initvals dts green) q s) \<noteq> Inr 0 \<Longrightarrow>
       fst (rtl8366_sw_get_port_pvid (rtl8366s rg reset initvals dts green) q s') =
       fst (rtl8366_sw_get_port_pvid (rtl8366s rg reset initvals dts green) q s)"
    using set assms(3,4) by auto
  then show ?thesis by (metis fst_conv)
qed

lemma rtl_set_pvid_witness:
  "\<exists>s'. rtl8366_sw_set_port_pvid (rtl8366s s_regs None [] None False) 2 7
      (snd (rtl8366_init_vlan (rtl8366s s_regs None [] None False) s_start)) = (Inr (), s') \<and>
    fst (rtl8366_sw_get_port_pvid (rtl8366s s_regs None [] None False) 2 s') = Inr 7"
proof -
  have "ucast (7 :: u32) = (7 :: u16)" by simp
  then show ?thesis
    using rtl_set_pvid [OF s_chip.rtl8366s_chip_axioms s_managed, of 7 2] by auto
qed

text \<open>
  the initial VLANs: port \<open>p\<close> has the PVID \<open>p + 1\<close>, and the VLAN \<open>p + 1\<close> has the port and the
  CPU port as members, all untagged; that of the CPU port has all ports.
\<close>
theorem rtl_init_vlan:
  assumes "rtl8366s_chip rg ok reg table" "ok (chip s)"
  shows "\<exists>s'. rtl8366_init_vlan (rtl8366s rg reset initvals dts green) s = (Inr (), s') \<and>
    (\<forall>p < 6. fst (rtl8366_sw_get_port_pvid (rtl8366s rg reset initvals dts green) p s') = Inr (word_of_nat (p + 1)) \<and>
       fst (rtl8366_sw_get_vlan_ports (rtl8366s rg reset initvals dts green) (word_of_nat (p + 1)) s') =
         Inr (map (\<lambda>q. \<lparr>port_id = q, port_tagged = False\<rparr>) (filter (\<lambda>q. q = p \<or> q = 5 \<or> p = 5) [0..<6])))"
proof -
  note smi = rtl8366s_chip.contract [OF assms(1), of reset initvals dts green]
  obtain s' where s': "rtl8366_init_vlan (rtl8366s rg reset initvals dts green) s = (Inr (), s')" "ok (chip s')" "vlan4k_enabled s' = 0"
    "\<forall>p < l_ports s_limits. pvid (s_tables (reg (chip s')) (table (chip s'))) p = word_of_nat (p + 1) \<and>
       t_4k (s_tables (reg (chip s')) (table (chip s'))) (word_of_nat (p + 1)) =
       (ucast (init_mask (rtl8366s rg reset initvals dts green) p), ucast (init_mask (rtl8366s rg reset initvals dts green) p), 0)"
    using rtl_vlan.init_vlan_chip [OF smi assms(2)] limits_ok_s unfolding rtl8366s_sel by blast
  have mask: "bit (ucast (init_mask (rtl8366s rg reset initvals dts green) p) :: u16) q \<longleftrightarrow> q < 6 \<and> (q = p \<or> q = 5 \<or> p = 5)"
    if "p < 6" for p q
    using bit_init_mask [OF limits_ok_s, of p q] that by (auto simp: init_mask_def bit_simps)
  show ?thesis
  proof (intro exI conjI allI impI)
    fix p :: nat assume p: "p < 6"
    show "fst (rtl8366_sw_get_port_pvid (rtl8366s rg reset initvals dts green) p s') = Inr (word_of_nat (p + 1))"
      using rtl_vlan.get_pvid_chip [OF smi s'(2), of p] s'(4) p by simp
    have "unat (word_of_nat (p + 1) :: u32) = p + 1" by (subst unat_of_nat) (use p in simp)
    then have "spec_valid s_limits (vlan4k_enabled s') (word_of_nat (p + 1))"
      using p s'(3) by (simp add: spec_valid_def word_less_nat_alt)
    moreover have "t_4k (s_tables (reg (chip s')) (table (chip s'))) (word_of_nat (p + 1)) =
       (ucast (init_mask (rtl8366s rg reset initvals dts green) p), ucast (init_mask (rtl8366s rg reset initvals dts green) p), 0)"
      using s'(4) p by simp
    ultimately have "fst (rtl8366_sw_get_vlan_ports (rtl8366s rg reset initvals dts green) (word_of_nat (p + 1)) s') =
      Inr (map (\<lambda>i. \<lparr>port_id = i, port_tagged = \<not> bit (ucast (init_mask (rtl8366s rg reset initvals dts green) p) :: u16) i\<rparr>)
        (filter (bit (ucast (init_mask (rtl8366s rg reset initvals dts green) p) :: u16)) [0..<6]))"
      using rtl_vlan.get_vlan_ports_chip [OF smi s'(2)] limits_ok_s by simp
    also have "\<dots> = Inr (map (\<lambda>q. \<lparr>port_id = q, port_tagged = False\<rparr>) (filter (\<lambda>q. q = p \<or> q = 5 \<or> p = 5) [0..<6]))"
    proof -
      have "filter (bit (ucast (init_mask (rtl8366s rg reset initvals dts green) p) :: u16)) [0..<6] =
          filter (\<lambda>q. q = p \<or> q = 5 \<or> p = 5) [0..<6]"
        by (rule filter_cong) (simp_all add: mask [OF p])
      moreover have "map (\<lambda>i. \<lparr>port_id = i, port_tagged = \<not> bit (ucast (init_mask (rtl8366s rg reset initvals dts green) p) :: u16) i\<rparr>)
          (filter (\<lambda>q. q = p \<or> q = 5 \<or> p = 5) [0..<6]) =
        map (\<lambda>q. \<lparr>port_id = q, port_tagged = False\<rparr>) (filter (\<lambda>q. q = p \<or> q = 5 \<or> p = 5) [0..<6])"
        by (rule map_cong) (simp_all only: mask [OF p] set_filter set_upt mem_Collect_eq atLeastLessThan_iff simp_thms)
      ultimately show ?thesis by simp
    qed
    finally show "fst (rtl8366_sw_get_vlan_ports (rtl8366s rg reset initvals dts green) (word_of_nat (p + 1)) s') =
      Inr (map (\<lambda>q. \<lparr>port_id = q, port_tagged = False\<rparr>) (filter (\<lambda>q. q = p \<or> q = 5 \<or> p = 5) [0..<6]))" .
  qed (rule s'(1))
qed

lemma rtl_init_vlan_witness:
  "\<exists>s'. rtl8366_init_vlan (rtl8366s s_regs None [] None False) s_start = (Inr (), s') \<and>
    (\<forall>p < 6. fst (rtl8366_sw_get_port_pvid (rtl8366s s_regs None [] None False) p s') = Inr (word_of_nat (p + 1)))"
  using rtl_init_vlan [OF s_chip.rtl8366s_chip_axioms s_start_ok] by blast

text \<open>
  the ports given to a VLAN are read back, sorted by number, with their tags.
\<close>
theorem rtl_vlan_ports_roundtrip:
  assumes "rtl8366s_chip rg ok reg table" "managed (rtl8366s rg reset initvals dts green) ok s"
    and "rtl8366s_is_vlan_valid (vlan4k_enabled s) vid" "\<forall>p \<in> set ps. port_id p < 6" "distinct (map port_id ps)"
  shows "\<exists>s'. rtl8366_sw_set_vlan_ports (rtl8366s rg reset initvals dts green) vid ps s = (Inr (), s') \<and>
    fst (rtl8366_sw_get_vlan_ports (rtl8366s rg reset initvals dts green) vid s') = Inr (sort_key port_id ps)"
  using rtl_vlan.vlan_ports_roundtrip_chip [OF rtl8366s_chip.contract [OF assms(1)] assms(2)] limits_ok_s assms(3-5)
  by fastforce

lemma rtl_vlan_ports_roundtrip_witness:
  "\<exists>s'. rtl8366_sw_set_vlan_ports (rtl8366s s_regs None [] None False) 9
      [\<lparr>port_id = 5, port_tagged = True\<rparr>, \<lparr>port_id = 2, port_tagged = False\<rparr>]
      (snd (rtl8366_init_vlan (rtl8366s s_regs None [] None False) s_start)) = (Inr (), s') \<and>
    fst (rtl8366_sw_get_vlan_ports (rtl8366s s_regs None [] None False) 9 s') =
      Inr [\<lparr>port_id = 2, port_tagged = False\<rparr>, \<lparr>port_id = 5, port_tagged = True\<rparr>]"
proof -
  have "rtl8366s_is_vlan_valid k 9" for k
    by (simp add: rtl8366s_is_vlan_valid_def)
  then show ?thesis
    using rtl_vlan_ports_roundtrip [OF s_chip.rtl8366s_chip_axioms s_managed,
      of 9 "[\<lparr>port_id = 5, port_tagged = True\<rparr>, \<lparr>port_id = 2, port_tagged = False\<rparr>]"]
    by simp
qed

section \<open>Ports that have a PVID\<close>

text \<open>
  \<open>rtl8366_sw_set_vlan_ports\<close> makes a member configuration only for a port without PVID; its
  comment says that it ensures a configuration for the VLAN.
\<close>

lemma set_ports_loop_pvids:
  assumes "vlans_ok l t"
  shows "\<forall>p \<in> set ps. port_id p < l_ports l \<and> pvid t (port_id p) \<noteq> 0 \<Longrightarrow>
    snd (set_vlan_ports_loop (spec l cpu) vid ps member untag t) = t"
proof (induction ps arbitrary: member untag)
  case (Cons p ps)
  then show ?case
    using get_pvid_spec [OF assms, of "port_id p" cpu] by (simp add: Let_def dbind_def dret_def)
qed (simp add: dret_def)

lemma set_vlan_vids:
  "mc_vid (t_mc (snd (rtl8366_set_vlan (spec l cpu) vid member untag fid t)) i) = mc_vid (t_mc t i)"
  by (auto simp: rtl8366_set_vlan_def dbind_def spec_get_4k_def spec_set_4k_def find_mc_all dret_def spec_set_mc_def
      split: option.split dest: find_upt)

lemma set_vlan_ports_no_entry:
  assumes "vlans_ok l (chip s)" "\<forall>p \<in> set ps. port_id p < l_ports l \<and> pvid (chip s) (port_id p) \<noteq> 0"
  shows "mc_vid (t_mc (chip (snd (rtl8366_sw_set_vlan_ports (spec l cpu) vid ps s))) i) = mc_vid (t_mc (chip s) i)"
proof -
  obtain r where loop: "set_vlan_ports_loop (spec l cpu) vid ps 0 0 (chip s) = (r, chip s)"
    using set_ports_loop_pvids [OF assms] by (metis surjective_pairing)
  show ?thesis
  proof (cases r)
    case (Inr mu)
    obtain m u where "mu = (m, u)" by fastforce
    then show ?thesis
      using loop Inr set_vlan_vids [of l cpu vid m u 0 "chip s" i]
      by (simp add: rtl8366_sw_set_vlan_ports_def valid_then_def on_chip_def derr_def dbind_def case_prod_unfold Let_def)
  qed (use loop in \<open>simp add: rtl8366_sw_set_vlan_ports_def valid_then_def on_chip_def derr_def dbind_def\<close>)
qed

section \<open>The pins\<close>

lemma keeps_pins:
  "keeps (\<lambda>s. pins s = ps) (on_chip f)"
  "keeps (\<lambda>s. pins s = ps) (modify (vlan_enabled_update g))" "keeps (\<lambda>s. pins s = ps) (modify (vlan4k_enabled_update g))"
  "keeps (\<lambda>s. pins s = ps) (hw_reset_to smi b)"
  by (auto simp: keeps_def on_chip_def modify_def hw_reset_to_def dret_def Let_def split: prod.splits option.splits)

lemma keeps_dignore: "keeps I f \<Longrightarrow> keeps I (dignore f)"
  by (simp add: keeps_def dignore_def)

lemma keeps_pins_enable:
  "keeps (\<lambda>s. pins s = ps) (rtl8366_enable_vlan smi e)" "keeps (\<lambda>s. pins s = ps) (rtl8366_enable_vlan4k smi e)"
  unfolding rtl8366_enable_vlan_def rtl8366_enable_vlan4k_def
  by (intro keeps_dbind keeps_if keeps_dret keeps_pins)+

lemma keeps_pins_init_vlan: "keeps (\<lambda>s. pins s = ps) (rtl8366_init_vlan smi)"
  unfolding rtl8366_init_vlan_def rtl8366_reset_vlan_def
  by (intro keeps_dbind keeps_dignore keeps_pins keeps_pins_enable)

text \<open>
  the driver holds both pins when it has started and none when it has not, whatever fails on
  the way.
\<close>
theorem rtl_init_pins:
  "case rtl8366_smi_init req mii_init smi (s\<lparr>pins := []\<rparr>) of
     (Inr _, s') \<Rightarrow> pins s' = [SCK, SDA]
   | (Inl _, s') \<Rightarrow> pins s' = []"
proof -
  let ?body = "dbind (on_chip (detect (ops smi))) (\<lambda>_.
        dbind (on_chip (rtl8366_reset smi)) (\<lambda>_.
        dbind (on_chip (setup_chip (ops smi))) (\<lambda>_.
        dbind (rtl8366_init_vlan smi) (\<lambda>_.
        dbind (on_chip (rtl8366_enable_all_ports smi 1)) (\<lambda>_.
        on_chip mii_init)))))"
  have body: "pins (snd (?body t)) = [SCK, SDA]" if "pins t = [SCK, SDA]" for t
  proof -
    have "keeps (\<lambda>s. pins s = [SCK, SDA]) ?body"
      by (intro keeps_dbind keeps_pins keeps_pins_init_vlan)
    then show ?thesis using that by (simp add: keeps_def)
  qed
  have clean: "pins (snd (smi_cleanup_pins smi t)) = []" if "pins t = [SCK, SDA]" for t
  proof -
    obtain t' where t': "hw_reset_to smi True t = (Inr (), t')"
      by (cases "hw_reset smi") (auto simp: hw_reset_to_def on_chip_def modify_def dret_def)
    then have "pins t' = [SCK, SDA]"
      using keeps_pins(4) [of "[SCK, SDA]" smi True] that by (auto simp: keeps_def)
    then show ?thesis by (simp add: smi_cleanup_pins_def dbind_def t' modify_def)
  qed
  have start: "pins (snd (hw_reset_to smi False t)) = [SCK, SDA]" "\<exists>r. fst (hw_reset_to smi False t) = Inr r"
    if "pins t = [SCK, SDA]" for t
    using keeps_pins(4) [of "[SCK, SDA]" smi False] that
    by (auto simp: keeps_def hw_reset_to_def on_chip_def modify_def dret_def split: option.split)
  show ?thesis
  proof (cases "req SDA \<noteq> 0 \<or> req SCK \<noteq> 0")
    case True
    then show ?thesis by (auto simp: rtl8366_smi_init_def dbind_def smi_init_pins_def)
  next
    case False
    let ?t = "s\<lparr>pins := [SCK, SDA]\<rparr>"
    obtain u where u: "hw_reset_to smi False ?t = (Inr (), u)" "pins u = [SCK, SDA]"
      using start [of ?t] by (cases "hw_reset_to smi False ?t") auto
    have "smi_init_pins req smi (s\<lparr>pins := []\<rparr>) = (Inr (), u)"
      using False u(1) by (simp add: smi_init_pins_def)
    then have "rtl8366_smi_init req mii_init smi (s\<lparr>pins := []\<rparr>) = on_error ?body (smi_cleanup_pins smi) u"
      by (simp add: rtl8366_smi_init_def dbind_run(1))
    then show ?thesis
      using body [OF u(2)] clean by (auto simp: on_error_def split: prod.splits sum.splits)
  qed
qed

section \<open>Counters\<close>

text \<open>The bits of a counter, 16 from each of its registers, the first register lowest.\<close>

lemma read_counter_bits:
  assumes "\<And>a c. \<exists>c'. reg_read rg a c = (Inr (f a), c')"
  shows "n \<le> 4 \<Longrightarrow> \<exists>v c'. read_counter rg addr n mib c = (Inr v, c') \<and>
    (\<forall>j < 64. bit v j \<longleftrightarrow> (if j < 16 * n then bit (f (addr + word_of_nat (j div 16))) (j mod 16) else bit mib (j - 16 * n)))"
proof (induction n arbitrary: mib c)
  case (Suc n)
  obtain c1 where c1: "reg_read rg (addr + word_of_nat n) c = (Inr (f (addr + word_of_nat n)), c1)"
    using assms by blast
  let ?data = "f (addr + word_of_nat n)"
  let ?mib = "push_bit 16 mib OR ucast (?data AND 0xFFFF)"
  have low: "?data AND 0xFFFF = take_bit 16 ?data"
    by (simp add: take_bit_eq_mask mask_eq_exp_minus_1)
  have mib: "bit ?mib k \<longleftrightarrow> (if k < 16 then bit ?data k else bit mib (k - 16))" if "k < 64" for k
    using that unfolding low by (auto simp: bit_simps)
  obtain v c' where v: "read_counter rg addr n ?mib c1 = (Inr v, c')"
    "\<And>j. j < 64 \<Longrightarrow> bit v j \<longleftrightarrow> (if j < 16 * n then bit (f (addr + word_of_nat (j div 16))) (j mod 16) else bit ?mib (j - 16 * n))"
    using Suc.IH [of ?mib c1] Suc.prems by auto
  have "bit v j \<longleftrightarrow> (if j < 16 * Suc n then bit (f (addr + word_of_nat (j div 16))) (j mod 16) else bit mib (j - 16 * Suc n))"
    if j: "j < 64" for j
  proof -
    consider "j < 16 * n" | "16 * n \<le> j" "j < 16 * Suc n" | "16 * Suc n \<le> j" by linarith
    then show ?thesis
    proof cases
      case 2
      then obtain k where k: "j = 16 * n + k" "k < 16" by (metis add_less_cancel_left le_iff_add mult_Suc_right add.commute)
      then show ?thesis using v(2) [OF j] mib [of k] by simp
    next
      case 3
      then obtain k where k: "j = 16 * n + 16 + k" by (metis le_iff_add mult_Suc_right add.commute)
      then show ?thesis using v(2) [OF j] mib [of "16 + k"] j by simp
    qed (use v(2) [OF j] in simp)
  qed
  moreover have "read_counter rg addr (Suc n) mib c = (Inr v, c')"
    using v(1) by (simp add: dbind_def c1)
  ultimately show ?case by blast
qed (simp add: dret_def)

text \<open>
  The check of the port lets port 6 pass, which the chip does not have: what is read are the
  counters of the second bank, those of port 0.
\<close>

lemma counter_of_port_6:
  "counter < 29 \<Longrightarrow> counter_addr counter 6 = 0x1180 + fst (snd (rtl8366s_mib_counters ! counter))"
  "counter_addr 29 0 = 0x1180"
proof -
  have "\<forall>counter \<in> set [0..<29]. counter_addr counter 6 = 0x1180 + fst (snd (rtl8366s_mib_counters ! counter))"
    by code_simp
  then show "counter < 29 \<Longrightarrow> counter_addr counter 6 = 0x1180 + fst (snd (rtl8366s_mib_counters ! counter))" by simp
  show "counter_addr 29 0 = 0x1180" by code_simp
qed

text \<open>
  a counter that is not busy is the number whose 16-bit digits are in its registers, the first
  register lowest.
\<close>
theorem rtl_mib_counter:
  assumes "\<And>a c. \<exists>c'. reg_read rg a c = (Inr (f a), c')" "\<And>a v c. \<exists>c'. reg_write rg a v c = (Inr (), c')"
    and "f 0x11F0 AND 1 = 0" "f 0x11F0 AND 2 = 0" "port < 6" "counter < 33"
  shows "\<exists>v c'. rtl8366_get_mib_counter rg counter port c = (Inr v, c') \<and>
    (\<forall>j < 64. bit v j \<longleftrightarrow> j < 16 * snd (snd (rtl8366s_mib_counters ! counter)) \<and>
       bit (f (word_of_nat (counter_addr counter port) + word_of_nat (j div 16))) (j mod 16))"
proof -
  let ?addr = "word_of_nat (counter_addr counter port) :: u32"
  and ?n = "snd (snd (rtl8366s_mib_counters ! counter))"
  have "\<forall>counter \<in> set [0..<33]. snd (snd (rtl8366s_mib_counters ! counter)) \<le> 4" by code_simp
  then have n: "?n \<le> 4" using assms(6) by simp
  obtain c1 where c1: "reg_write rg ?addr 0 c = (Inr (), c1)" using assms(2) by blast
  obtain c2 where c2: "reg_read rg 0x11F0 c1 = (Inr (f 0x11F0), c2)" using assms(1) by blast
  obtain v c' where v: "read_counter rg ?addr ?n 0 c2 = (Inr v, c')"
    "\<And>j. j < 64 \<Longrightarrow> bit v j \<longleftrightarrow> (if j < 16 * ?n then bit (f (?addr + word_of_nat (j div 16))) (j mod 16) else bit (0 :: 64 word) (j - 16 * ?n))"
    using read_counter_bits [OF assms(1) n, of ?addr 0 c2] by auto
  have "rtl8366_get_mib_counter rg counter port c = (Inr v, c')"
    using assms(3-6) v(1) by (simp add: rtl8366_get_mib_counter_def Let_def dbind_def c1 c2)
  then show ?thesis using v(2) by (intro exI [of _ v] exI [of _ c']) simp
qed

lemma rtl_mib_counter_witness:
  "\<exists>v. fst (rtl8366_get_mib_counter \<lparr>reg_read = (\<lambda>a c. (Inr (if a = 0x11F0 then 0 else 5), c)),
      reg_write = (\<lambda>_ _ c. (Inr (), c)), reg_write_noack = (\<lambda>_ _ c. (Inr (), c))\<rparr> 20 3 ()) = Inr v \<and>
    (\<forall>j < 64. bit v j \<longleftrightarrow> bit (5 :: u32) (j mod 16))"
proof -
  let ?rg = "\<lparr>reg_read = (\<lambda>a c. (Inr (if a = 0x11F0 then 0 else 5), c)),
      reg_write = (\<lambda>_ _ c. (Inr (), c)), reg_write_noack = (\<lambda>_ _ c. (Inr (), c))\<rparr> :: unit regs"
  have len: "snd (snd (rtl8366s_mib_counters ! 20)) = 4" and addr: "counter_addr 20 3 = 0x10EC" by code_simp+
  have ne: "word_of_nat 0x10EC + word_of_nat (j div 16) \<noteq> (0x11F0 :: u32)" if "j < 64" for j
  proof -
    have "j div 16 < 4" using that by simp
    then have "unat (word_of_nat 0x10EC + word_of_nat (j div 16) :: u32) = 0x10EC + j div 16"
      by (simp add: unat_word_ariths unat_of_nat)
    then show ?thesis using \<open>j div 16 < 4\<close> by auto
  qed
  obtain v c' where v: "rtl8366_get_mib_counter ?rg 20 3 () = (Inr v, c')"
    "\<forall>j < 64. bit v j \<longleftrightarrow> j < 16 * snd (snd (rtl8366s_mib_counters ! 20)) \<and>
       bit (if word_of_nat (counter_addr 20 3) + word_of_nat (j div 16) = (0x11F0 :: u32) then 0 else 5 :: u32) (j mod 16)"
    using rtl_mib_counter [of ?rg "\<lambda>a. if a = 0x11F0 then 0 else 5" 3 20 "()"] by auto
  then show ?thesis using ne unfolding len addr by (intro exI [of _ v]) simp
qed

end
