(* ===== verification/Rtl8366s_Switch_Facts.thy ===== *)
theory Rtl8366s_Switch_Facts
  imports Rtl8366s_Switch Swconfig_Facts Rtl8366s_Facts
begin

text \<open>
  Requests of the switch configuration on the RTL8366S, from the request to the message that answers
  it: the facts about the configuration and those about the chip taken together.
\<close>

section \<open>The PVIDs that the configuration sets\<close>

lemma on_chip_flags: "vlan4k_enabled (snd (on_chip f s)) = vlan4k_enabled s"
  by (simp add: on_chip_def Let_def split: prod.split)

lemma set_pvid_s:
  assumes "rtl8366s_chip rg ok reg table" "managed (rtl8366s rg reset initvals dts green) ok s" "vid < 4096" "p < 6"
  shows "\<exists>s'. rtl8366_sw_set_port_pvid (rtl8366s rg reset initvals dts green) p vid s = (Inr (), s') \<and>
    managed (rtl8366s rg reset initvals dts green) ok s' \<and> vlan4k_enabled s' = vlan4k_enabled s \<and>
    fst (rtl8366_sw_get_port_pvid (rtl8366s rg reset initvals dts green) p s') = Inr (ucast vid) \<and>
    (\<forall>q < 6. q \<noteq> p \<longrightarrow> fst (rtl8366_sw_get_port_pvid (rtl8366s rg reset initvals dts green) q s) \<noteq> Inr 0 \<longrightarrow>
       fst (rtl8366_sw_get_port_pvid (rtl8366s rg reset initvals dts green) q s') =
       fst (rtl8366_sw_get_port_pvid (rtl8366s rg reset initvals dts green) q s))"
proof -
  let ?smi = "rtl8366s rg reset initvals dts green"
  obtain s' where s': "rtl8366_sw_set_port_pvid ?smi p vid s = (Inr (), s')" "managed ?smi ok s'"
    "rtl8366_sw_get_port_pvid ?smi p s' = (Inr (ucast vid), snd (rtl8366_sw_get_port_pvid ?smi p s'))"
    "\<forall>q < 6. q \<noteq> p \<longrightarrow> fst (rtl8366_sw_get_port_pvid ?smi q s) \<noteq> Inr 0 \<longrightarrow>
       fst (rtl8366_sw_get_port_pvid ?smi q s') = fst (rtl8366_sw_get_port_pvid ?smi q s)"
    using rtl_vlan.set_pvid_chip [OF rtl8366s_chip.contract [OF assms(1)] assms(2), of vid p] assms(3,4) by auto
  have "vlan4k_enabled s' = vlan4k_enabled s"
    using on_chip_flags [of "rtl8366_set_pvid ?smi p vid" s] s'(1) by (simp add: rtl8366_sw_set_port_pvid_def)
  moreover have "fst (rtl8366_sw_get_port_pvid ?smi p s') = Inr (ucast vid)"
    using s'(3) by (metis fst_conv)
  ultimately show ?thesis using s'(1,2,4) by blast
qed

lemma set_pvids_s:
  assumes chip: "rtl8366s_chip rg ok reg table" and vid: "vid < 4096" "vid \<noteq> 0"
    and dev: "sd_ops dev = rtl8366_ops rg junk (rtl8366s rg reset initvals dts green)" "sd_ports dev = 6"
  shows "managed (rtl8366s rg reset initvals dts green) ok s \<Longrightarrow> \<forall>p \<in> set ps. port_id p < 6 \<Longrightarrow>
    \<exists>s'. set_pvids dev vid ps s = (Inr (), s') \<and>
      managed (rtl8366s rg reset initvals dts green) ok s' \<and> vlan4k_enabled s' = vlan4k_enabled s \<and>
      (\<forall>q < 6. fst (rtl8366_sw_get_port_pvid (rtl8366s rg reset initvals dts green) q s) = Inr (ucast vid) \<or>
          (\<exists>p \<in> set ps. port_id p = q \<and> \<not> port_tagged p) \<longrightarrow>
        fst (rtl8366_sw_get_port_pvid (rtl8366s rg reset initvals dts green) q s') = Inr (ucast vid))"
proof (induction ps arbitrary: s)
  case (Cons p ps)
  let ?smi = "rtl8366s rg reset initvals dts green"
  have nz: "(Inr (ucast vid) :: int + u16) \<noteq> Inr 0"
    using vid vid_u16 [OF vid(1)] by auto
  have p6: "port_id p < 6" using Cons.prems(2) by simp
  obtain s1 where s1: "(if \<not> port_tagged p then dignore (rtl8366_sw_set_port_pvid ?smi (port_id p) vid) else dret ()) s = (Inr (), s1)"
    "managed ?smi ok s1" "vlan4k_enabled s1 = vlan4k_enabled s"
    "\<forall>q < 6. fst (rtl8366_sw_get_port_pvid ?smi q s) = Inr (ucast vid) \<or> port_id p = q \<and> \<not> port_tagged p \<longrightarrow>
        fst (rtl8366_sw_get_port_pvid ?smi q s1) = Inr (ucast vid)"
  proof (cases "port_tagged p")
    case True
    then show ?thesis using that [of s] Cons.prems(1) by (simp add: dret_def)
  next
    case False
    obtain s1 where r: "rtl8366_sw_set_port_pvid ?smi (port_id p) vid s = (Inr (), s1)" "managed ?smi ok s1"
      "vlan4k_enabled s1 = vlan4k_enabled s" "fst (rtl8366_sw_get_port_pvid ?smi (port_id p) s1) = Inr (ucast vid)"
      "\<And>q. q < 6 \<Longrightarrow> q \<noteq> port_id p \<Longrightarrow> fst (rtl8366_sw_get_port_pvid ?smi q s) \<noteq> Inr 0 \<Longrightarrow>
        fst (rtl8366_sw_get_port_pvid ?smi q s1) = fst (rtl8366_sw_get_port_pvid ?smi q s)"
      using set_pvid_s [OF chip Cons.prems(1) vid(1) p6] by blast
    have "fst (rtl8366_sw_get_port_pvid ?smi q s1) = Inr (ucast vid)"
      if "q < 6" "fst (rtl8366_sw_get_port_pvid ?smi q s) = Inr (ucast vid) \<or> port_id p = q" for q
      using that r(4) r(5) [of q] nz by (cases "q = port_id p") auto
    then show ?thesis using that [of s1] r(1-3) False by (simp add: dignore_def)
  qed
  obtain s' where s': "set_pvids dev vid ps s1 = (Inr (), s')" "managed ?smi ok s'" "vlan4k_enabled s' = vlan4k_enabled s1"
    "\<And>q. q < 6 \<Longrightarrow> fst (rtl8366_sw_get_port_pvid ?smi q s1) = Inr (ucast vid) \<or>
          (\<exists>p \<in> set ps. port_id p = q \<and> \<not> port_tagged p) \<Longrightarrow>
        fst (rtl8366_sw_get_port_pvid ?smi q s') = Inr (ucast vid)"
    using Cons.IH [OF s1(2)] Cons.prems(2) by auto
  have "set_pvids dev vid (p # ps) s = (Inr (), s')"
    using s1(1) s'(1) Cons.prems(2) dev by (simp add: dbind_def rtl8366_ops_def)
  moreover have "fst (rtl8366_sw_get_port_pvid ?smi q s') = Inr (ucast vid)"
    if "q < 6" "fst (rtl8366_sw_get_port_pvid ?smi q s) = Inr (ucast vid) \<or> (\<exists>p' \<in> set (p # ps). port_id p' = q \<and> \<not> port_tagged p')" for q
    using that s1(4) s'(4) [OF that(1)] by auto
  ultimately show ?case using s'(2,3) s1(3) by auto
qed (simp add: dret_def)


section \<open>From the request to the answer\<close>

text \<open>A registered RTL8366S.\<close>

definition rtl8366s_dev :: "'c regs \<Rightarrow> u32 \<Rightarrow> 'c rtl \<Rightarrow> 'c smi switch_dev \<Rightarrow> bool" where
  "rtl8366s_dev rg junk smi dev \<longleftrightarrow> sd_ops dev = rtl8366_ops rg junk smi \<and> sd_ports dev = 6 \<and> sd_vlans dev = 4096 \<and>
     sd_def_vlan dev = {VLAN_PORTS} \<and> sd_def_port dev = {PORT_PVID, PORT_LINK}"

text \<open>The request that gives ports to a VLAN.\<close>

definition set_ports_request :: "u32 \<Rightarrow> u32 \<Rightarrow> switch_port list \<Rightarrow> genl_info" where
  "set_ports_request switch vid ps =
     \<lparr>nl_cmd = SWITCH_CMD_SET_VLAN, nl_id = Some switch, nl_op_id = Some 0x1000, nl_op_port = None, nl_op_vlan = Some vid,
      nl_value_int = None, nl_value_str = None,
      nl_value_ports = Some (map (\<lambda>p. Some (Some (word_of_nat (port_id p)), port_tagged p)) ps), nl_value_link = None\<rparr>"

definition get_ports_request :: "u32 \<Rightarrow> u32 \<Rightarrow> genl_info" where
  "get_ports_request switch vid =
     \<lparr>nl_cmd = SWITCH_CMD_GET_VLAN, nl_id = Some switch, nl_op_id = Some 0x1000, nl_op_port = None, nl_op_vlan = Some vid,
      nl_value_int = None, nl_value_str = None, nl_value_ports = None, nl_value_link = None\<rparr>"

lemma request_sel [simp]:
  "nl_id (set_ports_request switch vid ps) = Some switch" "nl_id (get_ports_request switch vid) = Some switch"
  "nl_cmd (get_ports_request switch vid) = SWITCH_CMD_GET_VLAN"
  "nl_value_ports (set_ports_request switch vid ps) =
     Some (map (\<lambda>p. Some (Some (word_of_nat (port_id p)), port_tagged p)) ps)"
  by (simp_all add: set_ports_request_def get_ports_request_def)

lemma find_dev_cong: "map sd_id devs = map sd_id devs' \<Longrightarrow> find_dev i devs = find_dev i devs'"
proof (induction devs arbitrary: devs')
  case (Cons dev devs)
  then show ?case by (cases devs') auto
qed simp

lemma short_ports: "\<forall>p \<in> set ps. port_id p < 6 \<Longrightarrow> distinct (map port_id ps) \<Longrightarrow> length ps \<le> 6"
proof -
  assume "\<forall>p \<in> set ps. port_id p < 6" and dist: "distinct (map port_id ps)"
  then have "card (set (map port_id ps)) \<le> card {..<6::nat}" by (intro card_mono) auto
  then show ?thesis using distinct_card [OF dist] by simp
qed

lemma parse_ports_loop_map:
  "len + length ps \<le> limit \<Longrightarrow> \<forall>p \<in> set ps. port_id p < 6
   \<Longrightarrow> parse_ports_loop len limit (map (\<lambda>p. Some (Some (word_of_nat (port_id p)), port_tagged p)) ps) = Inr ps"
proof (induction ps arbitrary: len)
  case (Cons p ps)
  have "unat (word_of_nat (port_id p) :: u32) = port_id p"
    using Cons.prems(2) by (subst unat_of_nat) simp
  then show ?case using Cons by simp
qed simp

lemma lookup_ports:
  assumes "rtl8366s_dev rg junk smi dev" "vid < 4096"
  shows "swconfig_lookup_attr dev (set_ports_request switch vid ps) = Some (default_vlan dev ! 0, vid)"
    "swconfig_lookup_attr dev (get_ports_request switch vid) = Some (default_vlan dev ! 0, vid)"
  using assms
  by (simp_all add: swconfig_lookup_attr_def set_ports_request_def get_ports_request_def lookup_lists_def below_def vlan_attrs_def
      SWITCH_ATTR_DEFAULTS_OFFSET_def default_vlan_def rtl8366s_dev_def VLAN_PORTS_def)

lemma set_attr_ports:
  assumes "rtl8366s_dev rg junk smi dev" "vid < 4096" "\<forall>p \<in> set ps. port_id p < 6" "distinct (map port_id ps)"
  shows "set_attr_dev dev (set_ports_request switch vid ps) =
    Some (dbind (set_pvids dev vid ps) (\<lambda>_. rtl8366_sw_set_vlan_ports smi vid ps))"
proof -
  have len: "length ps \<le> 6" using assms(3,4) by (rule short_ports)
  have nle: "\<not> 4096 \<le> vid" using assms(2) by simp
  have "parse_ports_loop 0 6 (map (\<lambda>p. Some (Some (word_of_nat (port_id p)), port_tagged p)) ps) = Inr ps"
    using len assms(3) by (intro parse_ports_loop_map) auto
  then show ?thesis
    using assms(1,2) len nle
    by (simp add: set_attr_dev_def lookup_ports [OF assms(1,2)] default_vlan_def swconfig_parse_ports_def
        rtl8366s_dev_def swconfig_set_vlan_ports_def Let_def rtl8366_ops_def)
qed

lemma get_attr_ports:
  assumes "rtl8366s_dev rg junk smi dev" "vid < 4096"
  shows "get_attr_dev dev (get_ports_request switch vid) =
    dbind (rtl8366_sw_get_vlan_ports smi vid) (\<lambda>ports. dret (SWITCH_TYPE_PORTS, V_ports ports))"
  using assms
  by (auto simp: get_attr_dev_def lookup_ports [OF assms] default_vlan_def swconfig_get_vlan_ports_def rtl8366s_dev_def
      rtl8366_ops_def dbind_def dret_def fun_eq_iff split: prod.split sum.split)

lemma configure_ports_s:
  assumes chip: "rtl8366s_chip rg ok reg table"
    and dev: "rtl8366s_dev rg junk (rtl8366s rg reset initvals dts green) dev"
    and st: "managed (rtl8366s rg reset initvals dts green) ok c"
    and vid: "vid < 4096" "vid \<noteq> 0" "rtl8366s_is_vlan_valid (vlan4k_enabled c) vid"
    and ps: "\<forall>p \<in> set ps. port_id p < 6" "distinct (map port_id ps)"
  shows "\<exists>c2. dbind (set_pvids dev vid ps) (\<lambda>_. rtl8366_sw_set_vlan_ports (rtl8366s rg reset initvals dts green) vid ps) c = (Inr (), c2) \<and>
    fst (rtl8366_sw_get_vlan_ports (rtl8366s rg reset initvals dts green) vid c2) = Inr (sort_key port_id ps) \<and>
    (\<forall>p \<in> set ps. \<not> port_tagged p \<longrightarrow>
       fst (rtl8366_sw_get_port_pvid (rtl8366s rg reset initvals dts green) (port_id p) c2) = Inr (ucast vid))"
proof -
  let ?smi = "rtl8366s rg reset initvals dts green"
  have opsdev: "sd_ops dev = rtl8366_ops rg junk ?smi" "sd_ports dev = 6" using dev by (auto simp: rtl8366s_dev_def)
  obtain c1 where c1: "set_pvids dev vid ps c = (Inr (), c1)" "managed ?smi ok c1" "vlan4k_enabled c1 = vlan4k_enabled c"
    "\<And>p. p \<in> set ps \<Longrightarrow> \<not> port_tagged p \<Longrightarrow> fst (rtl8366_sw_get_port_pvid ?smi (port_id p) c1) = Inr (ucast vid)"
    using set_pvids_s [OF chip vid(1,2) opsdev st ps(1)] ps(1) by blast
  obtain c2 where c2: "rtl8366_sw_set_vlan_ports ?smi vid ps c1 = (Inr (), c2)"
    "fst (rtl8366_sw_get_vlan_ports ?smi vid c2) = Inr (sort_key port_id ps)"
    "\<forall>q < 6. fst (rtl8366_sw_get_port_pvid ?smi q c1) \<noteq> Inr 0 \<longrightarrow>
       fst (rtl8366_sw_get_port_pvid ?smi q c2) = fst (rtl8366_sw_get_port_pvid ?smi q c1)"
    using rtl_vlan.vlan_ports_roundtrip_chip [OF rtl8366s_chip.contract [OF chip] c1(2), of vid ps] limits_ok_s c1(3) vid ps by auto
  have "fst (rtl8366_sw_get_port_pvid ?smi (port_id p) c2) = Inr (ucast vid)" if "p \<in> set ps" "\<not> port_tagged p" for p
    using c1(4) [OF that] c2(3) ps(1) that(1) vid(2) vid_u16 [OF vid(1)] by auto
  then show ?thesis using c1(1) c2(1,2) by (simp add: dbind_def)
qed

text \<open>The request for the ports of a VLAN is answered with what the driver reads.\<close>

lemma get_ports_answer:
  assumes k: "find_dev switch (swdevs s) = Some k" and dev: "rtl8366s_dev rg junk smi (swdevs s ! k)" and vid: "vid < 4096"
    and read: "rtl8366_sw_get_vlan_ports smi vid (sd_state (swdevs s ! k)) = (Inr ps, c)" "length ps \<le> 6"
    and env: "120 \<le> ne_room env" "ne_alloc env (next_buf n)" "ne_reply env (next_buf n) = 0" "bufs n (next_buf n) = None"
  shows "swconfig_get_attr env (get_ports_request switch vid) s n =
    Some (0, s\<lparr>swdevs := (swdevs s)[k := (swdevs s ! k)\<lparr>sd_state := c\<rparr>]\<rparr>,
      n\<lparr>next_buf := next_buf n + 1, sent := sent n @ [ports_message SWITCH_CMD_GET_VLAN ps]\<rparr>)"
proof -
  let ?s2 = "s\<lparr>swdevs := (swdevs s)[k := (swdevs s ! k)\<lparr>sd_state := c\<rparr>]\<rparr>"
  have less: "k < length (swdevs s)" using find_dev_Some [OF k] by simp
  have call: "call_driver k (get_attr_dev (swdevs s ! k) (get_ports_request switch vid)) s = (Inr (SWITCH_TYPE_PORTS, V_ports ps), ?s2)"
    using read(1) by (simp add: call_driver_def get_attr_ports [OF dev vid] dbind_def dret_def)
  have "send_answer env (swdevs ?s2 ! k) SWITCH_CMD_GET_VLAN SWITCH_TYPE_PORTS (V_ports ps) n =
      Some (0, n\<lparr>next_buf := next_buf n + 1, sent := sent n @ [ports_message SWITCH_CMD_GET_VLAN ps]\<rparr>)"
    using env less dev read(2) by (intro send_ports_answer) (auto simp: rtl8366s_dev_def)
  then show ?thesis
    using call k by (simp add: swconfig_get_attr_def swconfig_get_dev_def)
qed

text \<open>
  C2: Ports given to a VLAN of an RTL8366S through the switch configuration are read back through it:
  the request succeeds, the next request for the ports of this VLAN is answered by one message with
  these ports and their tags, sorted by number, and each port that was given untagged has the VLAN
  as its PVID.  The VLAN is one the chip has in its present mode, the ports exist and are listed
  once, and there is memory and room for the answer.
\<close>

theorem sw_rtl_vlan_ports:
  assumes chip: "rtl8366s_chip rg ok reg table"
    and k: "find_dev switch (swdevs s) = Some k"
    and dev: "rtl8366s_dev rg junk (rtl8366s rg reset initvals dts green) (swdevs s ! k)"
    and st: "managed (rtl8366s rg reset initvals dts green) ok (sd_state (swdevs s ! k))"
    and vid: "rtl8366s_is_vlan_valid (vlan4k_enabled (sd_state (swdevs s ! k))) vid"
    and ps: "\<forall>p \<in> set ps. port_id p < 6" "distinct (map port_id ps)"
    and env: "120 \<le> ne_room env" "ne_alloc env (next_buf n)" "ne_reply env (next_buf n) = 0" "bufs n (next_buf n) = None"
  shows "\<exists>s1 s2 n2. swconfig_set_attr True (set_ports_request switch vid ps) s = Some (Inr (), s1) \<and>
    swconfig_get_attr env (get_ports_request switch vid) s1 n = Some (0, s2, n2) \<and>
    sent n2 = sent n @ [ports_message SWITCH_CMD_GET_VLAN (sort_key port_id ps)] \<and> bufs n2 = bufs n \<and>
    (\<forall>p \<in> set ps. \<not> port_tagged p \<longrightarrow>
       fst (rtl8366_sw_get_port_pvid (rtl8366s rg reset initvals dts green) (port_id p) (sd_state (swdevs s1 ! k))) = Inr (ucast vid))"
proof -
  let ?smi = "rtl8366s rg reset initvals dts green" and ?dev = "swdevs s ! k"
  have less: "k < length (swdevs s)" and i: "sd_id ?dev = switch" using find_dev_Some [OF k] by auto
  have v: "vid < 4096" "vid \<noteq> 0"
    using spec_valid_vid [OF limits_ok_s, of "vlan4k_enabled (sd_state ?dev)" vid] vid valid_s by simp_all
  obtain c2 where c2: "dbind (set_pvids ?dev vid ps) (\<lambda>_. rtl8366_sw_set_vlan_ports ?smi vid ps) (sd_state ?dev) = (Inr (), c2)"
    "fst (rtl8366_sw_get_vlan_ports ?smi vid c2) = Inr (sort_key port_id ps)"
    "\<forall>p \<in> set ps. \<not> port_tagged p \<longrightarrow> fst (rtl8366_sw_get_port_pvid ?smi (port_id p) c2) = Inr (ucast vid)"
    using configure_ports_s [OF chip dev st v vid ps] by blast
  let ?dev1 = "?dev\<lparr>sd_state := c2\<rparr>" and ?s1 = "s\<lparr>swdevs := (swdevs s)[k := (swdevs s ! k)\<lparr>sd_state := c2\<rparr>]\<rparr>"
  have set: "swconfig_set_attr True (set_ports_request switch vid ps) s = Some (Inr (), ?s1)"
    using set_attr_ports [OF dev v(1) ps, of switch] k c2(1)
    by (simp add: swconfig_set_attr_def swconfig_get_dev_def call_driver_def)
  obtain c3 where c3: "rtl8366_sw_get_vlan_ports ?smi vid c2 = (Inr (sort_key port_id ps), c3)"
    using c2(2) by (metis surjective_pairing)
  have dev1: "rtl8366s_dev rg junk ?smi ?dev1" using dev by (simp add: rtl8366s_dev_def)
  have nth: "swdevs ?s1 ! k = ?dev1" using less by simp
  let ?s2 = "?s1\<lparr>swdevs := (swdevs ?s1)[k := (swdevs ?s1 ! k)\<lparr>sd_state := c3\<rparr>]\<rparr>"
  have "map sd_id (swdevs ?s1) = map sd_id (swdevs s)" by (simp add: map_update_same)
  then have found: "find_dev switch (swdevs ?s1) = Some k" using find_dev_cong k by metis
  have "length ps \<le> 6" using ps by (rule short_ports)
  then have get: "swconfig_get_attr env (get_ports_request switch vid) ?s1 n =
      Some (0, ?s2, n\<lparr>next_buf := next_buf n + 1, sent := sent n @ [ports_message SWITCH_CMD_GET_VLAN (sort_key port_id ps)]\<rparr>)"
    using c3 nth dev1 by (intro get_ports_answer [OF found _ v(1)]) (simp_all add: env)
  show ?thesis
    using set get nth c2(3) by (intro exI [of _ ?s1] exI [of _ ?s2]) auto
qed


text \<open>The first switch of the system, after its VLANs were set up.\<close>

definition s_smi :: "s_chip rtl" where "s_smi = rtl8366s s_regs None [] None False"

definition s_state :: "s_chip smi" where "s_state = snd (rtl8366_init_vlan s_smi s_start)"

definition s_dev :: "s_chip smi switch_dev" where
  "s_dev = (rtl8366s_switch s_regs 0 s_smi ''rtl8366s'' s_state)
     \<lparr>sd_id := 1, sd_devname := ''switch0'', sd_portmap := replicate 6 (None, 0), sd_def_global := {GLOBAL_APPLY, GLOBAL_RESET},
      sd_def_port := {PORT_PVID, PORT_LINK}, sd_def_vlan := {VLAN_PORTS}\<rparr>"

lemma s_switch_init:
  "rtl8366s_switch_init long_env s_regs 0 s_smi ''rtl8366s'' s_state swconfig_init = Some (Inr (), \<lparr>swdevs = [s_dev], swdev_id = 1\<rparr>)"
proof -
  have "show_nat 0 = ''0''" by code_simp
  moreover have "swconfig_find_attr_by_name (rtl8366s_port s_regs s_smi) ''link'' = None"
    by (simp add: swconfig_find_attr_by_name_def rtl8366s_port_def noval_attr_def string_attr_def int_attr_def)
  ultimately show ?thesis
    by (simp add: rtl8366s_switch_init_def register_switch_def long_env_def swconfig_init_def find_first_zero_bit_def upt_rec
        of_switch_load_portmap_def Let_def s_dev_def swconfig_defaults_init_def rtl8366s_switch_def rtl8366_ops_def insert_commute)
qed

lemma sw_rtl_vlan_ports_witness:
  "\<exists>s1 s2 n2. swconfig_set_attr True
      (set_ports_request 1 9 [\<lparr>port_id = 5, port_tagged = True\<rparr>, \<lparr>port_id = 2, port_tagged = False\<rparr>])
      \<lparr>swdevs = [s_dev], swdev_id = 1\<rparr> = Some (Inr (), s1) \<and>
    swconfig_get_attr (small_env\<lparr>ne_room := 200\<rparr>) (get_ports_request 1 9) s1 plain_net = Some (0, s2, n2) \<and>
    sent n2 = [ports_message SWITCH_CMD_GET_VLAN [\<lparr>port_id = 2, port_tagged = False\<rparr>, \<lparr>port_id = 5, port_tagged = True\<rparr>]]"
proof -
  let ?s = "\<lparr>swdevs = [s_dev], swdev_id = 1\<rparr>"
  have "rtl8366s_dev s_regs 0 (rtl8366s s_regs None [] None False) (swdevs ?s ! 0)"
    by (simp add: rtl8366s_dev_def s_dev_def rtl8366s_switch_def s_smi_def)
  moreover have "managed (rtl8366s s_regs None [] None False) s_ok (sd_state (swdevs ?s ! 0))"
    using s_managed by (simp add: s_dev_def rtl8366s_switch_def s_state_def s_smi_def)
  moreover have "rtl8366s_is_vlan_valid (vlan4k_enabled (sd_state (swdevs ?s ! 0))) 9"
    by (simp add: rtl8366s_is_vlan_valid_def)
  moreover have "find_dev 1 (swdevs ?s) = Some 0"
    by (simp add: s_dev_def)
  ultimately show ?thesis
    using sw_rtl_vlan_ports [OF s_chip.rtl8366s_chip_axioms, of 1 ?s 0 0 None "[]" None False 9
      "[\<lparr>port_id = 5, port_tagged = True\<rparr>, \<lparr>port_id = 2, port_tagged = False\<rparr>]" "small_env\<lparr>ne_room := 200\<rparr>" plain_net]
    by (auto simp: small_env_def plain_net_def)
qed

section \<open>A VLAN the chip refuses\<close>

text \<open>
  The PVIDs are set before the driver is asked: when the VLAN is not one the chip has in its present
  mode, the request fails, and the untagged ports have it as their PVID nevertheless.
\<close>

lemma refused_vlan_sets_pvids:
  assumes chip: "rtl8366s_chip rg ok reg table"
    and dev: "rtl8366s_dev rg junk (rtl8366s rg reset initvals dts green) dev"
    and st: "managed (rtl8366s rg reset initvals dts green) ok c"
    and vid: "vid < 4096" "vid \<noteq> 0" "\<not> rtl8366s_is_vlan_valid (vlan4k_enabled c) vid"
    and ps: "\<forall>p \<in> set ps. port_id p < 6" "distinct (map port_id ps)"
  shows "\<exists>f c2. set_attr_dev dev (set_ports_request switch vid ps) = Some f \<and> f c = (Inl EINVAL, c2) \<and>
    (\<forall>p \<in> set ps. \<not> port_tagged p \<longrightarrow>
       fst (rtl8366_sw_get_port_pvid (rtl8366s rg reset initvals dts green) (port_id p) c2) = Inr (ucast vid))"
proof -
  let ?smi = "rtl8366s rg reset initvals dts green"
  have opsdev: "sd_ops dev = rtl8366_ops rg junk ?smi" "sd_ports dev = 6" using dev by (auto simp: rtl8366s_dev_def)
  obtain c1 where c1: "set_pvids dev vid ps c = (Inr (), c1)" "vlan4k_enabled c1 = vlan4k_enabled c"
    "\<And>p. p \<in> set ps \<Longrightarrow> \<not> port_tagged p \<Longrightarrow> fst (rtl8366_sw_get_port_pvid ?smi (port_id p) c1) = Inr (ucast vid)"
    using set_pvids_s [OF chip vid(1,2) opsdev st ps(1)] ps(1) by blast
  have "rtl8366_sw_set_vlan_ports ?smi vid ps c1 = (Inl EINVAL, c1)"
    using vid(3) c1(2) by (simp add: rtl8366_sw_set_vlan_ports_def valid_then_def derr_def)
  then show ?thesis
    using set_attr_ports [OF dev vid(1) ps, of switch] c1 by (auto simp: dbind_def)
qed

end
