(* ===== verification/Swconfig_Cli_Facts.thy ===== *)
theory Swconfig_Cli_Facts
  imports Swconfig_Kernel Swconfig_Cli Rtl8366s_Switch_Facts
begin

text \<open>
  What \<open>swconfig\<close> does to a switch: messages are parsed into what was put into them, the lists of
  attributes a process has are those of the kernel and its requests find them, ports are read from the
  text they are printed as, and a setting made on the command line reaches the chip and is shown by
  the next command.
\<close>

section \<open>Messages\<close>

text \<open>The parts of an attribute; a message is parsed into the attributes that were put into it.\<close>

fun nla_parts :: "nla \<Rightarrow> skb" where
  "nla_parts (N_u32 a v) = [Put_u32 a v]"
| "nla_parts (N_string a s) = [Put_string a s]"
| "nla_parts (N_flag a) = [Put_flag a]"
| "nla_parts (N_type a t) = [Put_type a t]"
| "nla_parts (N_nest a as) = Nest_start a # concat (map nla_parts as) @ [Nest_end]"

definition nlas_parts :: "nla list \<Rightarrow> skb" where
  "nlas_parts as = concat (map nla_parts as)"

lemma nlas_parts_simps [simp]: "nlas_parts [] = []" "nlas_parts (x # xs) = nla_parts x @ nlas_parts xs"
  "nlas_parts (xs @ ys) = nlas_parts xs @ nlas_parts ys"
  by (simp_all add: nlas_parts_def)

lemma nlmsg_attrs_parts:
  "nlmsg_attrs multi st as (nla_parts x @ rest) = nlmsg_attrs multi st (as @ [x]) rest"
proof (induction x arbitrary: st as rest)
  case (N_nest a xs)
  have "nlmsg_attrs multi st' bs (concat (map nla_parts ys) @ rest') = nlmsg_attrs multi st' (bs @ ys) rest'"
    if "set ys \<subseteq> set xs" for st' bs ys rest'
    using that
  proof (induction ys arbitrary: bs)
    case (Cons y ys)
    then show ?case using N_nest.IH [of y st' bs "concat (map nla_parts ys) @ rest'"] by simp
  qed simp
  then show ?case by simp
qed simp_all

lemma nlmsg_attrs_list:
  "nlmsg_attrs multi st as (nlas_parts xs @ rest) = nlmsg_attrs multi st (as @ xs) rest"
  by (induction xs arbitrary: as) (simp_all add: nlmsg_attrs_parts)

lemma nlmsgs_whole: "nlmsgs (whole cmd multi (nlas_parts as) @ rest) = map_option (Cons (multi, as)) (nlmsgs rest)"
  by (simp add: whole_def nlmsg_attrs_list)

lemma nlmsgs_junk: "skb_len junk < 20 \<Longrightarrow> nlmsgs junk = Some []"
  by (cases junk) (auto split: part.split)

section \<open>The attributes of a switch\<close>

definition attr_nlas :: "nat \<times> 'c switch_attr \<Rightarrow> nla list" where
  "attr_nlas x =
     [N_u32 SWITCH_ATTR_OP_ID (word_of_nat (fst x)), N_type SWITCH_ATTR_OP_TYPE (at_type (snd x)),
      N_string SWITCH_ATTR_OP_NAME (at_name (snd x))] @
     (case at_description (snd x) of None \<Rightarrow> [] | Some d \<Rightarrow> [N_string SWITCH_ATTR_OP_DESCRIPTION d])"

lemma attr_message_nlas: "attr_message x = whole SWITCH_CMD_NEW_ATTR True (nlas_parts (attr_nlas x))"
  by (simp add: attr_message_def attr_parts_def attr_nlas_def split: option.split)

lemma nlmsgs_attrs: "skb_len junk < 20 \<Longrightarrow> nlmsgs (attr_messages xs @ junk) = Some (map (\<lambda>x. (True, attr_nlas x)) xs)"
  by (induction xs) (simp_all add: attr_messages_def attr_message_nlas nlmsgs_whole nlmsgs_junk)

text \<open>An attribute of the kernel as the process has it.\<close>

definition user_attr :: "swlib_attr_group \<Rightarrow> nat \<times> 'c switch_attr \<Rightarrow> swl_attr" where
  "user_attr g x = \<lparr>ua_atype = g, ua_id = word_of_nat (fst x), ua_type = at_type (snd x),
     ua_name = Some (at_name (snd x)), ua_description = at_description (snd x)\<rparr>"

lemma add_attr_nlas: "add_attr g (attr_nlas x) l = Some (l @ [user_attr g x])"
  by (cases "at_description (snd x)") (simp_all add: add_attr_def attr_nlas_def nla_parse_def user_attr_def)

lemma deliver_attrs:
  "deliver (add_attr g) (map (\<lambda>x. (True, attr_nlas x)) xs) multi l = Some (multi \<or> xs \<noteq> [], l @ map (user_attr g) xs)"
  by (induction xs arbitrary: multi l) (simp_all add: add_attr_nlas)

lemma recv_attrs:
  "list_all2 (sent_as room) chunks msgs
   \<Longrightarrow> \<exists>ret. nl_recvmsgs (add_attr g) msgs err multi l = Some (ret, l @ map (user_attr g) (concat chunks))"
proof (induction chunks msgs arbitrary: multi l rule: list_all2_induct)
  case (Cons c cs m ms)
  obtain junk where "m = attr_messages c @ junk" "skb_len junk < 20" "c \<noteq> []"
    using Cons.hyps(1) by (auto simp: sent_as_def)
  then show ?case
    using Cons.IH [of True "l @ map (user_attr g) c"] by (simp add: nlmsgs_attrs deliver_attrs)
qed simp

section \<open>Requests\<close>

lemma nla_put_all_fit: "2 * (skb_len msg + skb_len ps) \<le> nm_size \<Longrightarrow> nla_put_all ps msg = Some (msg @ ps)"
proof (induction ps arbitrary: msg)
  case (Cons p ps)
  then have "nla_reserve p msg = Some (msg @ [p])" by (simp add: nla_reserve_def)
  then show ?case using Cons by simp
qed simp

text \<open>A request with attributes that fit.\<close>

lemma swlib_call_fit:
  assumes "sw_handle s" "40 + 2 * skb_len (nlas_parts as) \<le> nm_size"
  shows "swlib_call kern cmd call (Some (nlas_parts as)) v s = do {
      (err, bs, k) \<leftarrow> k_doit kern cmd as (sw_kernel s);
      (ret, v) \<leftarrow> nl_recvmsgs call bs err False v;
      Some (ret, v, s\<lparr>sw_kernel := k\<rparr>)
    }"
proof -
  have put: "nla_put_all (nlas_parts as) [Genl_put cmd False] = Some (Genl_put cmd False # nlas_parts as)"
    using assms(2) by (subst nla_put_all_fit) simp_all
  have "nlmsgs (Genl_put cmd False # nlas_parts as @ [Genl_end]) = Some [(False, as)]"
    using nlmsgs_whole [of cmd False as "[]"] by (simp add: whole_def)
  then show ?thesis using assms(1) put by (simp add: swlib_call_def)
qed

definition id_nlas :: "swl_dev \<Rightarrow> swl_attr \<Rightarrow> int \<Rightarrow> nla list" where
  "id_nlas dev a n = [N_u32 SWITCH_ATTR_ID (ud_id dev), N_u32 SWITCH_ATTR_OP_ID (ua_id a)] @
     (case ua_atype a of
        SWLIB_ATTR_GROUP_PORT \<Rightarrow> [N_u32 SWITCH_ATTR_OP_PORT (word_of_int n)]
      | SWLIB_ATTR_GROUP_VLAN \<Rightarrow> [N_u32 SWITCH_ATTR_OP_VLAN (word_of_int n)]
      | _ \<Rightarrow> [])"

lemma send_attr_nlas: "send_attr dev a n = nlas_parts (id_nlas dev a n)"
  by (simp add: send_attr_def id_nlas_def split: swlib_attr_group.split)

lemma id_nlas_len: "skb_len (nlas_parts (id_nlas dev a n)) \<le> 24"
  by (simp add: id_nlas_def split: swlib_attr_group.split)

section \<open>The lists of a process\<close>

definition group_attrs :: "'c switch_dev \<Rightarrow> swlib_attr_group \<Rightarrow> 'c switch_attr list \<times> 'c switch_attr list \<times> nat set" where
  "group_attrs kdev g = (case g of SWLIB_ATTR_GROUP_GLOBAL \<Rightarrow> global_attrs kdev | SWLIB_ATTR_GROUP_VLAN \<Rightarrow> vlan_attrs kdev
     | SWLIB_ATTR_GROUP_PORT \<Rightarrow> port_attrs_of kdev)"

definition list_cmd :: "swlib_attr_group \<Rightarrow> switch_cmd" where
  "list_cmd g = (case g of SWLIB_ATTR_GROUP_GLOBAL \<Rightarrow> SWITCH_CMD_LIST_GLOBAL | SWLIB_ATTR_GROUP_PORT \<Rightarrow> SWITCH_CMD_LIST_PORT
     | SWLIB_ATTR_GROUP_VLAN \<Rightarrow> SWITCH_CMD_LIST_VLAN)"

text \<open>The messages of the attributes of a device fit into a buffer each.\<close>

definition lists_fit :: "net_env \<Rightarrow> 'c switch_dev \<Rightarrow> bool" where
  "lists_fit env kdev \<longleftrightarrow> (\<forall>g. \<forall>x \<in> set (listed_attrs (group_attrs kdev g)). skb_len (attr_message x) \<le> ne_room env)"

text \<open>The kernel between two requests.\<close>

definition kernel_ok :: "net_env \<Rightarrow> net \<Rightarrow> bool" where
  "kernel_ok env n \<longleftrightarrow> (\<forall>b. ne_alloc env b \<and> ne_reply env b = 0) \<and> fresh_above (bufs n) n"

lemma list_attrs_kernel:
  assumes "sw_handle p" "sw_kernel p = (s, n)" "find_dev (ud_id dev) (swdevs s) = Some k"
    "kernel_ok env n" "lists_fit env (swdevs s ! k)"
  shows "\<exists>n'. list_attrs (switch_kern env admin) dev (list_cmd g) g p =
      Some (map (user_attr g) (listed_attrs (group_attrs (swdevs s ! k) g)), p\<lparr>sw_kernel := (s, n')\<rparr>) \<and> kernel_ok env n'"
proof -
  let ?l = "group_attrs (swdevs s ! k) g" and ?as = "[N_u32 SWITCH_ATTR_ID (ud_id dev)]"
  let ?info = "genl_request (list_cmd g) ?as"
  have info: "swconfig_get_dev s ?info = Some k" "list_lists (swdevs s ! k) (nl_cmd ?info) = Some ?l"
    using assms(3)
    by (simp_all add: genl_request_def swconfig_get_dev_def u32_attr_def nla_parse_def list_lists_def list_cmd_def group_attrs_def
        split: swlib_attr_group.split)
  have fit: "\<forall>x \<in> set (listed_attrs ?l). skb_len (attr_message x) \<le> ne_room env" "fresh_above (bufs n) n"
    using assms(4,5) by (auto simp: lists_fit_def kernel_ok_def)
  obtain err n' chunks msgs ws where run: "swconfig_list_attrs env ?info s n = Some (err, n')" "bufs n' = bufs n"
    "fresh_above (bufs n) n'" "sent n' = sent n @ msgs" "list_all2 (sent_as (ne_room env)) chunks msgs"
    "listed_attrs ?l = concat chunks @ ws" "err \<ge> 0 \<longrightarrow> ws = []" "\<not> troubled env \<longrightarrow> err \<ge> 0"
    using list_attrs_run [OF info fit] by (elim exE conjE) (rule that)
  have "\<not> troubled env" using assms(4) by (simp add: troubled_def kernel_ok_def)
  then have whole: "listed_attrs ?l = concat chunks" using run(6-8) by simp
  obtain ret where ret: "nl_recvmsgs (add_attr g) msgs err False [] = Some (ret, map (user_attr g) (concat chunks))"
    using recv_attrs [OF run(5), of g err False "[]"] by auto
  have "k_doit (switch_kern env admin) (list_cmd g) ?as (s, n) = Some (err, msgs, (s, n'))"
    using run(1,4)
    by (cases g) (simp_all add: switch_kern_def swconfig_doit_def list_cmd_def new_messages_def)
  then have "list_attrs (switch_kern env admin) dev (list_cmd g) g p =
      Some (map (user_attr g) (listed_attrs ?l), p\<lparr>sw_kernel := (s, n')\<rparr>)"
    using swlib_call_fit [OF assms(1), of ?as "switch_kern env admin" "list_cmd g" "add_attr g" "[]"] assms(2) ret whole
    by (simp add: list_attrs_def add_id_def nm_size_def)
  then show ?thesis using assms(4) run(2,3) by (auto simp: kernel_ok_def)
qed

text \<open>The device with the lists of the kernel.\<close>

definition scanned :: "swl_dev \<Rightarrow> 'c switch_dev \<Rightarrow> swl_dev" where
  "scanned dev kdev = dev\<lparr>ud_ops := map (user_attr SWLIB_ATTR_GROUP_GLOBAL) (listed_attrs (global_attrs kdev)),
     ud_port_ops := map (user_attr SWLIB_ATTR_GROUP_PORT) (listed_attrs (port_attrs_of kdev)),
     ud_vlan_ops := map (user_attr SWLIB_ATTR_GROUP_VLAN) (listed_attrs (vlan_attrs kdev))\<rparr>"

lemma scan_kernel:
  assumes "sw_handle p" "sw_kernel p = (s, n)" "find_dev (ud_id dev) (swdevs s) = Some k"
    "kernel_ok env n" "lists_fit env (swdevs s ! k)" "ud_ops dev = []" "ud_port_ops dev = []" "ud_vlan_ops dev = []"
  shows "\<exists>n'. swlib_scan (switch_kern env admin) dev p = Some (scanned dev (swdevs s ! k), p\<lparr>sw_kernel := (s, n')\<rparr>) \<and>
    kernel_ok env n'"
proof -
  let ?l = "\<lambda>g. map (user_attr g) (listed_attrs (group_attrs (swdevs s ! k) g))"
  obtain n1 where n1: "list_attrs (switch_kern env admin) dev SWITCH_CMD_LIST_GLOBAL SWLIB_ATTR_GROUP_GLOBAL p =
      Some (?l SWLIB_ATTR_GROUP_GLOBAL, p\<lparr>sw_kernel := (s, n1)\<rparr>)" "kernel_ok env n1"
    using list_attrs_kernel [OF assms(1-5), of admin SWLIB_ATTR_GROUP_GLOBAL] by (auto simp: list_cmd_def)
  let ?dev1 = "dev\<lparr>ud_ops := ?l SWLIB_ATTR_GROUP_GLOBAL\<rparr>"
  obtain n2 where n2: "list_attrs (switch_kern env admin) ?dev1 SWITCH_CMD_LIST_PORT SWLIB_ATTR_GROUP_PORT (p\<lparr>sw_kernel := (s, n1)\<rparr>) =
      Some (?l SWLIB_ATTR_GROUP_PORT, p\<lparr>sw_kernel := (s, n2)\<rparr>)" "kernel_ok env n2"
    using list_attrs_kernel [of "p\<lparr>sw_kernel := (s, n1)\<rparr>" s n1 ?dev1 k env admin SWLIB_ATTR_GROUP_PORT] assms n1(2)
    by (auto simp: list_cmd_def)
  let ?dev2 = "?dev1\<lparr>ud_port_ops := ?l SWLIB_ATTR_GROUP_PORT\<rparr>"
  obtain n3 where n3: "list_attrs (switch_kern env admin) ?dev2 SWITCH_CMD_LIST_VLAN SWLIB_ATTR_GROUP_VLAN (p\<lparr>sw_kernel := (s, n2)\<rparr>) =
      Some (?l SWLIB_ATTR_GROUP_VLAN, p\<lparr>sw_kernel := (s, n3)\<rparr>)" "kernel_ok env n3"
    using list_attrs_kernel [of "p\<lparr>sw_kernel := (s, n2)\<rparr>" s n2 ?dev2 k env admin SWLIB_ATTR_GROUP_VLAN] assms n2(2)
    by (auto simp: list_cmd_def)
  show ?thesis
    using n1 n2 n3 assms(6-8)
    by (intro exI [of _ n3]) (simp add: swlib_scan_def Let_def scanned_def group_attrs_def)
qed

section \<open>What a request is about\<close>

definition number_ok :: "'c switch_dev \<Rightarrow> swlib_attr_group \<Rightarrow> int \<Rightarrow> bool" where
  "number_ok kdev g num \<longleftrightarrow> (case g of SWLIB_ATTR_GROUP_GLOBAL \<Rightarrow> True
     | SWLIB_ATTR_GROUP_PORT \<Rightarrow> 0 \<le> num \<and> num < uint (sd_ports kdev)
     | SWLIB_ATTR_GROUP_VLAN \<Rightarrow> 0 \<le> num \<and> num < uint (sd_vlans kdev))"

definition number_of :: "swlib_attr_group \<Rightarrow> int \<Rightarrow> u32" where
  "number_of g num = (if g = SWLIB_ATTR_GROUP_GLOBAL then 0 else word_of_int num)"

lemma below_num: "0 \<le> num \<Longrightarrow> num < uint limit \<Longrightarrow> below (Some (word_of_int num)) limit = Some (word_of_int num)"
  for limit :: u32
proof -
  assume num: "0 \<le> num" "num < uint limit"
  have "uint limit < 2 ^ LENGTH(32)" by (rule unsigned_less)
  then have "num < 2 ^ 32" using num(2) by simp
  then have "uint (word_of_int num :: u32) = num" using num(1) by (simp add: uint_word_of_int)
  then show ?thesis using num(2) by (simp add: below_def word_le_def)
qed

lemma default_enabled: "d \<in> set (fst (snd (group_attrs kdev g))) \<Longrightarrow> \<not> at_disabled d"
  by (cases g) (auto simp: group_attrs_def global_attrs_def vlan_attrs_def port_attrs_of_def default_global_def default_vlan_def
      default_port_def)

lemma default_few: "length (fst (snd (group_attrs kdev g))) \<le> 2"
  by (cases g) (auto simp: group_attrs_def global_attrs_def vlan_attrs_def port_attrs_of_def default_global_def default_vlan_def
      default_port_def)

lemma unat_low: "i < 0x1000 \<Longrightarrow> unat (word_of_nat i :: u32) = i \<and> (word_of_nat i :: u32) < 0x1000"
  by (simp add: word_less_nat_alt unat_of_nat)

text \<open>An attribute that was listed is found by its number.\<close>

lemma lookup_listed:
  assumes "x \<in> set (listed_attrs (group_attrs kdev g))" "length (fst (group_attrs kdev g)) \<le> 0x1000"
    "nl_op_id info = Some (word_of_nat (fst x))" "lookup_lists kdev info = Some (group_attrs kdev g, num)"
  shows "swconfig_lookup_attr kdev info = Some (snd x, num)"
proof -
  obtain alist defs act where l: "group_attrs kdev g = (alist, defs, act)" by (cases "group_attrs kdev g") auto
  from assms(1) consider
      i where "x = (i, alist ! i)" "i < length alist" "\<not> at_disabled (alist ! i)"
    | i where "x = (0x1000 + i, defs ! i)" "i < length defs" "i \<in> act"
    by (auto simp: listed_attrs_def l)
  then show ?thesis
  proof cases
    case (1 i)
    then have "i < 0x1000" using assms(2) l by simp
    then show ?thesis
      using assms(3,4) 1 l unat_low [of i]
      by (simp add: swconfig_lookup_attr_def SWITCH_ATTR_DEFAULTS_OFFSET_def not_le [symmetric])
  next
    case (2 i)
    have "i < 2" using 2(2) default_few [of kdev g] l by simp
    then have "unat ((0x1000 + word_of_nat i) - 0x1000 :: u32) = i" "(0x1000 :: u32) \<le> 0x1000 + word_of_nat i"
      by (auto simp: less_2_cases_iff)
    moreover have "\<not> at_disabled (defs ! i)" using default_enabled [of "defs ! i" kdev g] l 2(2) by simp
    ultimately show ?thesis
      using assms(3,4) 2 l by (simp add: swconfig_lookup_attr_def SWITCH_ATTR_DEFAULTS_OFFSET_def)
  qed
qed

text \<open>The attributes that carry a value.\<close>

definition value_nla :: "nla \<Rightarrow> bool" where
  "value_nla x \<longleftrightarrow> nla_type x \<in> {SWITCH_ATTR_OP_VALUE_INT, SWITCH_ATTR_OP_VALUE_STR, SWITCH_ATTR_OP_VALUE_PORTS,
     SWITCH_ATTR_OP_VALUE_LINK}"

lemma nla_parse_append:
  "nla_parse (xs @ ys) a = (case nla_parse ys a of None \<Rightarrow> nla_parse xs a | Some x \<Rightarrow> Some x)"
proof -
  have "List.find P (us @ ws) = (case List.find P us of None \<Rightarrow> List.find P ws | Some x \<Rightarrow> Some x)" for P :: "nla \<Rightarrow> bool" and us ws
    by (induction us) auto
  then show ?thesis by (simp add: nla_parse_def split: option.split)
qed

lemma nla_parse_None: "(\<And>x. x \<in> set xs \<Longrightarrow> nla_type x \<noteq> a) \<Longrightarrow> nla_parse xs a = None"
  by (auto simp: nla_parse_def find_None_iff)

lemma request_ids:
  assumes "\<forall>v \<in> set vs. value_nla v" "ua_atype a = g" "cmd = get_cmd g \<or> cmd = set_cmd g"
  shows "nl_id (genl_request cmd (id_nlas dev a num @ vs)) = Some (ud_id dev)"
    "nl_op_id (genl_request cmd (id_nlas dev a num @ vs)) = Some (ua_id a)"
    "number_ok kdev g num \<Longrightarrow>
     lookup_lists kdev (genl_request cmd (id_nlas dev a num @ vs)) = Some (group_attrs kdev g, number_of g num)"
proof -
  have none: "nla_parse vs b = None" if "b \<notin> {SWITCH_ATTR_OP_VALUE_INT, SWITCH_ATTR_OP_VALUE_STR, SWITCH_ATTR_OP_VALUE_PORTS,
      SWITCH_ATTR_OP_VALUE_LINK}" for b
    using assms(1) that by (intro nla_parse_None) (auto simp: value_nla_def)
  have same: "nla_parse (id_nlas dev a num @ vs) b = nla_parse (id_nlas dev a num) b"
    if "b \<notin> {SWITCH_ATTR_OP_VALUE_INT, SWITCH_ATTR_OP_VALUE_STR, SWITCH_ATTR_OP_VALUE_PORTS, SWITCH_ATTR_OP_VALUE_LINK}" for b
    using none [OF that] by (simp add: nla_parse_append)
  have ids: "u32_attr SWITCH_ATTR_ID (id_nlas dev a num @ vs) = Some (ud_id dev)"
    "u32_attr SWITCH_ATTR_OP_ID (id_nlas dev a num @ vs) = Some (ua_id a)"
    "g = SWLIB_ATTR_GROUP_PORT \<Longrightarrow> u32_attr SWITCH_ATTR_OP_PORT (id_nlas dev a num @ vs) = Some (word_of_int num)"
    "g = SWLIB_ATTR_GROUP_VLAN \<Longrightarrow> u32_attr SWITCH_ATTR_OP_VLAN (id_nlas dev a num @ vs) = Some (word_of_int num)"
    using assms(2) by (simp_all add: u32_attr_def same) (simp_all add: id_nlas_def nla_parse_def split: swlib_attr_group.split)
  then show "nl_id (genl_request cmd (id_nlas dev a num @ vs)) = Some (ud_id dev)"
    "nl_op_id (genl_request cmd (id_nlas dev a num @ vs)) = Some (ua_id a)"
    by (simp_all add: genl_request_def)
  show "lookup_lists kdev (genl_request cmd (id_nlas dev a num @ vs)) = Some (group_attrs kdev g, number_of g num)"
    if "number_ok kdev g num"
    using that assms(3) ids
    by (cases g) (auto simp: lookup_lists_def genl_request_def get_cmd_def set_cmd_def group_attrs_def number_of_def number_ok_def
        below_num)
qed

lemma lookup_names:
  "find_attr name (map (user_attr g) xs) =
     Some (map_option (user_attr g) (List.find (\<lambda>x. at_name (snd x) = name) xs))"
  by (induction xs) (auto simp: user_attr_def)

lemma dev_attrs_scanned:
  "dev_attrs (scanned dev kdev) g = map (user_attr g) (listed_attrs (group_attrs kdev g))"
  by (simp add: dev_attrs_def scanned_def group_attrs_def split: swlib_attr_group.split)

lemma lookup_scanned:
  "swlib_lookup_attr (scanned dev kdev) g name =
     Some (map_option (user_attr g) (List.find (\<lambda>x. at_name (snd x) = name) (listed_attrs (group_attrs kdev g))))"
  by (simp add: swlib_lookup_attr_def dev_attrs_scanned lookup_names)

lemma find_Some_in: "List.find P xs = Some x \<Longrightarrow> x \<in> set xs"
  by (auto simp: find_Some_iff)


section \<open>Ports as text\<close>

lemma space_facts: "isspace CHR '' ''" "\<not> isspace CHR ''t''" "\<not> isdigit CHR '' ''" "\<not> isdigit CHR ''t''"
  by (simp_all add: isspace_def isdigit_def)

lemma digit_no_space: "isdigit c \<Longrightarrow> \<not> isspace c"
  by (auto simp: isdigit_def isspace_def Let_def)

definition port_word :: "nat \<Rightarrow> bool \<Rightarrow> string" where
  "port_word n tagged = show_nat n @ (if tagged then ''t'' else [])"

text \<open>One port is read, with white space before it and behind it.\<close>

lemma parse_ports_word:
  assumes "\<forall>c \<in> set ws. isspace c" "rest = [] \<or> isspace (hd rest)" "n \<le> umax" "int (length ports) < limit"
  shows "parse_ports umax limit ports (ws @ port_word n tagged @ rest) =
    parse_ports umax limit (ports @ [\<lparr>up_id = word_of_nat n, up_tagged = tagged\<rparr>]) (drop 1 rest)"
proof -
  obtain c cs where c: "show_nat n = c # cs" "isdigit c"
    using show_nat_digits [of _ n] show_nat_nonempty [of n] by (cases "show_nat n") (auto simp: digit_in_10)
  have drop: "dropWhile isspace (ws @ port_word n tagged @ rest) = port_word n tagged @ rest"
    using assms(1) c digit_no_space [OF c(2)] by (simp add: dropWhile_append3 port_word_def)
  let ?flags = "(if tagged then ''t'' else []) @ rest"
  have nodigit: "?flags = [] \<or> \<not> isdigit (hd ?flags)"
    using assms(2) digit_no_space space_facts by (cases tagged) auto
  have num: "strtoul umax 10 (port_word n tagged @ rest) = (n, ?flags, False)"
    using strtoul_show_nat [OF assms(3) nodigit] by (simp add: port_word_def)
  have "port_flags b rest = Some (b, rest)" for b
    using assms(2) by (cases rest) simp_all
  then have "port_flags False ?flags = Some (tagged, rest)"
    by (cases tagged) (simp_all add: space_facts)
  then show ?thesis
    using drop num c assms(4) by (subst parse_ports.simps) (simp add: port_word_def)
qed

text \<open>What \<open>get\<close> prints for ports is read by \<open>set\<close> as these ports.\<close>

lemma parse_port_texts:
  assumes "\<forall>p \<in> set ps. uint (up_id p) < 2 ^ 31" "int (length done + length ps) \<le> limit" "2 ^ 31 \<le> umax"
  shows "parse_ports umax limit done (concat (map port_text ps)) = Some (done @ ps)"
  using assms(1,2)
proof (induction ps arbitrary: "done")
  case Nil
  show ?case by (subst parse_ports.simps) simp
next
  case (Cons p ps)
  let ?n = "unat (up_id p)"
  have less: "uint (up_id p) < 2 ^ 31" using Cons.prems(1) by simp
  then have "int ?n < int (2 ^ 31)" by simp
  then have n: "?n < 2 ^ 31" by (simp only: of_nat_less_iff)
  have "- (2 ^ 31) \<le> uint (up_id p)" by (rule order_trans [of _ 0]) simp_all
  note signed_take_bit_int_eq_self [OF this less]
  then have "sint (up_id p) = uint (up_id p)" by (simp add: sint_uint)
  then have shown: "port_text p = port_word ?n (up_tagged p) @ '' ''"
    by (simp add: port_text_def port_word_def show_int_def)
  have same: "\<lparr>up_id = word_of_nat ?n, up_tagged = up_tagged p\<rparr> = p" by simp
  have "parse_ports umax limit done ([] @ port_word ?n (up_tagged p) @ '' '' @ concat (map port_text ps)) =
      parse_ports umax limit (done @ [\<lparr>up_id = word_of_nat ?n, up_tagged = up_tagged p\<rparr>]) (drop 1 ('' '' @ concat (map port_text ps)))"
    using Cons.prems(2) n assms(3) by (intro parse_ports_word) (simp_all add: space_facts)
  then have "parse_ports umax limit done (concat (map port_text (p # ps))) = parse_ports umax limit (done @ [p]) (concat (map port_text ps))"
    unfolding same by (simp add: shown)
  then show ?case
    using Cons.IH [of "done @ [p]"] Cons.prems by simp
qed

section \<open>The switches a process finds\<close>

text \<open>A switch as the process has it: a port without a segment has no number either.\<close>

definition user_port :: "string option \<times> u32 \<Rightarrow> string option \<times> u32" where
  "user_port m = (case fst m of None \<Rightarrow> (None, 0) | Some g \<Rightarrow> (Some g, snd m))"

definition user_dev :: "'c switch_dev \<Rightarrow> swl_dev" where
  "user_dev d = \<lparr>ud_id = sd_id d, ud_dev_name = take 15 (sd_devname d), ud_name = Some (sd_name d), ud_alias = the (sd_alias d),
     ud_ports = uint (sd_ports d), ud_vlans = sint (sd_vlans d), ud_cpu_port = sint (sd_cpu_port d), ud_ops = [],
     ud_port_ops = [], ud_vlan_ops = [], ud_maps = Some (map user_port (sd_portmap d))\<rparr>"

text \<open>A switch the kernel may have registered.\<close>

definition switch_ok :: "'c switch_dev \<Rightarrow> bool" where
  "switch_ok d \<longleftrightarrow> sd_alias d \<noteq> None \<and> length (sd_portmap d) = unat (sd_ports d) \<and> uint (sd_ports d) < 2 ^ 31"

definition portmap_nla :: "string option \<times> u32 \<Rightarrow> nla" where
  "portmap_nla m = N_nest SWITCH_ATTR_PORTS
     (case fst m of None \<Rightarrow> [] | Some g \<Rightarrow> [N_string SWITCH_PORTMAP_SEGMENT g, N_u32 SWITCH_PORTMAP_VIRT (snd m)])"

definition switch_nlas :: "'c switch_dev \<Rightarrow> nla list" where
  "switch_nlas d =
     [N_u32 SWITCH_ATTR_ID (sd_id d), N_string SWITCH_ATTR_DEV_NAME (sd_devname d), N_string SWITCH_ATTR_ALIAS (the (sd_alias d)),
      N_string SWITCH_ATTR_NAME (sd_name d), N_u32 SWITCH_ATTR_VLANS (sd_vlans d), N_u32 SWITCH_ATTR_PORTS (sd_ports d),
      N_u32 SWITCH_ATTR_CPU_PORT (sd_cpu_port d), N_nest SWITCH_ATTR_PORTMAP (map portmap_nla (sd_portmap d))]"

lemma portmap_section_nla: "portmap_section m = nla_parts (portmap_nla m)"
  by (cases m; cases "fst m") (simp_all add: portmap_section_simps portmap_nla_def)

lemma switch_message_nlas: "switch_message d = whole SWITCH_CMD_NEW_ATTR True (nlas_parts (switch_nlas d))"
proof -
  have "portmap_section = nla_parts \<circ> portmap_nla" by (simp add: portmap_section_nla fun_eq_iff)
  then show ?thesis
    by (simp add: switch_message_def switch_parts_def switch_nlas_def nlas_parts_def)
qed

lemma nlmsgs_switches: "nlmsgs (concat (map switch_message devs)) = Some (map (\<lambda>d. (True, switch_nlas d)) devs)"
  by (induction devs) (simp_all add: switch_message_nlas nlmsgs_whole)

lemma parse_portmap_nla:
  "nla_parse_nested portmap_policy (portmap_nla m) = Some (Some (nla_parse
     (case fst m of None \<Rightarrow> [] | Some g \<Rightarrow> [N_string SWITCH_PORTMAP_SEGMENT g, N_u32 SWITCH_PORTMAP_VIRT (snd m)])))"
  by (cases "fst m") (simp_all add: nla_parse_nested_def portmap_nla_def validate_nla_def)

lemma port_map_loop_all:
  "limit = int (length pre + length ms)
   \<Longrightarrow> port_map_loop limit (length pre) (pre @ replicate (length ms) (None, 0)) (map portmap_nla ms) = Some (pre @ map user_port ms)"
proof (induction ms arbitrary: pre)
  case (Cons m ms)
  have rest: "port_map_loop limit (Suc (length pre)) (pre @ user_port m # replicate (length ms) (None, 0)) (map portmap_nla ms) =
      Some (pre @ user_port m # map user_port ms)"
    using Cons.IH [of "pre @ [user_port m]"] Cons.prems by simp
  show ?case
  proof (cases "fst m")
    case None
    then show ?thesis using Cons.prems rest
      by (simp add: parse_portmap_nla nla_parse_def user_port_def)
  next
    case (Some g)
    then show ?thesis using Cons.prems rest
      by (simp add: parse_portmap_nla nla_parse_def user_port_def)
  qed
qed simp

definition found_by :: "string option \<Rightarrow> 'c switch_dev \<Rightarrow> bool" where
  "found_by name d \<longleftrightarrow> name = None \<or> name = Some (sd_devname d) \<or> name = sd_alias d"

lemma add_switch_nlas:
  assumes "switch_ok d"
  shows "add_switch name (switch_nlas d) devs = Some (if found_by name d then devs @ [user_dev d] else devs)"
proof -
  obtain al where al: "sd_alias d = Some al" using assms by (auto simp: switch_ok_def)
  have len: "int (length (sd_portmap d)) = uint (sd_ports d)" using assms by (simp add: switch_ok_def)
  have "- (2 ^ 31) \<le> uint (sd_ports d)" by (rule order_trans [of _ 0]) simp_all
  from signed_take_bit_int_eq_self [OF this] have ports: "sint (sd_ports d) = uint (sd_ports d)"
    using assms by (simp add: switch_ok_def sint_uint)
  have "add_port_map (uint (sd_ports d)) (map portmap_nla (sd_portmap d)) = Some (Some (map user_port (sd_portmap d)))"
    unfolding len [symmetric] using port_map_loop_all [of _ "[]" "sd_portmap d"] by (simp add: add_port_map_def)
  then show ?thesis
    using al ports
    by (auto simp: add_switch_def switch_nlas_def nla_parse_def found_by_def get_s32_def user_dev_def)
qed

lemma deliver_switches:
  "\<forall>d \<in> set ds. switch_ok d
   \<Longrightarrow> deliver (add_switch name) (map (\<lambda>d. (True, switch_nlas d)) ds) multi devs =
     Some (multi \<or> ds \<noteq> [], devs @ map user_dev (filter (found_by name) ds))"
  by (induction ds arbitrary: multi devs) (simp_all add: add_switch_nlas)

lemma dump_all_fit:
  assumes "\<forall>d \<in> set (swdevs s). sd_alias d \<noteq> None" "swdevs s \<noteq> []" "skb_len (concat (map switch_message (swdevs s))) \<le> room"
  shows "dump_all room 0 s = Some [concat (map switch_message (swdevs s))]"
proof -
  let ?msg = "concat (map switch_message (swdevs s))"
  have first: "swconfig_dump_switches room 0 s = Some (length (swdevs s), ?msg)"
    using assms(1,3) dump_loop_fit [of "swdevs s" 0 0 "[]" room "[]"] by (simp add: swconfig_dump_switches_def)
  have second: "swconfig_dump_switches room (length (swdevs s)) s = Some (length (swdevs s), [])"
    using dump_loop_skip [of 0 "swdevs s" "length (swdevs s)" room "[]" "[]"] by (simp add: swconfig_dump_switches_def)
  have "?msg \<noteq> []" using assms(2) by (cases "swdevs s") (simp_all add: switch_message_def whole_def)
  then show ?thesis
    by (subst dump_all.simps) (simp add: first, subst dump_all.simps, simp add: second)
qed

definition process :: "'k \<Rightarrow> 'k sw" where
  "process k = \<lparr>sw_kernel = k, sw_handle = False, sw_refcount = 0, sw_out = []\<rparr>"

lemma connect_kernel:
  assumes "\<forall>d \<in> set (swdevs s). switch_ok d" "skb_len (concat (map switch_message (swdevs s))) \<le> ne_room env"
  shows "swlib_connect (switch_kern env admin) name (process (s, n)) =
    (let devs = map user_dev (filter (found_by name) (swdevs s)) in
     Some (devs, (process (s, n))\<lparr>sw_handle := (devs \<noteq> []), sw_refcount := int (length devs)\<rparr>))"
proof (cases "swdevs s = []")
  case True
  then show ?thesis
    by (simp add: swlib_connect_def swlib_dump_def swlib_priv_init_def switch_kern_def process_def dump_all.simps
        swconfig_dump_switches_def swlib_priv_free_def)
next
  case False
  have al: "\<forall>d \<in> set (swdevs s). sd_alias d \<noteq> None" using assms(1) by (auto simp: switch_ok_def)
  show ?thesis
    by (simp add: swlib_connect_def swlib_dump_def swlib_priv_init_def switch_kern_def process_def
        dump_all_fit [OF al False assms(2)] nlmsgs_switches deliver_switches [OF assms(1)] swlib_priv_free_def Let_def)
qed

section \<open>Ports in requests and answers\<close>

definition kernel_port :: "swl_port \<Rightarrow> switch_port" where
  "kernel_port p = \<lparr>port_id = unat (up_id p), port_tagged = up_tagged p\<rparr>"

definition port_nla :: "swl_port \<Rightarrow> nla" where
  "port_nla p = N_nest SWITCH_ATTR_PORT
     (N_u32 SWITCH_PORT_ID (up_id p) # (if up_tagged p then [N_flag SWITCH_PORT_FLAG_TAGGED] else []))"

definition ports_nlas :: "swl_port list \<Rightarrow> nla list" where
  "ports_nlas ps = (if ps = [] then [] else [N_nest SWITCH_ATTR_OP_VALUE_PORTS (map port_nla ps)])"

lemma send_ports_nlas: "send_attr_ports ps = nlas_parts (ports_nlas ps)"
proof -
  have "(\<lambda>port. [Nest_start SWITCH_ATTR_PORT, Put_u32 SWITCH_PORT_ID (up_id port)] @
      (if up_tagged port then [Put_flag SWITCH_PORT_FLAG_TAGGED] else []) @ [Nest_end]) = nla_parts \<circ> port_nla"
    by (auto simp: fun_eq_iff port_nla_def)
  then show ?thesis by (simp add: send_attr_ports_def ports_nlas_def)
qed

lemma ports_nlas_len: "skb_len (nlas_parts (ports_nlas ps)) \<le> 4 + 16 * length ps"
proof -
  have "skb_len (concat (map nla_parts (map port_nla ps))) \<le> 16 * length ps"
    by (induction ps) (auto simp: port_nla_def)
  then show ?thesis by (simp add: ports_nlas_def)
qed

lemma ports_value: "v \<in> set (ports_nlas ps) \<Longrightarrow> value_nla v"
  by (auto simp: ports_nlas_def value_nla_def split: if_splits)

text \<open>The message of the kernel for some ports has the attributes a process would send for them.\<close>

lemma port_section_nla: "port_section (kernel_port p) = nla_parts (port_nla p)"
  by (simp add: port_section_def port_parts_def kernel_port_def port_nla_def)

lemma ports_message_nlas:
  "ports_message cmd (map kernel_port ps) = whole cmd False (nlas_parts [N_nest SWITCH_ATTR_OP_VALUE_PORTS (map port_nla ps)])"
proof -
  have "port_section \<circ> kernel_port = nla_parts \<circ> port_nla" by (simp add: fun_eq_iff port_section_nla)
  then show ?thesis by (simp add: ports_message_def)
qed

lemma parse_port_nla:
  "nla_parse_nested port_policy (port_nla p) = Some (Some (nla_parse
     (N_u32 SWITCH_PORT_ID (up_id p) # (if up_tagged p then [N_flag SWITCH_PORT_FLAG_TAGGED] else []))))"
  by (simp add: nla_parse_nested_def port_nla_def validate_nla_def)

lemma store_ports:
  "int (length done + length ps) \<le> ud_ports dev
   \<Longrightarrow> \<exists>err. store_port_val dev (map port_nla ps) e done = Some (err, done @ ps)"
proof (induction ps arbitrary: e "done")
  case (Cons p ps)
  have p: "\<lparr>up_id = up_id p, up_tagged = b\<rparr> = p" if "b = up_tagged p" for b using that by simp
  have "store_port_val dev (map port_nla (p # ps)) e done = store_port_val dev (map port_nla ps) 0 (done @ [p])"
    using Cons.prems by (cases "up_tagged p") (simp_all add: parse_port_nla nla_parse_def p)
  then show ?case
    using Cons.IH [of "done @ [p]" 0] Cons.prems by simp
qed simp

text \<open>The request that gives ports to a VLAN.\<close>

lemma port_request_nla: "port_request (port_nla p) = Some (Some (up_id p), up_tagged p)"
  by (simp add: port_request_def port_nla_def u32_attr_def has_attr_def nla_parse_def)

lemma set_empty_ports:
  "set_attr_dev dev (info\<lparr>nl_value_ports := None\<rparr>) = set_attr_dev dev (info\<lparr>nl_value_ports := Some []\<rparr>)"
proof -
  have "lookup_lists dev (info\<lparr>nl_value_ports := x\<rparr>) = lookup_lists dev info" for x
    by (simp add: lookup_lists_def Let_def)
  then have "swconfig_lookup_attr dev (info\<lparr>nl_value_ports := x\<rparr>) = swconfig_lookup_attr dev info" for x
    by (simp add: swconfig_lookup_attr_def cong: option.case_cong)
  moreover have "request_value dev (info\<lparr>nl_value_ports := None\<rparr>) t = request_value dev (info\<lparr>nl_value_ports := Some []\<rparr>) t" for t
    by (cases t) (simp_all add: swconfig_parse_ports_def)
  ultimately show ?thesis by (simp add: set_attr_dev_def cong: option.case_cong prod.case_cong)
qed

lemma set_request:
  fixes dev :: "'c switch_dev"
  assumes "ua_atype a = SWLIB_ATTR_GROUP_VLAN" "ua_id a = 0x1000"
  shows "set_attr_dev dev (genl_request SWITCH_CMD_SET_VLAN (id_nlas udev a (uint vid) @ ports_nlas ps)) =
      set_attr_dev dev (set_ports_request (ud_id udev) vid (map kernel_port ps))"
proof -
  let ?req = "set_ports_request (ud_id udev) vid (map kernel_port ps)"
  have "map (\<lambda>p. port_request (port_nla p)) ps = map (\<lambda>p. Some (Some (word_of_nat (unat (up_id p))), up_tagged p)) ps"
    by (simp add: port_request_nla)
  then have "genl_request SWITCH_CMD_SET_VLAN (id_nlas udev a (uint vid) @ ports_nlas ps) =
      (if ps = [] then ?req\<lparr>nl_value_ports := None\<rparr> else ?req)"
    using assms by (simp add: genl_request_def id_nlas_def ports_nlas_def u32_attr_def nla_parse_def set_ports_request_def
        kernel_port_def o_def)
  moreover have "ps = [] \<Longrightarrow> ?req = ?req\<lparr>nl_value_ports := Some []\<rparr>" by (simp add: set_ports_request_def)
  ultimately show ?thesis using set_empty_ports by metis
qed

lemma get_request:
  assumes "ua_atype a = SWLIB_ATTR_GROUP_VLAN" "ua_id a = 0x1000"
  shows "genl_request SWITCH_CMD_GET_VLAN (id_nlas udev a (uint vid)) = get_ports_request (ud_id udev) vid"
  using assms by (simp add: genl_request_def id_nlas_def u32_attr_def nla_parse_def get_ports_request_def)

section \<open>The arguments\<close>

lemma atoi_s32_show_nat: "n < 0x80000000 \<Longrightarrow> atoi_s32 (show_nat n) = Some (int n)"
proof -
  assume n: "n < 0x80000000"
  obtain c cs where c: "show_nat n = c # cs" "isdigit c"
    using show_nat_digits [of _ n] show_nat_nonempty [of n] by (cases "show_nat n") (auto simp: digit_in_10)
  then have "\<not> isspace c" "c \<noteq> CHR ''-''" "c \<noteq> CHR ''+''"
    by (auto simp: isdigit_def isspace_def Let_def)
  then have sign: "strip_sign (dropWhile isspace (show_nat n)) = (False, show_nat n)"
    by (simp add: c strip_sign_def)
  have digits: "takeWhile isdigit (show_nat n) = show_nat n"
    using show_nat_digits [of _ n] by (simp add: takeWhile_eq_all_conv digit_in_10)
  show ?thesis using n by (simp add: atoi_s32_def Let_def sign digits)
qed

lemma args_set:
  assumes "n < 0x80000000"
  shows "parse_args [''vlan'', show_nat n, ''set'', ''ports'', w] cli_start =
    Some (Some \<lparr>cl_cmd = CMD_SET, cl_port = -1, cl_vlan = int n, cl_key = ''ports'', cl_value = Some w, cl_segment = None\<rparr>)"
  using assms by (simp add: cli_start_def atoi_s32_show_nat)

lemma args_get:
  assumes "n < 0x80000000"
  shows "parse_args [''vlan'', show_nat n, ''get'', ''ports''] cli_start =
    Some (Some \<lparr>cl_cmd = CMD_GET, cl_port = -1, cl_vlan = int n, cl_key = ''ports'', cl_value = None, cl_segment = None\<rparr>)"
  using assms by (simp add: cli_start_def atoi_s32_show_nat)

lemma free_all:
  "sw_refcount p = int (length devs) \<Longrightarrow> devs \<noteq> [] \<Longrightarrow> swlib_free_all devs p = p\<lparr>sw_refcount := 0, sw_handle := False\<rparr>"
proof (induction devs arbitrary: p)
  case (Cons d ds)
  show ?case
  proof (cases "ds = []")
    case True
    then show ?thesis using Cons.prems by (simp add: swlib_free_all_def swlib_free_def swlib_priv_free_def)
  next
    case False
    then have "swlib_free d p = p\<lparr>sw_refcount := int (length ds)\<rparr>"
      using Cons.prems by (simp add: swlib_free_def)
    then show ?thesis
      using Cons.IH [of "p\<lparr>sw_refcount := int (length ds)\<rparr>"] False by (simp add: swlib_free_all_def)
  qed
qed simp

section \<open>From the command line to the attribute\<close>

text \<open>The switch at place \<open>k\<close> is the first with this name, and what is listed about it fits into buffers.\<close>

definition cli_target :: "net_env \<Rightarrow> string \<Rightarrow> 'c swcfg \<Rightarrow> nat \<Rightarrow> bool" where
  "cli_target env name s k \<longleftrightarrow> k < length (swdevs s) \<and> found_by (Some name) (swdevs s ! k) \<and>
     (\<forall>j < k. \<not> found_by (Some name) (swdevs s ! j)) \<and> distinct (map sd_id (swdevs s)) \<and> (\<forall>d \<in> set (swdevs s). switch_ok d) \<and>
     skb_len (concat (map switch_message (swdevs s))) \<le> ne_room env \<and> lists_fit env (swdevs s ! k)"

lemma attr_message_state:
  "map attr_message (listed_attrs (group_attrs (d\<lparr>sd_state := c\<rparr>) g)) = map attr_message (listed_attrs (group_attrs d g))"
  by (cases g) (simp_all add: group_attrs_def global_attrs_def vlan_attrs_def port_attrs_of_def listed_attrs_def default_global_def
      default_vlan_def default_port_def upt_rec attr_message_def attr_parts_def)

lemma lists_fit_state: "lists_fit env (d\<lparr>sd_state := c\<rparr>) = lists_fit env d"
proof -
  have "(\<forall>x \<in> set xs. skb_len (attr_message x) \<le> room) \<longleftrightarrow> (\<forall>m \<in> set (map attr_message xs). skb_len m \<le> room)"
    for xs :: "(nat \<times> 'a switch_attr) list" and room
    by simp
  then show ?thesis by (simp only: lists_fit_def attr_message_state)
qed

lemma cli_target_state:
  assumes "cli_target env name s k"
  shows "cli_target env name (s\<lparr>swdevs := (swdevs s)[k := (swdevs s ! k)\<lparr>sd_state := c\<rparr>]\<rparr>) k"
proof -
  let ?d = "(swdevs s ! k)\<lparr>sd_state := c\<rparr>"
  have k: "k < length (swdevs s)" using assms by (simp add: cli_target_def)
  have "map switch_message ((swdevs s)[k := ?d]) = map switch_message (swdevs s)"
    by (rule map_update_same) (simp add: switch_message_def switch_parts_def)
  moreover have "map sd_id ((swdevs s)[k := ?d]) = map sd_id (swdevs s)"
    by (rule map_update_same) simp
  moreover have "\<forall>d \<in> set ((swdevs s)[k := ?d]). switch_ok d"
    using assms set_update_subset_insert [of "swdevs s" k ?d] k by (auto simp: cli_target_def switch_ok_def)
  ultimately show ?thesis
    using assms k by (simp add: cli_target_def lists_fit_state found_by_def)
qed

lemma filter_first:
  "k < length xs \<Longrightarrow> P (xs ! k) \<Longrightarrow> \<forall>j < k. \<not> P (xs ! j) \<Longrightarrow> filter P xs = xs ! k # filter P (drop (Suc k) xs)"
proof -
  assume k: "k < length xs" "P (xs ! k)" "\<forall>j < k. \<not> P (xs ! j)"
  then have "filter P (take k xs) = []" by (auto simp: filter_empty_conv in_set_conv_nth)
  then show ?thesis
    using k(1,2) by (subst id_take_nth_drop [OF k(1)]) simp
qed

definition connected :: "'k \<Rightarrow> swl_dev list \<Rightarrow> 'k sw" where
  "connected k devs = \<lparr>sw_kernel = k, sw_handle = True, sw_refcount = int (length devs), sw_out = []\<rparr>"

lemma free_connected:
  "devs \<noteq> [] \<Longrightarrow> swlib_free_all devs (connected k devs) = process k"
  "devs \<noteq> [] \<Longrightarrow> swlib_free_all devs (sw_print t (connected k devs)) = sw_print t (process k)"
  by (simp_all add: free_all connected_def process_def sw_print_def)

lemma main_lookup:
  assumes target: "cli_target env name s k" and n: "kernel_ok env n"
    and c: "parse_args args cli_start = Some (Some c)" "cl_cmd c = CMD_SET \<or> cl_cmd c = CMD_GET" "cl_port c = -1 \<or> cl_vlan c = -1"
    and args: "args \<noteq> []"
  shows "\<exists>n' devs. kernel_ok env n' \<and> devs \<noteq> [] \<and>
    swconfig_main umax (switch_kern env admin) junk configs (''dev'' # name # args) (process (s, n)) =
      (case List.find (\<lambda>x. at_name (snd x) = cl_key c) (listed_attrs (group_attrs (swdevs s ! k) (cli_group c))) of
         None \<Rightarrow> Some (-1, process (s, n'))
       | Some x \<Rightarrow>
           (let dev = scanned (user_dev (swdevs s ! k)) (swdevs s ! k); a = user_attr (cli_group c) x; p = connected (s, n') devs in
            if cl_cmd c = CMD_SET then cli_set umax (switch_kern env admin) c devs dev a p
            else cli_get (switch_kern env admin) junk c devs dev a p))"
proof -
  let ?kern = "switch_kern env admin" and ?kdev = "swdevs s ! k"
  let ?devs = "map user_dev (filter (found_by (Some name)) (swdevs s))"
  have t: "k < length (swdevs s)" "distinct (map sd_id (swdevs s))" "lists_fit env ?kdev" "\<forall>d \<in> set (swdevs s). switch_ok d"
    "skb_len (concat (map switch_message (swdevs s))) \<le> ne_room env"
    using target by (simp_all add: cli_target_def)
  have devs: "?devs = user_dev ?kdev # map user_dev (filter (found_by (Some name)) (drop (Suc k) (swdevs s)))"
    using target by (subst filter_first [of k]) (auto simp: cli_target_def)
  have connect: "swlib_connect ?kern (Some name) (process (s, n)) = Some (?devs, connected (s, n) ?devs)"
    unfolding connect_kernel [OF t(4,5)] by (simp add: devs connected_def process_def)
  have "find_dev (ud_id (user_dev ?kdev)) (swdevs s) = Some k"
    using find_dev_nth [OF t(2,1)] by (simp add: user_dev_def)
  then obtain n' where scan: "swlib_scan ?kern (user_dev ?kdev) (connected (s, n) ?devs) =
      Some (scanned (user_dev ?kdev) ?kdev, (connected (s, n) ?devs)\<lparr>sw_kernel := (s, n')\<rparr>)" and n': "kernel_ok env n'"
    using scan_kernel [of "connected (s, n) ?devs" s n "user_dev ?kdev" k env admin] n t(3)
    by (auto simp: connected_def user_dev_def)
  have p: "(connected (s, n) ?devs)\<lparr>sw_kernel := (s, n')\<rparr> = connected (s, n') ?devs" by (simp add: connected_def)
  have ne: "?devs \<noteq> []" using devs by simp
  have "swconfig_main umax ?kern junk configs (''dev'' # name # args) (process (s, n)) =
      run_command umax ?kern junk configs c ?devs (user_dev ?kdev) (connected (s, n) ?devs)"
    using c args connect by (cases args) (auto simp: swconfig_main_def devs)
  also have "\<dots> = (case List.find (\<lambda>x. at_name (snd x) = cl_key c) (listed_attrs (group_attrs ?kdev (cli_group c))) of
         None \<Rightarrow> Some (-1, process (s, n'))
       | Some x \<Rightarrow>
           (let dev = scanned (user_dev ?kdev) ?kdev; a = user_attr (cli_group c) x; p = connected (s, n') ?devs in
            if cl_cmd c = CMD_SET then cli_set umax ?kern c ?devs dev a p else cli_get ?kern junk c ?devs dev a p))"
    using c(2) free_connected(1) [OF ne, of "(s, n')"]
    by (cases "List.find (\<lambda>x. at_name (snd x) = cl_key c) (listed_attrs (group_attrs ?kdev (cli_group c)))")
      (auto simp: run_command_def scan p lookup_scanned)
  finally show ?thesis using n' ne by blast
qed

section \<open>Ports of a VLAN\<close>

lemma find_ports:
  assumes "rtl8366s_dev rg junk smi kdev"
  shows "List.find (\<lambda>x. at_name (snd x) = ''ports'') (listed_attrs (group_attrs kdev SWLIB_ATTR_GROUP_VLAN)) =
    Some (0x1000, default_vlan kdev ! 0)"
  using assms
  by (simp add: group_attrs_def vlan_attrs_def listed_attrs_def rtl8366s_dev_def rtl8366_ops_def rtl8366s_vlan_def default_vlan_def
      VLAN_PORTS_def string_attr_def int_attr_def upt_rec)

text \<open>The attribute \<open>ports\<close> of a VLAN as the process has it.\<close>

definition ports_attr :: "'c switch_dev \<Rightarrow> swl_attr" where
  "ports_attr kdev = user_attr SWLIB_ATTR_GROUP_VLAN (0x1000, default_vlan kdev ! 0)"

lemma ports_attr_sel [simp]: "ua_atype (ports_attr kdev) = SWLIB_ATTR_GROUP_VLAN" "ua_id (ports_attr kdev) = 0x1000"
  "ua_type (ports_attr kdev) = SWITCH_TYPE_PORTS"
  by (simp_all add: ports_attr_def user_attr_def default_vlan_def)

lemma set_ports_call:
  assumes "sw_handle p" "sw_kernel p = (s, n)" "find_dev (ud_id dev) (swdevs s) = Some k" "length ps \<le> 100"
    and set: "set_attr_dev (swdevs s ! k) (set_ports_request (ud_id dev) vid (map kernel_port ps)) = Some f"
    and run: "f (sd_state (swdevs s ! k)) = (Inr (), c2)"
  shows "swlib_set_attr (switch_kern env True) dev (ports_attr kdev) \<lparr>uv_err = 0, uv_port_vlan = uint vid, uv_value = W_ports ps\<rparr> p =
    Some (0, p\<lparr>sw_kernel := (s\<lparr>swdevs := (swdevs s)[k := (swdevs s ! k)\<lparr>sd_state := c2\<rparr>]\<rparr>, n)\<rparr>)"
proof -
  let ?a = "ports_attr kdev" and ?as = "id_nlas dev (ports_attr kdev) (uint vid) @ ports_nlas ps"
  have parts: "send_attr_val dev ?a \<lparr>uv_err = 0, uv_port_vlan = uint vid, uv_value = W_ports ps\<rparr> = Some (nlas_parts ?as)"
    by (simp add: send_attr_val_def send_attr_nlas send_ports_nlas)
  have fit: "40 + 2 * skb_len (nlas_parts ?as) \<le> nm_size"
    using id_nlas_len [of dev ?a "uint vid"] ports_nlas_len [of ps] assms(4) by (simp add: nm_size_def)
  have "nl_id (genl_request SWITCH_CMD_SET_VLAN ?as) = Some (ud_id dev)"
    using request_ids(1) [of "ports_nlas ps" ?a SWLIB_ATTR_GROUP_VLAN SWITCH_CMD_SET_VLAN dev "uint vid"] ports_value [of _ ps]
    by (simp add: set_cmd_def)
  then have doit: "k_doit (switch_kern env True) SWITCH_CMD_SET_VLAN ?as (s, n) =
      Some (0, [], (s\<lparr>swdevs := (swdevs s)[k := (swdevs s ! k)\<lparr>sd_state := c2\<rparr>]\<rparr>, n))"
    using assms(3) set run set_request [of ?a "swdevs s ! k" dev vid ps]
    by (simp add: switch_kern_def swconfig_doit_def swconfig_set_attr_def swconfig_get_dev_def call_driver_def)
  have "swlib_call (switch_kern env True) SWITCH_CMD_SET_VLAN (\<lambda>as v. Some v) (Some (nlas_parts ?as)) () p =
      Some (0, (), p\<lparr>sw_kernel := (s\<lparr>swdevs := (swdevs s)[k := (swdevs s ! k)\<lparr>sd_state := c2\<rparr>]\<rparr>, n)\<rparr>)"
    by (subst swlib_call_fit [OF assms(1) fit]) (simp add: doit assms(2))
  then show ?thesis using parts by (simp add: swlib_set_attr_def set_cmd_def)
qed

lemma get_ports_call:
  assumes "sw_handle p" "sw_kernel p = (s, n)" "int (length ps) \<le> ud_ports dev"
    and get: "swconfig_get_attr env (get_ports_request (ud_id dev) vid) s n = Some (0, s2, n2)"
    and sent: "sent n2 = sent n @ [ports_message SWITCH_CMD_GET_VLAN (map kernel_port ps)]"
  shows "swlib_get_attr (switch_kern env admin) dev (ports_attr kdev) (val_for (uint vid)) p =
    Some (0, \<lparr>uv_err = 0, uv_port_vlan = uint vid, uv_value = W_ports ps\<rparr>, p\<lparr>sw_kernel := (s2, n2)\<rparr>)"
proof -
  let ?a = "ports_attr kdev" and ?as = "id_nlas dev (ports_attr kdev) (uint vid)"
  have fit: "40 + 2 * skb_len (nlas_parts ?as) \<le> nm_size"
    using id_nlas_len [of dev ?a "uint vid"] by (simp add: nm_size_def)
  have doit: "k_doit (switch_kern env admin) SWITCH_CMD_GET_VLAN ?as (s, n) =
      Some (0, [ports_message SWITCH_CMD_GET_VLAN (map kernel_port ps)], (s2, n2))"
    using get sent get_request [of ?a dev vid]
    by (simp add: switch_kern_def swconfig_doit_def new_messages_def)
  obtain err where store: "store_port_val dev (map port_nla ps) 0 [] = Some (err, ps)"
    using store_ports [of "[]" ps dev 0] assms(3) by auto
  have msg: "nlmsgs (ports_message SWITCH_CMD_GET_VLAN (map kernel_port ps)) =
      Some [(False, [N_nest SWITCH_ATTR_OP_VALUE_PORTS (map port_nla ps)])]"
    using nlmsgs_whole [of SWITCH_CMD_GET_VLAN False "[N_nest SWITCH_ATTR_OP_VALUE_PORTS (map port_nla ps)]" "[]"]
    by (simp add: ports_message_nlas)
  have "store_val dev [N_nest SWITCH_ATTR_OP_VALUE_PORTS (map port_nla ps)] (val_for (uint vid)\<lparr>uv_value := W_zero, uv_err := EINVAL\<rparr>) =
      Some \<lparr>uv_err = 0, uv_port_vlan = uint vid, uv_value = W_ports ps\<rparr>"
    using store by (simp add: val_for_def store_val_def nla_parse_def value_ports_ptr_def)
  then have "swlib_call (switch_kern env admin) SWITCH_CMD_GET_VLAN (store_val dev) (Some (nlas_parts ?as))
      (val_for (uint vid)\<lparr>uv_value := W_zero, uv_err := EINVAL\<rparr>) p =
      Some (0, \<lparr>uv_err = 0, uv_port_vlan = uint vid, uv_value = W_ports ps\<rparr>, p\<lparr>sw_kernel := (s2, n2)\<rparr>)"
    by (subst swlib_call_fit [OF assms(1) fit]) (simp add: doit assms(2) msg)
  then show ?thesis by (simp add: swlib_get_attr_def get_cmd_def send_attr_nlas val_for_def)
qed

lemma sort_map_kernel_port: "sort_key port_id (map kernel_port ps) = map kernel_port (sort_key (\<lambda>p. unat (up_id p)) ps)"
proof -
  have "insort_key port_id (kernel_port p) (map kernel_port qs) = map kernel_port (insort_key (\<lambda>p. unat (up_id p)) p qs)" for p qs
    by (induction qs) (auto simp: kernel_port_def)
  then show ?thesis by (induction ps) simp_all
qed

text \<open>The two command lines.\<close>

definition set_ports_args :: "string \<Rightarrow> u32 \<Rightarrow> string \<Rightarrow> string list" where
  "set_ports_args name vid w = [''dev'', name, ''vlan'', show_nat (unat vid), ''set'', ''ports'', w]"

definition get_ports_args :: "string \<Rightarrow> u32 \<Rightarrow> string list" where
  "get_ports_args name vid = [''dev'', name, ''vlan'', show_nat (unat vid), ''get'', ''ports'']"

lemma small_vid: "vid < 4096 \<Longrightarrow> unat vid < 0x80000000" for vid :: u32
  by (simp add: word_less_nat_alt)

lemma uint_above: "- 1 < uint w"
  by (rule less_le_trans [of "-1" "0::int"]) simp_all

lemma main_set_ports:
  assumes target: "cli_target env name s k" and n: "kernel_ok env n"
    and dev: "rtl8366s_dev rg junk smi (swdevs s ! k)" and vid: "vid < 4096"
    and w: "parse_ports umax 6 [] w = Some ps" "length ps \<le> 6"
    and set: "set_attr_dev (swdevs s ! k) (set_ports_request (sd_id (swdevs s ! k)) vid (map kernel_port ps)) = Some f"
    and run: "f (sd_state (swdevs s ! k)) = (Inr (), c2)"
  shows "\<exists>n'. swconfig_main umax (switch_kern env True) uninit configs (set_ports_args name vid w) (process (s, n)) =
    Some (0, process (s\<lparr>swdevs := (swdevs s)[k := (swdevs s ! k)\<lparr>sd_state := c2\<rparr>]\<rparr>, n')) \<and> kernel_ok env n'"
proof -
  let ?kdev = "swdevs s ! k" and ?kern = "switch_kern env True"
  let ?dev = "scanned (user_dev ?kdev) ?kdev" and ?s1 = "s\<lparr>swdevs := (swdevs s)[k := (swdevs s ! k)\<lparr>sd_state := c2\<rparr>]\<rparr>"
  let ?args = "[''vlan'', show_nat (unat vid), ''set'', ''ports'', w]"
  define c where "c = \<lparr>cl_cmd = CMD_SET, cl_port = -1, cl_vlan = int (unat vid), cl_key = ''ports'', cl_value = Some w, cl_segment = None\<rparr>"
  have parsed: "parse_args ?args cli_start = Some (Some c)"
    using args_set [OF small_vid [OF vid]] by (simp add: c_def)
  have sel: "cl_cmd c = CMD_SET" "cl_port c = -1" "cli_group c = SWLIB_ATTR_GROUP_VLAN" "cl_key c = ''ports''" "cl_value c = Some w"
    "cl_vlan c = uint vid"
    by (simp_all add: c_def cli_group_def uint_above)
  obtain n' devs where n': "kernel_ok env n'" "devs \<noteq> []"
    and main: "swconfig_main umax ?kern uninit configs (set_ports_args name vid w) (process (s, n)) =
      cli_set umax ?kern c devs ?dev (ports_attr ?kdev) (connected (s, n') devs)"
    using main_lookup [OF target n parsed, of umax True uninit configs] find_ports [OF dev]
    by (auto simp: sel set_ports_args_def ports_attr_def)
  have k: "find_dev (ud_id ?dev) (swdevs s) = Some k"
    using target find_dev_nth [of "swdevs s" k] by (simp add: cli_target_def scanned_def user_dev_def)
  have ud: "ud_id ?dev = sd_id ?kdev" "ud_ports ?dev = 6"
    using dev by (simp_all add: scanned_def user_dev_def rtl8366s_dev_def)
  have "swlib_set_attr ?kern ?dev (ports_attr ?kdev) \<lparr>uv_err = 0, uv_port_vlan = uint vid, uv_value = W_ports ps\<rparr> (connected (s, n') devs) =
      Some (0, (connected (s, n') devs)\<lparr>sw_kernel := (?s1, n')\<rparr>)"
    using w(2) set run by (intro set_ports_call [where f = f] k) (simp_all add: connected_def ud)
  moreover have "(connected (s, n') devs)\<lparr>sw_kernel := (?s1, n')\<rparr> = connected (?s1, n') devs" by (simp add: connected_def)
  moreover have "cl_vlan c > -1" by (simp add: sel uint_above)
  ultimately have "cli_set umax ?kern c devs ?dev (ports_attr ?kdev) (connected (s, n') devs) = Some (0, process (?s1, n'))"
    using w(1) free_connected(1) [OF n'(2), of "(?s1, n')"]
    by (simp add: cli_set_def sel swlib_set_attr_string_def string_value_def ud)
  then show ?thesis using main n'(1) by auto
qed

lemma main_get_ports:
  assumes target: "cli_target env name s k" and n: "kernel_ok env n" and room: "120 \<le> ne_room env"
    and dev: "rtl8366s_dev rg junk smi (swdevs s ! k)" and vid: "vid < 4096"
    and read: "rtl8366_sw_get_vlan_ports smi vid (sd_state (swdevs s ! k)) = (Inr (map kernel_port ps), c3)" "length ps \<le> 6"
  shows "\<exists>k'. swconfig_main umax (switch_kern env admin) uninit configs (get_ports_args name vid) (process (s, n)) =
    Some (0, sw_print (concat (map port_text ps) @ [CHR 0x0A]) (process k'))"
proof -
  let ?kdev = "swdevs s ! k" and ?kern = "switch_kern env admin"
  let ?dev = "scanned (user_dev ?kdev) ?kdev" and ?args = "[''vlan'', show_nat (unat vid), ''get'', ''ports'']"
  define c where "c = \<lparr>cl_cmd = CMD_GET, cl_port = -1, cl_vlan = int (unat vid), cl_key = ''ports'', cl_value = None, cl_segment = None\<rparr>"
  have parsed: "parse_args ?args cli_start = Some (Some c)"
    using args_get [OF small_vid [OF vid]] by (simp add: c_def)
  have sel: "cl_cmd c = CMD_GET" "cl_port c = -1" "cli_group c = SWLIB_ATTR_GROUP_VLAN" "cl_key c = ''ports''" "cl_vlan c = uint vid"
    by (simp_all add: c_def cli_group_def uint_above)
  obtain n' devs where n': "kernel_ok env n'" "devs \<noteq> []"
    and main: "swconfig_main umax ?kern uninit configs (get_ports_args name vid) (process (s, n)) =
      cli_get ?kern uninit c devs ?dev (ports_attr ?kdev) (connected (s, n') devs)"
    using main_lookup [OF target n parsed, of umax admin uninit configs] find_ports [OF dev]
    by (auto simp: sel get_ports_args_def ports_attr_def)
  have k: "find_dev (ud_id ?dev) (swdevs s) = Some k"
    using target find_dev_nth [of "swdevs s" k] by (simp add: cli_target_def scanned_def user_dev_def)
  have ud: "ud_ports ?dev = 6"
    using dev by (simp add: scanned_def user_dev_def rtl8366s_dev_def)
  have net: "ne_alloc env (next_buf n')" "ne_reply env (next_buf n') = 0" "bufs n' (next_buf n') = None"
    using n'(1) by (simp_all add: kernel_ok_def fresh_above_def)
  let ?s2 = "s\<lparr>swdevs := (swdevs s)[k := (swdevs s ! k)\<lparr>sd_state := c3\<rparr>]\<rparr>"
    and ?n2 = "n'\<lparr>next_buf := next_buf n' + 1, sent := sent n' @ [ports_message SWITCH_CMD_GET_VLAN (map kernel_port ps)]\<rparr>"
  have get: "swconfig_get_attr env (get_ports_request (ud_id ?dev) vid) s n' = Some (0, ?s2, ?n2)"
    using read(2) by (intro get_ports_answer [OF k dev vid read(1) _ room net]) simp
  have "swlib_get_attr ?kern ?dev (ports_attr ?kdev) (val_for (uint vid)) (connected (s, n') devs) =
      Some (0, \<lparr>uv_err = 0, uv_port_vlan = uint vid, uv_value = W_ports ps\<rparr>, (connected (s, n') devs)\<lparr>sw_kernel := (?s2, ?n2)\<rparr>)"
    using read(2) by (intro get_ports_call [OF _ _ _ get]) (simp_all add: connected_def ud)
  moreover have "(connected (s, n') devs)\<lparr>sw_kernel := (?s2, ?n2)\<rparr> = connected (?s2, ?n2) devs" by (simp add: connected_def)
  moreover have "cl_vlan c > -1" by (simp add: sel uint_above)
  ultimately have "cli_get ?kern uninit c devs ?dev (ports_attr ?kdev) (connected (s, n') devs) =
      Some (0, sw_print (concat (map port_text ps) @ [CHR 0x0A]) (process (?s2, ?n2)))"
    using free_connected(2) [OF n'(2), of "concat (map port_text ps) @ [CHR 0x0A]" "(?s2, ?n2)"]
    by (simp add: cli_get_def sel attr_val_text_def)
  then show ?thesis using main by auto
qed

text \<open>
  C1: Ports that the command line gives to a VLAN of an RTL8366S are what the command line shows
  afterwards: \<open>swconfig dev\<close> \<open>name\<close> \<open>vlan\<close> \<open>vid\<close> \<open>set ports\<close> with a text for some ports of the switch,
  each at most once, ends with the exit code 0, and prints nothing; the same with \<open>get ports\<close> then
  prints these ports with their tags, sorted by number, and ends with 0 as well.  The VLAN is one the
  chip has in its present mode, the name is that of the switch, and what the kernel sends fits into
  its buffers, where no allocation and no reply fails.
\<close>

theorem swconfig_cli_ports:
  assumes chip: "rtl8366s_chip rg ok reg table"
    and target: "cli_target env name s k" and n: "kernel_ok env n" and room: "120 \<le> ne_room env"
    and dev: "rtl8366s_dev rg junk (rtl8366s rg reset initvals dts green) (swdevs s ! k)"
    and st: "managed (rtl8366s rg reset initvals dts green) ok (sd_state (swdevs s ! k))"
    and vid: "rtl8366s_is_vlan_valid (vlan4k_enabled (sd_state (swdevs s ! k))) vid"
    and w: "parse_ports umax 6 [] w = Some ps" and ps: "\<forall>p \<in> set ps. up_id p < 6" "distinct (map up_id ps)"
  shows "\<exists>k1 k2. swconfig_main umax (switch_kern env True) uninit configs (set_ports_args name vid w) (process (s, n)) =
      Some (0, process k1) \<and>
    swconfig_main umax (switch_kern env admin) uninit configs (get_ports_args name vid) (process k1) =
      Some (0, sw_print (concat (map port_text (sort_key (\<lambda>p. unat (up_id p)) ps)) @ [CHR 0x0A]) (process k2))"
proof -
  let ?smi = "rtl8366s rg reset initvals dts green" and ?dev = "swdevs s ! k" and ?ps = "map kernel_port ps"
  have v: "vid < 4096" "vid \<noteq> 0"
    using spec_valid_vid [OF limits_ok_s, of "vlan4k_enabled (sd_state ?dev)" vid] vid valid_s by simp_all
  have kps: "\<forall>p \<in> set ?ps. port_id p < 6" "distinct (map port_id ?ps)"
    using ps by (auto simp: kernel_port_def word_less_nat_alt distinct_map inj_on_def word_unat_eq_iff)
  have len: "length ps \<le> 6" using short_ports [OF kps] by simp
  obtain c2 where c2: "dbind (set_pvids ?dev vid ?ps) (\<lambda>_. rtl8366_sw_set_vlan_ports ?smi vid ?ps) (sd_state ?dev) = (Inr (), c2)"
    "fst (rtl8366_sw_get_vlan_ports ?smi vid c2) = Inr (sort_key port_id ?ps)"
    using configure_ports_s [OF chip dev st v vid kps] by blast
  let ?s1 = "s\<lparr>swdevs := (swdevs s)[k := (swdevs s ! k)\<lparr>sd_state := c2\<rparr>]\<rparr>"
  have k: "k < length (swdevs s)" using target by (simp add: cli_target_def)
  obtain n1 where n1: "swconfig_main umax (switch_kern env True) uninit configs (set_ports_args name vid w) (process (s, n)) =
      Some (0, process (?s1, n1))" "kernel_ok env n1"
    using main_set_ports [OF target n dev v(1) w len set_attr_ports [OF dev v(1) kps] c2(1)] by blast
  obtain c3 where c3: "rtl8366_sw_get_vlan_ports ?smi vid c2 = (Inr (map kernel_port (sort_key (\<lambda>p. unat (up_id p)) ps)), c3)"
    using c2(2) unfolding sort_map_kernel_port by (metis surjective_pairing)
  have nth: "swdevs ?s1 ! k = ?dev\<lparr>sd_state := c2\<rparr>" using k by simp
  have dev1: "rtl8366s_dev rg junk ?smi (swdevs ?s1 ! k)" using dev unfolding nth by (simp add: rtl8366s_dev_def)
  have read: "rtl8366_sw_get_vlan_ports ?smi vid (sd_state (swdevs ?s1 ! k)) = (Inr (map kernel_port (sort_key (\<lambda>p. unat (up_id p)) ps)), c3)"
    unfolding nth using c3 by simp
  have len1: "length (sort_key (\<lambda>p. unat (up_id p)) ps) \<le> 6" using len by simp
  obtain k2 where "swconfig_main umax (switch_kern env admin) uninit configs (get_ports_args name vid) (process (?s1, n1)) =
      Some (0, sw_print (concat (map port_text (sort_key (\<lambda>p. unat (up_id p)) ps)) @ [CHR 0x0A]) (process k2))"
    using main_get_ports [OF cli_target_state [OF target] n1(2) room dev1 v(1) read len1] by blast
  then show ?thesis using n1(1) by blast
qed

text \<open>The first switch of the system, a kernel where nothing fails.\<close>

definition wide_env :: net_env where "wide_env = small_env\<lparr>ne_room := 4000\<rparr>"

lemma wide_kernel: "kernel_ok wide_env plain_net"
  by (simp add: kernel_ok_def wide_env_def small_env_def fresh_above_def plain_net_def)

lemma listed_all:
  assumes "\<forall>a \<in> set (fst l). P a" "\<forall>a \<in> set (fst (snd l)). P a" "x \<in> set (listed_attrs l)"
  shows "P (snd x)"
  using assms by (auto simp: listed_attrs_def split: prod.splits)

definition short_attr :: "'c switch_attr \<Rightarrow> bool" where
  "short_attr a \<longleftrightarrow> length (at_name a) \<le> 20 \<and> (case at_description a of None \<Rightarrow> True | Some d \<Rightarrow> length d \<le> 120)"

lemma short_attr_len: "short_attr (snd x) \<Longrightarrow> skb_len (attr_message x) \<le> 300"
  by (auto simp: short_attr_def attr_message_def attr_parts_def align4_def split: option.splits)

lemma s_attrs_short:
  "\<forall>a \<in> set (fst (group_attrs s_dev g)). short_attr a" "\<forall>a \<in> set (fst (snd (group_attrs s_dev g))). short_attr a"
  by (cases g; simp add: group_attrs_def global_attrs_def vlan_attrs_def port_attrs_of_def default_global_def
      default_vlan_def default_port_def s_dev_def rtl8366s_switch_def rtl8366_ops_def rtl8366s_globals_def rtl8366s_port_def
      rtl8366s_vlan_def int_attr_def string_attr_def noval_attr_def short_attr_def)+

lemma s_lists_fit: "lists_fit wide_env s_dev"
proof -
  have "skb_len (attr_message x) \<le> 4000" if "x \<in> set (listed_attrs (group_attrs s_dev g))" for x g
    using short_attr_len [OF listed_all [OF s_attrs_short that]] by simp
  then show ?thesis by (simp add: lists_fit_def wide_env_def)
qed

lemma s_target: "cli_target wide_env ''switch0'' \<lparr>swdevs = [s_dev], swdev_id = 1\<rparr> 0"
proof -
  have "switch_ok s_dev" "found_by (Some ''switch0'') s_dev" by (simp_all add: switch_ok_def found_by_def s_dev_def rtl8366s_switch_def)
  moreover have "concat (replicate 6 z) = z @ z @ z @ z @ z @ z" for z :: skb by (simp add: eval_nat_numeral)
  then have "skb_len (switch_message s_dev) \<le> 4000"
    by (simp add: switch_message_def switch_parts_def portmap_section_simps align4_def s_dev_def rtl8366s_switch_def)
  ultimately show ?thesis
    using s_lists_fit by (simp add: cli_target_def wide_env_def)
qed

lemma swconfig_cli_ports_witness:
  "\<exists>k1 k2. swconfig_main 4294967295 (switch_kern wide_env True) 0 (\<lambda>_. None) (set_ports_args ''switch0'' 9 ''5t 2 '')
      (process (\<lparr>swdevs = [s_dev], swdev_id = 1\<rparr>, plain_net)) = Some (0, process k1) \<and>
    swconfig_main 4294967295 (switch_kern wide_env False) 0 (\<lambda>_. None) (get_ports_args ''switch0'' 9) (process k1) =
      Some (0, sw_print (''2 5t '' @ [CHR 0x0A]) (process k2))"
proof -
  let ?s = "\<lparr>swdevs = [s_dev], swdev_id = 1\<rparr>" and ?ps = "[\<lparr>up_id = 5, up_tagged = True\<rparr>, \<lparr>up_id = 2, up_tagged = False\<rparr>]"
  have chars: "show_int 5 = ''5''" "show_int 2 = ''2''" by code_simp+
  have out: "concat (map port_text ?ps) = ''5t 2 ''" "concat (map port_text (sort_key (\<lambda>p. unat (up_id p)) ?ps)) = ''2 5t ''"
    by (simp_all add: port_text_def chars)
  have dev: "rtl8366s_dev s_regs 0 (rtl8366s s_regs None [] None False) (swdevs ?s ! 0)"
    by (simp add: rtl8366s_dev_def s_dev_def rtl8366s_switch_def s_smi_def)
  have st: "managed (rtl8366s s_regs None [] None False) s_ok (sd_state (swdevs ?s ! 0))"
    using s_managed by (simp add: s_dev_def rtl8366s_switch_def s_state_def s_smi_def)
  have valid: "rtl8366s_is_vlan_valid (vlan4k_enabled (sd_state (swdevs ?s ! 0))) 9"
    by (simp add: rtl8366s_is_vlan_valid_def)
  have "parse_ports 4294967295 6 [] (concat (map port_text ?ps)) = Some ([] @ ?ps)"
    by (rule parse_port_texts) simp_all
  then have w: "parse_ports 4294967295 6 [] ''5t 2 '' = Some ?ps" by (simp only: out(1) append_Nil)
  have room: "120 \<le> ne_room wide_env" and ps: "\<forall>p \<in> set ?ps. up_id p < 6" "distinct (map up_id ?ps)"
    by (simp_all add: wide_env_def)
  show ?thesis
    using swconfig_cli_ports [OF s_chip.rtl8366s_chip_axioms s_target wide_kernel room dev st valid w ps, of 0 "\<lambda>_. None" False]
    unfolding out(2) .
qed

lemma s_dev_rtl: "rtl8366s_dev s_regs 0 (rtl8366s s_regs None [] None False) s_dev"
  by (simp add: rtl8366s_dev_def s_dev_def rtl8366s_switch_def s_smi_def)

lemma s_attrs_few: "length (fst (group_attrs s_dev g)) \<le> 0x1000"
  by (cases g) (simp_all add: group_attrs_def global_attrs_def vlan_attrs_def port_attrs_of_def s_dev_def rtl8366s_switch_def
      rtl8366_ops_def rtl8366s_globals_def rtl8366s_port_def rtl8366s_vlan_def)


section \<open>Errors\<close>

text \<open>
  C22: A name that no attribute of the switch has is refused by the process itself: with \<open>get\<close> and with
  \<open>set\<close> the exit code is -1, nothing is printed, the switches are as they were, and the socket is
  released.
\<close>

theorem swconfig_cli_unknown:
  assumes "cli_target env name s k" "kernel_ok env n"
    and "parse_args args cli_start = Some (Some c)" "cl_cmd c = CMD_SET \<or> cl_cmd c = CMD_GET" "cl_port c = -1 \<or> cl_vlan c = -1"
    and "args \<noteq> []" "\<forall>x \<in> set (listed_attrs (group_attrs (swdevs s ! k) (cli_group c))). at_name (snd x) \<noteq> cl_key c"
  shows "\<exists>n'. swconfig_main umax (switch_kern env admin) uninit configs (''dev'' # name # args) (process (s, n)) =
    Some (-1, process (s, n'))"
proof -
  have "List.find (\<lambda>x. at_name (snd x) = cl_key c) (listed_attrs (group_attrs (swdevs s ! k) (cli_group c))) = None"
    using assms(7) by (auto simp: find_None_iff)
  then show ?thesis
    using main_lookup [OF assms(1-6), of umax admin uninit configs] by auto
qed

lemma swconfig_cli_unknown_witness:
  "\<exists>n'. swconfig_main 4294967295 (switch_kern wide_env True) 0 (\<lambda>_. None) [''dev'', ''switch0'', ''get'', ''nothing'']
      (process (\<lparr>swdevs = [s_dev], swdev_id = 1\<rparr>, plain_net)) =
    Some (-1, process (\<lparr>swdevs = [s_dev], swdev_id = 1\<rparr>, n'))"
proof -
  let ?c = "\<lparr>cl_cmd = CMD_GET, cl_port = -1, cl_vlan = -1, cl_key = ''nothing'', cl_value = None, cl_segment = None\<rparr>"
  have args: "parse_args [''get'', ''nothing''] cli_start = Some (Some ?c)" by (simp add: cli_start_def)
  have "\<forall>a \<in> set (fst (global_attrs s_dev)). at_name a \<noteq> ''nothing''" "\<forall>a \<in> set (fst (snd (global_attrs s_dev))). at_name a \<noteq> ''nothing''"
    by (simp_all add: global_attrs_def default_global_def s_dev_def rtl8366s_switch_def rtl8366_ops_def rtl8366s_globals_def
        int_attr_def noval_attr_def)
  note listed_all [OF this]
  then have "\<forall>x \<in> set (listed_attrs (group_attrs (swdevs \<lparr>swdevs = [s_dev], swdev_id = 1\<rparr> ! 0) (cli_group ?c))). at_name (snd x) \<noteq> cl_key ?c"
    by (simp add: cli_group_def group_attrs_def)
  then show ?thesis
    using swconfig_cli_unknown [OF s_target wide_kernel args _ _ _, of 4294967295 True 0 "\<lambda>_. None"] by simp
qed

text \<open>
  What the command line prints for a list of ports is read back as this list when it is given to
  \<open>set\<close>, when the ports are not more than the switch has and their numbers are not negative as an \<open>int\<close>.
\<close>

theorem swlib_ports_text:
  assumes "\<forall>p \<in> set ps. uint (up_id p) < 2 ^ 31" "int (length ps) \<le> ud_ports dev" "2 ^ 31 \<le> umax"
    and "attr_val_text SWITCH_TYPE_PORTS val = Some w" "uv_value val = W_ports ps"
  shows "string_value umax dev SWITCH_TYPE_PORTS (Some w) = Some (Inr (W_ports ps))"
  using parse_port_texts [OF assms(1), of "[]" "ud_ports dev" umax] assms(2-5)
  by (auto simp: attr_val_text_def string_value_def)

lemma swlib_ports_text_witness:
  "string_value 4294967295 (user_dev s_dev) SWITCH_TYPE_PORTS (Some ''3t '') = Some (Inr (W_ports [\<lparr>up_id = 3, up_tagged = True\<rparr>]))"
proof -
  let ?val = "(val_for 1)\<lparr>uv_value := W_ports [\<lparr>up_id = 3, up_tagged = True\<rparr>]\<rparr>"
  have "show_int 3 = ''3''" by code_simp
  then have "attr_val_text SWITCH_TYPE_PORTS ?val = Some ''3t ''" by (simp add: attr_val_text_def port_text_def)
  moreover have "ud_ports (user_dev s_dev) = 6" by (simp add: user_dev_def s_dev_def rtl8366s_switch_def)
  ultimately show ?thesis
    using swlib_ports_text [of "[\<lparr>up_id = 3, up_tagged = True\<rparr>]" "user_dev s_dev" 4294967295 ?val "''3t ''"] by simp
qed

section \<open>Configuration files\<close>

definition named_attrs :: "swl_dev \<Rightarrow> bool" where
  "named_attrs dev \<longleftrightarrow> (\<forall>g. \<forall>a \<in> set (dev_attrs dev g). ua_name a \<noteq> None)"

definition known_attr :: "swl_dev \<Rightarrow> swlib_attr_group \<Rightarrow> string \<Rightarrow> swl_attr option" where
  "known_attr dev g name = List.find (\<lambda>a. ua_name a = Some name) (dev_attrs dev g)"

lemma find_attr_named: "\<forall>a \<in> set as. ua_name a \<noteq> None \<Longrightarrow> find_attr name as = Some (List.find (\<lambda>a. ua_name a = Some name) as)"
  by (induction as) auto

lemma lookup_known: "named_attrs dev \<Longrightarrow> swlib_lookup_attr dev g name = Some (known_attr dev g name)"
  by (simp add: swlib_lookup_attr_def known_attr_def named_attrs_def find_attr_named)

text \<open>The value an early setting ends with, and the other settings of a section.\<close>

fun early_value :: "(string \<times> string option) list \<Rightarrow> string \<Rightarrow> string \<Rightarrow> string" where
  "early_value [] name v = v"
| "early_value ((n, w) # os) name v = early_value os name (case w of Some w \<Rightarrow> if n = name then w else v | None \<Rightarrow> v)"

definition option_plan :: "swl_dev \<Rightarrow> swlib_attr_group \<Rightarrow> int \<Rightarrow> string \<times> string option \<Rightarrow> setting list" where
  "option_plan dev g num x =
     (case (snd x, known_attr dev g (fst x)) of
        (Some v, Some a) \<Rightarrow>
          if fst x = ''device'' \<or> g = SWLIB_ATTR_GROUP_GLOBAL \<and> fst x \<in> {''reset'', ''enable_vlan''} then []
          else [\<lparr>set_attr = Some a, set_port_vlan = num, set_val = v\<rparr>]
      | _ \<Rightarrow> [])"

definition section_plan :: "nat \<Rightarrow> swl_dev \<Rightarrow> uci_section \<Rightarrow> setting list" where
  "section_plan umax dev s =
     (if uci_type s = ''switch_port''
      then (case section_number umax dev ''port'' s of None \<Rightarrow> []
        | Some n \<Rightarrow> concat (map (option_plan dev SWLIB_ATTR_GROUP_PORT n) (uci_options s)))
      else if uci_type s = ''switch_vlan''
      then (case section_number umax dev ''vlan'' s of None \<Rightarrow> []
        | Some n \<Rightarrow> concat (map (option_plan dev SWLIB_ATTR_GROUP_VLAN n) (uci_options s)))
      else [])"

definition early_plan :: "swl_dev \<Rightarrow> (string \<times> string option) list \<Rightarrow> string \<Rightarrow> setting" where
  "early_plan dev os name = \<lparr>set_attr = known_attr dev SWLIB_ATTR_GROUP_GLOBAL name, set_port_vlan = 0,
     set_val = early_value os name ''1''\<rparr>"

definition uci_plan :: "nat \<Rightarrow> swl_dev \<Rightarrow> uci_section list \<Rightarrow> uci_section \<Rightarrow> setting list" where
  "uci_plan umax dev p sec =
     [early_plan dev (uci_options sec) ''reset'', early_plan dev (uci_options sec) ''enable_vlan''] @
     concat (map (option_plan dev SWLIB_ATTR_GROUP_GLOBAL 0) (uci_options sec)) @ concat (map (section_plan umax dev) p)"

lemma map_settings_plan:
  assumes "named_attrs dev"
  shows "swlib_map_settings dev g num os [(''reset'', r), (''enable_vlan'', e)] sts =
    Some ([(''reset'', if g = SWLIB_ATTR_GROUP_GLOBAL then early_value os ''reset'' r else r),
           (''enable_vlan'', if g = SWLIB_ATTR_GROUP_GLOBAL then early_value os ''enable_vlan'' e else e)],
      sts @ concat (map (option_plan dev g num) os))"
proof (induction os arbitrary: r e sts)
  case (Cons x os)
  obtain n w where x: "x = (n, w)" by (cases x)
  show ?case
  proof (cases w)
    case None
    then show ?thesis using Cons x by (simp add: option_plan_def)
  next
    case (Some v)
    show ?thesis
    proof (cases "g = SWLIB_ATTR_GROUP_GLOBAL \<and> n \<in> {''reset'', ''enable_vlan''}")
      case True
      then show ?thesis using Cons x Some by (auto simp: option_plan_def split: option.split)
    next
      case False
      then show ?thesis
        using Cons x Some lookup_known [OF assms, of g n]
        by (cases "known_attr dev g n"; cases "n = ''device''") (auto simp: option_plan_def)
    qed
  qed
qed simp

lemma map_sections_plan:
  assumes "named_attrs dev"
  shows "map_sections umax dev p [(''reset'', r), (''enable_vlan'', e)] sts =
    Some ([(''reset'', r), (''enable_vlan'', e)], sts @ concat (map (section_plan umax dev) p))"
proof (induction p arbitrary: sts)
  case (Cons sec p)
  then show ?case
    by (cases "section_number umax dev ''port'' sec"; cases "section_number umax dev ''vlan'' sec")
      (simp_all add: section_plan_def map_settings_plan [OF assms])
qed simp


text \<open>A kernel that keeps what it was asked, and a switch with two attributes.\<close>

definition log_kern :: "(switch_cmd \<times> nla list) list kern" where
  "log_kern = \<lparr>k_family = True, k_doit = (\<lambda>cmd as k. Some (0, [], k @ [(cmd, as)])), k_dump = (\<lambda>cmd k. Some (0, [], k))\<rparr>"

definition log_dev :: swl_dev where
  "log_dev = \<lparr>ud_id = 1, ud_dev_name = ''switch0'', ud_name = None, ud_alias = ''eth0'', ud_ports = 6, ud_vlans = 16, ud_cpu_port = 5,
     ud_ops = [\<lparr>ua_atype = SWLIB_ATTR_GROUP_GLOBAL, ua_id = 7, ua_type = SWITCH_TYPE_INT, ua_name = Some ''mode'', ua_description = None\<rparr>,
       \<lparr>ua_atype = SWLIB_ATTR_GROUP_GLOBAL, ua_id = 4097, ua_type = SWITCH_TYPE_NOVAL, ua_name = Some ''reset'', ua_description = None\<rparr>],
     ud_port_ops = [], ud_vlan_ops = [], ud_maps = None\<rparr>"


section \<open>The room for a text\<close>

definition text_room :: "swlib_attr_group \<Rightarrow> nat" where
  "text_room g = (if g = SWLIB_ATTR_GROUP_GLOBAL then 4019 else 4003)"



section \<open>Switches without VLANs\<close>

text \<open>
  \<open>show\<close> looks at the VLANs of a switch without a look whether it has the attribute \<open>ports\<close>: with a
  driver that has VLANs and not this attribute, the program reads a null pointer.
\<close>

lemma show_without_ports:
  "swlib_lookup_attr dev SWLIB_ATTR_GROUP_VLAN ''ports'' = Some None \<Longrightarrow> show_vlan kern dev vlan True s = None"
  by (simp add: show_vlan_def)

text \<open>A link without a speed is a null pointer that is read; a message for a switch without an alias as well.\<close>

lemma link_without_speed:
  "nla_parse as SWITCH_LINK_SPEED = None \<Longrightarrow> validate_all swl_link_policy as = Some True \<Longrightarrow> store_link_val (N_nest a as) old = None"
  by (simp add: store_link_val_def nla_parse_nested_def)

end
