(* ===== verification/Swconfig_Leds.thy ===== *)
theory Swconfig_Leds
  imports Swconfig
begin

text \<open>
  LEDs that show the state of the ports of a switch
  (\<open>src/openwrt/target/linux/generic/files/drivers/net/phy/swconfig_leds.c\<close>): a LED trigger for
  each switch, the files of a LED that choose ports, speeds and mode, and the work that reads the
  ports every tenth of a second and sets the LEDs.
\<close>

section \<open>State\<close>

definition SWCONFIG_LED_NUM_PORTS :: nat where "SWCONFIG_LED_NUM_PORTS = 32"
definition SWCONFIG_LED_PORT_SPEED_NA :: u8 where "SWCONFIG_LED_PORT_SPEED_NA = 0x01"
definition SWCONFIG_LED_PORT_SPEED_10 :: u8 where "SWCONFIG_LED_PORT_SPEED_10 = 0x02"
definition SWCONFIG_LED_PORT_SPEED_100 :: u8 where "SWCONFIG_LED_PORT_SPEED_100 = 0x04"
definition SWCONFIG_LED_PORT_SPEED_1000 :: u8 where "SWCONFIG_LED_PORT_SPEED_1000 = 0x08"
definition SWCONFIG_LED_PORT_SPEED_ALL :: u8 where "SWCONFIG_LED_PORT_SPEED_ALL = 0x0F"
definition SWCONFIG_LED_MODE_LINK :: u8 where "SWCONFIG_LED_MODE_LINK = 0x01"
definition SWCONFIG_LED_MODE_TX :: u8 where "SWCONFIG_LED_MODE_TX = 0x02"
definition SWCONFIG_LED_MODE_RX :: u8 where "SWCONFIG_LED_MODE_RX = 0x04"
definition SWCONFIG_LED_MODE_ALL :: u8 where "SWCONFIG_LED_MODE_ALL = 0x07"

lemmas led_speeds = SWCONFIG_LED_PORT_SPEED_NA_def SWCONFIG_LED_PORT_SPEED_10_def
  SWCONFIG_LED_PORT_SPEED_100_def SWCONFIG_LED_PORT_SPEED_1000_def SWCONFIG_LED_PORT_SPEED_ALL_def
lemmas led_modes = SWCONFIG_LED_MODE_LINK_def SWCONFIG_LED_MODE_TX_def SWCONFIG_LED_MODE_RX_def
  SWCONFIG_LED_MODE_ALL_def

datatype led_brightness = LED_OFF | LED_FULL

text \<open>
  \<open>struct swconfig_trig_data\<close> of a LED, with the brightness the LED was given last.  An
  \<open>unsigned long\<close> of \<open>lb\<close> bits, 32 or 64, is a word of 64 bits of which the others are 0.
\<close>

record trig_data =
  td_port_mask :: u32
  td_prev_link :: bool
  td_prev_traffic :: "64 word"
  td_prev_brightness :: led_brightness
  td_mode :: u8
  td_speed_mask :: u8
  td_led :: led_brightness

text \<open>
  \<open>struct switch_led_trigger\<close> with the LEDs on its list; a LED for which there was no memory has no
  data.  \<open>tr_scheduled\<close> says whether the work is going to run.
\<close>

record switch_led_trigger =
  tr_leds :: "trig_data option list"
  tr_scheduled :: bool
  tr_port_mask :: u32
  tr_port_link :: u32
  tr_tx_traffic :: "nat \<Rightarrow> 64 word"
  tr_rx_traffic :: "nat \<Rightarrow> 64 word"
  tr_link_speed :: "nat \<Rightarrow> u8"

definition swconfig_trig_set_brightness :: "led_brightness \<Rightarrow> trig_data \<Rightarrow> trig_data" where
  "swconfig_trig_set_brightness b t = t\<lparr>td_led := b, td_prev_brightness := b\<rparr>"

section \<open>Files of a LED\<close>

definition trig_mask :: "trig_data option \<Rightarrow> u32" where
  "trig_mask led = (case led of None \<Rightarrow> 0 | Some t \<Rightarrow> td_port_mask t)"

definition swconfig_trig_update_port_mask :: "switch_led_trigger \<Rightarrow> switch_led_trigger" where
  "swconfig_trig_update_port_mask sw =
     (let port_mask = fold (\<lambda>led mask. mask OR trig_mask led) (tr_leds sw) 0 in
      sw\<lparr>tr_port_mask := port_mask, tr_scheduled := (port_mask \<noteq> 0)\<rparr>)"

text \<open>
  What is written was read as a number, or refused (\<open>kstrtoul\<close>, \<open>kstrtou8\<close>); a LED without data
  has no files.  The mask of ports is read as an
  \<open>unsigned long\<close>, compared at that width, and kept in 32 bits.
\<close>

definition swconfig_trig_port_mask_store ::
  "nat \<Rightarrow> int + 64 word \<Rightarrow> switch_led_trigger \<Rightarrow> (int + unit) \<times> switch_led_trigger" where
  "swconfig_trig_port_mask_store k port_mask sw =
     (case (port_mask, tr_leds sw ! k) of
        (Inl err, _) \<Rightarrow> (Inl err, sw)
      | (Inr port_mask, None) \<Rightarrow> (Inl ENODEV, sw)
      | (Inr port_mask, Some t) \<Rightarrow>
          let changed = (unat (td_port_mask t) \<noteq> unat port_mask);
              t = t\<lparr>td_port_mask := ucast port_mask\<rparr>;
              t = (if changed \<and> port_mask = 0 then swconfig_trig_set_brightness LED_OFF t else t);
              sw = sw\<lparr>tr_leds := (tr_leds sw)[k := Some t]\<rparr>
          in (Inr (), if changed then swconfig_trig_update_port_mask sw else sw))"

definition swconfig_trig_speed_mask_store :: "int + u8 \<Rightarrow> trig_data \<Rightarrow> (int + unit) \<times> trig_data" where
  "swconfig_trig_speed_mask_store speed_mask t =
     (case speed_mask of
        Inl err \<Rightarrow> (Inl err, t)
      | Inr m \<Rightarrow> (Inr (), t\<lparr>td_speed_mask := m AND SWCONFIG_LED_PORT_SPEED_ALL\<rparr>))"

definition swconfig_trig_mode_show :: "trig_data \<Rightarrow> string" where
  "swconfig_trig_mode_show t =
     (let mode = td_mode t in
      if mode = 0 then ''none'' @ [CHR 0x0A]
      else (if mode AND SWCONFIG_LED_MODE_LINK \<noteq> 0 then ''link '' else []) @
           (if mode AND SWCONFIG_LED_MODE_TX \<noteq> 0 then ''tx '' else []) @
           (if mode AND SWCONFIG_LED_MODE_RX \<noteq> 0 then ''rx '' else []) @ [CHR 0x0A])"

text \<open>\<open>strsep(&p, " \t\n")\<close> to the end of the text: the tokens between the separators, empty ones too.\<close>

definition is_sep :: "char \<Rightarrow> bool" where
  "is_sep c \<longleftrightarrow> c = CHR '' '' \<or> c = CHR 0x09 \<or> c = CHR 0x0A"

fun strsep_all :: "string \<Rightarrow> string list" where
  "strsep_all [] = [[]]"
| "strsep_all (c # cs) =
     (if is_sep c then [] # strsep_all cs
      else case strsep_all cs of [] \<Rightarrow> [[c]] | token # tokens \<Rightarrow> (c # token) # tokens)"

text \<open>\<open>new_mode\<close> is -1 until a token was seen, which is \<open>None\<close>.\<close>

fun mode_loop :: "string list \<Rightarrow> u8 option \<Rightarrow> int + u8 option" where
  "mode_loop [] new_mode = Inr new_mode"
| "mode_loop (token # tokens) new_mode =
     (if token = [] then mode_loop tokens new_mode
      else
        let m = (case new_mode of None \<Rightarrow> 0 | Some m \<Rightarrow> m) in
        if token = ''none'' then mode_loop tokens (Some 0)
        else if token = ''tx'' then mode_loop tokens (Some (m OR SWCONFIG_LED_MODE_TX))
        else if token = ''rx'' then mode_loop tokens (Some (m OR SWCONFIG_LED_MODE_RX))
        else if token = ''link'' then mode_loop tokens (Some (m OR SWCONFIG_LED_MODE_LINK))
        else Inl EINVAL)"

text \<open>Only 127 bytes of the text are copied, up to its end.\<close>

definition swconfig_trig_mode_store :: "string \<Rightarrow> trig_data \<Rightarrow> (int + unit) \<times> trig_data" where
  "swconfig_trig_mode_store buf t =
     (case mode_loop (strsep_all (takeWhile (\<lambda>c. c \<noteq> CHR 0x00) (take 127 buf))) None of
        Inl err \<Rightarrow> (Inl err, t)
      | Inr None \<Rightarrow> (Inl EINVAL, t)
      | Inr (Some new_mode) \<Rightarrow> (Inr (), t\<lparr>td_mode := new_mode\<rparr>))"

section \<open>LEDs come and go\<close>

text \<open>The data of a LED that is given the trigger, if its memory and its three files are made.\<close>

definition swconfig_trig_activate :: "bool \<Rightarrow> (nat \<Rightarrow> int) \<Rightarrow> led_brightness \<Rightarrow> trig_data option" where
  "swconfig_trig_activate memory create led =
     (if \<not> memory \<or> create 0 \<noteq> 0 \<or> create 1 \<noteq> 0 \<or> create 2 \<noteq> 0 then None
      else Some \<lparr>td_port_mask = 0, td_prev_link = False, td_prev_traffic = 0, td_prev_brightness = LED_OFF,
        td_mode = SWCONFIG_LED_MODE_ALL, td_speed_mask = SWCONFIG_LED_PORT_SPEED_ALL, td_led = led\<rparr>)"

text \<open>The LED was taken off the list before.\<close>

definition swconfig_trig_deactivate :: "switch_led_trigger \<Rightarrow> switch_led_trigger" where
  "swconfig_trig_deactivate sw = swconfig_trig_update_port_mask sw"

section \<open>The work\<close>

text \<open>The loop over the ports: the traffic of the ports whose speed matches, and whether there is one.\<close>

fun traffic_loop :: "nat \<Rightarrow> switch_led_trigger \<Rightarrow> trig_data \<Rightarrow> nat list \<Rightarrow> 64 word \<Rightarrow> bool \<Rightarrow> 64 word \<times> bool" where
  "traffic_loop lb sw t [] traffic speedok = (traffic, speedok)"
| "traffic_loop lb sw t (i # is) traffic speedok =
     (if bit (td_port_mask t) i \<and> tr_link_speed sw i AND td_speed_mask t \<noteq> 0
      then traffic_loop lb sw t is
        (take_bit lb (traffic + ((if td_mode t AND SWCONFIG_LED_MODE_TX \<noteq> 0 then tr_tx_traffic sw i else 0) +
                          (if td_mode t AND SWCONFIG_LED_MODE_RX \<noteq> 0 then tr_rx_traffic sw i else 0)))) True
      else traffic_loop lb sw t is traffic speedok)"

definition swconfig_trig_led_event :: "nat \<Rightarrow> switch_led_trigger \<Rightarrow> trig_data \<Rightarrow> trig_data" where
  "swconfig_trig_led_event lb sw t =
     (let link = (tr_port_link sw AND td_port_mask t \<noteq> 0);
          t = (if \<not> link
               then if td_prev_brightness t \<noteq> LED_OFF then swconfig_trig_set_brightness LED_OFF t else t
               else
                 let (traffic, speedok) = traffic_loop lb sw t [0..<SWCONFIG_LED_NUM_PORTS] 0 False;
                     (led_base, led_blink) =
                       (if td_mode t AND SWCONFIG_LED_MODE_LINK = 0 then (LED_OFF, LED_FULL) else (LED_FULL, LED_OFF));
                     t = (if speedok
                          then if td_prev_brightness t \<noteq> led_base then swconfig_trig_set_brightness led_base t
                               else if traffic \<noteq> td_prev_traffic t then swconfig_trig_set_brightness led_blink t
                               else t
                          else if td_prev_brightness t \<noteq> LED_OFF then swconfig_trig_set_brightness LED_OFF t
                          else t)
                 in t\<lparr>td_prev_traffic := traffic\<rparr>)
      in t\<lparr>td_prev_link := link\<rparr>)"

definition swconfig_trig_update_leds :: "nat \<Rightarrow> switch_led_trigger \<Rightarrow> switch_led_trigger" where
  "swconfig_trig_update_leds lb sw = sw\<lparr>tr_leds := map (map_option (swconfig_trig_led_event lb sw)) (tr_leds sw)\<rparr>"

text \<open>What one port reports; errors are not looked at and leave the cleared memory.\<close>

definition or_else :: "('c, 'a) drv \<Rightarrow> 'a \<Rightarrow> 'c \<Rightarrow> 'a \<times> 'c" where
  "or_else f a c = (case f c of (Inl _, c') \<Rightarrow> (a, c') | (Inr b, c') \<Rightarrow> (b, c'))"

definition led_speed :: "u32 \<Rightarrow> u8" where
  "led_speed speed =
     (if speed = SWITCH_PORT_SPEED_UNKNOWN then SWCONFIG_LED_PORT_SPEED_NA
      else if speed = SWITCH_PORT_SPEED_10 then SWCONFIG_LED_PORT_SPEED_10
      else if speed = SWITCH_PORT_SPEED_100 then SWCONFIG_LED_PORT_SPEED_100
      else if speed = SWITCH_PORT_SPEED_1000 then SWCONFIG_LED_PORT_SPEED_1000
      else 0)"

definition read_link :: "'c switch_dev_ops \<Rightarrow> nat \<Rightarrow> 'c \<Rightarrow> switch_port_link \<times> 'c" where
  "read_link sops i c = (case op_get_port_link sops of None \<Rightarrow> (link_zero, c) | Some f \<Rightarrow> or_else (f i link_zero) link_zero c)"

fun led_ports_loop ::
  "'c switch_dev_ops \<Rightarrow> nat list \<Rightarrow> switch_led_trigger \<Rightarrow> u32 \<Rightarrow> 'c \<Rightarrow> u32 \<times> switch_led_trigger \<times> 'c" where
  "led_ports_loop sops [] sw link c = (link, sw, c)"
| "led_ports_loop sops (i # is) sw link c =
     (let sw = sw\<lparr>tr_link_speed := (tr_link_speed sw)(i := 0)\<rparr> in
      if \<not> bit (tr_port_mask sw) i then led_ports_loop sops is sw link c
      else
        let (port_link, c) = read_link sops i c;
            (link, sw) =
              (if link_link port_link
               then (link OR push_bit i 1, sw\<lparr>tr_link_speed := (tr_link_speed sw)(i := led_speed (link_speed port_link))\<rparr>)
               else (link, sw));
            (sw, c) =
              (case op_get_port_stats sops of
                 None \<Rightarrow> (sw, c)
               | Some f \<Rightarrow>
                   let ((tx, rx), c) = or_else (f i) (0, 0) c in
                   (sw\<lparr>tr_tx_traffic := (tr_tx_traffic sw)(i := tx), tr_rx_traffic := (tr_rx_traffic sw)(i := rx)\<rparr>, c))
        in led_ports_loop sops is sw link c)"

definition swconfig_led_work_func :: "nat \<Rightarrow> 'c switch_dev_ops \<Rightarrow> switch_led_trigger \<Rightarrow> 'c \<Rightarrow> switch_led_trigger \<times> 'c" where
  "swconfig_led_work_func lb sops sw c =
     (let (link, sw, c) = led_ports_loop sops [0..<SWCONFIG_LED_NUM_PORTS] sw 0 c;
          sw = swconfig_trig_update_leds lb (sw\<lparr>tr_port_link := link\<rparr>)
      in (sw\<lparr>tr_scheduled := True\<rparr>, c))"

text \<open>The trigger of a switch: none when the driver does not report links.\<close>

definition swconfig_create_led_trigger ::
  "bool \<Rightarrow> int \<Rightarrow> 'c switch_dev_ops \<Rightarrow> int + switch_led_trigger option" where
  "swconfig_create_led_trigger memory register sops =
     (if op_get_port_link sops = None then Inr None
      else if \<not> memory then Inl ENOMEM
      else if register \<noteq> 0 then Inl register
      else Inr (Some \<lparr>tr_leds = [], tr_scheduled = False, tr_port_mask = 0, tr_port_link = 0,
        tr_tx_traffic = (\<lambda>_. 0), tr_rx_traffic = (\<lambda>_. 0), tr_link_speed = (\<lambda>_. 0)\<rparr>))"

end
