(* ===== verification/Swconfig_Leds_Facts.thy ===== *)
theory Swconfig_Leds_Facts
  imports Swconfig_Leds
begin

text \<open>
  What the LEDs of a switch show, what the trigger of a switch keeps true of its LEDs, and the mode
  of a LED as a text.
\<close>

section \<open>The mode as a text\<close>

lemma mode_cases:
  assumes "m \<le> (7 :: u8)"
  shows "m \<in> {0, 1, 2, 3, 4, 5, 6, 7}"
proof -
  have "unat m < 8" using assms by (simp add: word_le_nat_alt)
  then have "unat m \<in> {0, 1, 2, 3, 4, 5, 6, 7}" by auto
  then show ?thesis by (auto simp: word_unat_eq_iff)
qed

lemma mode_or_le: "m \<le> 7 \<Longrightarrow> k \<in> {1, 2, 4} \<Longrightarrow> m OR k \<le> (7 :: u8)"
  using mode_cases [of m] by auto

lemma mode_loop_le:
  "mode_loop tokens new_mode = Inr (Some m) \<Longrightarrow> (\<forall>k. new_mode = Some k \<longrightarrow> k \<le> 7) \<Longrightarrow> m \<le> 7"
proof (induction tokens new_mode rule: mode_loop.induct)
  case (2 token tokens new_mode)
  have le: "(case new_mode of None \<Rightarrow> 0 | Some k \<Rightarrow> k) \<le> 7"
    using 2(7) by (auto split: option.split)
  show ?case
    using 2 le by (auto simp: Let_def led_modes mode_or_le split: if_splits)
qed simp

text \<open>
  The mode of a LED that was stored from a text is one of the eight modes, and the text that is
  shown for it stores the same mode again, in any LED.
\<close>

theorem led_mode_roundtrip:
  assumes "swconfig_trig_mode_store buf t = (Inr (), t')"
  shows "td_mode t' \<le> 7 \<and> swconfig_trig_mode_store (swconfig_trig_mode_show t') u = (Inr (), u\<lparr>td_mode := td_mode t'\<rparr>)"
proof -
  obtain m where "mode_loop (strsep_all (takeWhile (\<lambda>c. c \<noteq> CHR 0x00) (take 127 buf))) None = Inr (Some m)" and t': "td_mode t' = m"
    using assms by (auto simp: swconfig_trig_mode_store_def split: sum.splits option.splits)
  then have m: "m \<le> 7" by (auto dest: mode_loop_le)
  then show ?thesis
    unfolding t' swconfig_trig_mode_show_def swconfig_trig_mode_store_def Let_def
    using mode_cases [OF m] by (auto simp: led_modes is_sep_def)
qed

text \<open>A LED that was just given the trigger.\<close>

definition new_led :: trig_data where
  "new_led = the (swconfig_trig_activate True (\<lambda>_. 0) LED_OFF)"

lemma led_mode_roundtrip_witness:
  "\<exists>t. swconfig_trig_mode_store '' link  rx'' new_led = (Inr (), t) \<and> td_mode t = 5 \<and>
     swconfig_trig_mode_store (swconfig_trig_mode_show t) new_led = (Inr (), t)"
proof -
  have "swconfig_trig_mode_store '' link  rx'' new_led = (Inr (), new_led\<lparr>td_mode := 5\<rparr>)"
    by (simp add: swconfig_trig_mode_store_def is_sep_def led_modes)
  with led_mode_roundtrip [OF this, of new_led] show ?thesis by auto
qed

section \<open>The ports of a trigger\<close>

text \<open>What happens to the LEDs of a trigger, in any order; the work runs only when it is scheduled.\<close>

inductive led_reach :: "'c switch_dev_ops \<Rightarrow> switch_led_trigger \<Rightarrow> bool" for sops where
  create: "swconfig_create_led_trigger memory reg sops = Inr (Some sw) \<Longrightarrow> led_reach sops sw"
| activate: "led_reach sops sw \<Longrightarrow> led_reach sops (sw\<lparr>tr_leds := tr_leds sw @ [swconfig_trig_activate memory files b]\<rparr>)"
| deactivate: "led_reach sops sw \<Longrightarrow>
    led_reach sops (swconfig_trig_deactivate (sw\<lparr>tr_leds := take k (tr_leds sw) @ drop (Suc k) (tr_leds sw)\<rparr>))"
| ports: "led_reach sops sw \<Longrightarrow> k < length (tr_leds sw) \<Longrightarrow> led_reach sops (snd (swconfig_trig_port_mask_store k m sw))"
| speeds: "led_reach sops sw \<Longrightarrow> k < length (tr_leds sw) \<Longrightarrow> tr_leds sw ! k = Some t \<Longrightarrow>
    led_reach sops (sw\<lparr>tr_leds := (tr_leds sw)[k := Some (snd (swconfig_trig_speed_mask_store speeds t))]\<rparr>)"
| mode: "led_reach sops sw \<Longrightarrow> k < length (tr_leds sw) \<Longrightarrow> tr_leds sw ! k = Some t \<Longrightarrow>
    led_reach sops (sw\<lparr>tr_leds := (tr_leds sw)[k := Some (snd (swconfig_trig_mode_store buf t))]\<rparr>)"
| work: "led_reach sops sw \<Longrightarrow> tr_scheduled sw \<Longrightarrow> led_reach sops (fst (swconfig_led_work_func lb sops sw c))"

definition all_ports :: "u32 list \<Rightarrow> u32" where
  "all_ports masks = fold (\<lambda>m mask. mask OR m) masks 0"

definition trigger_inv :: "switch_led_trigger \<Rightarrow> bool" where
  "trigger_inv sw \<longleftrightarrow> tr_port_mask sw = all_ports (map trig_mask (tr_leds sw)) \<and> (tr_scheduled sw \<longleftrightarrow> tr_port_mask sw \<noteq> 0)"

lemma fold_or: "fold (\<lambda>m mask. mask OR m) masks a = a OR fold (\<lambda>m mask. mask OR m) masks (0 :: u32)"
proof (induction masks arbitrary: a)
  case (Cons m masks)
  show ?case using Cons [of "a OR m"] Cons [of m] by (simp add: or.assoc)
qed simp

lemma all_ports_snoc [simp]: "all_ports (masks @ [m]) = all_ports masks OR m"
  by (simp add: all_ports_def)

lemma bit_all_ports: "bit (all_ports masks) i \<longleftrightarrow> (\<exists>m \<in> set masks. bit m i)"
proof (induction masks)
  case (Cons m masks)
  have "all_ports (m # masks) = m OR all_ports masks"
    using fold_or [of masks m] by (simp add: all_ports_def)
  then show ?case using Cons by (simp add: bit_or_iff)
qed (simp add: all_ports_def)

lemma update_port_mask:
  "swconfig_trig_update_port_mask sw =
     sw\<lparr>tr_port_mask := all_ports (map trig_mask (tr_leds sw)), tr_scheduled := (all_ports (map trig_mask (tr_leds sw)) \<noteq> 0)\<rparr>"
  by (simp add: swconfig_trig_update_port_mask_def all_ports_def fold_map comp_def Let_def)

lemma trigger_inv_update: "trigger_inv (swconfig_trig_update_port_mask sw)"
  by (simp add: trigger_inv_def update_port_mask)

lemma trigger_inv_masks:
  "trigger_inv sw \<Longrightarrow> map trig_mask leds = map trig_mask (tr_leds sw) \<Longrightarrow> trigger_inv (sw\<lparr>tr_leds := leds\<rparr>)"
  by (simp add: trigger_inv_def)

lemma trigger_inv_led:
  "trigger_inv sw \<Longrightarrow> trig_mask led = trig_mask (tr_leds sw ! k) \<Longrightarrow> trigger_inv (sw\<lparr>tr_leds := (tr_leds sw)[k := led]\<rparr>)"
  by (intro trigger_inv_masks) (metis list_update_id map_update)+

lemma led_event_mask [simp]: "td_port_mask (swconfig_trig_led_event lb sw t) = td_port_mask t"
  by (auto simp: swconfig_trig_led_event_def swconfig_trig_set_brightness_def Let_def split: prod.split)

lemma trig_mask_event [simp]: "trig_mask (map_option (swconfig_trig_led_event lb sw) led) = trig_mask led"
  by (cases led) (simp_all add: trig_mask_def)

lemma led_ports_loop_leds:
  "led_ports_loop sops is sw link c = (link', sw', c') \<Longrightarrow>
     tr_leds sw' = tr_leds sw \<and> tr_port_mask sw' = tr_port_mask sw \<and> tr_scheduled sw' = tr_scheduled sw"
proof (induction "is" arbitrary: sw link c)
  case (Cons i "is")
  show ?case
    using Cons.prems Cons.IH by (auto simp: Let_def split: if_splits prod.splits option.splits dest!: Cons.IH)
qed simp

lemma work_inv:
  assumes "trigger_inv sw" "tr_scheduled sw"
  shows "trigger_inv (fst (swconfig_led_work_func lb sops sw c))"
proof -
  obtain link sw1 c1 where loop: "led_ports_loop sops [0..<SWCONFIG_LED_NUM_PORTS] sw 0 c = (link, sw1, c1)"
    by (metis prod_cases3)
  have "map trig_mask (map (map_option (swconfig_trig_led_event lb (sw1\<lparr>tr_port_link := link\<rparr>))) (tr_leds sw1)) =
      map trig_mask (tr_leds sw)"
    using led_ports_loop_leds [OF loop] by (simp add: comp_def)
  then show ?thesis
    using assms led_ports_loop_leds [OF loop]
    by (simp add: swconfig_led_work_func_def loop swconfig_trig_update_leds_def trigger_inv_def comp_def) auto
qed

lemma port_mask_store_inv:
  assumes "trigger_inv sw" "k < length (tr_leds sw)"
  shows "trigger_inv (snd (swconfig_trig_port_mask_store k m sw))"
proof (cases m)
  case (Inr port_mask)
  show ?thesis
  proof (cases "tr_leds sw ! k")
    case (Some t)
    show ?thesis
    proof (cases "unat (td_port_mask t) = unat port_mask")
      case True
      then have "ucast port_mask = td_port_mask t"
        using unsigned_less [of "td_port_mask t", where 'a = nat]
        by (simp add: word_unat_eq_iff unsigned_ucast_eq unsigned_take_bit_eq flip: True) (simp add: take_bit_nat_eq_self)
      then show ?thesis
        using assms Inr Some True
        by (auto simp: swconfig_trig_port_mask_store_def Let_def trig_mask_def intro!: trigger_inv_led)
    next
      case False
      then show ?thesis
        using Inr Some by (simp add: swconfig_trig_port_mask_store_def Let_def trigger_inv_update)
    qed
  qed (use assms Inr in \<open>simp add: swconfig_trig_port_mask_store_def\<close>)
qed (use assms in \<open>simp add: swconfig_trig_port_mask_store_def\<close>)

lemma led_trigger_inv: "led_reach sops sw \<Longrightarrow> trigger_inv sw"
proof (induction rule: led_reach.induct)
  case (create memory reg sw)
  then show ?case
    by (auto simp: swconfig_create_led_trigger_def trigger_inv_def all_ports_def split: if_splits)
next
  case (activate sw memory files b)
  then show ?case
    by (simp add: trigger_inv_def trig_mask_def swconfig_trig_activate_def)
next
  case (deactivate sw k)
  then show ?case by (simp add: swconfig_trig_deactivate_def trigger_inv_update)
next
  case (speeds sw k t speeds)
  then show ?case
    by (auto intro!: trigger_inv_led simp: trig_mask_def swconfig_trig_speed_mask_store_def split: sum.split)
next
  case (mode sw k t buf)
  then show ?case
    by (auto intro!: trigger_inv_led simp: trig_mask_def swconfig_trig_mode_store_def split: sum.split option.split)
qed (auto intro: port_mask_store_inv work_inv)

text \<open>
  C28: Whatever LEDs are given to the trigger of a switch and taken from it, whatever is written to
  their files and whenever the work runs: the ports that the work reads are exactly those that some
  LED has chosen, and the work is scheduled exactly while there is one.
\<close>

theorem led_trigger_ports:
  assumes "led_reach sops sw"
  shows "(\<forall>i. bit (tr_port_mask sw) i \<longleftrightarrow> (\<exists>t. Some t \<in> set (tr_leds sw) \<and> bit (td_port_mask t) i)) \<and>
    (tr_scheduled sw \<longleftrightarrow> (\<exists>t. Some t \<in> set (tr_leds sw) \<and> td_port_mask t \<noteq> 0))"
proof -
  have inv: "trigger_inv sw" using assms by (rule led_trigger_inv)
  have bits: "bit (tr_port_mask sw) i \<longleftrightarrow> (\<exists>t. Some t \<in> set (tr_leds sw) \<and> bit (td_port_mask t) i)" for i
  proof -
    have "bit (tr_port_mask sw) i \<longleftrightarrow> (\<exists>led \<in> set (tr_leds sw). bit (trig_mask led) i)"
      using inv by (simp add: trigger_inv_def bit_all_ports)
    also have "\<dots> \<longleftrightarrow> (\<exists>t. Some t \<in> set (tr_leds sw) \<and> bit (td_port_mask t) i)"
      by (force simp: trig_mask_def split: option.splits)
    finally show ?thesis .
  qed
  moreover have "tr_port_mask sw \<noteq> 0 \<longleftrightarrow> (\<exists>t. Some t \<in> set (tr_leds sw) \<and> td_port_mask t \<noteq> 0)"
    using bits by (metis bit_0_eq bot_apply bot_bool_def bit_eq_iff)
  ultimately show ?thesis using inv by (simp add: trigger_inv_def)
qed


text \<open>A driver that reports a link at 100 Mbps on port 2, and a LED for the ports 2 and 3.\<close>

definition led_ops :: "unit switch_dev_ops" where
  "led_ops = \<lparr>attr_global = [], attr_port = [], attr_vlan = [], op_get_vlan_ports = None, op_set_vlan_ports = None,
     op_get_port_pvid = None, op_set_port_pvid = None, op_apply_config = None, op_reset_switch = None,
     op_get_port_link = Some (\<lambda>p l. dret (l\<lparr>link_link := (p = 2), link_speed := SWITCH_PORT_SPEED_100\<rparr>)),
     op_set_port_link = None, op_get_port_stats = None, op_phy_write16 = None\<rparr>"

definition led_start :: switch_led_trigger where
  "led_start = \<lparr>tr_leds = [], tr_scheduled = False, tr_port_mask = 0, tr_port_link = 0,
     tr_tx_traffic = (\<lambda>_. 0), tr_rx_traffic = (\<lambda>_. 0), tr_link_speed = (\<lambda>_. 0)\<rparr>"

definition led_two :: switch_led_trigger where
  "led_two = snd (swconfig_trig_port_mask_store 0 (Inr 12) (led_start\<lparr>tr_leds := [Some new_led]\<rparr>))"

lemma led_two_reach: "led_reach led_ops led_two"
proof -
  have "led_reach led_ops led_start"
    by (rule led_reach.create [of True 0]) (simp add: swconfig_create_led_trigger_def led_ops_def led_start_def)
  from led_reach.activate [OF this, of True "\<lambda>_. 0" LED_OFF]
  have "led_reach led_ops (led_start\<lparr>tr_leds := [Some new_led]\<rparr>)"
    by (simp add: led_start_def new_led_def swconfig_trig_activate_def)
  from led_reach.ports [OF this, of 0 "Inr 12"] show ?thesis
    by (simp add: led_two_def)
qed

lemma led_trigger_ports_witness: "bit (tr_port_mask led_two) 3 \<and> tr_scheduled led_two"
proof -
  have "Some (new_led\<lparr>td_port_mask := 12\<rparr>) \<in> set (tr_leds led_two)"
    by (simp add: led_two_def swconfig_trig_port_mask_store_def new_led_def swconfig_trig_activate_def update_port_mask Let_def led_start_def)
  moreover have "bit (12 :: u32) 3" by code_simp
  then have "bit (td_port_mask (new_led\<lparr>td_port_mask := 12\<rparr>)) 3" "td_port_mask (new_led\<lparr>td_port_mask := 12\<rparr>) \<noteq> 0"
    by simp_all
  ultimately show ?thesis
    using led_trigger_ports [OF led_two_reach] by blast
qed

text \<open>
  A number whose lower 32 bits are 0 takes all ports from a LED and does not turn it off; with no
  other LED the work stops, and the LED stays lit.
\<close>

lemma port_mask_high:
  assumes "tr_leds sw = [Some t]" "td_led t = LED_FULL" "td_port_mask t = 1"
  shows "\<exists>t'. tr_leds (snd (swconfig_trig_port_mask_store 0 (Inr 0x100000000) sw)) = [Some t'] \<and> td_port_mask t' = 0 \<and>
    td_led t' = LED_FULL \<and> \<not> tr_scheduled (snd (swconfig_trig_port_mask_store 0 (Inr 0x100000000) sw))"
proof -
  have "(ucast (0x100000000 :: 64 word) :: u32) = 0" by code_simp
  then show ?thesis
    using assms by (simp add: swconfig_trig_port_mask_store_def Let_def update_port_mask all_ports_def trig_mask_def)
qed

section \<open>What a LED shows\<close>

text \<open>A port of the LED has a link at one of its speeds.\<close>

definition speed_match :: "switch_led_trigger \<Rightarrow> trig_data \<Rightarrow> nat \<Rightarrow> bool" where
  "speed_match sw t i \<longleftrightarrow> bit (td_port_mask t) i \<and> tr_link_speed sw i AND td_speed_mask t \<noteq> 0"

definition port_traffic :: "switch_led_trigger \<Rightarrow> trig_data \<Rightarrow> nat \<Rightarrow> 64 word" where
  "port_traffic sw t i =
     (if td_mode t AND SWCONFIG_LED_MODE_TX \<noteq> 0 then tr_tx_traffic sw i else 0) +
     (if td_mode t AND SWCONFIG_LED_MODE_RX \<noteq> 0 then tr_rx_traffic sw i else 0)"

text \<open>The traffic of the LED as the number a variable of \<open>lb\<close> bits holds.\<close>

definition led_traffic :: "nat \<Rightarrow> switch_led_trigger \<Rightarrow> trig_data \<Rightarrow> 64 word" where
  "led_traffic lb sw t = take_bit lb (\<Sum>i \<leftarrow> filter (speed_match sw t) [0..<32]. port_traffic sw t i)"

text \<open>The brightness after the work has run.\<close>

definition led_next :: "bool \<Rightarrow> bool \<Rightarrow> u8 \<Rightarrow> led_brightness \<Rightarrow> led_brightness" where
  "led_next match changed mode prev =
     (let base = (if mode AND SWCONFIG_LED_MODE_LINK \<noteq> 0 then LED_FULL else LED_OFF) in
      if \<not> match then LED_OFF
      else if prev \<noteq> base then base
      else if changed then (if base = LED_FULL then LED_OFF else LED_FULL)
      else prev)"

lemma take_bit_add_word: "take_bit n (take_bit n a + b) = take_bit n (a + b)" for a b :: "64 word"
proof (cases "n \<le> 64")
  case True
  then have "(2::nat) ^ n dvd 2 ^ 64" by (rule le_imp_power_dvd)
  moreover have "unat (take_bit n w) = unat w mod 2 ^ n" for w :: "64 word"
    by (simp add: unsigned_take_bit_eq take_bit_nat_def)
  ultimately show ?thesis
    by (simp add: word_unat_eq_iff unat_word_ariths mod_mod_cancel mod_simps)
next
  case False
  then show ?thesis by (simp add: take_bit_word_eq_self)
qed

lemma traffic_loop_sum:
  "take_bit lb tr = tr \<Longrightarrow> traffic_loop lb sw t is tr b =
     (take_bit lb (tr + (\<Sum>i \<leftarrow> filter (speed_match sw t) is. port_traffic sw t i)), b \<or> (\<exists>i \<in> set is. speed_match sw t i))"
proof (induction "is" arbitrary: tr b)
  case (Cons i "is")
  show ?case
  proof (cases "speed_match sw t i")
    case True
    have "traffic_loop lb sw t (i # is) tr b = traffic_loop lb sw t is (take_bit lb (tr + port_traffic sw t i)) True"
      using True by (simp add: speed_match_def port_traffic_def)
    also have "\<dots> = (take_bit lb (take_bit lb (tr + port_traffic sw t i) + (\<Sum>i \<leftarrow> filter (speed_match sw t) is. port_traffic sw t i)), True)"
      by (subst Cons.IH) simp_all
    also have "take_bit lb (take_bit lb (tr + port_traffic sw t i) + x) = take_bit lb (tr + (port_traffic sw t i + x))" for x
      by (simp add: take_bit_add_word add.assoc)
    finally show ?thesis using True by simp
  next
    case False
    then have "traffic_loop lb sw t (i # is) tr b = traffic_loop lb sw t is tr b"
      by (auto simp: speed_match_def)
    then show ?thesis using Cons False by simp
  qed
qed simp


lemma traffic_loop_all:
  "traffic_loop lb sw t [0..<SWCONFIG_LED_NUM_PORTS] 0 False = (led_traffic lb sw t, \<exists>i < 32. speed_match sw t i)"
proof -
  have "(\<exists>i \<in> {0..<32}. speed_match sw t i) \<longleftrightarrow> (\<exists>i < 32. speed_match sw t i)" by auto
  then show ?thesis
    by (subst traffic_loop_sum) (simp_all add: led_traffic_def SWCONFIG_LED_NUM_PORTS_def del: upt_rec_numeral)
qed

lemma led_event_shows:
  assumes "\<And>i. i < 32 \<Longrightarrow> tr_link_speed sw i \<noteq> 0 \<Longrightarrow> bit (tr_port_link sw) i"
  shows "td_prev_brightness (swconfig_trig_led_event lb sw t) =
      led_next (\<exists>i < 32. speed_match sw t i) (led_traffic lb sw t \<noteq> td_prev_traffic t) (td_mode t) (td_prev_brightness t)"
    "td_led t = td_prev_brightness t \<Longrightarrow>
      td_led (swconfig_trig_led_event lb sw t) = td_prev_brightness (swconfig_trig_led_event lb sw t)"
proof -
  have no: "\<not> (\<exists>i < 32. speed_match sw t i)" if "tr_port_link sw AND td_port_mask t = 0"
  proof
    assume "\<exists>i < 32. speed_match sw t i"
    then obtain i where m: "i < 32" "speed_match sw t i" by blast
    have i: "bit (td_port_mask t) i" "tr_link_speed sw i \<noteq> 0" using m(2) by (auto simp: speed_match_def)
    have "bit (tr_port_link sw AND td_port_mask t) i" using i assms [OF m(1)] by (simp add: bit_and_iff)
    then show False using that by simp
  qed
  obtain b where b: "td_prev_brightness t = b" by simp
  show "td_prev_brightness (swconfig_trig_led_event lb sw t) =
      led_next (\<exists>i < 32. speed_match sw t i) (led_traffic lb sw t \<noteq> td_prev_traffic t) (td_mode t) (td_prev_brightness t)"
    using no by (cases b) (auto simp: b swconfig_trig_led_event_def traffic_loop_all swconfig_trig_set_brightness_def led_next_def Let_def)
  show "td_led (swconfig_trig_led_event lb sw t) = td_prev_brightness (swconfig_trig_led_event lb sw t)"
    if "td_led t = td_prev_brightness t"
    using that by (auto simp: swconfig_trig_led_event_def traffic_loop_all swconfig_trig_set_brightness_def Let_def)
qed

lemma led_traffic_cong:
  "tr_link_speed sw = tr_link_speed sw' \<Longrightarrow> tr_tx_traffic sw = tr_tx_traffic sw' \<Longrightarrow> tr_rx_traffic sw = tr_rx_traffic sw'
   \<Longrightarrow> led_traffic lb sw t = led_traffic lb sw' t"
  by (simp add: led_traffic_def speed_match_def [abs_def] port_traffic_def [abs_def] cong: if_cong)

text \<open>The driver reports \<open>l i\<close> for port \<open>i\<close> while the work runs.\<close>

definition reports :: "'c switch_dev_ops \<Rightarrow> (nat \<Rightarrow> switch_port_link) \<Rightarrow> bool" where
  "reports sops l \<longleftrightarrow> (\<forall>i c. fst (read_link sops i c) = l i)"

definition reported_speed :: "(nat \<Rightarrow> switch_port_link) \<Rightarrow> nat \<Rightarrow> u8" where
  "reported_speed l i = (if link_link (l i) then led_speed (link_speed (l i)) else 0)"

lemma led_ports_loop_reads:
  assumes "reports sops l"
  shows "led_ports_loop sops is sw link c = (link', sw', c') \<Longrightarrow> distinct is \<Longrightarrow> \<forall>i \<in> set is. i < 32 \<Longrightarrow>
     (\<forall>i < 32. bit link' i \<longleftrightarrow> bit link i \<or> i \<in> set is \<and> bit (tr_port_mask sw) i \<and> link_link (l i)) \<and>
     (\<forall>i. tr_link_speed sw' i = (if i \<in> set is then if bit (tr_port_mask sw) i then reported_speed l i else 0 else tr_link_speed sw i))"
proof (induction "is" arbitrary: sw link c)
  case (Cons i "is")
  let ?sw0 = "sw\<lparr>tr_link_speed := (tr_link_speed sw)(i := 0)\<rparr>"
  show ?case
  proof (cases "bit (tr_port_mask sw) i")
    case False
    then have "led_ports_loop sops is ?sw0 link c = (link', sw', c')"
      using Cons.prems(1) by (simp add: Let_def)
    from Cons.IH [OF this] Cons.prems(2,3) False show ?thesis by auto
  next
    case True
    obtain c1 where c1: "read_link sops i c = (l i, c1)"
      using assms by (metis reports_def surjective_pairing)
    define link1 where "link1 = (if link_link (l i) then link OR push_bit i 1 else link)"
    obtain sw1 c2 where rest: "led_ports_loop sops is sw1 link1 c2 = (link', sw', c')"
      and sw1: "tr_port_mask sw1 = tr_port_mask sw" "tr_link_speed sw1 = (tr_link_speed sw)(i := reported_speed l i)"
      using Cons.prems(1) True
      by (auto simp: Let_def c1 link1_def reported_speed_def split: if_splits prod.splits option.splits)
    have "bit link1 j \<longleftrightarrow> bit link j \<or> j = i \<and> link_link (l i)" if "j < 32" for j
    proof -
      have "bit (push_bit i (1 :: u32)) j \<longleftrightarrow> j = i"
        using that by (auto simp: bit_simps bit_1_iff)
      then show ?thesis by (simp add: link1_def bit_or_iff)
    qed
    with Cons.IH [OF rest] Cons.prems(2,3) True sw1 show ?thesis by auto
  qed
qed simp

text \<open>
  C27: When the work of a trigger has run, a LED with a share of the ports has the brightness its
  files ask for: it is off unless one of its ports has a link at a speed the LED is for; then it is
  at its base brightness, lit in a mode with \<open>link\<close> and dark in the others, and goes to the other one
  and back while the bytes counted on these ports change.  The driver is assumed to report the same
  link of a port throughout the run.
\<close>

theorem led_work_shows:
  assumes "led_reach sops sw" "tr_scheduled sw" "reports sops l" "k < length (tr_leds sw)" "tr_leds sw ! k = Some t"
    and "td_led t = td_prev_brightness t"
  shows "\<exists>sw' c' t'. swconfig_led_work_func lb sops sw c = (sw', c') \<and> tr_leds sw' ! k = Some t' \<and>
    td_led t' = led_next
      (\<exists>i < 32. bit (td_port_mask t) i \<and> link_link (l i) \<and> led_speed (link_speed (l i)) AND td_speed_mask t \<noteq> 0)
      (led_traffic lb sw' t \<noteq> td_prev_traffic t) (td_mode t) (td_led t)"
proof -
  obtain link sw1 c1 where loop: "led_ports_loop sops [0..<SWCONFIG_LED_NUM_PORTS] sw 0 c = (link, sw1, c1)"
    by (metis prod_cases3)
  let ?sw = "sw1\<lparr>tr_port_link := link\<rparr>"
  let ?fin = "?sw\<lparr>tr_leds := map (map_option (swconfig_trig_led_event lb ?sw)) (tr_leds sw1), tr_scheduled := True\<rparr>"
  let ?t = "swconfig_trig_led_event lb ?sw t"
  have work: "swconfig_led_work_func lb sops sw c = (?fin, c1)"
    by (simp add: swconfig_led_work_func_def loop swconfig_trig_update_leds_def)
  have leds: "tr_leds sw1 = tr_leds sw" using led_ports_loop_leds [OF loop] by simp
  have reads: "bit link i \<longleftrightarrow> bit (tr_port_mask sw) i \<and> link_link (l i)"
    "tr_link_speed sw1 i = (if bit (tr_port_mask sw) i then reported_speed l i else 0)" if "i < 32" for i
    using led_ports_loop_reads [OF assms(3) loop] that by (auto simp: SWCONFIG_LED_NUM_PORTS_def)
  have chosen: "bit (tr_port_mask sw) i" if "bit (td_port_mask t) i" for i
    using led_trigger_inv [OF assms(1)] assms(4,5) that nth_mem [OF assms(4)]
    by (auto simp: trigger_inv_def bit_all_ports trig_mask_def intro!: bexI [of _ "Some t"])
  have up: "tr_link_speed ?sw i \<noteq> 0 \<Longrightarrow> bit (tr_port_link ?sw) i" if "i < 32" for i
    using reads [OF that] by (auto simp: reported_speed_def split: if_splits)
  have match: "speed_match ?sw t i \<longleftrightarrow>
      bit (td_port_mask t) i \<and> link_link (l i) \<and> led_speed (link_speed (l i)) AND td_speed_mask t \<noteq> 0" if "i < 32" for i
    using reads [OF that] chosen by (auto simp: speed_match_def reported_speed_def)
  then have "(\<exists>i < 32. speed_match ?sw t i) \<longleftrightarrow>
      (\<exists>i < 32. bit (td_port_mask t) i \<and> link_link (l i) \<and> led_speed (link_speed (l i)) AND td_speed_mask t \<noteq> 0)"
    by auto
  moreover have "led_traffic lb ?fin t = led_traffic lb ?sw t"
    by (rule led_traffic_cong) simp_all
  ultimately have "td_led ?t = led_next
      (\<exists>i < 32. bit (td_port_mask t) i \<and> link_link (l i) \<and> led_speed (link_speed (l i)) AND td_speed_mask t \<noteq> 0)
      (led_traffic lb ?fin t \<noteq> td_prev_traffic t) (td_mode t) (td_led t)"
    using led_event_shows [of ?sw, OF up] assms(6) by simp
  then show ?thesis
    using work assms(4,5) leds by (intro exI [of _ ?fin] exI [of _ c1] exI [of _ ?t]) simp
qed


lemma led_work_shows_witness:
  "\<exists>sw' c' t'. swconfig_led_work_func 64 led_ops led_two () = (sw', c') \<and> tr_leds sw' ! 0 = Some t' \<and> td_led t' = LED_FULL"
proof -
  let ?t = "new_led\<lparr>td_port_mask := 12\<rparr>"
  let ?l = "\<lambda>i. link_zero\<lparr>link_link := (i = 2), link_speed := SWITCH_PORT_SPEED_100\<rparr>"
  have two: "tr_leds led_two = [Some ?t]" "tr_scheduled led_two"
    by (simp_all add: led_two_def swconfig_trig_port_mask_store_def new_led_def swconfig_trig_activate_def update_port_mask Let_def
        led_start_def all_ports_def trig_mask_def)
  have rep: "reports led_ops ?l"
    by (simp add: reports_def read_link_def led_ops_def or_else_def dret_def)
  have t: "td_led ?t = td_prev_brightness ?t" "td_led ?t = LED_OFF" "td_mode ?t = 7" "td_speed_mask ?t = 0x0F" "td_port_mask ?t = 12"
    by (simp_all add: new_led_def swconfig_trig_activate_def led_modes led_speeds)
  have "bit (12 :: u32) 2" by code_simp
  then have "\<exists>i < 32. bit (td_port_mask ?t) i \<and> link_link (?l i) \<and> led_speed (link_speed (?l i)) AND td_speed_mask ?t \<noteq> 0"
    unfolding t by (intro exI [of _ 2]) (simp add: led_speed_def port_speeds led_speeds)
  then show ?thesis
    using led_work_shows [OF led_two_reach two(2) rep, of 0 ?t 64 "()"] two(1) t by (simp add: led_next_def led_modes Let_def)
qed

end
