(* ===== verification/Crc32.thy ===== *)
theory Crc32
  imports Prelude
begin

text \<open>
  The checksum of firmware images: the table and the loop of
  \<open>package/system/fwtool/src/crc32.h\<close>, the division bit by bit that they compute, and what a
  checksum of this kind detects.
\<close>

section \<open>The code\<close>

text \<open>One turn of the inner loop that fills the table.\<close>

definition crc_step :: "u32 \<Rightarrow> u32" where
  "crc_step c = (if bit c 0 then drop_bit 1 c XOR 0xedb88320 else drop_bit 1 c)"

definition crc32_filltable :: "u32 list" where
  "crc32_filltable = map (\<lambda>i. (crc_step ^^ 8) (word_of_nat i)) [0..<256]"

fun crc32_block :: "u32 list \<Rightarrow> u32 \<Rightarrow> bytes \<Rightarrow> u32" where
  "crc32_block crc_table val [] = val"
| "crc32_block crc_table val (b # buf) =
    crc32_block crc_table (crc_table ! unat ((ucast val :: u8) XOR b) XOR drop_bit 8 val) buf"

section \<open>The division bit by bit\<close>

text \<open>A byte is added to the remainder, which is then shifted by eight bits.\<close>

definition crc_byte :: "u32 \<Rightarrow> u8 \<Rightarrow> u32" where
  "crc_byte val b = (crc_step ^^ 8) (val XOR ucast b)"

definition crc_bits :: "u32 \<Rightarrow> bytes \<Rightarrow> u32" where
  "crc_bits val bs = foldl crc_byte val bs"

lemma crc_bits_simps [simp]:
  "crc_bits val [] = val"
  "crc_bits val (b # bs) = crc_bits (crc_byte val b) bs"
  by (simp_all add: crc_bits_def)

lemma crc_bits_append: "crc_bits val (xs @ ys) = crc_bits (crc_bits val xs) ys"
  by (simp add: crc_bits_def)

lemma bit_u8_less: "bit (b :: u8) n \<Longrightarrow> n < 8"
  using bit_imp_le_length [of b n] by simp

text \<open>A step is linear, and shifts a word that ends in 0.\<close>

lemma crc_step_xor: "crc_step (a XOR b) = crc_step a XOR crc_step b"
proof -
  have 1: "drop_bit 1 (a XOR b) = drop_bit 1 a XOR drop_bit 1 b" for a b :: u32
    by (rule bit_eqI) (simp add: bit_simps)
  have 2: "bit (a XOR b) 0 \<longleftrightarrow> bit a 0 \<noteq> bit b 0" for a b :: u32
    by (simp add: bit_simps)
  show ?thesis unfolding crc_step_def 1 2
    by (cases "bit a 0"; cases "bit b 0") (simp_all add: ac_simps)
qed

lemma crc_steps_xor: "(crc_step ^^ n) (a XOR b) = (crc_step ^^ n) a XOR (crc_step ^^ n) b"
  by (induction n) (simp_all add: crc_step_xor)

lemma crc_steps_shift: "n \<le> k \<Longrightarrow> (crc_step ^^ n) (push_bit k c) = drop_bit n (push_bit k c)"
proof (induction n)
  case (Suc n)
  then have "\<not> bit (drop_bit n (push_bit k c)) 0" by (simp add: bit_simps)
  with Suc show ?case by (simp add: crc_step_def)
qed simp

lemma word_split_low: "w = push_bit n (drop_bit n w) XOR take_bit n (w :: u32)"
  by (rule bit_eqI) (auto simp: bit_simps)

lemma crc_byte_table:
  "crc_byte val b = crc32_filltable ! unat ((ucast val :: u8) XOR b) XOR drop_bit 8 val"
proof -
  let ?i = "(ucast val :: u8) XOR b"
  have low: "take_bit 8 (val XOR ucast b) = ucast ?i"
    by (rule bit_eqI) (auto simp: bit_simps dest: bit_u8_less)
  have high: "drop_bit 8 (val XOR ucast b) = drop_bit 8 val"
    by (rule bit_eqI) (auto simp: bit_simps dest: bit_u8_less)
  have "drop_bit 8 (push_bit 8 (drop_bit 8 val)) = drop_bit 8 val"
    by (rule bit_eqI) (auto simp: bit_simps dest: bit_imp_le_length)
  then have "crc_byte val b = (crc_step ^^ 8) (ucast ?i) XOR drop_bit 8 val"
    unfolding crc_byte_def by (subst word_split_low [of _ 8])
      (simp only: crc_steps_xor crc_steps_shift low high xor.commute order.refl)
  moreover have "word_of_nat (unat ?i) = (ucast ?i :: u32)"
    by simp
  ultimately show ?thesis by (simp add: crc32_filltable_def)
qed

lemma crc32_block_bits: "crc32_block crc32_filltable val buf = crc_bits val buf"
  by (induction buf arbitrary: val) (simp_all add: crc_byte_table)

section \<open>What it detects\<close>

lemma crc_step_0: "crc_step c = 0 \<Longrightarrow> c = 0"
proof (cases "bit c 0")
  case True
  assume "crc_step c = 0"
  then have "drop_bit 1 c XOR 0xedb88320 = 0" using True by (simp add: crc_step_def)
  then have "bit (drop_bit 1 c XOR 0xedb88320) 31 = bit (0 :: u32) 31" by simp
  moreover have "bit (0xedb88320 :: u32) 31" by code_simp
  moreover have "\<not> bit (drop_bit 1 c) 31" by (auto simp: bit_simps dest: bit_imp_le_length)
  ultimately show ?thesis by (simp add: bit_simps)
next
  case False
  assume "crc_step c = 0"
  then have "drop_bit 1 c = 0" using False by (simp add: crc_step_def)
  then have "bit (drop_bit 1 c) n = bit 0 n" for n by simp
  then have "\<not> bit c (Suc n)" for n by (simp add: bit_simps)
  with False show ?thesis by (intro bit_eqI) (metis bit_0_eq bot_apply bot_bool_def not0_implies_Suc)
qed

lemma xor_eq_0_iff: "a XOR b = 0 \<longleftrightarrow> a = (b :: 'a::len word)"
  by (metis xor_self_eq xor.assoc xor.left_neutral xor.right_neutral)

lemma crc_step_inj: "crc_step a = crc_step b \<longleftrightarrow> a = b"
  by (metis crc_step_0 crc_step_xor xor_eq_0_iff)

lemma crc_steps_inj: "(crc_step ^^ n) a = (crc_step ^^ n) b \<longleftrightarrow> a = b"
  by (induction n) (simp_all add: crc_step_inj)

lemma xor_right_inj: "a XOR c = b XOR c \<longleftrightarrow> a = (b :: 'a::len word)"
  by (metis xor.assoc xor.right_neutral xor_self_eq)

lemma crc_bits_inj: "crc_bits v bs = crc_bits w bs \<longleftrightarrow> v = w"
  by (induction bs arbitrary: v w) (simp_all add: crc_byte_def crc_steps_inj xor_right_inj)

text \<open>Four bytes are added at once, the first one lowest, so that a change of them is a change of the sum.\<close>

lemma crc_steps_add:
  assumes "drop_bit n (push_bit n y) = y"
  shows "(crc_step ^^ n) x XOR y = (crc_step ^^ n) (x XOR push_bit n y)"
  using crc_steps_shift [of n n y] assms by (simp add: crc_steps_xor)

lemma shift_byte: "n \<le> 24 \<Longrightarrow> drop_bit n (push_bit n (ucast (b :: u8))) = (ucast b :: u32)"
  by (rule bit_eqI) (auto simp: bit_simps dest: bit_u8_less)

definition crc_word :: "u8 \<Rightarrow> u8 \<Rightarrow> u8 \<Rightarrow> u8 \<Rightarrow> u32" where
  "crc_word a b c d = ucast a XOR push_bit 8 (ucast b) XOR push_bit 16 (ucast c) XOR push_bit 24 (ucast d)"

lemma crc_bits_4: "crc_bits v [a, b, c, d] = (crc_step ^^ 32) (v XOR crc_word a b c d)"
proof -
  have add: "(crc_step ^^ 8) ((crc_step ^^ n) x XOR ucast y) = (crc_step ^^ (8 + n)) (x XOR push_bit n (ucast y))"
    if "n \<le> 24" for n x and y :: u8
    using crc_steps_add [OF shift_byte [OF that, of y], of x] by (simp only: funpow_add comp_apply)
  show ?thesis
    using add [of 8] add [of 16] add [of 24]
    by (simp add: crc_byte_def crc_word_def xor.assoc)
qed

lemma not_bit_u8: "8 \<le> n \<Longrightarrow> \<not> bit (b :: u8) n"
  using bit_u8_less [of b n] by linarith

lemma crc_word_bytes:
  "ucast (crc_word a b c d) = a"
  "ucast (drop_bit 8 (crc_word a b c d)) = b"
  "ucast (drop_bit 16 (crc_word a b c d)) = c"
  "ucast (drop_bit 24 (crc_word a b c d)) = d"
  by (rule bit_eqI; simp add: crc_word_def bit_simps not_bit_u8)+

lemma crc_word_inj:
  assumes "crc_word a b c d = crc_word a' b' c' d'"
  shows "[a, b, c, d] = [a', b', c', d']"
  using crc_word_bytes [of a b c d] crc_word_bytes [of a' b' c' d'] unfolding assms by simp

lemma crc_bits_4_inj:
  assumes "length ws = 4" and "length ws' = 4" and "crc_bits v ws = crc_bits v ws'"
  shows "ws = ws'"
proof -
  obtain a b c d a' b' c' d' where ws: "ws = [a, b, c, d]" "ws' = [a', b', c', d']"
    using assms(1,2) unfolding length_4_conv by (elim exE) (rule that)
  have "crc_word a b c d = crc_word a' b' c' d'"
    using assms(3) unfolding ws crc_bits_4 crc_steps_inj by (metis xor.commute xor_right_inj)
  then show ?thesis unfolding ws by (rule crc_word_inj)
qed

text \<open>
  What a program needs of its checksum: it can be computed in pieces, and it tells data apart that
  differ in at most four adjacent bytes.
\<close>

locale checksum =
  fixes ck :: "u32 \<Rightarrow> bytes \<Rightarrow> u32"
  assumes ck_append: "ck v (xs @ ys) = ck (ck v xs) ys"
    and ck_inj: "ck v bs = ck w bs \<Longrightarrow> v = w"
    and ck_4: "length ws = 4 \<Longrightarrow> length ws' = 4 \<Longrightarrow> ck v ws = ck v ws' \<Longrightarrow> ws = ws'"
begin

lemma detects:
  assumes "length ws = 4" and "length ws' = 4" and "ws \<noteq> ws'"
  shows "ck v (xs @ ws @ ys) \<noteq> ck v (xs @ ws' @ ys)"
  using assms ck_4 ck_inj unfolding ck_append by blast

lemma empty: "ck v [] = v"
  using ck_inj [of v "[]" "ck v []"] ck_append [of v "[]" "[]"] by simp

lemma pieces: "ck v (concat bss) = foldl ck v bss"
  by (induction bss arbitrary: v) (simp_all add: empty ck_append)

end

interpretation fwck: checksum "crc32_block crc32_filltable"
  by unfold_locales (simp_all add: crc32_block_bits crc_bits_append crc_bits_inj crc_bits_4_inj)

end
