(* ===== verification/Stdio.thy ===== *)
theory Stdio
  imports Prelude
begin

text \<open>
  The files of the programs that work on firmware images: what \<open>fopen\<close>, \<open>fread\<close>, \<open>fwrite\<close> and
  \<open>ftruncate\<close> do to them.  A file has a content, may or may not be read or written, and cannot grow
  over a limit (the size of the disk); a write over it is short.
\<close>

record fsys =
  fs_files :: "string \<rightharpoonup> bytes"
  fs_readable :: "string \<Rightarrow> bool"
  fs_writable :: "string \<Rightarrow> bool"
  fs_limit :: nat

text \<open>The modes \<open>r\<close>, \<open>r+\<close> and \<open>w\<close>.  The last one empties the file, or makes it.\<close>

definition fopen_r :: "string \<Rightarrow> fsys \<Rightarrow> bool" where
  "fopen_r name fs \<longleftrightarrow> name \<in> dom (fs_files fs) \<and> fs_readable fs name"

definition fopen_rw :: "string \<Rightarrow> fsys \<Rightarrow> bool" where
  "fopen_rw name fs \<longleftrightarrow> fopen_r name fs \<and> fs_writable fs name"

definition fopen_w :: "string \<Rightarrow> fsys \<Rightarrow> fsys option" where
  "fopen_w name fs = (if fs_writable fs name then Some (fs\<lparr>fs_files := (fs_files fs)(name \<mapsto> [])\<rparr>) else None)"

definition file_data :: "string \<Rightarrow> fsys \<Rightarrow> bytes" where
  "file_data name fs = (case fs_files fs name of Some d \<Rightarrow> d | None \<Rightarrow> [])"

definition set_data :: "string \<Rightarrow> bytes \<Rightarrow> fsys \<Rightarrow> fsys" where
  "set_data name d fs = fs\<lparr>fs_files := (fs_files fs)(name \<mapsto> d)\<rparr>"

text \<open>
  Writing at a position, with the number of bytes written; a gap before the position reads as zeros.
\<close>

definition splice_bytes :: "bytes \<Rightarrow> nat \<Rightarrow> bytes \<Rightarrow> bytes" where
  "splice_bytes d pos buf = (if buf = [] then d
    else take pos d @ replicate (pos - length d) 0 @ buf @ drop (pos + length buf) d)"

definition fwrite_at :: "string \<Rightarrow> nat \<Rightarrow> bytes \<Rightarrow> fsys \<Rightarrow> nat \<times> fsys" where
  "fwrite_at name pos buf fs = (let n = min (length buf) (fs_limit fs - pos) in
    (n, set_data name (splice_bytes (file_data name fs) pos (take n buf)) fs))"

definition ftruncate :: "string \<Rightarrow> nat \<Rightarrow> fsys \<Rightarrow> fsys" where
  "ftruncate name n fs = (let d = file_data name fs in
    set_data name (take n d @ replicate (n - length d) 0) fs)"

text \<open>The pieces that \<open>fread\<close> with a buffer of \<open>n\<close> bytes gives one after the other until the end.\<close>

function chunks :: "nat \<Rightarrow> bytes \<Rightarrow> bytes list" where
  "chunks n d = (if n = 0 \<or> d = [] then [] else take n d # chunks n (drop n d))"
  by pat_completeness auto
termination by (relation "measure (length o snd)") auto

declare chunks.simps [simp del]

lemma chunks_Nil [simp]: "chunks n [] = []"
  by (simp add: chunks.simps)

lemma chunks_Cons: "0 < n \<Longrightarrow> d \<noteq> [] \<Longrightarrow> chunks n d = take n d # chunks n (drop n d)"
  by (simp add: chunks.simps)

lemma concat_chunks: "0 < n \<Longrightarrow> concat (chunks n d) = d"
proof (induction n d rule: chunks.induct)
  case (1 n d)
  then show ?case by (cases "d = []") (simp_all add: chunks_Cons)
qed

lemma length_chunks_le: "c \<in> set (chunks n d) \<Longrightarrow> length c \<le> n"
proof (induction n d rule: chunks.induct)
  case (1 n d)
  then show ?case by (subst (asm) (2) chunks.simps) (auto split: if_splits)
qed

lemma file_data_set [simp]: "file_data name (set_data name' d fs) = (if name = name' then d else file_data name fs)"
  by (simp add: file_data_def set_data_def)

lemma set_data_simps [simp]:
  "fs_readable (set_data name d fs) = fs_readable fs"
  "fs_writable (set_data name d fs) = fs_writable fs"
  "fs_limit (set_data name d fs) = fs_limit fs"
  "fs_files (set_data name d fs) = (fs_files fs)(name \<mapsto> d)"
  by (simp_all add: set_data_def)

lemma splice_bytes_end [simp]: "splice_bytes d (length d) buf = d @ buf"
  by (simp add: splice_bytes_def)

lemma file_data_Some [simp]: "fs_files fs name = Some d \<Longrightarrow> file_data name fs = d"
  by (simp add: file_data_def)

lemma set_data_set_data [simp]: "set_data name d (set_data name d' fs) = set_data name d fs"
  by (simp add: set_data_def)

lemma set_data_same: "fs_files fs name = Some d \<Longrightarrow> set_data name d fs = fs"
  by (simp add: set_data_def map_upd_triv)

end
