(* ===== verification/Fwtool.thy ===== *)
theory Fwtool
  imports Crc32 Stdio
begin

text \<open>
  \<open>package/system/fwtool/src/fwtool.c\<close>: metadata and signatures behind a firmware image.  Each piece
  ends with a trailer of 16 bytes that has the checksum of everything before it, so that the pieces
  are found from the end of the file.  Appending streams the file through the checksum; extracting
  reads it through a window of two blocks and takes trailers off its end.

  Content of memory that was not written is \<open>None\<close>; using it, and an access outside of a block, is
  undefined.  A \<open>memcpy\<close> of no bytes does nothing.
\<close>

section \<open>Data\<close>

definition METADATA_MAXLEN :: int where "METADATA_MAXLEN = 30 * 1024"
definition SIGNATURE_MAXLEN :: int where "SIGNATURE_MAXLEN = 1 * 1024"
definition BUFLEN :: nat where "BUFLEN = 30 * 1024 + 1 * 1024 + 1024"

definition FWIMAGE_MAGIC :: u32 where "FWIMAGE_MAGIC = 0x46577830"

definition FWIMAGE_SIGNATURE :: u8 where "FWIMAGE_SIGNATURE = 0"
definition FWIMAGE_INFO :: u8 where "FWIMAGE_INFO = 1"

definition MODE_DEFAULT :: int where "MODE_DEFAULT = - 1"
definition MODE_EXTRACT :: int where "MODE_EXTRACT = 0"
definition MODE_APPEND :: int where "MODE_APPEND = 1"

record fwimage_trailer =
  tr_magic :: u32
  tr_crc32 :: u32
  tr_type :: u8
  tr_pad :: bytes
  tr_size :: u32

record fwimage_header =
  fh_version :: u32
  fh_flags :: u32

text \<open>The structures in memory.\<close>

definition trailer_bytes :: "endian \<Rightarrow> fwimage_trailer \<Rightarrow> bytes" where
  "trailer_bytes e tr = store32 e (tr_magic tr) @ store32 e (tr_crc32 tr) @ [tr_type tr] @ tr_pad tr @
    store32 e (tr_size tr)"

definition trailer_of :: "endian \<Rightarrow> bytes \<Rightarrow> fwimage_trailer" where
  "trailer_of e bs = \<lparr>tr_magic = load32 e (take 4 bs), tr_crc32 = load32 e (take 4 (drop 4 bs)), tr_type = bs ! 8,
    tr_pad = take 3 (drop 9 bs), tr_size = load32 e (take 4 (drop 12 bs))\<rparr>"

definition header_bytes :: "endian \<Rightarrow> fwimage_header \<Rightarrow> bytes" where
  "header_bytes e hdr = store32 e (fh_version hdr) @ store32 e (fh_flags hdr)"

text \<open>Blocks of memory, and the window at the end of the file.\<close>

type_synonym block = "u8 option list"

record data_buf =
  db_cur :: "block option"
  db_prev :: "block option"
  db_cur_len :: int
  db_file_len :: int

text \<open>A stream: the standard ones, or a file with whether it was opened for writing.\<close>

datatype stream = Stdin | Stdout | Path string bool

text \<open>The variables of the program with the files, the standard streams and the blocks \<open>malloc\<close> has left.\<close>

record fwt =
  fw_fs :: fsys
  fw_stdin :: bytes
  fw_stdout :: bytes
  fw_stderr :: "string list"
  fw_heap :: nat
  signature_file :: "stream option"
  metadata_file :: "stream option"
  firmware_file :: "stream option"
  file_mode :: int
  truncate_file :: bool
  quiet :: bool
  crc_table :: "u32 list"

definition msg :: "string \<Rightarrow> fwt \<Rightarrow> fwt" where
  "msg t s = (if quiet s then s else s\<lparr>fw_stderr := fw_stderr s @ [t]\<rparr>)"

definition fwtool_usage :: "fwt \<Rightarrow> int \<times> fwt" where
  "fwtool_usage s = (1, s\<lparr>fw_stderr := fw_stderr s @ [''Usage'']\<rparr>)"

text \<open>What is read from a stream, and a write to its end.\<close>

definition stream_data :: "stream \<Rightarrow> fwt \<Rightarrow> bytes" where
  "stream_data f s = (case f of Stdin \<Rightarrow> fw_stdin s | Stdout \<Rightarrow> [] | Path name w \<Rightarrow> file_data name (fw_fs s))"

definition stream_write :: "stream \<Rightarrow> bytes \<Rightarrow> fwt \<Rightarrow> fwt" where
  "stream_write f buf s = (case f of
      Stdin \<Rightarrow> s
    | Stdout \<Rightarrow> s\<lparr>fw_stdout := fw_stdout s @ buf\<rparr>
    | Path name w \<Rightarrow> if w
        then s\<lparr>fw_fs := snd (fwrite_at name (length (file_data name (fw_fs s))) buf (fw_fs s))\<rparr> else s)"

definition stream_truncate :: "stream \<Rightarrow> nat \<Rightarrow> fwt \<Rightarrow> fwt" where
  "stream_truncate f n s = (case f of
      Path name w \<Rightarrow> if w then s\<lparr>fw_fs := ftruncate name n (fw_fs s)\<rparr> else s
    | _ \<Rightarrow> s)"

section \<open>Opening the files\<close>

definition open_file :: "string \<Rightarrow> bool \<Rightarrow> fwt \<Rightarrow> stream option \<times> fwt" where
  "open_file name wr s =
    (if name = ''-'' then (Some (if wr then Stdout else Stdin), s)
     else if wr then
       (case fopen_w name (fw_fs s) of None \<Rightarrow> (None, s) | Some fs \<Rightarrow> (Some (Path name True), s\<lparr>fw_fs := fs\<rparr>))
     else if fopen_rw name (fw_fs s) then (Some (Path name True), s)
     else if fopen_r name (fw_fs s) then (Some (Path name False), s)
     else (None, s))"

text \<open>The variable \<open>set_file\<close> is given a pointer to.\<close>

datatype file_var = SignatureFile | MetadataFile

definition file_get :: "file_var \<Rightarrow> fwt \<Rightarrow> stream option" where
  "file_get v = (case v of SignatureFile \<Rightarrow> signature_file | MetadataFile \<Rightarrow> metadata_file)"

definition file_put :: "file_var \<Rightarrow> stream option \<Rightarrow> fwt \<Rightarrow> fwt" where
  "file_put v f s = (case v of SignatureFile \<Rightarrow> s\<lparr>signature_file := f\<rparr> | MetadataFile \<Rightarrow> s\<lparr>metadata_file := f\<rparr>)"

definition set_file :: "file_var \<Rightarrow> string \<Rightarrow> int \<Rightarrow> fwt \<Rightarrow> int \<times> fwt" where
  "set_file v name mode s =
    (if \<not> file_mode s < 0 \<and> file_mode s \<noteq> mode then
       (1, msg ''Error: mixing appending and extracting data is not supported'' s)
     else let s = (if file_mode s < 0 then s\<lparr>file_mode := mode\<rparr> else s) in
       if file_get v s \<noteq> None then
         (1, msg ''Error: the same append/extract option cannot be used multiple times'' s)
       else let (f, s) = open_file name (mode = MODE_EXTRACT) s in
         (if f = None then 1 else 0, file_put v f s))"

section \<open>Appending\<close>

definition trailer_update_crc :: "endian \<Rightarrow> u32 list \<Rightarrow> fwimage_trailer \<Rightarrow> bytes \<Rightarrow> fwimage_trailer" where
  "trailer_update_crc e tbl tr buf = tr\<lparr>tr_crc32 := htonl e (crc32_block tbl (htonl e (tr_crc32 tr)) buf)\<rparr>"

fun append_loop :: "endian \<Rightarrow> bytes list \<Rightarrow> stream \<Rightarrow> fwimage_trailer \<Rightarrow> int \<Rightarrow> fwt \<Rightarrow> int \<times> fwimage_trailer \<times> fwt" where
  "append_loop e [] out tr maxlen s = (0, tr, s)"
| "append_loop e (buf # bufs) out tr maxlen s = (let maxlen = maxlen - int (length buf) in
    if maxlen < 0 then (1, tr, s)
    else let
      tr = tr\<lparr>tr_size := tr_size tr + word_of_nat (length buf)\<rparr>;
      tr = trailer_update_crc e (crc_table s) tr buf;
      s = stream_write out buf s
    in append_loop e bufs out tr maxlen s)"

definition append_data :: "endian \<Rightarrow> stream \<Rightarrow> stream \<Rightarrow> fwimage_trailer \<Rightarrow> int \<Rightarrow> fwt \<Rightarrow> int \<times> fwimage_trailer \<times> fwt" where
  "append_data e inp out tr maxlen s = append_loop e (chunks 512 (stream_data inp s)) out tr maxlen s"

definition append_trailer :: "endian \<Rightarrow> stream \<Rightarrow> fwimage_trailer \<Rightarrow> fwt \<Rightarrow> fwimage_trailer \<times> fwt" where
  "append_trailer e out tr s = (let
      tr = tr\<lparr>tr_size := htonl e (tr_size tr)\<rparr>;
      s = stream_write out (trailer_bytes e tr) s;
      tr = trailer_update_crc e (crc_table s) tr (trailer_bytes e tr)
    in (tr, s))"

definition add_metadata :: "endian \<Rightarrow> stream \<Rightarrow> stream \<Rightarrow> fwimage_trailer \<Rightarrow> fwt \<Rightarrow> int \<times> fwimage_trailer \<times> fwt" where
  "add_metadata e meta firm tr s = (let
      hdr = \<lparr>fh_version = 0, fh_flags = 0\<rparr>;
      tr = tr\<lparr>tr_type := FWIMAGE_INFO, tr_size := 8 + 16\<rparr>;
      tr = trailer_update_crc e (crc_table s) tr (header_bytes e hdr);
      s = stream_write firm (header_bytes e hdr) s
    in case append_data e meta firm tr METADATA_MAXLEN s of (r, tr, s) \<Rightarrow>
      if r \<noteq> 0 then (1, tr, s)
      else let (tr, s) = append_trailer e firm tr s in (0, tr, s))"

definition add_signature :: "endian \<Rightarrow> stream \<Rightarrow> fwimage_trailer \<Rightarrow> fwt \<Rightarrow> int \<times> fwimage_trailer \<times> fwt" where
  "add_signature e firm tr s = (case signature_file s of
      None \<Rightarrow> (0, tr, s)
    | Some sig \<Rightarrow> let tr = tr\<lparr>tr_type := FWIMAGE_SIGNATURE, tr_size := 16\<rparr>
      in case append_data e sig firm tr SIGNATURE_MAXLEN s of (r, tr, s) \<Rightarrow>
        if r \<noteq> 0 then (1, tr, s)
        else let (tr, s) = append_trailer e firm tr s in (0, tr, s))"

text \<open>The loop over the image; its length is an \<open>int\<close>.\<close>

fun read_loop :: "endian \<Rightarrow> u32 list \<Rightarrow> bytes list \<Rightarrow> int \<Rightarrow> fwimage_trailer \<Rightarrow> (int \<times> fwimage_trailer) option" where
  "read_loop e tbl [] file_len tr = Some (file_len, tr)"
| "read_loop e tbl (buf # bufs) file_len tr = (let file_len = file_len + int (length buf) in
    if file_len \<ge> 2 ^ 31 then None
    else read_loop e tbl bufs file_len (trailer_update_crc e tbl tr buf))"

definition add_data :: "endian \<Rightarrow> string \<Rightarrow> fwt \<Rightarrow> (int \<times> fwt) option" where
  "add_data e name s = (let
      tr = \<lparr>tr_magic = htonl e FWIMAGE_MAGIC, tr_crc32 = NOT 0, tr_type = 0, tr_pad = replicate 3 0, tr_size = 0\<rparr>
    in if \<not> fopen_rw name (fw_fs s) then Some (1, msg ''Failed to open firmware file'' s)
    else let firm = Path name True; s = s\<lparr>firmware_file := Some firm\<rparr>
    in case read_loop e (crc_table s) (chunks 512 (stream_data firm s)) 0 tr of None \<Rightarrow> None
    | Some (file_len, tr) \<Rightarrow>
      (case (case metadata_file s of
          Some meta \<Rightarrow> add_metadata e meta firm tr s
        | None \<Rightarrow> if signature_file s \<noteq> None then add_signature e firm tr s else (0, tr, s)) of
        (ret, tr, s) \<Rightarrow> Some (ret, if ret \<noteq> 0 then stream_truncate firm (nat file_len) s else s)))"

section \<open>The window at the end of the file\<close>

text \<open>The bytes \<open>[off, off + n)\<close> of a block, and writing bytes at an offset.\<close>

definition mem_read :: "block option \<Rightarrow> int \<Rightarrow> int \<Rightarrow> block option" where
  "mem_read b off n = (if n = 0 then Some []
    else case b of None \<Rightarrow> None
    | Some blk \<Rightarrow> if 0 \<le> off \<and> 0 \<le> n \<and> off + n \<le> int (length blk)
        then Some (take (nat n) (drop (nat off) blk)) else None)"

definition mem_write :: "block \<Rightarrow> int \<Rightarrow> block \<Rightarrow> block option" where
  "mem_write blk off d = (if d = [] then Some blk
    else if 0 \<le> off \<and> off + int (length d) \<le> int (length blk)
      then Some (take (nat off) blk @ d @ drop (nat off + length d) blk) else None)"

text \<open>The content of memory that is used.\<close>

definition mem_bytes :: "block option \<Rightarrow> int \<Rightarrow> int \<Rightarrow> bytes option" where
  "mem_bytes b off n = (case mem_read b off n of None \<Rightarrow> None | Some d \<Rightarrow> those d)"

definition remove_tail :: "data_buf \<Rightarrow> int \<Rightarrow> data_buf" where
  "remove_tail dbuf len = (let dbuf = dbuf\<lparr>db_cur_len := db_cur_len dbuf - len, db_file_len := db_file_len dbuf - len\<rparr>
    in if db_cur_len dbuf \<noteq> 0 then dbuf
    else dbuf\<lparr>db_cur := db_prev dbuf, db_prev := None, db_cur_len := int BUFLEN\<rparr>)"

definition extract_tail :: "data_buf \<Rightarrow> block \<Rightarrow> int \<Rightarrow> (int \<times> block \<times> data_buf) option" where
  "extract_tail dbuf dest len = (let cur_len = db_cur_len dbuf in
    if db_cur dbuf = None then Some (1, dest, dbuf)
    else let cur_len = (if cur_len \<ge> len then len else cur_len) in
      case mem_read (db_cur dbuf) (db_cur_len dbuf - cur_len) cur_len of None \<Rightarrow> None | Some d \<Rightarrow>
      case mem_write dest (len - cur_len) d of None \<Rightarrow> None | Some dest \<Rightarrow>
      let dbuf = remove_tail dbuf cur_len; cur_len = len - cur_len in
      if cur_len \<noteq> 0 \<and> db_cur dbuf = None then Some (1, dest, dbuf)
      else case mem_read (db_cur dbuf) (db_cur_len dbuf - cur_len) cur_len of None \<Rightarrow> None | Some d \<Rightarrow>
      case mem_write dest 0 d of None \<Rightarrow> None | Some dest \<Rightarrow>
      Some (0, dest, remove_tail dbuf cur_len))"

definition tail_crc32 :: "u32 list \<Rightarrow> data_buf \<Rightarrow> u32 \<Rightarrow> u32 option" where
  "tail_crc32 tbl dbuf crc32 =
    (case (if db_prev dbuf \<noteq> None then map_option (crc32_block tbl crc32) (mem_bytes (db_prev dbuf) 0 (int BUFLEN))
           else Some crc32) of None \<Rightarrow> None
     | Some crc32 \<Rightarrow> map_option (crc32_block tbl crc32) (mem_bytes (db_cur dbuf) 0 (db_cur_len dbuf)))"

definition validate_metadata :: "u32 \<Rightarrow> int \<Rightarrow> int" where
  "validate_metadata version data_len = (if version \<noteq> 0 then 1 else 0)"

section \<open>Extracting\<close>

text \<open>
  The loop that reads the file: the two blocks take turns, and a full block joins the checksum when
  it is used again.  The first result is whether there was memory.
\<close>

definition fill_block :: "block \<Rightarrow> bytes \<Rightarrow> block" where
  "fill_block blk d = map Some d @ drop (length d) blk"

function fill_loop :: "u32 list \<Rightarrow> bytes \<Rightarrow> nat \<Rightarrow> data_buf \<Rightarrow> u32 \<Rightarrow> (bool \<times> data_buf \<times> u32) option" where
  "fill_loop tbl d heap dbuf crc32 = (let
      tmp = db_cur dbuf;
      dbuf = dbuf\<lparr>db_cur := db_prev dbuf, db_prev := tmp\<rparr>
    in case (case db_cur dbuf of
        Some blk \<Rightarrow> map_option (\<lambda>bs. (heap, Some blk, crc32_block tbl crc32 bs)) (mem_bytes (Some blk) 0 (int BUFLEN))
      | None \<Rightarrow> if heap = 0 then Some (heap, None, crc32)
          else Some (heap - 1, Some (replicate BUFLEN None), crc32)) of
      None \<Rightarrow> None
    | Some (heap, None, crc32) \<Rightarrow> Some (False, dbuf, crc32)
    | Some (heap, Some blk, crc32) \<Rightarrow> let
        chunk = take BUFLEN d;
        dbuf = dbuf\<lparr>db_cur := Some (fill_block blk chunk), db_cur_len := int (length chunk),
          db_file_len := db_file_len dbuf + int (length chunk)\<rparr>
      in if db_file_len dbuf \<ge> 2 ^ 31 then None
      else if length chunk = BUFLEN then fill_loop tbl (drop BUFLEN d) heap dbuf crc32
      else Some (True, dbuf, crc32))"
  by pat_completeness auto
termination by (relation "measure (\<lambda>(tbl, d, _). length d)") (auto simp: BUFLEN_def)

text \<open>How many bytes the window has; a turn of the loop over the trailers takes at least 16 of them.\<close>

definition window_size :: "data_buf \<Rightarrow> nat" where
  "window_size dbuf = (if db_cur dbuf = None then 0
    else nat (db_cur_len dbuf) + (if db_prev dbuf = None then 0 else BUFLEN))"

lemma BUFLEN_pos [simp]: "0 < BUFLEN" "BUFLEN \<noteq> 0"
  by (simp_all add: BUFLEN_def)

lemma window_size_remove_tail:
  assumes "0 \<le> n" and "n \<le> db_cur_len dbuf" and "db_cur dbuf \<noteq> None \<or> db_cur_len dbuf \<noteq> n"
  shows "window_size (remove_tail dbuf n) + nat n \<le> window_size dbuf \<or> db_cur dbuf = None \<and> window_size (remove_tail dbuf n) = 0"
  using assms by (auto simp: window_size_def remove_tail_def Let_def)

lemma mem_read_bounds:
  assumes "mem_read b off n = Some d" and "n \<noteq> 0"
  shows "0 \<le> off" "0 \<le> n" "b \<noteq> None"
  using assms by (auto simp: mem_read_def split: option.splits if_splits)

lemma window_size_extract_tail:
  assumes ex: "extract_tail dbuf dest len = Some (r, dest', dbuf')"
  shows "window_size dbuf' \<le> window_size dbuf \<and> (r = 0 \<longrightarrow> window_size dbuf' + nat len \<le> window_size dbuf)"
proof (cases "db_cur dbuf")
  case None
  then show ?thesis using ex by (auto simp: extract_tail_def)
next
  case (Some blk)
  define k where "k = min (db_cur_len dbuf) len"
  have k: "(if db_cur_len dbuf \<ge> len then len else db_cur_len dbuf) = k" by (simp add: k_def)
  let ?d = "remove_tail dbuf k"
  from ex Some obtain d1 dest1 where d1: "mem_read (db_cur dbuf) (db_cur_len dbuf - k) k = Some d1"
    and rest: "(if len - k \<noteq> 0 \<and> db_cur ?d = None then Some (1, dest1, ?d)
      else case mem_read (db_cur ?d) (db_cur_len ?d - (len - k)) (len - k) of None \<Rightarrow> None | Some d \<Rightarrow>
      case mem_write dest1 0 d of None \<Rightarrow> None | Some dest \<Rightarrow> Some (0, dest, remove_tail ?d (len - k)))
      = Some (r, dest', dbuf')"
    by (simp add: extract_tail_def Let_def k split: option.splits)
  have k0: "0 \<le> k \<and> k \<le> db_cur_len dbuf" "k \<le> len"
    using mem_read_bounds [OF d1] by (cases "k = 0"; auto simp: k_def)+
  have w1: "window_size ?d + nat k \<le> window_size dbuf"
    using window_size_remove_tail [of k dbuf] k0 Some by auto
  show ?thesis
  proof (cases "len - k \<noteq> 0 \<and> db_cur ?d = None")
    case True
    then show ?thesis using rest w1 by auto
  next
    case False
    with rest obtain d2 dest2 where d2: "mem_read (db_cur ?d) (db_cur_len ?d - (len - k)) (len - k) = Some d2"
      and res: "r = 0" "dbuf' = remove_tail ?d (len - k)"
      by (auto split: option.splits)
    have nz: "db_cur_len ?d \<noteq> 0" by (auto simp: remove_tail_def Let_def)
    have pos: "0 \<le> db_cur_len ?d" using k0 by (auto simp: remove_tail_def Let_def)
    have "window_size dbuf' + nat (len - k) \<le> window_size ?d"
    proof (cases "len - k = 0")
      case True
      then show ?thesis using nz by (simp add: res remove_tail_def [of _ 0] Let_def)
    next
      case f: False
      note b = mem_read_bounds [OF d2 f]
      then show ?thesis using window_size_remove_tail [of "len - k" ?d] by (auto simp: res)
    qed
    then show ?thesis using w1 k0 by (auto simp: res)
  qed
qed

text \<open>One turn of the loop over the trailers: it goes on, or ends with a result.\<close>

datatype turn = Continue block data_buf fwt | Break int data_buf fwt

definition extract_turn :: "endian \<Rightarrow> u32 \<Rightarrow> block \<Rightarrow> data_buf \<Rightarrow> fwt \<Rightarrow> turn option" where
  "extract_turn e crc32 buf dbuf s =
    (case extract_tail dbuf (replicate 16 None) 16 of None \<Rightarrow> None
    | Some (r, trb, dbuf) \<Rightarrow>
      if r \<noteq> 0 then Some (Break 1 dbuf s)
      else case those trb of None \<Rightarrow> None
    | Some bs \<Rightarrow> let
        tr = trailer_of e bs;
        data_len = sint (htonl e (tr_size tr) - 16)
      in if tr_magic tr \<noteq> htonl e FWIMAGE_MAGIC then Some (Break 1 dbuf (msg ''Data not found'' s))
      else case tail_crc32 (crc_table s) dbuf crc32 of None \<Rightarrow> None
    | Some tail \<Rightarrow>
      if htonl e (tr_crc32 tr) \<noteq> tail then Some (Break 1 dbuf (msg ''CRC error'' s))
      else if data_len > int BUFLEN then Some (Break 1 dbuf (msg ''Size error'' s))
      else case extract_tail dbuf buf data_len of None \<Rightarrow> None
    | Some (_, buf, dbuf) \<Rightarrow>
      if tr_type tr = FWIMAGE_SIGNATURE then
        (case signature_file s of None \<Rightarrow> Some (Continue buf dbuf s)
        | Some sig \<Rightarrow> map_option (\<lambda>d. Break 0 dbuf (stream_write sig d s)) (mem_bytes (Some buf) 0 data_len))
      else if tr_type tr = FWIMAGE_INFO then
        (case metadata_file s of None \<Rightarrow> Some (Break 1 dbuf s)
        | Some meta \<Rightarrow>
          (case mem_bytes (Some buf) 0 4 of None \<Rightarrow> None
          | Some version \<Rightarrow> let data_len = data_len - 8 in
            if validate_metadata (load32 e version) data_len \<noteq> 0 then Some (Continue buf dbuf s)
            else map_option (\<lambda>d. Break 0 dbuf (stream_write meta d s)) (mem_bytes (Some buf) 8 data_len)))
      else Some (Continue buf dbuf s))"

lemma window_size_extract_turn:
  assumes "extract_turn e crc32 buf dbuf s = Some (Continue buf' dbuf' s')"
  shows "window_size dbuf' + 16 \<le> window_size dbuf"
proof -
  from assms obtain bs d1 dl b2 r2 where 1: "extract_tail dbuf (replicate 16 None) 16 = Some (0, bs, d1)"
    and 2: "extract_tail d1 buf dl = Some (r2, b2, dbuf')"
    by (auto simp: extract_turn_def Let_def split: option.splits if_splits)
  show ?thesis using window_size_extract_tail [OF 1] window_size_extract_tail [OF 2] by auto
qed

function trailer_loop :: "endian \<Rightarrow> u32 \<Rightarrow> block \<Rightarrow> data_buf \<Rightarrow> fwt \<Rightarrow> (int \<times> data_buf \<times> fwt) option" where
  "trailer_loop e crc32 buf dbuf s = (case extract_turn e crc32 buf dbuf s of
      None \<Rightarrow> None
    | Some (Break ret dbuf s) \<Rightarrow> Some (ret, dbuf, s)
    | Some (Continue buf dbuf s) \<Rightarrow> trailer_loop e crc32 buf dbuf s)"
  by pat_completeness auto
termination
  by (relation "measure (\<lambda>(e, crc32, buf, dbuf, s). window_size dbuf)") (auto dest!: window_size_extract_turn)

declare trailer_loop.simps [simp del] fill_loop.simps [simp del]

definition extract_data :: "endian \<Rightarrow> string \<Rightarrow> fwt \<Rightarrow> (int \<times> fwt) option" where
  "extract_data e name s = (let dbuf = \<lparr>db_cur = None, db_prev = None, db_cur_len = 0, db_file_len = 0\<rparr>;
      (f, s) = open_file name False s; s = s\<lparr>firmware_file := f\<rparr>
    in case f of None \<Rightarrow> Some (1, msg ''Failed to open firmware file'' s)
    | Some firm \<Rightarrow>
      if truncate_file s \<and> firm = Stdin then Some (1, msg ''Cannot truncate file when reading from stdin'' s)
      else if fw_heap s = 0 then Some (1, s)
      else case fill_loop (crc_table s) (stream_data firm s) (fw_heap s - 1) dbuf (NOT 0) of None \<Rightarrow> None
    | Some (ok, dbuf, crc32) \<Rightarrow>
      if \<not> ok then Some (1, s)
      else case trailer_loop e crc32 (replicate BUFLEN None) dbuf s of None \<Rightarrow> None
    | Some (ret, dbuf, s) \<Rightarrow>
      Some (ret, if ret = 0 \<and> truncate_file s then stream_truncate firm (nat (db_file_len dbuf)) s else s))"

section \<open>The program\<close>

text \<open>The options as \<open>getopt\<close> finds them, each with its argument, and the arguments that are left.\<close>

definition fw_option :: "char \<times> string \<Rightarrow> fwt \<Rightarrow> int \<times> fwt" where
  "fw_option opt s = (case opt of (ch, optarg) \<Rightarrow>
    if ch = CHR ''S'' then set_file SignatureFile optarg MODE_APPEND s
    else if ch = CHR ''I'' then set_file MetadataFile optarg MODE_APPEND s
    else if ch = CHR ''s'' then set_file SignatureFile optarg MODE_EXTRACT s
    else if ch = CHR ''i'' then set_file MetadataFile optarg MODE_EXTRACT s
    else if ch = CHR ''t'' then (0, s\<lparr>truncate_file := True\<rparr>)
    else if ch = CHR ''q'' then (0, s\<lparr>quiet := True\<rparr>)
    else (0, s))"

fun option_loop :: "(char \<times> string) list \<Rightarrow> fwt \<Rightarrow> int \<times> fwt" where
  "option_loop [] s = (0, s)"
| "option_loop (opt # opts) s = (case fw_option opt s of (ret, s) \<Rightarrow>
    if ret \<noteq> 0 then (ret, s) else option_loop opts s)"

definition fwtool_main :: "endian \<Rightarrow> (char \<times> string) list \<Rightarrow> string list \<Rightarrow> fwt \<Rightarrow> (int \<times> fwt) option" where
  "fwtool_main e opts args s = (let s = s\<lparr>crc_table := crc32_filltable\<rparr> in
    case option_loop opts s of (ret, s) \<Rightarrow>
      if ret \<noteq> 0 then Some (ret, s)
      else case args of [] \<Rightarrow> Some (fwtool_usage s)
      | name # _ \<Rightarrow>
        if file_mode s = MODE_DEFAULT then Some (fwtool_usage s)
        else if signature_file s \<noteq> None \<and> metadata_file s \<noteq> None then
          Some (1, msg ''Cannot append/extract metadata and signature in one run'' s)
        else if file_mode s \<noteq> 0 then add_data e name s
        else extract_data e name s)"

text \<open>How a run of the program starts.\<close>

definition fw_start :: "fsys \<Rightarrow> bytes \<Rightarrow> nat \<Rightarrow> fwt" where
  "fw_start fs inp heap = \<lparr>fw_fs = fs, fw_stdin = inp, fw_stdout = [], fw_stderr = [], fw_heap = heap,
    signature_file = None, metadata_file = None, firmware_file = None, file_mode = MODE_DEFAULT,
    truncate_file = False, quiet = False, crc_table = replicate 256 0\<rparr>"

end
