(* ===== verification/Fwtool_Facts.thy ===== *)
theory Fwtool_Facts
  imports Fwtool
begin

text \<open>
  What \<open>fwtool\<close> does to an image: the layout of what it appends, that a failed attempt leaves the image
  as it was, the window as the end of the file, and that what is extracted is what was appended.
\<close>

section \<open>The layout\<close>

text \<open>The checksum of everything before a trailer, the trailer, and an image with a piece behind it.\<close>

definition fw_crc :: "bytes \<Rightarrow> u32" where
  "fw_crc bs = crc_bits (NOT 0) bs"

definition fw_trailer :: "bytes \<Rightarrow> u8 \<Rightarrow> nat \<Rightarrow> bytes" where
  "fw_trailer before ty n = bytes32 FWIMAGE_MAGIC @ bytes32 (fw_crc before) @ [ty, 0, 0, 0] @ bytes32 (word_of_nat n)"

definition with_metadata :: "bytes \<Rightarrow> bytes \<Rightarrow> bytes" where
  "with_metadata img meta = (let before = img @ replicate 8 0 @ meta in
    before @ fw_trailer before FWIMAGE_INFO (24 + length meta))"

definition with_signature :: "bytes \<Rightarrow> bytes \<Rightarrow> bytes" where
  "with_signature img sig = (let before = img @ sig in
    before @ fw_trailer before FWIMAGE_SIGNATURE (16 + length sig))"

lemma length_fw_trailer [simp]: "length (fw_trailer before ty n) = 16"
  by (simp add: fw_trailer_def)

lemma length_with_metadata [simp]: "length (with_metadata img meta) = length img + length meta + 24"
  by (simp add: with_metadata_def Let_def)

lemma length_with_signature [simp]: "length (with_signature img sig) = length img + length sig + 16"
  by (simp add: with_signature_def Let_def)

lemma fw_crc_append: "crc_bits (fw_crc xs) ys = fw_crc (xs @ ys)"
  by (simp add: fw_crc_def crc_bits_append)

section \<open>Appending\<close>

text \<open>The state with another content of the image.\<close>

definition put_image :: "string \<Rightarrow> bytes \<Rightarrow> fwt \<Rightarrow> fwt" where
  "put_image name d s = s\<lparr>fw_fs := set_data name d (fw_fs s)\<rparr>"

lemma put_image_simps [simp]:
  "crc_table (put_image name d s) = crc_table s"
  "signature_file (put_image name d s) = signature_file s"
  "metadata_file (put_image name d s) = metadata_file s"
  "fw_fs (put_image name d s) = set_data name d (fw_fs s)"
  "put_image name d (put_image name d' s) = put_image name d s"
  by (simp_all add: put_image_def)

lemma put_image_same: "fs_files (fw_fs s) name = Some d \<Longrightarrow> put_image name d s = s"
  by (simp add: put_image_def set_data_same)

text \<open>A write behind the image appends what the limit lets it.\<close>

lemma stream_write_image:
  assumes "file_data name (fw_fs s) = d"
  shows "stream_write (Path name True) buf s
    = put_image name (d @ take (min (length buf) (fs_limit (fw_fs s) - length d)) buf) s"
  using assms by (simp add: stream_write_def fwrite_at_def Let_def put_image_def)

lemma stream_write_fits:
  assumes "file_data name (fw_fs s) = d" and "length d + length buf \<le> fs_limit (fw_fs s)"
  shows "stream_write (Path name True) buf s = put_image name (d @ buf) s"
  using assms by (simp add: stream_write_image)

lemma update_crc_table:
  "trailer_update_crc e crc32_filltable tr buf = tr\<lparr>tr_crc32 := htonl e (crc_bits (htonl e (tr_crc32 tr)) buf)\<rparr>"
  by (simp add: trailer_update_crc_def crc32_block_bits)

lemma append_loop_fits:
  assumes "crc_table s = crc32_filltable" and "file_data name (fw_fs s) = d"
    and "length d + length (concat bufs) \<le> fs_limit (fw_fs s)" and "int (length (concat bufs)) \<le> maxlen"
    and "fs_files (fw_fs s) name \<noteq> None"
  shows "append_loop e bufs (Path name True) tr maxlen s =
    (0, tr\<lparr>tr_size := tr_size tr + word_of_nat (length (concat bufs)),
       tr_crc32 := htonl e (crc_bits (htonl e (tr_crc32 tr)) (concat bufs))\<rparr>, put_image name (d @ concat bufs) s)"
  using assms
proof (induction bufs arbitrary: tr maxlen s d)
  case Nil
  then have "fs_files (fw_fs s) name = Some d" by (auto simp: file_data_def)
  then show ?case by (simp add: put_image_same)
next
  case (Cons buf bufs)
  have w: "stream_write (Path name True) buf s = put_image name (d @ buf) s"
    using Cons.prems by (intro stream_write_fits) auto
  have IH: "append_loop e bufs (Path name True) tr (maxlen - int (length buf)) (put_image name (d @ buf) s) =
    (0, tr\<lparr>tr_size := tr_size tr + word_of_nat (length (concat bufs)),
       tr_crc32 := htonl e (crc_bits (htonl e (tr_crc32 tr)) (concat bufs))\<rparr>,
     put_image name (d @ buf @ concat bufs) s)" for tr
    using Cons.prems Cons.IH [of "put_image name (d @ buf) s" "d @ buf"] by simp
  show ?case using Cons.prems
    by (simp add: w IH Let_def update_crc_table crc_bits_append algebra_simps)
qed

lemma append_loop_any:
  assumes "file_data name (fw_fs s) = d" and "fs_files (fw_fs s) name \<noteq> None"
  shows "\<exists>r tr' more. append_loop e bufs (Path name True) tr maxlen s = (r, tr', put_image name (d @ more) s)
    \<and> (r \<noteq> 0 \<longleftrightarrow> bufs \<noteq> [] \<and> maxlen < int (length (concat bufs)))"
  using assms
proof (induction bufs arbitrary: tr maxlen s d)
  case Nil
  then have "fs_files (fw_fs s) name = Some d" by (auto simp: file_data_def)
  then show ?case by (auto simp: put_image_same intro!: exI [of _ "[]"])
next
  case (Cons buf bufs)
  then have f: "fs_files (fw_fs s) name = Some d" by (auto simp: file_data_def)
  let ?w = "take (min (length buf) (fs_limit (fw_fs s) - length d)) buf"
  show ?case
  proof (cases "maxlen - int (length buf) < 0")
    case True
    then show ?thesis using f by (auto simp: put_image_same Let_def intro!: exI [of _ "[]"])
  next
    case False
    let ?s = "put_image name (d @ ?w) s"
    let ?tr = "trailer_update_crc e (crc_table s) (tr\<lparr>tr_size := tr_size tr + word_of_nat (length buf)\<rparr>) buf"
    have "file_data name (fw_fs ?s) = d @ ?w" "fs_files (fw_fs ?s) name \<noteq> None" by simp_all
    from Cons.IH [OF this, of ?tr "maxlen - int (length buf)"]
    obtain r tr' more where "append_loop e bufs (Path name True) ?tr (maxlen - int (length buf)) ?s
        = (r, tr', put_image name ((d @ ?w) @ more) ?s)"
      and "(r \<noteq> 0) = (bufs \<noteq> [] \<and> maxlen - int (length buf) < int (length (concat bufs)))"
      by (elim exE conjE) (rule that)
    then show ?thesis using False Cons.prems(1) by (auto simp: Let_def stream_write_image)
  qed
qed

lemma append_trailer_fits:
  assumes "crc_table s = crc32_filltable" and "file_data name (fw_fs s) = d" and "length d + 16 \<le> fs_limit (fw_fs s)"
    and "length (tr_pad tr) = 3"
  shows "snd (append_trailer e (Path name True) tr s)
    = put_image name (d @ trailer_bytes e (tr\<lparr>tr_size := htonl e (tr_size tr)\<rparr>)) s"
  using assms by (simp add: append_trailer_def Let_def stream_write_fits trailer_bytes_def)

lemma append_trailer_any:
  assumes "file_data name (fw_fs s) = d"
  shows "\<exists>tr' more. append_trailer e (Path name True) tr s = (tr', put_image name (d @ more) s)"
  using assms by (auto simp: append_trailer_def Let_def stream_write_image)

text \<open>The checksum the image is read with.\<close>

lemma read_loop_crc:
  assumes "file_len + int (length (concat bufs)) < 2 ^ 31"
  shows "read_loop e crc32_filltable bufs file_len tr = Some (file_len + int (length (concat bufs)),
    tr\<lparr>tr_crc32 := htonl e (crc_bits (htonl e (tr_crc32 tr)) (concat bufs))\<rparr>)"
  using assms by (induction bufs arbitrary: file_len tr) (simp_all add: Let_def update_crc_table crc_bits_append add.assoc)

lemma read_loop_len:
  "read_loop e tbl bufs file_len tr = Some (n, tr') \<Longrightarrow> n = file_len + int (length (concat bufs))"
  by (induction bufs arbitrary: file_len tr) (fastforce simp: Let_def split: if_splits)+

lemma trailer_bytes_appended:
  "trailer_bytes e \<lparr>tr_magic = htonl e FWIMAGE_MAGIC, tr_crc32 = htonl e (fw_crc before), tr_type = ty,
    tr_pad = replicate 3 0, tr_size = htonl e (word_of_nat n)\<rparr> = fw_trailer before ty n"
  by (simp add: trailer_bytes_def fw_trailer_def numeral_eq_Suc)

text \<open>The state in which a run has its input \<open>inp\<close> and an image.\<close>

definition appending :: "fwt \<Rightarrow> string \<Rightarrow> bytes \<Rightarrow> bool" where
  "appending s name img \<longleftrightarrow> crc_table s = crc32_filltable \<and> fs_files (fw_fs s) name = Some img \<and>
    fopen_rw name (fw_fs s) \<and> length img < 2 ^ 31"

lemma header_bytes_0: "header_bytes e \<lparr>fh_version = 0, fh_flags = 0\<rparr> = replicate 8 0"
proof -
  have "store32 e 0 = replicate 4 0" by (cases e) (simp_all add: bytes32_def numeral_eq_Suc)
  then show ?thesis by (simp add: header_bytes_def flip: replicate_add)
qed

lemma htonl_minus_1: "htonl e (- 1) = - 1"
proof -
  have "bswap32 (- 1) = - 1" by code_simp
  then show ?thesis by (cases e) simp_all
qed

lemma stream_data_put_image:
  "f \<noteq> Path name True \<Longrightarrow> f \<noteq> Path name False \<Longrightarrow> stream_data f (put_image name d s) = stream_data f s"
  by (auto simp: stream_data_def put_image_def split: stream.splits)

lemma add_data_signature:
  assumes "appending s name img" and "metadata_file s = None" and "signature_file s = Some f"
    and "stream_data f s = sig" and "length sig \<le> 1024" and "length img + length sig + 16 \<le> fs_limit (fw_fs s)"
  shows "add_data e name s = Some (0, put_image name (with_signature img sig) (s\<lparr>firmware_file := Some (Path name True)\<rparr>))"
proof -
  let ?s = "s\<lparr>firmware_file := Some (Path name True)\<rparr>"
  let ?tr = "\<lparr>tr_magic = htonl e FWIMAGE_MAGIC, tr_crc32 = - 1, tr_type = 0, tr_pad = replicate 3 0, tr_size = 0\<rparr>"
  have s: "crc_table s = crc32_filltable" "fs_files (fw_fs s) name = Some img" "fopen_rw name (fw_fs s)"
    "length img < 2 ^ 31" using assms(1) by (simp_all add: appending_def)
  have data: "stream_data (Path name True) ?s = img" "stream_data f ?s = sig"
    using assms(4) s(2) by (simp_all add: stream_data_def split: stream.splits)
  have ones: "htonl e (- 1) = - 1" by (rule htonl_minus_1)
  have crc: "read_loop e crc32_filltable (chunks 512 img) 0 ?tr
    = Some (int (length img), ?tr\<lparr>tr_crc32 := htonl e (fw_crc img)\<rparr>)"
    using s by (simp add: read_loop_crc concat_chunks fw_crc_def ones)
  let ?tr1 = "?tr\<lparr>tr_crc32 := htonl e (fw_crc img), tr_type := FWIMAGE_SIGNATURE, tr_size := 16\<rparr>"
  let ?s2 = "put_image name (img @ sig) ?s"
  have app: "append_data e f (Path name True) ?tr1 SIGNATURE_MAXLEN ?s
    = (0, ?tr1\<lparr>tr_size := 16 + word_of_nat (length sig), tr_crc32 := htonl e (fw_crc (img @ sig))\<rparr>, ?s2)"
    unfolding append_data_def data using s assms(5,6)
    by (subst append_loop_fits [where d = img]) (simp_all add: concat_chunks SIGNATURE_MAXLEN_def fw_crc_append)
  have tr: "snd (append_trailer e (Path name True) (?tr1\<lparr>tr_size := 16 + word_of_nat (length sig),
      tr_crc32 := htonl e (fw_crc (img @ sig))\<rparr>) ?s2) = put_image name (with_signature img sig) ?s"
    using s assms(6) trailer_bytes_appended [of e "img @ sig" FWIMAGE_SIGNATURE "16 + length sig"]
    by (subst append_trailer_fits [where d = "img @ sig"]) (simp_all add: with_signature_def Let_def)
  show ?thesis
    using s assms(2,3) tr app
    by (auto simp: add_data_def Let_def data crc add_signature_def split: prod.split)
qed

lemma add_data_metadata:
  assumes "appending s name img" and "metadata_file s = Some f" and "f \<noteq> Path name True" and "f \<noteq> Path name False"
    and "stream_data f s = meta" and "length meta \<le> 30 * 1024" and "length img + length meta + 24 \<le> fs_limit (fw_fs s)"
  shows "add_data e name s = Some (0, put_image name (with_metadata img meta) (s\<lparr>firmware_file := Some (Path name True)\<rparr>))"
proof -
  let ?s = "s\<lparr>firmware_file := Some (Path name True)\<rparr>" and ?z = "replicate 8 0"
  let ?s1 = "put_image name (img @ ?z) ?s" and ?s2 = "put_image name (img @ ?z @ meta) ?s"
  let ?tr = "\<lparr>tr_magic = htonl e FWIMAGE_MAGIC, tr_crc32 = - 1, tr_type = 0, tr_pad = replicate 3 0, tr_size = 0\<rparr>"
  have s: "crc_table s = crc32_filltable" "fs_files (fw_fs s) name = Some img" "fopen_rw name (fw_fs s)"
    "length img < 2 ^ 31" using assms(1) by (simp_all add: appending_def)
  have data: "stream_data (Path name True) ?s = img" "stream_data f ?s1 = meta"
    using assms(3-5) s(2) by (simp_all add: stream_data_put_image) (simp_all add: stream_data_def split: stream.splits)
  have crc: "read_loop e crc32_filltable (chunks 512 img) 0 ?tr
    = Some (int (length img), ?tr\<lparr>tr_crc32 := htonl e (fw_crc img)\<rparr>)"
    using s by (simp add: read_loop_crc concat_chunks fw_crc_def htonl_minus_1)
  have hdr: "stream_write (Path name True) ?z ?s = ?s1"
    using s assms(7) by (intro stream_write_fits) simp_all
  let ?tr1 = "?tr\<lparr>tr_crc32 := htonl e (fw_crc (img @ ?z)), tr_type := FWIMAGE_INFO, tr_size := 24\<rparr>"
  let ?tr2 = "?tr1\<lparr>tr_size := 24 + word_of_nat (length meta), tr_crc32 := htonl e (fw_crc (img @ ?z @ meta))\<rparr>"
  have app: "append_data e f (Path name True) ?tr1 METADATA_MAXLEN ?s1 = (0, ?tr2, ?s2)"
    unfolding append_data_def data using s assms(6,7)
    by (subst append_loop_fits [where d = "img @ ?z"]) (simp_all add: concat_chunks METADATA_MAXLEN_def fw_crc_append)
  have tr: "snd (append_trailer e (Path name True) ?tr2 ?s2) = put_image name (with_metadata img meta) ?s"
    using s assms(7) trailer_bytes_appended [of e "img @ ?z @ meta" FWIMAGE_INFO "24 + length meta"]
    by (subst append_trailer_fits [where d = "img @ ?z @ meta"]) (simp_all add: with_metadata_def Let_def)
  show ?thesis
    using s assms(2) tr app
    by (auto simp: add_data_def Let_def data crc add_metadata_def header_bytes_0 update_crc_table fw_crc_append hdr
        simp del: append_assoc split: prod.split)
qed

text \<open>Whatever happens, the other files stay, and the image stays when the result is not 0.\<close>

lemma append_data_any:
  assumes "file_data name (fw_fs s) = d" and "fs_files (fw_fs s) name \<noteq> None"
  shows "\<exists>r tr' more. append_data e inp (Path name True) tr maxlen s = (r, tr', put_image name (d @ more) s)
    \<and> (r \<noteq> 0 \<longleftrightarrow> stream_data inp s \<noteq> [] \<and> maxlen < int (length (stream_data inp s)))"
proof -
  have "chunks 512 d \<noteq> [] \<longleftrightarrow> d \<noteq> []" for d by (cases "d = []") (simp_all add: chunks_Cons)
  with append_loop_any [OF assms, of e "chunks 512 (stream_data inp s)" tr maxlen] show ?thesis
    by (simp add: append_data_def concat_chunks)
qed

lemma add_signature_any:
  assumes "file_data name (fw_fs s) = d" and "fs_files (fw_fs s) name \<noteq> None"
  shows "\<exists>r tr' more. add_signature e (Path name True) tr s = (r, tr', put_image name (d @ more) s)"
proof (cases "signature_file s")
  case None
  then show ?thesis using assms
    by (auto simp: add_signature_def put_image_same intro!: exI [of _ "[]"])
next
  case (Some f)
  let ?tr = "tr\<lparr>tr_type := FWIMAGE_SIGNATURE, tr_size := 16\<rparr>"
  obtain r tr' more where
    a: "append_data e f (Path name True) ?tr SIGNATURE_MAXLEN s = (r, tr', put_image name (d @ more) s)"
    using append_data_any [OF assms, of e f ?tr SIGNATURE_MAXLEN] by (elim exE conjE) (rule that)
  have "file_data name (fw_fs (put_image name (d @ more) s)) = d @ more" by simp
  from append_trailer_any [OF this, of e tr']
  obtain tr'' more' where "append_trailer e (Path name True) tr' (put_image name (d @ more) s) = (tr'', put_image name (d @ more @ more') s)"
    by auto
  with a Some show ?thesis by (auto simp: add_signature_def Let_def)
qed

lemma add_metadata_any:
  assumes "file_data name (fw_fs s) = d" and "fs_files (fw_fs s) name \<noteq> None"
  shows "\<exists>r tr' more. add_metadata e meta (Path name True) tr s = (r, tr', put_image name (d @ more) s)"
proof -
  obtain h where h: "stream_write (Path name True) (replicate 8 0) s = put_image name (d @ h) s"
    using stream_write_image [OF assms(1)] by blast
  let ?s = "put_image name (d @ h) s"
  let ?tr = "trailer_update_crc e (crc_table s) (tr\<lparr>tr_type := FWIMAGE_INFO, tr_size := 24\<rparr>) (replicate 8 0)"
  have s: "file_data name (fw_fs ?s) = d @ h" "fs_files (fw_fs ?s) name \<noteq> None" by simp_all
  obtain r tr' more where
    a: "append_data e meta (Path name True) ?tr METADATA_MAXLEN ?s = (r, tr', put_image name ((d @ h) @ more) ?s)"
    using append_data_any [OF s, of e meta ?tr METADATA_MAXLEN] by (elim exE conjE) (rule that)
  have "file_data name (fw_fs (put_image name ((d @ h) @ more) s)) = d @ h @ more" by simp
  from append_trailer_any [OF this, of e tr']
  obtain tr'' more' where "append_trailer e (Path name True) tr' (put_image name ((d @ h) @ more) s) = (tr'', put_image name (d @ h @ more @ more') s)"
    by auto
  with a h show ?thesis by (auto simp: add_metadata_def Let_def header_bytes_0)
qed

text \<open>
  C21: Adding metadata or a signature to an image only adds to its end, and touches no other file; when
  it fails (the input is too long, or the image cannot be opened) the image has the content it had.
\<close>

theorem fw_failed_append_restores:
  assumes "add_data e name s = Some (ret, s')"
  shows "(\<exists>more. fs_files (fw_fs s') =
      (case fs_files (fw_fs s) name of None \<Rightarrow> fs_files (fw_fs s) | Some img \<Rightarrow> (fs_files (fw_fs s))(name \<mapsto> img @ more)))
    \<and> (ret \<noteq> 0 \<longrightarrow> fs_files (fw_fs s') = fs_files (fw_fs s))"
proof (cases "fopen_rw name (fw_fs s)")
  case False
  then show ?thesis using assms
    by (auto simp: add_data_def msg_def map_upd_triv split: option.split intro!: exI [of _ "[]"])
next
  case True
  then obtain img where img: "fs_files (fw_fs s) name = Some img" by (auto simp: fopen_rw_def fopen_r_def)
  let ?s = "s\<lparr>firmware_file := Some (Path name True)\<rparr>"
  let ?tr = "\<lparr>tr_magic = htonl e FWIMAGE_MAGIC, tr_crc32 = - 1, tr_type = 0, tr_pad = replicate 3 0, tr_size = 0\<rparr>"
  have s: "file_data name (fw_fs ?s) = img" "fs_files (fw_fs ?s) name \<noteq> None" using img by simp_all
  obtain n tr where read: "read_loop e (crc_table ?s) (chunks 512 img) 0 ?tr = Some (n, tr)"
    using assms True s(1) by (auto simp: add_data_def Let_def stream_data_def split: option.splits)
  have n: "nat n = length img" using read_loop_len [OF read] by (simp add: concat_chunks)
  obtain r tr' more where "(case metadata_file ?s of Some meta \<Rightarrow> add_metadata e meta (Path name True) tr ?s
      | None \<Rightarrow> if signature_file ?s \<noteq> None then add_signature e (Path name True) tr ?s else (0, tr, ?s))
      = (r, tr', put_image name (img @ more) ?s)"
  proof (cases "metadata_file s")
    case (Some meta)
    with add_metadata_any [OF s, of e meta tr] show ?thesis by (auto intro: that)
  next
    case None
    have "put_image name (img @ []) ?s = ?s" using img by (simp add: put_image_same)
    with None add_signature_any [OF s, of e tr] show ?thesis
      by (cases "signature_file s = None") (auto intro: that that [of 0 tr "[]"])
  qed
  then have res: "ret = r" "s' = (if r \<noteq> 0 then stream_truncate (Path name True) (length img) (put_image name (img @ more) ?s)
      else put_image name (img @ more) ?s)"
    using assms True s(1) read n by (auto simp: add_data_def Let_def stream_data_def)
  show ?thesis
  proof (cases "r = 0")
    case True
    then show ?thesis using img by (auto simp: res put_image_def)
  next
    case False
    then have "fs_files (fw_fs s') = fs_files (fw_fs s)" using img
      by (simp add: res stream_truncate_def ftruncate_def Let_def put_image_def map_upd_triv)
    then show ?thesis using img by (auto simp: map_upd_triv intro: exI [of _ "[]"])
  qed
qed

text \<open>A signature that is too long.\<close>

definition fw_long_signature :: fwt where
  "fw_long_signature = (fw_start \<lparr>fs_files = [''fw'' \<mapsto> [1, 2], ''sig'' \<mapsto> replicate 2000 0], fs_readable = (\<lambda>_. True),
      fs_writable = (\<lambda>_. True), fs_limit = 10000\<rparr> [] 3)
    \<lparr>signature_file := Some (Path ''sig'' False), file_mode := MODE_APPEND, crc_table := crc32_filltable\<rparr>"

lemma fw_failed_append_restores_witness:
  "\<exists>s'. add_data Big ''fw'' fw_long_signature = Some (1, s') \<and> fs_files (fw_fs s') = fs_files (fw_fs fw_long_signature)"
proof -
  let ?s = "fw_long_signature\<lparr>firmware_file := Some (Path ''fw'' True)\<rparr>"
  have s: "crc_table ?s = crc32_filltable" "file_data ''fw'' (fw_fs ?s) = [1, 2]" "fs_files (fw_fs ?s) ''fw'' \<noteq> None"
    "stream_data (Path ''sig'' False) ?s = replicate 2000 0" "signature_file ?s = Some (Path ''sig'' False)" "metadata_file ?s = None"
    "stream_data (Path ''fw'' True) ?s = [1, 2]" "fopen_rw ''fw'' (fw_fs fw_long_signature)"
    by (simp_all add: fw_long_signature_def fw_start_def file_data_def stream_data_def fopen_rw_def fopen_r_def)
  have fails: "fst (add_signature Big (Path ''fw'' True) tr ?s) = 1" for tr
  proof -
    let ?tr = "tr\<lparr>tr_type := FWIMAGE_SIGNATURE, tr_size := 16\<rparr>"
    obtain r tr' ext where "append_data Big (Path ''sig'' False) (Path ''fw'' True) ?tr SIGNATURE_MAXLEN ?s
        = (r, tr', put_image ''fw'' ([1, 2] @ ext) ?s)" and r: "r \<noteq> 0 \<longleftrightarrow> stream_data (Path ''sig'' False) ?s \<noteq> [] \<and>
          SIGNATURE_MAXLEN < int (length (stream_data (Path ''sig'' False) ?s))"
      using append_data_any [OF s(2,3), of Big "Path ''sig'' False" ?tr SIGNATURE_MAXLEN] by (elim exE conjE) (rule that)
    moreover have "r \<noteq> 0" using r unfolding s(4) by (simp add: SIGNATURE_MAXLEN_def)
    ultimately show ?thesis using s(5) by (simp add: add_signature_def)
  qed
  obtain n tr where "read_loop Big crc32_filltable (chunks 512 [1, 2]) 0
      \<lparr>tr_magic = htonl Big FWIMAGE_MAGIC, tr_crc32 = - 1, tr_type = 0, tr_pad = replicate 3 0, tr_size = 0\<rparr> = Some (n, tr)"
    by (simp add: read_loop_crc concat_chunks)
  then obtain s' where run: "add_data Big ''fw'' fw_long_signature = Some (1, s')"
    using fails [of tr] s by (cases "add_signature Big (Path ''fw'' True) tr ?s") (auto simp: add_data_def Let_def)
  with fw_failed_append_restores [OF run] show ?thesis by auto
qed

end
