(* ===== verification/Fwtool_Extract_Facts.thy ===== *)
theory Fwtool_Extract_Facts
  imports Fwtool_Facts
begin

text \<open>
  Extracting: the window holds the end of the file, and taking bytes off it takes them off the file;
  from this, what a turn of the loop over the trailers does, and what the program extracts.
\<close>

section \<open>The window\<close>

text \<open>
  \<open>window dbuf pre w\<close>: the file that is left is \<open>pre @ w\<close>, and the blocks hold \<open>w\<close>.
\<close>

inductive window :: "data_buf \<Rightarrow> bytes \<Rightarrow> bytes \<Rightarrow> bool" where
  window_none: "n = int BUFLEN \<Longrightarrow> l = int (length pre) \<Longrightarrow> window \<lparr>db_cur = None, db_prev = None, db_cur_len = n, db_file_len = l\<rparr> pre []"
| window_cur: "length blk = BUFLEN \<Longrightarrow> length c \<le> BUFLEN \<Longrightarrow> take (length c) blk = map Some c \<Longrightarrow>
    n = int (length c) \<Longrightarrow> l = int (length pre + length c) \<Longrightarrow>
    window \<lparr>db_cur = Some blk, db_prev = None, db_cur_len = n, db_file_len = l\<rparr> pre c"
| window_both: "length blk = BUFLEN \<Longrightarrow> length c \<le> BUFLEN \<Longrightarrow> take (length c) blk = map Some c \<Longrightarrow>
    n = int (length c) \<Longrightarrow> length q = BUFLEN \<Longrightarrow> l = int (length pre + BUFLEN + length c) \<Longrightarrow>
    window \<lparr>db_cur = Some blk, db_prev = Some (map Some q), db_cur_len = n, db_file_len = l\<rparr> pre (q @ c)"

lemma those_map_Some [simp]: "those (map Some xs) = Some xs"
  by (induction xs) simp_all

lemma take_map_prefix: "take n blk = map Some c \<Longrightarrow> k + m \<le> n \<Longrightarrow> take m (drop k blk) = map Some (take m (drop k c))"
proof -
  assume a: "take n blk = map Some c" "k + m \<le> n"
  have "take m (drop k blk) = take m (drop k (take n blk))"
    using a(2) by (simp add: drop_take min_def)
  then show ?thesis using a(1) by (simp add: take_map drop_map)
qed

text \<open>Reading the end of what is valid in a block.\<close>

lemma mem_read_tail:
  assumes "length blk = BUFLEN" "length c \<le> BUFLEN" "take (length c) blk = map Some c" "n \<le> length c"
  shows "mem_read (Some blk) (int (length c) - int n) (int n) = Some (map Some (drop (length c - n) c))"
proof -
  have "nat (int (length c) - int n) = length c - n" by simp
  moreover have "take n (drop (length c - n) blk) = map Some (drop (length c - n) c)"
    using take_map_prefix [OF assms(3), of "length c - n" n] assms(4) by simp
  ultimately show ?thesis using assms by (simp add: mem_read_def)
qed

lemma mem_write_at:
  assumes "n + length d \<le> length blk"
  shows "mem_write blk (int n) d = Some (take n blk @ d @ drop (n + length d) blk)"
  using assms by (simp add: mem_write_def)

lemma take_map_less: "take n blk = map Some c \<Longrightarrow> k \<le> n \<Longrightarrow> take k blk = map Some (take k c)"
  using take_map_prefix [of n blk c 0 k] by simp

text \<open>Taking bytes off the last block alone, and what happens when it is empty.\<close>

lemma extract_tail_cur:
  assumes blk: "length blk = BUFLEN" "length c \<le> BUFLEN" "take (length c) blk = map Some c"
    and n: "n \<le> length c" "n \<le> length dest"
  shows "extract_tail \<lparr>db_cur = Some blk, db_prev = p, db_cur_len = int (length c), db_file_len = l\<rparr> dest (int n)
    = Some (0, map Some (drop (length c - n) c) @ drop n dest,
        remove_tail \<lparr>db_cur = Some blk, db_prev = p, db_cur_len = int (length c), db_file_len = l\<rparr> (int n))"
proof -
  let ?d = "remove_tail \<lparr>db_cur = Some blk, db_prev = p, db_cur_len = int (length c), db_file_len = l\<rparr> (int n)"
  have "db_cur_len ?d \<noteq> 0" by (simp add: remove_tail_def Let_def)
  then have "remove_tail ?d 0 = ?d" by (simp add: remove_tail_def [of _ 0] Let_def)
  moreover have "mem_write dest 0 (map Some (drop (length c - n) c)) = Some (map Some (drop (length c - n) c) @ drop n dest)"
    using mem_write_at [of 0 "map Some (drop (length c - n) c)" dest] n by simp
  ultimately show ?thesis using n
    by (simp add: extract_tail_def mem_read_tail [OF blk n(1)] mem_read_def [of _ _ 0] mem_write_def [of _ _ "[]"])
qed

lemma extract_tail_both:
  assumes blk: "length blk = BUFLEN" "length c \<le> BUFLEN" "take (length c) blk = map Some c"
    and q: "length q = BUFLEN" and n: "length c < n" "n \<le> BUFLEN + length c" "n \<le> length dest"
  shows "extract_tail \<lparr>db_cur = Some blk, db_prev = Some (map Some q), db_cur_len = int (length c), db_file_len = l\<rparr> dest (int n)
    = Some (0, map Some (drop (BUFLEN + length c - n) (q @ c)) @ drop n dest,
        remove_tail \<lparr>db_cur = Some (map Some q), db_prev = None, db_cur_len = int BUFLEN, db_file_len = l - int (length c)\<rparr>
          (int (n - length c)))"
proof -
  let ?k = "n - length c" and ?d = "\<lparr>db_cur = Some (map Some q), db_prev = None, db_cur_len = int BUFLEN, db_file_len = l - int (length c)\<rparr>"
  let ?dest = "take ?k dest @ map Some c @ drop n dest"
  have k: "?k \<le> length q" using n q by auto
  have off: "int n - int (length c) = int ?k" using n by simp
  have rem: "remove_tail \<lparr>db_cur = Some blk, db_prev = Some (map Some q), db_cur_len = int (length c), db_file_len = l\<rparr> (int (length c)) = ?d"
    by (simp add: remove_tail_def)
  have w1: "mem_write dest (int ?k) (map Some c) = Some ?dest"
    using mem_write_at [of ?k "map Some c" dest] n by simp
  have r2: "mem_read (Some (map Some q)) (int BUFLEN - int ?k) (int ?k) = Some (map Some (drop (BUFLEN - ?k) q))"
    using mem_read_tail [of "map Some q" q ?k] q k by simp
  have w2: "mem_write ?dest 0 (map Some (drop (BUFLEN - ?k) q)) = Some (map Some (drop (BUFLEN - ?k) q) @ map Some c @ drop n dest)"
    using mem_write_at [of 0 "map Some (drop (BUFLEN - ?k) q)" ?dest] n q k by simp
  have d: "drop (BUFLEN + length c - n) (q @ c) = drop (BUFLEN - ?k) q @ c" using n q by simp
  have r1: "mem_read (Some blk) 0 (int (length c)) = Some (map Some c)"
    using mem_read_tail [OF blk order.refl] by simp
  have cond: "int (length c) < int n" "\<not> int n \<le> int (length c)" "int ?k \<noteq> 0" using n by auto
  show ?thesis
    unfolding d extract_tail_def
    by (simp only: Let_def data_buf.simps r1 w1 rem r2 w2 off cond if_False if_True option.case diff_self
        option.distinct simp_thms map_append append_assoc)
qed

lemma window_remove_cur:
  assumes "length blk = BUFLEN" "length c \<le> BUFLEN" "take (length c) blk = map Some c" "n \<le> length c"
    and "l = int (length pre + length c)"
  shows "window (remove_tail \<lparr>db_cur = Some blk, db_prev = None, db_cur_len = int (length c), db_file_len = l\<rparr> (int n))
    pre (take (length c - n) c)"
proof (cases "n = length c")
  case True
  then show ?thesis using assms by (simp add: remove_tail_def window_none)
next
  case False
  then have "remove_tail \<lparr>db_cur = Some blk, db_prev = None, db_cur_len = int (length c), db_file_len = l\<rparr> (int n)
    = \<lparr>db_cur = Some blk, db_prev = None, db_cur_len = int (length c) - int n, db_file_len = l - int n\<rparr>"
    using assms(4) by (simp add: remove_tail_def)
  also have "window \<dots> pre (take (length c - n) c)"
    using assms take_map_less [OF assms(3), of "length c - n"] by (intro window_cur) auto
  finally show ?thesis .
qed

lemma window_remove_both:
  assumes "length blk = BUFLEN" "length c \<le> BUFLEN" "take (length c) blk = map Some c" "n \<le> length c" "length q = BUFLEN"
    and "l = int (length pre + BUFLEN + length c)"
  shows "window (remove_tail \<lparr>db_cur = Some blk, db_prev = Some (map Some q), db_cur_len = int (length c), db_file_len = l\<rparr> (int n))
    pre (q @ take (length c - n) c)"
proof (cases "n = length c")
  case True
  have "window \<lparr>db_cur = Some (map Some q), db_prev = None, db_cur_len = int BUFLEN, db_file_len = l - int n\<rparr> pre q"
    using assms True by (intro window_cur) auto
  then show ?thesis using assms True by (simp add: remove_tail_def)
next
  case False
  then have "remove_tail \<lparr>db_cur = Some blk, db_prev = Some (map Some q), db_cur_len = int (length c), db_file_len = l\<rparr> (int n)
    = \<lparr>db_cur = Some blk, db_prev = Some (map Some q), db_cur_len = int (length c) - int n, db_file_len = l - int n\<rparr>"
    using assms(4) by (simp add: remove_tail_def)
  also have "window \<dots> pre (q @ take (length c - n) c)"
    using assms take_map_less [OF assms(3), of "length c - n"] by (intro window_both) auto
  finally show ?thesis .
qed

lemma extract_tail_window:
  assumes w: "window dbuf pre w" and n: "n \<le> length w" "n \<le> length dest"
  shows "\<exists>r dbuf'. extract_tail dbuf dest (int n) = Some (r, map Some (drop (length w - n) w) @ drop n dest, dbuf')
    \<and> window dbuf' pre (take (length w - n) w) \<and> (n \<noteq> 0 \<longrightarrow> r = 0)"
  using w
proof cases
  case (window_none k l)
  then show ?thesis using n w by (simp add: extract_tail_def)
next
  case (window_cur blk k l)
  then show ?thesis using n
    by (simp add: extract_tail_cur) (rule window_remove_cur; simp)
next
  case (window_both blk c k q l)
  show ?thesis
  proof (cases "n \<le> length c")
    case True
    with window_both n have e: "extract_tail dbuf dest (int n)
      = Some (0, map Some (drop (length w - n) w) @ drop n dest, remove_tail dbuf (int n))"
      by (simp add: extract_tail_cur)
    have "take (length w - n) w = q @ take (length c - n) c" using window_both True by simp
    then have "window (remove_tail dbuf (int n)) pre (take (length w - n) w)"
      using window_both True by (simp add: window_remove_both)
    with e show ?thesis by blast
  next
    case False
    let ?d = "\<lparr>db_cur = Some (map Some q), db_prev = None, db_cur_len = int BUFLEN, db_file_len = l - int (length c)\<rparr>"
    have e: "extract_tail dbuf dest (int n)
      = Some (0, map Some (drop (length w - n) w) @ drop n dest, remove_tail ?d (int (n - length c)))"
      using window_both False n by (simp add: extract_tail_both)
    have "take (length w - n) w = take (length q - (n - length c)) q" using window_both False n by simp
    moreover have "window (remove_tail ?d (int (n - length c))) pre (take (length q - (n - length c)) q)"
      using window_remove_cur [of "map Some q" q "n - length c" "l - int (length c)" pre] window_both False n by auto
    ultimately show ?thesis using e by auto
  qed
qed

lemma mem_bytes_full: "mem_bytes (Some (map Some bs)) 0 (int (length bs)) = Some bs"
  by (simp add: mem_bytes_def mem_read_def)

lemma mem_bytes_prefix:
  "take n blk = map Some bs \<Longrightarrow> n \<le> length blk \<Longrightarrow> mem_bytes (Some blk) 0 (int n) = Some bs"
  by (cases "n = 0") (simp_all add: mem_bytes_def mem_read_def)

lemma tail_crc32_window:
  assumes "window dbuf pre w" and "w \<noteq> []"
  shows "tail_crc32 crc32_filltable dbuf (fw_crc pre) = Some (fw_crc (pre @ w))"
  using assms(1)
proof cases
  case (window_cur blk k l)
  then have "mem_bytes (Some blk) 0 (int (length w)) = Some w" by (intro mem_bytes_prefix) auto
  then show ?thesis using window_cur by (simp add: tail_crc32_def crc32_block_bits fw_crc_append)
next
  case (window_both blk c k q l)
  then have "mem_bytes (Some blk) 0 (int (length c)) = Some c" by (intro mem_bytes_prefix) auto
  then show ?thesis using window_both mem_bytes_full [of q]
    by (simp add: tail_crc32_def crc32_block_bits fw_crc_append crc_bits_append)
qed (use assms(2) in simp)

section \<open>Filling the window\<close>

text \<open>The state of the reader after the blocks \<open>f\<close> of the file: the last two are in memory.\<close>

inductive filling :: "data_buf \<Rightarrow> u32 \<Rightarrow> bytes \<Rightarrow> nat \<Rightarrow> bool" where
  filling_0: "filling \<lparr>db_cur = None, db_prev = None, db_cur_len = 0, db_file_len = 0\<rparr> (fw_crc []) [] 2"
| filling_1: "length a = BUFLEN \<Longrightarrow> l = int BUFLEN \<Longrightarrow>
    filling \<lparr>db_cur = Some (map Some a), db_prev = None, db_cur_len = n, db_file_len = l\<rparr> (fw_crc []) a 1"
| filling_2: "length a = BUFLEN \<Longrightarrow> length b = BUFLEN \<Longrightarrow> l = int (length x + 2 * BUFLEN) \<Longrightarrow>
    filling \<lparr>db_cur = Some (map Some a), db_prev = Some (map Some b), db_cur_len = n, db_file_len = l\<rparr> (fw_crc x) (x @ b @ a) 0"

lemma fill_block_full: "length d = length blk \<Longrightarrow> fill_block blk d = map Some d"
  by (simp add: fill_block_def)

lemma length_fill_block [simp]: "length d \<le> length blk \<Longrightarrow> length (fill_block blk d) = length blk"
  by (simp add: fill_block_def)

lemma take_fill_block [simp]: "take (length d) (fill_block blk d) = map Some d"
  by (simp add: fill_block_def)

text \<open>A turn of the reader: it takes the next block, or ends with the window.\<close>

lemma fill_step:
  assumes "filling dbuf crc f k" and "k \<le> heap" and "length f + length d < 2 ^ 31"
  shows "\<exists>dbuf' crc' heap'. fill_loop crc32_filltable d heap dbuf crc
      = (if length (take BUFLEN d) = BUFLEN then fill_loop crc32_filltable (drop BUFLEN d) heap' dbuf' crc'
         else Some (True, dbuf', crc'))
    \<and> (if length (take BUFLEN d) = BUFLEN then \<exists>k'. filling dbuf' crc' (f @ take BUFLEN d) k' \<and> k' \<le> heap'
       else \<exists>pre w. window dbuf' pre w \<and> crc' = fw_crc pre \<and> pre @ w = f @ d \<and> (pre = [] \<or> BUFLEN \<le> length w))"
  using assms(1)
proof cases
  case filling_0
  let ?blk = "fill_block (replicate BUFLEN None) (take BUFLEN d)"
  let ?d = "\<lparr>db_cur = Some ?blk, db_prev = None, db_cur_len = int (length (take BUFLEN d)),
    db_file_len = int (length (take BUFLEN d))\<rparr>"
  have step: "fill_loop crc32_filltable d heap dbuf crc
    = (if length (take BUFLEN d) = BUFLEN then fill_loop crc32_filltable (drop BUFLEN d) (heap - 1) ?d crc
       else Some (True, ?d, crc))"
    using filling_0 assms by (subst fill_loop.simps) (simp add: Let_def)
  show ?thesis
  proof (cases "length (take BUFLEN d) = BUFLEN")
    case True
    then have "?blk = map Some (take BUFLEN d)" by (intro fill_block_full) simp
    with True have "filling ?d (fw_crc []) (take BUFLEN d) 1" by (simp only:) (rule filling_1; simp)
    with step True filling_0 assms(2) show ?thesis
      by (intro exI [of _ ?d] exI [of _ crc] exI [of _ "heap - 1"]) auto
  next
    case False
    then have "take BUFLEN d = d" by simp
    then have "window ?d [] d" by (intro window_cur) auto
    with step False filling_0 show ?thesis by (intro exI [of _ ?d] exI [of _ crc]) auto
  qed
next
  case (filling_1 l n)
  let ?blk = "fill_block (replicate BUFLEN None) (take BUFLEN d)"
  let ?d = "\<lparr>db_cur = Some ?blk, db_prev = Some (map Some f), db_cur_len = int (length (take BUFLEN d)),
    db_file_len = int BUFLEN + int (length (take BUFLEN d))\<rparr>"
  have step: "fill_loop crc32_filltable d heap dbuf crc
    = (if length (take BUFLEN d) = BUFLEN then fill_loop crc32_filltable (drop BUFLEN d) (heap - 1) ?d crc
       else Some (True, ?d, crc))"
    using filling_1 assms by (subst fill_loop.simps) (simp add: Let_def)
  show ?thesis
  proof (cases "length (take BUFLEN d) = BUFLEN")
    case True
    then have "?blk = map Some (take BUFLEN d)" by (intro fill_block_full) simp
    with True filling_1 have "filling ?d (fw_crc []) ([] @ f @ take BUFLEN d) 0"
      by (simp only:) (rule filling.filling_2; simp)
    with step True filling_1 show ?thesis
      by (intro exI [of _ ?d] exI [of _ crc] exI [of _ "heap - 1"]) auto
  next
    case False
    then have "take BUFLEN d = d" by simp
    then have "window ?d [] (f @ d)" using filling_1 by (intro window_both) auto
    with step False filling_1 show ?thesis by (intro exI [of _ ?d] exI [of _ crc]) auto
  qed
next
  case (filling_2 a b l x n)
  let ?blk = "fill_block (map Some b) (take BUFLEN d)"
  let ?d = "\<lparr>db_cur = Some ?blk, db_prev = Some (map Some a), db_cur_len = int (length (take BUFLEN d)),
    db_file_len = l + int (length (take BUFLEN d))\<rparr>"
  have "mem_bytes (Some (map Some b)) 0 (int BUFLEN) = Some b" using filling_2 mem_bytes_full [of b] by simp
  then have step: "fill_loop crc32_filltable d heap dbuf crc
    = (if length (take BUFLEN d) = BUFLEN then fill_loop crc32_filltable (drop BUFLEN d) heap ?d (fw_crc (x @ b))
       else Some (True, ?d, fw_crc (x @ b)))"
    using filling_2 assms by (subst fill_loop.simps) (simp add: Let_def crc32_block_bits fw_crc_append)
  show ?thesis
  proof (cases "length (take BUFLEN d) = BUFLEN")
    case True
    then have "?blk = map Some (take BUFLEN d)" using filling_2 by (intro fill_block_full) simp
    with True filling_2 have "filling ?d (fw_crc (x @ b)) ((x @ b) @ a @ take BUFLEN d) 0"
      by (simp only:) (rule filling.filling_2; simp)
    with step True filling_2 show ?thesis
      by (intro exI [of _ ?d] exI [of _ "fw_crc (x @ b)"] exI [of _ heap]) auto
  next
    case False
    then have "take BUFLEN d = d" by simp
    then have "window ?d (x @ b) (a @ d)" using filling_2 by (intro window_both) auto
    with step False filling_2 show ?thesis
      by (intro exI [of _ ?d] exI [of _ "fw_crc (x @ b)"]) (auto intro: exI [of _ "x @ b"] exI [of _ "a @ d"])
  qed
qed

lemma fill_loop_window:
  assumes "filling dbuf crc f k" and "k \<le> heap" and "length f + length d < 2 ^ 31"
  shows "\<exists>dbuf' pre w. fill_loop crc32_filltable d heap dbuf crc = Some (True, dbuf', fw_crc pre)
    \<and> window dbuf' pre w \<and> pre @ w = f @ d \<and> (pre = [] \<or> BUFLEN \<le> length w)"
  using assms
proof (induction "length d" arbitrary: d f k heap dbuf crc rule: less_induct)
  case less
  from fill_step [OF less.prems] obtain dbuf' crc' heap' where
    step: "fill_loop crc32_filltable d heap dbuf crc
      = (if length (take BUFLEN d) = BUFLEN then fill_loop crc32_filltable (drop BUFLEN d) heap' dbuf' crc'
         else Some (True, dbuf', crc'))"
    and inv: "if length (take BUFLEN d) = BUFLEN then \<exists>k'. filling dbuf' crc' (f @ take BUFLEN d) k' \<and> k' \<le> heap'
       else \<exists>pre w. window dbuf' pre w \<and> crc' = fw_crc pre \<and> pre @ w = f @ d \<and> (pre = [] \<or> BUFLEN \<le> length w)"
    by (elim exE conjE) (rule that)
  show ?case
  proof (cases "length (take BUFLEN d) = BUFLEN")
    case True
    then obtain k' where k: "filling dbuf' crc' (f @ take BUFLEN d) k'" "k' \<le> heap'" using inv by auto
    have shorter: "length (drop BUFLEN d) < length d" using True BUFLEN_pos by (cases d) auto
    have "length (f @ take BUFLEN d) + length (drop BUFLEN d) < 2 ^ 31" using less.prems(3) by simp
    from less.hyps [OF shorter k this] True step show ?thesis by simp
  next
    case False
    with inv obtain pre w where "window dbuf' pre w" "crc' = fw_crc pre" "pre @ w = f @ d" "pre = [] \<or> BUFLEN \<le> length w"
      unfolding if_not_P [OF False] by (elim exE conjE) (rule that)
    with False step show ?thesis by (intro exI [of _ dbuf'] exI [of _ pre] exI [of _ w]) auto
  qed
qed

section \<open>What is at the end of a file\<close>

text \<open>
  The piece that ends at the end of a file, if its trailer is right: the bytes before the trailer,
  the type, and how many of these bytes belong to the piece.
\<close>

definition fw_chunk :: "bytes \<Rightarrow> (bytes \<times> u8 \<times> nat) option" where
  "fw_chunk f = (let body = take (length f - 16) f; t = drop (length f - 16) f; n = unat (word32 (drop 12 t)) in
    if 16 \<le> length f \<and> word32 (take 4 t) = FWIMAGE_MAGIC \<and> word32 (take 4 (drop 4 t)) = fw_crc body \<and>
      16 \<le> n \<and> n - 16 \<le> length body
    then Some (body, t ! 8, n - 16) else None)"

lemma fw_chunk_Some:
  assumes "fw_chunk f = Some (body, ty, n)"
  shows "\<exists>t. f = body @ t \<and> length t = 16 \<and> word32 (take 4 t) = FWIMAGE_MAGIC \<and>
    word32 (take 4 (drop 4 t)) = fw_crc body \<and> t ! 8 = ty \<and> unat (word32 (drop 12 t)) = n + 16 \<and> n \<le> length body"
  using assms
  by (auto simp: fw_chunk_def Let_def split: if_splits intro!: exI [of _ "drop (length f - 16) f"])

text \<open>
  The metadata or the signature of a file, with the file that is left without it: from the end,
  signatures are passed over when metadata is asked for, pieces of other types always.
\<close>

function fw_find :: "bool \<Rightarrow> bytes \<Rightarrow> (bytes \<times> bytes) option" where
  "fw_find signature f = (case fw_chunk f of None \<Rightarrow> None
    | Some (body, ty, n) \<Rightarrow> let rest = take (length body - n) body; payload = drop (length body - n) body in
      if ty = FWIMAGE_SIGNATURE then (if signature then Some (payload, rest) else fw_find signature rest)
      else if ty = FWIMAGE_INFO then
        (if signature \<or> n < 8 then None
         else if take 4 payload \<noteq> replicate 4 0 then fw_find signature rest else Some (drop 8 payload, rest))
      else fw_find signature rest)"
  by pat_completeness auto
termination
  by (relation "measure (length o snd)") (auto dest!: fw_chunk_Some)

declare fw_find.simps [simp del]

section \<open>A turn of the loop over the trailers\<close>

lemma sint_sub_16:
  fixes s :: u32
  assumes "16 \<le> unat s" and "unat s < 2 ^ 31"
  shows "sint (s - 16) = int (unat s - 16)"
proof -
  have "unat (s - 16) = unat s - 16" using assms(1) by (subst unat_sub) (simp_all add: word_le_nat_alt)
  then have "uint (s - 16) = int (unat s - 16)" by (simp only: uint_nat)
  moreover have "signed_take_bit 31 (int k) = int k" if "k < 2 ^ 31" for k
    using that by (intro signed_take_bit_int_eq_self) simp_all
  moreover have "unat s - 16 < 2 ^ 31" using assms(2) by simp
  ultimately show ?thesis by (simp add: sint_uint del: of_nat_diff)
qed

lemma load32_0_iff: "length bs = 4 \<Longrightarrow> load32 e bs = 0 \<longleftrightarrow> bs = replicate 4 0"
proof -
  assume len: "length bs = 4"
  have "store32 e 0 = replicate 4 0" by (cases e) (simp_all add: bytes32_def numeral_eq_Suc)
  with len show ?thesis by (metis store32_load32 load32_store32)
qed

text \<open>The trailer that is taken off, as the program reads it.\<close>

lemma trailer_of_fields:
  assumes "length t = 16"
  shows "htonl e (tr_size (trailer_of e t)) = word32 (drop 12 t)"
    and "htonl e (tr_crc32 (trailer_of e t)) = word32 (take 4 (drop 4 t))"
    and "tr_magic (trailer_of e t) = htonl e m \<longleftrightarrow> word32 (take 4 t) = m"
    and "tr_type (trailer_of e t) = t ! 8"
proof -
  have "load32 e (take 4 t) = htonl e (word32 (take 4 t))"
    using assms htonl_load32 [of "take 4 t" e] htonl_htonl [of e "load32 e (take 4 t)"] by simp
  moreover have "htonl e v = htonl e w \<longleftrightarrow> v = w" for v w by (metis htonl_htonl)
  ultimately show "tr_magic (trailer_of e t) = htonl e m \<longleftrightarrow> word32 (take 4 t) = m"
    by (simp add: trailer_of_def)
qed (use assms in \<open>simp_all add: trailer_of_def\<close>)

lemma validate_iff: "validate_metadata v n = 0 \<longleftrightarrow> v = 0"
  by (simp add: validate_metadata_def)

lemma extract_trailer:
  assumes "window dbuf pre (w @ t)" and "length t = 16"
  shows "\<exists>dbuf'. extract_tail dbuf (replicate 16 None) 16 = Some (0, map Some t, dbuf') \<and> window dbuf' pre w"
  using extract_tail_window [OF assms(1), of 16 "replicate 16 None"] assms(2) by auto

text \<open>A piece whose checksum is not the one of what comes before it ends the loop.\<close>

lemma extract_turn_crc_error:
  assumes "window dbuf pre (w @ t)" and "length t = 16" and "w \<noteq> []" and "crc_table s = crc32_filltable"
    and "word32 (take 4 t) = FWIMAGE_MAGIC" and "word32 (take 4 (drop 4 t)) \<noteq> fw_crc (pre @ w)"
  shows "\<exists>dbuf'. extract_turn e (fw_crc pre) buf dbuf s = Some (Break 1 dbuf' (msg ''CRC error'' s))"
proof -
  obtain dbuf' where "extract_tail dbuf (replicate 16 None) 16 = Some (0, map Some t, dbuf')" and w: "window dbuf' pre w"
    using extract_trailer [OF assms(1,2)] by blast
  then show ?thesis using assms tail_crc32_window [OF w]
    by (simp add: extract_turn_def trailer_of_fields Let_def)
qed

text \<open>A right piece that is in the window.\<close>

lemma extract_turn_chunk:
  assumes win: "window dbuf pre w" and chunk: "fw_chunk (pre @ w) = Some (body, ty, n)"
    and body: "length pre < length body" "length pre + n \<le> length body" "n \<le> BUFLEN" "length body < 2 ^ 31 - 16"
    and tbl: "crc_table s = crc32_filltable" and buf: "length buf = BUFLEN"
  shows "\<exists>dbuf' buf' w'. window dbuf' pre w' \<and> pre @ w' = take (length body - n) body \<and> length buf' = BUFLEN \<and>
    take n buf' = map Some (drop (length body - n) body) \<and>
    extract_turn e (fw_crc pre) buf dbuf s =
     (if ty = FWIMAGE_SIGNATURE then
        (case signature_file s of None \<Rightarrow> Some (Continue buf' dbuf' s)
        | Some sig \<Rightarrow> Some (Break 0 dbuf' (stream_write sig (drop (length body - n) body) s)))
      else if ty = FWIMAGE_INFO then
        (case metadata_file s of None \<Rightarrow> Some (Break 1 dbuf' s)
        | Some meta \<Rightarrow>
          (case mem_bytes (Some buf') 0 4 of None \<Rightarrow> None
          | Some version \<Rightarrow> 
            if load32 e version \<noteq> 0 then Some (Continue buf' dbuf' s)
            else map_option (\<lambda>d. Break 0 dbuf' (stream_write meta d s)) (mem_bytes (Some buf') 8 (int n - 8))))
      else Some (Continue buf' dbuf' s))"
proof -
  obtain t where t: "pre @ w = body @ t" "length t = 16" "word32 (take 4 t) = FWIMAGE_MAGIC"
      "word32 (take 4 (drop 4 t)) = fw_crc body" "t ! 8 = ty" "unat (word32 (drop 12 t)) = n + 16" "n \<le> length body"
    using fw_chunk_Some [OF chunk] by (elim exE conjE) (rule that)
  define v where "v = drop (length pre) body"
  have "take (length pre) body = pre" and w: "w = v @ t"
    using t(1) body(1) by (auto simp: v_def append_eq_append_conv_if split: if_splits)
  then have bodyv: "body = pre @ v" unfolding v_def by (metis append_take_drop_id)
  have v: "v \<noteq> []" "n \<le> length v" using body bodyv by auto
  obtain d1 where d1: "extract_tail dbuf (replicate 16 None) 16 = Some (0, map Some t, d1)" "window d1 pre v"
    using extract_trailer [of dbuf pre v t] win t(2) w by blast
  obtain r dbuf' where d2: "extract_tail d1 buf (int n) = Some (r, map Some (drop (length v - n) v) @ drop n buf, dbuf')"
      and w': "window dbuf' pre (take (length v - n) v)"
    using extract_tail_window [OF d1(2) v(2), of buf] body(3) buf by auto
  have len: "sint (word32 (drop 12 t) - 16) = int n" using sint_sub_16 [of "word32 (drop 12 t)"] t body by simp
  have payload: "drop (length body - n) body = drop (length v - n) v" using v by (simp add: bodyv)
  let ?buf = "map Some (drop (length v - n) v) @ drop n buf"
  have "length (drop (length v - n) v) = n" using v by simp
  then have buf': "length ?buf = BUFLEN" "take n ?buf = map Some (drop (length v - n) v)"
    using buf body by simp_all
  then have "mem_bytes (Some ?buf) 0 (int n) = Some (drop (length v - n) v)"
    using body(3) by (intro mem_bytes_prefix) simp_all
  then have "extract_turn e (fw_crc pre) buf dbuf s =
     (if ty = FWIMAGE_SIGNATURE then
        (case signature_file s of None \<Rightarrow> Some (Continue ?buf dbuf' s)
        | Some sig \<Rightarrow> Some (Break 0 dbuf' (stream_write sig (drop (length v - n) v) s)))
      else if ty = FWIMAGE_INFO then
        (case metadata_file s of None \<Rightarrow> Some (Break 1 dbuf' s)
        | Some meta \<Rightarrow>
          (case mem_bytes (Some ?buf) 0 4 of None \<Rightarrow> None
          | Some version \<Rightarrow> 
            if load32 e version \<noteq> 0 then Some (Continue ?buf dbuf' s)
            else map_option (\<lambda>d. Break 0 dbuf' (stream_write meta d s)) (mem_bytes (Some ?buf) 8 (int n - 8))))
      else Some (Continue ?buf dbuf' s))"
    using d1(1) d2 t tbl body(3) tail_crc32_window [OF d1(2) v(1)]
    by (simp add: extract_turn_def trailer_of_fields Let_def len bodyv validate_iff cong: if_cong option.case_cong)
  then show ?thesis using w' buf' v unfolding payload
    by (intro exI [of _ dbuf'] exI [of _ ?buf] exI [of _ "take (length v - n) v"]) (simp add: bodyv)
qed

section \<open>Extracting finds what is at the end of the file\<close>

lemma fw_chunk_length: "fw_chunk f = Some (body, ty, n) \<Longrightarrow> length f = length body + 16 \<and> n \<le> length body"
  by (auto dest!: fw_chunk_Some)

lemma fw_types [simp]: "FWIMAGE_INFO \<noteq> FWIMAGE_SIGNATURE" "FWIMAGE_SIGNATURE \<noteq> FWIMAGE_INFO"
  by (simp_all add: FWIMAGE_INFO_def FWIMAGE_SIGNATURE_def)

text \<open>A piece that is found is the last one, or it is found in what is left without the last one.\<close>

lemma fw_find_cases:
  assumes "fw_find sg f = Some (p, r)"
  obtains (last_signature) body n where "fw_chunk f = Some (body, FWIMAGE_SIGNATURE, n)" and "sg"
      and "p = drop (length body - n) body" and "r = take (length body - n) body"
  | (last_metadata) body n where "fw_chunk f = Some (body, FWIMAGE_INFO, n)" and "\<not> sg" and "8 \<le> n"
      and "take 4 (drop (length body - n) body) = replicate 4 0"
      and "p = drop 8 (drop (length body - n) body)" and "r = take (length body - n) body"
  | (before) body ty n where "fw_chunk f = Some (body, ty, n)" and "fw_find sg (take (length body - n) body) = Some (p, r)"
      and "ty = FWIMAGE_SIGNATURE \<Longrightarrow> \<not> sg"
      and "ty = FWIMAGE_INFO \<Longrightarrow> \<not> sg \<and> 8 \<le> n \<and> take 4 (drop (length body - n) body) \<noteq> replicate 4 0"
proof -
  obtain body ty n where c: "fw_chunk f = Some (body, ty, n)"
    using assms by (subst (asm) fw_find.simps) (auto split: option.splits)
  consider "ty = FWIMAGE_SIGNATURE" | "ty = FWIMAGE_INFO" | "ty \<noteq> FWIMAGE_SIGNATURE" "ty \<noteq> FWIMAGE_INFO" by blast
  then show ?thesis
  proof cases
    case 1
    with assms c show ?thesis
      by (subst (asm) fw_find.simps) (auto simp: Let_def split: if_splits intro: last_signature before)
  next
    case 2
    with assms c show ?thesis
      by (subst (asm) fw_find.simps) (auto simp: Let_def not_less split: if_splits intro: last_metadata before)
  next
    case 3
    with assms c show ?thesis by (subst (asm) fw_find.simps) (auto simp: Let_def intro: before)
  qed
qed

lemma fw_find_length: "fw_find sg f = Some (p, r) \<Longrightarrow> length r + length p + 16 \<le> length f"
proof (induction "length f" arbitrary: f rule: less_induct)
  case less
  from less.prems show ?case
  proof (cases rule: fw_find_cases)
    case (before body ty n)
    have "length (take (length body - n) body) < length f" using fw_chunk_length [OF before(1)] by simp
    from less.hyps [OF this before(2)] fw_chunk_length [OF before(1)] show ?thesis by simp
  qed (use fw_chunk_length in force)+
qed

lemma window_file_len: "window dbuf pre w \<Longrightarrow> db_file_len dbuf = int (length (pre @ w))"
  by (induction rule: window.induct) auto

text \<open>The variables when a signature, or metadata, is extracted to the stream \<open>out\<close>.\<close>

definition extracting :: "bool \<Rightarrow> stream \<Rightarrow> fwt \<Rightarrow> bool" where
  "extracting sg out s \<longleftrightarrow> crc_table s = crc32_filltable \<and>
    (if sg then signature_file s = Some out \<and> metadata_file s = None
     else signature_file s = None \<and> metadata_file s = Some out)"

lemma payload_bytes:
  assumes "take n buf = map Some p" and "length buf = BUFLEN" and "n \<le> BUFLEN" and "8 \<le> n"
  shows "mem_bytes (Some buf) 0 4 = Some (take 4 p)" and "mem_bytes (Some buf) 8 (int n - 8) = Some (drop 8 p)"
proof -
  have "take 4 buf = map Some (take 4 p)" using take_map_less [OF assms(1), of 4] assms(4) by simp
  then show "mem_bytes (Some buf) 0 4 = Some (take 4 p)"
    using mem_bytes_prefix [of 4 buf "take 4 p"] assms(2) by (simp add: BUFLEN_def)
  have len: "length p = n" using arg_cong [OF assms(1), of length] assms(2,3) by simp
  have "take (n - 8) (drop 8 buf) = map Some (take (n - 8) (drop 8 p))"
    using take_map_prefix [OF assms(1), of 8 "n - 8"] assms(4) by simp
  then have "take (nat (int n - 8)) (drop 8 buf) = map Some (drop 8 p)" using len assms(4) by (simp add: nat_diff_distrib')
  then show "mem_bytes (Some buf) 8 (int n - 8) = Some (drop 8 p)"
    using assms len by (auto simp: mem_bytes_def mem_read_def)
qed

text \<open>What the turn does with the piece, as it is found.\<close>

lemma extract_turn_found:
  assumes win: "window dbuf pre w" and chunk: "fw_chunk (pre @ w) = Some (body, ty, n)"
    and body: "length pre < length body" "length pre + n \<le> length body" "n \<le> BUFLEN" "length body < 2 ^ 31 - 16"
    and s: "extracting sg out s" and buf: "length buf = BUFLEN"
    and p: "p = drop (length body - n) body"
  shows "\<exists>dbuf' buf' w'. window dbuf' pre w' \<and> pre @ w' = take (length body - n) body \<and> length buf' = BUFLEN \<and>
    (ty = FWIMAGE_SIGNATURE \<and> sg \<longrightarrow> extract_turn e (fw_crc pre) buf dbuf s = Some (Break 0 dbuf' (stream_write out p s))) \<and>
    (ty = FWIMAGE_INFO \<and> \<not> sg \<and> 8 \<le> n \<and> take 4 p = replicate 4 0 \<longrightarrow>
      extract_turn e (fw_crc pre) buf dbuf s = Some (Break 0 dbuf' (stream_write out (drop 8 p) s))) \<and>
    ((ty = FWIMAGE_SIGNATURE \<longrightarrow> \<not> sg) \<and> (ty = FWIMAGE_INFO \<longrightarrow> \<not> sg \<and> 8 \<le> n \<and> take 4 p \<noteq> replicate 4 0) \<longrightarrow>
      extract_turn e (fw_crc pre) buf dbuf s = Some (Continue buf' dbuf' s))"
proof -
  have tbl: "crc_table s = crc32_filltable" using s by (simp add: extracting_def)
  obtain dbuf' buf' w' where win': "window dbuf' pre w'" "pre @ w' = take (length body - n) body" and buf': "length buf' = BUFLEN" "take n buf' = map Some p"
    and turn: "extract_turn e (fw_crc pre) buf dbuf s =
     (if ty = FWIMAGE_SIGNATURE then
        (case signature_file s of None \<Rightarrow> Some (Continue buf' dbuf' s) | Some sig \<Rightarrow> Some (Break 0 dbuf' (stream_write sig p s)))
      else if ty = FWIMAGE_INFO then
        (case metadata_file s of None \<Rightarrow> Some (Break 1 dbuf' s)
        | Some meta \<Rightarrow> (case mem_bytes (Some buf') 0 4 of None \<Rightarrow> None
          | Some version \<Rightarrow> if load32 e version \<noteq> 0 then Some (Continue buf' dbuf' s)
            else map_option (\<lambda>d. Break 0 dbuf' (stream_write meta d s)) (mem_bytes (Some buf') 8 (int n - 8))))
      else Some (Continue buf' dbuf' s))"
    using extract_turn_chunk [OF win chunk body tbl buf, of e] unfolding p [symmetric] by (elim exE conjE) (rule that)
  have "length p = n" using body(2) by (simp add: p)
  then have "length (take 4 p) = 4" if "8 \<le> n" using that by simp
  then show ?thesis
    using win' buf' turn s payload_bytes [OF buf'(2,1) body(3)] load32_0_iff [of "take 4 p" e] load32_0_iff [of "replicate 4 0" e]
    by (intro exI [of _ dbuf'] exI [of _ buf'] exI [of _ w']) (simp add: extracting_def split: if_splits)
qed

lemma trailer_loop_find:
  assumes "fw_find sg f = Some (payload, rest)" and "window dbuf pre w" and "f = pre @ w"
    and "length pre \<le> length rest" and "\<not> sg \<or> length pre < length rest + length payload"
    and "length f \<le> length rest + BUFLEN" and "length f < 2 ^ 31" and "length buf = BUFLEN" and "extracting sg out s"
  shows "\<exists>dbuf'. trailer_loop e (fw_crc pre) buf dbuf s = Some (0, dbuf', stream_write out payload s) \<and>
    db_file_len dbuf' = int (length rest)"
  using assms
proof (induction "length f" arbitrary: f dbuf w buf rule: less_induct)
  case less
  have turn: "\<exists>dbuf' buf' w'. window dbuf' pre w' \<and> pre @ w' = take (length body - n) body \<and> length buf' = BUFLEN \<and>
    (ty = FWIMAGE_SIGNATURE \<and> sg \<longrightarrow> extract_turn e (fw_crc pre) buf dbuf s = Some (Break 0 dbuf' (stream_write out p s))) \<and>
    (ty = FWIMAGE_INFO \<and> \<not> sg \<and> 8 \<le> n \<and> take 4 p = replicate 4 0 \<longrightarrow>
      extract_turn e (fw_crc pre) buf dbuf s = Some (Break 0 dbuf' (stream_write out (drop 8 p) s))) \<and>
    ((ty = FWIMAGE_SIGNATURE \<longrightarrow> \<not> sg) \<and> (ty = FWIMAGE_INFO \<longrightarrow> \<not> sg \<and> 8 \<le> n \<and> take 4 p \<noteq> replicate 4 0) \<longrightarrow>
      extract_turn e (fw_crc pre) buf dbuf s = Some (Continue buf' dbuf' s))"
    if c: "fw_chunk f = Some (body, ty, n)" and "length rest + n \<le> length body" "length pre < length body"
      "p = drop (length body - n) body" for body ty n p
  proof -
    have "length pre + n \<le> length body" "n \<le> BUFLEN" "length body < 2 ^ 31 - 16"
      using that fw_chunk_length [OF c] less.prems(4,6,7) by linarith+
    from extract_turn_found [OF less.prems(2) c [unfolded less.prems(3)] that(3) this less.prems(9,8) that(4)]
    show ?thesis .
  qed
  from less.prems(1) show ?case
  proof (cases rule: fw_find_cases)
    case (last_signature body n)
    have "length rest + n \<le> length body" "length pre < length body"
      using last_signature fw_chunk_length [OF last_signature(1)] less.prems(5) by auto
    then obtain dbuf' w' where "window dbuf' pre w'" "pre @ w' = rest"
        "extract_turn e (fw_crc pre) buf dbuf s = Some (Break 0 dbuf' (stream_write out payload s))"
      using turn [OF last_signature(1) _ _ last_signature(3)] last_signature by auto
    then show ?thesis by (subst trailer_loop.simps) (auto simp: window_file_len)
  next
    case (last_metadata body n)
    have "length rest + n \<le> length body" "length pre < length body"
      using last_metadata fw_chunk_length [OF last_metadata(1)] less.prems(4) by auto
    then obtain dbuf' w' where "window dbuf' pre w'" "pre @ w' = rest"
        "extract_turn e (fw_crc pre) buf dbuf s = Some (Break 0 dbuf' (stream_write out payload s))"
      using turn [OF last_metadata(1) _ _ refl] last_metadata by auto
    then show ?thesis by (subst trailer_loop.simps) (auto simp: window_file_len)
  next
    case (before body ty n)
    let ?r = "take (length body - n) body"
    note len = fw_chunk_length [OF before(1)]
    have more: "length rest + length payload + 16 \<le> length ?r" using fw_find_length [OF before(2)] .
    then have "length rest + n \<le> length body" "length pre < length body" using len less.prems(4) by auto
    then obtain dbuf' buf' w' where w': "window dbuf' pre w'" "pre @ w' = ?r" and buf': "length buf' = BUFLEN"
      and t: "extract_turn e (fw_crc pre) buf dbuf s = Some (Continue buf' dbuf' s)"
      using turn [OF before(1) _ _ refl] before(3,4) by blast
    have "length ?r < length f" using len by simp
    from less.hyps [OF this before(2) w'(1) w'(2) [symmetric] less.prems(4,5) _ _ buf' less.prems(9)]
    show ?thesis using t len less.prems(6,7) by (subst trailer_loop.simps) auto
  qed
qed

section \<open>The program\<close>

text \<open>What is found behind an image with metadata and a signature.\<close>

lemma fw_chunk_trailer:
  assumes "16 \<le> n" and "n - 16 \<le> length before" and "n < 2 ^ 32"
  shows "fw_chunk (before @ fw_trailer before ty n) = Some (before, ty, n - 16)"
proof -
  have "unat (word_of_nat n :: u32) = n" using assms(3) by (simp add: unat_of_nat)
  then show ?thesis using assms
    by (simp add: fw_chunk_def Let_def) (simp add: fw_trailer_def nth_append)
qed

lemma fw_chunk_signature:
  assumes "length sig < 2 ^ 32 - 16"
  shows "fw_chunk (with_signature img sig) = Some (img @ sig, FWIMAGE_SIGNATURE, length sig)"
  using assms fw_chunk_trailer [of "16 + length sig" "img @ sig" FWIMAGE_SIGNATURE] by (simp add: with_signature_def Let_def)

lemma fw_chunk_metadata:
  assumes "length meta < 2 ^ 32 - 24"
  shows "fw_chunk (with_metadata img meta) = Some (img @ replicate 8 0 @ meta, FWIMAGE_INFO, 8 + length meta)"
  using assms fw_chunk_trailer [of "24 + length meta" "img @ replicate 8 0 @ meta" FWIMAGE_INFO]
  by (simp add: with_metadata_def Let_def)

lemma fw_find_signature:
  assumes "length sig < 2 ^ 32 - 16"
  shows "fw_find True (with_signature img sig) = Some (sig, img)"
    and "fw_find False (with_signature img sig) = fw_find False img"
  by (simp_all add: fw_find.simps [of _ "with_signature img sig"] fw_chunk_signature [OF assms])

lemma fw_find_metadata:
  assumes "length meta < 2 ^ 32 - 24"
  shows "fw_find False (with_metadata img meta) = Some (meta, img)"
  by (simp add: fw_find.simps [of _ "with_metadata img meta"] fw_chunk_metadata [OF assms])

text \<open>The runs of the program that append.\<close>

definition fw_run :: "endian \<Rightarrow> (char \<times> string) list \<Rightarrow> string \<Rightarrow> fsys \<Rightarrow> (int \<times> fsys) option" where
  "fw_run e opts name fs = map_option (\<lambda>(ret, s). (ret, fw_fs s)) (fwtool_main e opts [name] (fw_start fs [] 3))"

definition fw_image :: "string \<Rightarrow> bytes \<Rightarrow> fsys \<Rightarrow> bool" where
  "fw_image name img fs \<longleftrightarrow> fs_files fs name = Some img \<and> fopen_rw name fs \<and> name \<noteq> ''-''"

lemma open_input:
  assumes "fopen_r inp (fw_fs s)" and "inp \<noteq> ''-''"
  shows "\<exists>w. open_file inp False s = (Some (Path inp w), s)"
  using assms by (auto simp: open_file_def)

lemma run_append_metadata:
  assumes "fw_image name img fs" and "fopen_r inp fs" and "inp \<noteq> ''-''" and "inp \<noteq> name" and "file_data inp fs = meta"
    and "length img < 2 ^ 31" and "length meta \<le> 30 * 1024" and "length img + length meta + 24 \<le> fs_limit fs"
  shows "fw_run e [(CHR ''I'', inp)] name fs = Some (0, set_data name (with_metadata img meta) fs)"
proof -
  let ?s = "(fw_start fs [] 3)\<lparr>crc_table := crc32_filltable, file_mode := MODE_APPEND\<rparr>"
  obtain w where w: "open_file inp False ?s = (Some (Path inp w), ?s)"
    using open_input [of inp ?s] assms(2,3) by (auto simp: fw_start_def)
  let ?t = "?s\<lparr>metadata_file := Some (Path inp w)\<rparr>"
  have "add_data e name ?t = Some (0, put_image name (with_metadata img meta) (?t\<lparr>firmware_file := Some (Path name True)\<rparr>))"
    using assms by (intro add_data_metadata) (auto simp: appending_def fw_image_def fw_start_def stream_data_def)
  then show ?thesis using w
    by (simp add: fw_run_def fwtool_main_def fw_option_def set_file_def file_get_def file_put_def Let_def fw_start_def
        MODE_APPEND_def MODE_EXTRACT_def MODE_DEFAULT_def)
qed

lemma run_append_signature:
  assumes "fw_image name img fs" and "fopen_r inp fs" and "inp \<noteq> ''-''" and "file_data inp fs = sig"
    and "length img < 2 ^ 31" and "length sig \<le> 1024" and "length img + length sig + 16 \<le> fs_limit fs"
  shows "fw_run e [(CHR ''S'', inp)] name fs = Some (0, set_data name (with_signature img sig) fs)"
proof -
  let ?s = "(fw_start fs [] 3)\<lparr>crc_table := crc32_filltable, file_mode := MODE_APPEND\<rparr>"
  obtain w where w: "open_file inp False ?s = (Some (Path inp w), ?s)"
    using open_input [of inp ?s] assms(2,3) by (auto simp: fw_start_def)
  let ?t = "?s\<lparr>signature_file := Some (Path inp w)\<rparr>"
  have "add_data e name ?t = Some (0, put_image name (with_signature img sig) (?t\<lparr>firmware_file := Some (Path name True)\<rparr>))"
    using assms by (intro add_data_signature [where f = "Path inp w"])
      (auto simp: appending_def fw_image_def fw_start_def stream_data_def)
  then show ?thesis using w
    by (simp add: fw_run_def fwtool_main_def fw_option_def set_file_def file_get_def file_put_def Let_def fw_start_def
        MODE_APPEND_def MODE_EXTRACT_def MODE_DEFAULT_def)
qed

text \<open>Extracting to a file, and taking the piece off the image.\<close>

lemma extract_data_find:
  assumes find: "fw_find sg f = Some (payload, rest)" and img: "fw_image name f (fw_fs s)"
    and len: "length f < length rest + BUFLEN" "length f < 2 ^ 31" "sg \<Longrightarrow> rest @ payload \<noteq> []"
    and s: "extracting sg out s" "3 \<le> fw_heap s"
  shows "\<exists>s'. extract_data e name s = Some (0, s') \<and> (let t = stream_write out payload (s\<lparr>firmware_file := Some (Path name True)\<rparr>) in
    s' = (if truncate_file t then stream_truncate (Path name True) (length rest) t else t))"
proof -
  let ?s = "s\<lparr>firmware_file := Some (Path name True)\<rparr>" and ?d = "\<lparr>db_cur = None, db_prev = None, db_cur_len = 0, db_file_len = 0\<rparr>"
  have f: "stream_data (Path name True) s = f" "open_file name False s = (Some (Path name True), s)"
    using img by (simp_all add: stream_data_def fw_image_def open_file_def)
  obtain dbuf pre w where fill: "fill_loop crc32_filltable f (fw_heap s - 1) ?d (fw_crc []) = Some (True, dbuf, fw_crc pre)"
    and w: "window dbuf pre w" "pre @ w = f" "pre = [] \<or> BUFLEN \<le> length w"
  proof -
    have "2 \<le> fw_heap s - 1" "length ([] :: bytes) + length f < 2 ^ 31" using s(2) len(2) by simp_all
    from fill_loop_window [OF filling_0 this] show ?thesis
      by (elim exE conjE) (rule that, simp_all)
  qed
  have pre: "length pre \<le> length rest" "\<not> sg \<or> length pre < length rest + length payload"
    using w(2,3) len(1,3) by (auto simp flip: w(2))
  have "extracting sg out ?s" using s(1) by (simp add: extracting_def)
  from trailer_loop_find [OF find w(1) w(2) [symmetric] pre _ len(2) _ this, of "replicate BUFLEN None" e] len(1)
  obtain dbuf' where "trailer_loop e (fw_crc pre) (replicate BUFLEN None) dbuf ?s = Some (0, dbuf', stream_write out payload ?s)"
    and "db_file_len dbuf' = int (length rest)" by auto
  moreover have "crc_table ?s = crc32_filltable" "fw_crc [] = - 1" using s(1) by (simp_all add: extracting_def fw_crc_def)
  ultimately show ?thesis using s fill f
    by (auto simp: extract_data_def Let_def stream_data_def)
qed

lemma fw_find_prefix: "fw_find sg f = Some (p, r) \<Longrightarrow> take (length r) f = r"
proof (induction "length f" arbitrary: f rule: less_induct)
  case less
  have pre: "take k (take (length body - n) body) = take k f"
    if c: "fw_chunk f = Some (body, ty, n)" and k: "k \<le> length body - n" for body ty n k
  proof -
    obtain t where "f = body @ t" using fw_chunk_Some [OF c] by (elim exE conjE) (rule that)
    with k show ?thesis by (simp add: min_absorb1)
  qed
  from less.prems show ?case
  proof (cases rule: fw_find_cases)
    case (before body ty n)
    let ?r = "take (length body - n) body"
    have short: "length ?r < length f" using fw_chunk_length [OF before(1)] by simp
    have "length r \<le> length body - n" using fw_find_length [OF before(2)] by simp
    then have "take (length r) f = take (length r) ?r" using pre [OF before(1)] by simp
    with less.hyps [OF short before(2)] show ?thesis by simp
  qed (simp flip: pre)+
qed

lemma set_data_set_data_other:
  "a \<noteq> b \<Longrightarrow> set_data a x (set_data b y fs) = set_data b y (set_data a x fs)"
  by (simp add: set_data_def fun_upd_twist)

text \<open>\<open>tr\<close> is whether the piece is taken off.\<close>

lemma run_extract:
  assumes find: "fw_find sg f = Some (payload, rest)" and img: "fw_image name f fs"
    and len: "length f < length rest + BUFLEN" "length f < 2 ^ 31" "sg \<Longrightarrow> rest @ payload \<noteq> []"
    and out: "out \<noteq> name" "out \<noteq> ''-''" "fs_writable fs out" "length payload \<le> fs_limit fs"
  shows "fw_run e ((if tr then [(CHR ''t'', [])] else []) @ [(if sg then CHR ''s'' else CHR ''i'', out)]) name fs
    = Some (0, set_data out payload (if tr then set_data name rest fs else fs))"
proof -
  let ?fs = "set_data out [] fs"
  let ?s = "(fw_start ?fs [] 3)\<lparr>crc_table := crc32_filltable, file_mode := MODE_EXTRACT, truncate_file := tr\<rparr>"
  let ?t = "if sg then ?s\<lparr>signature_file := Some (Path out True)\<rparr> else ?s\<lparr>metadata_file := Some (Path out True)\<rparr>"
  let ?u = "?t\<lparr>firmware_file := Some (Path name True)\<rparr>"
  have main: "fwtool_main e ((if tr then [(CHR ''t'', [])] else []) @ [(if sg then CHR ''s'' else CHR ''i'', out)]) [name] (fw_start fs [] 3)
    = extract_data e name ?t"
    using out by (simp add: fwtool_main_def fw_option_def set_file_def file_get_def file_put_def Let_def fw_start_def open_file_def
        fopen_w_def set_data_def MODE_APPEND_def MODE_EXTRACT_def MODE_DEFAULT_def)
  have t: "extracting sg (Path out True) ?t" "3 \<le> fw_heap ?t" "truncate_file ?t = tr" "fw_fs ?t = ?fs"
    by (auto simp: extracting_def fw_start_def)
  have w: "stream_write (Path out True) payload ?u = ?u\<lparr>fw_fs := set_data out payload fs\<rparr>"
    using out(4) t(4) by (simp add: stream_write_def fwrite_at_def splice_bytes_def Let_def)
  have f: "file_data name (set_data out payload fs) = f" "take (length rest) f = rest"
    using img out(1) fw_find_prefix [OF find] by (simp_all add: fw_image_def)
  have trunc: "fw_fs (stream_truncate (Path name True) (length rest) (?u\<lparr>fw_fs := set_data out payload fs\<rparr>))
    = set_data out payload (set_data name rest fs)"
    using f out(1) fw_find_length [OF find]
    by (simp add: stream_truncate_def ftruncate_def Let_def set_data_set_data_other)
  have "fw_image name f (fw_fs ?t)"
    using img out(1) by (simp add: t(4) fw_image_def fopen_rw_def fopen_r_def)
  from extract_data_find [OF find this len t(1,2), of e] show ?thesis
    unfolding fw_run_def main Let_def w using trunc t(3) by auto
qed

text \<open>An image whose last trailer has another checksum than what is before it.\<close>

lemma run_extract_crc_error:
  assumes img: "fw_image name (body @ t) fs" and t: "length t = 16" "word32 (take 4 t) = FWIMAGE_MAGIC"
    and crc: "word32 (take 4 (drop 4 t)) \<noteq> fw_crc body" and body: "body \<noteq> []" "length body + 16 < 2 ^ 31"
    and out: "out \<noteq> name" "out \<noteq> ''-''" "fs_writable fs out" and opt: "opt = CHR ''s'' \<or> opt = CHR ''i''"
  shows "fw_run e [(opt, out)] name fs = Some (1, set_data out [] fs)"
proof -
  let ?fs = "set_data out [] fs"
  let ?s = "(fw_start ?fs [] 3)\<lparr>crc_table := crc32_filltable, file_mode := MODE_EXTRACT\<rparr>"
  let ?t = "if opt = CHR ''s'' then ?s\<lparr>signature_file := Some (Path out True)\<rparr> else ?s\<lparr>metadata_file := Some (Path out True)\<rparr>"
  let ?u = "?t\<lparr>firmware_file := Some (Path name True)\<rparr>" and ?d = "\<lparr>db_cur = None, db_prev = None, db_cur_len = 0, db_file_len = 0\<rparr>"
  have main: "fwtool_main e [(opt, out)] [name] (fw_start fs [] 3) = extract_data e name ?t"
    using out opt by (auto simp: fwtool_main_def fw_option_def set_file_def file_get_def file_put_def Let_def fw_start_def open_file_def
        fopen_w_def set_data_def MODE_APPEND_def MODE_EXTRACT_def MODE_DEFAULT_def)
  have s: "crc_table ?t = crc32_filltable" "crc_table ?u = crc32_filltable" "fw_heap ?t = 3" "truncate_file ?t = False" "fw_fs ?t = ?fs"
    by (auto simp: fw_start_def)
  have f: "stream_data (Path name True) ?u = body @ t" "open_file name False ?t = (Some (Path name True), ?t)"
    using img out(1) by (auto simp: stream_data_def fw_image_def open_file_def fopen_rw_def fopen_r_def fw_start_def)
  obtain dbuf pre w where fill: "fill_loop crc32_filltable (body @ t) 2 ?d (fw_crc []) = Some (True, dbuf, fw_crc pre)"
    and w: "window dbuf pre w" "pre @ w = body @ t" "pre = [] \<or> BUFLEN \<le> length w"
  proof -
    have "length ([] :: bytes) + length (body @ t) < 2 ^ 31" using body(2) t(1) by simp
    from fill_loop_window [OF filling_0 order.refl this] show ?thesis by (elim exE conjE) (rule that, simp_all)
  qed
  have "length pre + length w = length body + 16" using arg_cong [OF w(2), of length] t(1) by simp
  then have "length pre < length body" using w(3) body(1) by (auto simp: BUFLEN_def)
  then obtain v where v: "body = pre @ v" "w = v @ t" "v \<noteq> []"
    using w(2) by (auto simp: append_eq_append_conv2)
  obtain d' where "extract_turn e (fw_crc pre) (replicate BUFLEN None) dbuf ?u = Some (Break 1 d' (msg ''CRC error'' ?u))"
    using extract_turn_crc_error [of dbuf pre v t ?u] w(1) v t crc s(2) by auto
  then have loop: "trailer_loop e (fw_crc pre) (replicate BUFLEN None) dbuf ?u = Some (1, d', msg ''CRC error'' ?u)"
    by (subst trailer_loop.simps) simp
  have "fw_crc [] = - 1" by (simp add: fw_crc_def)
  then have "extract_data e name ?t = Some (1, msg ''CRC error'' ?u)"
    using s f fill loop by (simp add: extract_data_def Let_def)
  then show ?thesis by (simp add: fw_run_def main msg_def s(5))
qed

section \<open>Properties\<close>

text \<open>A disk for the witnesses.\<close>

definition fw_disk :: "bytes \<Rightarrow> fsys" where
  "fw_disk img = \<lparr>fs_files = [''fw'' \<mapsto> img, ''meta'' \<mapsto> [123, 125], ''sig'' \<mapsto> [1, 2, 3]],
    fs_readable = (\<lambda>_. True), fs_writable = (\<lambda>_. True), fs_limit = 100\<rparr>"

lemma fw_disk_simps [simp]:
  "fw_image ''fw'' img (fw_disk img)" "fs_writable (fw_disk img) x" "fs_limit (fw_disk img) = 100"
  "fopen_r ''meta'' (fw_disk img)" "fopen_r ''sig'' (fw_disk img)"
  "file_data ''meta'' (fw_disk img) = [123, 125]" "file_data ''sig'' (fw_disk img) = [1, 2, 3]"
  by (simp_all add: fw_image_def fopen_rw_def fopen_r_def fw_disk_def file_data_def)

text \<open>
  C3: Metadata and a signature can be appended to an image, each by a run of the program with a
  result of 0.  Then the metadata is extracted from under the signature as it was given, and with the
  option \<open>-t\<close> the image is again what it was before the two runs; the signature is extracted as it was
  given, and taking it off leaves the image with its metadata.
\<close>

theorem fw_roundtrip:
  assumes "fw_image name img fs" and "fopen_r inp fs" and "file_data inp fs = meta" and "fopen_r sinp fs" and "file_data sinp fs = sig"
    and "distinct [name, inp, sinp, out]" and "inp \<noteq> ''-''" and "sinp \<noteq> ''-''" and "out \<noteq> ''-''" and "fs_writable fs out"
    and "length meta \<le> 30 * 1024" and "length sig \<le> 1024"
    and "length img + length meta + length sig + 40 \<le> fs_limit fs" and "length img + length meta + length sig + 40 < 2 ^ 31"
  shows "let fs1 = set_data name (with_metadata img meta) fs;
      fs2 = set_data name (with_signature (with_metadata img meta) sig) fs
    in fw_run e [(CHR ''I'', inp)] name fs = Some (0, fs1) \<and>
      fw_run e [(CHR ''S'', sinp)] name fs1 = Some (0, fs2) \<and>
      fw_run e' [(CHR ''i'', out)] name fs2 = Some (0, set_data out meta fs2) \<and>
      fw_run e' [(CHR ''t'', []), (CHR ''i'', out)] name fs2 = Some (0, set_data out meta fs) \<and>
      fw_run e' [(CHR ''t'', []), (CHR ''s'', out)] name fs2 = Some (0, set_data out sig fs1)"
proof -
  let ?f1 = "with_metadata img meta" and ?f2 = "with_signature (with_metadata img meta) sig"
  let ?fs1 = "set_data name ?f1 fs" and ?fs2 = "set_data name ?f2 fs"
  have img: "fw_image name f (set_data name f fs)" for f
    using assms(1) by (simp add: fw_image_def fopen_rw_def fopen_r_def)
  have orig: "set_data name img fs = fs"
    using assms(1) by (simp add: fw_image_def set_data_same)
  have "fopen_r sinp ?fs1" "file_data sinp ?fs1 = sig"
    using assms(4-6) by (auto simp: fopen_r_def)
  then have 2: "fw_run e [(CHR ''S'', sinp)] name ?fs1 = Some (0, ?fs2)"
    using run_append_signature [OF img, of sinp ?f1 sig e] assms by simp
  have ne: "out \<noteq> name" "inp \<noteq> name" using assms(6) by auto
  have find: "fw_find False ?f2 = Some (meta, img)" "fw_find True ?f2 = Some (sig, ?f1)"
    using assms(11,12) by (simp_all add: fw_find_signature fw_find_metadata)
  have "fw_run e' ((if tr then [(CHR ''t'', [])] else []) @ [(CHR ''i'', out)]) name ?fs2
    = Some (0, set_data out meta (if tr then set_data name img ?fs2 else ?fs2))" for tr
    using run_extract [OF find(1) img, of out e' tr] assms ne by (simp add: BUFLEN_def)
  from this [of False] this [of True]
  have 3: "fw_run e' [(CHR ''i'', out)] name ?fs2 = Some (0, set_data out meta ?fs2)"
    "fw_run e' [(CHR ''t'', []), (CHR ''i'', out)] name ?fs2 = Some (0, set_data out meta fs)"
    by (simp_all add: orig)
  have "?f1 \<noteq> []" by (metis length_with_metadata list.size(3) add_is_0 zero_neq_numeral)
  then have 4: "fw_run e' [(CHR ''t'', []), (CHR ''s'', out)] name ?fs2 = Some (0, set_data out sig ?fs1)"
    using run_extract [OF find(2) img, of out e' True] assms ne by (simp add: BUFLEN_def)
  show ?thesis using run_append_metadata [of name img fs inp meta e] assms ne 2 3 4 by (simp add: Let_def)
qed

lemma fw_roundtrip_witness:
  "fw_run Big [(CHR ''I'', ''meta'')] ''fw'' (fw_disk [7, 8]) = Some (0, set_data ''fw'' (with_metadata [7, 8] [123, 125]) (fw_disk [7, 8]))
    \<and> fw_run Little [(CHR ''t'', []), (CHR ''i'', ''out'')] ''fw''
        (set_data ''fw'' (with_signature (with_metadata [7, 8] [123, 125]) [1, 2, 3]) (fw_disk [7, 8]))
      = Some (0, set_data ''out'' [123, 125] (fw_disk [7, 8]))"
  using fw_roundtrip [of "''fw''" "[7, 8]" "fw_disk [7, 8]" "''meta''" "[123, 125]" "''sig''" "[1, 2, 3]" "''out''" Big Little]
  by (simp add: Let_def)

text \<open>
  C8: The program finds in a file exactly what the layout says is at its end, through its window of two
  blocks: whenever the specification \<open>fw_find\<close>, which looks at the whole file, finds a piece, and less
  than a block has to be taken off for it, the run writes that piece and leaves what is before it.
\<close>

theorem fw_extract_refines:
  assumes "fw_find sg f = Some (payload, rest)" and "fw_image name f fs"
    and "length f < length rest + BUFLEN" and "length f < 2 ^ 31" and "sg \<Longrightarrow> rest @ payload \<noteq> []"
    and "out \<noteq> name" and "out \<noteq> ''-''" and "fs_writable fs out" and "length payload \<le> fs_limit fs"
  shows "fw_run e [(if sg then CHR ''s'' else CHR ''i'', out)] name fs = Some (0, set_data out payload fs)
    \<and> fw_run e [(CHR ''t'', []), (if sg then CHR ''s'' else CHR ''i'', out)] name fs
      = Some (0, set_data out payload (set_data name rest fs))"
  using run_extract [OF assms, of e False] run_extract [OF assms, of e True] by simp

lemma fw_extract_refines_witness:
  "fw_run Little [(CHR ''t'', []), (CHR ''s'', ''out'')] ''fw'' (fw_disk (with_signature [9] [4, 5]))
    = Some (0, set_data ''out'' [4, 5] (set_data ''fw'' [9] (fw_disk (with_signature [9] [4, 5]))))"
  using fw_extract_refines [of True "with_signature [9] [4, 5]" "[4, 5]" "[9]" "''fw''" "fw_disk (with_signature [9] [4, 5])" "''out''" Little]
  by (simp add: fw_find_signature BUFLEN_def)



section \<open>Files the program does not expect\<close>

text \<open>A file that is a trailer and nothing else: the checksum is computed over a null pointer.\<close>

lemma fw_trailer_alone:
  assumes "length t = 16" and "take 4 t = bytes32 FWIMAGE_MAGIC" and "fw_image name t fs"
    and "out \<noteq> name" and "out \<noteq> ''-''" and "fs_writable fs out"
  shows "fw_run e [(CHR ''s'', out)] name fs = None"
proof -
  let ?fs = "set_data out [] fs"
  let ?t = "(fw_start ?fs [] 3)\<lparr>crc_table := crc32_filltable, file_mode := MODE_EXTRACT, signature_file := Some (Path out True)\<rparr>"
  let ?u = "?t\<lparr>firmware_file := Some (Path name True)\<rparr>" and ?d = "\<lparr>db_cur = None, db_prev = None, db_cur_len = 0, db_file_len = 0\<rparr>"
  let ?blk = "fill_block (replicate BUFLEN None) t"
  let ?w = "\<lparr>db_cur = Some ?blk, db_prev = None, db_cur_len = int (length t), db_file_len = 16\<rparr>"
  have main: "fwtool_main e [(CHR ''s'', out)] [name] (fw_start fs [] 3) = extract_data e name ?t"
    using assms(5,6) by (simp add: fwtool_main_def fw_option_def set_file_def file_get_def file_put_def Let_def fw_start_def open_file_def
        fopen_w_def set_data_def MODE_APPEND_def MODE_EXTRACT_def MODE_DEFAULT_def)
  have s: "crc_table ?u = crc32_filltable" "fw_heap ?t = 3" "truncate_file ?t = False"
    by (simp_all add: fw_start_def)
  have f: "stream_data (Path name True) ?u = t" "open_file name False ?t = (Some (Path name True), ?t)"
    using assms(3,4) by (auto simp: stream_data_def fw_image_def open_file_def fopen_rw_def fopen_r_def fw_start_def)
  have "take BUFLEN t = t" "length t < BUFLEN" "length t \<le> BUFLEN" using assms(1) by (simp_all add: BUFLEN_def)
  then have fill: "fill_loop crc32_filltable t 2 ?d (- 1) = Some (True, ?w, - 1)"
    using assms(1) by (subst fill_loop.simps) (simp add: Let_def)
  have "extract_tail ?w (replicate 16 None) (int 16) = Some (0, map Some (drop (length t - 16) t) @ drop 16 (replicate 16 None), remove_tail ?w (int 16))"
    using assms(1) \<open>length t \<le> BUFLEN\<close> take_fill_block [of t "replicate BUFLEN None"]
    by (intro extract_tail_cur) simp_all
  then have "extract_tail ?w (replicate 16 None) 16 = Some (0, map Some t, \<lparr>db_cur = None, db_prev = None, db_cur_len = int BUFLEN, db_file_len = 0\<rparr>)"
    using assms(1) by (simp add: remove_tail_def)
  then have "extract_turn e (- 1) (replicate BUFLEN None) ?w ?u = None"
    using assms(1,2) s(1) by (simp add: extract_turn_def trailer_of_fields Let_def tail_crc32_def mem_bytes_def mem_read_def)
  then have "trailer_loop e (- 1) (replicate BUFLEN None) ?w ?u = None" by (subst trailer_loop.simps) simp
  then have "extract_data e name ?t = None"
    using s f fill by (simp add: extract_data_def Let_def)
  then show ?thesis by (simp add: fw_run_def main)
qed

text \<open>A trailer whose size is less than its own: a copy of a negative length.\<close>

lemma fw_small_size:
  assumes "window dbuf pre (w @ t)" and "length t = 16" and "w \<noteq> []" and "crc_table s = crc32_filltable"
    and "word32 (take 4 t) = FWIMAGE_MAGIC" and "word32 (take 4 (drop 4 t)) = fw_crc (pre @ w)"
    and "unat (word32 (drop 12 t)) < 16"
  shows "extract_turn e (fw_crc pre) buf dbuf s = None"
proof -
  obtain dbuf' where d: "extract_tail dbuf (replicate 16 None) 16 = Some (0, map Some t, dbuf')" and w: "window dbuf' pre w"
    using extract_trailer [OF assms(1,2)] by blast
  have neg: "sint (s - 16) < 0" if "unat s < 16" for s :: u32
  proof -
    have "s \<in> word_of_nat ` {..<16}" using that by (intro image_eqI [of _ _ "unat s"]) auto
    then have "s \<in> {0, 1, 2, 3, 4, 5, 6, 7, 8, 9, 10, 11, 12, 13, 14, 15}" by (auto simp: numeral_eq_Suc lessThan_Suc)
    then show ?thesis by auto
  qed
  have "extract_tail dbuf' buf n = None" if "n < 0" for n
    using w assms(3) that by cases (auto simp: extract_tail_def mem_read_def)
  then show ?thesis using d assms tail_crc32_window [OF w assms(3)] neg [OF assms(7)]
    by (simp add: extract_turn_def trailer_of_fields Let_def BUFLEN_def)
qed

end
