(* ===== verification/Otrx.thy ===== *)
theory Otrx
  imports Clib Crc32 Stdio
begin

text \<open>
  \<open>package/utils/otrx/src/otrx.c\<close> (and the same file in \<open>tools/firmware-utils/src\<close>): firmware images in
  the TRX format, a header of 28 bytes with a checksum and the offsets of up to three partitions.
  The program creates an image from files, checks one, and extracts its partitions.

  The sizes of the code are 64-bit words, the fields of the header 32-bit words in the byte order of
  the machine.  \<open>al\<close> tells which allocations succeed.
\<close>

section \<open>Data\<close>

type_synonym u64 = "64 word"

definition TRX_MAGIC :: u32 where "TRX_MAGIC = 0x30524448"
definition TRX_FLAGS_OFFSET :: nat where "TRX_FLAGS_OFFSET = 12"
definition TRX_MAX_PARTS :: nat where "TRX_MAX_PARTS = 3"

definition errno_EIO :: int where "errno_EIO = 5"
definition errno_ENOMEM :: int where "errno_ENOMEM = 12"
definition errno_EACCES :: int where "errno_EACCES = 13"
definition errno_EINVAL :: int where "errno_EINVAL = 22"
definition errno_ENOSPC :: int where "errno_ENOSPC = 28"

definition cpu_to_le32 :: "endian \<Rightarrow> u32 \<Rightarrow> u32" where
  "cpu_to_le32 e w = (case e of Big \<Rightarrow> bswap32 w | Little \<Rightarrow> w)"

definition le32_to_cpu :: "endian \<Rightarrow> u32 \<Rightarrow> u32" where
  "le32_to_cpu e w = (case e of Big \<Rightarrow> bswap32 w | Little \<Rightarrow> w)"

record trx_header =
  th_magic :: u32
  th_length :: u32
  th_crc32 :: u32
  th_flags :: u16
  th_version :: u16
  th_offset :: "u32 list"

fun store16 :: "endian \<Rightarrow> u16 \<Rightarrow> bytes" where
  "store16 Big w = [ucast (drop_bit 8 w), ucast w]"
| "store16 Little w = [ucast w, ucast (drop_bit 8 w)]"

definition load16 :: "endian \<Rightarrow> bytes \<Rightarrow> u16" where
  "load16 e bs = word_of_nat (be_val (case e of Big \<Rightarrow> bs | Little \<Rightarrow> rev bs))"

text \<open>The structure in memory, and the structure that bytes are read into.\<close>

definition trx_header_bytes :: "endian \<Rightarrow> trx_header \<Rightarrow> bytes" where
  "trx_header_bytes e hdr = store32 e (th_magic hdr) @ store32 e (th_length hdr) @ store32 e (th_crc32 hdr) @
    store16 e (th_flags hdr) @ store16 e (th_version hdr) @ concat (map (store32 e) (th_offset hdr))"

definition trx_header_of :: "endian \<Rightarrow> bytes \<Rightarrow> trx_header" where
  "trx_header_of e bs = \<lparr>th_magic = load32 e (take 4 bs), th_length = load32 e (take 4 (drop 4 bs)),
    th_crc32 = load32 e (take 4 (drop 8 bs)), th_flags = load16 e (take 2 (drop 12 bs)),
    th_version = load16 e (take 2 (drop 14 bs)),
    th_offset = [load32 e (take 4 (drop 16 bs)), load32 e (take 4 (drop 20 bs)), load32 e (take 4 (drop 24 bs))]\<rparr>"

definition otrx_min :: "u64 \<Rightarrow> u64 \<Rightarrow> u64" where
  "otrx_min x y = (if x < y then x else y)"

section \<open>CRC32\<close>

definition crc32_tbl :: "u32 list" where
  "crc32_tbl = [
   0x00000000, 0x77073096, 0xee0e612c, 0x990951ba, 0x076dc419, 0x706af48f, 0xe963a535, 0x9e6495a3,
   0x0edb8832, 0x79dcb8a4, 0xe0d5e91e, 0x97d2d988, 0x09b64c2b, 0x7eb17cbd, 0xe7b82d07, 0x90bf1d91,
   0x1db71064, 0x6ab020f2, 0xf3b97148, 0x84be41de, 0x1adad47d, 0x6ddde4eb, 0xf4d4b551, 0x83d385c7,
   0x136c9856, 0x646ba8c0, 0xfd62f97a, 0x8a65c9ec, 0x14015c4f, 0x63066cd9, 0xfa0f3d63, 0x8d080df5,
   0x3b6e20c8, 0x4c69105e, 0xd56041e4, 0xa2677172, 0x3c03e4d1, 0x4b04d447, 0xd20d85fd, 0xa50ab56b,
   0x35b5a8fa, 0x42b2986c, 0xdbbbc9d6, 0xacbcf940, 0x32d86ce3, 0x45df5c75, 0xdcd60dcf, 0xabd13d59,
   0x26d930ac, 0x51de003a, 0xc8d75180, 0xbfd06116, 0x21b4f4b5, 0x56b3c423, 0xcfba9599, 0xb8bda50f,
   0x2802b89e, 0x5f058808, 0xc60cd9b2, 0xb10be924, 0x2f6f7c87, 0x58684c11, 0xc1611dab, 0xb6662d3d,
   0x76dc4190, 0x01db7106, 0x98d220bc, 0xefd5102a, 0x71b18589, 0x06b6b51f, 0x9fbfe4a5, 0xe8b8d433,
   0x7807c9a2, 0x0f00f934, 0x9609a88e, 0xe10e9818, 0x7f6a0dbb, 0x086d3d2d, 0x91646c97, 0xe6635c01,
   0x6b6b51f4, 0x1c6c6162, 0x856530d8, 0xf262004e, 0x6c0695ed, 0x1b01a57b, 0x8208f4c1, 0xf50fc457,
   0x65b0d9c6, 0x12b7e950, 0x8bbeb8ea, 0xfcb9887c, 0x62dd1ddf, 0x15da2d49, 0x8cd37cf3, 0xfbd44c65,
   0x4db26158, 0x3ab551ce, 0xa3bc0074, 0xd4bb30e2, 0x4adfa541, 0x3dd895d7, 0xa4d1c46d, 0xd3d6f4fb,
   0x4369e96a, 0x346ed9fc, 0xad678846, 0xda60b8d0, 0x44042d73, 0x33031de5, 0xaa0a4c5f, 0xdd0d7cc9,
   0x5005713c, 0x270241aa, 0xbe0b1010, 0xc90c2086, 0x5768b525, 0x206f85b3, 0xb966d409, 0xce61e49f,
   0x5edef90e, 0x29d9c998, 0xb0d09822, 0xc7d7a8b4, 0x59b33d17, 0x2eb40d81, 0xb7bd5c3b, 0xc0ba6cad,
   0xedb88320, 0x9abfb3b6, 0x03b6e20c, 0x74b1d29a, 0xead54739, 0x9dd277af, 0x04db2615, 0x73dc1683,
   0xe3630b12, 0x94643b84, 0x0d6d6a3e, 0x7a6a5aa8, 0xe40ecf0b, 0x9309ff9d, 0x0a00ae27, 0x7d079eb1,
   0xf00f9344, 0x8708a3d2, 0x1e01f268, 0x6906c2fe, 0xf762575d, 0x806567cb, 0x196c3671, 0x6e6b06e7,
   0xfed41b76, 0x89d32be0, 0x10da7a5a, 0x67dd4acc, 0xf9b9df6f, 0x8ebeeff9, 0x17b7be43, 0x60b08ed5,
   0xd6d6a3e8, 0xa1d1937e, 0x38d8c2c4, 0x4fdff252, 0xd1bb67f1, 0xa6bc5767, 0x3fb506dd, 0x48b2364b,
   0xd80d2bda, 0xaf0a1b4c, 0x36034af6, 0x41047a60, 0xdf60efc3, 0xa867df55, 0x316e8eef, 0x4669be79,
   0xcb61b38c, 0xbc66831a, 0x256fd2a0, 0x5268e236, 0xcc0c7795, 0xbb0b4703, 0x220216b9, 0x5505262f,
   0xc5ba3bbe, 0xb2bd0b28, 0x2bb45a92, 0x5cb36a04, 0xc2d7ffa7, 0xb5d0cf31, 0x2cd99e8b, 0x5bdeae1d,
   0x9b64c2b0, 0xec63f226, 0x756aa39c, 0x026d930a, 0x9c0906a9, 0xeb0e363f, 0x72076785, 0x05005713,
   0x95bf4a82, 0xe2b87a14, 0x7bb12bae, 0x0cb61b38, 0x92d28e9b, 0xe5d5be0d, 0x7cdcefb7, 0x0bdbdf21,
   0x86d3d2d4, 0xf1d4e242, 0x68ddb3f8, 0x1fda836e, 0x81be16cd, 0xf6b9265b, 0x6fb077e1, 0x18b74777,
   0x88085ae6, 0xff0f6a70, 0x66063bca, 0x11010b5c, 0x8f659eff, 0xf862ae69, 0x616bffd3, 0x166ccf45,
   0xa00ae278, 0xd70dd2ee, 0x4e048354, 0x3903b3c2, 0xa7672661, 0xd06016f7, 0x4969474d, 0x3e6e77db,
   0xaed16a4a, 0xd9d65adc, 0x40df0b66, 0x37d83bf0, 0xa9bcae53, 0xdebb9ec5, 0x47b2cf7f, 0x30b5ffe9,
   0xbdbdf21c, 0xcabac28a, 0x53b39330, 0x24b4a3a6, 0xbad03605, 0xcdd70693, 0x54de5729, 0x23d967bf,
   0xb3667a2e, 0xc4614ab8, 0x5d681b02, 0x2a6f2b94, 0xb40bbe37, 0xc30c8ea1, 0x5a05df1b, 0x2d02ef8d]"

fun otrx_crc32 :: "u32 \<Rightarrow> bytes \<Rightarrow> u32" where
  "otrx_crc32 crc [] = crc"
| "otrx_crc32 crc (b # buf) = otrx_crc32 (crc32_tbl ! unat ((crc XOR ucast b) AND 0xff) XOR drop_bit 8 crc) buf"

text \<open>
  The loop over the data of an image: at most \<open>len\<close> bytes are read, in pieces of a buffer.  The
  results are the checksum and how many bytes were not there.
\<close>

function crc_read_loop :: "bytes \<Rightarrow> u64 \<Rightarrow> u32 \<Rightarrow> u32 \<times> u64" where
  "crc_read_loop d len crc32 = (let buf = take (unat (otrx_min 1024 len)) d in
    if buf = [] then (crc32, len)
    else crc_read_loop (drop (length buf) d) (len - word_of_nat (length buf)) (otrx_crc32 crc32 buf))"
  by pat_completeness auto
termination by (relation "measure (\<lambda>(d, _). length d)") auto

declare crc_read_loop.simps [simp del]

section \<open>Numbers and positions\<close>

definition strtol :: "nat \<Rightarrow> string \<Rightarrow> int" where
  "strtol base s = (let (neg, s1) = strip_sign (dropWhile isspace s); (b, s2) = strip_base base s1;
      ds = takeWhile (digit_in b) s2; v = (if neg then - int (digits_val b ds) else int (digits_val b ds))
    in max (- (2 ^ 63)) (min (2 ^ 63 - 1) v))"

definition atoi_int :: "string \<Rightarrow> int" where
  "atoi_int s = to_s32 (strtol 10 s)"

text \<open>\<open>fseek\<close> from the start; a negative offset leaves the position.\<close>

definition fseek_set :: "nat \<Rightarrow> u64 \<Rightarrow> nat" where
  "fseek_set pos off = (if sint off < 0 then pos else unat off)"

section \<open>Check\<close>

fun otrx_check_parse_options :: "(char \<times> string) list \<Rightarrow> u64 \<Rightarrow> u64" where
  "otrx_check_parse_options [] trx_offset = trx_offset"
| "otrx_check_parse_options ((c, optarg) # opts) trx_offset =
    otrx_check_parse_options opts (if c = CHR ''o'' then word_of_int (atoi_int optarg) else trx_offset)"

text \<open>What \<open>check\<close> does with the content of the file.\<close>

definition check_data :: "endian \<Rightarrow> u64 \<Rightarrow> bytes \<Rightarrow> int" where
  "check_data e trx_offset d = (let
      pos = fseek_set 0 trx_offset;
      bytes = take 28 (drop pos d);
      pos = pos + length bytes
    in if length bytes \<noteq> 28 then - errno_EIO
    else let hdr = trx_header_of e bytes in
      if le32_to_cpu e (th_magic hdr) \<noteq> TRX_MAGIC then - errno_EINVAL
      else let len = ucast (le32_to_cpu e (th_length hdr)) :: u64 in
        if len < 28 then - errno_EINVAL
        else let
            pos = fseek_set pos (trx_offset + word_of_nat TRX_FLAGS_OFFSET);
            (crc32, len) = crc_read_loop (drop pos d) (len - word_of_nat TRX_FLAGS_OFFSET) 0xffffffff
          in if len \<noteq> 0 then - errno_EIO
          else if crc32 \<noteq> le32_to_cpu e (th_crc32 hdr) then - errno_EINVAL
          else 0)"

definition otrx_check :: "endian \<Rightarrow> string list \<Rightarrow> (char \<times> string) list \<Rightarrow> fsys \<Rightarrow> int" where
  "otrx_check e args opts fs = (case args of [] \<Rightarrow> - errno_EINVAL
    | trx_path # _ \<Rightarrow> let trx_offset = otrx_check_parse_options opts 0 in
      if \<not> fopen_r trx_path fs then - errno_EACCES
      else check_data e trx_offset (file_data trx_path fs))"

section \<open>Create\<close>

text \<open>The variables of \<open>otrx_create\<close>, with the position in the new file.\<close>

record creation =
  cr_fs :: fsys
  cr_pos :: nat
  cr_idx :: nat
  cr_offset :: u64
  cr_offsets :: "u32 list"

text \<open>A write at the position.\<close>

definition cr_write :: "string \<Rightarrow> bytes \<Rightarrow> creation \<Rightarrow> nat \<times> creation" where
  "cr_write trx buf st = (let (n, fs) = fwrite_at trx (cr_pos st) buf (cr_fs st) in
    (n, st\<lparr>cr_fs := fs, cr_pos := cr_pos st + n\<rparr>))"

fun copy_loop :: "string \<Rightarrow> bytes list \<Rightarrow> int \<Rightarrow> creation \<Rightarrow> int \<times> creation" where
  "copy_loop trx [] len st = (len, st)"
| "copy_loop trx (buf # bufs) len st = (let (n, st) = cr_write trx buf st in
    if n \<noteq> length buf then (- errno_EIO, st) else copy_loop trx bufs (len + int n) st)"

definition otrx_create_append_file :: "string \<Rightarrow> string \<Rightarrow> creation \<Rightarrow> int \<times> creation" where
  "otrx_create_append_file trx in_path st = (if \<not> fopen_r in_path (cr_fs st) then (- errno_EACCES, st)
    else copy_loop trx (chunks 1024 (file_data in_path (cr_fs st))) 0 st)"

definition otrx_create_append_zeros :: "(nat \<Rightarrow> bool) \<Rightarrow> string \<Rightarrow> u64 \<Rightarrow> creation \<Rightarrow> int \<times> creation" where
  "otrx_create_append_zeros al trx len st = (if \<not> al (unat len) then (- errno_ENOMEM, st)
    else let (n, st) = cr_write trx (replicate (unat len) 0) st in
      if n \<noteq> unat len then (- errno_EIO, st) else (sint len, st))"

text \<open>The remainder by 0 is undefined.\<close>

definition otrx_create_align :: "(nat \<Rightarrow> bool) \<Rightarrow> string \<Rightarrow> u64 \<Rightarrow> u64 \<Rightarrow> creation \<Rightarrow> (int \<times> creation) option" where
  "otrx_create_align al trx curr_offset alignment st = (if curr_offset AND (alignment - 1) \<noteq> 0 then
      (if alignment = 0 then None
       else Some (otrx_create_append_zeros al trx (alignment - curr_offset mod alignment) st))
    else Some (0, st))"

definition otrx_create_write_hdr :: "endian \<Rightarrow> string \<Rightarrow> trx_header \<Rightarrow> fsys \<Rightarrow> int \<times> fsys" where
  "otrx_create_write_hdr e trx hdr fs = (let
      hdr = hdr\<lparr>th_magic := cpu_to_le32 e TRX_MAGIC, th_version := 1\<rparr>;
      (bytes, fs) = fwrite_at trx 0 (trx_header_bytes e hdr) fs
    in if bytes \<noteq> 28 then (- errno_EIO, fs)
    else let
        len = ucast (le32_to_cpu e (th_length hdr)) :: u64;
        (crc32, _) = crc_read_loop (drop TRX_FLAGS_OFFSET (file_data trx fs)) (len - word_of_nat TRX_FLAGS_OFFSET) 0xffffffff;
        hdr = hdr\<lparr>th_crc32 := cpu_to_le32 e crc32\<rparr>;
        (bytes, fs) = fwrite_at trx 0 (trx_header_bytes e hdr) fs
      in if bytes \<noteq> 28 then (- errno_EIO, fs) else (0, fs))"

text \<open>\<open>curr_offset += sbytes\<close>, unless the call failed.\<close>

definition advance :: "int \<times> creation \<Rightarrow> creation" where
  "advance r = (case r of (sbytes, st) \<Rightarrow>
    if sbytes < 0 then st else st\<lparr>cr_offset := cr_offset st + word_of_int sbytes\<rparr>)"

definition align_step :: "(nat \<Rightarrow> bool) \<Rightarrow> string \<Rightarrow> u64 \<Rightarrow> creation \<Rightarrow> creation option" where
  "align_step al trx alignment st = map_option advance (otrx_create_align al trx (cr_offset st) alignment st)"

text \<open>One option of \<open>create\<close>; the result is \<open>err\<close>, not 0 exactly at the jump to \<open>err_close\<close>.\<close>

definition create_option :: "(nat \<Rightarrow> bool) \<Rightarrow> string \<Rightarrow> char \<times> string \<Rightarrow> creation \<Rightarrow> (int \<times> creation) option" where
  "create_option al trx opt st = (case opt of (c, optarg) \<Rightarrow>
    if c = CHR ''f'' then
      (if cr_idx st \<ge> TRX_MAX_PARTS then Some (- errno_ENOSPC, st)
       else let (sbytes, st) = otrx_create_append_file trx optarg st;
          st = (if sbytes < 0 then st
            else advance (sbytes, st\<lparr>cr_offsets := (cr_offsets st)[cr_idx st := ucast (cr_offset st)], cr_idx := cr_idx st + 1\<rparr>))
        in map_option (Pair 0) (align_step al trx 4 st))
    else if c = CHR ''A'' then
      map_option (Pair 0) (align_step al trx 4 (advance (otrx_create_append_file trx optarg st)))
    else if c = CHR ''a'' then
      map_option (Pair 0) (align_step al trx (word_of_int (strtol 0 optarg)) st)
    else if c = CHR ''b'' then
      (let sbytes = sint (word_of_int (strtol 0 optarg) - cr_offset st) in
       if sbytes < 0 then Some (0, st)
       else Some (0, advance (otrx_create_append_zeros al trx (word_of_int sbytes) st)))
    else Some (0, st))"

fun create_loop :: "(nat \<Rightarrow> bool) \<Rightarrow> string \<Rightarrow> (char \<times> string) list \<Rightarrow> creation \<Rightarrow> (int \<times> creation) option" where
  "create_loop al trx [] st = Some (0, st)"
| "create_loop al trx (opt # opts) st = (case create_option al trx opt st of None \<Rightarrow> None
    | Some (err, st) \<Rightarrow> if err \<noteq> 0 then Some (err, st) else create_loop al trx opts st)"

definition otrx_create :: "endian \<Rightarrow> (nat \<Rightarrow> bool) \<Rightarrow> string list \<Rightarrow> (char \<times> string) list \<Rightarrow> fsys \<Rightarrow> (int \<times> fsys) option" where
  "otrx_create e al args opts fs = (case args of [] \<Rightarrow> Some (- errno_EINVAL, fs)
    | trx_path # _ \<Rightarrow> (case fopen_w trx_path fs of None \<Rightarrow> Some (- errno_EACCES, fs)
      | Some fs \<Rightarrow>
        (case create_loop al trx_path opts
            \<lparr>cr_fs = fs, cr_pos = fseek_set 0 28, cr_idx = 0, cr_offset = 28, cr_offsets = replicate 3 0\<rparr> of
          None \<Rightarrow> None
        | Some (err, st) \<Rightarrow> if err \<noteq> 0 then Some (err, cr_fs st)
          else (case align_step al trx_path 0x1000 st of None \<Rightarrow> None
            | Some st \<Rightarrow> let hdr = \<lparr>th_magic = 0, th_length = ucast (cr_offset st), th_crc32 = 0, th_flags = 0,
                th_version = 0, th_offset = cr_offsets st\<rparr>
              in Some (err, snd (otrx_create_write_hdr e trx_path hdr (cr_fs st)))))))"

section \<open>Extract\<close>

text \<open>The variables \<open>trx_offset\<close> and \<open>partition\<close>.\<close>

fun otrx_extract_parse_options :: "(char \<times> string) list \<Rightarrow> u64 \<times> string option list \<Rightarrow> u64 \<times> string option list" where
  "otrx_extract_parse_options [] v = v"
| "otrx_extract_parse_options ((c, optarg) # opts) (trx_offset, parts) = otrx_extract_parse_options opts
    (if c = CHR ''o'' then (word_of_int (atoi_int optarg), parts)
     else if c = CHR ''1'' then (trx_offset, parts[0 := Some optarg])
     else if c = CHR ''2'' then (trx_offset, parts[1 := Some optarg])
     else if c = CHR ''3'' then (trx_offset, parts[2 := Some optarg])
     else (trx_offset, parts))"

text \<open>The state is the position in the image with the files.\<close>

definition otrx_extract_copy :: "(nat \<Rightarrow> bool) \<Rightarrow> string \<Rightarrow> u64 \<Rightarrow> u64 \<Rightarrow> string \<Rightarrow> nat \<times> fsys \<Rightarrow> int \<times> nat \<times> fsys" where
  "otrx_extract_copy al trx offset len out_path st = (case st of (pos, fs) \<Rightarrow>
    case fopen_w out_path fs of None \<Rightarrow> (- errno_EACCES, pos, fs)
    | Some fs \<Rightarrow>
      if \<not> al (unat len) then (- errno_ENOMEM, pos, fs)
      else let pos = fseek_set pos offset; buf = take (unat len) (drop pos (file_data trx fs)); pos = pos + length buf in
        if length buf \<noteq> unat len then (- errno_ENOMEM, pos, fs)
        else let (bytes, fs) = fwrite_at out_path 0 buf fs in
          if bytes \<noteq> unat len then (- errno_ENOMEM, pos, fs) else (0, pos, fs))"

definition part_length :: "endian \<Rightarrow> trx_header \<Rightarrow> nat \<Rightarrow> u64" where
  "part_length e hdr i = (if i + 1 \<ge> TRX_MAX_PARTS \<or> th_offset hdr ! (i + 1) = 0
    then ucast (le32_to_cpu e (th_length hdr) - le32_to_cpu e (th_offset hdr ! i))
    else ucast (le32_to_cpu e (th_offset hdr ! (i + 1)) - le32_to_cpu e (th_offset hdr ! i)))"

fun extract_parts :: "endian \<Rightarrow> (nat \<Rightarrow> bool) \<Rightarrow> string \<Rightarrow> u64 \<Rightarrow> trx_header \<Rightarrow> string option list \<Rightarrow> nat list \<Rightarrow> nat \<times> fsys \<Rightarrow> nat \<times> fsys" where
  "extract_parts e al trx trx_offset hdr parts [] st = st"
| "extract_parts e al trx trx_offset hdr parts (i # is) st = extract_parts e al trx trx_offset hdr parts is
    (case parts ! i of None \<Rightarrow> st
     | Some out_path \<Rightarrow> if th_offset hdr ! i = 0 then st
       else snd (otrx_extract_copy al trx (trx_offset + ucast (le32_to_cpu e (th_offset hdr ! i))) (part_length e hdr i) out_path st))"

definition otrx_extract :: "endian \<Rightarrow> (nat \<Rightarrow> bool) \<Rightarrow> string list \<Rightarrow> (char \<times> string) list \<Rightarrow> fsys \<Rightarrow> int \<times> fsys" where
  "otrx_extract e al args opts fs = (case args of [] \<Rightarrow> (- errno_EINVAL, fs)
    | trx_path # _ \<Rightarrow> let (trx_offset, parts) = otrx_extract_parse_options opts (0, replicate 3 None) in
      if \<not> fopen_r trx_path fs then (- errno_EACCES, fs)
      else let pos = fseek_set 0 trx_offset; bytes = take 28 (drop pos (file_data trx_path fs)); pos = pos + length bytes in
        if length bytes \<noteq> 28 then (- errno_EIO, fs)
        else let hdr = trx_header_of e bytes in
          if le32_to_cpu e (th_magic hdr) \<noteq> TRX_MAGIC then (- errno_EINVAL, fs)
          else (0, snd (extract_parts e al trx_path trx_offset hdr parts [0, 1, 2] (pos, fs))))"

section \<open>Start\<close>

text \<open>\<open>argv[1]\<close>, the arguments after it, and the options that \<open>getopt\<close> finds from \<open>argv[3]\<close> on.\<close>

definition otrx_main :: "endian \<Rightarrow> (nat \<Rightarrow> bool) \<Rightarrow> string list \<Rightarrow> (char \<times> string) list \<Rightarrow> fsys \<Rightarrow> (int \<times> fsys) option" where
  "otrx_main e al argv opts fs = (case argv of [] \<Rightarrow> Some (0, fs)
    | cmd # args \<Rightarrow>
      if cmd = ''check'' then Some (otrx_check e args opts fs, fs)
      else if cmd = ''create'' then otrx_create e al args opts fs
      else if cmd = ''extract'' then Some (otrx_extract e al args opts fs)
      else Some (0, fs))"

end
