(* ===== verification/Otrx_Facts.thy ===== *)
theory Otrx_Facts
  imports Otrx
begin

text \<open>
  TRX images: the table of \<open>otrx.c\<close> is the table of \<open>crc32.h\<close>, \<open>check\<close> accepts exactly the valid
  images, what \<open>create\<close> writes is one, and \<open>extract\<close> gives the files back.
\<close>

unbundle bit_operations_syntax

section \<open>The checksum\<close>

text \<open>
  The table of the code is the table that \<open>crc32_filltable\<close> computes: because the steps are linear, a table
  of twice the size comes from one entry, and the entries for the powers of 2 are one step apart.
\<close>

definition xor_double :: "int \<Rightarrow> int list \<Rightarrow> int list" where
  "xor_double c t = t @ map (\<lambda>x. c XOR x) t"

definition table_upto :: "nat \<Rightarrow> int list" where
  "table_upto k = map (\<lambda>i. uint ((crc_step ^^ 8) (word_of_nat i))) [0..<2 ^ k]"

lemma xor_power_add: "i < 2 ^ k \<Longrightarrow> k < 8 \<Longrightarrow> word_of_nat (2 ^ k + i) = (2 ^ k :: u32) XOR word_of_nat i"
proof -
  assume i: "i < 2 ^ k" and k: "k < 8"
  have "word_of_nat (2 ^ k + i) = (2 ^ k :: u32) + word_of_nat i" by simp
  also have "\<dots> = 2 ^ k OR word_of_nat i"
  proof (rule disjunctive_add)
    fix n
    have "\<not> bit i k" using i by (metis bit_take_bit_iff less_irrefl take_bit_nat_eq_self)
    then show "\<not> bit (2 ^ k :: u32) n \<or> \<not> bit (word_of_nat i :: u32) n"
      by (auto simp: bit_exp_iff bit_of_nat_iff)
  qed
  also have "\<dots> = 2 ^ k XOR word_of_nat i"
  proof (rule bit_eqI)
    fix n
    have "\<not> bit i k" using i by (metis bit_take_bit_iff less_irrefl take_bit_nat_eq_self)
    then show "bit (2 ^ k OR word_of_nat i :: u32) n = bit (2 ^ k XOR word_of_nat i :: u32) n"
      by (auto simp: bit_exp_iff bit_of_nat_iff bit_or_iff bit_xor_iff)
  qed
  finally show ?thesis .
qed

lemma table_upto_Suc:
  assumes "k < 8"
  shows "table_upto (Suc k) = xor_double (uint ((crc_step ^^ 8) (2 ^ k))) (table_upto k)"
proof -
  have "[0..<2 ^ Suc k] = [0..<2 ^ k] @ [2 ^ k..<2 ^ k + 2 ^ k]"
    by (simp only: power_Suc mult_2 upt_add_eq_append [OF le0])
  moreover have "[2 ^ k..<2 ^ k + 2 ^ k] = map (\<lambda>i. i + 2 ^ k) [0..<2 ^ k]"
    by (rule map_add_upt [symmetric])
  moreover have "uint ((crc_step ^^ 8) (word_of_nat (i + 2 ^ k)))
      = uint ((crc_step ^^ 8) (2 ^ k)) XOR uint ((crc_step ^^ 8) (word_of_nat i))" if "i < 2 ^ k" for i
    using xor_power_add [OF that assms] by (simp only: add.commute [of i] crc_steps_xor uint_xor)
  ultimately show ?thesis
    unfolding table_upto_def xor_double_def by (simp only: map_append map_map) (simp cong: map_cong)
qed

lemma crc_step_powers:
  "crc_step 1 = 0xedb88320" "crc_step 0xedb88320 = 0x76dc4190" "crc_step 0x76dc4190 = 0x3b6e20c8"
  "crc_step 0x3b6e20c8 = 0x1db71064" "crc_step 0x1db71064 = 0x0edb8832" "crc_step 0x0edb8832 = 0x076dc419"
  "crc_step 0x076dc419 = 0xee0e612c" "crc_step 0xee0e612c = 0x77073096"
  by code_simp+

lemma crc_step_even:
  "crc_step 128 = 64" "crc_step 64 = 32" "crc_step 32 = 16" "crc_step 16 = 8" "crc_step 8 = 4" "crc_step 4 = 2" "crc_step 2 = 1"
  by code_simp+

lemma crc_table_powers:
  "(crc_step ^^ 8) 1 = 0x77073096" "(crc_step ^^ 8) 2 = 0xee0e612c" "(crc_step ^^ 8) 4 = 0x076dc419" "(crc_step ^^ 8) 8 = 0x0edb8832"
  "(crc_step ^^ 8) 16 = 0x1db71064" "(crc_step ^^ 8) 32 = 0x3b6e20c8" "(crc_step ^^ 8) 64 = 0x76dc4190" "(crc_step ^^ 8) 128 = 0xedb88320"
  by (simp_all add: eval_nat_numeral crc_step_powers crc_step_even)

lemma table_upto_8:
  "table_upto 8 = xor_double 0xedb88320 (xor_double 0x76dc4190 (xor_double 0x3b6e20c8 (xor_double 0x1db71064
    (xor_double 0x0edb8832 (xor_double 0x076dc419 (xor_double 0xee0e612c (xor_double 0x77073096 [0])))))))"
proof -
  have 0: "table_upto 0 = [0]" by (simp add: table_upto_def) code_simp
  have Suc: "table_upto k' = xor_double (uint ((crc_step ^^ 8) (2 ^ k))) (table_upto k)" if "k' = Suc k" "k < 8" for k k'
    using table_upto_Suc that by simp
  show ?thesis
    using Suc [of 1 0] Suc [of 2 1] Suc [of 3 2] Suc [of 4 3] Suc [of 5 4] Suc [of 6 5] Suc [of 7 6] Suc [of 8 7] 0
    by (simp add: crc_table_powers)
qed

lemma crc32_tbl_filltable: "crc32_tbl = crc32_filltable"
proof -
  have "map uint crc32_filltable = table_upto 8"
    by (simp add: crc32_filltable_def table_upto_def)
  also have "\<dots> = map uint crc32_tbl"
    by (simp add: table_upto_8 xor_double_def crc32_tbl_def)
  finally have "map uint crc32_filltable = map uint crc32_tbl" .
  moreover have "inj (uint :: u32 \<Rightarrow> int)" by (rule injI) (simp add: word_uint_eq_iff)
  ultimately show ?thesis by (simp only: inj_map_eq_map)
qed

lemma crc_index: "(crc XOR ucast (b :: u8)) AND 0xff = ucast ((ucast crc :: u8) XOR b)" for crc :: u32
proof -
  have "(0xff :: u32) = mask 8" by (simp add: mask_eq_exp_minus_1)
  show ?thesis unfolding \<open>0xff = mask 8\<close> by (rule bit_eqI) (auto simp: bit_simps dest: bit_u8_less)
qed

lemma otrx_crc32_bits: "otrx_crc32 crc buf = crc_bits crc buf"
proof (induction buf arbitrary: crc)
  case (Cons b buf)
  have "unat (ucast ((ucast crc :: u8) XOR b) :: u32) = unat ((ucast crc :: u8) XOR b)"
    by (simp add: unsigned_ucast_eq take_bit_nat_eq_self_iff order.strict_trans [OF unat_byte_less])
  with Cons show ?case by (simp add: crc_index crc32_tbl_filltable crc_byte_table)
qed simp

interpretation otck: checksum otrx_crc32
  by unfold_locales (simp_all add: otrx_crc32_bits crc_bits_append crc_bits_inj crc_bits_4_inj)

lemma unat_of_nat_le: "m \<le> unat w \<Longrightarrow> unat (word_of_nat m :: 'a::len word) = m" for w :: "'a::len word"
proof -
  assume "m \<le> unat w"
  then have "m < 2 ^ LENGTH('a)" using unsigned_less [of w, where 'a = nat] by (rule le_less_trans)
  then show ?thesis by (simp add: unat_of_nat)
qed

lemma unat_sub_of_nat: "m \<le> unat w \<Longrightarrow> unat (w - word_of_nat m) = unat w - m" for w :: "'a::len word"
  by (subst unat_sub) (simp_all add: word_le_nat_alt unat_of_nat_le)

text \<open>The loop over the data computes the checksum of what is there of the length asked for.\<close>

lemma crc_read_loop_result:
  "crc_read_loop d len crc = (crc_bits crc (take (unat len) d), len - word_of_nat (min (unat len) (length d)))"
proof (induction d len crc rule: crc_read_loop.induct)
  case (1 d len crc)
  let ?n = "unat (otrx_min 1024 len)"
  let ?buf = "take ?n d"
  have n: "?n = min 1024 (unat len)" by (simp add: otrx_min_def word_less_nat_alt min_def)
  show ?case
  proof (cases "?buf = []")
    case True
    then have "unat len = 0 \<or> d = []" by (auto simp: n)
    then show ?thesis using True by (subst crc_read_loop.simps) auto
  next
    case False
    let ?m = "length ?buf"
    have m: "?m \<le> unat len" "?m \<le> length d" by (simp_all add: n)
    have len: "unat (len - word_of_nat ?m) = unat len - ?m"
      using m(1) by (rule unat_sub_of_nat)
    have "crc_read_loop d len crc = crc_read_loop (drop ?m d) (len - word_of_nat ?m) (otrx_crc32 crc ?buf)"
      using False by (subst crc_read_loop.simps) (simp add: Let_def)
    also have "\<dots> = (crc_bits (crc_bits crc ?buf) (take (unat len - ?m) (drop ?m d)),
        len - word_of_nat ?m - word_of_nat (min (unat len - ?m) (length d - ?m)))"
      using "1.IH" [OF refl False] by (simp only: len otrx_crc32_bits length_drop)
    also have "crc_bits (crc_bits crc ?buf) (take (unat len - ?m) (drop ?m d)) = crc_bits crc (take (unat len) d)"
    proof -
      have "?buf = take ?m d" by (cases "?n \<le> length d") simp_all
      then have "take (unat len) d = ?buf @ take (unat len - ?m) (drop ?m d)"
        using take_add [of ?m "unat len - ?m" d] m(1) by (simp only: le_add_diff_inverse)
      then show ?thesis by (simp only: crc_bits_append)
    qed
    also have "len - word_of_nat ?m - word_of_nat (min (unat len - ?m) (length d - ?m)) = len - word_of_nat (min (unat len) (length d))"
    proof -
      have "min (unat len) (length d) = ?m + min (unat len - ?m) (length d - ?m)" using m by simp
      then show ?thesis by (simp only: of_nat_add diff_diff_eq)
    qed
    finally show ?thesis .
  qed
qed

section \<open>Valid images\<close>

text \<open>The little-endian value of four bytes of a file, and what makes bytes a TRX image.\<close>

definition le_at :: "nat \<Rightarrow> bytes \<Rightarrow> u32" where
  "le_at i d = word32 (rev (take 4 (drop i d)))"

definition trx_valid :: "bytes \<Rightarrow> bool" where
  "trx_valid d \<longleftrightarrow> 28 \<le> length d \<and> le_at 0 d = TRX_MAGIC \<and> 28 \<le> unat (le_at 4 d) \<and> unat (le_at 4 d) \<le> length d \<and>
    crc_bits 0xffffffff (take (unat (le_at 4 d) - 12) (drop 12 d)) = le_at 8 d"

lemma le32_load32: "length bs = 4 \<Longrightarrow> le32_to_cpu e (load32 e bs) = word32 (rev bs)"
  by (cases e) (auto simp: le32_to_cpu_def bswap32_def)

lemma header_fields:
  assumes "28 \<le> length d"
  shows "le32_to_cpu e (th_magic (trx_header_of e (take 28 d))) = le_at 0 d"
    and "le32_to_cpu e (th_length (trx_header_of e (take 28 d))) = le_at 4 d"
    and "le32_to_cpu e (th_crc32 (trx_header_of e (take 28 d))) = le_at 8 d"
    and "i < 3 \<Longrightarrow> le32_to_cpu e (th_offset (trx_header_of e (take 28 d)) ! i) = le_at (16 + 4 * i) d"
proof -
  have t: "take 4 (drop k (take 28 d)) = take 4 (drop k d)" if "k + 4 \<le> 28" for k
    using that by (simp add: drop_take min_absorb1)
  have l: "length (take 4 (drop k d)) = 4" if "k + 4 \<le> 28" for k using that assms by simp
  show "le32_to_cpu e (th_magic (trx_header_of e (take 28 d))) = le_at 0 d"
    using t [of 0] l [of 0] by (simp add: trx_header_of_def le32_load32 le_at_def)
  show "le32_to_cpu e (th_length (trx_header_of e (take 28 d))) = le_at 4 d"
    using t [of 4] l [of 4] by (simp add: trx_header_of_def le32_load32 le_at_def)
  show "le32_to_cpu e (th_crc32 (trx_header_of e (take 28 d))) = le_at 8 d"
    using t [of 8] l [of 8] by (simp add: trx_header_of_def le32_load32 le_at_def)
  assume "i < 3"
  then have "i = 0 \<or> i = 1 \<or> i = 2" by linarith
  then show "le32_to_cpu e (th_offset (trx_header_of e (take 28 d)) ! i) = le_at (16 + 4 * i) d"
    using t [of 16] l [of 16] t [of 20] l [of 20] t [of 24] l [of 24]
    by (elim disjE) (simp_all add: trx_header_of_def le32_load32 le_at_def)
qed

lemma errors_neq_0 [simp]: "errno_EIO \<noteq> 0" "errno_EINVAL \<noteq> 0" "errno_EACCES \<noteq> 0" "errno_ENOMEM \<noteq> 0" "errno_ENOSPC \<noteq> 0"
  by (simp_all add: errno_EIO_def errno_EINVAL_def errno_EACCES_def errno_ENOMEM_def errno_ENOSPC_def)

lemma fseek_set_small: "unat off < 2 ^ 63 \<Longrightarrow> fseek_set pos off = unat off"
proof -
  assume "unat off < 2 ^ 63"
  then have "int (unat off) < int (2 ^ 63)" by (simp only: of_nat_less_iff)
  then have "uint off < 2 ^ 63" by simp
  then have "signed_take_bit 63 (uint off) = uint off"
    by (intro signed_take_bit_int_eq_self order_trans [OF _ uint_ge_0]) simp_all
  then show ?thesis by (simp add: fseek_set_def sint_uint)
qed

text \<open>The offset of the data that \<open>check\<close> and \<open>extract\<close> are given.\<close>

lemma check_data_valid:
  assumes off: "unat off < 2 ^ 32"
  shows "check_data e off d = 0 \<longleftrightarrow> trx_valid (drop (unat off) d)"
proof -
  let ?d = "drop (unat off) d"
  have seek: "fseek_set pos off = unat off" for pos using off by (intro fseek_set_small) simp
  have off12: "unat (off + word_of_nat TRX_FLAGS_OFFSET) = unat off + 12"
    using off by (simp add: TRX_FLAGS_OFFSET_def unat_word_ariths)
  then have seek2: "fseek_set pos (off + word_of_nat TRX_FLAGS_OFFSET) = unat off + 12" for pos
    using off by (subst fseek_set_small) simp_all
  show ?thesis
  proof (cases "28 \<le> length ?d")
    case False
    then show ?thesis by (simp add: check_data_def Let_def seek trx_valid_def)
  next
    case True
    then have l28: "length (take 28 ?d) = 28" by simp
    let ?n = "unat (le_at 4 ?d)" and ?len = "ucast (le_at 4 ?d) :: u64"
    have len: "unat ?len = ?n" using unsigned_less [of "le_at 4 ?d", where 'a = nat] by (simp add: unsigned_ucast_eq take_bit_nat_eq_self_iff)
    show ?thesis
    proof (cases "28 \<le> ?n")
      case f: False
      then have "?len < 28" by (simp add: word_less_nat_alt len)
      then show ?thesis using f l28 header_fields(1-3) [OF True, of e]
        by (simp add: check_data_def Let_def seek trx_valid_def)
    next
      case n: True
      then have "\<not> ?len < 28" by (simp add: word_less_nat_alt len)
      have len12: "unat (?len - word_of_nat TRX_FLAGS_OFFSET) = ?n - 12"
        using unat_sub_of_nat [of 12 ?len] n by (simp add: len TRX_FLAGS_OFFSET_def)
      have rest: "drop (unat off + 12) d = drop 12 ?d" by (simp add: add.commute)
      have left: "?len - word_of_nat TRX_FLAGS_OFFSET - word_of_nat (min (?n - 12) (length (drop 12 ?d))) = 0
          \<longleftrightarrow> ?n \<le> length ?d"
      proof -
        have "unat (?len - word_of_nat TRX_FLAGS_OFFSET - word_of_nat (min (?n - 12) (length (drop 12 ?d))))
          = ?n - 12 - min (?n - 12) (length (drop 12 ?d))"
          using unat_sub_of_nat [of "min (?n - 12) (length (drop 12 ?d))" "?len - word_of_nat TRX_FLAGS_OFFSET"] by (simp only: len12)
        then show ?thesis using n True by (simp add: unat_eq_0 [symmetric] del: unat_eq_0) linarith
      qed
      show ?thesis
        using n l28 header_fields(1-3) [OF True, of e] \<open>\<not> ?len < 28\<close> left True
        by (auto simp: check_data_def Let_def seek seek2 trx_valid_def rest crc_read_loop_result len12 split: if_splits)
    qed
  qed
qed

section \<open>Creating\<close>

text \<open>
  \<open>creating trx body fs0 st\<close>: behind the room for the header the file has \<open>body\<close>, and the position is at
  its end; no file but the image has changed.
\<close>

definition creating :: "string \<Rightarrow> fsys \<Rightarrow> bytes \<Rightarrow> creation \<Rightarrow> bool" where
  "creating trx fs0 body st \<longleftrightarrow> cr_pos st = 28 + length body \<and> length (cr_offsets st) = 3 \<and>
    cr_fs st = set_data trx (if body = [] then [] else replicate 28 0 @ body) fs0"

lemma creatingD:
  assumes "creating trx fs0 body st"
  shows "cr_pos st = 28 + length body" and "length (cr_offsets st) = 3"
    and "file_data trx (cr_fs st) = (if body = [] then [] else replicate 28 0 @ body)"
    and "fs_limit (cr_fs st) = fs_limit fs0"
  using assms by (simp_all add: creating_def)

text \<open>A write appends what the limit lets it; a short write reaches the limit.\<close>

lemma cr_write_creating:
  assumes "creating trx fs0 body st" and "cr_write trx buf st = (n, st')"
  shows "n = min (length buf) (fs_limit fs0 - cr_pos st)"
    and "creating trx fs0 (body @ take n buf) st'"
    and "st' = st\<lparr>cr_fs := cr_fs st', cr_pos := cr_pos st + n\<rparr>"
proof -
  show n: "n = min (length buf) (fs_limit fs0 - cr_pos st)" and st: "st' = st\<lparr>cr_fs := cr_fs st', cr_pos := cr_pos st + n\<rparr>"
    using assms by (auto simp: cr_write_def fwrite_at_def Let_def creating_def)
  have "splice_bytes (if body = [] then [] else replicate 28 0 @ body) (28 + length body) (take n buf)
    = (if body @ take n buf = [] then [] else replicate 28 0 @ body @ take n buf)"
    by (auto simp: splice_bytes_def)
  moreover have "cr_fs st' = set_data trx (splice_bytes (if body = [] then [] else replicate 28 0 @ body) (28 + length body) (take n buf)) fs0"
    using assms creatingD [OF assms(1)] n
    by (auto simp: cr_write_def fwrite_at_def Let_def creating_def)
  ultimately have "cr_fs st' = set_data trx (if body @ take n buf = [] then [] else replicate 28 0 @ body @ take n buf) fs0"
    by (simp only:)
  moreover have "cr_pos st' = 28 + length (body @ take n buf)" "length (cr_offsets st') = 3"
    using creatingD [OF assms(1)] n by (subst st, simp)+
  ultimately show "creating trx fs0 (body @ take n buf) st'"
    by (simp only: creating_def append_assoc simp_thms)
qed

text \<open>
  The offset is the position, unless the disk is full.
\<close>

definition in_step :: "string \<Rightarrow> fsys \<Rightarrow> bytes \<Rightarrow> creation \<Rightarrow> bool" where
  "in_step trx fs0 body st \<longleftrightarrow> creating trx fs0 body st \<and>
    (fs_limit fs0 \<le> cr_pos st \<or> unat (cr_offset st) = cr_pos st)"

lemma copy_loop_creating:
  assumes "creating trx fs0 body st" and "copy_loop trx bufs len st = (r, st')" and "0 \<le> len"
  shows "\<exists>more. creating trx fs0 (body @ more) st' \<and> st' = st\<lparr>cr_fs := cr_fs st', cr_pos := cr_pos st + length more\<rparr> \<and>
    (r < 0 \<and> fs_limit fs0 \<le> cr_pos st' \<or> r = len + int (length more) \<and> more = concat bufs)"
  using assms
proof (induction bufs arbitrary: body len st)
  case Nil
  then show ?case by (intro exI [of _ "[]"]) simp
next
  case (Cons buf bufs)
  obtain n st1 where w: "cr_write trx buf st = (n, st1)" by (cases "cr_write trx buf st") auto
  note w' = cr_write_creating [OF Cons.prems(1) w]
  show ?case
  proof (cases "n = length buf")
    case False
    then have "r = - errno_EIO" "st' = st1" using Cons.prems(2) w by (auto simp: Let_def)
    moreover have "fs_limit fs0 \<le> cr_pos st + n" "length (take n buf) = n" using False w'(1) by auto
    moreover have "cr_pos st1 = cr_pos st + n" by (subst w'(3)) simp
    ultimately show ?thesis using w'(2,3) by (intro exI [of _ "take n buf"]) (simp add: errno_EIO_def)
  next
    case True
    with Cons.prems w w' have "creating trx fs0 (body @ buf) st1" "copy_loop trx bufs (len + int (length buf)) st1 = (r, st')"
      "0 \<le> len + int (length buf)" by (auto simp: Let_def simp del: append_assoc)
    from Cons.IH [OF this] obtain more where "creating trx fs0 ((body @ buf) @ more) st'"
        "st' = st1\<lparr>cr_fs := cr_fs st', cr_pos := cr_pos st1 + length more\<rparr>"
        "r < 0 \<and> fs_limit fs0 \<le> cr_pos st' \<or> r = len + int (length buf) + int (length more) \<and> more = concat bufs"
      by (elim exE conjE) (rule that)
    moreover have "st1\<lparr>cr_fs := x, cr_pos := cr_pos st1 + k\<rparr> = st\<lparr>cr_fs := x, cr_pos := cr_pos st + (length buf + k)\<rparr>" for x k
      using True by (subst (1 2) w'(3)) simp
    ultimately show ?thesis by (intro exI [of _ "buf @ more"]) (simp add: add.assoc)
  qed
qed

text \<open>
  What a call that appends has done: \<open>ext\<close> is in the file; the result is its length, or negative when
  nothing was written or the disk is full.
\<close>

definition appended :: "string \<Rightarrow> fsys \<Rightarrow> bytes \<Rightarrow> creation \<Rightarrow> bytes \<Rightarrow> int \<times> creation \<Rightarrow> bool" where
  "appended trx fs0 body st ext r \<longleftrightarrow> creating trx fs0 (body @ ext) (snd r) \<and>
    snd r = st\<lparr>cr_fs := cr_fs (snd r), cr_pos := cr_pos st + length ext\<rparr> \<and>
    (if fst r < 0 then fs_limit fs0 \<le> cr_pos (snd r) \<or> ext = [] else fst r = int (length ext))"

lemma creating_same: "creating trx fs0 body st \<Longrightarrow> appended trx fs0 body st [] (- errno_EACCES, st) \<and> appended trx fs0 body st [] (- errno_ENOMEM, st)
    \<and> appended trx fs0 body st [] (0, st)"
  by (simp add: appended_def creating_def errno_EACCES_def errno_ENOMEM_def)

lemma append_file_appended:
  assumes "creating trx fs0 body st"
  shows "\<exists>ext. appended trx fs0 body st ext (otrx_create_append_file trx inp st) \<and>
    (fst (otrx_create_append_file trx inp st) \<ge> 0 \<longrightarrow> fopen_r inp (cr_fs st) \<and> ext = file_data inp (cr_fs st))"
proof (cases "fopen_r inp (cr_fs st)")
  case False
  then show ?thesis using creating_same [OF assms] by (auto simp: otrx_create_append_file_def errno_EACCES_def)
next
  case True
  obtain r st' where c: "copy_loop trx (chunks 1024 (file_data inp (cr_fs st))) 0 st = (r, st')"
    by (cases "copy_loop trx (chunks 1024 (file_data inp (cr_fs st))) 0 st") auto
  obtain ext where "creating trx fs0 (body @ ext) st'" "st' = st\<lparr>cr_fs := cr_fs st', cr_pos := cr_pos st + length ext\<rparr>"
      "r < 0 \<and> fs_limit fs0 \<le> cr_pos st' \<or> r = 0 + int (length ext) \<and> ext = concat (chunks 1024 (file_data inp (cr_fs st)))"
    using copy_loop_creating [OF assms c order.refl] by (elim exE conjE) (rule that)
  then show ?thesis using True c
    by (intro exI [of _ ext]) (auto simp: appended_def otrx_create_append_file_def concat_chunks)
qed

lemma append_zeros_appended:
  assumes st: "creating trx fs0 body st" and lim: "fs_limit fs0 < 2 ^ 63"
  shows "\<exists>ext. appended trx fs0 body st ext (otrx_create_append_zeros al trx len st) \<and>
    (fst (otrx_create_append_zeros al trx len st) \<ge> 0 \<longrightarrow> ext = replicate (unat len) 0)"
proof (cases "al (unat len)")
  case False
  then show ?thesis using creating_same [OF st] by (auto simp: otrx_create_append_zeros_def errno_ENOMEM_def)
next
  case True
  obtain n st' where w: "cr_write trx (replicate (unat len) 0) st = (n, st')"
    by (cases "cr_write trx (replicate (unat len) 0) st") auto
  note w' = cr_write_creating [OF st w]
  have pos: "cr_pos st' = cr_pos st + n" by (subst w'(3)) simp
  have len: "length (take n (replicate (unat len) 0)) = n" using w'(1) by simp
  show ?thesis
  proof (cases "n = unat len")
    case f: False
    then have "fs_limit fs0 \<le> cr_pos st + n" using w'(1) by auto
    then show ?thesis using f True w w'(2,3) len pos
      by (intro exI [of _ "take n (replicate (unat len) 0)"]) (simp add: appended_def otrx_create_append_zeros_def errno_EIO_def)
  next
    case t: True
    have "unat len \<le> fs_limit fs0" using t w'(1) by simp
    with lim have "unat len < 2 ^ 63" by linarith
    then have "int (unat len) < int (2 ^ 63)" by (simp only: of_nat_less_iff)
    then have "sint len = int (unat len)"
      by (subst sint_uint) (simp add: signed_take_bit_int_eq_self order_trans [OF _ uint_ge_0])
    then show ?thesis using t True w w'(2,3) pos
      by (intro exI [of _ "replicate (unat len) 0"]) (simp add: appended_def otrx_create_append_zeros_def)
  qed
qed

lemma in_step_advance:
  assumes st: "in_step trx fs0 body st" and app: "appended trx fs0 body st ext (r, st')" and lim: "fs_limit fs0 < 2 ^ 63"
    and st'': "st'' = st' \<or> st'' = st'\<lparr>cr_offsets := offs, cr_idx := idx\<rparr> \<and> length offs = 3"
  shows "in_step trx fs0 (body @ ext) (advance (r, st''))"
proof -
  have c: "creating trx fs0 (body @ ext) st''" "cr_pos st'' = cr_pos st + length ext" "cr_offset st'' = cr_offset st"
    using app st'' by (auto simp: appended_def creating_def dest: arg_cong [of st' _ cr_pos] arg_cong [of st' _ cr_offset])
  show ?thesis
  proof (cases "fs_limit fs0 \<le> cr_pos st + length ext")
    case True
    then show ?thesis using c by (auto simp: in_step_def advance_def creating_def)
  next
    case False
    then have off: "unat (cr_offset st) = cr_pos st" using st by (auto simp: in_step_def)
    show ?thesis
    proof (cases "r < 0")
      case True
      then have "ext = []" using app False c(2) st'' by (auto simp: appended_def)
      with True c off show ?thesis by (simp add: in_step_def advance_def)
    next
      case f: False
      then have r: "r = int (length ext)" using app by (simp add: appended_def)
      have "unat (cr_offset st) + length ext < 2 ^ 64" using off False lim by simp
      then have "unat (cr_offset st + word_of_nat (length ext)) = cr_pos st + length ext"
        using off by (simp add: unat_word_ariths unat_of_nat)
      then show ?thesis using r c f by (simp add: in_step_def advance_def creating_def)
    qed
  qed
qed

lemma in_stepD: "in_step trx fs0 body st \<Longrightarrow> creating trx fs0 body st"
  by (simp add: in_step_def)

lemma append_file_in_step:
  assumes "in_step trx fs0 body st" and "fs_limit fs0 < 2 ^ 63"
  shows "\<exists>ext. in_step trx fs0 (body @ ext) (advance (otrx_create_append_file trx inp st))"
proof -
  obtain ext where "appended trx fs0 body st ext (otrx_create_append_file trx inp st)"
    using append_file_appended [OF in_stepD [OF assms(1)], of inp] by (elim exE conjE) (rule that)
  then have "appended trx fs0 body st ext (fst (otrx_create_append_file trx inp st), snd (otrx_create_append_file trx inp st))"
    by simp
  from in_step_advance [OF assms(1) this assms(2) disjI1 [OF refl]] show ?thesis by auto
qed

lemma append_zeros_in_step:
  assumes "in_step trx fs0 body st" and "fs_limit fs0 < 2 ^ 63"
  shows "\<exists>ext. in_step trx fs0 (body @ ext) (advance (otrx_create_append_zeros al trx len st))"
proof -
  obtain ext where "appended trx fs0 body st ext (otrx_create_append_zeros al trx len st)"
    using append_zeros_appended [OF in_stepD [OF assms(1)] assms(2), of al len] by (elim exE conjE) (rule that)
  then have "appended trx fs0 body st ext (fst (otrx_create_append_zeros al trx len st), snd (otrx_create_append_zeros al trx len st))"
    by simp
  from in_step_advance [OF assms(1) this assms(2) disjI1 [OF refl]] show ?thesis by auto
qed

lemma advance_0 [simp]: "advance (0, st) = st"
  by (simp add: advance_def)

lemma align_step_in_step:
  assumes "in_step trx fs0 body st" and "fs_limit fs0 < 2 ^ 63" and "align_step al trx alignment st = Some st'"
  shows "\<exists>ext. in_step trx fs0 (body @ ext) st'"
proof (cases "cr_offset st AND (alignment - 1) = 0")
  case True
  with assms show ?thesis by (auto simp: align_step_def otrx_create_align_def intro!: exI [of _ "[]"])
next
  case False
  with assms(3) have "st' = advance (otrx_create_append_zeros al trx (alignment - cr_offset st mod alignment) st)"
    by (auto simp: align_step_def otrx_create_align_def split: if_splits)
  with append_zeros_in_step [OF assms(1,2)] show ?thesis by simp
qed

lemma align_after:
  assumes "\<exists>ext. in_step trx fs0 (body @ ext) st" and "fs_limit fs0 < 2 ^ 63" and "align_step al trx alignment st = Some st'"
  shows "\<exists>ext. in_step trx fs0 (body @ ext) st'"
proof -
  obtain ext where "in_step trx fs0 (body @ ext) st" using assms(1) by (elim exE) (rule that)
  from align_step_in_step [OF this assms(2,3)] show ?thesis by auto
qed

lemma create_option_in_step:
  assumes st: "in_step trx fs0 body st" and lim: "fs_limit fs0 < 2 ^ 63" and opt: "create_option al trx opt st = Some (err, st')"
  shows "\<exists>ext. in_step trx fs0 (body @ ext) st'"
proof -
  obtain c optarg where o: "opt = (c, optarg)" by (cases opt)
  consider "c = CHR ''f''" "TRX_MAX_PARTS \<le> cr_idx st" | "c = CHR ''f''" "\<not> TRX_MAX_PARTS \<le> cr_idx st"
    | "c = CHR ''A''" | "c = CHR ''a''" | "c = CHR ''b''"
    | "c \<noteq> CHR ''f''" "c \<noteq> CHR ''A''" "c \<noteq> CHR ''a''" "c \<noteq> CHR ''b''" by blast
  then show ?thesis
  proof cases
    case 2
    obtain r st1 where a: "otrx_create_append_file trx optarg st = (r, st1)" by (cases "otrx_create_append_file trx optarg st") auto
    obtain ext where app: "appended trx fs0 body st ext (r, st1)"
      using append_file_appended [OF in_stepD [OF st], of optarg] unfolding a by (elim exE conjE) (rule that)
    let ?st2 = "if r < 0 then st1
      else advance (r, st1\<lparr>cr_offsets := (cr_offsets st1)[cr_idx st1 := ucast (cr_offset st1)], cr_idx := cr_idx st1 + 1\<rparr>)"
    have "length (cr_offsets st1) = 3" using app by (simp add: appended_def creating_def)
    then have "in_step trx fs0 (body @ ext) ?st2"
      using in_step_advance [OF st app lim disjI1 [OF refl]] in_step_advance [OF st app lim disjI2 [OF conjI [OF refl]],
          of "(cr_offsets st1)[cr_idx st1 := ucast (cr_offset st1)]" "cr_idx st1 + 1"]
      by (cases "r < 0") (simp_all add: advance_def)
    moreover have "align_step al trx 4 ?st2 = Some st'"
      using opt 2 by (auto simp: o create_option_def a)
    ultimately show ?thesis using align_after [of trx fs0 body ?st2 al 4 st'] lim by blast
  next
    case 3
    then have "align_step al trx 4 (advance (otrx_create_append_file trx optarg st)) = Some st'"
      using opt by (auto simp: o create_option_def)
    with align_after [OF append_file_in_step [OF st lim] lim] show ?thesis .
  next
    case 4
    then have "align_step al trx (word_of_int (strtol 0 optarg)) st = Some st'"
      using opt by (auto simp: o create_option_def)
    with align_step_in_step [OF st lim] show ?thesis .
  next
    case 5
    have "\<exists>ext. in_step trx fs0 (body @ ext) st" using st by (intro exI [of _ "[]"]) simp
    with 5 show ?thesis using opt append_zeros_in_step [OF st lim]
      by (auto simp: o create_option_def Let_def split: if_splits)
  qed (use opt st in \<open>auto simp: o create_option_def intro!: exI [of _ "[]"]\<close>)
qed

lemma create_loop_in_step:
  assumes "in_step trx fs0 body st" and "fs_limit fs0 < 2 ^ 63" and "create_loop al trx opts st = Some (err, st')"
  shows "\<exists>ext. in_step trx fs0 (body @ ext) st'"
  using assms
proof (induction opts arbitrary: body st)
  case Nil
  then show ?case by (intro exI [of _ "[]"]) simp
next
  case (Cons opt opts)
  obtain err1 st1 where o: "create_option al trx opt st = Some (err1, st1)"
    using Cons.prems(3) by (cases "create_option al trx opt st") auto
  obtain ext where s1: "in_step trx fs0 (body @ ext) st1"
    using create_option_in_step [OF Cons.prems(1,2) o] by (elim exE) (rule that)
  show ?case
  proof (cases "err1 = 0")
    case False
    then show ?thesis using s1 o Cons.prems(3) by auto
  next
    case True
    then have "create_loop al trx opts st1 = Some (err, st')" using o Cons.prems(3) by simp
    from Cons.IH [OF s1 Cons.prems(2) this] show ?thesis by auto
  qed
qed

section \<open>The image that is written\<close>

text \<open>The header of an image of the given length, and the image with the right checksum.\<close>

definition trx_head :: "nat \<Rightarrow> u32 \<Rightarrow> u32 list \<Rightarrow> bytes" where
  "trx_head n crc offs = trx_header_bytes Little \<lparr>th_magic = TRX_MAGIC, th_length = word_of_nat n, th_crc32 = crc,
    th_flags = 0, th_version = 1, th_offset = offs\<rparr>"

definition trx_image :: "u32 list \<Rightarrow> bytes \<Rightarrow> bytes" where
  "trx_image offs body = (let n = 28 + length body in
    trx_head n (crc_bits 0xffffffff (drop 12 (trx_head n 0 offs) @ body)) offs @ body)"

lemma length_store16 [simp]: "length (store16 e w) = 2"
  by (cases e) simp_all

lemma length_3_conv: "length xs = 3 \<longleftrightarrow> (\<exists>a b c. xs = [a, b, c])"
  by (auto simp: numeral_eq_Suc length_Suc_conv)

lemma length_trx_head: "length offs = 3 \<Longrightarrow> length (trx_head n crc offs) = 28"
  by (auto simp: trx_head_def trx_header_bytes_def length_3_conv)

lemma trx_head_tail: "drop 12 (trx_head n crc offs) = drop 12 (trx_head n 0 offs)"
  by (simp add: trx_head_def trx_header_bytes_def)

lemma trx_head_fields:
  assumes "length offs = 3" and "n < 2 ^ 32"
  shows "le_at 0 (trx_head n crc offs @ body) = TRX_MAGIC" and "unat (le_at 4 (trx_head n crc offs @ body)) = n"
    and "le_at 8 (trx_head n crc offs @ body) = crc" and "i < 3 \<Longrightarrow> le_at (16 + 4 * i) (trx_head n crc offs @ body) = offs ! i"
proof -
  obtain a b c where offs: "offs = [a, b, c]" using assms(1) unfolding length_3_conv by (elim exE) (rule that)
  show "le_at 0 (trx_head n crc offs @ body) = TRX_MAGIC" "le_at 8 (trx_head n crc offs @ body) = crc"
    by (simp_all add: le_at_def trx_head_def trx_header_bytes_def)
  show "unat (le_at 4 (trx_head n crc offs @ body)) = n"
    using assms(2) by (simp add: le_at_def trx_head_def trx_header_bytes_def unat_of_nat)
  assume "i < 3"
  then have "i = 0 \<or> i = 1 \<or> i = 2" by linarith
  then show "le_at (16 + 4 * i) (trx_head n crc offs @ body) = offs ! i"
    by (elim disjE) (simp_all add: le_at_def trx_head_def trx_header_bytes_def offs)
qed

lemma length_trx_image: "length offs = 3 \<Longrightarrow> length (trx_image offs body) = 28 + length body"
  by (simp add: trx_image_def Let_def length_trx_head)

lemma trx_image_fields:
  assumes "length offs = 3" and "28 + length body < 2 ^ 32"
  shows "le_at 0 (trx_image offs body) = TRX_MAGIC" and "unat (le_at 4 (trx_image offs body)) = 28 + length body"
    and "i < 3 \<Longrightarrow> le_at (16 + 4 * i) (trx_image offs body) = offs ! i"
  using trx_head_fields [OF assms] by (simp_all only: trx_image_def Let_def)

lemma trx_image_valid:
  assumes "length offs = 3" and "28 + length body < 2 ^ 32"
  shows "trx_valid (trx_image offs body)"
proof -
  have "drop 12 (trx_image offs body) = drop 12 (trx_head (28 + length body) 0 offs) @ body"
    using assms(1) by (simp add: trx_image_def Let_def length_trx_head trx_head_tail [of _ "crc_bits _ _"])
  moreover have "le_at 8 (trx_image offs body) = crc_bits 0xffffffff (drop 12 (trx_head (28 + length body) 0 offs) @ body)"
    unfolding trx_image_def Let_def by (rule trx_head_fields(3) [OF assms])
  ultimately show ?thesis
    using trx_image_fields [OF assms] length_trx_image [OF assms(1), of body] assms(1)
    by (simp add: trx_valid_def length_trx_head)
qed

lemma ucast_u64: "unat (ucast (w :: u32) :: u64) = unat w"
  using unsigned_less [of w, where 'a = nat] by (simp add: unsigned_ucast_eq take_bit_nat_eq_self_iff)

lemma write_hdr_image:
  assumes offs: "length offs = 3" and n: "28 + length body < 2 ^ 32" and lim: "28 \<le> fs_limit fs0"
  shows "otrx_create_write_hdr Little trx \<lparr>th_magic = 0, th_length = word_of_nat (28 + length body), th_crc32 = 0,
      th_flags = 0, th_version = 0, th_offset = offs\<rparr> (set_data trx (if body = [] then [] else replicate 28 0 @ body) fs0)
    = (0, set_data trx (trx_image offs body) fs0)"
proof -
  let ?n = "28 + length body" and ?d = "if body = [] then [] else replicate 28 0 @ body"
  have len: "length (trx_head ?n c offs) = 28" for c by (rule length_trx_head [OF offs])
  have put: "splice_bytes ?d 0 (trx_head ?n c offs) = trx_head ?n c offs @ body" for c
    using len [of c] by (auto simp: splice_bytes_def)
  have put2: "splice_bytes (trx_head ?n c' offs @ body) 0 (trx_head ?n c offs) = trx_head ?n c offs @ body" for c c'
    using len [of c] len [of c'] by (auto simp: splice_bytes_def)
  have "unat (word_of_nat ?n :: u32) = ?n" using n by (simp add: unat_of_nat del: of_nat_add)
  then have "unat (ucast (word_of_nat ?n :: u32) - word_of_nat TRX_FLAGS_OFFSET :: u64) = ?n - 12"
    using unat_sub_of_nat [of 12 "ucast (word_of_nat ?n :: u32) :: u64"] by (simp add: ucast_u64 TRX_FLAGS_OFFSET_def)
  moreover have "length (drop 12 (trx_head ?n 0 offs) @ body) = ?n - 12" using len [of 0] by simp
  ultimately have crc: "fst (crc_read_loop (drop 12 (trx_head ?n 0 offs) @ body)
      (ucast (word_of_nat ?n :: u32) - word_of_nat TRX_FLAGS_OFFSET) 0xffffffff) = crc_bits 0xffffffff (drop 12 (trx_head ?n 0 offs) @ body)"
    by (simp only: crc_read_loop_result fst_conv) simp
  have wr: "fwrite_at trx 0 (trx_head ?n c offs) (set_data trx x fs0) = (28, set_data trx (splice_bytes x 0 (trx_head ?n c offs)) fs0)" for c x
    using lim len [of c] by (simp add: fwrite_at_def)
  show ?thesis
    using crc len [of 0]
    by (simp add: otrx_create_write_hdr_def Let_def cpu_to_le32_def le32_to_cpu_def wr put put2 TRX_FLAGS_OFFSET_def
        trx_image_def split_beta flip: trx_head_def del: of_nat_add)
qed

lemma length_splice_bytes: "length d \<le> length (splice_bytes d pos buf)" "buf \<noteq> [] \<Longrightarrow> pos + length buf \<le> length (splice_bytes d pos buf)"
  by (auto simp: splice_bytes_def)

lemma write_hdr_grows:
  assumes "length (th_offset hdr) = 3"
  shows "length (file_data trx fs) \<le> length (file_data trx (snd (otrx_create_write_hdr e trx hdr fs)))"
    and "min 28 (fs_limit fs) \<le> length (file_data trx (snd (otrx_create_write_hdr e trx hdr fs)))"
proof -
  have len: "length (trx_header_bytes e h) = 28" if "length (th_offset h) = 3" for h
    using that by (auto simp: trx_header_bytes_def length_3_conv)
  have grow: "length (file_data trx f) \<le> length (file_data trx (snd (fwrite_at trx 0 b f)))" for f b
    by (simp add: fwrite_at_def Let_def length_splice_bytes)
  have first: "min 28 (fs_limit f) \<le> length (file_data trx (snd (fwrite_at trx 0 (trx_header_bytes e h) f)))"
    if "length (th_offset h) = 3" for f h
  proof -
    have "trx_header_bytes e h \<noteq> []" using len [OF that] by (cases "trx_header_bytes e h") simp_all
    with len [OF that] show ?thesis
      using length_splice_bytes(2) [of "take (min 28 (fs_limit f)) (trx_header_bytes e h)" 0 "file_data trx f"]
      by (cases "fs_limit f = 0") (auto simp: fwrite_at_def Let_def)
  qed
  obtain m f1 where w: "fwrite_at trx 0 (trx_header_bytes e (hdr\<lparr>th_magic := cpu_to_le32 e TRX_MAGIC, th_version := 1\<rparr>)) fs = (m, f1)"
    by fastforce
  have "length (file_data trx fs) \<le> length (file_data trx f1)" "min 28 (fs_limit fs) \<le> length (file_data trx f1)"
    using grow [of fs "trx_header_bytes e (hdr\<lparr>th_magic := cpu_to_le32 e TRX_MAGIC, th_version := 1\<rparr>)"]
      first [of "hdr\<lparr>th_magic := cpu_to_le32 e TRX_MAGIC, th_version := 1\<rparr>" fs] assms by (simp_all add: w)
  moreover have "length (file_data trx f1) \<le> length (file_data trx (snd (otrx_create_write_hdr e trx hdr fs)))"
    using grow [of f1] by (auto simp: otrx_create_write_hdr_def Let_def w split_beta)
  ultimately show "length (file_data trx fs) \<le> length (file_data trx (snd (otrx_create_write_hdr e trx hdr fs)))"
    and "min 28 (fs_limit fs) \<le> length (file_data trx (snd (otrx_create_write_hdr e trx hdr fs)))"
    by linarith+
qed

text \<open>Where a run of \<open>create\<close> ends: with the image, or with a full disk.\<close>

lemma ucast_of_nat: "unat off = n \<Longrightarrow> (ucast off :: u32) = word_of_nat n" for off :: u64
  by auto

lemma create_image:
  assumes run: "otrx_create Little al (trx # args) opts fs = Some (0, fs')"
    and lim: "length (file_data trx fs') < fs_limit fs" "length (file_data trx fs') < 2 ^ 32" "fs_limit fs < 2 ^ 63"
  shows "\<exists>offs body. length offs = 3 \<and> 28 + length body < 2 ^ 32 \<and> fs' = set_data trx (trx_image offs body) fs"
proof -
  let ?st0 = "\<lparr>cr_fs = set_data trx [] fs, cr_pos = fseek_set 0 28, cr_idx = 0, cr_offset = 28, cr_offsets = replicate 3 0\<rparr>"
  have "fseek_set 0 28 = 28" by (subst fseek_set_small) simp_all
  then have st0: "in_step trx fs [] ?st0" by (simp add: in_step_def creating_def)
  obtain st where loop: "create_loop al trx opts ?st0 = Some (0, st)"
    using run by (auto simp: otrx_create_def fopen_w_def set_data_def split: option.splits if_splits prod.splits)
  obtain ext1 where st: "in_step trx fs ([] @ ext1) st"
    using create_loop_in_step [OF st0 lim(3) loop] by (elim exE) (rule that)
  obtain st' where al: "align_step al trx 0x1000 st = Some st'"
      and fs': "fs' = snd (otrx_create_write_hdr Little trx \<lparr>th_magic = 0, th_length = ucast (cr_offset st'), th_crc32 = 0, th_flags = 0,
                th_version = 0, th_offset = cr_offsets st'\<rparr> (cr_fs st'))"
    using run loop by (auto simp: otrx_create_def fopen_w_def Let_def set_data_def split: option.splits if_splits)
  obtain body where st': "in_step trx fs body st'"
    using align_step_in_step [OF st lim(3) al] by auto
  let ?d = "if body = [] then [] else replicate 28 0 @ body"
  have c: "cr_pos st' = 28 + length body" "length (cr_offsets st') = 3" "cr_fs st' = set_data trx ?d fs"
    using st' by (simp_all add: in_step_def creating_def)
  note grows = write_hdr_grows [where trx = trx and e = Little and fs = "cr_fs st'"
        and hdr = "\<lparr>th_magic = 0, th_length = ucast (cr_offset st'), th_crc32 = 0, th_flags = 0,
          th_version = 0, th_offset = cr_offsets st'\<rparr>", folded fs']
  have small: "\<not> fs_limit fs \<le> 28 + length body" "28 + length body < 2 ^ 32"
    using grows c lim by (cases "body = []"; simp)+
  then have "unat (cr_offset st') = 28 + length body" using st' c by (simp add: in_step_def)
  from ucast_of_nat [OF this] have "fs' = set_data trx (trx_image (cr_offsets st') body) fs"
    unfolding fs' c(3) using write_hdr_image [OF c(2) small(2)] small(1) by simp
  with c(2) small(2) show ?thesis by blast
qed

section \<open>Creating when there is room\<close>

text \<open>The state with \<open>body\<close> behind the room for the header, and the padding of a part.\<close>

definition built :: "string \<Rightarrow> fsys \<Rightarrow> bytes \<Rightarrow> nat \<Rightarrow> u64 \<Rightarrow> u32 list \<Rightarrow> creation" where
  "built trx fs body i off offs = \<lparr>cr_fs = set_data trx (if body = [] then [] else replicate 28 0 @ body) fs,
    cr_pos = 28 + length body, cr_idx = i, cr_offset = off, cr_offsets = offs\<rparr>"

definition pad_to :: "nat \<Rightarrow> nat \<Rightarrow> bytes" where
  "pad_to k p = replicate ((2 ^ k - p mod 2 ^ k) mod 2 ^ k) 0"

lemma length_pad_to: "length (pad_to k p) < 2 ^ k"
  by (simp add: pad_to_def)

lemma built_simps [simp]:
  "cr_pos (built trx fs body i off offs) = 28 + length body" "cr_idx (built trx fs body i off offs) = i"
  "cr_offset (built trx fs body i off offs) = off" "cr_offsets (built trx fs body i off offs) = offs"
  by (simp_all add: built_def)

lemma write_built:
  assumes "28 + length body + length buf \<le> fs_limit fs"
  shows "cr_write trx buf (built trx fs body i off offs) = (length buf, built trx fs (body @ buf) i off offs)"
  using assms by (auto simp: cr_write_def fwrite_at_def Let_def built_def splice_bytes_def)

lemma copy_built:
  assumes "28 + length body + length (concat bufs) \<le> fs_limit fs"
  shows "copy_loop trx bufs len (built trx fs body i off offs)
    = (len + int (length (concat bufs)), built trx fs (body @ concat bufs) i off offs)"
  using assms by (induction bufs arbitrary: body len) (simp_all add: write_built Let_def add.assoc)

lemma append_file_built:
  assumes "28 + length body + length (file_data inp fs) \<le> fs_limit fs" and "fopen_r inp fs" and "inp \<noteq> trx"
  shows "otrx_create_append_file trx inp (built trx fs body i off offs)
    = (int (length (file_data inp fs)), built trx fs (body @ file_data inp fs) i off offs)"
proof -
  have "file_data inp (cr_fs (built trx fs body i off offs)) = file_data inp fs" "fopen_r inp (cr_fs (built trx fs body i off offs))"
    using assms by (auto simp: built_def fopen_r_def)
  then show ?thesis using copy_built [of body "chunks 1024 (file_data inp fs)" fs] assms(1)
    by (simp add: otrx_create_append_file_def concat_chunks)
qed

lemma unat_pow2: "k < 64 \<Longrightarrow> unat (2 ^ k :: u64) = 2 ^ k"
proof -
  assume "k < 64"
  then have "(2 :: nat) ^ k < 2 ^ 64" by (rule power_strict_increasing) simp
  then have "unat (word_of_nat (2 ^ k) :: u64) = 2 ^ k" by (simp add: unat_of_nat del: of_nat_power)
  then show ?thesis by simp
qed

lemma pow2_mod:
  assumes "k < 64" and "p < 2 ^ 63"
  shows "unat ((word_of_nat p :: u64) AND (2 ^ k - 1)) = p mod 2 ^ k"
    and "unat (2 ^ k - (word_of_nat p :: u64) mod 2 ^ k) = 2 ^ k - p mod 2 ^ k"
proof -
  have p: "unat (word_of_nat p :: u64) = p" using assms(2) by (simp add: unat_of_nat)
  have pk: "unat (2 ^ k :: u64) = 2 ^ k" using assms(1) by (simp add: unat_pow2)
  have "(word_of_nat p :: u64) AND (2 ^ k - 1) = take_bit k (word_of_nat p)"
    by (simp add: take_bit_eq_mask mask_eq_exp_minus_1)
  then have "unat ((word_of_nat p :: u64) AND (2 ^ k - 1)) = take_bit k p"
    by (simp only: unsigned_take_bit_eq p)
  then show "unat ((word_of_nat p :: u64) AND (2 ^ k - 1)) = p mod 2 ^ k"
    by (simp only: take_bit_eq_mod)
  have "unat ((word_of_nat p :: u64) mod 2 ^ k) = p mod 2 ^ k" by (simp add: unat_mod_distrib p pk)
  moreover from this have "(word_of_nat p :: u64) mod 2 ^ k \<le> 2 ^ k" by (simp add: word_le_nat_alt pk)
  ultimately show "unat (2 ^ k - (word_of_nat p :: u64) mod 2 ^ k) = 2 ^ k - p mod 2 ^ k"
    by (simp add: unat_sub pk)
qed

lemma align_built:
  assumes k: "k \<le> 12" and room: "28 + length body + 2 ^ k \<le> fs_limit fs" and lim: "fs_limit fs < 2 ^ 63"
  shows "align_step (\<lambda>_. True) trx (2 ^ k) (built trx fs body i (word_of_nat (28 + length body)) offs)
    = Some (built trx fs (body @ pad_to k (28 + length body)) i (word_of_nat (28 + length (body @ pad_to k (28 + length body)))) offs)"
proof -
  let ?p = "28 + length body" and ?b = "\<lambda>body off. built trx fs body i off offs"
  have kp: "k < 64" "?p < 2 ^ 63" using k room lim by auto
  note mod = pow2_mod [OF kp]
  show ?thesis
  proof (cases "?p mod 2 ^ k = 0")
    case True
    then have "(word_of_nat ?p :: u64) AND (2 ^ k - 1) = 0" using mod(1) by (simp only: unat_eq_0)
    with True show ?thesis by (simp add: align_step_def otrx_create_align_def pad_to_def del: of_nat_add)
  next
    case False
    let ?n = "2 ^ k - ?p mod 2 ^ k"
    have n: "?n mod 2 ^ k = ?n" "0 < ?n" "?n \<le> 2 ^ k" using False by auto
    have "(word_of_nat ?p :: u64) AND (2 ^ k - 1) \<noteq> 0" 
    proof
      assume "(word_of_nat ?p :: u64) AND (2 ^ k - 1) = 0"
      with mod(1) have "unat (0 :: u64) = ?p mod 2 ^ k" by (simp only:)
      with False show False by simp
    qed
    moreover have "(2 :: u64) ^ k \<noteq> 0"
    proof -
      have "unat ((2 :: u64) ^ k) = 2 ^ k" using kp(1) by (simp add: unat_pow2)
      then show ?thesis by (metis power_not_zero unat_0 zero_neq_numeral)
    qed
    moreover have "sint (2 ^ k - (word_of_nat ?p :: u64) mod 2 ^ k) = int ?n"
    proof -
      have "(2 :: nat) ^ k \<le> 2 ^ 12" using k by (intro power_increasing) auto
      then have "?n < 2 ^ 63" using n(3) by simp
      moreover have "signed_take_bit 63 (int m) = int m" if "m < 2 ^ 63" for m
        using that by (intro signed_take_bit_int_eq_self) simp_all
      ultimately have "signed_take_bit 63 (int ?n) = int ?n" by blast
      moreover have "uint (2 ^ k - (word_of_nat ?p :: u64) mod 2 ^ k) = int ?n" by (simp only: uint_nat mod(2))
      ultimately show ?thesis by (simp only: sint_uint) simp
    qed
    moreover have "\<not> 2 ^ k < ?p mod 2 ^ k" by (simp add: not_less less_imp_le)
    ultimately show ?thesis using n room mod(2)
      by (simp add: align_step_def otrx_create_align_def otrx_create_append_zeros_def write_built pad_to_def advance_def)
        (simp add: built_def)
  qed
qed

text \<open>The parts one after the other, each padded to a multiple of 4.\<close>

fun parts_from :: "bytes \<Rightarrow> bytes list \<Rightarrow> bytes" where
  "parts_from body [] = body"
| "parts_from body (d # ds) = parts_from (body @ d @ pad_to 2 (28 + length (body @ d))) ds"

definition room_for :: "bytes list \<Rightarrow> nat" where
  "room_for ds = (\<Sum>d\<leftarrow>ds. length d + 4)"

lemma room_for_simps [simp]: "room_for [] = 0" "room_for (d # ds) = length d + 4 + room_for ds"
  by (simp_all add: room_for_def)

lemma parts_from_append: "parts_from body (ds @ es) = parts_from (parts_from body ds) es"
  by (induction ds arbitrary: body) simp_all

lemma parts_from_prefix: "\<exists>ext. parts_from body ds = body @ ext \<and> length ext \<le> room_for ds"
proof (induction ds arbitrary: body)
  case (Cons d ds)
  from Cons [of "body @ d @ pad_to 2 (28 + length (body @ d))"] obtain ext where
    "parts_from body (d # ds) = body @ (d @ pad_to 2 (28 + length (body @ d)) @ ext)" "length ext \<le> room_for ds" by auto
  then show ?case using length_pad_to [of 2 "28 + length (body @ d)"]
    by (intro exI [of _ "d @ pad_to 2 (28 + length (body @ d)) @ ext"]) simp
qed simp

lemma parts_from_take:
  assumes "j < length ds"
  shows "parts_from body (take (Suc j) ds)
    = parts_from body (take j ds) @ ds ! j @ pad_to 2 (28 + length (parts_from body (take j ds) @ ds ! j))"
  using assms by (simp add: take_Suc_conv_app_nth parts_from_append)

lemma option_f_built:
  assumes inp: "fopen_r inp fs" "inp \<noteq> trx" "file_data inp fs = d" and i: "i < 3"
    and room: "28 + length body + length d + 4 \<le> fs_limit fs" "fs_limit fs < 2 ^ 63"
  shows "create_option (\<lambda>_. True) trx (CHR ''f'', inp) (built trx fs body i (word_of_nat (28 + length body)) offs)
    = Some (0, built trx fs (body @ d @ pad_to 2 (28 + length (body @ d))) (Suc i)
        (word_of_nat (28 + length (body @ d @ pad_to 2 (28 + length (body @ d))))) (offs[i := word_of_nat (28 + length body)]))"
proof -
  have "unat (word_of_nat (28 + length body) :: u64) = 28 + length body" using room by (simp add: unat_of_nat del: of_nat_add)
  then have off: "(ucast (word_of_nat (28 + length body) :: u64) :: u32) = word_of_nat (28 + length body)" by (rule ucast_of_nat)
  have adv: "advance (int (length d), built trx fs (body @ d) (Suc i) (word_of_nat (28 + length body)) offs')
    = built trx fs (body @ d) (Suc i) (word_of_nat (28 + length (body @ d))) offs'" for offs'
    by (simp add: advance_def) (simp add: built_def)
  have upd: "(built trx fs (body @ d) i off offs)\<lparr>cr_offsets := os, cr_idx := k\<rparr> = built trx fs (body @ d) k off os" for off os k
    by (simp add: built_def)
  show ?thesis
    using append_file_built [of body inp fs trx i "word_of_nat (28 + length body)" offs] inp i room
      align_built [of 2 "body @ d" fs trx "Suc i" "offs[i := word_of_nat (28 + length body)]"]
    by (simp add: create_option_def TRX_MAX_PARTS_def upd off adv del: of_nat_add)
qed

lemma loop_f_built:
  assumes "\<forall>inp\<in>set ins. fopen_r inp fs \<and> inp \<noteq> trx" and "i + length ins \<le> 3" and "length offs = 3"
    and "28 + length body + room_for (map (\<lambda>inp. file_data inp fs) ins) \<le> fs_limit fs" and "fs_limit fs < 2 ^ 63"
  shows "\<exists>offs'. length offs' = 3 \<and> (\<forall>j<length ins. offs' ! (i + j)
      = word_of_nat (28 + length (parts_from body (take j (map (\<lambda>inp. file_data inp fs) ins))))) \<and>
    (\<forall>j<3. j < i \<or> i + length ins \<le> j \<longrightarrow> offs' ! j = offs ! j) \<and>
    create_loop (\<lambda>_. True) trx (map (Pair (CHR ''f'')) ins) (built trx fs body i (word_of_nat (28 + length body)) offs)
      = Some (0, built trx fs (parts_from body (map (\<lambda>inp. file_data inp fs) ins)) (i + length ins)
          (word_of_nat (28 + length (parts_from body (map (\<lambda>inp. file_data inp fs) ins)))) offs')"
  using assms
proof (induction ins arbitrary: body i offs)
  case Nil
  then show ?case by (intro exI [of _ offs]) simp
next
  case (Cons inp ins)
  let ?d = "file_data inp fs"
  let ?body = "body @ ?d @ pad_to 2 (28 + length (body @ ?d))" and ?offs = "offs[i := word_of_nat (28 + length body)]"
  have step: "create_option (\<lambda>_. True) trx (CHR ''f'', inp) (built trx fs body i (word_of_nat (28 + length body)) offs)
    = Some (0, built trx fs ?body (Suc i) (word_of_nat (28 + length ?body)) ?offs)"
    using Cons.prems by (intro option_f_built) simp_all
  have pre: "\<forall>inp\<in>set ins. fopen_r inp fs \<and> inp \<noteq> trx" "Suc i + length ins \<le> 3" "length ?offs = 3"
    "28 + length ?body + room_for (map (\<lambda>inp. file_data inp fs) ins) \<le> fs_limit fs"
    using Cons.prems length_pad_to [of 2 "28 + length (body @ ?d)"] by simp_all
  obtain offs' where o: "length offs' = 3" "\<forall>j<length ins. offs' ! (Suc i + j)
      = word_of_nat (28 + length (parts_from ?body (take j (map (\<lambda>inp. file_data inp fs) ins))))"
    "\<forall>j<3. j < Suc i \<or> Suc i + length ins \<le> j \<longrightarrow> offs' ! j = ?offs ! j"
    and loop: "create_loop (\<lambda>_. True) trx (map (Pair (CHR ''f'')) ins) (built trx fs ?body (Suc i) (word_of_nat (28 + length ?body)) ?offs)
      = Some (0, built trx fs (parts_from ?body (map (\<lambda>inp. file_data inp fs) ins)) (Suc i + length ins)
          (word_of_nat (28 + length (parts_from ?body (map (\<lambda>inp. file_data inp fs) ins)))) offs')"
    using Cons.IH [OF pre Cons.prems(5)] by (elim exE conjE) (rule that)
  have i: "i < 3" using Cons.prems(2) by simp
  have "offs' ! (i + j) = word_of_nat (28 + length (parts_from body (take j (map (\<lambda>inp. file_data inp fs) (inp # ins)))))"
    if j: "j < length (inp # ins)" for j
  proof (cases j)
    case 0
    then show ?thesis using o(3) i Cons.prems(3) by simp
  next
    case (Suc j')
    then show ?thesis using o(2) j by simp
  qed
  moreover have "offs' ! j = offs ! j" if "j < 3" "j < i \<or> i + length (inp # ins) \<le> j" for j
    using o(3) that by auto
  ultimately show ?case using o(1) step loop by (intro exI [of _ offs']) simp
qed

lemma create_files:
  assumes ins: "\<forall>inp\<in>set ins. fopen_r inp fs \<and> inp \<noteq> trx" "length ins \<le> 3" and wr: "fs_writable fs trx"
    and ds: "ds = map (\<lambda>inp. file_data inp fs) ins"
    and room: "room_for ds + 4124 \<le> fs_limit fs" "room_for ds + 4124 < 2 ^ 32" "fs_limit fs < 2 ^ 63"
  shows "\<exists>offs. length offs = 3 \<and> (\<forall>j<length ins. offs ! j = word_of_nat (28 + length (parts_from [] (take j ds)))) \<and>
    (\<forall>j<3. length ins \<le> j \<longrightarrow> offs ! j = 0) \<and>
    otrx_create Little (\<lambda>_. True) (trx # args) (map (Pair (CHR ''f'')) ins) fs
      = Some (0, set_data trx (trx_image offs (parts_from [] ds @ pad_to 12 (28 + length (parts_from [] ds)))) fs)"
proof -
  let ?body = "parts_from [] ds" and ?b = "parts_from [] ds @ pad_to 12 (28 + length (parts_from [] ds))"
  obtain ext where body: "?body = ext" "length ext \<le> room_for ds" using parts_from_prefix [of "[]" ds] by auto
  have pad: "length (pad_to 12 n) < 4096" for n using length_pad_to [of 12 n] by simp
  have "28 + length ([] :: bytes) + room_for (map (\<lambda>inp. file_data inp fs) ins) \<le> fs_limit fs" "0 + length ins \<le> 3" "length (replicate 3 (0::u32)) = 3"
    using room(1) ins(2) ds by simp_all
  from loop_f_built [OF ins(1) this(2,3,1) room(3), folded ds] obtain offs where
    offs: "length offs = 3" "\<forall>j<length ins. offs ! (0 + j) = word_of_nat (28 + length (parts_from [] (take j ds)))"
      "\<forall>j<3. j < 0 \<or> 0 + length ins \<le> j \<longrightarrow> offs ! j = replicate 3 (0::u32) ! j"
    and loop: "create_loop (\<lambda>_. True) trx (map (Pair (CHR ''f'')) ins)
        (built trx fs [] 0 (word_of_nat (28 + length ([] :: bytes))) (replicate 3 0))
      = Some (0, built trx fs ?body (0 + length ins) (word_of_nat (28 + length ?body)) offs)"
    by (elim exE conjE) (rule that)
  have start: "fopen_w trx fs = Some (set_data trx [] fs)" "fseek_set 0 28 = 28"
    "\<lparr>cr_fs = set_data trx [] fs, cr_pos = 28, cr_idx = 0, cr_offset = 28, cr_offsets = replicate 3 0\<rparr>
      = built trx fs [] 0 (word_of_nat (28 + length ([] :: bytes))) (replicate 3 0)"
    using wr by (simp_all add: fopen_w_def set_data_def built_def fseek_set_small)
  have align: "align_step (\<lambda>_. True) trx (2 ^ 12) (built trx fs ?body (length ins) (word_of_nat (28 + length ?body)) offs)
    = Some (built trx fs ?b (length ins) (word_of_nat (28 + length ?b)) offs)"
    using body room by (intro align_built) simp_all
  have "28 + length ?b < 2 ^ 32" "28 \<le> fs_limit fs" using body room pad [of "28 + length ?body"] by auto
  note write_hdr_image [OF offs(1) this, of trx]
  moreover have "(ucast (word_of_nat (28 + length ?b) :: u64) :: u32) = word_of_nat (28 + length ?b)"
    using body room pad [of "28 + length ?body"] by (intro ucast_of_nat) (simp add: unat_of_nat del: of_nat_add)
  ultimately have "otrx_create Little (\<lambda>_. True) (trx # args) (map (Pair (CHR ''f'')) ins) fs = Some (0, set_data trx (trx_image offs ?b) fs)"
    using loop align by (simp add: otrx_create_def start Let_def del: of_nat_add append_assoc length_append) (simp add: built_def del: of_nat_add append_assoc length_append)
  then show ?thesis using offs by (intro exI [of _ offs]) auto
qed

text \<open>The end of a part as the program takes it from the header.\<close>

definition part_end :: "u32 list \<Rightarrow> nat \<Rightarrow> nat \<Rightarrow> nat" where
  "part_end offs i n = (if i + 1 \<ge> 3 \<or> offs ! (i + 1) = 0 then n else unat (offs ! (i + 1)))"

lemma fwrite_new:
  "length buf \<le> fs_limit fs \<Longrightarrow> fwrite_at name 0 buf (set_data name [] fs) = (length buf, set_data name buf fs)"
  by (cases "buf = []") (simp_all add: fwrite_at_def splice_bytes_def Let_def min_absorb1)

lemma extract_part:
  assumes img: "fs_files fs trx = Some (trx_image offs body)" "fs_readable fs trx"
    and offs: "length offs = 3" "i < 3" "offs ! i \<noteq> 0" and n: "28 + length body < 2 ^ 32"
    and a: "28 \<le> unat (offs ! i)" "unat (offs ! i) \<le> part_end offs i (28 + length body)" "part_end offs i (28 + length body) \<le> 28 + length body"
    and out: "out \<noteq> trx" "fs_writable fs out" "part_end offs i (28 + length body) - unat (offs ! i) \<le> fs_limit fs"
  shows "otrx_extract e (\<lambda>_. True) (trx # args) [(''123'' ! i, out)] fs = (0, set_data out
    (take (part_end offs i (28 + length body) - unat (offs ! i)) (drop (unat (offs ! i) - 28) body)) fs)"
proof -
  let ?f = "trx_image offs body" and ?a = "unat (offs ! i)" and ?b = "part_end offs i (28 + length body)"
  have len: "length ?f = 28 + length body" by (rule length_trx_image [OF offs(1)])
  let ?hdr = "trx_header_of e (take 28 ?f)"
  have hf: "28 \<le> length ?f" using len by simp
  have fields: "le32_to_cpu e (th_magic ?hdr) = TRX_MAGIC" "unat (le32_to_cpu e (th_length ?hdr)) = 28 + length body"
      "j < 3 \<Longrightarrow> le32_to_cpu e (th_offset ?hdr ! j) = offs ! j" for j
    using header_fields(1,2) [OF hf, of e] header_fields(4) [OF hf, of j e] trx_image_fields [OF offs(1) n] by simp_all
  have zero: "th_offset ?hdr ! j = 0 \<longleftrightarrow> offs ! j = 0" if "j < 3" for j
  proof -
    have "le32_to_cpu e w = 0 \<longleftrightarrow> w = 0" for w
    proof -
      have "bswap32 0 = 0" by code_simp
      then have "bswap32 w = 0 \<longleftrightarrow> w = 0" by (metis bswap32_bswap32)
      then show ?thesis by (cases e) (simp_all add: le32_to_cpu_def)
    qed
    with fields(3) [OF that] show ?thesis by metis
  qed
  have part: "unat (part_length e ?hdr i) = ?b - ?a"
  proof -
    have sub: "unat (ucast (x - y :: u32) :: u64) = unat x - unat y" if "unat y \<le> unat x" for x y
      using that by (simp add: ucast_u64 unat_sub word_le_nat_alt)
    show ?thesis
      using a(2) fields(2) fields(3) [OF offs(2)] fields(3) [of "i + 1"] zero [of "i + 1"]
      by (auto simp: part_length_def part_end_def TRX_MAX_PARTS_def sub)
  qed
  have drop: "drop ?a ?f = drop (?a - 28) body"
  proof -
    obtain h where "?f = h @ body" "length h = 28"
      using length_trx_head [OF offs(1)] by (auto simp: trx_image_def Let_def)
    then show ?thesis using a(1) by simp
  qed
  let ?p = "take (?b - ?a) (drop (?a - 28) body)"
  have lp: "length ?p = ?b - ?a" using a by simp
  have copy: "snd (otrx_extract_copy (\<lambda>_. True) trx (0 + ucast (le32_to_cpu e (th_offset ?hdr ! i))) (part_length e ?hdr i) out (pos, fs))
    = (?a + (?b - ?a), set_data out ?p fs)" for pos
  proof -
    have w: "fopen_w out fs = Some (set_data out [] fs)" using out(2) by (simp add: fopen_w_def set_data_def)
    have seek: "fseek_set pos (ucast (offs ! i)) = ?a"
      using unsigned_less [of "offs ! i", where 'a = nat] by (subst fseek_set_small) (simp_all add: ucast_u64)
    have d: "file_data trx (set_data out [] fs) = ?f" using img(1) out(1) by simp
    have fw: "fwrite_at out 0 ?p (set_data out [] fs) = (length ?p, set_data out ?p fs)"
      using out(3) lp by (intro fwrite_new) simp
    show ?thesis
      unfolding otrx_extract_copy_def
      by (simp only: w part fields(3) [OF offs(2)] seek d drop Let_def lp fw prod.case option.case add_0 snd_conv if_False if_True simp_thms)
  qed
  have opts: "otrx_extract_parse_options [(''123'' ! i, out)] (0, replicate 3 None) = (0, (replicate 3 None)[i := Some out])"
    using offs(2) by (auto simp: numeral_eq_Suc less_Suc_eq)
  have parts: "snd (extract_parts e (\<lambda>_. True) trx 0 ?hdr ((replicate 3 None)[i := Some out]) [0, 1, 2] (pos, fs)) = set_data out ?p fs" for pos
    using offs(2,3) zero [of i] copy by (auto simp: numeral_eq_Suc less_Suc_eq)
  have "fopen_r trx fs" "file_data trx fs = ?f" using img by (auto simp: fopen_r_def)
  then show ?thesis using hf fields(1) parts
    by (simp add: otrx_extract_def opts Let_def fseek_set_def del: otrx_extract_parse_options.simps extract_parts.simps)
qed

lemma pad_to_zeros: "\<exists>k. pad_to m p = replicate k 0 \<and> k < 2 ^ m"
  by (auto simp: pad_to_def intro!: exI [of _ "(2 ^ m - p mod 2 ^ m) mod 2 ^ m"])

lemma parts_from_nth:
  assumes "i < length ds"
  shows "\<exists>ext. parts_from [] ds = parts_from [] (take i ds) @ ds ! i @ pad_to 2 (28 + length (parts_from [] (take i ds) @ ds ! i)) @ ext
    \<and> (i + 1 = length ds \<longrightarrow> ext = [])"
proof -
  have "parts_from [] ds = parts_from (parts_from [] (take (Suc i) ds)) (drop (Suc i) ds)"
    by (simp flip: parts_from_append)
  moreover obtain ext where "parts_from (parts_from [] (take (Suc i) ds)) (drop (Suc i) ds) = parts_from [] (take (Suc i) ds) @ ext"
    using parts_from_prefix by blast
  ultimately show ?thesis using parts_from_take [OF assms] by (intro exI [of _ ext]) auto
qed

section \<open>Properties\<close>

text \<open>
  C18: The checksum is the remainder of the division by the polynomial, computed bit by bit, both with the
  table that \<open>fwtool\<close> computes and with the table of constants in \<open>otrx\<close>, and the two tables are equal.
\<close>

theorem crc_tables_agree:
  "crc32_tbl = crc32_filltable \<and> crc32_block crc32_filltable val buf = crc_bits val buf \<and> otrx_crc32 val buf = crc_bits val buf"
  by (simp add: crc32_tbl_filltable crc32_block_bits otrx_crc32_bits)

text \<open>
  C20: On a machine of either byte order, \<open>check\<close> accepts a file exactly if a valid image is at the offset:
  the magic number, a length of at least the header that the file has, and over the bytes from the flags
  to that length the checksum of the header.
\<close>

theorem otrx_check_accepts:
  assumes "unat (otrx_check_parse_options opts 0) < 2 ^ 32" and "fopen_r trx fs"
  shows "otrx_check e (trx # args) opts fs = 0 \<longleftrightarrow> trx_valid (drop (unat (otrx_check_parse_options opts 0)) (file_data trx fs))"
  using assms(2) check_data_valid [OF assms(1), of e "file_data trx fs"] by (simp add: otrx_check_def Let_def)

definition trx_disk :: "bytes \<Rightarrow> fsys" where
  "trx_disk d = \<lparr>fs_files = [''a'' \<mapsto> [1, 2, 3], ''b'' \<mapsto> [4], ''trx'' \<mapsto> d], fs_readable = (\<lambda>_. True), fs_writable = (\<lambda>_. True),
    fs_limit = 10000\<rparr>"

lemma trx_disk_simps [simp]:
  "fopen_r ''trx'' (trx_disk d)" "fopen_r ''a'' (trx_disk d)" "fopen_r ''b'' (trx_disk d)" "file_data ''trx'' (trx_disk d) = d"
  "file_data ''a'' (trx_disk d) = [1, 2, 3]" "file_data ''b'' (trx_disk d) = [4]" "fs_limit (trx_disk d) = 10000"
  "fs_readable (trx_disk d) x" "fs_writable (trx_disk d) x"
  by (simp_all add: trx_disk_def fopen_r_def file_data_def)

lemma otrx_check_accepts_witness:
  "otrx_check Big [''trx''] [] (trx_disk (trx_image [0, 0, 0] [7])) = 0 \<and> otrx_check Big [''trx''] [] (trx_disk [1, 2, 3]) \<noteq> 0"
  using otrx_check_accepts [of "[]" "''trx''" "trx_disk (trx_image [0, 0, 0] [7])" Big "[]"]
    otrx_check_accepts [of "[]" "''trx''" "trx_disk [1, 2, 3]" Big "[]"] trx_image_valid [of "[0, 0, 0]" "[7]"]
  by (simp add: trx_valid_def [of "[1, 2, 3]"])

text \<open>
  C9: Whatever options \<open>create\<close> is given, files that cannot be read and padding that fails among them, when
  it ends with 0 and the disk did not fill up then \<open>check\<close> accepts the file it has written.
\<close>

theorem otrx_create_checks:
  assumes "otrx_create Little al (trx # args) opts fs = Some (0, fs')" and "fs_readable fs trx"
    and "length (file_data trx fs') < fs_limit fs" and "length (file_data trx fs') < 2 ^ 32" and "fs_limit fs < 2 ^ 63"
  shows "otrx_check e [trx] [] fs' = 0"
proof -
  obtain offs body where i: "length offs = 3" "28 + length body < 2 ^ 32" "fs' = set_data trx (trx_image offs body) fs"
    using create_image [OF assms(1,3-5)] by (elim exE conjE) (rule that)
  then have "fopen_r trx fs'" "file_data trx fs' = trx_image offs body" using assms(2) by (simp_all add: fopen_r_def)
  then show ?thesis using trx_image_valid [OF i(1,2)] check_data_valid [of 0 e "trx_image offs body"]
    by (simp add: otrx_check_def)
qed

lemma otrx_create_checks_witness:
  "\<exists>fs'. otrx_create Little (\<lambda>_. True) [''trx''] [(CHR ''f'', ''a''), (CHR ''f'', ''b'')] (trx_disk []) = Some (0, fs') \<and>
    otrx_check Big [''trx''] [] fs' = 0"
proof -
  obtain offs where offs: "length offs = 3" and run: "otrx_create Little (\<lambda>_. True) [''trx''] (map (Pair (CHR ''f'')) [''a'', ''b'']) (trx_disk [])
      = Some (0, set_data ''trx'' (trx_image offs (parts_from [] [[1, 2, 3], [4]] @ pad_to 12 (28 + length (parts_from [] [[1, 2, 3], [4]])))) (trx_disk []))"
    using create_files [of "[''a'', ''b'']" "trx_disk []" "''trx''" "[[1, 2, 3], [4]]" "[]"] by auto
  have "length (trx_image offs (parts_from [] [[1, 2, 3], [4]] @ pad_to 12 (28 + length (parts_from [] [[1, 2, 3], [4 :: u8]])))) < 5000"
    using length_pad_to [of 12 "28 + length (parts_from [] [[1, 2, 3], [4 :: u8]])"] length_trx_image [OF offs] by (simp add: pad_to_def [of 2])
  with run otrx_create_checks [OF run, of Big] show ?thesis by simp
qed

text \<open>
  C6: Up to three files put into an image with \<open>-f\<close> come back from it: the run of \<open>create\<close> ends with 0,
  and extracting part \<open>i\<close> gives the file followed by zeros, less than four of them between parts, and
  the padding to a full page behind the last one.
\<close>

theorem otrx_roundtrip:
  assumes ins: "\<forall>inp\<in>set ins. fopen_r inp fs \<and> inp \<noteq> trx" "length ins \<le> 3" "i < length ins"
    and trx: "fs_writable fs trx" "fs_readable fs trx" and out: "out \<noteq> trx" "fs_writable fs out"
    and ds: "ds = map (\<lambda>inp. file_data inp fs) ins"
    and room: "room_for ds + 4124 \<le> fs_limit fs" "room_for ds + 4124 < 2 ^ 32" "fs_limit fs < 2 ^ 63"
  shows "\<exists>fs' k. otrx_create Little (\<lambda>_. True) [trx] (map (Pair (CHR ''f'')) ins) fs = Some (0, fs') \<and>
    otrx_extract e (\<lambda>_. True) [trx] [(''123'' ! i, out)] fs' = (0, set_data out (ds ! i @ replicate k 0) fs') \<and>
    (if i + 1 < length ins then k < 4 else k < 4100)"
proof -
  have i: "i < length ds" "i < 3" using ins ds by simp_all
  let ?body = "parts_from [] ds" and ?at = "\<lambda>j. 28 + length (parts_from [] (take j ds))"
  let ?pad = "pad_to 12 (28 + length ?body)"
  obtain offs where offs: "length offs = 3" "\<forall>j<length ins. offs ! j = word_of_nat (?at j)" "\<forall>j<3. length ins \<le> j \<longrightarrow> offs ! j = 0"
    and create: "otrx_create Little (\<lambda>_. True) [trx] (map (Pair (CHR ''f'')) ins) fs = Some (0, set_data trx (trx_image offs (?body @ ?pad)) fs)"
    using create_files [OF ins(1,2) trx(1) ds room, of "[]"] by (elim exE conjE) (rule that)
  obtain ext where body: "?body = parts_from [] (take i ds) @ ds ! i @ pad_to 2 (28 + length (parts_from [] (take i ds) @ ds ! i)) @ ext"
    and last: "i + 1 = length ds \<longrightarrow> ext = []"
    using parts_from_nth [OF i(1)] by (elim exE conjE) (rule that)
  obtain ext0 where "?body = ext0" "length ext0 \<le> room_for ds" using parts_from_prefix [of "[]" ds] by auto
  then have size: "28 + length (?body @ ?pad) < 2 ^ 32" "length (?body @ ?pad) \<le> fs_limit fs"
    using room length_pad_to [of 12 "28 + length ?body"] by simp_all
  have at: "unat (word_of_nat (?at j) :: u32) = ?at j" for j
  proof -
    have "?body = parts_from (parts_from [] (take j ds)) (drop j ds)" by (simp flip: parts_from_append)
    then have "length (parts_from [] (take j ds)) \<le> length ?body" using parts_from_prefix [of "parts_from [] (take j ds)" "drop j ds"] by auto
    then show ?thesis using size(1) by (simp add: unat_of_nat del: of_nat_add)
  qed
  then have oi: "unat (offs ! i) = ?at i" using offs(2) ins(3) by (simp del: of_nat_add)
  from oi have "unat (offs ! i) \<noteq> 0" by simp
  then have nz: "offs ! i \<noteq> 0" by auto
  obtain k2 where k2: "pad_to 2 (28 + length (parts_from [] (take i ds) @ ds ! i)) = replicate k2 0" "k2 < 4"
    using pad_to_zeros [of 2] by auto
  obtain k12 where k12: "?pad = replicate k12 0" "k12 < 4096" using pad_to_zeros [of 12] by auto
  let ?b = "part_end offs i (28 + length (?body @ ?pad))"
  have "\<exists>k. take (?b - ?at i) (drop (?at i - 28) (?body @ ?pad)) = ds ! i @ replicate k 0 \<and> ?at i \<le> ?b \<and> ?b \<le> 28 + length (?body @ ?pad)
      \<and> (if i + 1 < length ins then k < 4 else k < 4100)"
  proof (cases "i + 1 < length ins")
    case True
    then have "offs ! (i + 1) = word_of_nat (?at (i + 1))" using offs(2) by simp
    moreover have "?at (i + 1) = ?at i + length (ds ! i) + k2" using parts_from_take [OF i(1)] k2 by simp
    ultimately have "?b = ?at i + length (ds ! i) + k2" using at [of "i + 1"] True ins(2)
      by (auto simp: part_end_def simp del: of_nat_add)
    then show ?thesis using True body k2 by (intro exI [of _ k2]) simp
  next
    case False
    moreover from False have "?b = 28 + length (?body @ ?pad)" using offs(3) [rule_format, of "i + 1"] by (cases "i < 2") (auto simp: part_end_def)
    moreover have "ext = []" using False last ins ds by simp
    ultimately show ?thesis using body k2 k12 by (intro exI [of _ "k2 + k12"]) (simp add: replicate_add)
  qed
  then obtain k where k: "take (?b - ?at i) (drop (?at i - 28) (?body @ ?pad)) = ds ! i @ replicate k 0" "?at i \<le> ?b"
      "?b \<le> 28 + length (?body @ ?pad)" "if i + 1 < length ins then k < 4 else k < 4100"
    by (elim exE conjE) (rule that)
  have "otrx_extract e (\<lambda>_. True) [trx] [(''123'' ! i, out)] (set_data trx (trx_image offs (?body @ ?pad)) fs)
    = (0, set_data out (ds ! i @ replicate k 0) (set_data trx (trx_image offs (?body @ ?pad)) fs))"
    using extract_part [of "set_data trx (trx_image offs (?body @ ?pad)) fs" trx offs "?body @ ?pad" i out e "[]"]
      offs(1) i(2) oi nz size k trx(2) out by simp
  with create k(4) show ?thesis by blast
qed

lemma otrx_roundtrip_witness:
  "\<exists>fs' k. otrx_create Little (\<lambda>_. True) [''trx''] [(CHR ''f'', ''a''), (CHR ''f'', ''b'')] (trx_disk []) = Some (0, fs') \<and>
    otrx_extract Big (\<lambda>_. True) [''trx''] [(CHR ''1'', ''out'')] fs' = (0, set_data ''out'' ([1, 2, 3] @ replicate k 0) fs') \<and> k < 4"
  using otrx_roundtrip [of "[''a'', ''b'']" "trx_disk []" "''trx''" 0 "''out''" "[[1, 2, 3], [4]]" Big]
  by simp

section \<open>What \<open>create\<close> does not report\<close>

text \<open>A file that cannot be read is left out of the image, and the result is the same as without it.\<close>

lemma missing_input_ignored:
  assumes "\<not> fopen_r inp fs" and "inp \<noteq> trx"
  shows "otrx_create e al (trx # args) ((CHR ''f'', inp) # opts) fs = otrx_create e al (trx # args) opts fs"
proof -
  have "(28 :: u64) AND 3 = 0" by code_simp
  moreover have "\<not> fopen_r inp (fs\<lparr>fs_files := (fs_files fs)(trx \<mapsto> [])\<rparr>)" using assms by (auto simp: fopen_r_def)
  ultimately show ?thesis
    by (auto simp: otrx_create_def fopen_w_def create_option_def otrx_create_append_file_def TRX_MAX_PARTS_def align_step_def
        otrx_create_align_def errno_EACCES_def split: option.splits)
qed

text \<open>Alignment to 0 divides by 0.\<close>

lemma align_0_undefined: "create_option al trx (CHR ''a'', ''0'') st = (if cr_offset st = 0 then Some (0, st) else None)"
proof -
  have "strtol 0 ''0'' = 0" by code_simp
  then show ?thesis by (simp add: create_option_def align_step_def otrx_create_align_def)
qed

end
