(* ===== verification/Spec2Isabelle.thy ===== *)
theory Spec2Isabelle
  imports Owipcalc_Facts Luci_Ip_Facts Template_Utils_Facts Template_Lmo_Facts Po2lmo_Facts Template_Parser_Facts
    Template_Lualib Rtl8366_Bus_Facts Swconfig_Cli_Facts Swconfig_Leds_Facts Fwtool_Extract_Facts Otrx_Facts
begin

text \<open>
  A verification library for programs of this firmware repository: the address tools (\<open>owipcalc\<close>
  and the \<open>luci.ip\<close> module), the template engine of the LuCI web interface with its translation
  catalogs and their compiler, the configuration of Ethernet switches from the command line through
  the kernel with its LEDs and one driver below it, for the Realtek RTL8366S, down to the two wires to
  the chip, and two programs for firmware images.

  \<^bold>\<open>Parts and theories.\<close>

  \<^item> \<open>Prelude\<close> has the types of the C sources (fixed-width words, byte strings, the byte order
    and word size of the target), the big-endian value of a byte string and the collections
    \<open>be_simps\<close> and \<open>c_int\<close>.  \<open>None\<close> is behaviour that C leaves undefined, and nothing else; an
    error return of the code is an ordinary value.  \<open>Clib\<close> is the C library the sources call
    (\<open>strtoul\<close>, \<open>inet_pton\<close>, \<open>inet_ntop\<close>, printing of numbers), \<open>Addr_Spec\<close> the abstract
    addresses and blocks with the contract of address arithmetic as locales, \<open>Lua_Interface\<close>
    the stack, the objects and the errors of a Lua call.

  \<^item> \<open>Owipcalc\<close>, \<open>Owipcalc_Facts\<close>: \<open>package/network/utils/owipcalc/src/owipcalc.c\<close>, from \<open>argv\<close>
    to the exit code.  The stack of addresses is a list, the table of operations a list of
    records, \<open>ow_main\<close> runs the interpreter.  The facts give the arithmetic of both families as
    arithmetic of numbers, containment as inclusion of blocks, the text round trip, the
    invariant of the stack and the exit codes.

  \<^item> \<open>Luci_Ip\<close>, \<open>Luci_Ip_Facts\<close>: the address objects of \<open>libs/luci-lib-ip/src/ip.c\<close>, every method
    as a step of a Lua call over an object store.  The locales of \<open>Addr_Spec\<close> are interpreted
    on the code's arithmetic for each family; the properties rest on their facts.

  \<^item> \<open>Template_Buffer\<close>, \<open>Template_Utils\<close>, \<open>Template_Utils_Facts\<close>:
    \<open>modules/luci-base/src/template_utils.c\<close>.  A buffer is the bytes written, its block size and
    its fill level; the locale \<open>out_buffer\<close> states what the writers rely on, and \<open>tbuf\<close>
    interprets it.  The sanitisers and escapes are loops over the input; the facts give each as
    a function on byte strings, and what that function means (well-formed UTF-8, XML text, a Lua
    literal).  The allocator is a predicate on sizes.

  \<^item> \<open>Template_Lmo\<close>, \<open>Template_Lmo_Facts\<close>: \<open>template_lmo.c\<close>.  An archive is a mapped file with an
    offset and a number of entries; reading outside of it is undefined.  Catalogs live on a
    heap, the global variables are \<open>lmo_state\<close>.  The locale \<open>lookup_table\<close> is the contract of a
    table of translations, interpreted on well-formed archives (\<open>lar\<close>); \<open>lmo_step\<close> and
    \<open>lmo_reach\<close> are the calls of the library and the states they reach, with the invariant
    \<open>lm_ok\<close>.

  \<^item> \<open>Po2lmo\<close>, \<open>Po2lmo_Facts\<close>: \<open>po2lmo.c\<close>, the compiler of translations: \<open>extract_string\<close> over
    an array, the state machine \<open>po_line\<close>, the loop with its extra turn at the end of the input,
    the index.  The locale \<open>index_sort\<close> is the contract of \<open>qsort\<close>, interpreted on \<open>sort_key\<close>.
    The facts tie the compiler to \<open>lmo_open\<close> and to the lookup.

  \<^item> \<open>Template_Parser\<close>, \<open>Template_Parser_Facts\<close>, \<open>Template_Lualib\<close>: \<open>template_parser.c\<close> and
    \<open>template_lualib.c\<close>.  Pointers are offsets into the readable memory.  \<open>tmpl_code\<close> describes
    a template as a list of pieces, and the reader is proved to give exactly these.

  The kernel files are in \<open>target/linux/generic/files/drivers/net/phy\<close>.  A request of user space goes
  from \<open>swconfig.c\<close> through the table of a driver's operations to \<open>rtl8366_smi.c\<close>, what the chips of
  the family have in common, from there through the table of a chip's operations to \<open>rtl8366s.c\<close>,
  and from there as accesses to registers to the serial bus in \<open>rtl8366_smi.c\<close>.

  \<^item> \<open>Driver\<close>, \<open>Switch_Api\<close>: calls that return 0 or an error number, as functions \<open>drv\<close> over a state,
    and the structures of \<open>include/linux/switch.h\<close>.

  \<^item> \<open>Swconfig\<close>, \<open>Swconfig_Netlink\<close>, \<open>Swconfig_Facts\<close>: \<open>swconfig.c\<close>.  The global state is the list of
    switches, each with the state of its driver.  A message is the list of its parts, each with a
    size; message buffers live on a heap, where sending or freeing one ends its life.  \<open>sw_reach\<close>
    has all sequences of registrations, removals and requests.  The facts are the invariant
    \<open>registry_inv\<close> of the list, that a driver is asked only what its switch has (\<open>guard_dev\<close>), and
    which messages a request is answered by.

  \<^item> \<open>Swconfig_Leds\<close>, \<open>Swconfig_Leds_Facts\<close>: \<open>swconfig_leds.c\<close>.  \<open>led_reach\<close> has all sequences of
    changes to the LEDs of a trigger and runs of its work; \<open>led_next\<close> says what a LED shows.

  \<^item> \<open>Rtl8366_Bus\<close>, \<open>Rtl8366_Bus_Facts\<close>: the serial bus.  A run of the bus is the list of calls of
    the GPIO library; what the chip answers is the function \<open>sense\<close> of the calls so far.  The facts
    give the end of each access, the bits a write sends and the value a read returns.

  \<^item> \<open>Rtl8366_Smi\<close>, \<open>Rtl8366_Vlan_Spec\<close>, \<open>Rtl8366_Vlan_Facts\<close>: the common driver over a chip's
    operations.  \<open>vlans\<close> is the machine a chip has to be, two tables and some switches; the locale
    \<open>rtl_vlan\<close> is the contract that a chip behaves like it, and inside it each function of the
    driver on the chip is shown to do what it does on the machine.  The facts about the machine are
    the invariant \<open>vlans_inv\<close> and what each request does.

  \<^item> \<open>Rtl8366s\<close>, \<open>Rtl8366s_Facts\<close>: the chip's operations on its registers.  The locale
    \<open>rtl8366s_chip\<close> is what the registers do; a \<open>sublocale\<close> shows that then the contract holds.  It
    is interpreted on a file of registers with the table behind them (\<open>s_chip\<close>).

  \<^item> \<open>Rtl8366s_Switch\<close>, \<open>Rtl8366s_Switch_Facts\<close>: the tables of \<open>rtl8366s.c\<close> for the configuration, and
    a request followed from the message that asks to the message that answers.

  In user space the program \<open>swconfig\<close> (\<open>package/network/config/swconfig/src\<close>) makes these requests:

  \<^item> \<open>Libnl\<close>: what it uses of \<open>package/libs/libnl-tiny\<close>.  A message that arrives is the list of its
    attributes, parsed from the parts the kernel has put into a buffer.

  \<^item> \<open>Swlib\<close>: \<open>swlib.c\<close>.  The kernel is a table \<open>kern\<close> of what it answers; the state \<open>sw\<close> has the kernel,
    the socket with its count of references, and what was printed.

  \<^item> \<open>Swconfig_Kernel\<close>: the modelled kernel as such a table.  \<open>Swconfig_Cli\<close>: \<open>cli.c\<close> and \<open>uci.c\<close>, from
    the arguments to the exit code.

  \<^item> \<open>Swconfig_Cli_Facts\<close>: the lists of a process agree with those of the kernel, its requests find the
    attributes there, and two runs of the program are followed through all layers down to the
    registers of the chip and back to the text.

  Firmware images are handled by two programs:

  \<^item> \<open>Crc32\<close>, \<open>Stdio\<close>: the checksum (\<open>crc32.h\<close> of \<open>package/system/fwtool/src\<close>) with the locale
    \<open>checksum\<close>, what the programs rely on; files with content, permissions and a limit.

  \<^item> \<open>Fwtool\<close>, \<open>Fwtool_Facts\<close>, \<open>Fwtool_Extract_Facts\<close>: \<open>fwtool.c\<close>.  The facts give the layout of a file
    with metadata and a signature, and that the program, which sees the file through a window of two
    blocks, extracts what this layout says.

  \<^item> \<open>Otrx\<close>, \<open>Otrx_Facts\<close>: \<open>package/utils/otrx/src/otrx.c\<close>.  \<open>trx_valid\<close> says what a valid image is;
    the facts are that it is what \<open>check\<close> accepts and \<open>create\<close> makes, and that \<open>extract\<close> gives the
    parts back.  Both checksums are shown to be the division bit by bit, by interpretations of
    \<open>checksum\<close>.

  \<^bold>\<open>Bounds and fuel.\<close>  All loops of the models end by a measure, except the loader
  \<open>load_loop\<close>: it takes the number of reader calls, since a template can keep Lua reading
  forever, which is a property here.  Archives of the round trip have less than 2 GiB, which is
  what the signed offset of the compiler allows; texts have less than 4 GiB, which is what the
  32-bit size of the parser holds.  Words of PO text have at most 4080 bytes when quoted, so that
  a line fits the line buffer.  An access to the bus makes at most 288 calls: the wait for an
  acknowledgement reads at most 6 bits, as in the code, and the reset of the chip reads the
  register at most 10 times.  The contract of a chip is for at most 15 ports, the
  masks having 16 bits, and more member configurations than ports.  The room of a message buffer
  is a number \<open>ne_room\<close>: what is listed has to fit into a buffer part by part, since the code fails
  otherwise; 120 bytes are enough for the ports of a VLAN.  A request of a process has 4096 bytes, of
  which \<open>nla_reserve\<close> uses about half.  The list of switches is asked for until a buffer stays empty,
  by a measure.  Images are less than 2 GiB for \<open>fwtool\<close>, 4 GiB for \<open>otrx\<close>, whose sizes are 64-bit
  words; a disk has less than \<open>2 ^ 63\<close> bytes, and metadata and signature lie within the last block.

  \<^bold>\<open>Parameters.\<close>  The Lua compiler that reads a template, the allocator, \<open>qsort\<close>, the signedness
  of \<open>char\<close>, the content of uninitialised memory, the directory a catalog is loaded from.  In the
  kernel: what the chip answers on the bus, which allocations succeed, what sending a message, a
  GPIO request and the registration of a LED trigger return, the PHY bus, the bits of a \<open>long\<close>.  In
  user space: the files of a system with their limit and permissions, the options \<open>getopt\<close> finds, the
  packages of configuration files, the allocations of \<open>otrx\<close>, variables that were not set.

  \<^bold>\<open>Not modelled.\<close>  Netlink dumps of \<open>luci.ip\<close> (routes, neighbours, links); file descriptors and
  the release of mapped files; failing writes of the compilers; a file read through two streams at
  once; the error output of \<open>otrx\<close> and \<open>swconfig\<close>; sockets and failing allocations of \<open>swconfig\<close>.  Locks and delays of the kernel code,
  since each handler is one step; its debug files and log messages; how netlink attributes are
  encoded as bytes.  The rest of the repository (other drivers and patches, boot loaders, build
  tools, shell and Lua code) is listed in the manifest.
\<close>

end
